(* ===== verification/Go_Prelude.thy ===== *)
theory Go_Prelude
  imports Main "HOL-Library.Word" "HOL-Library.Sublist" "HOL-Library.List_Lexorder"
    "HOL-Library.Char_ord"
begin

text \<open>
  The parts of the Go language and of its standard library that the modelled packages share:
  64-bit integers with their wrap-around, instants and durations of package \<open>time\<close>,
  byte strings with the functions of \<open>strings\<close>, \<open>strconv\<close> and \<open>fmt\<close> that the code
  calls, and the list and map lemmas that the component theories use.

  \<^item> An \<open>int\<close> or \<open>int64\<close> is a HOL \<open>int\<close> together with \<open>int64_of\<close>, which is applied
    wherever the code adds or multiplies and the result could leave the 64-bit range.
  \<^item> A \<open>uint64\<close> is a \<open>64 word\<close>.
  \<^item> A \<open>time.Time\<close> is the number of nanoseconds since the zero instant (1 January of year 1,
    UTC), so that \<open>IsZero\<close> is equality with 0. A \<open>time.Duration\<close> is an \<open>int\<close>, and
    \<open>Time.Sub\<close> saturates at the bounds of \<open>int64\<close> as the library does.
  \<^item> A \<open>string\<close> is a list of bytes. \<open>ToLower\<close> is the library's function on ASCII.
  \<^item> A function that reads the clock takes the reading as an argument.
\<close>

named_theorems go_time "unfolding rules for instants and durations"
named_theorems go_frame "what an operation leaves unchanged"
named_theorems go_inv "invariants kept by operations"

type_synonym go_time = int
type_synonym duration = int
type_synonym u64 = "64 word"

section \<open>Integers of width 64\<close>

definition max_int64 :: int where
  "max_int64 = 2 ^ 63 - 1"

definition min_int64 :: int where
  "min_int64 = - (2 ^ 63)"

definition int64_of :: "int \<Rightarrow> int" where
  "int64_of x = (x + 2 ^ 63) mod 2 ^ 64 - 2 ^ 63"

definition is_int64 :: "int \<Rightarrow> bool" where
  "is_int64 x \<longleftrightarrow> min_int64 \<le> x \<and> x \<le> max_int64"

lemma int64_of_id: "is_int64 x \<Longrightarrow> int64_of x = x"
  by (simp add: is_int64_def int64_of_def min_int64_def max_int64_def)

lemma int64_of_small: "0 \<le> x \<Longrightarrow> x \<le> max_int64 \<Longrightarrow> int64_of x = x"
  by (simp add: int64_of_def max_int64_def)

lemma is_int64_int64_of: "is_int64 (int64_of x)"
proof -
  have "0 \<le> (x + 2 ^ 63) mod 2 ^ 64" and "(x + 2 ^ 63) mod 2 ^ 64 < 2 ^ 64"
    by (rule pos_mod_sign, simp, rule pos_mod_bound, simp)
  then show ?thesis
    by (simp add: is_int64_def int64_of_def min_int64_def max_int64_def)
qed

lemma int64_of_max: "int64_of (max_int64 + 1) = min_int64"
  by (simp add: int64_of_def max_int64_def min_int64_def)

section \<open>Package time\<close>

definition time_is_zero :: "go_time \<Rightarrow> bool" where
  [go_time]: "time_is_zero t \<longleftrightarrow> t = 0"

definition time_after :: "go_time \<Rightarrow> go_time \<Rightarrow> bool" where
  [go_time]: "time_after t u \<longleftrightarrow> u < t"

definition time_before :: "go_time \<Rightarrow> go_time \<Rightarrow> bool" where
  [go_time]: "time_before t u \<longleftrightarrow> t < u"

definition time_add :: "go_time \<Rightarrow> duration \<Rightarrow> go_time" where
  [go_time]: "time_add t d = t + d"

definition time_sub :: "go_time \<Rightarrow> go_time \<Rightarrow> duration" where
  "time_sub t u = max min_int64 (min max_int64 (t - u))"

lemma time_sub_exact: "is_int64 (t - u) \<Longrightarrow> time_sub t u = t - u"
  by (simp add: time_sub_def is_int64_def)

lemma time_sub_mono: "t \<le> t' \<Longrightarrow> time_sub t u \<le> time_sub t' u"
  by (simp add: time_sub_def)

lemma time_sub_gt_iff:
  "d < max_int64 \<Longrightarrow> min_int64 \<le> d \<Longrightarrow> d < time_sub t u \<longleftrightarrow> d < t - u"
  by (auto simp: time_sub_def min_def max_def)

lemma time_sub_le_iff:
  "d < max_int64 \<Longrightarrow> min_int64 \<le> d \<Longrightarrow> time_sub t u \<le> d \<longleftrightarrow> t - u \<le> d"
  using time_sub_gt_iff [of d t u] by linarith

definition Nanosecond :: duration where "Nanosecond = 1"
definition Millisecond :: duration where "Millisecond = 1000000"
definition Second :: duration where "Second = 1000000000"
definition Minute :: duration where "Minute = 60000000000"
definition Hour :: duration where "Hour = 3600000000000"

lemmas duration_units = Nanosecond_def Millisecond_def Second_def Minute_def Hour_def

section \<open>Strings\<close>

definition str_lower_char :: "char \<Rightarrow> char" where
  "str_lower_char c =
     (let n = of_char c :: nat in if 65 \<le> n \<and> n \<le> 90 then char_of (n + 32) else c)"

definition ToLower :: "string \<Rightarrow> string" where
  "ToLower s = map str_lower_char s"

definition Contains :: "string \<Rightarrow> string \<Rightarrow> bool" where
  "Contains s sub \<longleftrightarrow> sublist sub s"

definition HasPrefix :: "string \<Rightarrow> string \<Rightarrow> bool" where
  "HasPrefix s p \<longleftrightarrow> prefix p s"

definition HasSuffix :: "string \<Rightarrow> string \<Rightarrow> bool" where
  "HasSuffix s p \<longleftrightarrow> suffix p s"

definition TrimPrefix :: "string \<Rightarrow> string \<Rightarrow> string" where
  "TrimPrefix s p = (if HasPrefix s p then drop (length p) s else s)"

definition TrimSuffix :: "string \<Rightarrow> string \<Rightarrow> string" where
  "TrimSuffix s p = (if HasSuffix s p then take (length s - length p) s else s)"

lemma Trim_append [simp]: "TrimPrefix (p @ s) p = s" "TrimSuffix (s @ p) p = s"
  by (auto simp: TrimPrefix_def TrimSuffix_def HasPrefix_def HasSuffix_def suffix_def)

text \<open>A name with a given prefix and suffix that cannot overlap has something in between.\<close>

lemma prefix_suffix_split:
  assumes "prefix p n" and "suffix (c # q) n" and "c \<notin> set p"
  shows "\<exists>u. n = p @ u @ c # q"
proof -
  obtain s where s: "n = p @ s" using assms(1) by (auto simp: prefix_def)
  obtain t where t: "n = t @ c # q" using assms(2) by (auto simp: suffix_def)
  note n = s t
  then have eq: "p @ s = t @ c # q" by simp
  show ?thesis
  proof (cases "\<exists>us. p = t @ us \<and> us @ s = c # q")
    case True
    then obtain us where "p = t @ us" "us @ s = c # q" by blast
    with assms(3) have "s = c # q" by (cases us) auto
    then show ?thesis using n by auto
  next
    case False
    with eq obtain us where "p @ us = t" "s = us @ c # q" by (auto simp: append_eq_append_conv2)
    then show ?thesis using n by auto
  qed
qed

lemma length_ToLower [simp]: "length (ToLower s) = length s"
  by (simp add: ToLower_def)

text \<open>\<open>strings.Split\<close> at a separator of one byte.\<close>

fun split_char :: "char \<Rightarrow> string \<Rightarrow> string list" where
  "split_char c [] = [[]]"
| "split_char c (x # xs) =
     (if x = c then [] # split_char c xs
      else (case split_char c xs of [] \<Rightarrow> [[x]] | p # ps \<Rightarrow> (x # p) # ps))"

lemma split_char_nonempty [simp]: "split_char c s \<noteq> []"
  by (induction s) (auto split: list.splits)

fun join_char :: "char \<Rightarrow> string list \<Rightarrow> string" where
  "join_char c [] = []"
| "join_char c [p] = p"
| "join_char c (p # q # ps) = p @ c # join_char c (q # ps)"

lemma join_split_char: "join_char c (split_char c s) = s"
proof (induction s)
  case (Cons x xs)
  then show ?case
    by (cases "split_char c xs" rule: list.exhaust) (auto split: list.splits, (case_tac x22; simp)+)
qed simp

text \<open>Decimal notation, as \<open>fmt.Sprintf\<close> with verb \<open>%d\<close> writes it.\<close>

definition digit_char :: "nat \<Rightarrow> char" where
  "digit_char d = char_of (48 + d)"

fun show_nat :: "nat \<Rightarrow> string" where
  "show_nat n = (if n < 10 then [digit_char n] else show_nat (n div 10) @ [digit_char (n mod 10)])"

declare show_nat.simps [simp del]

definition show_int :: "int \<Rightarrow> string" where
  "show_int i = (if i < 0 then CHR ''-'' # show_nat (nat (- i)) else show_nat (nat i))"

lemma digit_char_inj: "d < 10 \<Longrightarrow> e < 10 \<Longrightarrow> digit_char d = digit_char e \<Longrightarrow> d = e"
proof -
  assume "d < 10" "e < 10" "digit_char d = digit_char e"
  then have "of_char (digit_char d) = (of_char (digit_char e) :: nat)" by simp
  with \<open>d < 10\<close> \<open>e < 10\<close> show "d = e" by (simp add: digit_char_def)
qed

lemma show_nat_nonempty [simp]: "show_nat n \<noteq> []" "[] \<noteq> show_nat n"
  by (subst show_nat.simps, simp)+

lemma show_nat_inj: "show_nat m = show_nat n \<Longrightarrow> m = n"
proof (induction m arbitrary: n rule: show_nat.induct)
  case (1 m)
  note eq = "1.prems"
  show ?case
  proof (cases "m < 10 \<or> n < 10")
    case True
    with eq show ?thesis
      by (auto simp: show_nat.simps [of m] show_nat.simps [of n] digit_char_inj split: if_splits)
  next
    case False
    with eq have "show_nat (m div 10) = show_nat (n div 10)"
        and "digit_char (m mod 10) = digit_char (n mod 10)"
      by (simp_all add: show_nat.simps [of m] show_nat.simps [of n])
    then have "m div 10 = n div 10" and "m mod 10 = n mod 10"
      using "1.IH" False by (simp_all add: digit_char_inj)
    then show ?thesis by (metis div_mult_mod_eq)
  qed
qed

section \<open>Lists and maps\<close>

lemma nth_update_if: "xs[i := x] ! j = (if i = j \<and> j < length xs then x else xs ! j)"
  by (cases "i < length xs") (auto simp: nth_list_update list_update_beyond)

lemma map_of_filter_neq: "map_of (filter (\<lambda>(k', v). k' \<noteq> k) xs) = (map_of xs)(k := None)"
  by (induction xs) (auto simp: fun_eq_iff)

text \<open>The value a loop that appends to a slice computes.\<close>

lemma concat_map_if: "concat (map (\<lambda>x. if P x then [f x] else []) xs) = map f (filter P xs)"
  by (induction xs) auto

end
