(* ===== verification/Apperr.thy ===== *)
theory Apperr
  imports Go_Prelude
begin

text \<open>
  Package \<open>internal/apperr\<close>: the error values that every other package returns. A Go \<open>error\<close>
  is a plain error (\<open>errors.New\<close> and the errors of libraries, known by their text), an error of
  the database driver with its result code, an error of \<open>fmt.Errorf\<close> with the error it wraps, or
  an \<open>apperr.Error\<close> with its operation, its message and the error it wraps. A \<open>nil\<close> error is
  \<open>None\<close>, and a result \<open>(value, error)\<close> is a sum with the error on the left.
\<close>

datatype error =
    Plain string
  | Coded int string
  | Errorf string error
  | AppErr (ae_Op: string) (ae_Msg: string) (ae_Err: "error option")

type_synonym 'a result = "error + 'a"

text \<open>\<open>Error.Error\<close>: the text, by the cases of the source's switch. The last case of the
  source calls a method on a nil error and so panics; that is \<open>None\<close> here.\<close>

fun Error_opt :: "error \<Rightarrow> string option" where
  "Error_opt (Plain s) = Some s"
| "Error_opt (Coded c s) = Some s"
| "Error_opt (Errorf s e) = Some s"
| "Error_opt (AppErr op msg (Some e)) =
     (case Error_opt e of None \<Rightarrow> None | Some t \<Rightarrow>
        if op \<noteq> [] \<and> msg \<noteq> [] then Some (op @ '': '' @ msg @ '': '' @ t)
        else if op \<noteq> [] then Some (op @ '': '' @ t)
        else if msg \<noteq> [] then Some (msg @ '': '' @ t)
        else Some t)"
| "Error_opt (AppErr op msg None) =
     (if op \<noteq> [] \<and> msg \<noteq> [] then Some (op @ '': '' @ msg)
      else if op \<noteq> [] then Some op
      else if msg \<noteq> [] then Some msg
      else None)"

definition Error :: "error \<Rightarrow> string" where
  "Error e = (case Error_opt e of Some s \<Rightarrow> s | None \<Rightarrow> [])"

fun Unwrap :: "error \<Rightarrow> error option" where
  "Unwrap (Plain s) = None"
| "Unwrap (Coded c s) = None"
| "Unwrap (Errorf s e) = Some e"
| "Unwrap (AppErr op msg e) = e"

definition Wrap :: "string \<Rightarrow> error option \<Rightarrow> error option" where
  "Wrap op e = (case e of None \<Rightarrow> None | Some e' \<Rightarrow> Some (AppErr op [] (Some e')))"

definition Wrapf :: "string \<Rightarrow> error option \<Rightarrow> string \<Rightarrow> error option" where
  "Wrapf op e msg = (case e of None \<Rightarrow> None | Some e' \<Rightarrow> Some (AppErr op msg (Some e')))"

text \<open>\<open>Wrap\<close> where the error is known not to be nil, the shape of every early return.\<close>

abbreviation wrap_err :: "string \<Rightarrow> error \<Rightarrow> error" where
  "wrap_err op e \<equiv> AppErr op [] (Some e)"

definition New :: "string \<Rightarrow> string \<Rightarrow> error" where
  "New op msg = AppErr op msg None"

text \<open>\<open>errors.Is\<close>: the chain of wrapped errors is searched for the target.\<close>

fun Is :: "error \<Rightarrow> error \<Rightarrow> bool" where
  "Is (Plain s) target = (Plain s = target)"
| "Is (Coded c s) target = (Coded c s = target)"
| "Is (Errorf s e) target = (Errorf s e = target \<or> Is e target)"
| "Is (AppErr op msg None) target = (AppErr op msg None = target)"
| "Is (AppErr op msg (Some e)) target = (AppErr op msg (Some e) = target \<or> Is e target)"

text \<open>\<open>errors.As\<close> with the driver's error type: the first code in the chain.\<close>

fun error_code :: "error \<Rightarrow> int option" where
  "error_code (Plain s) = None"
| "error_code (Coded c s) = Some c"
| "error_code (Errorf s e) = error_code e"
| "error_code (AppErr op msg None) = None"
| "error_code (AppErr op msg (Some e)) = error_code e"

lemma Wrap_simps [simp]:
  "Wrap op None = None"
  "Wrap op (Some e) = Some (wrap_err op e)"
  by (simp_all add: Wrap_def)

lemma Is_refl [simp]: "Is e e"
  by (cases e; cases "ae_Err e") auto

lemma Is_wrap_err [simp]: "Is e target \<Longrightarrow> Is (wrap_err op e) target"
  by simp

lemma Error_wrap: "Error_opt e = Some t \<Longrightarrow> op \<noteq> [] \<Longrightarrow> Error (wrap_err op e) = op @ '': '' @ t"
  by (simp add: Error_def)

text \<open>Every error the constructors of the package build, with an operation name, has a text:
  the panicking branch of \<open>Error.Error\<close> is out of their reach.\<close>

fun named_error :: "error \<Rightarrow> bool" where
  "named_error (Plain s) = True"
| "named_error (Coded c s) = True"
| "named_error (Errorf s e) = True"
| "named_error (AppErr op msg None) = (op \<noteq> [])"
| "named_error (AppErr op msg (Some e)) = (op \<noteq> [] \<and> named_error e)"

lemma named_error_has_text: "named_error e \<Longrightarrow> \<exists>t. Error_opt e = Some t"
  by (induction e rule: named_error.induct) auto

text \<open>Running a fallible step and continuing with its value.\<close>

definition bind_result :: "'a result \<Rightarrow> ('a \<Rightarrow> 'b result) \<Rightarrow> 'b result" where
  "bind_result r f = (case r of Inl e \<Rightarrow> Inl e | Inr x \<Rightarrow> f x)"

lemma bind_result_simps [simp]:
  "bind_result (Inl e) f = Inl e"
  "bind_result (Inr x) f = f x"
  by (simp_all add: bind_result_def)

text \<open>The same with a state that the step changes: \<open>and_then op r k\<close> is the code's
  \<open>x, err := f(); if err != nil { return apperr.Wrap(op, err) }\<close> followed by \<open>k\<close>, and \<open>and_try\<close>
  the same with the error returned as it is.\<close>

definition and_then :: "string \<Rightarrow> 'a result \<times> 'w \<Rightarrow> ('a \<Rightarrow> 'w \<Rightarrow> 'b result \<times> 'w) \<Rightarrow> 'b result \<times> 'w" where
  "and_then op r k = (case r of (Inl e, w) \<Rightarrow> (Inl (wrap_err op e), w) | (Inr x, w) \<Rightarrow> k x w)"

definition and_try :: "'a result \<times> 'w \<Rightarrow> ('a \<Rightarrow> 'w \<Rightarrow> 'b result \<times> 'w) \<Rightarrow> 'b result \<times> 'w" where
  "and_try r k = (case r of (Inl e, w) \<Rightarrow> (Inl e, w) | (Inr x, w) \<Rightarrow> k x w)"

lemma and_then_simps [simp]:
  "and_then op (Inl e, w) k = (Inl (wrap_err op e), w)"
  "and_then op (Inr x, w) k = k x w"
  "and_try (Inl e, w) k = (Inl e, w)"
  "and_try (Inr x, w) k = k x w"
  by (simp_all add: and_then_def and_try_def)

lemma and_then_Inr_iff:
  "and_then op r k = (Inr y, w') \<longleftrightarrow> (\<exists>x w. r = (Inr x, w) \<and> k x w = (Inr y, w'))"
  by (auto simp: and_then_def split: prod.splits sum.splits)

lemma and_try_Inr_iff:
  "and_try r k = (Inr y, w') \<longleftrightarrow> (\<exists>x w. r = (Inr x, w) \<and> k x w = (Inr y, w'))"
  by (auto simp: and_try_def split: prod.splits sum.splits)

text \<open>What every continuation keeps of the state is kept by the whole.\<close>

lemma and_then_frame:
  assumes "g (snd r) = g w0" and "\<And>x w. r = (Inr x, w) \<Longrightarrow> g (snd (k x w)) = g w"
  shows "g (snd (and_then op r k)) = g w0"
  using assms by (cases r; cases "fst r") auto

lemma and_try_frame:
  assumes "g (snd r) = g w0" and "\<And>x w. r = (Inr x, w) \<Longrightarrow> g (snd (k x w)) = g w"
  shows "g (snd (and_try r k)) = g w0"
  using assms by (cases r; cases "fst r") auto

lemma and_then_rel:
  assumes "R w0 (snd r)" and "\<And>x w. r = (Inr x, w) \<Longrightarrow> R w (snd (k x w))" and "transp R"
  shows "R w0 (snd (and_then op r k))"
  using assms by (cases r; cases "fst r") (auto dest: transpD)

lemma and_try_rel:
  assumes "R w0 (snd r)" and "\<And>x w. r = (Inr x, w) \<Longrightarrow> R w (snd (k x w))" and "transp R"
  shows "R w0 (snd (and_try r k))"
  using assms by (cases r; cases "fst r") (auto dest: transpD)

lemma bind_result_Inr_iff: "bind_result r f = Inr y \<longleftrightarrow> (\<exists>x. r = Inr x \<and> f x = Inr y)"
  by (cases r) auto

end
