(* ===== verification/Breaker.thy ===== *)
theory Breaker
  imports Apperr
begin

text \<open>
  Packages \<open>internal/runtime/breaker\<close> and \<open>internal/runtime/health\<close>: the circuit breaker that
  cuts off execution after a storm of failures, and the health manager that feeds it. The mutex
  of the source makes every method atomic, so a method is a function on the state; a method that
  reads the clock takes the reading.
\<close>

section \<open>The breaker\<close>

datatype breaker_state = StateClosed | StateOpen | StateHalfOpen

record circuit_breaker =
  cb_failureCount :: int
  cb_threshold :: int
  cb_window :: duration
  cb_resetTimeout :: duration
  cb_lastFailure :: go_time
  cb_state :: breaker_state

definition breaker_New :: "int \<Rightarrow> duration \<Rightarrow> duration \<Rightarrow> circuit_breaker" where
  "breaker_New threshold window resetTimeout =
     \<lparr>cb_failureCount = 0, cb_threshold = threshold, cb_window = window,
      cb_resetTimeout = resetTimeout, cb_lastFailure = 0, cb_state = StateClosed\<rparr>"

definition breaker_Allow :: "go_time \<Rightarrow> circuit_breaker \<Rightarrow> circuit_breaker \<times> bool" where
  "breaker_Allow now cb =
     (if cb_state cb = StateOpen then
        if time_sub now (cb_lastFailure cb) > cb_resetTimeout cb
        then (cb\<lparr>cb_state := StateHalfOpen\<rparr>, True)
        else (cb, False)
      else (cb, True))"

definition breaker_RecordSuccess :: "circuit_breaker \<Rightarrow> circuit_breaker" where
  "breaker_RecordSuccess cb = cb\<lparr>cb_failureCount := 0, cb_state := StateClosed\<rparr>"

definition breaker_RecordFailure :: "go_time \<Rightarrow> circuit_breaker \<Rightarrow> circuit_breaker" where
  "breaker_RecordFailure now cb =
     (let n = (if time_sub now (cb_lastFailure cb) > cb_window cb then 1
               else int64_of (cb_failureCount cb + 1));
          cb1 = cb\<lparr>cb_failureCount := n, cb_lastFailure := now\<rparr>
      in if n \<ge> cb_threshold cb1 then cb1\<lparr>cb_state := StateOpen\<rparr> else cb1)"

definition breaker_GetState :: "circuit_breaker \<Rightarrow> breaker_state" where
  "breaker_GetState cb = cb_state cb"

lemmas breaker_defs =
  breaker_New_def breaker_Allow_def breaker_RecordSuccess_def breaker_RecordFailure_def
  breaker_GetState_def

text \<open>The configuration never changes.\<close>

definition breaker_config :: "circuit_breaker \<Rightarrow> int \<times> duration \<times> duration" where
  "breaker_config cb = (cb_threshold cb, cb_window cb, cb_resetTimeout cb)"

lemma breaker_config_frame [go_frame]:
  "breaker_config (fst (breaker_Allow now cb)) = breaker_config cb"
  "breaker_config (breaker_RecordSuccess cb) = breaker_config cb"
  "breaker_config (breaker_RecordFailure now cb) = breaker_config cb"
  by (simp_all add: breaker_config_def breaker_defs Let_def)

section \<open>Runs\<close>

datatype breaker_event = CallAllow go_time | CallSuccess | CallFailure go_time

fun breaker_step :: "circuit_breaker \<Rightarrow> breaker_event \<Rightarrow> circuit_breaker \<times> bool option" where
  "breaker_step cb (CallAllow now) = (let (cb', b) = breaker_Allow now cb in (cb', Some b))"
| "breaker_step cb CallSuccess = (breaker_RecordSuccess cb, None)"
| "breaker_step cb (CallFailure now) = (breaker_RecordFailure now cb, None)"

fun breaker_run :: "circuit_breaker \<Rightarrow> breaker_event list \<Rightarrow> circuit_breaker" where
  "breaker_run cb [] = cb"
| "breaker_run cb (e # es) = breaker_run (fst (breaker_step cb e)) es"

lemma breaker_step_config: "breaker_config (fst (breaker_step cb e)) = breaker_config cb"
  by (cases e) (simp_all add: go_frame split: prod.splits, metis breaker_config_frame(1) fst_conv)

lemma breaker_run_config: "breaker_config (breaker_run cb es) = breaker_config cb"
  by (induction es arbitrary: cb) (simp_all add: breaker_step_config)

lemma breaker_run_append: "breaker_run cb (xs @ ys) = breaker_run (breaker_run cb xs) ys"
  by (induction xs arbitrary: cb) simp_all

text \<open>The counter stays in the range of its type.\<close>

lemma breaker_step_count_int64 [go_inv]:
  "is_int64 (cb_failureCount cb) \<Longrightarrow> is_int64 (cb_failureCount (fst (breaker_step cb e)))"
proof -
  have "is_int64 0" "is_int64 1"
    by (simp_all add: is_int64_def min_int64_def max_int64_def)
  then show "is_int64 (cb_failureCount cb) \<Longrightarrow> ?thesis"
    by (cases e) (auto simp: breaker_defs Let_def is_int64_int64_of)
qed

subsection \<open>Bursts of failures\<close>

text \<open>A burst: failures at the given instants, each within the window of the one before.\<close>

fun within_window :: "duration \<Rightarrow> go_time \<Rightarrow> go_time list \<Rightarrow> bool" where
  "within_window w t [] = True"
| "within_window w t (u # us) = (time_sub u t \<le> w \<and> within_window w u us)"

abbreviation failures :: "go_time list \<Rightarrow> breaker_event list" where
  "failures ts \<equiv> map CallFailure ts"

lemma burst_count:
  assumes "within_window (cb_window cb) (cb_lastFailure cb) ts"
    and "0 \<le> cb_failureCount cb"
    and "cb_failureCount cb + int (length ts) \<le> max_int64"
  shows "cb_failureCount (breaker_run cb (failures ts)) = cb_failureCount cb + int (length ts)"
  using assms
proof (induction ts arbitrary: cb)
  case (Cons t ts)
  let ?cb = "breaker_RecordFailure t cb"
  have bound: "0 \<le> cb_failureCount cb + 1" "cb_failureCount cb + 1 \<le> max_int64"
    using Cons.prems by simp_all
  have "cb_failureCount ?cb = cb_failureCount cb + 1"
    using Cons.prems(1) int64_of_small [OF bound] by (simp add: breaker_RecordFailure_def Let_def)
  moreover have "cb_window ?cb = cb_window cb" "cb_lastFailure ?cb = t"
    by (simp_all add: breaker_RecordFailure_def Let_def)
  ultimately show ?case
    using Cons.prems Cons.IH [of ?cb] by simp
qed simp

lemma failure_state:
  "cb_state (breaker_RecordFailure t cb) =
     (if cb_threshold cb \<le> cb_failureCount (breaker_RecordFailure t cb) then StateOpen
      else cb_state cb)"
  by (simp add: breaker_RecordFailure_def Let_def)

lemma last_failure_state:
  assumes "ts \<noteq> []"
  shows "cb_state (breaker_run cb (failures ts)) =
    (if cb_threshold cb \<le> cb_failureCount (breaker_run cb (failures ts)) then StateOpen
     else cb_state (breaker_run cb (failures (butlast ts))))"
proof -
  have split: "failures ts = failures (butlast ts) @ [CallFailure (last ts)]"
    using assms by (metis append_butlast_last_id list.simps(8) list.simps(9) map_append)
  have "cb_threshold (breaker_run cb (failures (butlast ts))) = cb_threshold cb"
    using breaker_run_config [of cb] by (simp add: breaker_config_def)
  then show ?thesis
    by (simp add: split breaker_run_append failure_state)
qed

lemma within_window_butlast: "within_window w t ts \<Longrightarrow> within_window w t (butlast ts)"
  by (induction ts arbitrary: t) auto

lemma burst_closed:
  assumes "within_window (cb_window cb) (cb_lastFailure cb) ts"
    and "0 \<le> cb_failureCount cb" and "cb_state cb = StateClosed"
    and "cb_failureCount cb + int (length ts) < cb_threshold cb"
    and "cb_threshold cb \<le> max_int64"
  shows "cb_state (breaker_run cb (failures ts)) = StateClosed"
  using assms
proof (induction ts rule: rev_induct)
  case (snoc t ts)
  have w: "within_window (cb_window cb) (cb_lastFailure cb) ts"
    using within_window_butlast [OF snoc.prems(1)] by simp
  have c: "cb_failureCount (breaker_run cb (failures (ts @ [t])))
      = cb_failureCount cb + int (length (ts @ [t]))"
    by (rule burst_count [OF snoc.prems(1)]) (use snoc.prems in simp_all)
  show ?case
    using last_failure_state [of "ts @ [t]" cb] c snoc.IH [OF w] snoc.prems by simp
qed simp

subsection \<open>Refusal while open\<close>

lemma open_refuses:
  "cb_state cb = StateOpen \<Longrightarrow> time_sub now (cb_lastFailure cb) \<le> cb_resetTimeout cb
   \<Longrightarrow> breaker_step cb (CallAllow now) = (cb, Some False)"
  by (simp add: breaker_Allow_def)

section \<open>The health manager\<close>

record health_manager =
  hm_startTime :: go_time
  hm_lastSuccess :: go_time
  hm_lastFailure :: go_time
  hm_consecutiveFails :: int
  hm_breaker :: circuit_breaker

datatype health_label = Healthy | Degraded | Failing

record health_status =
  hs_Status :: health_label
  hs_LastSuccess :: go_time
  hs_LastFailure :: go_time
  hs_ConsecutiveFails :: int
  hs_BreakerState :: breaker_state
  hs_Uptime :: duration

definition health_New :: "go_time \<Rightarrow> circuit_breaker \<Rightarrow> health_manager" where
  "health_New now cb =
     \<lparr>hm_startTime = now, hm_lastSuccess = 0, hm_lastFailure = 0, hm_consecutiveFails = 0,
      hm_breaker = cb\<rparr>"

definition health_RecordSuccess :: "go_time \<Rightarrow> health_manager \<Rightarrow> health_manager" where
  "health_RecordSuccess now h =
     h\<lparr>hm_lastSuccess := now, hm_consecutiveFails := 0,
       hm_breaker := breaker_RecordSuccess (hm_breaker h)\<rparr>"

text \<open>The manager and its breaker each read the clock.\<close>

definition health_RecordFailure :: "go_time \<Rightarrow> go_time \<Rightarrow> health_manager \<Rightarrow> health_manager" where
  "health_RecordFailure now now_cb h =
     h\<lparr>hm_lastFailure := now, hm_consecutiveFails := int64_of (hm_consecutiveFails h + 1),
       hm_breaker := breaker_RecordFailure now_cb (hm_breaker h)\<rparr>"

definition health_GetStatus :: "go_time \<Rightarrow> health_manager \<Rightarrow> health_status" where
  "health_GetStatus now h =
     (let status = Healthy;
          status = (if hm_consecutiveFails h > 0 then Degraded else status);
          status = (if breaker_GetState (hm_breaker h) = StateOpen then Failing else status)
      in \<lparr>hs_Status = status, hs_LastSuccess = hm_lastSuccess h,
          hs_LastFailure = hm_lastFailure h, hs_ConsecutiveFails = hm_consecutiveFails h,
          hs_BreakerState = breaker_GetState (hm_breaker h),
          hs_Uptime = time_sub now (hm_startTime h)\<rparr>)"

lemmas health_defs =
  health_New_def health_RecordSuccess_def health_RecordFailure_def health_GetStatus_def

lemma GetStatus_failing_iff:
  "hs_Status (health_GetStatus now h) = Failing \<longleftrightarrow> cb_state (hm_breaker h) = StateOpen"
  by (auto simp: health_defs breaker_GetState_def Let_def)

section \<open>Properties\<close>

text \<open>
  After a success, failures that follow each other within the window leave the breaker closed
  as long as there are fewer than the threshold of them, and the failure that reaches the
  threshold opens it: the breaker opens at the threshold, neither before nor after. The first
  failure of the burst starts the count whether or not it falls in the window of an older failure.
\<close>

theorem breaker_opens_at_threshold:
  assumes "1 \<le> cb_threshold cb" and "cb_threshold cb \<le> max_int64"
    and "within_window (cb_window cb) t ts"
    and "int (length (t # ts)) \<le> cb_threshold cb"
  shows "cb_state (breaker_run (breaker_RecordSuccess cb) (failures (t # ts))) =
    (if int (length (t # ts)) = cb_threshold cb then StateOpen else StateClosed)"
proof -
  let ?cb = "breaker_RecordFailure t (breaker_RecordSuccess cb)"
  have one: "int64_of 1 = 1" by (rule int64_of_small) (simp_all add: max_int64_def)
  have cfg: "cb_window ?cb = cb_window cb" "cb_lastFailure ?cb = t"
      "cb_threshold ?cb = cb_threshold cb" "cb_failureCount ?cb = 1"
    using one by (simp_all add: breaker_defs Let_def)
  have st: "cb_state ?cb = (if cb_threshold cb \<le> 1 then StateOpen else StateClosed)"
    by (simp add: failure_state cfg) (simp add: breaker_RecordSuccess_def)
  have count: "cb_failureCount (breaker_run ?cb (failures us)) = 1 + int (length us)"
    if "within_window (cb_window cb) t us" "int (length us) < cb_threshold cb" for us
    using burst_count [of ?cb us] that assms(2) by (simp add: cfg)
  show ?thesis
  proof (cases "ts = []")
    case True
    with assms(1,4) st show ?thesis by auto
  next
    case False
    then have "1 + int (length (butlast ts)) < cb_threshold cb"
      using assms(4) by (cases ts) simp_all
    then have "cb_state (breaker_run ?cb (failures (butlast ts))) = StateClosed"
      using burst_closed [of ?cb "butlast ts"] within_window_butlast [OF assms(3)] assms(2)
      by (simp only: cfg st) simp
    then show ?thesis
      using last_failure_state [OF False, of ?cb] count [OF assms(3)] assms(4) by (simp add: cfg)
  qed
qed

theorem breaker_opens_at_threshold_witness:
  "cb_state (breaker_run (breaker_RecordSuccess (breaker_New 3 (5 * Minute) Minute))
     (failures [10 * Hour, 10 * Hour + Minute, 10 * Hour + 2 * Minute])) = StateOpen"
  using breaker_opens_at_threshold
    [of "breaker_New 3 (5 * Minute) Minute" "10 * Hour" "[10 * Hour + Minute, 10 * Hour + 2 * Minute]"]
  by (simp add: breaker_New_def duration_units max_int64_def min_int64_def time_sub_def)

text \<open>
  While the breaker is open, every call of \<open>Allow\<close> made no later than the reset timeout after
  the last failure is refused, however many there are, and none of them changes the breaker; the
  first call after the timeout is admitted as the half-open probe.
\<close>

theorem breaker_open_refuses_until_timeout:
  assumes "cb_state cb = StateOpen"
    and "\<forall>t \<in> set ts. time_sub t (cb_lastFailure cb) \<le> cb_resetTimeout cb"
    and "cb_resetTimeout cb < time_sub now (cb_lastFailure cb)"
  shows "breaker_run cb (map CallAllow ts) = cb
    \<and> (\<forall>t \<in> set ts. snd (breaker_Allow t (breaker_run cb (map CallAllow ts))) = False)
    \<and> breaker_Allow now (breaker_run cb (map CallAllow ts)) = (cb\<lparr>cb_state := StateHalfOpen\<rparr>, True)"
proof -
  have run: "breaker_run cb (map CallAllow ts) = cb"
    using assms(1,2)
  proof (induction ts)
    case (Cons t ts)
    then show ?case using open_refuses [of cb t] by simp
  qed simp
  show ?thesis
    using assms by (auto simp: run breaker_Allow_def)
qed

theorem breaker_open_refuses_until_timeout_witness:
  "breaker_Allow (Hour + 2 * Minute)
     (breaker_run ((breaker_New 1 (5 * Minute) Minute)\<lparr>cb_state := StateOpen, cb_lastFailure := Hour\<rparr>)
       (map CallAllow [Hour + 1, Hour + Minute]))
   = ((breaker_New 1 (5 * Minute) Minute)\<lparr>cb_state := StateHalfOpen, cb_lastFailure := Hour\<rparr>, True)"
  using breaker_open_refuses_until_timeout
    [of "(breaker_New 1 (5 * Minute) Minute)\<lparr>cb_state := StateOpen, cb_lastFailure := Hour\<rparr>"
       "[Hour + 1, Hour + Minute]" "Hour + 2 * Minute", THEN conjunct2, THEN conjunct2]
  by (simp add: breaker_New_def duration_units max_int64_def min_int64_def time_sub_def
        del: breaker_run.simps list.map)

text \<open>
  A failed probe need not open the breaker again. If the failure of a half-open probe comes
  later than the window after the previous failure, the counter restarts at 1, so with a threshold
  above 1 the breaker stays half-open and admits the next call at any instant.
\<close>

theorem breaker_failed_probe_stays_half_open:
  assumes "cb_state cb = StateHalfOpen" and "1 < cb_threshold cb"
    and "cb_window cb < time_sub now (cb_lastFailure cb)"
  shows "cb_state (breaker_RecordFailure now cb) = StateHalfOpen
    \<and> snd (breaker_Allow later (breaker_RecordFailure now cb))"
  using assms by (simp add: breaker_defs Let_def)

theorem breaker_failed_probe_stays_half_open_witness:
  "let cb = (breaker_New 5 (5 * Minute) Minute)\<lparr>cb_state := StateHalfOpen, cb_lastFailure := Hour\<rparr>
   in cb_state (breaker_RecordFailure (Hour + 6 * Minute) cb) = StateHalfOpen"
  using breaker_failed_probe_stays_half_open
    [of "(breaker_New 5 (5 * Minute) Minute)\<lparr>cb_state := StateHalfOpen, cb_lastFailure := Hour\<rparr>"
       "Hour + 6 * Minute" 0]
  by (simp add: breaker_New_def duration_units max_int64_def min_int64_def time_sub_def)

end
