(* ===== verification/Go_Sha256.thy ===== *)
theory Go_Sha256
  imports Go_Prelude
begin

text \<open>
  The standard package \<open>crypto/sha256\<close> with the hexadecimal text that the callers make of its sums
  (\<open>hex.EncodeToString\<close>, the verb for hexadecimal). Scope identifiers, plan keys, checkpoint
  checksums and approval lineages are such texts. The definitions follow FIPS 180-4 on 32-bit
  words. Nothing in the development assumes that two texts have different sums.
\<close>

unbundle bit_operations_syntax

type_synonym u32 = "32 word"

definition sha_K :: "u32 list" where
  "sha_K =
     [1116352408, 1899447441, 3049323471, 3921009573, 961987163, 1508970993,
      2453635748, 2870763221, 3624381080, 310598401, 607225278, 1426881987,
      1925078388, 2162078206, 2614888103, 3248222580, 3835390401, 4022224774,
      264347078, 604807628, 770255983, 1249150122, 1555081692, 1996064986,
      2554220882, 2821834349, 2952996808, 3210313671, 3336571891, 3584528711,
      113926993, 338241895, 666307205, 773529912, 1294757372, 1396182291,
      1695183700, 1986661051, 2177026350, 2456956037, 2730485921, 2820302411,
      3259730800, 3345764771, 3516065817, 3600352804, 4094571909, 275423344,
      430227734, 506948616, 659060556, 883997877, 958139571, 1322822218,
      1537002063, 1747873779, 1955562222, 2024104815, 2227730452, 2361852424,
      2428436474, 2756734187, 3204031479, 3329325298]"

definition sha_H0 :: "u32 list" where
  "sha_H0 =
     [1779033703, 3144134277, 1013904242, 2773480762, 1359893119, 2600822924,
      528734635, 1541459225]"

definition sha_S0 :: "u32 \<Rightarrow> u32" where
  "sha_S0 x = word_rotr 2 x XOR word_rotr 13 x XOR word_rotr 22 x"

definition sha_S1 :: "u32 \<Rightarrow> u32" where
  "sha_S1 x = word_rotr 6 x XOR word_rotr 11 x XOR word_rotr 25 x"

definition sha_s0 :: "u32 \<Rightarrow> u32" where
  "sha_s0 x = word_rotr 7 x XOR word_rotr 18 x XOR drop_bit 3 x"

definition sha_s1 :: "u32 \<Rightarrow> u32" where
  "sha_s1 x = word_rotr 17 x XOR word_rotr 19 x XOR drop_bit 10 x"

text \<open>Padding to blocks of 64 bytes: the byte 128, zeros, and the bit length in 8 bytes.\<close>

definition be_bytes :: "nat \<Rightarrow> nat \<Rightarrow> nat list" where
  "be_bytes k n = rev (map (\<lambda>i. n div 256 ^ i mod 256) [0..<k])"

definition sha_pad :: "string \<Rightarrow> nat list" where
  "sha_pad s =
     map of_char s @ 128 # replicate ((119 - length s mod 64) mod 64) 0 @ be_bytes 8 (8 * length s)"

fun words_of :: "nat list \<Rightarrow> u32 list" where
  "words_of (a # b # c # d # xs) = of_nat (((a * 256 + b) * 256 + c) * 256 + d) # words_of xs"
| "words_of _ = []"

fun sha_extend :: "nat \<Rightarrow> u32 list \<Rightarrow> u32 list" where
  "sha_extend 0 ws = ws"
| "sha_extend (Suc k) ws =
     (let t = length ws in
      sha_extend k (ws @ [sha_s1 (ws ! (t - 2)) + ws ! (t - 7) + sha_s0 (ws ! (t - 15)) + ws ! (t - 16)]))"

record sha_vars =
  va :: u32
  vb :: u32
  vc :: u32
  vd :: u32
  ve :: u32
  vf :: u32
  vg :: u32
  vh :: u32

definition sha_round :: "u32 \<times> u32 \<Rightarrow> sha_vars \<Rightarrow> sha_vars" where
  "sha_round kw v =
     (let t1 = vh v + sha_S1 (ve v) + ((ve v AND vf v) XOR (NOT (ve v) AND vg v)) + fst kw + snd kw;
          t2 = sha_S0 (va v) + ((va v AND vb v) XOR (va v AND vc v) XOR (vb v AND vc v))
      in \<lparr>va = t1 + t2, vb = va v, vc = vb v, vd = vc v, ve = vd v + t1, vf = ve v, vg = vf v,
          vh = vg v\<rparr>)"

definition vars_of :: "u32 list \<Rightarrow> sha_vars" where
  "vars_of H =
     \<lparr>va = H ! 0, vb = H ! 1, vc = H ! 2, vd = H ! 3, ve = H ! 4, vf = H ! 5, vg = H ! 6, vh = H ! 7\<rparr>"

definition list_of_vars :: "sha_vars \<Rightarrow> u32 list" where
  "list_of_vars v = [va v, vb v, vc v, vd v, ve v, vf v, vg v, vh v]"

definition sha_block :: "u32 list \<Rightarrow> u32 list \<Rightarrow> u32 list" where
  "sha_block H ws =
     map2 (+) H (list_of_vars (fold sha_round (zip sha_K (sha_extend 48 ws)) (vars_of H)))"

fun sha_blocks :: "nat \<Rightarrow> u32 list \<Rightarrow> u32 list \<Rightarrow> u32 list" where
  "sha_blocks 0 H ws = H"
| "sha_blocks (Suc n) H ws = sha_blocks n (sha_block H (take 16 ws)) (drop 16 ws)"

definition sha256_words :: "string \<Rightarrow> u32 list" where
  "sha256_words s =
     (let ws = words_of (sha_pad s) in sha_blocks (length ws div 16) sha_H0 ws)"

definition hex_char :: "nat \<Rightarrow> char" where
  "hex_char d = (if d < 10 then char_of (48 + d) else char_of (87 + d))"

definition hex_word :: "u32 \<Rightarrow> string" where
  "hex_word w = rev (map (\<lambda>i. hex_char (unat w div 16 ^ i mod 16)) [0..<8])"

text \<open>The sum of a text in hexadecimal: 64 characters, two for each of its 32 bytes.\<close>

definition sha256_hex :: "string \<Rightarrow> string" where
  "sha256_hex s = concat (map hex_word (sha256_words s))"

subsection \<open>Length of the text\<close>

lemma length_sha_block [simp]: "length H = 8 \<Longrightarrow> length (sha_block H ws) = 8"
  by (simp add: sha_block_def list_of_vars_def)

lemma length_sha_blocks: "length H = 8 \<Longrightarrow> length (sha_blocks n H ws) = 8"
  by (induction n arbitrary: H ws) simp_all

lemma length_hex_word [simp]: "length (hex_word w) = 8"
  by (simp add: hex_word_def)

lemma length_sha256_hex [simp]: "length (sha256_hex s) = 64"
proof -
  have "length (sha256_words s) = 8"
    unfolding sha256_words_def Let_def by (rule length_sha_blocks) (simp add: sha_H0_def)
  moreover have "length (concat (map hex_word ws)) = 8 * length ws" for ws
    by (induction ws) simp_all
  ultimately show ?thesis by (simp add: sha256_hex_def)
qed

end
