(* ===== verification/Runtime_Scope.thy ===== *)
theory Runtime_Scope
  imports Apperr Go_Sha256
begin

text \<open>
  Package \<open>internal/runtime/scope\<close>: the tenant, account, zone and environment that a piece of work is
  about, and the identifier under which its state, leases and events are kept: the first 16
  characters of the digest of the four names.
\<close>

record runtime_scope =
  sc_Tenant :: string
  sc_AccountID :: string
  sc_ZoneID :: string
  sc_Environment :: string

definition scope_ID :: "runtime_scope \<Rightarrow> string" where
  "scope_ID s =
     take 16 (sha256_hex (sc_Tenant s @ ''|'' @ sc_AccountID s @ ''|'' @ sc_ZoneID s @ ''|''
       @ sc_Environment s))"

lemma length_scope_ID [simp]: "length (scope_ID s) = 16"
  by (simp add: scope_ID_def)

end
