(* ===== verification/Go_Heap.thy ===== *)
theory Go_Heap
  imports Main "HOL-Library.Multiset"
begin

text \<open>
  The algorithms of the standard package \<open>container/heap\<close>, which
  \<open>internal/runtime/scheduler/queue\<close> runs on its \<open>workItemHeap\<close>. As in Go they act on a
  collection only through its interface: the functions \<open>Less\<close> (by positions) and \<open>Swap\<close> (of
  positions). The locale \<open>heap_interface\<close> states what the package asks of a collection, and its
  lemmas what the package promises in return: the elements are kept, the heap order is restored,
  and position 0 holds a least element.
\<close>

section \<open>The algorithms\<close>

definition parent :: "nat \<Rightarrow> nat" where
  "parent k = (k - 1) div 2"

lemma parent_less: "0 < k \<Longrightarrow> parent k < k"
  by (auto simp: parent_def)

lemma parent_0 [simp]: "parent 0 = 0"
  by (simp add: parent_def)

lemma parent_children: "parent k = i \<and> 0 < k \<longleftrightarrow> k = 2 * i + 1 \<or> k = 2 * i + 2"
  by (auto simp: parent_def)

function heap_up :: "(nat \<Rightarrow> nat \<Rightarrow> 's \<Rightarrow> bool) \<Rightarrow> (nat \<Rightarrow> nat \<Rightarrow> 's \<Rightarrow> 's) \<Rightarrow> nat \<Rightarrow> 's \<Rightarrow> 's" where
  "heap_up Less Swap j h =
     (let i = parent j in
      if i = j \<or> \<not> Less j i h then h else heap_up Less Swap i (Swap i j h))"
  by pat_completeness auto
termination
  by (relation "measure (\<lambda>(Less, Swap, j, h). j)") (auto, metis parent_less gr0I parent_0)

text \<open>The child that \<open>down\<close> compares with: the right one if it exists and is less than the left.\<close>

definition pick_child :: "(nat \<Rightarrow> nat \<Rightarrow> 's \<Rightarrow> bool) \<Rightarrow> nat \<Rightarrow> nat \<Rightarrow> 's \<Rightarrow> nat" where
  "pick_child Less i n h =
     (let j1 = 2 * i + 1; j2 = j1 + 1 in if j2 < n \<and> Less j2 j1 h then j2 else j1)"

lemma pick_child_gt: "i < pick_child Less i n h"
  by (simp add: pick_child_def Let_def)

text \<open>\<open>heap_down\<close> returns the collection and the position where the loop stopped.\<close>

function heap_down ::
  "(nat \<Rightarrow> nat \<Rightarrow> 's \<Rightarrow> bool) \<Rightarrow> (nat \<Rightarrow> nat \<Rightarrow> 's \<Rightarrow> 's) \<Rightarrow> nat \<Rightarrow> nat \<Rightarrow> 's \<Rightarrow> 's \<times> nat" where
  "heap_down Less Swap i n h =
     (let j1 = 2 * i + 1 in
      if j1 \<ge> n then (h, i)
      else let j = pick_child Less i n h in
        if \<not> Less j i h then (h, i) else heap_down Less Swap j n (Swap i j h))"
  by pat_completeness auto
termination
  by (relation "measure (\<lambda>(Less, Swap, i, n, h). n - i)") (auto intro: diff_less_mono2 pick_child_gt)

declare heap_up.simps [simp del] heap_down.simps [simp del]

definition heap_Fix ::
  "(nat \<Rightarrow> nat \<Rightarrow> 's \<Rightarrow> bool) \<Rightarrow> (nat \<Rightarrow> nat \<Rightarrow> 's \<Rightarrow> 's) \<Rightarrow> nat \<Rightarrow> nat \<Rightarrow> 's \<Rightarrow> 's" where
  "heap_Fix Less Swap i n h =
     (let (h', k) = heap_down Less Swap i n h in
      if k > i then h' else heap_up Less Swap i h')"

section \<open>Swapping two elements of a list\<close>

definition list_swap :: "nat \<Rightarrow> nat \<Rightarrow> 'a list \<Rightarrow> 'a list" where
  "list_swap i j xs = xs[i := xs ! j, j := xs ! i]"

lemma length_list_swap [simp]: "length (list_swap i j xs) = length xs"
  by (simp add: list_swap_def)

lemma nth_list_swap:
  "i < length xs \<Longrightarrow> j < length xs \<Longrightarrow> k < length xs \<Longrightarrow>
   list_swap i j xs ! k = (if k = i then xs ! j else if k = j then xs ! i else xs ! k)"
  by (auto simp: list_swap_def nth_list_update)

lemma mset_list_swap: "i < length xs \<Longrightarrow> j < length xs \<Longrightarrow> mset (list_swap i j xs) = mset xs"
  by (simp add: list_swap_def mset_swap)

section \<open>Heap order on positions\<close>

definition ordered_at :: "('a \<Rightarrow> 'a \<Rightarrow> bool) \<Rightarrow> 'a list \<Rightarrow> nat \<Rightarrow> bool" where
  "ordered_at lt xs k \<longleftrightarrow> k = 0 \<or> \<not> lt (xs ! k) (xs ! parent k)"

definition is_heap :: "('a \<Rightarrow> 'a \<Rightarrow> bool) \<Rightarrow> nat \<Rightarrow> 'a list \<Rightarrow> bool" where
  "is_heap lt n xs \<longleftrightarrow> (\<forall>k < n. ordered_at lt xs k)"

text \<open>Order everywhere but at position \<open>j\<close>, whose children still respect its parent.\<close>

definition heap_but_up :: "('a \<Rightarrow> 'a \<Rightarrow> bool) \<Rightarrow> nat \<Rightarrow> nat \<Rightarrow> 'a list \<Rightarrow> bool" where
  "heap_but_up lt n j xs \<longleftrightarrow>
     (\<forall>k < n. k \<noteq> j \<longrightarrow> ordered_at lt xs k)
     \<and> (\<forall>k < n. 0 < k \<and> 0 < j \<and> parent k = j \<longrightarrow> \<not> lt (xs ! k) (xs ! parent j))"

text \<open>Order everywhere but below position \<open>i\<close>, whose children still respect its parent.\<close>

definition heap_but_down :: "('a \<Rightarrow> 'a \<Rightarrow> bool) \<Rightarrow> nat \<Rightarrow> nat \<Rightarrow> 'a list \<Rightarrow> bool" where
  "heap_but_down lt n i xs \<longleftrightarrow>
     (\<forall>k < n. 0 < k \<and> parent k \<noteq> i \<longrightarrow> ordered_at lt xs k)
     \<and> (\<forall>k < n. 0 < k \<and> 0 < i \<and> parent k = i \<longrightarrow> \<not> lt (xs ! k) (xs ! parent i))"

text \<open>Order everywhere but at and below position \<open>i\<close>: the situation after an element changed.\<close>

definition heap_but :: "('a \<Rightarrow> 'a \<Rightarrow> bool) \<Rightarrow> nat \<Rightarrow> nat \<Rightarrow> 'a list \<Rightarrow> bool" where
  "heap_but lt n i xs \<longleftrightarrow>
     (\<forall>k < n. 0 < k \<and> k \<noteq> i \<and> parent k \<noteq> i \<longrightarrow> ordered_at lt xs k)
     \<and> (\<forall>k < n. 0 < k \<and> 0 < i \<and> parent k = i \<longrightarrow> \<not> lt (xs ! k) (xs ! parent i))"

locale heap_order =
  fixes lt :: "'a \<Rightarrow> 'a \<Rightarrow> bool"
  assumes lt_asym: "lt a b \<Longrightarrow> \<not> lt b a"
    and not_lt_trans: "\<not> lt b a \<Longrightarrow> \<not> lt c b \<Longrightarrow> \<not> lt c a"
begin

lemma lt_irrefl [simp]: "\<not> lt a a"
  using lt_asym by blast

lemma lt_not_lt_trans: "lt a b \<Longrightarrow> \<not> lt c b \<Longrightarrow> lt a c"
  using not_lt_trans lt_asym by blast

lemma not_lt_lt_trans: "\<not> lt b a \<Longrightarrow> lt b c \<Longrightarrow> lt a c"
  using not_lt_trans by blast

lemma heap_root_least: "is_heap lt n xs \<Longrightarrow> k < n \<Longrightarrow> \<not> lt (xs ! k) (xs ! 0)"
proof (induction k rule: less_induct)
  case (less k)
  show ?case
  proof (cases "k = 0")
    case False
    then have "\<not> lt (xs ! parent k) (xs ! 0)" and "\<not> lt (xs ! k) (xs ! parent k)"
      using less parent_less [of k] by (auto simp: is_heap_def ordered_at_def)
    then show ?thesis by (rule not_lt_trans)
  qed simp
qed

text \<open>One turn of the loop of \<open>up\<close>.\<close>

lemma up_stop: "heap_but_up lt n j xs \<Longrightarrow> j = 0 \<or> \<not> lt (xs ! j) (xs ! parent j) \<Longrightarrow> is_heap lt n xs"
  by (auto simp: heap_but_up_def is_heap_def ordered_at_def)

lemma up_turn:
  assumes inv: "heap_but_up lt n j xs" and j: "0 < j" "j < n" "n \<le> length xs"
    and less: "lt (xs ! j) (xs ! parent j)"
  shows "heap_but_up lt n (parent j) (list_swap (parent j) j xs)"
proof -
  let ?i = "parent j" and ?ys = "list_swap (parent j) j xs"
  have ij: "?i < j" "?i < length xs" "j < length xs" "?i < n" using j parent_less [of j] by linarith+
  have nth: "?ys ! k = (if k = ?i then xs ! j else if k = j then xs ! ?i else xs ! k)"
    if "k < n" for k using nth_list_swap [of ?i xs j k] ij j that by simp
  have ord: "\<not> lt (xs ! k) (xs ! parent k)" if "k < n" "0 < k" "k \<noteq> j" for k
    using inv that by (auto simp: heap_but_up_def ordered_at_def)
  have grand: "\<not> lt (xs ! k) (xs ! ?i)" if "k < n" "0 < k" "parent k = j" for k
    using inv that j by (auto simp: heap_but_up_def)
  have A: "ordered_at lt ?ys k" if k: "k < n" "k \<noteq> ?i" for k
  proof (cases "k = 0")
    case False
    then have pk: "parent k < n" using k(1) parent_less [of k] by linarith
    show ?thesis
    proof (cases "k = j")
      case True
      with less ij pk k show ?thesis by (simp add: ordered_at_def nth lt_asym)
    next
      case kj: False
      have "\<not> lt (xs ! k) (if parent k = ?i then xs ! j else if parent k = j then xs ! ?i else xs ! parent k)"
        using ord [OF k(1) _ kj] grand [OF k(1)] less False lt_not_lt_trans not_lt_trans lt_asym
        by (smt (verit) gr0I)
      then show ?thesis using kj k pk by (simp add: ordered_at_def nth)
    qed
  qed (simp add: ordered_at_def)
  have B: "\<not> lt (?ys ! k) (?ys ! parent ?i)" if k: "k < n" "0 < k" "0 < ?i" "parent k = ?i" for k
  proof -
    have p: "parent ?i < ?i" "parent ?i < n" using k(3) ij j parent_less [of ?i] by linarith+
    have i: "\<not> lt (xs ! ?i) (xs ! parent ?i)" using ord [of ?i] k(3) ij j by simp
    have "k \<noteq> ?i" using k by (metis parent_less less_irrefl)
    moreover have "\<not> lt (xs ! k) (xs ! parent ?i)" if "k \<noteq> j"
      using not_lt_trans [OF i] ord [OF k(1,2) that] k(4) by simp
    ultimately show ?thesis using nth [OF k(1)] nth [OF p(2)] p ij i by auto
  qed
  show ?thesis unfolding heap_but_up_def using A B by blast
qed

text \<open>One turn of the loop of \<open>down\<close>.\<close>

lemma down_stop:
  assumes "heap_but_down lt n i xs" and "\<forall>k < n. 0 < k \<and> parent k = i \<longrightarrow> \<not> lt (xs ! k) (xs ! i)"
  shows "is_heap lt n xs"
  using assms by (auto simp: heap_but_down_def is_heap_def ordered_at_def)

lemma down_turn:
  assumes inv: "heap_but_down lt n i xs" and j: "0 < j" "parent j = i" "j < n" "n \<le> length xs"
    and least: "\<forall>k < n. 0 < k \<and> parent k = i \<longrightarrow> \<not> lt (xs ! k) (xs ! j)"
    and less: "lt (xs ! j) (xs ! i)"
  shows "heap_but_down lt n j (list_swap i j xs)"
proof -
  let ?ys = "list_swap i j xs"
  have ij: "i < j" "i < length xs" "j < length xs" "i < n" using j parent_less [of j] by linarith+
  have nth: "?ys ! k = (if k = i then xs ! j else if k = j then xs ! i else xs ! k)"
    if "k < n" for k using nth_list_swap [of i xs j k] ij j that by simp
  have ord: "\<not> lt (xs ! k) (xs ! parent k)" if "k < n" "0 < k" "parent k \<noteq> i" for k
    using inv that by (auto simp: heap_but_down_def ordered_at_def)
  have A: "ordered_at lt ?ys k" if k: "k < n" "0 < k" "parent k \<noteq> j" for k
  proof -
    have pk: "parent k < k" "parent k < n" using k parent_less [of k] by linarith+
    consider "k = i" | "parent k = i" "k \<noteq> j" | "k = j" | "k \<noteq> i" "k \<noteq> j" "parent k \<noteq> i" by blast
    then show ?thesis
    proof cases
      case 1
      then have "\<not> lt (xs ! j) (xs ! parent k)" using inv j k by (auto simp: heap_but_down_def)
      with 1 pk k ij show ?thesis by (auto simp: ordered_at_def nth)
    next
      case 2
      with least k pk ij show ?thesis by (auto simp: ordered_at_def nth)
    next
      case 3
      with less lt_asym j ij show ?thesis by (auto simp: ordered_at_def nth)
    next
      case 4
      with ord [OF k(1,2)] k pk show ?thesis by (auto simp: ordered_at_def nth)
    qed
  qed
  have B: "\<not> lt (?ys ! k) (?ys ! parent j)" if k: "k < n" "0 < k" "parent k = j" for k
  proof -
    have "k \<noteq> i" "k \<noteq> j" using k ij parent_less [of k] by auto
    then show ?thesis using ord [OF k(1,2)] k j ij by (simp add: nth)
  qed
  show ?thesis unfolding heap_but_down_def using A B by blast
qed

end

section \<open>The interface\<close>

locale heap_interface = heap_order lt for lt :: "'a \<Rightarrow> 'a \<Rightarrow> bool" +
  fixes Less :: "nat \<Rightarrow> nat \<Rightarrow> 's \<Rightarrow> bool"
    and Swap :: "nat \<Rightarrow> nat \<Rightarrow> 's \<Rightarrow> 's"
    and elems :: "'s \<Rightarrow> 'a list"
    and wf :: "'s \<Rightarrow> bool"
  assumes Less_elems:
      "wf h \<Longrightarrow> i < length (elems h) \<Longrightarrow> j < length (elems h) \<Longrightarrow>
       Less i j h = lt (elems h ! i) (elems h ! j)"
    and elems_Swap:
      "wf h \<Longrightarrow> i < length (elems h) \<Longrightarrow> j < length (elems h) \<Longrightarrow>
       elems (Swap i j h) = list_swap i j (elems h)"
    and wf_Swap:
      "wf h \<Longrightarrow> i < length (elems h) \<Longrightarrow> j < length (elems h) \<Longrightarrow> wf (Swap i j h)"
begin

lemma up_frame:
  "wf h \<Longrightarrow> j < length (elems h) \<Longrightarrow>
   wf (heap_up Less Swap j h) \<and> mset (elems (heap_up Less Swap j h)) = mset (elems h)"
proof (induction j arbitrary: h rule: less_induct)
  case (less j)
  show ?case
  proof (cases "parent j = j \<or> \<not> Less j (parent j) h")
    case True
    then show ?thesis using less.prems by (simp add: heap_up.simps [of Less Swap j h])
  next
    case False
    have p: "parent j < j" "parent j < length (elems h)"
      using False less.prems parent_less [of j] by (metis gr0I parent_0, metis gr0I parent_0 less_trans)
    let ?h = "Swap (parent j) j h"
    have "wf (heap_up Less Swap (parent j) ?h)
        \<and> mset (elems (heap_up Less Swap (parent j) ?h)) = mset (elems ?h)"
      using less p by (intro less.IH) (simp_all add: elems_Swap wf_Swap)
    then show ?thesis
      using False less.prems p
      by (simp add: heap_up.simps [of Less Swap j h] Let_def elems_Swap mset_list_swap)
  qed
qed

lemma up_heap:
  "wf h \<Longrightarrow> j < n \<Longrightarrow> n \<le> length (elems h) \<Longrightarrow> heap_but_up lt n j (elems h) \<Longrightarrow>
   is_heap lt n (elems (heap_up Less Swap j h))"
proof (induction j arbitrary: h rule: less_induct)
  case (less j)
  show ?case
  proof (cases "parent j = j \<or> \<not> Less j (parent j) h")
    case True
    then have "j = 0 \<or> \<not> lt (elems h ! j) (elems h ! parent j)"
      using less.prems Less_elems [of h j "parent j"] parent_less [of j]
      by (metis gr0I less_irrefl less_trans less_le_trans)
    then show ?thesis
      using True less.prems up_stop by (simp add: heap_up.simps [of Less Swap j h])
  next
    case False
    then have j: "0 < j" by (metis gr0I parent_0)
    then have p: "parent j < j" "parent j < length (elems h)" "j < length (elems h)"
      using less.prems parent_less [OF j] by linarith+
    let ?h = "Swap (parent j) j h"
    have "heap_but_up lt n (parent j) (elems ?h)"
      using up_turn [OF less.prems(4) j less.prems(2,3)] False less.prems p
      by (simp add: elems_Swap Less_elems)
    then have "is_heap lt n (elems (heap_up Less Swap (parent j) ?h))"
      using less p by (intro less.IH) (simp_all add: elems_Swap wf_Swap)
    then show ?thesis
      using False by (simp add: heap_up.simps [of Less Swap j h] Let_def)
  qed
qed

text \<open>The child that \<open>down\<close> chooses is a least child.\<close>

lemma child_least:
  assumes "wf h" and n: "2 * i + 1 < n" "n \<le> length (elems h)"
  shows "0 < pick_child Less i n h" "parent (pick_child Less i n h) = i" "pick_child Less i n h < n"
    and "\<forall>k < n. 0 < k \<and> parent k = i \<longrightarrow> \<not> lt (elems h ! k) (elems h ! pick_child Less i n h)"
proof -
  let ?j = "pick_child Less i n h"
  show j0: "0 < ?j" and "?j < n" using n by (auto simp: pick_child_def Let_def)
  show "parent ?j = i" using j0 parent_children [of ?j i] by (auto simp: pick_child_def Let_def)
  have cmp: "Less (2 * i + 2) (2 * i + 1) h = lt (elems h ! (2 * i + 2)) (elems h ! (2 * i + 1))"
    if "2 * i + 2 < n" using Less_elems assms that by simp
  show "\<forall>k < n. 0 < k \<and> parent k = i \<longrightarrow> \<not> lt (elems h ! k) (elems h ! ?j)"
  proof (intro allI impI)
    fix k assume "k < n" and "0 < k \<and> parent k = i"
    then have "k = 2 * i + 1 \<or> k = 2 * i + 2 \<and> 2 * i + 2 < n" using parent_children [of k i] by auto
    then show "\<not> lt (elems h ! k) (elems h ! ?j)"
      using cmp lt_asym by (auto simp: pick_child_def Let_def)
  qed
qed

lemma down_correct:
  "wf h \<Longrightarrow> i < n \<Longrightarrow> n \<le> length (elems h) \<Longrightarrow>
   wf (fst (heap_down Less Swap i n h))
   \<and> mset (elems (fst (heap_down Less Swap i n h))) = mset (elems h)
   \<and> (\<forall>k. n \<le> k \<longrightarrow> k < length (elems h) \<longrightarrow> elems (fst (heap_down Less Swap i n h)) ! k = elems h ! k)
   \<and> i \<le> snd (heap_down Less Swap i n h)
   \<and> (heap_but_down lt n i (elems h) \<longrightarrow> is_heap lt n (elems (fst (heap_down Less Swap i n h))))"
proof (induction "n - i" arbitrary: h i rule: less_induct)
  case less
  let ?j = "pick_child Less i n h"
  note unfold = heap_down.simps [of Less Swap i n h]
  show ?case
  proof (cases "2 * i + 1 \<ge> n")
    case True
    then have "\<not> (0 < k \<and> parent k = i)" if "k < n" for k
      using that parent_children [of k i] by auto
    then have "heap_but_down lt n i (elems h) \<longrightarrow> is_heap lt n (elems h)"
      using down_stop by blast
    with True less.prems show ?thesis by (simp add: unfold)
  next
    case False
    then have "2 * i + 1 < n" by simp
    note child = child_least [OF less.prems(1) this less.prems(3)]
    show ?thesis
    proof (cases "Less ?j i h")
      case no: False
      have "\<not> lt (elems h ! ?j) (elems h ! i)"
        using no Less_elems child(3) less.prems by simp
      then have "heap_but_down lt n i (elems h) \<longrightarrow> is_heap lt n (elems h)"
        using child(4) down_stop not_lt_trans by blast
      then show ?thesis using no False less.prems by (simp add: unfold Let_def)
    next
      case yes: True
      let ?h = "Swap i ?j h"
      have len: "i < length (elems h)" "?j < length (elems h)"
        using child(3) less.prems by simp_all
      have el: "elems ?h = list_swap i ?j (elems h)" and wf: "wf ?h"
        using len less.prems by (simp_all add: elems_Swap wf_Swap)
      have hbd: "heap_but_down lt n i (elems h) \<longrightarrow> heap_but_down lt n ?j (elems ?h)"
        using down_turn [OF _ child(1,2,3) less.prems(3) child(4)] yes Less_elems len less.prems
        by (auto simp: el)
      have eq: "heap_down Less Swap i n h = heap_down Less Swap ?j n ?h"
        using False yes by (simp add: unfold Let_def)
      have keep: "elems ?h ! k = elems h ! k" if "n \<le> k" "k < length (elems h)" for k
        using that len child(3) less.prems(2) by (simp add: el nth_list_swap)
      have IH: "wf (fst (heap_down Less Swap ?j n ?h))
         \<and> mset (elems (fst (heap_down Less Swap ?j n ?h))) = mset (elems ?h)
         \<and> (\<forall>k. n \<le> k \<longrightarrow> k < length (elems ?h) \<longrightarrow> elems (fst (heap_down Less Swap ?j n ?h)) ! k = elems ?h ! k)
         \<and> ?j \<le> snd (heap_down Less Swap ?j n ?h)
         \<and> (heap_but_down lt n ?j (elems ?h) \<longrightarrow> is_heap lt n (elems (fst (heap_down Less Swap ?j n ?h))))"
        by (rule less.hyps) (use child(3) less.prems wf el in \<open>auto intro: diff_less_mono2 pick_child_gt\<close>)
      show ?thesis
        unfolding eq using IH hbd keep len pick_child_gt [of i Less n h]
        by (auto simp: el mset_list_swap)
    qed
  qed
qed

lemma down_stay:
  assumes "wf h" "i < n" "n \<le> length (elems h)" and stay: "snd (heap_down Less Swap i n h) = i"
  shows "fst (heap_down Less Swap i n h) = h"
    and "\<forall>k < n. 0 < k \<and> parent k = i \<longrightarrow> \<not> lt (elems h ! k) (elems h ! i)"
proof -
  let ?j = "pick_child Less i n h"
  note unfold = heap_down.simps [of Less Swap i n h]
  have "fst (heap_down Less Swap i n h) = h
      \<and> (\<forall>k < n. 0 < k \<and> parent k = i \<longrightarrow> \<not> lt (elems h ! k) (elems h ! i))"
  proof (cases "2 * i + 1 \<ge> n")
    case True
    then have "\<not> (0 < k \<and> parent k = i)" if "k < n" for k
      using that parent_children [of k i] by auto
    with True show ?thesis by (auto simp: unfold)
  next
    case False
    then have "2 * i + 1 < n" by simp
    note child = child_least [OF assms(1) this assms(3)]
    have len: "i < length (elems h)" "?j < length (elems h)" using child(3) assms by simp_all
    have "\<not> Less ?j i h"
    proof
      assume yes: "Less ?j i h"
      have "?j \<le> snd (heap_down Less Swap ?j n (Swap i ?j h))"
        using down_correct [of "Swap i ?j h" ?j n] child(3) assms len
        by (simp add: elems_Swap wf_Swap)
      then have "i < snd (heap_down Less Swap i n h)"
        using False yes pick_child_gt [of i Less n h] by (simp add: unfold Let_def)
      with stay show False by simp
    qed
    then have "\<not> lt (elems h ! ?j) (elems h ! i)" using Less_elems len assms by simp
    then have "\<forall>k < n. 0 < k \<and> parent k = i \<longrightarrow> \<not> lt (elems h ! k) (elems h ! i)"
      using child(4) not_lt_trans by blast
    with \<open>\<not> Less ?j i h\<close> False show ?thesis by (simp add: unfold Let_def)
  qed
  then show "fst (heap_down Less Swap i n h) = h"
    and "\<forall>k < n. 0 < k \<and> parent k = i \<longrightarrow> \<not> lt (elems h ! k) (elems h ! i)" by auto
qed

lemma down_moved:
  assumes "wf h" "i < n" "n \<le> length (elems h)" and moved: "i < snd (heap_down Less Swap i n h)"
  shows "\<exists>k < n. 0 < k \<and> parent k = i \<and> lt (elems h ! k) (elems h ! i)"
proof (rule ccontr)
  let ?j = "pick_child Less i n h"
  assume none: "\<not> ?thesis"
  have "2 * i + 1 < n" using moved by (simp add: heap_down.simps [of Less Swap i n h] split: if_splits)
  note child = child_least [OF assms(1) this assms(3)]
  have "\<not> lt (elems h ! ?j) (elems h ! i)" using none child by blast
  then have "\<not> Less ?j i h" using child(3) Less_elems [of h ?j i] assms by simp
  with moved show False by (simp add: heap_down.simps [of Less Swap i n h] Let_def split: if_splits)
qed

text \<open>What \<open>Fix\<close> promises: after the element at one position changed, the heap is restored.\<close>

lemma Fix_correct:
  assumes wf: "wf h" and n: "i < n" "n = length (elems h)" and but_i: "heap_but lt n i (elems h)"
  shows "wf (heap_Fix Less Swap i n h)"
    and "mset (elems (heap_Fix Less Swap i n h)) = mset (elems h)"
    and "is_heap lt n (elems (heap_Fix Less Swap i n h))"
proof -
  obtain h' k where d: "heap_down Less Swap i n h = (h', k)" by (cases "heap_down Less Swap i n h")
  have dc: "wf h'" "mset (elems h') = mset (elems h)" "i \<le> k"
    "heap_but_down lt n i (elems h) \<longrightarrow> is_heap lt n (elems h')"
    using down_correct [OF wf n(1) eq_refl [OF n(2)]] unfolding d by simp_all
  have "wf (heap_Fix Less Swap i n h) \<and> mset (elems (heap_Fix Less Swap i n h)) = mset (elems h)
    \<and> is_heap lt n (elems (heap_Fix Less Swap i n h))"
  proof (cases "k > i")
    case True
    then obtain j where j: "j < n" "0 < j" "parent j = i" "lt (elems h ! j) (elems h ! i)"
      using down_moved [OF wf n(1) eq_refl [OF n(2)]] unfolding d by auto
    have "\<not> lt (elems h ! i) (elems h ! parent i)" if "0 < i"
    proof -
      have "\<not> lt (elems h ! j) (elems h ! parent i)" using but_i j that unfolding heap_but_def by blast
      then show ?thesis using j(4) not_lt_lt_trans lt_asym by blast
    qed
    then have "ordered_at lt (elems h) i" unfolding ordered_at_def by blast
    then have "heap_but_down lt n i (elems h)"
      using but_i by (auto simp: heap_but_def heap_but_down_def)
    with True dc show ?thesis by (simp add: heap_Fix_def d)
  next
    case False
    then have stay: "h' = h" "\<forall>k < n. 0 < k \<and> parent k = i \<longrightarrow> \<not> lt (elems h ! k) (elems h ! i)"
      using down_stay [OF wf n(1) eq_refl [OF n(2)]] dc(3) unfolding d by simp_all
    have "heap_but_up lt n i (elems h)"
      using but_i stay(2) by (auto simp: heap_but_def heap_but_up_def ordered_at_def)
    moreover have "heap_Fix Less Swap i n h = heap_up Less Swap i h"
      using False stay(1) by (simp add: heap_Fix_def d)
    ultimately show ?thesis
      using up_heap [OF wf n(1)] up_frame [OF wf] n by simp
  qed
  then show "wf (heap_Fix Less Swap i n h)"
    and "mset (elems (heap_Fix Less Swap i n h)) = mset (elems h)"
    and "is_heap lt n (elems (heap_Fix Less Swap i n h))" by auto
qed

lemma heap_append: "is_heap lt (length xs) xs \<Longrightarrow> heap_but_up lt (Suc (length xs)) (length xs) (xs @ [x])"
proof -
  assume h: "is_heap lt (length xs) xs"
  have "ordered_at lt (xs @ [x]) k" if "k < length xs" for k
  proof (cases "k = 0")
    case False
    then have "parent k < length xs" using that parent_less [of k] by simp
    then show ?thesis using h that by (auto simp: is_heap_def ordered_at_def nth_append)
  qed (simp add: ordered_at_def)
  moreover have "parent k \<noteq> length xs" if "k < Suc (length xs)" "0 < k" for k
    using that parent_less [of k] by linarith
  ultimately show ?thesis by (auto simp: heap_but_up_def less_Suc_eq)
qed

text \<open>The list that \<open>Pop\<close> leaves to \<open>down\<close> after it swapped the root with the last element.\<close>

lemma heap_root_swapped:
  assumes "is_heap lt (Suc n) xs" and "length xs = Suc n"
  shows "heap_but_down lt n 0 (list_swap 0 n xs)"
proof -
  have "ordered_at lt (list_swap 0 n xs) k" if k: "k < n" "0 < k" "parent k \<noteq> 0" for k
  proof -
    have "parent k < n" using k parent_less [of k] by linarith
    then show ?thesis
      using assms k by (auto simp: is_heap_def ordered_at_def nth_list_swap dest: less_SucI)
  qed
  then show ?thesis by (simp add: heap_but_down_def)
qed

lemma Pop_down:
  assumes "wf h" and "length (elems h) = Suc n" and "is_heap lt (Suc n) (elems h)"
  shows "wf (fst (heap_down Less Swap 0 n (Swap 0 n h)))"
    and "elems (fst (heap_down Less Swap 0 n (Swap 0 n h))) ! n = elems h ! 0"
    and "mset (elems (fst (heap_down Less Swap 0 n (Swap 0 n h)))) = mset (elems h)"
    and "is_heap lt n (elems (fst (heap_down Less Swap 0 n (Swap 0 n h))))"
proof -
  let ?h = "Swap 0 n h"
  have el: "elems ?h = list_swap 0 n (elems h)" "wf ?h"
    using assms by (simp_all add: elems_Swap wf_Swap)
  have last: "elems ?h ! n = elems h ! 0" using assms by (simp add: el nth_list_swap)
  have "wf (fst (heap_down Less Swap 0 n ?h)) \<and> elems (fst (heap_down Less Swap 0 n ?h)) ! n = elems h ! 0
    \<and> mset (elems (fst (heap_down Less Swap 0 n ?h))) = mset (elems h)
    \<and> is_heap lt n (elems (fst (heap_down Less Swap 0 n ?h)))"
  proof (cases "n = 0")
    case True
    then show ?thesis
      using el last assms by (simp add: heap_down.simps [of Less Swap 0 0] is_heap_def mset_list_swap)
  next
    case False
    then show ?thesis
      using down_correct [of ?h 0 n] heap_root_swapped [OF assms(3,2)] el last assms(2)
      by (auto simp: mset_list_swap)
  qed
  then show "wf (fst (heap_down Less Swap 0 n ?h))"
    and "elems (fst (heap_down Less Swap 0 n ?h)) ! n = elems h ! 0"
    and "mset (elems (fst (heap_down Less Swap 0 n ?h))) = mset (elems h)"
    and "is_heap lt n (elems (fst (heap_down Less Swap 0 n ?h)))" by auto
qed

end

text \<open>When an element is replaced, only its own position and its children can be out of order.\<close>

lemma heap_but_update:
  assumes "is_heap lt n xs" and "i < n" "n \<le> length xs"
    and "\<And>a b c. \<not> lt b a \<Longrightarrow> \<not> lt c b \<Longrightarrow> \<not> lt c a"
  shows "heap_but lt n i (xs[i := y])"
proof -
  have ord: "\<not> lt (xs ! k) (xs ! parent k)" if "k < n" "0 < k" for k
    using assms(1) that by (auto simp: is_heap_def ordered_at_def)
  have A: "ordered_at lt (xs[i := y]) k" if "k < n" "0 < k" "k \<noteq> i" "parent k \<noteq> i" for k
    using ord [OF that(1,2)] that by (simp add: ordered_at_def)
  have B: "\<not> lt (xs[i := y] ! k) (xs[i := y] ! parent i)" if "k < n" "0 < k" "0 < i" "parent k = i" for k
  proof -
    have "k \<noteq> i" "parent i \<noteq> i" using that by (metis parent_less less_irrefl)+
    moreover have "\<not> lt (xs ! k) (xs ! parent i)"
      using assms(4) ord [OF that(1,2)] ord [OF assms(2) that(3)] that(4) by blast
    ultimately show ?thesis by simp
  qed
  show ?thesis unfolding heap_but_def using A B by blast
qed

end
