(* ===== verification/Work_Queue.thy ===== *)
theory Work_Queue
  imports Runtime_Scope Go_Heap
begin

text \<open>
  Package \<open>internal/runtime/scheduler/queue\<close>: the bounded,
  coalescing priority queue of reconciliation work. The entries are objects shared by the heap
  slice and the index by key, and the code changes them in place, so the model keeps an explicit
  memory: an address is a position of the list \<open>wq_mem\<close>, the slice holds addresses, and the
  index maps keys to addresses. The heap algorithms are those of \<open>Go_Heap\<close>.
\<close>

section \<open>Work items\<close>

record work_item =
  wi_Scope :: runtime_scope
  wi_Priority :: int
  wi_Type :: string

definition workItemKey :: "work_item \<Rightarrow> string" where
  "workItemKey item = scope_ID (wi_Scope item) @ ''|'' @ wi_Type item"

text \<open>Two items have the same key exactly when scope identifier and type agree: the identifier
  has a fixed length, so the separator is never ambiguous.\<close>

lemma workItemKey_eq_iff:
  "workItemKey a = workItemKey b \<longleftrightarrow>
   scope_ID (wi_Scope a) = scope_ID (wi_Scope b) \<and> wi_Type a = wi_Type b"
  by (simp add: workItemKey_def)

section \<open>The heap of entries\<close>

record work_entry =
  we_key :: string
  we_item :: work_item
  we_index :: nat

type_synonym work_heap = "nat list \<times> work_entry list"

definition entry_before :: "string \<times> work_item \<Rightarrow> string \<times> work_item \<Rightarrow> bool" where
  "entry_before x y =
     (if wi_Priority (snd x) = wi_Priority (snd y) then fst x < fst y
      else wi_Priority (snd x) > wi_Priority (snd y))"

definition wh_Less :: "nat \<Rightarrow> nat \<Rightarrow> work_heap \<Rightarrow> bool" where
  "wh_Less i j h =
     (let (items, mem) = h; x = mem ! (items ! i); y = mem ! (items ! j)
      in entry_before (we_key x, we_item x) (we_key y, we_item y))"

definition wh_Swap :: "nat \<Rightarrow> nat \<Rightarrow> work_heap \<Rightarrow> work_heap" where
  "wh_Swap i j h =
     (let (items, mem) = h;
          items' = items[i := items ! j, j := items ! i];
          mem' = mem[items' ! i := (mem ! (items' ! i))\<lparr>we_index := i\<rparr>];
          mem'' = mem'[items' ! j := (mem' ! (items' ! j))\<lparr>we_index := j\<rparr>]
      in (items', mem''))"

definition wh_Push :: "nat \<Rightarrow> work_heap \<Rightarrow> work_heap" where
  "wh_Push a h =
     (let (items, mem) = h
      in (items @ [a], mem[a := (mem ! a)\<lparr>we_index := length items\<rparr>]))"

definition wh_Pop :: "work_heap \<Rightarrow> work_heap \<times> nat" where
  "wh_Pop h =
     (let (items, mem) = h in ((take (length items - 1) items, mem), items ! (length items - 1)))"

text \<open>\<open>heap.Push\<close> and \<open>heap.Pop\<close> on this heap.\<close>

definition wh_heap_Push :: "nat \<Rightarrow> work_heap \<Rightarrow> work_heap" where
  "wh_heap_Push a h =
     (let h1 = wh_Push a h in heap_up wh_Less wh_Swap (length (fst h1) - 1) h1)"

definition wh_heap_Pop :: "work_heap \<Rightarrow> work_heap \<times> nat" where
  "wh_heap_Pop h =
     (let n = length (fst h) - 1 in wh_Pop (fst (heap_down wh_Less wh_Swap 0 n (wh_Swap 0 n h))))"

section \<open>The queue\<close>

text \<open>The last three fields are the metrics the methods write.\<close>

record work_queue =
  wq_items :: "nat list"
  wq_mem :: "work_entry list"
  wq_byKey :: "string \<rightharpoonup> nat"
  wq_maxItems :: int
  wq_coalesced :: nat
  wq_dropped :: nat
  wq_depth :: nat

abbreviation wq_heap :: "work_queue \<Rightarrow> work_heap" where
  "wq_heap q \<equiv> (wq_items q, wq_mem q)"

definition wq_set_heap :: "work_heap \<Rightarrow> work_queue \<Rightarrow> work_queue" where
  "wq_set_heap h q = q\<lparr>wq_items := fst h, wq_mem := snd h\<rparr>"

definition defaultMaxItems :: int where
  "defaultMaxItems = 1024"

definition queue_NewWithCapacity :: "int \<Rightarrow> work_queue" where
  "queue_NewWithCapacity maxItems =
     \<lparr>wq_items = [], wq_mem = [], wq_byKey = Map.empty,
      wq_maxItems = (if maxItems \<le> 0 then defaultMaxItems else maxItems),
      wq_coalesced = 0, wq_dropped = 0, wq_depth = 0\<rparr>"

definition queue_New :: work_queue where
  "queue_New = queue_NewWithCapacity defaultMaxItems"

definition lower_entry :: "work_entry \<Rightarrow> work_entry \<Rightarrow> bool" where
  "lower_entry e l =
     (wi_Priority (we_item e) < wi_Priority (we_item l)
      \<or> wi_Priority (we_item e) = wi_Priority (we_item l) \<and> we_key e > we_key l)"

definition lowestPriorityEntry :: "work_queue \<Rightarrow> nat option" where
  "lowestPriorityEntry q =
     (case wq_items q of [] \<Rightarrow> None
      | a # as \<Rightarrow>
          Some (foldl (\<lambda>l e. if lower_entry (wq_mem q ! e) (wq_mem q ! l) then e else l) a as))"

definition wq_set_depth :: "work_queue \<Rightarrow> work_queue" where
  "wq_set_depth q = q\<lparr>wq_depth := length (wq_items q)\<rparr>"

definition queue_Push :: "work_item \<Rightarrow> work_queue \<Rightarrow> work_queue" where
  "queue_Push item q =
     (let key = workItemKey item in
      case wq_byKey q key of
        Some a \<Rightarrow>
          let existing = wq_mem q ! a;
              q1 = (if wi_Priority item > wi_Priority (we_item existing) then
                      let mem = (wq_mem q)[a := existing\<lparr>we_item := item\<rparr>] in
                      wq_set_heap (heap_Fix wh_Less wh_Swap (we_index existing)
                        (length (wq_items q)) (wq_items q, mem)) q
                    else q)
          in wq_set_depth (q1\<lparr>wq_coalesced := Suc (wq_coalesced q1)\<rparr>)
      | None \<Rightarrow>
          if int (length (wq_items q)) \<ge> wq_maxItems q then
            case lowestPriorityEntry q of
              None \<Rightarrow> wq_set_depth (q\<lparr>wq_dropped := Suc (wq_dropped q)\<rparr>)
            | Some l \<Rightarrow>
                let lowest = wq_mem q ! l in
                if wi_Priority item \<le> wi_Priority (we_item lowest)
                then wq_set_depth (q\<lparr>wq_dropped := Suc (wq_dropped q)\<rparr>)
                else
                  let mem = (wq_mem q)[l := lowest\<lparr>we_key := key, we_item := item\<rparr>];
                      q1 = q\<lparr>wq_byKey := (wq_byKey q)(we_key lowest := None, key \<mapsto> l)\<rparr>;
                      q2 = wq_set_heap (heap_Fix wh_Less wh_Swap (we_index lowest)
                             (length (wq_items q)) (wq_items q, mem)) q1
                  in wq_set_depth (q2\<lparr>wq_dropped := Suc (wq_dropped q2)\<rparr>)
          else
            let a = length (wq_mem q);
                mem = wq_mem q @ [\<lparr>we_key = key, we_item = item, we_index = 0\<rparr>];
                q1 = wq_set_heap (wh_heap_Push a (wq_items q, mem)) q
            in wq_set_depth (q1\<lparr>wq_byKey := (wq_byKey q1)(key \<mapsto> a)\<rparr>))"

definition queue_Pop :: "work_queue \<Rightarrow> work_queue \<times> work_item option" where
  "queue_Pop q =
     (if length (wq_items q) = 0 then (q, None)
      else
        let (h, a) = wh_heap_Pop (wq_heap q);
            entry = snd h ! a;
            q1 = wq_set_heap h q;
            q2 = q1\<lparr>wq_byKey := (wq_byKey q1)(we_key entry := None)\<rparr>
        in (wq_set_depth q2, Some (we_item entry)))"

definition queue_Len :: "work_queue \<Rightarrow> int" where
  "queue_Len q = int (length (wq_items q))"

section \<open>The heap interface\<close>

text \<open>The elements of a heap, each with its address; the order reads key and item only.\<close>

definition wh_elem :: "work_entry list \<Rightarrow> nat \<Rightarrow> nat \<times> string \<times> work_item" where
  "wh_elem mem a = (a, we_key (mem ! a), we_item (mem ! a))"

definition wh_elems :: "work_heap \<Rightarrow> (nat \<times> string \<times> work_item) list" where
  "wh_elems h = map (wh_elem (snd h)) (fst h)"

definition elem_before :: "nat \<times> string \<times> work_item \<Rightarrow> nat \<times> string \<times> work_item \<Rightarrow> bool" where
  "elem_before x y = entry_before (snd x) (snd y)"

definition wh_wf :: "work_heap \<Rightarrow> bool" where
  "wh_wf h \<longleftrightarrow>
     distinct (fst h) \<and> (\<forall>a \<in> set (fst h). a < length (snd h))
     \<and> (\<forall>i < length (fst h). we_index (snd h ! (fst h ! i)) = i)"

lemma length_wh_elems [simp]: "length (wh_elems h) = length (fst h)"
  by (simp add: wh_elems_def)

lemma elem_before_order: "heap_order elem_before"
proof
  show "elem_before a b \<Longrightarrow> \<not> elem_before b a" for a b
    by (auto simp: elem_before_def entry_before_def split: if_splits)
  show "\<not> elem_before b a \<Longrightarrow> \<not> elem_before c b \<Longrightarrow> \<not> elem_before c a" for a b c
    by (auto simp: elem_before_def entry_before_def split: if_splits)
qed

lemma wh_Swap_elems:
  assumes "wh_wf h" and "i < length (fst h)" and "j < length (fst h)"
  shows "wh_elems (wh_Swap i j h) = list_swap i j (wh_elems h)" and "wh_wf (wh_Swap i j h)"
proof -
  obtain items mem where h: "h = (items, mem)" by (cases h)
  let ?items = "items[i := items ! j, j := items ! i]"
  let ?mem = "mem[?items ! i := (mem ! (?items ! i))\<lparr>we_index := i\<rparr>]"
  let ?mem2 = "?mem[?items ! j := (?mem ! (?items ! j))\<lparr>we_index := j\<rparr>]"
  have sw: "wh_Swap i j h = (?items, ?mem2)" by (simp add: wh_Swap_def h Let_def)
  have d: "distinct items" and b: "\<And>a. a \<in> set items \<Longrightarrow> a < length mem"
    and ix: "\<And>k. k < length items \<Longrightarrow> we_index (mem ! (items ! k)) = k"
    using assms(1) by (auto simp: wh_wf_def h)
  have ij: "i < length items" "j < length items" using assms by (simp_all add: h)
  have set: "set ?items = set items" using ij by (simp add: set_swap)
  have core: "wh_elem ?mem2 a = wh_elem mem a" for a
    by (auto simp: wh_elem_def nth_update_if)
  show "wh_elems (wh_Swap i j h) = list_swap i j (wh_elems h)"
  proof -
    have "wh_elem ?mem2 = wh_elem mem" by (rule ext) (rule core)
    then show ?thesis unfolding sw wh_elems_def using ij by (simp add: list_swap_def map_update h)
  qed
  have d': "distinct ?items" using d ij by (simp add: distinct_swap)
  have "we_index (?mem2 ! (?items ! k)) = k" if k: "k < length items" for k
  proof -
    have eq: "?items ! k = ?items ! m \<longleftrightarrow> k = m" if "m < length items" for m
      using nth_eq_iff_index_eq [OF d'] k that by simp
    have "k \<noteq> i \<Longrightarrow> k \<noteq> j \<Longrightarrow> ?items ! k = items ! k" by simp
    moreover have "?items ! i < length mem" "?items ! j < length mem"
      using b set ij by (metis length_list_update nth_mem)+
    ultimately show ?thesis
      using eq [of i] eq [of j] ij k ix by (auto simp: nth_update_if split: if_splits)
  qed
  then show "wh_wf (wh_Swap i j h)"
    using d' b set by (auto simp: sw wh_wf_def)
qed

interpretation wh: heap_interface elem_before wh_Less wh_Swap wh_elems wh_wf
proof (intro heap_interface.intro heap_interface_axioms.intro elem_before_order)
  show "wh_Less i j h = elem_before (wh_elems h ! i) (wh_elems h ! j)"
    if "wh_wf h" "i < length (wh_elems h)" "j < length (wh_elems h)" for h i j
    using that by (cases h) (simp add: wh_Less_def elem_before_def wh_elems_def wh_elem_def Let_def)
qed (simp_all add: wh_Swap_elems)

section \<open>Invariant and abstraction\<close>

text \<open>
  The invariant: the addresses of the slice are distinct and each entry knows its position, the
  slice is a heap, the index by key holds exactly the entries of the slice, every entry has the
  key of its item, and the capacity is respected.
\<close>

definition wq_inv :: "work_queue \<Rightarrow> bool" where
  "wq_inv q \<longleftrightarrow>
     wh_wf (wq_heap q)
     \<and> is_heap elem_before (length (wq_items q)) (wh_elems (wq_heap q))
     \<and> (\<forall>k a. wq_byKey q k = Some a \<longleftrightarrow> a \<in> set (wq_items q) \<and> we_key (wq_mem q ! a) = k)
     \<and> (\<forall>a \<in> set (wq_items q). we_key (wq_mem q ! a) = workItemKey (we_item (wq_mem q ! a)))
     \<and> 0 < wq_maxItems q \<and> int (length (wq_items q)) \<le> wq_maxItems q"

lemma wq_inv_byKey:
  "wq_inv q \<Longrightarrow> wq_byKey q k = Some a \<longleftrightarrow> a \<in> set (wq_items q) \<and> we_key (wq_mem q ! a) = k"
  by (simp add: wq_inv_def)

lemma wq_byKey_Some:
  "wq_inv q \<Longrightarrow> wq_byKey q k = Some a \<Longrightarrow> a \<in> set (wq_items q) \<and> we_key (wq_mem q ! a) = k"
  by (simp add: wq_inv_byKey)

lemma wq_inv_key: "wq_inv q \<Longrightarrow> a \<in> set (wq_items q) \<Longrightarrow> we_key (wq_mem q ! a) = workItemKey (we_item (wq_mem q ! a))"
  by (simp add: wq_inv_def)

lemma wq_inv_byKey_None:
  "wq_inv q \<Longrightarrow> wq_byKey q k = None \<Longrightarrow> a \<in> set (wq_items q) \<Longrightarrow> we_key (wq_mem q ! a) \<noteq> k"
  by (metis wq_inv_byKey option.distinct(1))

lemma wq_invI:
  assumes "wh_wf (wq_heap q)" and "is_heap elem_before (length (wq_items q)) (wh_elems (wq_heap q))"
    and "\<And>k a. wq_byKey q k = Some a \<longleftrightarrow> a \<in> set (wq_items q) \<and> we_key (wq_mem q ! a) = k"
    and "\<And>a. a \<in> set (wq_items q) \<Longrightarrow> we_key (wq_mem q ! a) = workItemKey (we_item (wq_mem q ! a))"
    and "0 < wq_maxItems q" and "int (length (wq_items q)) \<le> wq_maxItems q"
  shows "wq_inv q"
  using assms by (simp add: wq_inv_def)

lemma wq_inv_cap: "wq_inv q \<Longrightarrow> 0 < wq_maxItems q" "wq_inv q \<Longrightarrow> int (length (wq_items q)) \<le> wq_maxItems q"
  by (simp_all add: wq_inv_def)

text \<open>What the queue stands for: for each key the waiting item, if any.\<close>

definition wq_abs :: "work_queue \<Rightarrow> (string \<rightharpoonup> work_item)" where
  "wq_abs q = (\<lambda>k. map_option (\<lambda>a. we_item (wq_mem q ! a)) (wq_byKey q k))"

text \<open>The same entries may sit in another order and at other memory lists; \<open>same_entries\<close> says
  that a heap holds the entries \<open>es\<close>, by address.\<close>

lemma wh_elems_mset_set:
  assumes "mset (wh_elems h) = mset (wh_elems h')"
  shows "set (fst h) = set (fst h')"
    and "a \<in> set (fst h') \<Longrightarrow> we_key (snd h ! a) = we_key (snd h' ! a)"
    and "a \<in> set (fst h') \<Longrightarrow> we_item (snd h ! a) = we_item (snd h' ! a)"
    and "length (fst h) = length (fst h')"
proof -
  have eq: "set (wh_elems h) = set (wh_elems h')" using assms by (metis set_mset_mset)
  have fst_image: "set (fst g) = fst ` set (wh_elems g)" for g :: work_heap
    by (force simp: wh_elems_def wh_elem_def)
  show sets: "set (fst h) = set (fst h')" by (simp add: fst_image eq)
  have "wh_elem (snd h) a = wh_elem (snd h') a" if "a \<in> set (fst h')" for a
  proof -
    have "wh_elem (snd h) a \<in> set (wh_elems h')"
      using that sets by (simp add: eq [symmetric]) (simp add: wh_elems_def)
    then show ?thesis by (auto simp: wh_elems_def wh_elem_def)
  qed
  then show "a \<in> set (fst h') \<Longrightarrow> we_key (snd h ! a) = we_key (snd h' ! a)"
    and "a \<in> set (fst h') \<Longrightarrow> we_item (snd h ! a) = we_item (snd h' ! a)"
    by (simp_all add: wh_elem_def)
  show "length (fst h) = length (fst h')" using assms by (metis length_wh_elems size_mset)
qed

lemma wq_inv_index:
  assumes "wq_inv q" and "a \<in> set (wq_items q)"
  shows "we_index (wq_mem q ! a) < length (wq_items q)"
    and "wq_items q ! we_index (wq_mem q ! a) = a" and "a < length (wq_mem q)"
  using assms by (auto simp: wq_inv_def wh_wf_def in_set_conv_nth)

lemma wq_inv_keys_distinct:
  "wq_inv q \<Longrightarrow> a \<in> set (wq_items q) \<Longrightarrow> b \<in> set (wq_items q) \<Longrightarrow>
   we_key (wq_mem q ! a) = we_key (wq_mem q ! b) \<Longrightarrow> a = b"
  unfolding wq_inv_def by (metis option.inject)

text \<open>Rewriting one entry in place and repairing the heap with \<open>Fix\<close>.\<close>

lemma rewrite_entry:
  assumes inv: "wq_inv q" and a: "a \<in> set (wq_items q)" and e: "we_index e = we_index (wq_mem q ! a)"
    and fx: "heap_Fix wh_Less wh_Swap (we_index (wq_mem q ! a)) (length (wq_items q))
        (wq_items q, (wq_mem q)[a := e]) = h"
  shows "wh_wf h" and "is_heap elem_before (length (fst h)) (wh_elems h)"
    and "set (fst h) = set (wq_items q)" and "length (fst h) = length (wq_items q)"
    and "we_key (snd h ! a) = we_key e" "we_item (snd h ! a) = we_item e"
    and "b \<in> set (wq_items q) \<Longrightarrow> b \<noteq> a \<Longrightarrow> we_key (snd h ! b) = we_key (wq_mem q ! b)"
    and "b \<in> set (wq_items q) \<Longrightarrow> b \<noteq> a \<Longrightarrow> we_item (snd h ! b) = we_item (wq_mem q ! b)"
proof -
  let ?i = "we_index (wq_mem q ! a)" and ?h = "(wq_items q, (wq_mem q)[a := e])"
  note ix = wq_inv_index [OF inv a]
  have wf: "wh_wf (wq_heap q)" and heap: "is_heap elem_before (length (wq_items q)) (wh_elems (wq_heap q))"
    using inv by (simp_all add: wq_inv_def)
  have wf': "wh_wf ?h" using wf e by (auto simp: wh_wf_def nth_update_if)
  have d: "distinct (wq_items q)" using wf by (simp add: wh_wf_def)
  have "wh_elems ?h = (wh_elems (wq_heap q))[?i := (a, we_key e, we_item e)]"
  proof (rule nth_equalityI)
    fix k assume k: "k < length (wh_elems ?h)"
    then have "wq_items q ! k = a \<longleftrightarrow> k = ?i" using ix d nth_eq_iff_index_eq by fastforce
    then show "wh_elems ?h ! k = (wh_elems (wq_heap q))[?i := (a, we_key e, we_item e)] ! k"
      using k ix by (auto simp: wh_elems_def wh_elem_def nth_update_if)
  qed simp
  then have but_a: "heap_but elem_before (length (wq_items q)) ?i (wh_elems ?h)"
    using heap_but_update [OF heap ix(1)] wh.not_lt_trans by simp
  have "length (wq_items q) = length (wh_elems ?h)" by simp
  note F = wh.Fix_correct [OF wf' ix(1) this but_a, unfolded fx]
  note M = wh_elems_mset_set [OF F(2)]
  show "wh_wf h" by (fact F(1))
  show "set (fst h) = set (wq_items q)" "length (fst h) = length (wq_items q)" using M(1,4) by simp_all
  then show "is_heap elem_before (length (fst h)) (wh_elems h)" using F(3) by simp
  show "we_key (snd h ! a) = we_key e" "we_item (snd h ! a) = we_item e"
    using M(2) [of a] M(3) [of a] a ix(3) by simp_all
  show "b \<in> set (wq_items q) \<Longrightarrow> b \<noteq> a \<Longrightarrow> we_key (snd h ! b) = we_key (wq_mem q ! b)"
    and "b \<in> set (wq_items q) \<Longrightarrow> b \<noteq> a \<Longrightarrow> we_item (snd h ! b) = we_item (wq_mem q ! b)"
    using M(2) [of b] M(3) [of b] by simp_all
qed

lemma wq_field_simps [simp]:
  "wq_items (wq_set_depth q) = wq_items q" "wq_mem (wq_set_depth q) = wq_mem q"
  "wq_byKey (wq_set_depth q) = wq_byKey q" "wq_maxItems (wq_set_depth q) = wq_maxItems q"
  "wq_items (wq_set_heap h q) = fst h" "wq_mem (wq_set_heap h q) = snd h"
  "wq_byKey (wq_set_heap h q) = wq_byKey q" "wq_maxItems (wq_set_heap h q) = wq_maxItems q"
  by (simp_all add: wq_set_depth_def wq_set_heap_def)

text \<open>Invariant and abstraction read four fields only.\<close>

lemma wq_inv_cong:
  assumes "wq_items q' = wq_items q" "wq_mem q' = wq_mem q" "wq_byKey q' = wq_byKey q"
    and "wq_maxItems q' = wq_maxItems q"
  shows "wq_inv q' = wq_inv q" and "wq_abs q' = wq_abs q"
  using assms by (simp_all add: wq_inv_def wq_abs_def)

lemma wq_inv_New: "wq_inv (queue_NewWithCapacity n)"
  by (simp add: wq_inv_def queue_NewWithCapacity_def wh_wf_def is_heap_def defaultMaxItems_def)

section \<open>Push\<close>

text \<open>The three ways in which \<open>Push\<close> changes the entries.\<close>

lemma push_coalesce:
  assumes inv: "wq_inv q" and key: "wq_byKey q (workItemKey item) = Some a"
    and up: "wi_Priority item > wi_Priority (we_item (wq_mem q ! a))"
  shows "wq_inv (queue_Push item q)" and "wq_abs (queue_Push item q) = (wq_abs q)(workItemKey item \<mapsto> item)"
proof -
  let ?e = "(wq_mem q ! a)\<lparr>we_item := item\<rparr>"
  define h where "h = heap_Fix wh_Less wh_Swap (we_index (wq_mem q ! a)) (length (wq_items q))
      (wq_items q, (wq_mem q)[a := ?e])"
  have a: "a \<in> set (wq_items q)" "we_key (wq_mem q ! a) = workItemKey item"
    using inv key by (auto simp: wq_inv_def)
  note R = rewrite_entry [OF inv a(1) _ h_def [symmetric], simplified]
  have P: "queue_Push item q = wq_set_depth ((wq_set_heap h q)\<lparr>wq_coalesced := Suc (wq_coalesced q)\<rparr>)"
    using key up by (simp add: queue_Push_def Let_def h_def) (simp add: wq_set_heap_def)
  have keys: "we_key (snd h ! b) = we_key (wq_mem q ! b)" if "b \<in> set (wq_items q)" for b
    using R(5,7) that by (cases "b = a") auto
  have items: "we_item (snd h ! b) = (if b = a then item else we_item (wq_mem q ! b))"
    if "b \<in> set (wq_items q)" for b using R(6,8) that by simp
  show "wq_inv (queue_Push item q)"
  proof (rule wq_invI)
    show "wq_byKey (queue_Push item q) k = Some b \<longleftrightarrow>
        b \<in> set (wq_items (queue_Push item q)) \<and> we_key (wq_mem (queue_Push item q) ! b) = k" for k b
      using wq_inv_byKey [OF inv, of k b] keys [of b] by (auto simp: P R(3))
    show "b \<in> set (wq_items (queue_Push item q)) \<Longrightarrow> we_key (wq_mem (queue_Push item q) ! b)
        = workItemKey (we_item (wq_mem (queue_Push item q) ! b))" for b
      using wq_inv_key [OF inv, of b] keys [of b] items [of b] a by (auto simp: P R(3))
  qed (use R wq_inv_cap [OF inv] in \<open>simp_all add: P\<close>)
  show "wq_abs (queue_Push item q) = (wq_abs q)(workItemKey item \<mapsto> item)"
  proof
    fix k
    show "wq_abs (queue_Push item q) k = ((wq_abs q)(workItemKey item \<mapsto> item)) k"
      using wq_byKey_Some [OF inv, of k] items key a
      by (cases "wq_byKey q k") (auto simp: P wq_abs_def)
  qed
qed

lemma push_append:
  assumes inv: "wq_inv q" and key: "wq_byKey q (workItemKey item) = None"
    and room: "int (length (wq_items q)) < wq_maxItems q"
  shows "wq_inv (queue_Push item q)" and "wq_abs (queue_Push item q) = (wq_abs q)(workItemKey item \<mapsto> item)"
proof -
  let ?a = "length (wq_mem q)" and ?n = "length (wq_items q)" and ?k = "workItemKey item"
  let ?mem = "wq_mem q @ [\<lparr>we_key = ?k, we_item = item, we_index = 0\<rparr>]"
  let ?h = "wh_Push ?a (wq_items q, ?mem)"
  define h where "h = wh_heap_Push ?a (wq_items q, ?mem)"
  have wf: "wh_wf (wq_heap q)" and heap: "is_heap elem_before ?n (wh_elems (wq_heap q))"
    and bd: "\<And>b. b \<in> set (wq_items q) \<Longrightarrow> b < ?a"
    using inv by (auto simp: wq_inv_def wh_wf_def)
  have a: "?a \<notin> set (wq_items q)" using bd by blast
  have h1: "?h = (wq_items q @ [?a], wq_mem q @ [\<lparr>we_key = ?k, we_item = item, we_index = ?n\<rparr>])"
    by (simp add: wh_Push_def)
  have wf': "wh_wf ?h" using wf bd a
    by (auto simp: h1 wh_wf_def nth_append less_Suc_eq)
  have el: "wh_elems ?h = wh_elems (wq_heap q) @ [(?a, ?k, item)]"
    using bd by (auto simp: h1 wh_elems_def wh_elem_def nth_append)
  have "heap_but_up elem_before (Suc ?n) ?n (wh_elems ?h)"
    using wh.heap_append [of "wh_elems (wq_heap q)"] heap by (simp add: el)
  then have F: "wh_wf h" "mset (wh_elems h) = mset (wh_elems ?h)" "is_heap elem_before (Suc ?n) (wh_elems h)"
    using wh.up_heap [OF wf', of ?n "Suc ?n"] wh.up_frame [OF wf', of ?n] el
    by (simp_all add: h_def wh_heap_Push_def h1)
  note M = wh_elems_mset_set [OF F(2)]
  have set: "set (fst h) = insert ?a (set (wq_items q))" and len: "length (fst h) = Suc ?n"
    using M by (simp_all add: h1)
  have new: "we_key (snd h ! ?a) = ?k" "we_item (snd h ! ?a) = item"
    using M(2,3) [of ?a] by (simp_all add: h1 nth_append)
  have old: "we_key (snd h ! b) = we_key (wq_mem q ! b)" "we_item (snd h ! b) = we_item (wq_mem q ! b)"
    if "b \<in> set (wq_items q)" for b
    using M(2,3) [of b] bd [OF that] that by (simp_all add: h1 nth_append)
  have P: "queue_Push item q = wq_set_depth ((wq_set_heap h q)\<lparr>wq_byKey := (wq_byKey q)(?k \<mapsto> ?a)\<rparr>)"
    using key room by (simp add: queue_Push_def Let_def h_def)
  note fresh = wq_inv_byKey_None [OF inv key]
  show "wq_inv (queue_Push item q)"
  proof (rule wq_invI)
    show "wq_byKey (queue_Push item q) k = Some b \<longleftrightarrow>
        b \<in> set (wq_items (queue_Push item q)) \<and> we_key (wq_mem (queue_Push item q) ! b) = k" for k b
      using wq_inv_byKey [OF inv, of k b] old [of b] new a fresh [of b] by (auto simp: P set)
    show "b \<in> set (wq_items (queue_Push item q)) \<Longrightarrow> we_key (wq_mem (queue_Push item q) ! b)
        = workItemKey (we_item (wq_mem (queue_Push item q) ! b))" for b
      using wq_inv_key [OF inv, of b] old [of b] new by (auto simp: P set)
  qed (use F len room wq_inv_cap [OF inv] in \<open>simp_all add: P\<close>)
  show "wq_abs (queue_Push item q) = (wq_abs q)(?k \<mapsto> item)"
  proof
    fix k
    show "wq_abs (queue_Push item q) k = ((wq_abs q)(?k \<mapsto> item)) k"
      using wq_byKey_Some [OF inv, of k] old new by (cases "wq_byKey q k") (auto simp: P wq_abs_def)
  qed
qed

text \<open>The entry that \<open>lowestPriorityEntry\<close> finds comes last in the order of the heap.\<close>

lemma lower_entry_before:
  "lower_entry e l \<longleftrightarrow> entry_before (we_key l, we_item l) (we_key e, we_item e)"
  by (auto simp: lower_entry_def entry_before_def)

lemma foldl_lowest:
  fixes mem :: "work_entry list"
  defines "before \<equiv> \<lambda>a b. elem_before (wh_elem mem a) (wh_elem mem b)"
  defines "r \<equiv> \<lambda>a as. foldl (\<lambda>l e. if lower_entry (mem ! e) (mem ! l) then e else l) a as"
  shows "r a as \<in> set (a # as) \<and> (\<forall>b \<in> set (a # as). \<not> before (r a as) b)"
proof (induction as arbitrary: a)
  case Nil
  show ?case by (simp add: r_def before_def elem_before_def entry_before_def)
next
  case (Cons e as)
  let ?m = "if lower_entry (mem ! e) (mem ! a) then e else a"
  have r: "r a (e # as) = r ?m as" by (simp add: r_def)
  have IH: "r ?m as \<in> set (?m # as)" "\<forall>b \<in> set (?m # as). \<not> before (r ?m as) b"
    using Cons.IH [of ?m] by blast+
  have m: "\<not> before ?m e" "\<not> before ?m a"
    using wh.lt_asym [of "wh_elem mem a" "wh_elem mem e"] wh.lt_irrefl
    unfolding before_def by (auto simp: lower_entry_before elem_before_def wh_elem_def entry_before_def)
  have "\<not> before (r ?m as) e" "\<not> before (r ?m as) a"
    using IH(2) m wh.not_lt_trans unfolding before_def by (meson list.set_intros(1))+
  then show ?case using IH by (auto simp: r split: if_splits)
qed

lemma lowest_is_last:
  assumes "lowestPriorityEntry q = Some l"
  shows "l \<in> set (wq_items q)"
    and "b \<in> set (wq_items q) \<Longrightarrow>
      \<not> entry_before (we_key (wq_mem q ! l), we_item (wq_mem q ! l)) (we_key (wq_mem q ! b), we_item (wq_mem q ! b))"
  using assms foldl_lowest [of "wq_mem q"]
  by (auto simp: lowestPriorityEntry_def elem_before_def wh_elem_def split: list.splits)

lemma push_replace:
  assumes inv: "wq_inv q" and key: "wq_byKey q (workItemKey item) = None"
    and full: "int (length (wq_items q)) \<ge> wq_maxItems q"
    and l: "lowestPriorityEntry q = Some l"
    and up: "wi_Priority item > wi_Priority (we_item (wq_mem q ! l))"
  shows "wq_inv (queue_Push item q)"
    and "wq_abs (queue_Push item q) =
      (wq_abs q)(we_key (wq_mem q ! l) := None, workItemKey item \<mapsto> item)"
proof -
  let ?k = "workItemKey item" and ?kl = "we_key (wq_mem q ! l)"
  let ?e = "(wq_mem q ! l)\<lparr>we_key := ?k, we_item := item\<rparr>"
  define h where "h = heap_Fix wh_Less wh_Swap (we_index (wq_mem q ! l)) (length (wq_items q))
      (wq_items q, (wq_mem q)[l := ?e])"
  note mem = lowest_is_last(1) [OF l]
  note R = rewrite_entry [OF inv mem _ h_def [symmetric], simplified]
  have P: "queue_Push item q = wq_set_depth ((wq_set_heap h
      (q\<lparr>wq_byKey := (wq_byKey q)(?kl := None, ?k \<mapsto> l)\<rparr>))\<lparr>wq_dropped := Suc (wq_dropped q)\<rparr>)"
    using key full l up by (simp add: queue_Push_def Let_def h_def) (simp add: wq_set_heap_def)
  note fresh = wq_inv_byKey_None [OF inv key]
  have other: "we_key (wq_mem q ! b) \<noteq> ?kl" if "b \<in> set (wq_items q)" "b \<noteq> l" for b
    using wq_inv_keys_distinct [OF inv that(1) mem] that(2) by blast
  note idx = wq_inv_byKey [OF inv]
  have items: "we_item (snd h ! b) = (if b = l then item else we_item (wq_mem q ! b))"
    if "b \<in> set (wq_items q)" for b using R(6,8) that by simp
  have new: "((wq_byKey q)(?kl := None, ?k \<mapsto> l)) k = Some a \<longleftrightarrow>
      a \<in> set (wq_items q) \<and> we_key (snd h ! a) = k" for k a
  proof (cases "a = l")
    case True
    then show ?thesis using R(5) mem idx [of k l] by auto
  next
    case False
    then show ?thesis using R(7) [of a] idx [of k a] other [of a] fresh [of a] by auto
  qed
  show "wq_inv (queue_Push item q)"
  proof (rule wq_invI)
    show "wq_byKey (queue_Push item q) k = Some b \<longleftrightarrow>
        b \<in> set (wq_items (queue_Push item q)) \<and> we_key (wq_mem (queue_Push item q) ! b) = k" for k b
      using new [of k b] by (simp add: P R(3))
    show "b \<in> set (wq_items (queue_Push item q)) \<Longrightarrow> we_key (wq_mem (queue_Push item q) ! b)
        = workItemKey (we_item (wq_mem (queue_Push item q) ! b))" for b
      using wq_inv_key [OF inv, of b] R(5) R(7) [of b] items [of b] by (cases "b = l") (auto simp: P R(3))
  qed (use R wq_inv_cap [OF inv] in \<open>simp_all add: P\<close>)
  show "wq_abs (queue_Push item q) = (wq_abs q)(?kl := None, ?k \<mapsto> item)"
  proof
    fix k
    show "wq_abs (queue_Push item q) k = ((wq_abs q)(?kl := None, ?k \<mapsto> item)) k"
      using wq_byKey_Some [OF inv, of k] items mem other by (cases "wq_byKey q k") (auto simp: P wq_abs_def)
  qed
qed

section \<open>Pop\<close>

lemma is_heap_take: "is_heap lt n xs \<Longrightarrow> is_heap lt n (take n xs)"
  unfolding is_heap_def
proof (intro allI impI)
  fix k assume "\<forall>k < n. ordered_at lt xs k" and "k < n"
  then show "ordered_at lt (take n xs) k"
    using parent_less [of k] by (cases "k = 0") (auto simp: ordered_at_def)
qed

lemma pop_heap:
  assumes inv: "wq_inv q" and n: "length (wq_items q) = Suc n" and pop: "wh_heap_Pop (wq_heap q) = (h, a)"
  shows "wh_wf h" and "is_heap elem_before n (wh_elems h)" and "length (fst h) = n"
    and "a = wq_items q ! 0" and "set (fst h) = set (wq_items q) - {a}"
    and "b \<in> set (wq_items q) \<Longrightarrow> we_key (snd h ! b) = we_key (wq_mem q ! b)"
    and "b \<in> set (wq_items q) \<Longrightarrow> we_item (snd h ! b) = we_item (wq_mem q ! b)"
proof -
  define h' where "h' = fst (heap_down wh_Less wh_Swap 0 n (wh_Swap 0 n (wq_heap q)))"
  have wf: "wh_wf (wq_heap q)" and heap: "is_heap elem_before (Suc n) (wh_elems (wq_heap q))"
    using inv n by (simp_all add: wq_inv_def)
  have "length (wh_elems (wq_heap q)) = Suc n" by (simp add: n)
  note D = wh.Pop_down [OF wf this heap, folded h'_def]
  note M = wh_elems_mset_set [OF D(3)]
  have len: "length (fst h') = Suc n" using M(4) n by simp
  have ha: "h = (take n (fst h'), snd h')" "a = fst h' ! n"
    using pop len by (auto simp: wh_heap_Pop_def wh_Pop_def n h'_def [symmetric] split: prod.splits)
  have split: "fst h' = take n (fst h') @ [a]" using len ha(2) by (metis lessI order_refl take_Suc_conv_app_nth take_all)
  show "length (fst h) = n" using len by (simp add: ha)
  show wf': "wh_wf h" using D(1) len by (auto simp: ha(1) wh_wf_def dest: in_set_takeD)
  have "wh_elems h = take n (wh_elems h')" by (simp add: ha(1) wh_elems_def take_map)
  then show "is_heap elem_before n (wh_elems h)" using is_heap_take [OF D(4)] by simp
  have "wh_elem (snd h') a = wh_elem (wq_mem q) (wq_items q ! 0)"
    using D(2) len n by (simp add: wh_elems_def ha(2))
  then show "a = wq_items q ! 0" by (simp add: wh_elem_def)
  have "distinct (take n (fst h') @ [a])" using D(1) split by (simp add: wh_wf_def)
  moreover have "set (take n (fst h') @ [a]) = set (wq_items q)" using M(1) split by simp
  ultimately show "set (fst h) = set (wq_items q) - {a}" by (auto simp: ha(1))
  show "b \<in> set (wq_items q) \<Longrightarrow> we_key (snd h ! b) = we_key (wq_mem q ! b)"
    and "b \<in> set (wq_items q) \<Longrightarrow> we_item (snd h ! b) = we_item (wq_mem q ! b)"
    using M(2) [of b] M(3) [of b] by (simp_all add: ha(1))
qed

lemma pop_correct:
  assumes inv: "wq_inv q" and ne: "wq_items q \<noteq> []"
  obtains item where "snd (queue_Pop q) = Some item" and "wq_inv (fst (queue_Pop q))"
    and "wq_abs q (workItemKey item) = Some item"
    and "wq_abs (fst (queue_Pop q)) = (wq_abs q)(workItemKey item := None)"
    and "\<And>k it. wq_abs q k = Some it \<Longrightarrow> \<not> entry_before (k, it) (workItemKey item, item)"
    and "length (wq_items q) = Suc (length (wq_items (fst (queue_Pop q))))"
proof -
  obtain n where n: "length (wq_items q) = Suc n" using ne by (cases "wq_items q") auto
  obtain h a where pop: "wh_heap_Pop (wq_heap q) = (h, a)" by (cases "wh_heap_Pop (wq_heap q)")
  note H = pop_heap [OF inv n pop]
  let ?e = "wq_mem q ! a"
  have a: "a \<in> set (wq_items q)" using H(4) n by (metis nth_mem zero_less_Suc)
  have e: "we_key (snd h ! a) = we_key ?e" "we_item (snd h ! a) = we_item ?e" "we_key ?e = workItemKey (we_item ?e)"
    using H(6,7) a wq_inv_key [OF inv a] by simp_all
  have P: "queue_Pop q = (wq_set_depth ((wq_set_heap h q)\<lparr>wq_byKey := (wq_byKey q)(we_key ?e := None)\<rparr>),
      Some (we_item ?e))"
    by (simp add: queue_Pop_def n pop e Let_def)
  have other: "we_key (wq_mem q ! b) \<noteq> we_key ?e" if "b \<in> set (wq_items q)" "b \<noteq> a" for b
    using wq_inv_keys_distinct [OF inv that(1) a] that(2) by blast
  show thesis
  proof (rule that)
    show "snd (queue_Pop q) = Some (we_item ?e)" by (simp add: P)
    show "wq_inv (fst (queue_Pop q))"
    proof (rule wq_invI)
      show "wq_byKey (fst (queue_Pop q)) k = Some b \<longleftrightarrow>
          b \<in> set (wq_items (fst (queue_Pop q))) \<and> we_key (wq_mem (fst (queue_Pop q)) ! b) = k" for k b
        using wq_inv_byKey [OF inv, of k b] H(6) [of b] other [of b] by (auto simp: P H(5))
      show "b \<in> set (wq_items (fst (queue_Pop q))) \<Longrightarrow> we_key (wq_mem (fst (queue_Pop q)) ! b)
          = workItemKey (we_item (wq_mem (fst (queue_Pop q)) ! b))" for b
        using wq_inv_key [OF inv, of b] H(6) [of b] H(7) [of b] by (auto simp: P H(5))
    qed (use H n wq_inv_cap [OF inv] in \<open>simp_all add: P\<close>)
    show "wq_abs q (workItemKey (we_item ?e)) = Some (we_item ?e)"
      using wq_inv_byKey [OF inv, of "we_key ?e" a] a by (simp add: wq_abs_def e(3))
    show "wq_abs (fst (queue_Pop q)) = (wq_abs q)(workItemKey (we_item ?e) := None)"
    proof
      fix k
      show "wq_abs (fst (queue_Pop q)) k = ((wq_abs q)(workItemKey (we_item ?e) := None)) k"
        using wq_byKey_Some [OF inv, of k] H(7) e(3) by (cases "wq_byKey q k") (auto simp: P wq_abs_def)
    qed
    show "length (wq_items q) = Suc (length (wq_items (fst (queue_Pop q))))" by (simp add: P H(3) n)
    fix k it assume "wq_abs q k = Some it"
    then obtain b where "wq_byKey q k = Some b" "it = we_item (wq_mem q ! b)"
      by (auto simp: wq_abs_def)
    then obtain j where b: "j < length (wq_items q)" "wq_items q ! j = b" "k = we_key (wq_mem q ! b)"
        "it = we_item (wq_mem q ! b)"
      using wq_byKey_Some [OF inv] by (metis in_set_conv_nth)
    have "is_heap elem_before (length (wq_items q)) (wh_elems (wq_heap q))"
      using inv by (simp add: wq_inv_def)
    from wh.heap_root_least [OF this b(1)]
    have "\<not> elem_before (wh_elem (wq_mem q) b) (wh_elem (wq_mem q) a)"
      using b n by (simp add: wh_elems_def H(4))
    then show "\<not> entry_before (k, it) (workItemKey (we_item ?e), we_item ?e)"
      by (simp add: elem_before_def wh_elem_def b(3,4) e(3))
  qed
qed

lemma wq_abs_dom: "wq_inv q \<Longrightarrow> dom (wq_abs q) = (\<lambda>a. we_key (wq_mem q ! a)) ` set (wq_items q)"
  by (auto simp: wq_abs_def dom_def wq_inv_byKey)

lemma wq_abs_card: "wq_inv q \<Longrightarrow> card (dom (wq_abs q)) = length (wq_items q)"
proof -
  assume inv: "wq_inv q"
  have "inj_on (\<lambda>a. we_key (wq_mem q ! a)) (set (wq_items q))"
    using wq_inv_keys_distinct [OF inv] by (auto simp: inj_on_def)
  moreover have "distinct (wq_items q)" using inv by (simp add: wq_inv_def wh_wf_def)
  ultimately show ?thesis by (simp add: wq_abs_dom [OF inv] card_image distinct_card)
qed

section \<open>The contract\<close>

text \<open>
  The contract of the queue over what it stands for. \<open>push_spec\<close>: an item whose key is waiting
  only replaces an item of lower priority; a new key is added while there is room; in a full queue
  it displaces the entry that is last in the order, and only if that has lower priority.
\<close>

definition push_spec :: "int \<Rightarrow> (string \<rightharpoonup> work_item) \<Rightarrow> work_item \<Rightarrow> (string \<rightharpoonup> work_item) \<Rightarrow> bool" where
  "push_spec cap m item m' \<longleftrightarrow>
     (case m (workItemKey item) of
        Some old \<Rightarrow>
          m' = (if wi_Priority old < wi_Priority item then m(workItemKey item \<mapsto> item) else m)
      | None \<Rightarrow>
          if int (card (dom m)) < cap then m' = m(workItemKey item \<mapsto> item)
          else \<exists>kw w. m kw = Some w \<and> (\<forall>k it. m k = Some it \<longrightarrow> \<not> entry_before (kw, w) (k, it))
            \<and> m' = (if wi_Priority w < wi_Priority item
                    then m(kw := None, workItemKey item \<mapsto> item) else m))"

definition pop_spec :: "(string \<rightharpoonup> work_item) \<Rightarrow> work_item option \<Rightarrow> (string \<rightharpoonup> work_item) \<Rightarrow> bool" where
  "pop_spec m r m' \<longleftrightarrow>
     (case r of
        None \<Rightarrow> m = Map.empty \<and> m' = m
      | Some item \<Rightarrow> m (workItemKey item) = Some item \<and> m' = m(workItemKey item := None)
          \<and> (\<forall>k it. m k = Some it \<longrightarrow> \<not> entry_before (k, it) (workItemKey item, item)))"

lemma push_unchanged:
  assumes "wq_inv q"
    and "(\<exists>a. wq_byKey q (workItemKey item) = Some a \<and> wi_Priority item \<le> wi_Priority (we_item (wq_mem q ! a)))
      \<or> (\<exists>l. wq_byKey q (workItemKey item) = None \<and> int (length (wq_items q)) \<ge> wq_maxItems q
        \<and> lowestPriorityEntry q = Some l \<and> wi_Priority item \<le> wi_Priority (we_item (wq_mem q ! l)))"
  shows "wq_inv (queue_Push item q)" and "wq_abs (queue_Push item q) = wq_abs q"
proof -
  have same: "wq_items (queue_Push item q) = wq_items q" "wq_mem (queue_Push item q) = wq_mem q"
      "wq_byKey (queue_Push item q) = wq_byKey q" "wq_maxItems (queue_Push item q) = wq_maxItems q"
    using assms(2) by (auto simp: queue_Push_def Let_def wq_set_depth_def)
  show "wq_inv (queue_Push item q)" "wq_abs (queue_Push item q) = wq_abs q"
    using wq_inv_cong [OF same] assms(1) by simp_all
qed

lemma push_refines:
  assumes inv: "wq_inv q"
  shows "wq_inv (queue_Push item q) \<and> push_spec (wq_maxItems q) (wq_abs q) item (wq_abs (queue_Push item q))"
proof (cases "wq_byKey q (workItemKey item)")
  case (Some a)
  then have abs: "wq_abs q (workItemKey item) = Some (we_item (wq_mem q ! a))" by (simp add: wq_abs_def)
  show ?thesis
  proof (cases "wi_Priority item > wi_Priority (we_item (wq_mem q ! a))")
    case True
    then show ?thesis using push_coalesce [OF inv Some] abs by (simp add: push_spec_def)
  next
    case False
    then show ?thesis using push_unchanged [OF inv] Some abs by (simp add: push_spec_def)
  qed
next
  case None
  then have abs: "wq_abs q (workItemKey item) = None" by (simp add: wq_abs_def)
  note card = wq_abs_card [OF inv]
  show ?thesis
  proof (cases "int (length (wq_items q)) < wq_maxItems q")
    case True
    then show ?thesis using push_append [OF inv None] abs card by (simp add: push_spec_def)
  next
    case full: False
    then have "wq_items q \<noteq> []" using wq_inv_cap(1) [OF inv] by auto
    then obtain l where l: "lowestPriorityEntry q = Some l"
      by (cases "wq_items q") (auto simp: lowestPriorityEntry_def)
    let ?w = "we_item (wq_mem q ! l)" and ?kw = "we_key (wq_mem q ! l)"
    have w: "wq_abs q ?kw = Some ?w"
      using wq_inv_byKey [OF inv, of ?kw l] lowest_is_last(1) [OF l] by (simp add: wq_abs_def)
    have last: "\<not> entry_before (?kw, ?w) (k, it)" if "wq_abs q k = Some it" for k it
      using that lowest_is_last(2) [OF l] wq_byKey_Some [OF inv] by (fastforce simp: wq_abs_def)
    have "wq_inv (queue_Push item q) \<and> wq_abs (queue_Push item q) =
        (if wi_Priority ?w < wi_Priority item then (wq_abs q)(?kw := None, workItemKey item \<mapsto> item)
         else wq_abs q)"
      using push_replace [OF inv None _ l] push_unchanged [OF inv] None full l by auto
    then show ?thesis
      using abs card full w last by (auto simp: push_spec_def)
  qed
qed

lemma pop_refines:
  assumes inv: "wq_inv q"
  shows "wq_inv (fst (queue_Pop q)) \<and> pop_spec (wq_abs q) (snd (queue_Pop q)) (wq_abs (fst (queue_Pop q)))"
proof (cases "wq_items q = []")
  case True
  then have "queue_Pop q = (q, None)" by (simp add: queue_Pop_def)
  moreover have "wq_abs q = Map.empty" using wq_abs_dom [OF inv] True by simp
  ultimately show ?thesis using inv by (simp add: pop_spec_def)
next
  case False
  then show ?thesis by (rule pop_correct [OF inv]) (simp add: pop_spec_def)
qed

text \<open>Popping up to \<open>n\<close> items, as a scheduler does that empties its queue.\<close>

fun drain :: "('q \<Rightarrow> 'q \<times> work_item option) \<Rightarrow> nat \<Rightarrow> 'q \<Rightarrow> work_item list" where
  "drain pop 0 q = []"
| "drain pop (Suc n) q = (case pop q of (q', None) \<Rightarrow> [] | (q', Some x) \<Rightarrow> x # drain pop n q')"

abbreviation served_before :: "work_item \<Rightarrow> work_item \<Rightarrow> bool" where
  "served_before x y \<equiv> entry_before (workItemKey x, x) (workItemKey y, y)"

text \<open>What a scheduler relies on: the contract as a locale. The scheduler sees the queue only
  through \<open>push\<close> and \<open>pop\<close>.\<close>

locale coalescing_queue =
  fixes push :: "work_item \<Rightarrow> 'q \<Rightarrow> 'q"
    and pop :: "'q \<Rightarrow> 'q \<times> work_item option"
    and cap :: "'q \<Rightarrow> int"
    and waiting :: "'q \<Rightarrow> (string \<rightharpoonup> work_item)"
    and invar :: "'q \<Rightarrow> bool"
  assumes push_meets: "invar q \<Longrightarrow> push_spec (cap q) (waiting q) x (waiting (push x q))"
    and push_invar: "invar q \<Longrightarrow> invar (push x q)"
    and push_cap: "cap (push x q) = cap q"
    and pop_meets: "invar q \<Longrightarrow> pop_spec (waiting q) (snd (pop q)) (waiting (fst (pop q)))"
    and pop_invar: "invar q \<Longrightarrow> invar (fst (pop q))"
    and waiting_finite: "invar q \<Longrightarrow> finite (dom (waiting q))"
    and waiting_key: "invar q \<Longrightarrow> waiting q k = Some x \<Longrightarrow> k = workItemKey x"
begin

lemma drain_serves_in_order:
  "invar q \<Longrightarrow> card (dom (waiting q)) \<le> n \<Longrightarrow>
   sorted_wrt served_before (drain pop n q) \<and> set (drain pop n q) = ran (waiting q)"
proof (induction n arbitrary: q)
  case 0
  then have "dom (waiting q) = {}" using waiting_finite by simp
  then show ?case by simp
next
  case (Suc n)
  obtain q' r where pop: "pop q = (q', r)" by (cases "pop q")
  note meets = pop_meets [OF Suc.prems(1), unfolded pop fst_conv snd_conv]
  show ?case
  proof (cases r)
    case None
    then show ?thesis using meets by (simp add: pop pop_spec_def)
  next
    case (Some x)
    let ?k = "workItemKey x"
    have x: "waiting q ?k = Some x" and q': "waiting q' = (waiting q)(?k := None)"
      and first: "\<And>k y. waiting q k = Some y \<Longrightarrow> \<not> entry_before (k, y) (?k, x)"
      using meets Some by (auto simp: pop_spec_def)
    have inv': "invar q'" using pop_invar [OF Suc.prems(1)] pop by simp
    have "card (dom (waiting q')) \<le> n"
      using Suc.prems x waiting_finite by (auto simp: q' card_Diff_singleton_if domI)
    from Suc.IH [OF inv' this]
    have IH: "sorted_wrt served_before (drain pop n q')" "set (drain pop n q') = ran (waiting q')" by auto
    have ran: "ran (waiting q) = insert x (ran (waiting q'))"
      using x by (auto simp: q' ran_def split: if_splits) (metis option.inject)
    have "served_before x y" if y: "y \<in> ran (waiting q')" for y
    proof -
      obtain k where k: "waiting q' k = Some y" using y by (auto simp: ran_def)
      then have "waiting q k = Some y" "k \<noteq> ?k" by (auto simp: q' split: if_splits)
      then show ?thesis using first [of k y] waiting_key [OF inv' k] by (auto simp: entry_before_def split: if_splits)
    qed
    then show ?thesis using IH by (simp add: pop Some ran)
  qed
qed

end

interpretation wq: coalescing_queue queue_Push queue_Pop wq_maxItems wq_abs wq_inv
proof
  show "wq_maxItems (queue_Push x q) = wq_maxItems q" for x q
    by (auto simp: queue_Push_def Let_def split: option.splits)
  show "finite (dom (wq_abs q))" if "wq_inv q" for q using wq_abs_dom [OF that] by simp
  show "k = workItemKey x" if "wq_inv q" "wq_abs q k = Some x" for q k x
    using that wq_byKey_Some [OF that(1)] wq_inv_key [OF that(1)] by (auto simp: wq_abs_def)
qed (simp_all add: push_refines pop_refines)

section \<open>Reachable queues\<close>

inductive queue_reachable :: "int \<Rightarrow> work_queue \<Rightarrow> bool" for cap :: int where
  new: "queue_reachable cap (queue_NewWithCapacity cap)"
| push: "queue_reachable cap q \<Longrightarrow> queue_reachable cap (queue_Push item q)"
| pop: "queue_reachable cap q \<Longrightarrow> queue_reachable cap (fst (queue_Pop q))"

lemma queue_reachable_inv:
  "queue_reachable cap q \<Longrightarrow> wq_inv q \<and> wq_maxItems q = (if cap \<le> 0 then defaultMaxItems else cap)"
proof (induction rule: queue_reachable.induct)
  case new
  then show ?case using wq_inv_New by (simp add: queue_NewWithCapacity_def)
next
  case (push q item)
  then show ?case by (simp add: wq.push_invar wq.push_cap)
next
  case (pop q)
  then have "wq_maxItems (fst (queue_Pop q)) = wq_maxItems q"
    by (simp add: queue_Pop_def Let_def split: prod.splits)
  with pop show ?case by (simp add: wq.pop_invar)
qed

section \<open>Properties\<close>

text \<open>
  C39: in every queue that pushes and pops can reach, \<open>Push\<close> implements its contract over the
  waiting items: one item per scope and type, a waiting item is replaced only by one of higher
  priority, and a full queue gives up its last entry only for an item of higher priority. The
  invariant that ties the heap slice, the positions stored in the entries and the index by key
  together is kept.
\<close>

theorem queue_push_refines:
  assumes "queue_reachable cap q"
  shows "wq_inv (queue_Push item q)
    \<and> push_spec (wq_maxItems q) (wq_abs q) item (wq_abs (queue_Push item q))"
  using queue_reachable_inv [OF assms] push_refines by blast

theorem queue_push_refines_witness:
  "let scope = \<lparr>sc_Tenant = ''t'', sc_AccountID = ''a'', sc_ZoneID = ''z'', sc_Environment = ''prod''\<rparr>;
       normal = \<lparr>wi_Scope = scope, wi_Priority = 0, wi_Type = ''reconcile''\<rparr>;
       urgent = \<lparr>wi_Scope = scope, wi_Priority = 20, wi_Type = ''rollback''\<rparr>;
       q = queue_Push normal (queue_NewWithCapacity 1)
   in push_spec (wq_maxItems q) (wq_abs q) urgent (wq_abs (queue_Push urgent q))"
  unfolding Let_def by (rule queue_push_refines [THEN conjunct2]) (rule queue_reachable.intros)+

text \<open>
  Popping a reachable queue as often as it has entries returns exactly the waiting items, each
  once, by falling priority and within one priority by rising key.
\<close>

theorem queue_drain_in_order:
  assumes "queue_reachable cap q"
  shows "sorted_wrt served_before (drain queue_Pop (nat (queue_Len q)) q)
    \<and> set (drain queue_Pop (nat (queue_Len q)) q) = ran (wq_abs q)"
  using wq.drain_serves_in_order queue_reachable_inv [OF assms] wq_abs_card by (simp add: queue_Len_def)

theorem queue_drain_in_order_witness:
  "let scope = \<lparr>sc_Tenant = ''t'', sc_AccountID = ''a'', sc_ZoneID = ''z'', sc_Environment = ''prod''\<rparr>;
       normal = \<lparr>wi_Scope = scope, wi_Priority = 0, wi_Type = ''reconcile''\<rparr>;
       urgent = \<lparr>wi_Scope = scope, wi_Priority = 20, wi_Type = ''rollback''\<rparr>;
       q = queue_Push urgent (queue_Push normal (queue_NewWithCapacity 8))
   in sorted_wrt served_before (drain queue_Pop (nat (queue_Len q)) q)"
  unfolding Let_def by (rule queue_drain_in_order [THEN conjunct1]) (rule queue_reachable.intros)+

text \<open>
  C40: a reachable queue never holds more entries than its capacity (1024 when the requested one is
  not positive), however many items were pushed, and its length is the number of different keys
  that wait.
\<close>

theorem queue_never_exceeds_capacity:
  assumes "queue_reachable cap q"
  shows "queue_Len q \<le> (if cap \<le> 0 then 1024 else cap) \<and> queue_Len q = int (card (dom (wq_abs q)))"
  using queue_reachable_inv [OF assms] wq_inv_cap(2) [of q] wq_abs_card [of q]
  by (auto simp: queue_Len_def defaultMaxItems_def split: if_splits)

theorem queue_never_exceeds_capacity_witness:
  "let scope = \<lparr>sc_Tenant = ''t'', sc_AccountID = ''a'', sc_ZoneID = ''z'', sc_Environment = ''prod''\<rparr>;
       normal = \<lparr>wi_Scope = scope, wi_Priority = 0, wi_Type = ''reconcile''\<rparr>;
       urgent = \<lparr>wi_Scope = scope, wi_Priority = 20, wi_Type = ''rollback''\<rparr>
   in queue_Len (queue_Push urgent (queue_Push normal (queue_NewWithCapacity 1))) \<le> 1"
  unfolding Let_def
  using queue_never_exceeds_capacity [OF queue_reachable.push [OF queue_reachable.push [OF queue_reachable.new [of 1]]],
      THEN conjunct1]
  by simp

end
