(* ===== verification/Go_Json.thy ===== *)
theory Go_Json
  imports Apperr Go_Sha256
begin

text \<open>
  What the code uses of \<open>encoding/json\<close>, of \<open>strconv\<close> and of the layouts of package \<open>time\<close>.

  A JSON text is represented by its syntax tree: \<open>json.Marshal\<close> builds a tree, \<open>json.Unmarshal\<close>
  reads one, and \<open>json_text\<close> is the compact text of a tree, needed where the code hashes it.
  \<^item> A number is an integer: the packages modelled here only exchange whole numbers.
  \<^item> A \<open>time.Time\<close> field is a node of its own; its text is the RFC 3339 form with nanoseconds.
  \<^item> Strings are written with the escapes of \<open>json.Marshal\<close> (HTML characters included); bytes
    from 128 on are copied, as the library does for valid UTF-8.
  \<^item> Members are looked up by their exact name, the last one when a name is repeated.
\<close>

datatype json =
    JNull
  | JBool bool
  | JNum int
  | JStr string
  | JTime go_time
  | JArr "json list"
  | JObj "(string \<times> json) list"

section \<open>The text of an instant\<close>

definition is_leap :: "int \<Rightarrow> bool" where
  "is_leap y \<longleftrightarrow> y mod 4 = 0 \<and> (y mod 100 \<noteq> 0 \<or> y mod 400 = 0)"

definition month_lengths :: "int \<Rightarrow> int list" where
  "month_lengths y = [31, if is_leap y then 29 else 28, 31, 30, 31, 30, 31, 31, 30, 31, 30, 31]"

text \<open>Month and day, from the day of the year and the lengths of the months.\<close>

fun month_day :: "int \<Rightarrow> int list \<Rightarrow> int \<Rightarrow> int \<times> int" where
  "month_day m [] d = (m, d + 1)"
| "month_day m (l # ls) d = (if d < l then (m, d + 1) else month_day (m + 1) ls (d - l))"

text \<open>Year, month and day from the number of days since 1 January of year 1.\<close>

definition civil_of_days :: "int \<Rightarrow> int \<times> int \<times> int" where
  "civil_of_days n =
     (let n400 = n div 146097; r400 = n mod 146097;
          n100 = min 3 (r400 div 36524); r100 = r400 - n100 * 36524;
          n4 = r100 div 1461; r4 = r100 mod 1461;
          n1 = min 3 (r4 div 365); r1 = r4 - n1 * 365;
          y = 400 * n400 + 100 * n100 + 4 * n4 + n1 + 1
      in (y, month_day 1 (month_lengths y) r1))"

definition pad_nat :: "nat \<Rightarrow> nat \<Rightarrow> string" where
  "pad_nat w n = (let s = show_nat n in replicate (w - length s) (CHR ''0'') @ s)"

definition strip_zeros :: "string \<Rightarrow> string" where
  "strip_zeros s = rev (dropWhile (\<lambda>c. c = CHR ''0'') (rev s))"

text \<open>\<open>t.UTC().Format(time.RFC3339Nano)\<close>.\<close>

definition RFC3339Nano :: "go_time \<Rightarrow> string" where
  "RFC3339Nano t =
     (let days = t div 86400000000000; ns = t mod 86400000000000;
          (y, m, d) = civil_of_days days;
          secs = ns div 1000000000; frac = ns mod 1000000000;
          ftext = (if frac = 0 then [] else CHR ''.'' # strip_zeros (pad_nat 9 (nat frac)))
      in pad_nat 4 (nat y) @ ''-'' @ pad_nat 2 (nat m) @ ''-'' @ pad_nat 2 (nat d) @ ''T'' @
         pad_nat 2 (nat (secs div 3600)) @ '':'' @ pad_nat 2 (nat (secs div 60 mod 60)) @ '':'' @
         pad_nat 2 (nat (secs mod 60)) @ ftext @ ''Z'')"

section \<open>The text of a tree\<close>

definition json_escape :: "char \<Rightarrow> string" where
  "json_escape c =
     (let n = of_char c :: nat in
      if n = 34 then [char_of (92 :: nat), c]
      else if n = 92 then [c, c]
      else if n = 8 then [char_of (92 :: nat), CHR ''b'']
      else if n = 12 then [char_of (92 :: nat), CHR ''f'']
      else if n = 10 then [char_of (92 :: nat), CHR ''n'']
      else if n = 13 then [char_of (92 :: nat), CHR ''r'']
      else if n = 9 then [char_of (92 :: nat), CHR ''t'']
      else if n < 32 \<or> n = 60 \<or> n = 62 \<or> n = 38
        then [char_of (92 :: nat), CHR ''u'', CHR ''0'', CHR ''0'', hex_char (n div 16), hex_char (n mod 16)]
      else [c])"

definition json_quote :: "string \<Rightarrow> string" where
  "json_quote s = [char_of (34 :: nat)] @ concat (map json_escape s) @ [char_of (34 :: nat)]"

fun comma_join :: "string list \<Rightarrow> string" where
  "comma_join [] = []"
| "comma_join [s] = s"
| "comma_join (s # t # ts) = s @ CHR '','' # comma_join (t # ts)"

fun json_text :: "json \<Rightarrow> string" where
  "json_text JNull = ''null''"
| "json_text (JBool b) = (if b then ''true'' else ''false'')"
| "json_text (JNum n) = show_int n"
| "json_text (JStr s) = json_quote s"
| "json_text (JTime t) = json_quote (RFC3339Nano t)"
| "json_text (JArr js) = ''['' @ comma_join (map json_text js) @ '']''"
| "json_text (JObj ms) =
     ''{'' @ comma_join (map (\<lambda>(k, v). json_quote k @ CHR '':'' # json_text v) ms) @ ''}''"

section \<open>Numbers\<close>

fun bit_length :: "nat \<Rightarrow> nat" where
  "bit_length n = (if n = 0 then 0 else Suc (bit_length (n div 2)))"

declare bit_length.simps [simp del]

text \<open>The conversion of an integer to \<open>float64\<close>: 53 bits of mantissa, rounded to the nearest
  value and to the even mantissa on a tie. The result is again a whole number.\<close>

definition float64_of_nat :: "nat \<Rightarrow> nat" where
  "float64_of_nat n =
     (let e = bit_length n - 53; q = n div 2 ^ e; r = n mod 2 ^ e;
          up = 2 * r > 2 ^ e \<or> (2 * r = 2 ^ e \<and> odd q)
      in (if up then q + 1 else q) * 2 ^ e)"

definition float64_of_int :: "int \<Rightarrow> int" where
  "float64_of_int n = (if n < 0 then - int (float64_of_nat (nat (- n))) else int (float64_of_nat (nat n)))"

lemma bit_length_le: "n < 2 ^ k \<Longrightarrow> bit_length n \<le> k"
proof (induction k arbitrary: n)
  case 0
  then show ?case by (simp add: bit_length.simps)
next
  case (Suc k)
  then have "n div 2 < 2 ^ k" by (simp add: less_mult_imp_div_less mult.commute)
  with Suc.IH show ?case by (subst bit_length.simps) simp
qed

lemma float64_of_nat_small: "n \<le> 2 ^ 53 \<Longrightarrow> float64_of_nat n = n"
proof (cases "n = 2 ^ 53")
  case True
  have "bit_length (2 ^ 53) = 54" by (simp add: bit_length.simps)
  with True show ?thesis by (simp add: float64_of_nat_def Let_def)
next
  case False
  assume "n \<le> 2 ^ 53"
  with False have "bit_length n \<le> 53" by (intro bit_length_le) simp
  then show ?thesis by (simp add: float64_of_nat_def Let_def)
qed

lemma float64_of_int_small: "\<bar>n\<bar> \<le> 2 ^ 53 \<Longrightarrow> float64_of_int n = n"
  by (auto simp: float64_of_int_def float64_of_nat_small nat_le_iff)

text \<open>The shortest decimal that reads back as a given whole \<open>float64\<close>, which is what
  \<open>json.Marshal\<close> writes for it: the number is cut to ever more leading digits, rounding to the
  nearest, until it converts to the same value.\<close>

definition round_digits :: "nat \<Rightarrow> nat \<Rightarrow> nat" where
  "round_digits k n =
     (let p = 10 ^ (length (show_nat n) - k); q = n div p; r = n mod p
      in (if 2 * r > p \<or> (2 * r = p \<and> odd q) then q + 1 else q) * p)"

definition shortest_decimal :: "nat \<Rightarrow> nat" where
  "shortest_decimal n =
     (case filter (\<lambda>k. float64_of_nat (round_digits k n) = n) [1..<18] of
        [] \<Rightarrow> n | k # _ \<Rightarrow> round_digits k n)"

definition json_of_float64 :: "int \<Rightarrow> json" where
  "json_of_float64 n =
     (if \<bar>n\<bar> \<le> 2 ^ 53 then JNum n
      else if n < 0 then JNum (- int (shortest_decimal (nat (- n))))
      else JNum (int (shortest_decimal (nat n))))"

text \<open>\<open>int64(v)\<close> of a whole \<open>float64\<close>; out of range it is the smallest integer, as the amd64
  conversion instruction yields.\<close>

definition int64_of_float64 :: "int \<Rightarrow> int" where
  "int64_of_float64 v = (if is_int64 v then v else min_int64)"

text \<open>\<open>strconv.ParseInt\<close> in base 10 with 64 bits.\<close>

fun parse_digits :: "int \<Rightarrow> string \<Rightarrow> int option" where
  "parse_digits acc [] = Some acc"
| "parse_digits acc (c # cs) =
     (let n = of_char c :: nat in
      if 48 \<le> n \<and> n \<le> 57 then parse_digits (acc * 10 + int (n - 48)) cs else None)"

definition ParseInt :: "string \<Rightarrow> int option" where
  "ParseInt s =
     (let (neg, ds) = (case s of c # cs \<Rightarrow> if c = CHR ''-'' then (True, cs)
                         else if c = CHR ''+'' then (False, cs) else (False, s) | [] \<Rightarrow> (False, []))
      in if ds = [] then None
         else case parse_digits 0 ds of None \<Rightarrow> None
              | Some n \<Rightarrow> let v = (if neg then - n else n) in if is_int64 v then Some v else None)"

section \<open>Values of type any\<close>

text \<open>A value of type \<open>any\<close> with its dynamic type, as far as the code stores one in a metadata map.
  Reading a tree into \<open>any\<close> makes every number a \<open>float64\<close>.\<close>

datatype go_any =
    ANil
  | ABool bool
  | AString string
  | AInt64 int
  | AInt int
  | AFloat64 int
  | ANumber string
  | AList "go_any list"
  | AMap "(string \<times> go_any) list"

text \<open>A map of type \<open>map[string]any\<close>: the empty association list is the nil map, and also the empty
  one, which the modelled code never tells apart.\<close>

type_synonym metadata = "(string \<times> go_any) list"

fun any_of_json :: "json \<Rightarrow> go_any" where
  "any_of_json JNull = ANil"
| "any_of_json (JBool b) = ABool b"
| "any_of_json (JNum n) = AFloat64 (float64_of_int n)"
| "any_of_json (JStr s) = AString s"
| "any_of_json (JTime t) = AString (RFC3339Nano t)"
| "any_of_json (JArr js) = AList (map any_of_json js)"
| "any_of_json (JObj ms) = AMap (map (\<lambda>(k, v). (k, any_of_json v)) ms)"

fun json_of_any :: "go_any \<Rightarrow> json" where
  "json_of_any ANil = JNull"
| "json_of_any (ABool b) = JBool b"
| "json_of_any (AString s) = JStr s"
| "json_of_any (AInt64 n) = JNum n"
| "json_of_any (AInt n) = JNum n"
| "json_of_any (AFloat64 n) = json_of_float64 n"
| "json_of_any (ANumber s) = (case ParseInt s of Some n \<Rightarrow> JNum n | None \<Rightarrow> JStr s)"
| "json_of_any (AList vs) = JArr (map json_of_any vs)"
| "json_of_any (AMap ms) = JObj (sort_key fst (map (\<lambda>(k, v). (k, json_of_any v)) ms))"

text \<open>\<open>json.Marshal\<close> of a metadata map, whose members are sorted by name, and of a map held in a
  field with \<open>omitempty\<close>.\<close>

definition json_of_metadata :: "metadata \<Rightarrow> json" where
  "json_of_metadata m = (if m = [] then JNull else json_of_any (AMap m))"

definition metadata_of_json :: "json \<Rightarrow> metadata result" where
  "metadata_of_json j =
     (case j of JNull \<Rightarrow> Inr []
      | JObj ms \<Rightarrow> Inr (map (\<lambda>(k, v). (k, any_of_json v)) ms)
      | _ \<Rightarrow> Inl (Plain ''json: cannot unmarshal into map''))"

text \<open>The values that survive being written and read again: strings, booleans, nil, and integers
  of at most 53 bits, whose dynamic type becomes \<open>float64\<close>.\<close>

fun any_small :: "go_any \<Rightarrow> bool" where
  "any_small (AInt64 n) = (\<bar>n\<bar> \<le> 2 ^ 53)"
| "any_small (AInt n) = (\<bar>n\<bar> \<le> 2 ^ 53)"
| "any_small (AFloat64 n) = (\<bar>n\<bar> \<le> 2 ^ 53)"
| "any_small (AString s) = True"
| "any_small (ABool b) = True"
| "any_small ANil = True"
| "any_small _ = False"

lemma json_of_any_reread: "any_small v \<Longrightarrow> json_of_any (any_of_json (json_of_any v)) = json_of_any v"
  by (cases v) (simp_all add: float64_of_int_small json_of_float64_def)

lemma map_fst_reread: "map fst (map (\<lambda>(k, v). (k, f v)) ms) = map fst ms"
  by (induction ms) auto

lemma json_of_metadata_reread:
  assumes "\<forall>v \<in> snd ` set m. any_small v"
  shows "\<exists>m'. metadata_of_json (json_of_metadata m) = Inr m' \<and> json_of_metadata m' = json_of_metadata m"
proof (cases "m = []")
  case False
  define ms where "ms = map (\<lambda>(k, v). (k, json_of_any v)) m"
  define m' where "m' = map (\<lambda>(k, v). (k, any_of_json v)) (sort_key fst ms)"
  have "\<And>k j. (k, j) \<in> set (sort_key fst ms) \<Longrightarrow> json_of_any (any_of_json j) = j"
    using assms by (force simp: ms_def json_of_any_reread)
  then have "map (\<lambda>(k, v). (k, json_of_any v)) m' = sort_key fst ms"
    unfolding m'_def by (auto simp: o_def intro!: map_idI)
  moreover have "m' \<noteq> []" using False by (auto simp: m'_def ms_def dest: arg_cong [of _ _ length])
  ultimately have "json_of_metadata m' = json_of_metadata m"
    using False by (simp add: json_of_metadata_def ms_def sort_key_id_if_sorted)
  moreover have "metadata_of_json (json_of_metadata m) = Inr m'"
    using False by (simp add: metadata_of_json_def json_of_metadata_def m'_def ms_def)
  ultimately show ?thesis by blast
qed (simp add: json_of_metadata_def metadata_of_json_def)

section \<open>Reading a tree into a struct\<close>

definition json_member :: "string \<Rightarrow> (string \<times> json) list \<Rightarrow> json option" where
  "json_member k ms = map_of (rev ms) k"

text \<open>The members of the object that is read into a struct; \<open>null\<close> leaves the struct as it is.\<close>

definition json_members :: "json \<Rightarrow> (string \<times> json) list result" where
  "json_members j = (case j of JObj ms \<Rightarrow> Inr ms | JNull \<Rightarrow> Inr []
     | _ \<Rightarrow> Inl (Plain ''json: cannot unmarshal into struct''))"

text \<open>A field by its type: absent and null leave the zero value.\<close>

definition field_string :: "string \<Rightarrow> (string \<times> json) list \<Rightarrow> string result" where
  "field_string k ms = (case json_member k ms of None \<Rightarrow> Inr [] | Some JNull \<Rightarrow> Inr []
     | Some (JStr s) \<Rightarrow> Inr s | Some (JTime t) \<Rightarrow> Inr (RFC3339Nano t)
     | _ \<Rightarrow> Inl (Plain ''json: cannot unmarshal into string''))"

definition field_int64 :: "string \<Rightarrow> (string \<times> json) list \<Rightarrow> int result" where
  "field_int64 k ms = (case json_member k ms of None \<Rightarrow> Inr 0 | Some JNull \<Rightarrow> Inr 0
     | Some (JNum n) \<Rightarrow> if is_int64 n then Inr n else Inl (Plain ''json: number out of range'')
     | _ \<Rightarrow> Inl (Plain ''json: cannot unmarshal into int64''))"

definition field_time :: "string \<Rightarrow> (string \<times> json) list \<Rightarrow> go_time result" where
  "field_time k ms = (case json_member k ms of None \<Rightarrow> Inr 0 | Some JNull \<Rightarrow> Inr 0
     | Some (JTime t) \<Rightarrow> Inr t
     | _ \<Rightarrow> Inl (Plain ''json: cannot unmarshal into time''))"

text \<open>A field of struct type, and one of pointer type, read by the decoder of the struct.\<close>

definition field_struct :: "(json \<Rightarrow> 'a result) \<Rightarrow> string \<Rightarrow> (string \<times> json) list \<Rightarrow> 'a result" where
  "field_struct dec k ms = dec (case json_member k ms of None \<Rightarrow> JNull | Some j \<Rightarrow> j)"

definition field_ptr :: "(json \<Rightarrow> 'a result) \<Rightarrow> string \<Rightarrow> (string \<times> json) list \<Rightarrow> 'a option result" where
  "field_ptr dec k ms = (case json_member k ms of None \<Rightarrow> Inr None | Some JNull \<Rightarrow> Inr None
     | Some j \<Rightarrow> bind_result (dec j) (\<lambda>x. Inr (Some x)))"

text \<open>Members of an encoded struct: always there, or left out when empty.\<close>

abbreviation member :: "string \<Rightarrow> json \<Rightarrow> (string \<times> json) list" where
  "member k j \<equiv> [(k, j)]"

definition omitempty :: "bool \<Rightarrow> string \<Rightarrow> json \<Rightarrow> (string \<times> json) list" where
  "omitempty e k j = (if e then [] else [(k, j)])"

lemma json_member_simps [simp]:
  "json_member k [] = None"
  "json_member k (ms @ ms') = (case json_member k ms' of Some j \<Rightarrow> Some j | None \<Rightarrow> json_member k ms)"
  "json_member k ((k', j) # ms) = (case json_member k ms of Some i \<Rightarrow> Some i | None \<Rightarrow> if k = k' then Some j else None)"
  "json_member k (omitempty e k' j) = (if k = k' \<and> \<not> e then Some j else None)"
  by (auto simp: json_member_def omitempty_def map_add_def split: option.splits)

text \<open>Reading back a member that was left out when empty gives the empty value.\<close>

lemma case_option_if [simp]:
  "(case (if b then Some x else None) of None \<Rightarrow> u | Some y \<Rightarrow> f y) = (if b then f x else u)"
  "(case (if b then None else Some x) of None \<Rightarrow> u | Some y \<Rightarrow> f y) = (if b then u else f x)"
  by simp_all

lemma read_omitted [simp]:
  "(if s \<noteq> [] then Inr s else Inr []) = Inr s"
  "(if s = [] then Inr [] else Inr s) = Inr s"
  "(if n \<noteq> 0 then Inr n else Inr 0) = Inr (n :: int)"
  "(if n = 0 then Inr 0 else Inr n) = Inr (n :: int)"
  by auto

lemma field_ptr_eq:
  "field_ptr dec k ms = (case json_member k ms of None \<Rightarrow> Inr None
     | Some j \<Rightarrow> if j = JNull then Inr None else bind_result (dec j) (\<lambda>x. Inr (Some x)))"
  by (simp add: field_ptr_def split: option.splits json.splits)

lemmas json_fields = field_string_def field_int64_def field_time_def field_struct_def field_ptr_eq

end
