(* ===== verification/Go_World.thy ===== *)
theory Go_World
  imports Go_Json
begin

text \<open>
  The surroundings that the stateful packages act on. Every reading of the clock and every call
  into the operating system or the database takes the next entry of the scripts \<open>io_clock\<close>,
  \<open>io_fault\<close> and \<open>io_choice\<close>: the instant that is read, the error with which the call fails
  (\<open>None\<close> when it succeeds), and the outcome the code cannot see (whether a commit that failed
  had taken effect). A theorem for all scripts is a theorem for all clocks and all failures.

  The tables of the SQLite database and the files of the runtime directory are records that
  extend this one, so an operation states by its type what it can reach.
\<close>

record io_env =
  io_clock :: "nat \<Rightarrow> go_time"
  io_fault :: "nat \<Rightarrow> error option"
  io_choice :: "nat \<Rightarrow> bool"
  io_step :: nat

text \<open>\<open>time.Now()\<close>.\<close>

definition time_Now :: "'z io_env_scheme \<Rightarrow> go_time \<times> 'z io_env_scheme" where
  "time_Now w = (io_clock w (io_step w), w\<lparr>io_step := Suc (io_step w)\<rparr>)"

text \<open>A call that can fail and has no other visible effect by itself.\<close>

definition io_call :: "'z io_env_scheme \<Rightarrow> unit result \<times> 'z io_env_scheme" where
  "io_call w = (case io_fault w (io_step w) of None \<Rightarrow> Inr () | Some e \<Rightarrow> Inl e,
                w\<lparr>io_step := Suc (io_step w)\<rparr>)"

definition io_choose :: "'z io_env_scheme \<Rightarrow> bool \<times> 'z io_env_scheme" where
  "io_choose w = (io_choice w (io_step w), w\<lparr>io_step := Suc (io_step w)\<rparr>)"

text \<open>A world in which nothing fails.\<close>

definition no_faults :: "'z io_env_scheme \<Rightarrow> bool" where
  "no_faults w \<longleftrightarrow> io_fault w = (\<lambda>_. None)"

lemma no_faults_step [simp]: "no_faults (w\<lparr>io_step := n\<rparr>) = no_faults w"
  by (simp add: no_faults_def)

lemma io_call_ok: "no_faults w \<Longrightarrow> io_call w = (Inr (), w\<lparr>io_step := Suc (io_step w)\<rparr>)"
  by (simp add: io_call_def no_faults_def)

lemma io_call_cases:
  obtains "io_call w = (Inr (), w\<lparr>io_step := Suc (io_step w)\<rparr>)"
    | e where "io_call w = (Inl e, w\<lparr>io_step := Suc (io_step w)\<rparr>)" and "\<not> no_faults w"
  by (cases "io_fault w (io_step w)") (auto simp: io_call_def no_faults_def fun_eq_iff)

text \<open>Two worlds that differ in how much of the scripts was used.\<close>

definition stepped :: "'z io_env_scheme \<Rightarrow> 'z io_env_scheme \<Rightarrow> bool" where
  "stepped w w' \<longleftrightarrow> (\<exists>k. w' = w\<lparr>io_step := k\<rparr>)"

lemma stepped_refl [simp, intro]: "stepped w w"
  unfolding stepped_def by (rule exI [of _ "io_step w"]) simp

lemma stepped_step [simp]: "stepped w (w\<lparr>io_step := k\<rparr>)"
  by (auto simp: stepped_def)

lemma stepped_trans [trans]: "stepped u v \<Longrightarrow> stepped v w \<Longrightarrow> stepped u w"
  by (auto simp: stepped_def)

lemma stepped_step_left [simp]: "stepped (w\<lparr>io_step := k\<rparr>) w' \<longleftrightarrow> stepped w w'"
  by (auto simp: stepped_def)

lemma io_call_stepped [simp]: "io_call w = (r, w') \<Longrightarrow> stepped w w'"
  by (auto simp: io_call_def)

lemma time_Now_stepped [simp]: "time_Now w = (r, w') \<Longrightarrow> stepped w w'"
  by (auto simp: time_Now_def)

lemma io_choose_stepped [simp]: "io_choose w = (r, w') \<Longrightarrow> stepped w w'"
  by (auto simp: io_choose_def)

lemma stepped_faults: "stepped w w' \<Longrightarrow> no_faults w' = no_faults w"
  by (auto simp: stepped_def)

section \<open>Files of the runtime directory\<close>

text \<open>The contents of a file: a text that is JSON, by its tree, or any other bytes.\<close>

datatype file_data = File_json json | File_bytes string

type_synonym files = "(string \<times> file_data) list"

definition file_get :: "string \<Rightarrow> files \<Rightarrow> file_data option" where
  "file_get n fs = map_of fs n"

definition file_put :: "string \<Rightarrow> file_data \<Rightarrow> files \<Rightarrow> files" where
  "file_put n d fs = (n, d) # filter (\<lambda>(m, _). m \<noteq> n) fs"

definition file_remove :: "string \<Rightarrow> files \<Rightarrow> files" where
  "file_remove n fs = filter (\<lambda>(m, _). m \<noteq> n) fs"

text \<open>\<open>os.Rename\<close> of a file that exists replaces the target.\<close>

definition file_rename :: "string \<Rightarrow> string \<Rightarrow> files \<Rightarrow> files" where
  "file_rename a b fs = (case file_get a fs of None \<Rightarrow> fs | Some d \<Rightarrow> file_put b d (file_remove a fs))"

lemma file_get_put [simp]: "file_get m (file_put n d fs) = (if m = n then Some d else file_get m fs)"
  by (simp add: file_get_def file_put_def map_of_filter_neq)

lemma file_get_remove [simp]: "file_get m (file_remove n fs) = (if m = n then None else file_get m fs)"
  by (simp add: file_get_def file_remove_def map_of_filter_neq)

lemma file_get_rename:
  "file_get m (file_rename a b fs) =
     (case file_get a fs of None \<Rightarrow> file_get m fs
      | Some d \<Rightarrow> if m = b then Some d else if m = a then None else file_get m fs)"
  by (simp add: file_rename_def split: option.splits)

record dir_env = io_env +
  fs_files :: files

text \<open>\<open>os.ReadDir\<close> lists the names in their order.\<close>

definition file_names :: "files \<Rightarrow> string list" where
  "file_names fs = sort (map fst fs)"

end
