(* ===== verification/Runtime_Models.thy ===== *)
theory Runtime_Models
  imports Go_World
begin

text \<open>
  The data of package \<open>internal/runtime/models\<close> (\<open>lifecycle.go\<close>, \<open>coordination.go\<close>, \<open>models.go\<close>)
  with the JSON form in which the runtime state is written to disk and into checkpoints. A string
  type with named constants is a string here too, as in the source, with one definition per
  constant.
\<close>

section \<open>Lifecycle\<close>

type_synonym runtime_status = string

definition StatusIdle :: runtime_status where "StatusIdle = ''idle''"
definition StatusDiscovering :: runtime_status where "StatusDiscovering = ''discovering''"
definition StatusPlanning :: runtime_status where "StatusPlanning = ''planning''"
definition StatusAwaitingApproval :: runtime_status where "StatusAwaitingApproval = ''awaiting_approval''"
definition StatusExecuting :: runtime_status where "StatusExecuting = ''executing''"
definition StatusValidating :: runtime_status where "StatusValidating = ''validating''"
definition StatusConverged :: runtime_status where "StatusConverged = ''converged''"
definition StatusRollbackRequired :: runtime_status where "StatusRollbackRequired = ''rollback_required''"
definition StatusRollingBack :: runtime_status where "StatusRollingBack = ''rolling_back''"
definition StatusQuarantined :: runtime_status where "StatusQuarantined = ''quarantined''"
definition StatusFailed :: runtime_status where "StatusFailed = ''failed''"
definition StatusPaused :: runtime_status where "StatusPaused = ''paused''"

lemmas status_defs =
  StatusIdle_def StatusDiscovering_def StatusPlanning_def StatusAwaitingApproval_def
  StatusExecuting_def StatusValidating_def StatusConverged_def StatusRollbackRequired_def
  StatusRollingBack_def StatusQuarantined_def StatusFailed_def StatusPaused_def

definition all_statuses :: "runtime_status list" where
  "all_statuses = [StatusIdle, StatusDiscovering, StatusPlanning, StatusAwaitingApproval,
     StatusExecuting, StatusValidating, StatusConverged, StatusRollbackRequired,
     StatusRollingBack, StatusQuarantined, StatusFailed, StatusPaused]"

lemma all_statuses_distinct: "distinct all_statuses"
  by (simp add: all_statuses_def status_defs)

lemma all_statuses_nonempty: "[] \<notin> set all_statuses"
  by (simp add: all_statuses_def status_defs)

record lifecycle_state =
  lc_Status :: runtime_status
  lc_EpochID :: string
  lc_RunID :: string
  lc_BatchID :: string
  lc_PlanID :: string
  lc_StartedAt :: go_time
  lc_LastUpdatedAt :: go_time
  lc_Error :: string
  lc_RetryCount :: int

section \<open>Leases and epochs\<close>

record lease =
  ls_ID :: string
  ls_Owner :: string
  ls_Action :: string
  ls_EpochID :: string
  ls_ExpiresAt :: go_time
  ls_CreatedAt :: go_time
  ls_FencingToken :: int

record epoch =
  ep_ID :: string
  ep_ParentID :: string
  ep_Generation :: int
  ep_SchedulerRunID :: string
  ep_CreatedAt :: go_time

definition IsExpired :: "go_time \<Rightarrow> lease \<Rightarrow> bool" where
  "IsExpired now l \<longleftrightarrow> \<not> time_is_zero (ls_ExpiresAt l) \<and> time_after now (ls_ExpiresAt l)"

section \<open>The runtime state\<close>

record runtime_state =
  rs_LastRunID :: string
  rs_LastAppliedSnapshot :: string
  rs_LastPlanID :: string
  rs_LastSuccessAt :: go_time
  rs_IncompleteBatchID :: string
  rs_ActiveRollbackID :: string
  rs_CurrentEpoch :: epoch
  rs_ActiveLease :: "lease option"
  rs_ActiveRollbackLease :: "lease option"
  rs_LastSafeCheckpoint :: string
  rs_Lifecycle :: lifecycle_state
  rs_Cooldowns :: "(string \<times> go_time) list"

definition zero_lifecycle :: lifecycle_state where
  "zero_lifecycle = \<lparr>lc_Status = [], lc_EpochID = [], lc_RunID = [], lc_BatchID = [], lc_PlanID = [],
     lc_StartedAt = 0, lc_LastUpdatedAt = 0, lc_Error = [], lc_RetryCount = 0\<rparr>"

definition zero_epoch :: epoch where
  "zero_epoch = \<lparr>ep_ID = [], ep_ParentID = [], ep_Generation = 0, ep_SchedulerRunID = [], ep_CreatedAt = 0\<rparr>"

definition zero_state :: runtime_state where
  "zero_state = \<lparr>rs_LastRunID = [], rs_LastAppliedSnapshot = [], rs_LastPlanID = [], rs_LastSuccessAt = 0,
     rs_IncompleteBatchID = [], rs_ActiveRollbackID = [], rs_CurrentEpoch = zero_epoch,
     rs_ActiveLease = None, rs_ActiveRollbackLease = None, rs_LastSafeCheckpoint = [],
     rs_Lifecycle = zero_lifecycle, rs_Cooldowns = []\<rparr>"

section \<open>The JSON form\<close>

definition json_of_lifecycle :: "lifecycle_state \<Rightarrow> json" where
  "json_of_lifecycle l = JObj (
     member ''status'' (JStr (lc_Status l)) @
     omitempty (lc_EpochID l = []) ''epoch_id'' (JStr (lc_EpochID l)) @
     omitempty (lc_RunID l = []) ''run_id'' (JStr (lc_RunID l)) @
     omitempty (lc_BatchID l = []) ''batch_id'' (JStr (lc_BatchID l)) @
     omitempty (lc_PlanID l = []) ''plan_id'' (JStr (lc_PlanID l)) @
     member ''started_at'' (JTime (lc_StartedAt l)) @
     member ''last_updated_at'' (JTime (lc_LastUpdatedAt l)) @
     omitempty (lc_Error l = []) ''error'' (JStr (lc_Error l)) @
     member ''retry_count'' (JNum (lc_RetryCount l)))"

definition lifecycle_of_json :: "json \<Rightarrow> lifecycle_state result" where
  "lifecycle_of_json j =
     bind_result (json_members j) (\<lambda>ms.
     bind_result (field_string ''status'' ms) (\<lambda>st.
     bind_result (field_string ''epoch_id'' ms) (\<lambda>ep.
     bind_result (field_string ''run_id'' ms) (\<lambda>run.
     bind_result (field_string ''batch_id'' ms) (\<lambda>batch.
     bind_result (field_string ''plan_id'' ms) (\<lambda>plan.
     bind_result (field_time ''started_at'' ms) (\<lambda>started.
     bind_result (field_time ''last_updated_at'' ms) (\<lambda>updated.
     bind_result (field_string ''error'' ms) (\<lambda>err.
     bind_result (field_int64 ''retry_count'' ms) (\<lambda>retry.
       Inr \<lparr>lc_Status = st, lc_EpochID = ep, lc_RunID = run, lc_BatchID = batch, lc_PlanID = plan,
         lc_StartedAt = started, lc_LastUpdatedAt = updated, lc_Error = err, lc_RetryCount = retry\<rparr>))))))))))"

definition json_of_lease :: "lease \<Rightarrow> json" where
  "json_of_lease l = JObj (
     member ''lease_id'' (JStr (ls_ID l)) @
     member ''owner'' (JStr (ls_Owner l)) @
     member ''action'' (JStr (ls_Action l)) @
     member ''epoch_id'' (JStr (ls_EpochID l)) @
     member ''expires_at'' (JTime (ls_ExpiresAt l)) @
     member ''created_at'' (JTime (ls_CreatedAt l)) @
     omitempty (ls_FencingToken l = 0) ''fencing_token'' (JNum (ls_FencingToken l)))"

definition lease_of_json :: "json \<Rightarrow> lease result" where
  "lease_of_json j =
     bind_result (json_members j) (\<lambda>ms.
     bind_result (field_string ''lease_id'' ms) (\<lambda>lid.
     bind_result (field_string ''owner'' ms) (\<lambda>owner.
     bind_result (field_string ''action'' ms) (\<lambda>action.
     bind_result (field_string ''epoch_id'' ms) (\<lambda>ep.
     bind_result (field_time ''expires_at'' ms) (\<lambda>expires.
     bind_result (field_time ''created_at'' ms) (\<lambda>created.
     bind_result (field_int64 ''fencing_token'' ms) (\<lambda>token.
       Inr \<lparr>ls_ID = lid, ls_Owner = owner, ls_Action = action, ls_EpochID = ep, ls_ExpiresAt = expires,
         ls_CreatedAt = created, ls_FencingToken = token\<rparr>))))))))"

definition json_of_epoch :: "epoch \<Rightarrow> json" where
  "json_of_epoch e = JObj (
     member ''epoch_id'' (JStr (ep_ID e)) @
     omitempty (ep_ParentID e = []) ''parent_id'' (JStr (ep_ParentID e)) @
     member ''generation'' (JNum (ep_Generation e)) @
     omitempty (ep_SchedulerRunID e = []) ''scheduler_run_id'' (JStr (ep_SchedulerRunID e)) @
     member ''created_at'' (JTime (ep_CreatedAt e)))"

definition epoch_of_json :: "json \<Rightarrow> epoch result" where
  "epoch_of_json j =
     bind_result (json_members j) (\<lambda>ms.
     bind_result (field_string ''epoch_id'' ms) (\<lambda>eid.
     bind_result (field_string ''parent_id'' ms) (\<lambda>parent.
     bind_result (field_int64 ''generation'' ms) (\<lambda>gen.
     bind_result (field_string ''scheduler_run_id'' ms) (\<lambda>run.
     bind_result (field_time ''created_at'' ms) (\<lambda>created.
       Inr \<lparr>ep_ID = eid, ep_ParentID = parent, ep_Generation = gen, ep_SchedulerRunID = run,
         ep_CreatedAt = created\<rparr>))))))"

definition json_of_cooldowns :: "(string \<times> go_time) list \<Rightarrow> json" where
  "json_of_cooldowns cs = JObj (sort_key fst (map (\<lambda>(k, t). (k, JTime t)) cs))"

fun cooldown_list :: "(string \<times> json) list \<Rightarrow> (string \<times> go_time) list result" where
  "cooldown_list [] = Inr []"
| "cooldown_list ((k, JTime t) # ms) = bind_result (cooldown_list ms) (\<lambda>cs. Inr ((k, t) # cs))"
| "cooldown_list ((k, JNull) # ms) = bind_result (cooldown_list ms) (\<lambda>cs. Inr ((k, 0) # cs))"
| "cooldown_list _ = Inl (Plain ''json: cannot unmarshal into time'')"

definition cooldowns_of_json :: "json \<Rightarrow> (string \<times> go_time) list result" where
  "cooldowns_of_json j = bind_result (json_members j) cooldown_list"

definition json_of_state :: "runtime_state \<Rightarrow> json" where
  "json_of_state s = JObj (
     member ''last_run_id'' (JStr (rs_LastRunID s)) @
     member ''last_applied_snapshot_checksum'' (JStr (rs_LastAppliedSnapshot s)) @
     member ''last_plan_id'' (JStr (rs_LastPlanID s)) @
     member ''last_success_at'' (JTime (rs_LastSuccessAt s)) @
     omitempty (rs_IncompleteBatchID s = []) ''incomplete_batch_id'' (JStr (rs_IncompleteBatchID s)) @
     omitempty (rs_ActiveRollbackID s = []) ''active_rollback_id'' (JStr (rs_ActiveRollbackID s)) @
     member ''current_epoch'' (json_of_epoch (rs_CurrentEpoch s)) @
     (case rs_ActiveLease s of None \<Rightarrow> [] | Some l \<Rightarrow> member ''active_lease'' (json_of_lease l)) @
     (case rs_ActiveRollbackLease s of None \<Rightarrow> [] | Some l \<Rightarrow> member ''active_rollback_lease'' (json_of_lease l)) @
     omitempty (rs_LastSafeCheckpoint s = []) ''last_safe_checkpoint'' (JStr (rs_LastSafeCheckpoint s)) @
     member ''lifecycle'' (json_of_lifecycle (rs_Lifecycle s)) @
     omitempty (rs_Cooldowns s = []) ''cooldowns'' (json_of_cooldowns (rs_Cooldowns s)))"

definition state_of_json :: "json \<Rightarrow> runtime_state result" where
  "state_of_json j =
     bind_result (json_members j) (\<lambda>ms.
     bind_result (field_string ''last_run_id'' ms) (\<lambda>run.
     bind_result (field_string ''last_applied_snapshot_checksum'' ms) (\<lambda>snap.
     bind_result (field_string ''last_plan_id'' ms) (\<lambda>plan.
     bind_result (field_time ''last_success_at'' ms) (\<lambda>success.
     bind_result (field_string ''incomplete_batch_id'' ms) (\<lambda>batch.
     bind_result (field_string ''active_rollback_id'' ms) (\<lambda>rollback.
     bind_result (field_struct epoch_of_json ''current_epoch'' ms) (\<lambda>ep.
     bind_result (field_ptr lease_of_json ''active_lease'' ms) (\<lambda>lease.
     bind_result (field_ptr lease_of_json ''active_rollback_lease'' ms) (\<lambda>rblease.
     bind_result (field_string ''last_safe_checkpoint'' ms) (\<lambda>safe.
     bind_result (field_struct lifecycle_of_json ''lifecycle'' ms) (\<lambda>life.
     bind_result (field_struct cooldowns_of_json ''cooldowns'' ms) (\<lambda>cools.
       Inr \<lparr>rs_LastRunID = run, rs_LastAppliedSnapshot = snap, rs_LastPlanID = plan,
         rs_LastSuccessAt = success, rs_IncompleteBatchID = batch, rs_ActiveRollbackID = rollback,
         rs_CurrentEpoch = ep, rs_ActiveLease = lease, rs_ActiveRollbackLease = rblease,
         rs_LastSafeCheckpoint = safe, rs_Lifecycle = life, rs_Cooldowns = cools\<rparr>)))))))))))))"

text \<open>A state as the program holds one: its integers have 64 bits, and the cooldowns, a map, are
  kept in the order of their names.\<close>

definition lease_ok :: "lease \<Rightarrow> bool" where
  "lease_ok l \<longleftrightarrow> is_int64 (ls_FencingToken l)"

definition state_ok :: "runtime_state \<Rightarrow> bool" where
  "state_ok s \<longleftrightarrow> is_int64 (ep_Generation (rs_CurrentEpoch s)) \<and>
     is_int64 (lc_RetryCount (rs_Lifecycle s)) \<and>
     pred_option lease_ok (rs_ActiveLease s) \<and> pred_option lease_ok (rs_ActiveRollbackLease s) \<and>
     sorted (map fst (rs_Cooldowns s)) \<and> distinct (map fst (rs_Cooldowns s))"

lemma lifecycle_roundtrip:
  "is_int64 (lc_RetryCount l) \<Longrightarrow> lifecycle_of_json (json_of_lifecycle l) = Inr l"
  by (simp add: lifecycle_of_json_def json_of_lifecycle_def json_members_def json_fields)

lemma lease_roundtrip: "lease_ok l \<Longrightarrow> lease_of_json (json_of_lease l) = Inr l"
  by (simp add: lease_of_json_def json_of_lease_def json_members_def json_fields lease_ok_def)

lemma epoch_roundtrip: "is_int64 (ep_Generation e) \<Longrightarrow> epoch_of_json (json_of_epoch e) = Inr e"
  by (simp add: epoch_of_json_def json_of_epoch_def json_members_def json_fields)

lemma cooldown_list_map: "cooldown_list (map (\<lambda>(k, t). (k, JTime t)) cs) = Inr cs"
  by (induction cs) auto

lemma cooldowns_roundtrip:
  assumes "sorted (map fst cs)"
  shows "cooldowns_of_json (json_of_cooldowns cs) = Inr cs"
proof -
  have "map (fst \<circ> (\<lambda>(k, t). (k, JTime t))) cs = map fst cs" by (induction cs) auto
  with assms have "sorted (map fst (map (\<lambda>(k, t). (k, JTime t)) cs))" by (simp only: map_map)
  then have "sort_key fst (map (\<lambda>(k, t). (k, JTime t)) cs) = map (\<lambda>(k, t). (k, JTime t)) cs"
    by (rule sort_key_id_if_sorted)
  then show ?thesis
    by (simp add: cooldowns_of_json_def json_of_cooldowns_def json_members_def cooldown_list_map)
qed

lemma json_of_lease_not_null [simp]: "json_of_lease l \<noteq> JNull"
  by (simp add: json_of_lease_def)

lemma cooldowns_of_null: "cooldowns_of_json JNull = Inr []"
  by (simp add: cooldowns_of_json_def json_members_def)

lemma state_roundtrip:
  assumes "state_ok s"
  shows "state_of_json (json_of_state s) = Inr s"
proof -
  have "is_int64 (ep_Generation (rs_CurrentEpoch s))" "is_int64 (lc_RetryCount (rs_Lifecycle s))"
    using assms by (auto simp: state_ok_def)
  note inner = epoch_roundtrip [OF this(1)] lifecycle_roundtrip [OF this(2)]
  show ?thesis
    using assms
    by (cases "rs_ActiveLease s"; cases "rs_ActiveRollbackLease s")
      (simp_all add: state_of_json_def json_of_state_def json_members_def json_fields inner
        lease_roundtrip cooldowns_roundtrip cooldowns_of_null state_ok_def)
qed

lemma zero_state_ok: "state_ok zero_state"
  by (simp add: state_ok_def zero_state_def zero_epoch_def zero_lifecycle_def is_int64_def min_int64_def max_int64_def)

end
