(* ===== verification/Runtime_Events.thy ===== *)
theory Runtime_Events
  imports Runtime_Models
begin

text \<open>
  Package \<open>internal/runtime/events\<close>: the events of the runtime's log with their checkpoints
  (\<open>events.go\<close>) and the constructors of publish requests (\<open>typed.go\<close>). The payload structs appear as
  the JSON objects that \<open>PublishEvent\<close> makes of them, with the members in the order of the struct's
  fields. Sequence numbers count the events of a scope from 1 and are natural numbers here.

  \<open>NewGovernorPressure\<close>, whose payload has a fraction, is not modelled.
\<close>

section \<open>Names\<close>

type_synonym category = string

definition CategoryLifecycle :: category where "CategoryLifecycle = ''lifecycle''"
definition CategoryPolicy :: category where "CategoryPolicy = ''policy''"
definition CategoryMutation :: category where "CategoryMutation = ''mutation''"
definition CategoryRollback :: category where "CategoryRollback = ''rollback''"
definition CategoryDrift :: category where "CategoryDrift = ''drift''"
definition CategoryScheduler :: category where "CategoryScheduler = ''scheduler''"
definition CategoryLease :: category where "CategoryLease = ''lease''"
definition CategoryFencing :: category where "CategoryFencing = ''fencing''"
definition CategoryHA :: category where "CategoryHA = ''ha''"
definition CategorySecurity :: category where "CategorySecurity = ''security''"

definition TypeLifecycleTransition :: string where "TypeLifecycleTransition = ''lifecycle_transition''"
definition TypePolicyDecision :: string where "TypePolicyDecision = ''policy_decision''"
definition TypeMutationPlanned :: string where "TypeMutationPlanned = ''mutation_planned''"
definition TypeMutationApplied :: string where "TypeMutationApplied = ''mutation_applied''"
definition TypeRollbackStarted :: string where "TypeRollbackStarted = ''rollback_started''"
definition TypeRollbackCompleted :: string where "TypeRollbackCompleted = ''rollback_completed''"
definition TypeRollbackFailed :: string where "TypeRollbackFailed = ''rollback_failed''"
definition TypeDriftDetected :: string where "TypeDriftDetected = ''drift_detected''"
definition TypeLeaseAcquired :: string where "TypeLeaseAcquired = ''lease_acquired''"
definition TypeFencingTokenIssued :: string where "TypeFencingTokenIssued = ''fencing_token_issued''"
definition TypeSchedulerTick :: string where "TypeSchedulerTick = ''scheduler_tick''"
definition TypeWorkerStarted :: string where "TypeWorkerStarted = ''worker_started''"
definition TypeWorkerStopped :: string where "TypeWorkerStopped = ''worker_stopped''"
definition TypeBreakerOpened :: string where "TypeBreakerOpened = ''breaker_opened''"
definition TypeBreakerClosed :: string where "TypeBreakerClosed = ''breaker_closed''"
definition TypeHALeaderElected :: string where "TypeHALeaderElected = ''ha_leader_elected''"
definition TypeHALeaderLost :: string where "TypeHALeaderLost = ''ha_leader_lost''"
definition TypeRecoveryStarted :: string where "TypeRecoveryStarted = ''recovery_started''"
definition TypeRecoveryCompleted :: string where "TypeRecoveryCompleted = ''recovery_completed''"
definition TypeReplayDivergence :: string where "TypeReplayDivergence = ''replay_divergence_detected''"

lemmas event_type_defs =
  TypeLifecycleTransition_def
  TypePolicyDecision_def
  TypeMutationPlanned_def
  TypeMutationApplied_def
  TypeRollbackStarted_def
  TypeRollbackCompleted_def
  TypeRollbackFailed_def
  TypeDriftDetected_def
  TypeLeaseAcquired_def
  TypeFencingTokenIssued_def
  TypeSchedulerTick_def
  TypeWorkerStarted_def
  TypeWorkerStopped_def
  TypeBreakerOpened_def
  TypeBreakerClosed_def
  TypeHALeaderElected_def
  TypeHALeaderLost_def
  TypeRecoveryStarted_def
  TypeRecoveryCompleted_def
  TypeReplayDivergence_def

definition SchemaVersion :: int where "SchemaVersion = 1"

section \<open>Events and checkpoints\<close>

record event =
  ev_ID :: int
  ev_Sequence :: nat
  ev_UID :: string
  ev_Timestamp :: go_time
  ev_Category :: category
  ev_Type :: string
  ev_CorrelationID :: string
  ev_CausalID :: string
  ev_Actor :: string
  ev_ScopeID :: string
  ev_Payload :: json
  ev_Metadata :: metadata

record publish_request =
  pr_UID :: string
  pr_Timestamp :: go_time
  pr_Category :: category
  pr_Type :: string
  pr_CorrelationID :: string
  pr_CausalID :: string
  pr_Actor :: string
  pr_ScopeID :: string
  pr_Payload :: json
  pr_Metadata :: metadata

text \<open>A \<open>json.RawMessage\<close>: the compact text of a tree, another text of a tree, or a text that is
  not JSON.\<close>

datatype raw_json = Compact json | Spaced json string | Invalid string

fun raw_text :: "raw_json \<Rightarrow> string" where
  "raw_text (Compact j) = json_text j"
| "raw_text (Spaced j s) = s"
| "raw_text (Invalid s) = s"

fun raw_tree :: "raw_json \<Rightarrow> json option" where
  "raw_tree (Compact j) = Some j"
| "raw_tree (Spaced j s) = Some j"
| "raw_tree (Invalid s) = None"

record event_checkpoint =
  cp_Name :: string
  cp_ScopeID :: string
  cp_Sequence :: nat
  cp_EventID :: int
  cp_Checksum :: string
  cp_State :: raw_json
  cp_Metadata :: metadata
  cp_SchemaVersion :: int
  cp_CreatedAt :: go_time

definition ErrCheckpointNotFound :: error where
  "ErrCheckpointNotFound = Plain ''runtime checkpoint not found''"

section \<open>Constructors of requests\<close>

record event_context =
  ec_ScopeID :: string
  ec_CorrelationID :: string
  ec_CausalID :: string
  ec_Actor :: string
  ec_Metadata :: metadata

text \<open>\<open>cloneMap\<close> copies the entries; the copy of an empty map is the nil map, which the model writes
  the same way.\<close>

definition cloneMap :: "metadata \<Rightarrow> metadata" where
  "cloneMap m = m"

definition metadata_put :: "string \<Rightarrow> go_any \<Rightarrow> metadata \<Rightarrow> metadata" where
  "metadata_put k v m = filter (\<lambda>(k', _). k' \<noteq> k) m @ [(k, v)]"

text \<open>\<open>withLineage\<close>: the copy of an empty map is nil, and assigning to an entry of the nil map
  panics, which is \<open>None\<close>.\<close>

definition withLineage :: "metadata \<Rightarrow> string \<Rightarrow> string \<Rightarrow> metadata option" where
  "withLineage m mutationLineageID rollbackLineageID =
     (let out = cloneMap m in
      if (mutationLineageID \<noteq> [] \<or> rollbackLineageID \<noteq> []) \<and> out = [] then None
      else let out1 = (if mutationLineageID \<noteq> [] then metadata_put ''mutation_lineage_id'' (AString mutationLineageID) out else out);
               out2 = (if rollbackLineageID \<noteq> [] then metadata_put ''rollback_lineage_id'' (AString rollbackLineageID) out1 else out1)
           in Some out2)"

definition event_request :: "category \<Rightarrow> string \<Rightarrow> event_context \<Rightarrow> json \<Rightarrow> publish_request" where
  "event_request category eventType ctx payload =
     \<lparr>pr_UID = [], pr_Timestamp = 0, pr_Category = category, pr_Type = eventType,
      pr_CorrelationID = ec_CorrelationID ctx, pr_CausalID = ec_CausalID ctx, pr_Actor = ec_Actor ctx,
      pr_ScopeID = ec_ScopeID ctx, pr_Payload = payload, pr_Metadata = cloneMap (ec_Metadata ctx)\<rparr>"

definition recovery_payload :: "string \<Rightarrow> go_time \<Rightarrow> nat \<Rightarrow> string \<Rightarrow> json" where
  "recovery_payload mode targetTime targetSeq reason =
     JObj ([(''mode'', JStr mode), (''target_time'', JTime targetTime)] @
           omitempty (targetSeq = 0) ''target_sequence'' (JNum (int targetSeq)) @
           [(''reason'', JStr reason)])"

definition NewLifecycleTransition :: "event_context \<Rightarrow> runtime_status \<Rightarrow> runtime_status \<Rightarrow> string \<Rightarrow> publish_request" where
  "NewLifecycleTransition ctx from_st to_st reason =
     event_request CategoryLifecycle TypeLifecycleTransition ctx
       (JObj [(''from'', JStr from_st), (''to'', JStr to_st), (''reason'', JStr reason)])"

definition NewPolicyDecision :: "event_context \<Rightarrow> string \<Rightarrow> string \<Rightarrow> string \<Rightarrow> string \<Rightarrow> publish_request" where
  "NewPolicyDecision ctx policyID decision action reason =
     event_request CategoryPolicy TypePolicyDecision ctx
       (JObj [(''policy_id'', JStr policyID), (''decision'', JStr decision), (''action'', JStr action), (''reason'', JStr reason)])"

definition NewMutationPlanned :: "event_context \<Rightarrow> string \<Rightarrow> string \<Rightarrow> string \<Rightarrow> string \<Rightarrow> string \<Rightarrow> publish_request option" where
  "NewMutationPlanned ctx mutationID target action reason lineageID =
     (case withLineage (ec_Metadata ctx) lineageID [] of None \<Rightarrow> None
      | Some m \<Rightarrow> Some (event_request CategoryMutation TypeMutationPlanned (ctx\<lparr>ec_Metadata := m\<rparr>)
          (JObj [(''mutation_id'', JStr mutationID), (''target'', JStr target), (''action'', JStr action), (''reason'', JStr reason), (''lineage_id'', JStr lineageID)])))"

definition NewMutationApplied :: "event_context \<Rightarrow> string \<Rightarrow> string \<Rightarrow> string \<Rightarrow> string \<Rightarrow> string \<Rightarrow> publish_request option" where
  "NewMutationApplied ctx mutationID target action status lineageID =
     (case withLineage (ec_Metadata ctx) lineageID [] of None \<Rightarrow> None
      | Some m \<Rightarrow> Some (event_request CategoryMutation TypeMutationApplied (ctx\<lparr>ec_Metadata := m\<rparr>)
          (JObj [(''mutation_id'', JStr mutationID), (''target'', JStr target), (''action'', JStr action), (''status'', JStr status), (''lineage_id'', JStr lineageID)])))"

definition NewRollbackStarted :: "event_context \<Rightarrow> string \<Rightarrow> string \<Rightarrow> string \<Rightarrow> publish_request option" where
  "NewRollbackStarted ctx rollbackID reason lineageID =
     (case withLineage (ec_Metadata ctx) [] lineageID of None \<Rightarrow> None
      | Some m \<Rightarrow> Some (event_request CategoryRollback TypeRollbackStarted (ctx\<lparr>ec_Metadata := m\<rparr>)
          (JObj [(''rollback_id'', JStr rollbackID), (''reason'', JStr reason), (''lineage_id'', JStr lineageID)])))"

definition NewRollbackCompleted :: "event_context \<Rightarrow> string \<Rightarrow> string \<Rightarrow> string \<Rightarrow> publish_request option" where
  "NewRollbackCompleted ctx rollbackID reason lineageID =
     (case withLineage (ec_Metadata ctx) [] lineageID of None \<Rightarrow> None
      | Some m \<Rightarrow> Some (event_request CategoryRollback TypeRollbackCompleted (ctx\<lparr>ec_Metadata := m\<rparr>)
          (JObj [(''rollback_id'', JStr rollbackID), (''reason'', JStr reason), (''lineage_id'', JStr lineageID)])))"

definition NewRollbackFailed :: "event_context \<Rightarrow> string \<Rightarrow> string \<Rightarrow> string \<Rightarrow> publish_request option" where
  "NewRollbackFailed ctx rollbackID reason lineageID =
     (case withLineage (ec_Metadata ctx) [] lineageID of None \<Rightarrow> None
      | Some m \<Rightarrow> Some (event_request CategoryRollback TypeRollbackFailed (ctx\<lparr>ec_Metadata := m\<rparr>)
          (JObj [(''rollback_id'', JStr rollbackID), (''reason'', JStr reason), (''lineage_id'', JStr lineageID)])))"

definition NewDriftDetected :: "event_context \<Rightarrow> string \<Rightarrow> string \<Rightarrow> string \<Rightarrow> publish_request" where
  "NewDriftDetected ctx target severity diff =
     event_request CategoryDrift TypeDriftDetected ctx
       (JObj [(''target'', JStr target), (''severity'', JStr severity), (''diff'', JStr diff)])"

definition NewLeaseAcquired :: "event_context \<Rightarrow> string \<Rightarrow> string \<Rightarrow> string \<Rightarrow> string \<Rightarrow> int \<Rightarrow> go_time \<Rightarrow> publish_request" where
  "NewLeaseAcquired ctx leaseID action epochID owner fencingToken expiresAt =
     event_request CategoryLease TypeLeaseAcquired ctx
       (JObj [(''lease_id'', JStr leaseID), (''action'', JStr action), (''epoch_id'', JStr epochID), (''owner'', JStr owner), (''fencing_token'', JNum fencingToken), (''expires_at'', JTime expiresAt)])"

definition NewFencingTokenIssued :: "event_context \<Rightarrow> string \<Rightarrow> int \<Rightarrow> string \<Rightarrow> publish_request" where
  "NewFencingTokenIssued ctx epochID fencingToken reason =
     event_request CategoryFencing TypeFencingTokenIssued ctx
       (JObj [(''epoch_id'', JStr epochID), (''fencing_token'', JNum fencingToken), (''reason'', JStr reason)])"

definition NewSchedulerTick :: "event_context \<Rightarrow> string \<Rightarrow> int \<Rightarrow> publish_request" where
  "NewSchedulerTick ctx workType priority =
     event_request CategoryScheduler TypeSchedulerTick ctx
       (JObj [(''scope_id'', JStr (ec_ScopeID ctx)), (''work_type'', JStr workType), (''priority'', JNum priority)])"

definition NewWorkerStarted :: "event_context \<Rightarrow> string \<Rightarrow> publish_request" where
  "NewWorkerStarted ctx workerID =
     event_request CategoryScheduler TypeWorkerStarted ctx
       (JObj [(''worker_id'', JStr workerID), (''scope_id'', JStr (ec_ScopeID ctx)), (''status'', JStr ''started'')])"

definition NewWorkerStopped :: "event_context \<Rightarrow> string \<Rightarrow> publish_request" where
  "NewWorkerStopped ctx workerID =
     event_request CategoryScheduler TypeWorkerStopped ctx
       (JObj [(''worker_id'', JStr workerID), (''scope_id'', JStr (ec_ScopeID ctx)), (''status'', JStr ''stopped'')])"

definition NewBreakerOpened :: "event_context \<Rightarrow> string \<Rightarrow> publish_request" where
  "NewBreakerOpened ctx reason =
     event_request CategorySecurity TypeBreakerOpened ctx
       (JObj [(''state'', JStr ''open''), (''reason'', JStr reason)])"

definition NewBreakerClosed :: "event_context \<Rightarrow> string \<Rightarrow> publish_request" where
  "NewBreakerClosed ctx reason =
     event_request CategorySecurity TypeBreakerClosed ctx
       (JObj [(''state'', JStr ''closed''), (''reason'', JStr reason)])"

definition NewLeaderElected :: "event_context \<Rightarrow> string \<Rightarrow> string \<Rightarrow> publish_request" where
  "NewLeaderElected ctx nodeID reason =
     event_request CategoryHA TypeHALeaderElected ctx
       (JObj [(''node_id'', JStr nodeID), (''reason'', JStr reason)])"

definition NewLeaderLost :: "event_context \<Rightarrow> string \<Rightarrow> string \<Rightarrow> publish_request" where
  "NewLeaderLost ctx nodeID reason =
     event_request CategoryHA TypeHALeaderLost ctx
       (JObj [(''node_id'', JStr nodeID), (''reason'', JStr reason)])"

definition NewRecoveryStarted :: "event_context \<Rightarrow> string \<Rightarrow> go_time \<Rightarrow> nat \<Rightarrow> string \<Rightarrow> publish_request" where
  "NewRecoveryStarted ctx mode targetTime targetSeq reason =
     event_request CategoryLifecycle TypeRecoveryStarted ctx
       (recovery_payload mode targetTime targetSeq reason)"

definition NewRecoveryCompleted :: "event_context \<Rightarrow> string \<Rightarrow> go_time \<Rightarrow> nat \<Rightarrow> string \<Rightarrow> publish_request" where
  "NewRecoveryCompleted ctx mode targetTime targetSeq reason =
     event_request CategoryLifecycle TypeRecoveryCompleted ctx
       (recovery_payload mode targetTime targetSeq reason)"

definition NewReplayDivergenceDetected :: "event_context \<Rightarrow> string \<Rightarrow> string \<Rightarrow> nat \<Rightarrow> string \<Rightarrow> publish_request" where
  "NewReplayDivergenceDetected ctx expectedChecksum actualChecksum sequence reason =
     event_request CategorySecurity TypeReplayDivergence ctx
       (JObj [(''expected_checksum'', JStr expectedChecksum), (''actual_checksum'', JStr actualChecksum), (''sequence'', JNum (int sequence)), (''reason'', JStr reason)])"


end
