(* ===== verification/Sqlite_Db.thy ===== *)
theory Sqlite_Db
  imports Runtime_Events
begin

text \<open>
  The SQLite database of package \<open>internal/storage/sqlite\<close>: a table is the list of its rows in the
  order of insertion, with the keys and unique indexes of the migrations in \<open>db.go\<close> enforced by the
  operations that insert. A statement that the driver refuses takes its error from the fault script
  of \<open>Go_World\<close>; the result codes are those of SQLite. Instants in timestamp columns compare as
  instants.
\<close>

text \<open>A row of \<open>events\<close>: the event, with its metadata as the text stored beside it.\<close>

record event_row =
  er_Event :: event
  er_Metadata :: json

record checkpoint_row =
  cr_Checkpoint :: event_checkpoint
  cr_Metadata :: json

record lease_row =
  lr_ScopeID :: string
  lr_Lease :: lease

record db_env = dir_env +
  db_ReadOnly :: bool
  db_Events :: "event_row list"
  db_NextEventID :: int
  db_Sequences :: "(string \<times> nat) list"
  db_Checkpoints :: "checkpoint_row list"
  db_Leases :: "lease_row list"

section \<open>Errors of the driver\<close>

definition SQLITE_BUSY :: int where "SQLITE_BUSY = 5"
definition SQLITE_LOCKED :: int where "SQLITE_LOCKED = 6"
definition SQLITE_IOERR :: int where "SQLITE_IOERR = 10"
definition SQLITE_CORRUPT :: int where "SQLITE_CORRUPT = 11"
definition SQLITE_CONSTRAINT :: int where "SQLITE_CONSTRAINT = 19"

definition isSQLiteBusy :: "error \<Rightarrow> bool" where
  "isSQLiteBusy e \<longleftrightarrow> error_code e = Some SQLITE_BUSY \<or> error_code e = Some SQLITE_LOCKED"

definition isSQLiteConstraint :: "error \<Rightarrow> bool" where
  "isSQLiteConstraint e \<longleftrightarrow> error_code e = Some SQLITE_CONSTRAINT"

definition isSQLiteIOErr :: "error \<Rightarrow> bool" where
  "isSQLiteIOErr e \<longleftrightarrow> error_code e = Some SQLITE_IOERR"

definition isSQLiteCorrupt :: "error \<Rightarrow> bool" where
  "isSQLiteCorrupt e \<longleftrightarrow> error_code e = Some SQLITE_CORRUPT"

definition unique_violation :: error where
  "unique_violation = Coded SQLITE_CONSTRAINT ''UNIQUE constraint failed''"

section \<open>Degraded mode\<close>

definition SetReadOnlyDegradedMode :: "bool \<Rightarrow> 'z db_env_scheme \<Rightarrow> 'z db_env_scheme" where
  "SetReadOnlyDegradedMode enabled w = w\<lparr>db_ReadOnly := enabled\<rparr>"

definition ensureWritable :: "string \<Rightarrow> 'z db_env_scheme \<Rightarrow> error option" where
  "ensureWritable op w =
     (if db_ReadOnly w then Some (New op ''sqlite database is in read-only degraded mode'') else None)"

text \<open>The guard with which every writing operation starts.\<close>

definition writable :: "string \<Rightarrow> 'z db_env_scheme \<Rightarrow> ('z db_env_scheme \<Rightarrow> 'a result \<times> 'z db_env_scheme) \<Rightarrow> 'a result \<times> 'z db_env_scheme" where
  "writable op w k = (case ensureWritable op w of Some e \<Rightarrow> (Inl e, w) | None \<Rightarrow> k w)"

lemma writable_simps:
  "db_ReadOnly w \<Longrightarrow> writable op w k = (Inl (New op ''sqlite database is in read-only degraded mode''), w)"
  "\<not> db_ReadOnly w \<Longrightarrow> writable op w k = k w"
  by (simp_all add: writable_def ensureWritable_def)

end
