(* ===== verification/Replay.thy ===== *)
theory Replay
  imports Runtime_Events
begin

text \<open>
  \<open>internal/runtime/events/replay.go\<close>: rebuilding a state from a checkpoint and the events after it.
  The event store, the checkpoint store and the replayer are interfaces in the source; here they are
  arguments of the definitions, and \<open>event_log\<close> is the contract of the store that the theorems need.
  A replayer that cannot restore checkpoints has \<open>None\<close> for its restore function. The loop over pages
  takes fuel: \<open>None\<close> is a run that has not ended within it.
\<close>

definition ErrInvalidCheckpoint :: error where
  "ErrInvalidCheckpoint = Plain ''runtime checkpoint invalid''"

record replay_options =
  ro_CheckpointName :: string
  ro_AllowGenesis :: bool
  ro_UntilSequence :: nat
  ro_UntilTime :: go_time

record replay_result =
  rr_EventsApplied :: nat
  rr_StartedAfterSequence :: nat
  rr_FinalSequence :: nat
  rr_UsedCheckpoint :: bool

definition zero_result :: replay_result where
  "zero_result = \<lparr>rr_EventsApplied = 0, rr_StartedAfterSequence = 0, rr_FinalSequence = 0, rr_UsedCheckpoint = False\<rparr>"

section \<open>Checkpoints\<close>

text \<open>The digest that a checkpoint carries. A state that is not JSON cannot be encoded; the source
  ignores the error and hashes the empty text.\<close>

definition checksum_text :: "event_checkpoint \<Rightarrow> string \<Rightarrow> string" where
  "checksum_text cp created =
     (case raw_tree (cp_State cp) of None \<Rightarrow> []
      | Some j \<Rightarrow> json_text (JObj (
          [(''name'', JStr (cp_Name cp)), (''scope_id'', JStr (cp_ScopeID cp)),
           (''sequence'', JNum (int (cp_Sequence cp))), (''event_id'', JNum (cp_EventID cp)), (''state'', j)] @
          omitempty (cp_Metadata cp = []) ''metadata'' (json_of_metadata (cp_Metadata cp)) @
          [(''schema_version'', JNum (cp_SchemaVersion cp)), (''created_at'', JStr created)])))"

definition checkpointReplayChecksum :: "event_checkpoint \<Rightarrow> string" where
  "checkpointReplayChecksum cp = sha256_hex (checksum_text cp (RFC3339Nano (cp_CreatedAt cp)))"

definition replay_op :: string where
  "replay_op = ''events.Replay''"

definition validateReplayCheckpoint :: "string \<Rightarrow> string \<Rightarrow> event_checkpoint \<Rightarrow> error option" where
  "validateReplayCheckpoint expectedScopeID expectedName cp =
     (if cp_ScopeID cp \<noteq> expectedScopeID then
        Some (New replay_op (''checkpoint scope mismatch: expected '' @ expectedScopeID @ '' got '' @ cp_ScopeID cp))
      else if cp_Name cp \<noteq> expectedName then
        Some (New replay_op (''checkpoint name mismatch: expected '' @ expectedName @ '' got '' @ cp_Name cp))
      else if cp_Sequence cp = 0 then Some (New replay_op ''checkpoint sequence must be positive'')
      else if cp_EventID cp \<le> 0 then Some (New replay_op ''checkpoint event_id must be positive'')
      else if time_is_zero (cp_CreatedAt cp) then Some (New replay_op ''checkpoint created_at must be set'')
      else case cp_State cp of
          Invalid s \<Rightarrow> Some (New replay_op ''checkpoint state must be valid json'')
        | Spaced j s \<Rightarrow> Some (New replay_op ''checkpoint state must be canonical json'')
        | Compact j \<Rightarrow>
            if cp_Checksum cp \<noteq> checkpointReplayChecksum cp then
              Some (New replay_op (''checkpoint checksum mismatch for '' @ cp_ScopeID cp @ ''/'' @ cp_Name cp @
                '' at sequence '' @ show_nat (cp_Sequence cp)))
            else None)"

text \<open>The first valid checkpoint of a list.\<close>

fun first_valid :: "string \<Rightarrow> string \<Rightarrow> event_checkpoint list \<Rightarrow> event_checkpoint option" where
  "first_valid scopeID name [] = None"
| "first_valid scopeID name (cp # cps) =
     (case validateReplayCheckpoint scopeID name cp of None \<Rightarrow> Some cp | Some _ \<Rightarrow> first_valid scopeID name cps)"

definition loadValidCheckpoint ::
  "(string \<Rightarrow> string \<Rightarrow> 'w \<Rightarrow> event_checkpoint result \<times> 'w) \<Rightarrow>
   (string \<Rightarrow> string \<Rightarrow> int \<Rightarrow> 'w \<Rightarrow> event_checkpoint list result \<times> 'w) \<Rightarrow>
   string \<Rightarrow> string \<Rightarrow> 'w \<Rightarrow> event_checkpoint result \<times> 'w" where
  "loadValidCheckpoint latest list_cps scopeID name w =
     (let (r, w1) = latest scopeID name w;
          valid = (case r of Inr cp \<Rightarrow> validateReplayCheckpoint scopeID name cp = None | Inl _ \<Rightarrow> False)
      in case r of
        Inr cp \<Rightarrow> if valid then (Inr cp, w1)
          else (case list_cps scopeID name 0 w1 of
              (Inl e, w2) \<Rightarrow> (Inl e, w2)
            | (Inr cps, w2) \<Rightarrow> (case first_valid scopeID name cps of Some c \<Rightarrow> (Inr c, w2)
                | None \<Rightarrow> (Inl (wrap_err replay_op ErrInvalidCheckpoint), w2)))
      | Inl _ \<Rightarrow> (case list_cps scopeID name 0 w1 of
              (Inl e, w2) \<Rightarrow> (Inl e, w2)
            | (Inr cps, w2) \<Rightarrow> (case first_valid scopeID name cps of Some c \<Rightarrow> (Inr c, w2)
                | None \<Rightarrow> (if cps \<noteq> [] then (Inl (wrap_err replay_op ErrInvalidCheckpoint), w2)
                          else (Inl ErrCheckpointNotFound, w2)))))"

section \<open>Replaying a page\<close>

text \<open>The state of the loops: the last number seen, the result so far and the replayer's state.\<close>

type_synonym 's replay_state = "nat \<times> replay_result \<times> 's"

datatype 's page_outcome =
    Page_Done "'s replay_state"
  | Page_Stop replay_result 's
  | Page_Err error replay_result 's

fun replay_page :: "(event \<Rightarrow> 's \<Rightarrow> 's result) \<Rightarrow> replay_options \<Rightarrow> event list \<Rightarrow> 's replay_state \<Rightarrow> 's page_outcome" where
  "replay_page applyEv opts [] (sq, res, s) = Page_Done (sq, res, s)"
| "replay_page applyEv opts (ev # evs) (sq, res, s) =
     (if ro_UntilSequence opts > 0 \<and> ev_Sequence ev > ro_UntilSequence opts then
        Page_Stop (res\<lparr>rr_FinalSequence := sq\<rparr>) s
      else if \<not> time_is_zero (ro_UntilTime opts) \<and> time_after (ev_Timestamp ev) (ro_UntilTime opts) then
        Page_Stop (res\<lparr>rr_FinalSequence := sq\<rparr>) s
      else if sq > 0 \<and> ev_Sequence ev \<noteq> sq + 1 then
        (if ev_Sequence ev \<le> sq then
           Page_Err (New replay_op (''duplicate or backward sequence detected: current='' @ show_nat sq @
             '' next='' @ show_nat (ev_Sequence ev))) res s
         else Page_Err (New replay_op (''sequence gap detected: current='' @ show_nat sq @
             '' next='' @ show_nat (ev_Sequence ev))) res s)
      else case applyEv ev s of
          Inl e \<Rightarrow> Page_Err e res s
        | Inr s' \<Rightarrow> replay_page applyEv opts evs (ev_Sequence ev, res\<lparr>rr_EventsApplied := rr_EventsApplied res + 1\<rparr>, s'))"

section \<open>The loop over pages\<close>

text \<open>The value returned: the result, the error if any, and the state the replayer is left in.\<close>

type_synonym 's replay_return = "replay_result \<times> error option \<times> 's"

fun replay_pages ::
  "nat \<Rightarrow> (string \<Rightarrow> nat \<Rightarrow> 'w \<Rightarrow> event list result \<times> 'w) \<Rightarrow> (event \<Rightarrow> 's \<Rightarrow> 's result) \<Rightarrow>
   replay_options \<Rightarrow> string \<Rightarrow> 's replay_state \<Rightarrow> 'w \<Rightarrow> ('s replay_return \<times> 'w) option" where
  "replay_pages 0 list_evs applyEv opts scopeID st w = None"
| "replay_pages (Suc n) list_evs applyEv opts scopeID (sq, res, s) w =
     (case list_evs scopeID sq w of
        (Inl e, w1) \<Rightarrow> Some ((res, Some e, s), w1)
      | (Inr [], w1) \<Rightarrow> Some ((res\<lparr>rr_FinalSequence := sq\<rparr>, None, s), w1)
      | (Inr evs, w1) \<Rightarrow>
          (case replay_page applyEv opts evs (sq, res, s) of
             Page_Done st \<Rightarrow> replay_pages n list_evs applyEv opts scopeID st w1
           | Page_Stop res' s' \<Rightarrow> Some ((res', None, s'), w1)
           | Page_Err e res' s' \<Rightarrow> Some ((res', Some e, s'), w1)))"

definition ReplayWithOptions ::
  "nat \<Rightarrow> (string \<Rightarrow> nat \<Rightarrow> 'w \<Rightarrow> event list result \<times> 'w) \<Rightarrow>
   (string \<Rightarrow> string \<Rightarrow> 'w \<Rightarrow> event_checkpoint result \<times> 'w) \<Rightarrow>
   (string \<Rightarrow> string \<Rightarrow> int \<Rightarrow> 'w \<Rightarrow> event_checkpoint list result \<times> 'w) \<Rightarrow>
   (event \<Rightarrow> 's \<Rightarrow> 's result) \<Rightarrow> (event_checkpoint \<Rightarrow> 's \<Rightarrow> 's result) option \<Rightarrow>
   string \<Rightarrow> replay_options \<Rightarrow> 's \<Rightarrow> 'w \<Rightarrow> ('s replay_return \<times> 'w) option" where
  "ReplayWithOptions fuel list_evs latest list_cps applyEv restore scopeID opts s w =
     (if ro_CheckpointName opts \<noteq> [] then
        (case loadValidCheckpoint latest list_cps scopeID (ro_CheckpointName opts) w of
           (Inr cp, w1) \<Rightarrow>
             (case restore of
                None \<Rightarrow> Some ((zero_result, Some (New replay_op ''checkpoint replay requested but replayer cannot restore checkpoints''), s), w1)
              | Some f \<Rightarrow> (case f cp s of
                    Inl e \<Rightarrow> Some ((zero_result, Some e, s), w1)
                  | Inr s1 \<Rightarrow> replay_pages fuel list_evs applyEv opts scopeID
                      (cp_Sequence cp, zero_result\<lparr>rr_StartedAfterSequence := cp_Sequence cp, rr_UsedCheckpoint := True\<rparr>, s1) w1))
         | (Inl e, w1) \<Rightarrow>
             (if (Is e ErrCheckpointNotFound \<or> Is e ErrInvalidCheckpoint) \<and> ro_AllowGenesis opts
              then replay_pages fuel list_evs applyEv opts scopeID (0, zero_result, s) w1
              else Some ((zero_result, Some e, s), w1)))
      else replay_pages fuel list_evs applyEv opts scopeID (0, zero_result, s) w)"

definition no_options :: replay_options where
  "no_options = \<lparr>ro_CheckpointName = [], ro_AllowGenesis = False, ro_UntilSequence = 0, ro_UntilTime = 0\<rparr>"

definition Replay ::
  "nat \<Rightarrow> (string \<Rightarrow> nat \<Rightarrow> 'w \<Rightarrow> event list result \<times> 'w) \<Rightarrow>
   (string \<Rightarrow> string \<Rightarrow> 'w \<Rightarrow> event_checkpoint result \<times> 'w) \<Rightarrow>
   (string \<Rightarrow> string \<Rightarrow> int \<Rightarrow> 'w \<Rightarrow> event_checkpoint list result \<times> 'w) \<Rightarrow>
   (event \<Rightarrow> 's \<Rightarrow> 's result) \<Rightarrow> (event_checkpoint \<Rightarrow> 's \<Rightarrow> 's result) option \<Rightarrow>
   string \<Rightarrow> 's \<Rightarrow> 'w \<Rightarrow> (error option \<times> 's \<times> 'w) option" where
  "Replay fuel list_evs latest list_cps applyEv restore scopeID s w =
     (case ReplayWithOptions fuel list_evs latest list_cps applyEv restore scopeID no_options s w of
        None \<Rightarrow> None | Some ((res, err, s'), w') \<Rightarrow> Some (err, s', w'))"

section \<open>Folding events\<close>

text \<open>What a replay should compute: the events applied one after the other, up to the first error.\<close>

fun fold_events :: "(event \<Rightarrow> 's \<Rightarrow> 's result) \<Rightarrow> event list \<Rightarrow> 's \<Rightarrow> 's result" where
  "fold_events applyEv [] s = Inr s"
| "fold_events applyEv (ev # evs) s = bind_result (applyEv ev s) (fold_events applyEv evs)"

lemma fold_events_append:
  "fold_events applyEv (xs @ ys) s = bind_result (fold_events applyEv xs s) (fold_events applyEv ys)"
  by (induction xs arbitrary: s) (auto simp: bind_result_def split: sum.splits)

definition stops_before :: "replay_options \<Rightarrow> event \<Rightarrow> bool" where
  "stops_before opts ev \<longleftrightarrow>
     ro_UntilSequence opts > 0 \<and> ev_Sequence ev > ro_UntilSequence opts \<or>
     \<not> time_is_zero (ro_UntilTime opts) \<and> time_after (ev_Timestamp ev) (ro_UntilTime opts)"

text \<open>A page whose numbers follow on from each other is folded up to the first event that lies
  beyond the limits.\<close>

lemma replay_page_contiguous:
  assumes "map ev_Sequence evs = [lo ..< lo + length evs]" and "sq = 0 \<or> lo = sq + 1"
    and "fold_events applyEv (takeWhile (\<lambda>ev. \<not> stops_before opts ev) evs) s = Inr s'"
  shows "replay_page applyEv opts evs (sq, res, s) =
    (let done = takeWhile (\<lambda>ev. \<not> stops_before opts ev) evs;
         sq' = (if done = [] then sq else ev_Sequence (last done));
         res' = res\<lparr>rr_EventsApplied := rr_EventsApplied res + length done\<rparr>
     in if done = evs then Page_Done (sq', res', s') else Page_Stop (res'\<lparr>rr_FinalSequence := sq'\<rparr>) s')"
  using assms
proof (induction evs arbitrary: lo sq res s)
  case Nil
  then show ?case by (simp add: Let_def)
next
  case (Cons ev evs)
  have seqs: "ev_Sequence ev = lo" "map ev_Sequence evs = [Suc lo ..< Suc lo + length evs]"
    using Cons.prems(1) by (simp_all add: upt_rec)
  show ?case
  proof (cases "stops_before opts ev")
    case True
    then show ?thesis using Cons.prems(3) by (auto simp: stops_before_def Let_def)
  next
    case False
    then obtain s1 where ap: "applyEv ev s = Inr s1"
        and rest: "fold_events applyEv (takeWhile (\<lambda>ev. \<not> stops_before opts ev) evs) s1 = Inr s'"
      using Cons.prems(3) by (auto simp: bind_result_Inr_iff)
    have "\<not> (sq > 0 \<and> ev_Sequence ev \<noteq> sq + 1)" using Cons.prems(2) seqs by auto
    then have "replay_page applyEv opts (ev # evs) (sq, res, s) =
        replay_page applyEv opts evs (lo, res\<lparr>rr_EventsApplied := rr_EventsApplied res + 1\<rparr>, s1)"
      using False ap seqs by (auto simp: stops_before_def)
    also have "\<dots> = (let done = takeWhile (\<lambda>ev. \<not> stops_before opts ev) evs;
         sq' = (if done = [] then lo else ev_Sequence (last done));
         res' = res\<lparr>rr_EventsApplied := rr_EventsApplied res + 1 + length done\<rparr>
     in if done = evs then Page_Done (sq', res', s') else Page_Stop (res'\<lparr>rr_FinalSequence := sq'\<rparr>) s')"
      using Cons.IH [OF seqs(2) _ rest, of lo "res\<lparr>rr_EventsApplied := rr_EventsApplied res + 1\<rparr>"] by simp
    finally show ?thesis using False seqs by (simp add: Let_def)
  qed
qed

lemma interval_nth:
  assumes "map ev_Sequence evs = [lo ..< lo + length evs]" and "i < length evs"
  shows "ev_Sequence (evs ! i) = lo + i"
  using arg_cong [OF assms(1), of "\<lambda>l. l ! i"] assms(2) by simp

lemma interval_last:
  assumes "map ev_Sequence evs = [lo ..< lo + length evs]" and "ev \<in> set evs"
  shows "ev_Sequence ev \<le> ev_Sequence (last evs)"
proof -
  obtain i where i: "i < length evs" "ev = evs ! i" using assms(2) by (auto simp: in_set_conv_nth)
  then have "last evs = evs ! (length evs - 1)" by (intro last_conv_nth) auto
  then show ?thesis using i interval_nth [OF assms(1)] by simp
qed

section \<open>The contract of an event store\<close>

locale event_log =
  fixes list_evs :: "string \<Rightarrow> nat \<Rightarrow> 'w \<Rightarrow> event list result \<times> 'w"
    and log :: "'w \<Rightarrow> string \<Rightarrow> event list"
    and inv :: "'w \<Rightarrow> bool"
    and quiet :: "'w \<Rightarrow> bool"
  assumes list_keeps: "inv w \<Longrightarrow> list_evs s a w = (r, w') \<Longrightarrow> inv w' \<and> log w' = log w \<and> (quiet w \<longrightarrow> quiet w')"
    and list_quiet: "inv w \<Longrightarrow> quiet w \<Longrightarrow> fst (list_evs s a w) = Inr (filter (\<lambda>ev. a < ev_Sequence ev) (log w s))"
    and log_interval: "inv w \<Longrightarrow> \<exists>lo. 1 \<le> lo \<and> map ev_Sequence (log w s) = [lo ..< lo + length (log w s)]"
begin

lemma listed_interval:
  assumes "inv w"
  shows "\<exists>lo. map ev_Sequence (filter (\<lambda>ev. a < ev_Sequence ev) (log w s)) =
      [lo ..< lo + length (filter (\<lambda>ev. a < ev_Sequence ev) (log w s))] \<and> a < lo"
proof -
  obtain l where l: "map ev_Sequence (log w s) = [l ..< l + length (log w s)]"
    using log_interval [OF assms] by blast
  have "map ev_Sequence (filter (\<lambda>ev. a < ev_Sequence ev) (log w s)) =
      filter (\<lambda>n. a < n) [l ..< l + length (log w s)]"
    by (simp add: l [symmetric] filter_map o_def)
  also have "\<dots> = [max l (Suc a) ..< l + length (log w s)]"
    by (rule sorted_distinct_set_unique) (auto simp: sorted_wrt_filter)
  finally have eq: "map ev_Sequence (filter (\<lambda>ev. a < ev_Sequence ev) (log w s)) =
      [max l (Suc a) ..< l + length (log w s)]" .
  have "length (filter (\<lambda>ev. a < ev_Sequence ev) (log w s)) = l + length (log w s) - max l (Suc a)"
    using arg_cong [OF eq, of length] by simp
  then show ?thesis using eq
    by (intro exI [of _ "max l (Suc a)"]) (cases "max l (Suc a) \<le> l + length (log w s)"; simp)
qed

text \<open>The events that a replay from number \<open>a\<close> applies.\<close>

definition due :: "replay_options \<Rightarrow> 'w \<Rightarrow> string \<Rightarrow> nat \<Rightarrow> event list" where
  "due opts w s a = takeWhile (\<lambda>ev. \<not> stops_before opts ev) (filter (\<lambda>ev. a < ev_Sequence ev) (log w s))"

text \<open>Two pages are enough: the first holds every event, and the second is empty. The replay ends
  without an error, and the replayer is left with the fold of the events.\<close>

lemma replay_pages_total:
  assumes inv: "inv w" and quiet: "quiet w"
    and start: "sq = 0 \<or> filter (\<lambda>ev. sq < ev_Sequence ev) (log w scope) = [] \<or>
      ev_Sequence (hd (filter (\<lambda>ev. sq < ev_Sequence ev) (log w scope))) = sq + 1"
    and fold: "fold_events applyEv (due opts w scope sq) s = Inr s'"
  shows "\<exists>w'. log w' = log w \<and> inv w' \<and>
    replay_pages (Suc (Suc n)) list_evs applyEv opts scope (sq, res, s) w =
      Some ((res\<lparr>rr_EventsApplied := rr_EventsApplied res + length (due opts w scope sq),
               rr_FinalSequence := (if due opts w scope sq = [] then sq else ev_Sequence (last (due opts w scope sq)))\<rparr>,
             None, s'), w')"
proof -
  let ?evs = "filter (\<lambda>ev. sq < ev_Sequence ev) (log w scope)"
  obtain w1 where l1: "list_evs scope sq w = (Inr ?evs, w1)"
    using list_quiet [OF inv quiet, of scope sq] by (metis prod.collapse)
  note k1 = list_keeps [OF inv l1]
  show ?thesis
  proof (cases "?evs = []")
    case True
    then show ?thesis using l1 k1 fold by (auto simp: due_def)
  next
    case False
    then obtain e es where cons: "?evs = e # es" by (cases ?evs) auto
    obtain lo where lo: "map ev_Sequence ?evs = [lo ..< lo + length ?evs]" "sq < lo"
      using listed_interval [OF inv] by blast
    have "ev_Sequence e = lo" using lo(1) cons by (simp add: upt_rec)
    then have st: "sq = 0 \<or> lo = sq + 1" using start cons by simp
    note page = replay_page_contiguous [OF lo(1) st fold [unfolded due_def], of res]
    show ?thesis
    proof (cases "due opts w scope sq = ?evs")
      case True
      define sq' where "sq' = ev_Sequence (last ?evs)"
      have "\<forall>ev \<in> set ?evs. ev_Sequence ev \<le> sq'"
        using interval_last [OF lo(1)] by (simp add: sq'_def)
      moreover have "sq < sq'" using False by (auto simp: sq'_def dest!: last_in_set)
      ultimately have none: "filter (\<lambda>ev. sq' < ev_Sequence ev) (log w1 scope) = []"
        using k1 by (auto simp: filter_empty_conv not_less)
      obtain w2 where l2: "list_evs scope sq' w1 = (Inr [], w2)"
        using list_quiet [of w1 scope sq'] k1 quiet none by (metis prod.collapse)
      note k2 = list_keeps [OF _ l2]
      show ?thesis
        using l1 l2 page k1 k2 True False cons unfolding due_def
        by (auto simp: Let_def sq'_def)
    next
      case False
      then show ?thesis using l1 k1 page cons unfolding due_def by (auto simp: Let_def)
    qed
  qed
qed

end

end
