(* ===== verification/Event_Repository.thy ===== *)
theory Event_Repository
  imports Sqlite_Db Replay
begin

text \<open>
  \<open>internal/storage/sqlite/events.go\<close>: the append-only log of events with a sequence per scope, and
  the checkpoints of the runtime state. The transaction of \<open>Append\<close> is written out: its statements
  act on a copy of the tables that replaces them when the commit takes effect.
\<close>

section \<open>The identity of an event\<close>

text \<open>\<open>eventUID\<close>: the digest of what the event says. The instant is not part of it.\<close>

definition event_identity :: "event \<Rightarrow> json" where
  "event_identity ev = JObj (
     [(''category'', JStr (ev_Category ev)), (''type'', JStr (ev_Type ev)),
      (''correlation_id'', JStr (ev_CorrelationID ev)), (''causal_id'', JStr (ev_CausalID ev)),
      (''actor'', JStr (ev_Actor ev)), (''scope_id'', JStr (ev_ScopeID ev)),
      (''payload'', ev_Payload ev)] @
     omitempty (ev_Metadata ev = []) ''metadata'' (json_of_metadata (ev_Metadata ev)))"

definition eventUID :: "event \<Rightarrow> string" where
  "eventUID ev = sha256_hex (json_text (event_identity ev))"

section \<open>Appending\<close>

definition find_event :: "string \<Rightarrow> string \<Rightarrow> event_row list \<Rightarrow> event_row option" where
  "find_event scopeID uid rows =
     find (\<lambda>r. ev_ScopeID (er_Event r) = scopeID \<and> ev_UID (er_Event r) = uid) rows"

text \<open>\<open>loadExistingEvent\<close>: on a hit the event takes the identifiers of the stored one.\<close>

definition loadExistingEvent :: "event \<Rightarrow> 'z db_env_scheme \<Rightarrow> event option result \<times> 'z db_env_scheme" where
  "loadExistingEvent ev w =
     (if ev_UID ev = [] \<or> ev_ScopeID ev = [] then (Inr None, w)
      else and_try (io_call w) (\<lambda>_ w1.
        case find_event (ev_ScopeID ev) (ev_UID ev) (db_Events w1) of
          None \<Rightarrow> (Inr None, w1)
        | Some r \<Rightarrow> (Inr (Some (ev\<lparr>ev_ID := ev_ID (er_Event r), ev_Sequence := ev_Sequence (er_Event r)\<rparr>)), w1)))"

text \<open>The row of the counter table and the statement that advances it.\<close>

definition next_sequence :: "string \<Rightarrow> (string \<times> nat) list \<Rightarrow> nat" where
  "next_sequence scopeID sq = (case map_of sq scopeID of None \<Rightarrow> 1 | Some n \<Rightarrow> n)"

definition advance_sequence :: "string \<Rightarrow> (string \<times> nat) list \<Rightarrow> (string \<times> nat) list" where
  "advance_sequence scopeID sq =
     (scopeID, Suc (next_sequence scopeID sq)) # filter (\<lambda>(k, _). k \<noteq> scopeID) sq"

definition violates_unique :: "event \<Rightarrow> event_row list \<Rightarrow> bool" where
  "violates_unique ev rows \<longleftrightarrow>
     (\<exists>r \<in> set rows. ev_ScopeID (er_Event r) = ev_ScopeID ev \<and>
        (ev_Sequence (er_Event r) = ev_Sequence ev \<or> (ev_UID ev \<noteq> [] \<and> ev_UID (er_Event r) = ev_UID ev)))"

definition ErrCommitAmbiguous :: error where
  "ErrCommitAmbiguous = Plain ''sqlite event append commit ambiguous''"

definition append_op :: string where
  "append_op = ''storage.sqlite.EventRepository.Append''"

text \<open>The tables after a transaction that took effect.\<close>

definition committed_append :: "event \<Rightarrow> (string \<times> nat) list \<Rightarrow> json \<Rightarrow> 'z db_env_scheme \<Rightarrow> 'z db_env_scheme" where
  "committed_append ev sq metadata w = w\<lparr>db_Sequences := sq, db_NextEventID := db_NextEventID w + 1,
     db_Events := db_Events w @ [\<lparr>er_Event = ev\<lparr>ev_ID := db_NextEventID w, ev_Metadata := []\<rparr>, er_Metadata = metadata\<rparr>]\<rparr>"

text \<open>What follows a successful insertion: the identifier, and the commit, whose failure may hide
  that it took effect.\<close>

definition append_finish :: "event \<Rightarrow> (string \<times> nat) list \<Rightarrow> json \<Rightarrow> 'z db_env_scheme \<Rightarrow> event result \<times> 'z db_env_scheme" where
  "append_finish ev sq metadata w =
     and_then append_op (io_call w) (\<lambda>_ w1.
       let ev1 = ev\<lparr>ev_ID := db_NextEventID w1\<rparr>;
           committed = committed_append ev sq metadata
       in case io_call w1 of
            (Inr _, w2) \<Rightarrow> (Inr ev1, committed w2)
          | (Inl e, w2) \<Rightarrow>
              let (took, w3) = io_choose w2; w4 = (if took then committed w3 else w3) in
              case loadExistingEvent ev1 w4 of
                (Inr (Some ev2), w5) \<Rightarrow> (Inr ev2, w5)
              | (_, w5) \<Rightarrow> (Inl (wrap_err append_op (Errorf (Error ErrCommitAmbiguous @ '': '' @ Error e) ErrCommitAmbiguous)), w5))"

text \<open>One iteration per attempt; the argument counts the attempts that remain after this one.\<close>

fun append_attempts :: "nat \<Rightarrow> event \<Rightarrow> json \<Rightarrow> 'z db_env_scheme \<Rightarrow> event result \<times> 'z db_env_scheme" where
  "append_attempts n ev metadata w =
     (case io_call w of
        (Inl e, w1) \<Rightarrow>
          (if isSQLiteBusy e \<and> n > 0 then append_attempts (n - 1) ev metadata w1
           else (Inl (wrap_err append_op e), w1))
      | (Inr _, w1) \<Rightarrow>
     (case io_call w1 of
        (Inl e, w2) \<Rightarrow>
          (if isSQLiteBusy e \<and> n > 0 then append_attempts (n - 1) ev metadata w2
           else (Inl (wrap_err append_op e), w2))
      | (Inr _, w2) \<Rightarrow>
     (let ev1 = ev\<lparr>ev_Sequence := next_sequence (ev_ScopeID ev) (db_Sequences w2)\<rparr>;
          sq = advance_sequence (ev_ScopeID ev) (db_Sequences w2);
          (fault, w3) = io_call w2;
          outcome = (case fault of Inl e \<Rightarrow> Some e
            | Inr _ \<Rightarrow> if violates_unique ev1 (db_Events w3) then Some unique_violation else None)
      in case outcome of
           None \<Rightarrow> append_finish ev1 sq metadata w3
         | Some e \<Rightarrow>
             let (existing, w4) = (if isSQLiteConstraint e then loadExistingEvent ev1 w3 else (Inr None, w3)) in
             case existing of
               Inr (Some ev2) \<Rightarrow> (Inr ev2, w4)
             | _ \<Rightarrow> (if isSQLiteBusy e \<and> n > 0 then append_attempts (n - 1) ev1 metadata w4
                     else (Inl (wrap_err append_op e), w4)))))"

declare append_attempts.simps [simp del]

definition repo_Append :: "event \<Rightarrow> 'z db_env_scheme \<Rightarrow> event result \<times> 'z db_env_scheme" where
  "repo_Append ev w =
     writable append_op w (\<lambda>w0.
       let ev0 = (if ev_UID ev = [] then ev\<lparr>ev_UID := eventUID ev\<rparr> else ev) in
       and_then append_op (loadExistingEvent ev0 w0) (\<lambda>existing w1.
         case existing of
           Some ev1 \<Rightarrow> (Inr ev1, w1)
         | None \<Rightarrow> append_attempts 4 ev0 (json_of_metadata (ev_Metadata ev0)) w1))"

section \<open>Reading\<close>

definition scope_rows :: "string \<Rightarrow> nat \<Rightarrow> event_row list \<Rightarrow> event_row list" where
  "scope_rows scopeID after rows =
     sort_key (\<lambda>r. ev_Sequence (er_Event r))
       (filter (\<lambda>r. ev_ScopeID (er_Event r) = scopeID \<and> ev_Sequence (er_Event r) > after) rows)"

definition list_op :: string where
  "list_op = ''storage.sqlite.EventRepository.List''"

fun read_rows :: "event_row list \<Rightarrow> event list result" where
  "read_rows [] = Inr []"
| "read_rows (r # rs) =
     (case metadata_of_json (er_Metadata r) of
        Inl e \<Rightarrow> Inl (wrap_err list_op e)
      | Inr m \<Rightarrow> (case read_rows rs of Inl e \<Rightarrow> Inl e
          | Inr evs \<Rightarrow> Inr ((er_Event r)\<lparr>ev_Metadata := m\<rparr> # evs)))"

definition repo_List :: "string \<Rightarrow> nat \<Rightarrow> 'z db_env_scheme \<Rightarrow> event list result \<times> 'z db_env_scheme" where
  "repo_List scopeID afterSequence w =
     and_then list_op (io_call w) (\<lambda>_ w1.
       (read_rows (scope_rows scopeID afterSequence (db_Events w1)), w1))"

definition max_sequence :: "string \<Rightarrow> event_row list \<Rightarrow> nat" where
  "max_sequence scopeID rows =
     foldr (\<lambda>r m. if ev_ScopeID (er_Event r) = scopeID then max (ev_Sequence (er_Event r)) m else m) rows 0"

definition repo_GetLastSequence :: "string \<Rightarrow> 'z db_env_scheme \<Rightarrow> nat result \<times> 'z db_env_scheme" where
  "repo_GetLastSequence scopeID w =
     and_then ''storage.sqlite.EventRepository.GetLastSequence'' (io_call w) (\<lambda>_ w1.
       (Inr (max_sequence scopeID (db_Events w1)), w1))"

section \<open>Checkpoints\<close>

definition same_checkpoint :: "string \<Rightarrow> string \<Rightarrow> nat \<Rightarrow> checkpoint_row \<Rightarrow> bool" where
  "same_checkpoint name scopeID seq r \<longleftrightarrow>
     cp_Name (cr_Checkpoint r) = name \<and> cp_ScopeID (cr_Checkpoint r) = scopeID \<and> cp_Sequence (cr_Checkpoint r) = seq"

text \<open>\<open>INSERT OR IGNORE\<close>: a checkpoint with the key of a stored one is dropped.\<close>

definition repo_SaveCheckpoint :: "event_checkpoint \<Rightarrow> 'z db_env_scheme \<Rightarrow> unit result \<times> 'z db_env_scheme" where
  "repo_SaveCheckpoint cp w =
     (let op = ''storage.sqlite.EventRepository.SaveCheckpoint'' in
      writable op w (\<lambda>w0.
        let metadata = json_of_metadata (cp_Metadata cp);
            cp1 = (if cp_SchemaVersion cp = 0 then cp\<lparr>cp_SchemaVersion := SchemaVersion\<rparr> else cp);
            (cp2, w1) = (if time_is_zero (cp_CreatedAt cp1)
                         then let (now, v) = time_Now w0 in (cp1\<lparr>cp_CreatedAt := now\<rparr>, v)
                         else (cp1, w0))
        in and_then op (io_call w1) (\<lambda>_ w2.
             (Inr (),
              if \<exists>r \<in> set (db_Checkpoints w2). same_checkpoint (cp_Name cp2) (cp_ScopeID cp2) (cp_Sequence cp2) r
              then w2
              else w2\<lparr>db_Checkpoints := db_Checkpoints w2 @
                [\<lparr>cr_Checkpoint = cp2\<lparr>cp_Metadata := []\<rparr>, cr_Metadata = metadata\<rparr>]\<rparr>))))"

definition checkpoint_rows :: "string \<Rightarrow> string \<Rightarrow> checkpoint_row list \<Rightarrow> checkpoint_row list" where
  "checkpoint_rows scopeID name rows =
     rev (sort_key (\<lambda>r. cp_Sequence (cr_Checkpoint r))
       (filter (\<lambda>r. cp_ScopeID (cr_Checkpoint r) = scopeID \<and> cp_Name (cr_Checkpoint r) = name) rows))"

definition read_checkpoint :: "string \<Rightarrow> checkpoint_row \<Rightarrow> event_checkpoint result" where
  "read_checkpoint op r =
     (case metadata_of_json (cr_Metadata r) of
        Inl e \<Rightarrow> Inl (wrap_err op e)
      | Inr m \<Rightarrow> Inr ((cr_Checkpoint r)\<lparr>cp_Metadata := m\<rparr>))"

definition repo_LatestCheckpoint :: "string \<Rightarrow> string \<Rightarrow> 'z db_env_scheme \<Rightarrow> event_checkpoint result \<times> 'z db_env_scheme" where
  "repo_LatestCheckpoint scopeID name w =
     (let op = ''storage.sqlite.EventRepository.LatestCheckpoint'' in
      and_then op (io_call w) (\<lambda>_ w1.
        case checkpoint_rows scopeID name (db_Checkpoints w1) of
          [] \<Rightarrow> (Inl ErrCheckpointNotFound, w1)
        | r # _ \<Rightarrow> (read_checkpoint op r, w1)))"

fun read_checkpoints :: "string \<Rightarrow> checkpoint_row list \<Rightarrow> event_checkpoint list result" where
  "read_checkpoints op [] = Inr []"
| "read_checkpoints op (r # rs) =
     bind_result (read_checkpoint op r) (\<lambda>c. bind_result (read_checkpoints op rs) (\<lambda>cs. Inr (c # cs)))"

definition repo_ListCheckpoints :: "string \<Rightarrow> string \<Rightarrow> int \<Rightarrow> 'z db_env_scheme \<Rightarrow> event_checkpoint list result \<times> 'z db_env_scheme" where
  "repo_ListCheckpoints scopeID name limit w =
     (let op = ''storage.sqlite.EventRepository.ListCheckpoints'' in
      and_then op (io_call w) (\<lambda>_ w1.
        let rows = checkpoint_rows scopeID name (db_Checkpoints w1);
            page = (if limit > 0 then take (nat limit) rows else rows)
        in (read_checkpoints op page, w1)))"

definition repo_DeleteCheckpoint :: "string \<Rightarrow> string \<Rightarrow> nat \<Rightarrow> 'z db_env_scheme \<Rightarrow> unit result \<times> 'z db_env_scheme" where
  "repo_DeleteCheckpoint scopeID name seq w =
     (let op = ''storage.sqlite.EventRepository.DeleteCheckpoint'' in
      writable op w (\<lambda>w0. and_then op (io_call w0) (\<lambda>_ w1.
        (Inr (), w1\<lparr>db_Checkpoints := filter (\<lambda>r. \<not> same_checkpoint name scopeID seq r) (db_Checkpoints w1)\<rparr>))))"

section \<open>Compaction\<close>

record compaction_stats =
  cs_SafeSequence :: nat
  cs_HotEntries :: int
  cs_WarmEntries :: int
  cs_ColdEntries :: int
  cs_ReplaySafeEntries :: int
  cs_PurgeCandidates :: int
  cs_Compactions :: int
  cs_Rotations :: int

definition zero_stats :: compaction_stats where
  "zero_stats = \<lparr>cs_SafeSequence = 0, cs_HotEntries = 0, cs_WarmEntries = 0, cs_ColdEntries = 0,
     cs_ReplaySafeEntries = 0, cs_PurgeCandidates = 0, cs_Compactions = 0, cs_Rotations = 0\<rparr>"

definition hasCheckpointBoundary :: "string \<Rightarrow> string \<Rightarrow> nat \<Rightarrow> 'z db_env_scheme \<Rightarrow> bool result \<times> 'z db_env_scheme" where
  "hasCheckpointBoundary scopeID name seq w =
     and_then ''storage.sqlite.EventRepository.HasCheckpointBoundary'' (io_call w) (\<lambda>_ w1.
       (Inr (\<exists>r \<in> set (db_Checkpoints w1). same_checkpoint name scopeID seq r), w1))"

definition countEvents :: "string \<Rightarrow> 'z db_env_scheme \<Rightarrow> int result \<times> 'z db_env_scheme" where
  "countEvents scopeID w =
     and_then ''storage.sqlite.EventRepository.CountEvents'' (io_call w) (\<lambda>_ w1.
       (Inr (int (length (filter (\<lambda>r. ev_ScopeID (er_Event r) = scopeID) (db_Events w1)))), w1))"

definition covered :: "string \<Rightarrow> nat \<Rightarrow> event_row \<Rightarrow> bool" where
  "covered scopeID seq r \<longleftrightarrow> ev_ScopeID (er_Event r) = scopeID \<and> ev_Sequence (er_Event r) \<le> seq"

definition countEventsThrough :: "string \<Rightarrow> nat \<Rightarrow> 'z db_env_scheme \<Rightarrow> int result \<times> 'z db_env_scheme" where
  "countEventsThrough scopeID seq w =
     and_then ''storage.sqlite.EventRepository.CountEventsThrough'' (io_call w) (\<lambda>_ w1.
       (Inr (int (length (filter (covered scopeID seq) (db_Events w1)))), w1))"

text \<open>\<open>CompactRawArchive\<close>; the size of the files and the metrics are not part of the statistics here.\<close>

definition repo_CompactRawArchive :: "string \<Rightarrow> string \<Rightarrow> nat \<Rightarrow> 'z db_env_scheme \<Rightarrow> compaction_stats result \<times> 'z db_env_scheme" where
  "repo_CompactRawArchive scopeID checkpointName throughSequence w =
     (let op = ''storage.sqlite.EventRepository.CompactRawArchive'' in
      writable op w (\<lambda>w0.
      if throughSequence = 0 then (Inl (New op ''checkpoint boundary must be positive''), w0)
      else and_then op (hasCheckpointBoundary scopeID checkpointName throughSequence w0) (\<lambda>ok w1.
      if \<not> ok then (Inl (New op (''checkpoint boundary not found for '' @ scopeID @ ''/'' @ checkpointName @
          '' at sequence '' @ show_nat throughSequence)), w1)
      else and_then op (countEvents scopeID w1) (\<lambda>total w2.
      and_then op (countEventsThrough scopeID throughSequence w2) (\<lambda>safeCount w3.
      if safeCount = 0 then
        (Inr (zero_stats\<lparr>cs_SafeSequence := throughSequence, cs_HotEntries := total, cs_ReplaySafeEntries := total\<rparr>), w3)
      else and_then op (io_call w3) (\<lambda>_ w4.
        let deleted = int (length (filter (covered scopeID throughSequence) (db_Events w4)));
            w5 = w4\<lparr>db_Events := filter (\<lambda>r. \<not> covered scopeID throughSequence r) (db_Events w4)\<rparr>
        in and_then op (io_call w5) (\<lambda>_ w6.
          (Inr \<lparr>cs_SafeSequence = throughSequence,
                cs_HotEntries = (if total \<ge> safeCount then total - safeCount else 0),
                cs_WarmEntries = safeCount, cs_ColdEntries = deleted,
                cs_ReplaySafeEntries = total - safeCount, cs_PurgeCandidates = safeCount,
                cs_Compactions = 1, cs_Rotations = 1\<rparr>, w6))))))))"

definition repo_PurgeThrough :: "string \<Rightarrow> string \<Rightarrow> nat \<Rightarrow> 'z db_env_scheme \<Rightarrow> compaction_stats result \<times> 'z db_env_scheme" where
  "repo_PurgeThrough scopeID checkpointName throughSequence w =
     repo_CompactRawArchive scopeID checkpointName throughSequence w"

section \<open>What an append does\<close>

lemma loadExistingEvent_cases:
  assumes "loadExistingEvent ev w = (r, w')"
  shows "stepped w w' \<and> ((\<exists>e. r = Inl e) \<or> r = Inr None \<or>
     (\<exists>row. find_event (ev_ScopeID ev) (ev_UID ev) (db_Events w) = Some row \<and>
        r = Inr (Some (ev\<lparr>ev_ID := ev_ID (er_Event row), ev_Sequence := ev_Sequence (er_Event row)\<rparr>))))"
  using assms
  by (auto simp: loadExistingEvent_def and_try_def io_call_def split: if_splits option.splits)

text \<open>The outcomes of an append, for every script of failures:
  nothing was stored and the call reports an error or the event that is already there; or the event
  was stored under the next number of its scope, and the call reports it or that the commit is in
  doubt.\<close>

definition existing_reported :: "event \<Rightarrow> event_row list \<Rightarrow> event result \<Rightarrow> bool" where
  "existing_reported ev rows r \<longleftrightarrow>
     (\<exists>row ev'. find_event (ev_ScopeID ev) (ev_UID ev) rows = Some row \<and> r = Inr ev' \<and>
        ev_ID ev' = ev_ID (er_Event row) \<and> ev_Sequence ev' = ev_Sequence (er_Event row))"

definition append_outcome :: "event \<Rightarrow> json \<Rightarrow> 'z db_env_scheme \<Rightarrow> event result \<Rightarrow> 'z db_env_scheme \<Rightarrow> bool" where
  "append_outcome ev metadata w r w' \<longleftrightarrow>
     (stepped w w' \<and> ((\<exists>e. r = Inl e) \<or> existing_reported ev (db_Events w) r)) \<or>
     (let ev1 = ev\<lparr>ev_Sequence := next_sequence (ev_ScopeID ev) (db_Sequences w)\<rparr>;
          sq = advance_sequence (ev_ScopeID ev) (db_Sequences w)
      in \<not> violates_unique ev1 (db_Events w) \<and> stepped (committed_append ev1 sq metadata w) w' \<and>
         (r = Inr (ev1\<lparr>ev_ID := db_NextEventID w\<rparr>) \<or> (\<exists>e. r = Inl e \<and> Is e ErrCommitAmbiguous)))"

lemma append_outcome_step:
  "stepped w v \<Longrightarrow> append_outcome ev metadata v r w' \<longleftrightarrow> append_outcome ev metadata w r w'"
  by (auto simp: stepped_def append_outcome_def committed_append_def Let_def)

lemma append_outcome_seq:
  "append_outcome (ev\<lparr>ev_Sequence := n\<rparr>) metadata w r w' \<longleftrightarrow> append_outcome ev metadata w r w'"
  by (simp add: append_outcome_def existing_reported_def Let_def)

lemma committed_append_stepped:
  "stepped w v \<Longrightarrow> stepped (committed_append ev sq metadata w) (committed_append ev sq metadata v)"
  unfolding stepped_def committed_append_def by (elim exE, rule_tac x = k in exI) simp

lemma ambiguous_Is:
  "Is (wrap_err op (Errorf s ErrCommitAmbiguous)) ErrCommitAmbiguous"
  by (simp add: ErrCommitAmbiguous_def)

lemma find_event_append_new:
  assumes "\<not> violates_unique ev rows" and "ev_UID ev \<noteq> []"
  shows "find_event (ev_ScopeID ev) (ev_UID ev) (rows @ [\<lparr>er_Event = ev\<lparr>ev_ID := i, ev_Metadata := m\<rparr>, er_Metadata = j\<rparr>]) =
    Some \<lparr>er_Event = ev\<lparr>ev_ID := i, ev_Metadata := m\<rparr>, er_Metadata = j\<rparr>"
  using assms by (induction rows) (auto simp: find_event_def violates_unique_def)

text \<open>The commit that failed: the event is looked up in the tables as they really are.\<close>

lemma append_recover_outcome:
  assumes "loadExistingEvent (ev1\<lparr>ev_ID := i\<rparr>) w4 = (x, w5)"
    and w4: "stepped w w4 \<or> (stepped (committed_append ev1 sq metadata w) w4 \<and> i = db_NextEventID w)"
    and ev1: "ev1 = ev\<lparr>ev_Sequence := next_sequence (ev_ScopeID ev) (db_Sequences w)\<rparr>"
    and sq: "sq = advance_sequence (ev_ScopeID ev) (db_Sequences w)"
    and uniq: "\<not> violates_unique ev1 (db_Events w)"
    and amb: "Is e ErrCommitAmbiguous"
  shows "append_outcome ev metadata w (case x of Inr (Some ev2) \<Rightarrow> Inr ev2 | _ \<Rightarrow> Inl e) w5"
proof -
  note cases = loadExistingEvent_cases [OF assms(1)]
  have step: "stepped w4 w5" using cases by simp
  show ?thesis
  proof (cases "stepped w w4")
    case True
    then have "stepped w w5" and "db_Events w4 = db_Events w"
      using step stepped_trans by (blast, auto simp: stepped_def)
    then show ?thesis
      using cases ev1 by (auto simp: append_outcome_def existing_reported_def)
  next
    case False
    with w4 have com: "stepped (committed_append ev1 sq metadata w) w4" and i: "i = db_NextEventID w" by auto
    then have "stepped (committed_append ev1 sq metadata w) w5" using step stepped_trans by blast
    moreover have "db_Events w4 = db_Events w @ [\<lparr>er_Event = ev1\<lparr>ev_ID := i, ev_Metadata := []\<rparr>, er_Metadata = metadata\<rparr>]"
      using com i by (auto simp: stepped_def committed_append_def)
    then have "x = Inr (Some ev2) \<Longrightarrow> ev2 = ev1\<lparr>ev_ID := db_NextEventID w\<rparr>" for ev2
      using cases i find_event_append_new [OF uniq, where i = i and m = "[]" and j = metadata] assms(1)
      by (auto simp: loadExistingEvent_def split: if_splits)
    ultimately show ?thesis
      using ev1 sq uniq amb by (auto simp: append_outcome_def Let_def split: sum.split option.split)
  qed
qed

lemma append_finish_outcome:
  assumes "append_finish ev1 sq metadata w = (r, w')"
    and ev1: "ev1 = ev\<lparr>ev_Sequence := next_sequence (ev_ScopeID ev) (db_Sequences w)\<rparr>"
    and sq: "sq = advance_sequence (ev_ScopeID ev) (db_Sequences w)"
    and uniq: "\<not> violates_unique ev1 (db_Events w)"
  shows "append_outcome ev metadata w r w'"
proof -
  obtain r1 w1 where c1: "io_call w = (r1, w1)" by (cases "io_call w")
  obtain r2 w2 where c2: "io_call w1 = (r2, w2)" by (cases "io_call w1")
  have st: "stepped w w1" "stepped w w2" using c1 c2 stepped_trans io_call_stepped by blast+
  then have nid: "db_NextEventID w1 = db_NextEventID w" by (auto simp: stepped_def)
  show ?thesis
  proof (cases r1)
    case (Inl e)
    with assms(1) c1 have "r = Inl (wrap_err append_op e)" "w' = w1" by (simp_all add: append_finish_def)
    with st show ?thesis by (simp add: append_outcome_def)
  next
    case r1: (Inr u)
    show ?thesis
    proof (cases r2)
      case (Inr v)
      with assms(1) c1 c2 r1 nid have "r = Inr (ev1\<lparr>ev_ID := db_NextEventID w\<rparr>)"
          and "w' = committed_append ev1 sq metadata w2" by (simp_all add: append_finish_def Let_def)
      with committed_append_stepped [OF st(2)] ev1 sq uniq show ?thesis
        by (auto simp: append_outcome_def Let_def)
    next
      case (Inl e)
      obtain took w3 where c3: "io_choose w2 = (took, w3)" by (cases "io_choose w2")
      define w4 where "w4 = (if took then committed_append ev1 sq metadata w3 else w3)"
      obtain x w5 where c5: "loadExistingEvent (ev1\<lparr>ev_ID := db_NextEventID w\<rparr>) w4 = (x, w5)"
        by (cases "loadExistingEvent (ev1\<lparr>ev_ID := db_NextEventID w\<rparr>) w4")
      have "stepped w w3" using st(2) io_choose_stepped [OF c3] stepped_trans by blast
      then have "stepped w w4 \<or> (stepped (committed_append ev1 sq metadata w) w4 \<and> db_NextEventID w = db_NextEventID w)"
        by (simp add: w4_def committed_append_stepped)
      note out = append_recover_outcome [OF c5 this ev1 sq uniq ambiguous_Is]
      have "w' = w5"
        and "r = (case x of Inr (Some ev2) \<Rightarrow> Inr ev2
          | _ \<Rightarrow> Inl (wrap_err append_op (Errorf (Error ErrCommitAmbiguous @ '': '' @ Error e) ErrCommitAmbiguous)))"
        using assms(1) c1 c2 c3 c5 r1 Inl nid
        by (auto simp: append_finish_def Let_def w4_def [symmetric] split: sum.splits option.splits)
      with out show ?thesis by simp
    qed
  qed
qed

lemma append_attempts_outcome:
  "append_attempts n ev metadata w = (r, w') \<Longrightarrow> append_outcome ev metadata w r w'"
proof (induction n arbitrary: ev w rule: less_induct)
  case (less n)
  obtain r1 w1 where c1: "io_call w = (r1, w1)" by (cases "io_call w")
  obtain r2 w2 where c2: "io_call w1 = (r2, w2)" by (cases "io_call w1")
  obtain r3 w3 where c3: "io_call w2 = (r3, w3)" by (cases "io_call w2")
  have s1: "stepped w w1" using c1 by simp
  have s2: "stepped w w2" using s1 c2 stepped_trans io_call_stepped by blast
  have s3: "stepped w w3" using s2 c3 stepped_trans io_call_stepped by blast
  have retry: "append_outcome ev metadata w r w'"
    if "(if isSQLiteBusy e \<and> n > 0 then append_attempts (n - 1) (ev\<lparr>ev_Sequence := m\<rparr>) metadata v
         else (Inl (wrap_err append_op e), v)) = (r, w')" and "stepped w v" for e v m
  proof (cases "isSQLiteBusy e \<and> n > 0")
    case True
    then have "append_outcome (ev\<lparr>ev_Sequence := m\<rparr>) metadata v r w'" using less.IH [of "n - 1"] that(1) by auto
    then show ?thesis using append_outcome_step [OF that(2)] by (simp add: append_outcome_seq)
  next
    case False
    then show ?thesis using that by (auto simp: append_outcome_def)
  qed
  have same: "ev\<lparr>ev_Sequence := ev_Sequence ev\<rparr> = ev" by simp
  note unfolded = less.prems [unfolded append_attempts.simps [of n ev]]
  define ev1 where "ev1 = ev\<lparr>ev_Sequence := next_sequence (ev_ScopeID ev) (db_Sequences w2)\<rparr>"
  define sq where "sq = advance_sequence (ev_ScopeID ev) (db_Sequences w2)"
  have tables: "db_Sequences w2 = db_Sequences w" "db_Events w3 = db_Events w" "db_Sequences w3 = db_Sequences w"
    using s2 s3 by (auto simp: stepped_def)
  define outcome where "outcome = (case r3 of Inl e \<Rightarrow> Some e
      | Inr _ \<Rightarrow> if violates_unique ev1 (db_Events w3) then Some unique_violation else None)"
  consider (unstarted) e where "r1 = Inl e" | (counter) e where "r1 = Inr ()" "r2 = Inl e"
    | (inserted) "r1 = Inr ()" "r2 = Inr ()" "outcome = None"
    | (refused) e where "r1 = Inr ()" "r2 = Inr ()" "outcome = Some e"
    by (cases r1; cases r2; cases outcome) auto
  then show ?case
  proof cases
    case unstarted
    then show ?thesis using retry [of e "ev_Sequence ev" w1, unfolded same] unfolded s1 c1 by simp
  next
    case counter
    then show ?thesis using retry [of e "ev_Sequence ev" w2, unfolded same] unfolded s2 c1 c2 by simp
  next
    case inserted
    then have fin: "append_finish ev1 sq metadata w3 = (r, w')" and uniq: "\<not> violates_unique ev1 (db_Events w3)"
      using unfolded c1 c2 c3
      by (auto simp: Let_def outcome_def ev1_def sq_def split: if_splits sum.splits)
    have "append_outcome ev metadata w3 r w'"
      by (rule append_finish_outcome [OF fin _ _ uniq]) (simp_all add: ev1_def sq_def tables)
    then show ?thesis using append_outcome_step [OF s3] by simp
  next
    case refused
    obtain existing w4 where c4: "(if isSQLiteConstraint e then loadExistingEvent ev1 w3 else (Inr None, w3)) = (existing, w4)"
      by fastforce
    have s4: "stepped w w4"
      using c4 s3 loadExistingEvent_cases [of ev1 w3] stepped_trans by (auto split: if_splits)
    have res: "(case existing of Inr (Some ev2) \<Rightarrow> (Inr ev2, w4)
        | _ \<Rightarrow> (if isSQLiteBusy e \<and> n > 0 then append_attempts (n - 1) ev1 metadata w4
                else (Inl (wrap_err append_op e), w4))) = (r, w')"
      unfolding ev1_def
      using refused(1,2) refused(3) [unfolded outcome_def ev1_def] unfolded c1 c2 c3 c4 [unfolded ev1_def]
      by (simp add: Let_def split del: if_split)
    show ?thesis
    proof (cases "\<exists>ev2. existing = Inr (Some ev2)")
      case True
      then obtain ev2 where ex: "existing = Inr (Some ev2)" ..
      with c4 have "loadExistingEvent ev1 w3 = (Inr (Some ev2), w4)" by (auto split: if_splits)
      from loadExistingEvent_cases [OF this] have "existing_reported ev (db_Events w) (Inr ev2)"
        by (auto simp: existing_reported_def tables ev1_def)
      with res ex s4 show ?thesis by (simp add: append_outcome_def)
    next
      case False
      then have "(if isSQLiteBusy e \<and> n > 0 then append_attempts (n - 1) ev1 metadata w4
                else (Inl (wrap_err append_op e), w4)) = (r, w')"
        using res by (auto split: sum.splits option.splits)
      from retry [OF this [unfolded ev1_def] s4] show ?thesis .
    qed
  qed
qed

text \<open>The event as \<open>Append\<close> stores it.\<close>

definition with_uid :: "event \<Rightarrow> event" where
  "with_uid ev = (if ev_UID ev = [] then ev\<lparr>ev_UID := eventUID ev\<rparr> else ev)"

lemma with_uid_simps [simp]:
  "ev_UID (with_uid ev) \<noteq> []" "ev_ScopeID (with_uid ev) = ev_ScopeID ev"
  "ev_Metadata (with_uid ev) = ev_Metadata ev"
  using length_sha256_hex [of "json_text (event_identity ev)"]
  by (auto simp: with_uid_def eventUID_def simp del: length_sha256_hex)

lemma repo_Append_eq:
  "\<not> db_ReadOnly w \<Longrightarrow> repo_Append ev w =
     and_then append_op (loadExistingEvent (with_uid ev) w) (\<lambda>existing w1. case existing of Some ev1 \<Rightarrow> (Inr ev1, w1)
      | None \<Rightarrow> append_attempts 4 (with_uid ev) (json_of_metadata (ev_Metadata (with_uid ev))) w1)"
  by (simp add: repo_Append_def writable_simps Let_def with_uid_def [symmetric])

lemma repo_Append_outcome:
  assumes "repo_Append ev w = (r, w')"
  shows "append_outcome (with_uid ev) (json_of_metadata (ev_Metadata ev)) w r w'"
proof (cases "db_ReadOnly w")
  case True
  with assms show ?thesis by (auto simp: repo_Append_def writable_simps append_outcome_def)
next
  case False
  obtain x w1 where c: "loadExistingEvent (with_uid ev) w = (x, w1)" by (cases "loadExistingEvent (with_uid ev) w")
  note cases = loadExistingEvent_cases [OF c]
  have eq: "and_then append_op (x, w1) (\<lambda>existing w1. case existing of Some ev1 \<Rightarrow> (Inr ev1, w1)
      | None \<Rightarrow> append_attempts 4 (with_uid ev) (json_of_metadata (ev_Metadata (with_uid ev))) w1) = (r, w')"
    using assms repo_Append_eq [OF False] c by simp
  note eq = eq [unfolded with_uid_simps(3)]
  consider (err) e where "x = Inl e" | (fresh) "x = Inr None" | (known) ev2 where "x = Inr (Some ev2)"
    by (metis option.exhaust sum.exhaust)
  then show ?thesis
  proof cases
    case err
    then show ?thesis using eq cases by (auto simp: append_outcome_def)
  next
    case fresh
    then have "append_outcome (with_uid ev) (json_of_metadata (ev_Metadata ev)) w1 r w'"
      using eq by (intro append_attempts_outcome) simp
    then show ?thesis using cases append_outcome_step by blast
  next
    case known
    then show ?thesis using eq cases by (auto simp: append_outcome_def existing_reported_def)
  qed
qed

section \<open>The invariant of the log\<close>

text \<open>For every scope the numbers of its events are an interval that ends where the counter stands:
  numbers are never reused and never skipped, and compaction only removes a beginning.\<close>

definition scope_seqs :: "string \<Rightarrow> event_row list \<Rightarrow> nat list" where
  "scope_seqs scopeID rows = map (\<lambda>r. ev_Sequence (er_Event r)) (filter (\<lambda>r. ev_ScopeID (er_Event r) = scopeID) rows)"

definition readable :: "event_row \<Rightarrow> bool" where
  "readable r \<longleftrightarrow> (\<exists>m. metadata_of_json (er_Metadata r) = Inr m)"

definition log_inv :: "'z db_env_scheme \<Rightarrow> bool" where
  "log_inv w \<longleftrightarrow>
     (\<forall>s. distinct (scope_seqs s (db_Events w)) \<and>
          (\<exists>lo. 1 \<le> lo \<and> lo \<le> next_sequence s (db_Sequences w) \<and>
             set (scope_seqs s (db_Events w)) = {lo ..< next_sequence s (db_Sequences w)})) \<and>
     (\<forall>r \<in> set (db_Events w). readable r \<and> ev_UID (er_Event r) \<noteq> []) \<and>
     distinct (map (\<lambda>r. (ev_ScopeID (er_Event r), ev_UID (er_Event r))) (db_Events w))"

lemma log_inv_step: "stepped w w' \<Longrightarrow> log_inv w' \<longleftrightarrow> log_inv w"
  by (auto simp: stepped_def log_inv_def)

lemma log_inv_scope:
  assumes "log_inv w"
  obtains lo where "1 \<le> lo" "lo \<le> next_sequence s (db_Sequences w)"
    "set (scope_seqs s (db_Events w)) = {lo ..< next_sequence s (db_Sequences w)}"
    "distinct (scope_seqs s (db_Events w))"
  using assms unfolding log_inv_def by blast

lemma next_sequence_advance [simp]:
  "next_sequence s (advance_sequence t sq) = (if s = t then Suc (next_sequence t sq) else next_sequence s sq)"
  by (simp add: next_sequence_def advance_sequence_def map_of_filter_neq)

lemma scope_seqs_append [simp]:
  "scope_seqs s (rows @ rows') = scope_seqs s rows @ scope_seqs s rows'"
  by (simp add: scope_seqs_def)

lemma readable_metadata: "\<exists>m'. metadata_of_json (json_of_metadata m) = Inr m'"
  by (simp add: metadata_of_json_def json_of_metadata_def)

lemma log_inv_append:
  assumes "log_inv w" and "\<not> violates_unique ev (db_Events w)" and "ev_UID ev \<noteq> []"
    and "ev_Sequence ev = next_sequence (ev_ScopeID ev) (db_Sequences w)"
    and "\<exists>m. metadata_of_json metadata = Inr m"
  shows "log_inv (committed_append ev (advance_sequence (ev_ScopeID ev) (db_Sequences w)) metadata w)"
proof -
  let ?w' = "committed_append ev (advance_sequence (ev_ScopeID ev) (db_Sequences w)) metadata w"
  have ev: "db_Events ?w' = db_Events w @ [\<lparr>er_Event = ev\<lparr>ev_ID := db_NextEventID w, ev_Metadata := []\<rparr>, er_Metadata = metadata\<rparr>]"
    and sq: "db_Sequences ?w' = advance_sequence (ev_ScopeID ev) (db_Sequences w)"
    by (simp_all add: committed_append_def)
  have "distinct (scope_seqs s (db_Events ?w')) \<and> (\<exists>lo. 1 \<le> lo \<and> lo \<le> next_sequence s (db_Sequences ?w') \<and>
      set (scope_seqs s (db_Events ?w')) = {lo ..< next_sequence s (db_Sequences ?w')})" for s
  proof -
    obtain lo where lo: "1 \<le> lo" "lo \<le> next_sequence s (db_Sequences w)"
        "set (scope_seqs s (db_Events w)) = {lo ..< next_sequence s (db_Sequences w)}"
        and d: "distinct (scope_seqs s (db_Events w))"
      using log_inv_scope [OF assms(1)] by blast
    show ?thesis
    proof (cases "s = ev_ScopeID ev")
      case True
      have "scope_seqs s (db_Events ?w') = scope_seqs s (db_Events w) @ [next_sequence s (db_Sequences w)]"
        using True assms(4) by (simp add: ev scope_seqs_def)
      then show ?thesis using True lo d
        by (auto simp: sq atLeastLessThanSuc intro!: exI [of _ lo])
    next
      case False
      then show ?thesis using lo d by (auto simp: ev sq scope_seqs_def)
    qed
  qed
  moreover have "\<forall>r \<in> set (db_Events ?w'). readable r \<and> ev_UID (er_Event r) \<noteq> []"
    using assms(1,3,5) by (auto simp: log_inv_def ev readable_def)
  moreover have "distinct (map (\<lambda>r. (ev_ScopeID (er_Event r), ev_UID (er_Event r))) (db_Events ?w'))"
    using assms(1,2,3) by (auto simp: log_inv_def ev violates_unique_def)
  ultimately show ?thesis by (simp add: log_inv_def)
qed

lemma log_inv_compact:
  assumes "log_inv w"
  shows "log_inv (w\<lparr>db_Events := filter (\<lambda>r. \<not> covered t q r) (db_Events w)\<rparr>)"
proof -
  let ?rows = "filter (\<lambda>r. \<not> covered t q r) (db_Events w)"
  have "distinct (scope_seqs s ?rows) \<and> (\<exists>lo. 1 \<le> lo \<and> lo \<le> next_sequence s (db_Sequences w) \<and>
      set (scope_seqs s ?rows) = {lo ..< next_sequence s (db_Sequences w)})" for s
  proof -
    obtain lo where lo: "1 \<le> lo" "lo \<le> next_sequence s (db_Sequences w)"
        "set (scope_seqs s (db_Events w)) = {lo ..< next_sequence s (db_Sequences w)}"
        and d: "distinct (scope_seqs s (db_Events w))"
      using log_inv_scope [OF assms] by blast
    have eq: "scope_seqs s ?rows = filter (\<lambda>n. s \<noteq> t \<or> n > q) (scope_seqs s (db_Events w))"
      by (auto simp: scope_seqs_def filter_map o_def covered_def intro!: arg_cong [of _ _ "map _"] filter_cong)
    let ?n = "next_sequence s (db_Sequences w)"
    let ?lo = "if s = t then min ?n (max lo (Suc q)) else lo"
    have "set (scope_seqs s ?rows) = {k \<in> {lo ..< ?n}. s \<noteq> t \<or> k > q}"
      unfolding eq using lo(3) by auto
    also have "\<dots> = {?lo ..< ?n}" by auto
    finally have set: "set (scope_seqs s ?rows) = {?lo ..< ?n}" .
    have "1 \<le> ?lo" "?lo \<le> ?n" using lo by auto
    moreover have "distinct (scope_seqs s ?rows)" unfolding eq using d by simp
    ultimately show ?thesis using set by blast
  qed
  moreover have "distinct (map (\<lambda>r. (ev_ScopeID (er_Event r), ev_UID (er_Event r))) ?rows)"
    using assms by (auto simp: log_inv_def intro: distinct_map_filter)
  ultimately show ?thesis using assms by (auto simp: log_inv_def)
qed

section \<open>The log of a scope\<close>

definition read_event :: "event_row \<Rightarrow> event" where
  "read_event r = (er_Event r)\<lparr>ev_Metadata := (case metadata_of_json (er_Metadata r) of Inr m \<Rightarrow> m | Inl _ \<Rightarrow> [])\<rparr>"

definition repo_log :: "'z db_env_scheme \<Rightarrow> string \<Rightarrow> event list" where
  "repo_log w scopeID = map read_event (scope_rows scopeID 0 (db_Events w))"

lemma read_event_simps [simp]:
  "ev_Sequence (read_event r) = ev_Sequence (er_Event r)" "ev_ScopeID (read_event r) = ev_ScopeID (er_Event r)"
  "ev_UID (read_event r) = ev_UID (er_Event r)" "ev_ID (read_event r) = ev_ID (er_Event r)"
  by (simp_all add: read_event_def)

lemma read_rows_ok: "\<forall>r \<in> set rows. readable r \<Longrightarrow> read_rows rows = Inr (map read_event rows)"
  by (induction rows) (auto simp: readable_def read_event_def)

lemma scope_rows_after:
  "scope_rows scopeID a rows = filter (\<lambda>r. a < ev_Sequence (er_Event r)) (scope_rows scopeID 0 rows)"
  unfolding scope_rows_def filter_sort by (auto intro!: arg_cong [of _ _ "sort_key _"] filter_cong)

lemma set_scope_rows:
  "set (scope_rows scopeID a rows) = {r \<in> set rows. ev_ScopeID (er_Event r) = scopeID \<and> a < ev_Sequence (er_Event r)}"
  by (auto simp: scope_rows_def)

lemma repo_log_step: "stepped w w' \<Longrightarrow> repo_log w' = repo_log w"
  by (auto simp: stepped_def repo_log_def)

lemma repo_List_cases:
  assumes "log_inv w" and "repo_List s a w = (r, w')"
  shows "stepped w w' \<and> ((\<exists>e. r = Inl e \<and> \<not> no_faults w) \<or> r = Inr (filter (\<lambda>ev. a < ev_Sequence ev) (repo_log w s)))"
proof -
  have "read_rows (scope_rows s a (db_Events w)) = Inr (map read_event (scope_rows s a (db_Events w)))"
    using assms(1) by (intro read_rows_ok) (auto simp: set_scope_rows log_inv_def)
  moreover have "map read_event (scope_rows s a (db_Events w)) = filter (\<lambda>ev. a < ev_Sequence ev) (repo_log w s)"
    unfolding repo_log_def scope_rows_after [of s a] by (simp add: filter_map o_def)
  ultimately show ?thesis
    using assms(2) by (cases w rule: io_call_cases) (auto simp: repo_List_def)
qed

lemma log_inv_bounds:
  assumes "log_inv w" and "r \<in> set (db_Events w)"
  shows "0 < ev_Sequence (er_Event r)"
    "ev_Sequence (er_Event r) < next_sequence (ev_ScopeID (er_Event r)) (db_Sequences w)"
proof -
  have "ev_Sequence (er_Event r) \<in> set (scope_seqs (ev_ScopeID (er_Event r)) (db_Events w))"
    using assms(2) by (auto simp: scope_seqs_def)
  then show "0 < ev_Sequence (er_Event r)"
    "ev_Sequence (er_Event r) < next_sequence (ev_ScopeID (er_Event r)) (db_Sequences w)"
    by (rule_tac log_inv_scope [OF assms(1), of "ev_ScopeID (er_Event r)"], auto)+
qed

lemma repo_log_interval:
  assumes "log_inv w"
  shows "\<exists>lo. 1 \<le> lo \<and> lo \<le> next_sequence s (db_Sequences w) \<and>
    map ev_Sequence (repo_log w s) = [lo ..< next_sequence s (db_Sequences w)]"
proof -
  obtain lo where lo: "1 \<le> lo" "lo \<le> next_sequence s (db_Sequences w)"
      "set (scope_seqs s (db_Events w)) = {lo ..< next_sequence s (db_Sequences w)}"
      "distinct (scope_seqs s (db_Events w))"
    by (rule log_inv_scope [OF assms])
  have all: "filter (\<lambda>r. ev_ScopeID (er_Event r) = s \<and> 0 < ev_Sequence (er_Event r)) (db_Events w) =
      filter (\<lambda>r. ev_ScopeID (er_Event r) = s) (db_Events w)"
    using log_inv_bounds(1) [OF assms] by (intro filter_cong) auto
  have "map ev_Sequence (repo_log w s) =
      map (\<lambda>r. ev_Sequence (er_Event r)) (sort_key (\<lambda>r. ev_Sequence (er_Event r))
        (filter (\<lambda>r. ev_ScopeID (er_Event r) = s) (db_Events w)))"
    by (simp add: repo_log_def scope_rows_def all)
  also have "\<dots> = [lo ..< next_sequence s (db_Sequences w)]"
    (is "?sorted = _")
  proof (rule sorted_distinct_set_unique)
    have set: "set ?sorted = set (scope_seqs s (db_Events w))" by (simp add: scope_seqs_def)
    then show "set ?sorted = set [lo ..< next_sequence s (db_Sequences w)]" using lo by simp
    have "card (set ?sorted) = length (scope_seqs s (db_Events w))" unfolding set using lo(4) distinct_card by blast
    then show "distinct ?sorted" by (intro card_distinct) (simp add: scope_seqs_def)
  qed simp_all
  finally show ?thesis using lo by blast
qed

interpretation repo: event_log repo_List repo_log log_inv no_faults
proof
  fix w w' :: "'a db_env_scheme" and r s a
  assume "log_inv w" and "repo_List s a w = (r, w')"
  from repo_List_cases [OF this] have "stepped w w'" by simp
  then show "log_inv w' \<and> repo_log w' = repo_log w \<and> (no_faults w \<longrightarrow> no_faults w')"
    using \<open>log_inv w\<close> by (simp add: log_inv_step repo_log_step stepped_faults)
next
  fix w :: "'a db_env_scheme" and s a
  assume "log_inv w" and "no_faults w"
  then show "fst (repo_List s a w) = Inr (filter (\<lambda>ev. a < ev_Sequence ev) (repo_log w s))"
    using repo_List_cases [of w s a] by (metis prod.collapse)
next
  fix w :: "'a db_env_scheme" and s
  assume "log_inv w"
  then obtain lo where "1 \<le> lo" "lo \<le> next_sequence s (db_Sequences w)"
      "map ev_Sequence (repo_log w s) = [lo ..< next_sequence s (db_Sequences w)]"
    using repo_log_interval by blast
  moreover from this have "length (repo_log w s) = next_sequence s (db_Sequences w) - lo"
    by (metis length_map length_upt)
  ultimately show "\<exists>lo. 1 \<le> lo \<and> map ev_Sequence (repo_log w s) = [lo ..< lo + length (repo_log w s)]"
    by (intro exI [of _ lo]) simp
qed

section \<open>Appending and compacting the log\<close>

lemma sort_key_snoc:
  assumes "\<forall>y \<in> set xs. f y \<le> f x"
  shows "sort_key f (xs @ [x]) = sort_key f xs @ [x]"
proof -
  have ins: "insort_key f y (ys @ [x]) = insort_key f y ys @ [x]" if "f y \<le> f x" for y ys
    using that by (induction ys) auto
  show ?thesis using assms by (induction xs) (simp_all add: ins)
qed

lemma repo_log_append:
  assumes "log_inv w" and "ev_Sequence ev = next_sequence (ev_ScopeID ev) (db_Sequences w)"
  shows "repo_log (committed_append ev sq (json_of_metadata m) w) s =
    (if s = ev_ScopeID ev
     then repo_log w s @ [ev\<lparr>ev_ID := db_NextEventID w,
        ev_Metadata := (case metadata_of_json (json_of_metadata m) of Inr m' \<Rightarrow> m' | Inl _ \<Rightarrow> [])\<rparr>]
     else repo_log w s)"
proof -
  let ?row = "\<lparr>er_Event = ev\<lparr>ev_ID := db_NextEventID w, ev_Metadata := []\<rparr>, er_Metadata = json_of_metadata m\<rparr>"
  have rows: "db_Events (committed_append ev sq (json_of_metadata m) w) = db_Events w @ [?row]"
    by (simp add: committed_append_def)
  show ?thesis
  proof (cases "s = ev_ScopeID ev")
    case True
    have "\<forall>r \<in> set (filter (\<lambda>r. ev_ScopeID (er_Event r) = s \<and> 0 < ev_Sequence (er_Event r)) (db_Events w)).
        ev_Sequence (er_Event r) \<le> ev_Sequence (er_Event ?row)"
      using True assms(2) log_inv_bounds(2) [OF assms(1)] by (fastforce intro!: less_imp_le)
    note snoc = sort_key_snoc [OF this]
    have "0 < ev_Sequence ev" using assms(2) by (rule_tac log_inv_scope [OF assms(1), of "ev_ScopeID ev"]) simp
    then show ?thesis using True snoc
      by (simp add: repo_log_def scope_rows_def rows read_event_def)
  next
    case False
    then show ?thesis by (simp add: repo_log_def scope_rows_def rows)
  qed
qed

lemma repo_log_compact:
  "repo_log (w\<lparr>db_Events := filter (\<lambda>r. \<not> covered t q r) (db_Events w)\<rparr>) s =
     (if s = t then filter (\<lambda>ev. q < ev_Sequence ev) (repo_log w s) else repo_log w s)"
proof -
  have "scope_rows s 0 (filter (\<lambda>r. \<not> covered t q r) (db_Events w)) =
      filter (\<lambda>r. \<not> covered t q r) (scope_rows s 0 (db_Events w))"
    unfolding scope_rows_def filter_sort by (auto intro!: arg_cong [of _ _ "sort_key _"] filter_cong)
  moreover have "filter (\<lambda>r. \<not> covered t q r) (scope_rows s 0 (db_Events w)) =
      (if s = t then filter (\<lambda>r. q < ev_Sequence (er_Event r)) (scope_rows s 0 (db_Events w))
       else scope_rows s 0 (db_Events w))"
    by (auto simp: covered_def set_scope_rows intro!: filter_cong filter_True)
  ultimately show ?thesis by (simp add: repo_log_def filter_map o_def)
qed

section \<open>Properties\<close>

lemma find_event_log:
  assumes "log_inv w" and "find_event s uid (db_Events w) = Some row"
  shows "read_event row \<in> set (repo_log w s)" and "ev_UID (er_Event row) = uid"
proof -
  have "row \<in> set (db_Events w)" and sc: "ev_ScopeID (er_Event row) = s" "ev_UID (er_Event row) = uid"
    using assms(2) by (auto simp: find_event_def find_Some_iff)
  moreover from this have "0 < ev_Sequence (er_Event row)" using log_inv_bounds [OF assms(1)] by blast
  ultimately show "read_event row \<in> set (repo_log w s)" "ev_UID (er_Event row) = uid"
    by (auto simp: repo_log_def set_scope_rows)
qed


text \<open>An empty database, on which every call succeeds.\<close>

definition quiet_db :: db_env where
  "quiet_db = \<lparr>io_clock = int, io_fault = \<lambda>_. None, io_choice = \<lambda>_. False, io_step = 0, fs_files = [],
     db_ReadOnly = False, db_Events = [], db_NextEventID = 1, db_Sequences = [], db_Checkpoints = [], db_Leases = []\<rparr>"

lemma quiet_db_ok: "log_inv quiet_db" "no_faults quiet_db" "\<not> db_ReadOnly quiet_db"
  by (auto simp: quiet_db_def log_inv_def no_faults_def scope_seqs_def next_sequence_def)

definition sample_event :: event where
  "sample_event = \<lparr>ev_ID = 0, ev_Sequence = 0, ev_UID = ''u1'', ev_Timestamp = 7, ev_Category = CategoryLifecycle,
     ev_Type = TypeLifecycleTransition, ev_CorrelationID = [], ev_CausalID = [], ev_Actor = ''system'',
     ev_ScopeID = ''s1'', ev_Payload = JNull, ev_Metadata = []\<rparr>"


lemma append_attempts_quiet:
  assumes "no_faults w"
    and ev1: "ev1 = ev\<lparr>ev_Sequence := next_sequence (ev_ScopeID ev) (db_Sequences w)\<rparr>"
    and uniq: "\<not> violates_unique ev1 (db_Events w)"
  shows "\<exists>w'. append_attempts n ev metadata w = (Inr (ev1\<lparr>ev_ID := db_NextEventID w\<rparr>), w') \<and>
    stepped (committed_append ev1 (advance_sequence (ev_ScopeID ev) (db_Sequences w)) metadata w) w'"
  using assms
  by (subst append_attempts.simps)
    (simp add: io_call_def no_faults_def append_finish_def Let_def committed_append_stepped)

lemma fresh_not_violating:
  assumes "log_inv w" and "find_event (ev_ScopeID ev) (ev_UID ev) (db_Events w) = None"
  shows "\<not> violates_unique (ev\<lparr>ev_Sequence := next_sequence (ev_ScopeID ev) (db_Sequences w)\<rparr>) (db_Events w)"
proof
  assume "violates_unique (ev\<lparr>ev_Sequence := next_sequence (ev_ScopeID ev) (db_Sequences w)\<rparr>) (db_Events w)"
  then obtain r where "r \<in> set (db_Events w)" "ev_ScopeID (er_Event r) = ev_ScopeID ev"
      "ev_Sequence (er_Event r) = next_sequence (ev_ScopeID ev) (db_Sequences w) \<or> ev_UID (er_Event r) = ev_UID ev"
    by (auto simp: violates_unique_def)
  then show False
    using log_inv_bounds(2) [OF assms(1)] assms(2) by (fastforce simp: find_event_def find_None_iff)
qed

lemma loadExistingEvent_quiet:
  assumes "no_faults w" and "ev_UID ev \<noteq> []" and "ev_ScopeID ev \<noteq> []"
  shows "loadExistingEvent ev w =
    (Inr (map_option (\<lambda>r. ev\<lparr>ev_ID := ev_ID (er_Event r), ev_Sequence := ev_Sequence (er_Event r)\<rparr>)
       (find_event (ev_ScopeID ev) (ev_UID ev) (db_Events w))), w\<lparr>io_step := Suc (io_step w)\<rparr>)"
  using assms by (simp add: loadExistingEvent_def io_call_ok split: option.split)

text \<open>Without failures an append to a scope succeeds, and afterwards the identity is in the log.\<close>

lemma repo_Append_quiet:
  assumes "log_inv w" "no_faults w" "\<not> db_ReadOnly w" "ev_ScopeID ev \<noteq> []"
  shows "\<exists>ev' w' row. repo_Append ev w = (Inr ev', w') \<and> no_faults w' \<and> \<not> db_ReadOnly w' \<and>
    find_event (ev_ScopeID ev) (ev_UID (with_uid ev)) (db_Events w') = Some row \<and>
    ev_ID ev' = ev_ID (er_Event row) \<and> ev_Sequence ev' = ev_Sequence (er_Event row) \<and>
    ev_Timestamp ev' = ev_Timestamp ev \<and> ev_UID ev' = ev_UID (with_uid ev)"
proof -
  let ?ev = "with_uid ev" and ?w1 = "w\<lparr>io_step := Suc (io_step w)\<rparr>"
  have stamp: "ev_Timestamp ?ev = ev_Timestamp ev" by (simp add: with_uid_def)
  have ld: "loadExistingEvent ?ev w = (Inr (map_option (\<lambda>r. ?ev\<lparr>ev_ID := ev_ID (er_Event r), ev_Sequence := ev_Sequence (er_Event r)\<rparr>)
       (find_event (ev_ScopeID ev) (ev_UID ?ev) (db_Events w))), ?w1)"
    using loadExistingEvent_quiet [OF assms(2), of ?ev] assms(4) by simp
  note ap = repo_Append_eq [OF assms(3)]
  show ?thesis
  proof (cases "find_event (ev_ScopeID ev) (ev_UID ?ev) (db_Events w)")
    case None
    let ?ev1 = "?ev\<lparr>ev_Sequence := next_sequence (ev_ScopeID ev) (db_Sequences w)\<rparr>"
    have uniq: "\<not> violates_unique ?ev1 (db_Events ?w1)"
      using fresh_not_violating [OF assms(1), of ?ev] None by simp
    obtain w' where "append_attempts 4 ?ev (json_of_metadata (ev_Metadata ?ev)) ?w1 = (Inr (?ev1\<lparr>ev_ID := db_NextEventID ?w1\<rparr>), w')"
        and st: "stepped (committed_append ?ev1 (advance_sequence (ev_ScopeID ev) (db_Sequences ?w1)) (json_of_metadata (ev_Metadata ?ev)) ?w1) w'"
      using append_attempts_quiet [of ?w1 ?ev1 ?ev] assms(2) uniq by auto
    then show ?thesis
      using ap ld None assms(2,3) stamp
        find_event_append_new [OF uniq, where i = "db_NextEventID w" and m = "[]" and j = "json_of_metadata (ev_Metadata ev)"]
      by (auto simp: stepped_def committed_append_def no_faults_def)
  next
    case (Some row)
    then show ?thesis using ap ld assms(2,3) stamp by simp
  qed
qed

text \<open>
  Appending is idempotent. When no call fails, appending an event to a named scope succeeds, and a
  second append of an event that differs only in its timestamp adds nothing to any log and returns the
  identifiers of the first.
\<close>

theorem append_idempotent:
  fixes w :: "'z db_env_scheme"
  assumes "log_inv w" "no_faults w" "\<not> db_ReadOnly w" "ev_ScopeID ev \<noteq> []"
  shows "\<exists>ev1 w1. repo_Append ev w = (Inr ev1, w1) \<and>
    (\<forall>t. \<exists>ev2 w2. repo_Append (ev\<lparr>ev_Timestamp := t\<rparr>) w1 = (Inr ev2, w2) \<and>
       ev_ID ev2 = ev_ID ev1 \<and> ev_Sequence ev2 = ev_Sequence ev1 \<and> db_Events w2 = db_Events w1)"
proof -
  obtain ev1 w1 row where ap: "repo_Append ev w = (Inr ev1, w1)" and ok: "no_faults w1" "\<not> db_ReadOnly w1"
      and row: "find_event (ev_ScopeID ev) (ev_UID (with_uid ev)) (db_Events w1) = Some row"
        "ev_ID ev1 = ev_ID (er_Event row)" "ev_Sequence ev1 = ev_Sequence (er_Event row)"
    using repo_Append_quiet [OF assms] by blast
  have "\<exists>ev2 w2. repo_Append (ev\<lparr>ev_Timestamp := t\<rparr>) w1 = (Inr ev2, w2) \<and>
       ev_ID ev2 = ev_ID ev1 \<and> ev_Sequence ev2 = ev_Sequence ev1 \<and> db_Events w2 = db_Events w1" for t
  proof -
    have same: "with_uid (ev\<lparr>ev_Timestamp := t\<rparr>) = (with_uid ev)\<lparr>ev_Timestamp := t\<rparr>"
      by (simp add: with_uid_def eventUID_def event_identity_def)
    then show ?thesis
      using ok row assms(4) loadExistingEvent_quiet [OF ok(1), of "with_uid (ev\<lparr>ev_Timestamp := t\<rparr>)"]
      by (simp add: repo_Append_eq)
  qed
  with ap show ?thesis by blast
qed

theorem append_idempotent_witness:
  "\<exists>ev1 w1. repo_Append sample_event quiet_db = (Inr ev1, w1) \<and>
    (\<forall>t. \<exists>ev2 w2. repo_Append (sample_event\<lparr>ev_Timestamp := t\<rparr>) w1 = (Inr ev2, w2) \<and>
       ev_ID ev2 = ev_ID ev1 \<and> ev_Sequence ev2 = ev_Sequence ev1 \<and> db_Events w2 = db_Events w1)"
  using append_idempotent [OF quiet_db_ok, of sample_event] by (simp add: sample_event_def)

end
