(* ===== verification/Reducer.thy ===== *)
theory Reducer
  imports Runtime_Events
begin

text \<open>
  \<open>internal/runtime/reducer/reducer.go\<close>: the pure functions that compute the next runtime state from
  a lifecycle transition and from an event of the log. Instants carry no time zone here, so \<open>UTC\<close> is
  the identity.
\<close>

record transition_input =
  ti_From :: runtime_status
  ti_To :: runtime_status
  ti_At :: go_time
  ti_EpochID :: string
  ti_FencingToken :: int
  ti_LeaseID :: string

text \<open>The four steps of \<open>ApplyLifecycleTransition\<close>, in the order of the source.\<close>

definition apply_status :: "transition_input \<Rightarrow> runtime_state \<Rightarrow> runtime_state" where
  "apply_status i s =
     s\<lparr>rs_Lifecycle := (rs_Lifecycle s)\<lparr>lc_Status := ti_To i, lc_LastUpdatedAt := ti_At i,
         lc_StartedAt := (if ti_From i = StatusIdle \<and> time_is_zero (lc_StartedAt (rs_Lifecycle s))
                          then ti_At i else lc_StartedAt (rs_Lifecycle s))\<rparr>\<rparr>"

definition apply_epoch :: "transition_input \<Rightarrow> runtime_state \<Rightarrow> runtime_state" where
  "apply_epoch i s =
     (if ti_EpochID i \<noteq> [] then
        s\<lparr>rs_CurrentEpoch := (rs_CurrentEpoch s)\<lparr>ep_ID := ti_EpochID i, ep_Generation := ti_FencingToken i,
            ep_CreatedAt := (if time_is_zero (ep_CreatedAt (rs_CurrentEpoch s)) then ti_At i
                             else ep_CreatedAt (rs_CurrentEpoch s))\<rparr>\<rparr>
      else s)"

definition apply_lease :: "transition_input \<Rightarrow> runtime_state \<Rightarrow> runtime_state" where
  "apply_lease i s =
     (if ti_LeaseID i \<noteq> [] then
        let l = \<lparr>ls_ID = ti_LeaseID i, ls_Owner = [], ls_Action = ''reconcile'', ls_EpochID = ti_EpochID i,
                 ls_ExpiresAt = 0, ls_CreatedAt = ti_At i, ls_FencingToken = ti_FencingToken i\<rparr>
        in if ti_To i = StatusRollingBack
           then s\<lparr>rs_ActiveRollbackLease := Some (l\<lparr>ls_Action := ''rollback''\<rparr>)\<rparr>
           else s\<lparr>rs_ActiveLease := Some l\<rparr>
      else s)"

definition apply_outcome :: "transition_input \<Rightarrow> runtime_state \<Rightarrow> runtime_state" where
  "apply_outcome i s =
     (if ti_To i = StatusIdle \<or> ti_To i = StatusConverged \<or> ti_To i = StatusFailed then
        s\<lparr>rs_ActiveLease := None, rs_ActiveRollbackLease := None, rs_ActiveRollbackID := []\<rparr>
      else if ti_To i = StatusRollingBack \<and> ti_EpochID i \<noteq> [] then
        s\<lparr>rs_ActiveRollbackID := ti_EpochID i\<rparr>
      else s)"

definition ApplyLifecycleTransition :: "runtime_state \<Rightarrow> transition_input \<Rightarrow> runtime_state" where
  "ApplyLifecycleTransition s i = apply_outcome i (apply_lease i (apply_epoch i (apply_status i s)))"

section \<open>Metadata\<close>

definition metadataString :: "metadata \<Rightarrow> string \<Rightarrow> string" where
  "metadataString m key = (case map_of m key of Some (AString s) \<Rightarrow> s | _ \<Rightarrow> [])"

definition metadataInt64 :: "metadata \<Rightarrow> string \<Rightarrow> int" where
  "metadataInt64 m key =
     (case map_of m key of
        Some (AInt64 v) \<Rightarrow> v
      | Some (AInt v) \<Rightarrow> v
      | Some (AFloat64 v) \<Rightarrow> int64_of_float64 v
      | Some (ANumber s) \<Rightarrow> (case ParseInt s of Some n \<Rightarrow> n | None \<Rightarrow> 0)
      | _ \<Rightarrow> 0)"

section \<open>Events\<close>

text \<open>The payload structs the reducer reads.\<close>

record lifecycle_payload =
  lp_From :: string
  lp_To :: string
  lp_Reason :: string

definition lifecycle_payload_of :: "json \<Rightarrow> lifecycle_payload result" where
  "lifecycle_payload_of j =
     bind_result (json_members j) (\<lambda>ms.
     bind_result (field_string ''from'' ms) (\<lambda>f.
     bind_result (field_string ''to'' ms) (\<lambda>t.
     bind_result (field_string ''reason'' ms) (\<lambda>r.
       Inr \<lparr>lp_From = f, lp_To = t, lp_Reason = r\<rparr>))))"

record lease_payload =
  ap_LeaseID :: string
  ap_Action :: string
  ap_EpochID :: string
  ap_Owner :: string
  ap_FencingToken :: int
  ap_ExpiresAt :: go_time

definition lease_payload_of :: "json \<Rightarrow> lease_payload result" where
  "lease_payload_of j =
     bind_result (json_members j) (\<lambda>ms.
     bind_result (field_string ''lease_id'' ms) (\<lambda>l.
     bind_result (field_string ''action'' ms) (\<lambda>a.
     bind_result (field_string ''epoch_id'' ms) (\<lambda>e.
     bind_result (field_string ''owner'' ms) (\<lambda>ow.
     bind_result (field_int64 ''fencing_token'' ms) (\<lambda>f.
     bind_result (field_time ''expires_at'' ms) (\<lambda>x.
       Inr \<lparr>ap_LeaseID = l, ap_Action = a, ap_EpochID = e, ap_Owner = ow, ap_FencingToken = f, ap_ExpiresAt = x\<rparr>)))))))"

record fencing_payload =
  fp_EpochID :: string
  fp_FencingToken :: int
  fp_Reason :: string

definition fencing_payload_of :: "json \<Rightarrow> fencing_payload result" where
  "fencing_payload_of j =
     bind_result (json_members j) (\<lambda>ms.
     bind_result (field_string ''epoch_id'' ms) (\<lambda>e.
     bind_result (field_int64 ''fencing_token'' ms) (\<lambda>f.
     bind_result (field_string ''reason'' ms) (\<lambda>r.
       Inr \<lparr>fp_EpochID = e, fp_FencingToken = f, fp_Reason = r\<rparr>))))"

record rollback_payload =
  rp_RollbackID :: string
  rp_Reason :: string
  rp_LineageID :: string

definition rollback_payload_of :: "json \<Rightarrow> rollback_payload result" where
  "rollback_payload_of j =
     bind_result (json_members j) (\<lambda>ms.
     bind_result (field_string ''rollback_id'' ms) (\<lambda>i.
     bind_result (field_string ''reason'' ms) (\<lambda>r.
     bind_result (field_string ''lineage_id'' ms) (\<lambda>l.
       Inr \<lparr>rp_RollbackID = i, rp_Reason = r, rp_LineageID = l\<rparr>))))"

definition ApplyEvent :: "runtime_state \<Rightarrow> event \<Rightarrow> runtime_state result" where
  "ApplyEvent s ev =
     (if ev_Type ev = TypeLifecycleTransition then
        bind_result (lifecycle_payload_of (ev_Payload ev)) (\<lambda>p.
          Inr (ApplyLifecycleTransition s
            \<lparr>ti_From = lp_From p, ti_To = lp_To p, ti_At = ev_Timestamp ev,
             ti_EpochID = metadataString (ev_Metadata ev) ''epoch_id'',
             ti_FencingToken = metadataInt64 (ev_Metadata ev) ''fencing_token'',
             ti_LeaseID = metadataString (ev_Metadata ev) ''lease_id''\<rparr>))
      else if ev_Type ev = TypeLeaseAcquired then
        bind_result (lease_payload_of (ev_Payload ev)) (\<lambda>p.
          let l = \<lparr>ls_ID = ap_LeaseID p, ls_Owner = ap_Owner p, ls_Action = ap_Action p, ls_EpochID = ap_EpochID p,
                   ls_ExpiresAt = ap_ExpiresAt p, ls_CreatedAt = ev_Timestamp ev, ls_FencingToken = ap_FencingToken p\<rparr>
          in if ap_Action p = ''rollback'' then
               let s1 = s\<lparr>rs_ActiveRollbackLease := Some l\<rparr>
               in Inr (if ap_EpochID p \<noteq> [] then s1\<lparr>rs_ActiveRollbackID := ap_EpochID p\<rparr> else s1)
             else Inr (s\<lparr>rs_ActiveLease := Some l\<rparr>))
      else if ev_Type ev = TypeFencingTokenIssued then
        bind_result (fencing_payload_of (ev_Payload ev)) (\<lambda>p.
          Inr (s\<lparr>rs_CurrentEpoch := (rs_CurrentEpoch s)\<lparr>ep_ID := fp_EpochID p, ep_Generation := fp_FencingToken p,
            ep_CreatedAt := (if time_is_zero (ep_CreatedAt (rs_CurrentEpoch s)) then ev_Timestamp ev
                             else ep_CreatedAt (rs_CurrentEpoch s))\<rparr>\<rparr>))
      else if ev_Type ev = TypeRollbackStarted then
        bind_result (rollback_payload_of (ev_Payload ev)) (\<lambda>p. Inr (s\<lparr>rs_ActiveRollbackID := rp_RollbackID p\<rparr>))
      else if ev_Type ev = TypeRollbackCompleted \<or> ev_Type ev = TypeRollbackFailed then
        Inr (s\<lparr>rs_ActiveRollbackID := [], rs_ActiveRollbackLease := None\<rparr>)
      else Inr s)"

section \<open>Facts about transitions\<close>

lemmas transition_defs =
  ApplyLifecycleTransition_def apply_status_def apply_epoch_def apply_lease_def apply_outcome_def

lemma transition_Status [simp]:
  "lc_Status (rs_Lifecycle (ApplyLifecycleTransition s i)) = ti_To i"
  "lc_LastUpdatedAt (rs_Lifecycle (ApplyLifecycleTransition s i)) = ti_At i"
  "lc_RetryCount (rs_Lifecycle (ApplyLifecycleTransition s i)) = lc_RetryCount (rs_Lifecycle s)"
  by (simp_all add: transition_defs Let_def)

lemma transition_frame [simp]:
  "rs_LastRunID (ApplyLifecycleTransition s i) = rs_LastRunID s"
  "rs_Cooldowns (ApplyLifecycleTransition s i) = rs_Cooldowns s"
  by (simp_all add: transition_defs Let_def)

lemma transition_ok:
  assumes "state_ok s" and "is_int64 (ti_FencingToken i)"
  shows "state_ok (ApplyLifecycleTransition s i)"
  using assms by (auto simp: state_ok_def transition_defs lease_ok_def Let_def)

text \<open>No lease is left behind by a transition to a resting status.\<close>

definition resting :: "runtime_status \<Rightarrow> bool" where
  "resting st \<longleftrightarrow> st = StatusIdle \<or> st = StatusConverged \<or> st = StatusFailed"

definition no_active_work :: "runtime_state \<Rightarrow> bool" where
  "no_active_work s \<longleftrightarrow> rs_ActiveLease s = None \<and> rs_ActiveRollbackLease s = None \<and> rs_ActiveRollbackID s = []"

lemma transition_resting: "resting (ti_To i) \<Longrightarrow> no_active_work (ApplyLifecycleTransition s i)"
  by (auto simp: transition_defs resting_def no_active_work_def Let_def)

lemma transition_not_resting:
  assumes "\<not> resting (ti_To i)" and "ti_LeaseID i \<noteq> []"
  shows "if ti_To i = StatusRollingBack
    then rs_ActiveRollbackLease (ApplyLifecycleTransition s i) =
           Some \<lparr>ls_ID = ti_LeaseID i, ls_Owner = [], ls_Action = ''rollback'', ls_EpochID = ti_EpochID i,
                 ls_ExpiresAt = 0, ls_CreatedAt = ti_At i, ls_FencingToken = ti_FencingToken i\<rparr>
    else rs_ActiveLease (ApplyLifecycleTransition s i) =
           Some \<lparr>ls_ID = ti_LeaseID i, ls_Owner = [], ls_Action = ''reconcile'', ls_EpochID = ti_EpochID i,
                 ls_ExpiresAt = 0, ls_CreatedAt = ti_At i, ls_FencingToken = ti_FencingToken i\<rparr>"
  using assms by (auto simp: transition_defs resting_def Let_def)

text \<open>Two states that differ in instants only. The event of a transition is stamped by the bus, a
  moment after the state machine read the clock, so replay reproduces states up to this.\<close>

definition untimed :: "runtime_state \<Rightarrow> runtime_state" where
  "untimed s = s\<lparr>
     rs_Lifecycle := (rs_Lifecycle s)\<lparr>lc_StartedAt := 0, lc_LastUpdatedAt := 0\<rparr>,
     rs_CurrentEpoch := (rs_CurrentEpoch s)\<lparr>ep_CreatedAt := 0\<rparr>,
     rs_ActiveLease := map_option (\<lambda>l. l\<lparr>ls_CreatedAt := 0\<rparr>) (rs_ActiveLease s),
     rs_ActiveRollbackLease := map_option (\<lambda>l. l\<lparr>ls_CreatedAt := 0\<rparr>) (rs_ActiveRollbackLease s)\<rparr>"

abbreviation untimed_input :: "transition_input \<Rightarrow> transition_input" where
  "untimed_input i \<equiv> i\<lparr>ti_From := [], ti_At := 0\<rparr>"

lemma untimed_apply_status: "untimed (apply_status i s) = untimed (apply_status (untimed_input i) (untimed s))"
  by (simp add: untimed_def apply_status_def option.map_comp o_def)

lemma untimed_apply_epoch: "untimed (apply_epoch i s) = untimed (apply_epoch (untimed_input i) (untimed s))"
  by (simp add: untimed_def apply_epoch_def option.map_comp o_def)

lemma untimed_apply_lease: "untimed (apply_lease i s) = untimed (apply_lease (untimed_input i) (untimed s))"
  by (cases s) (simp add: untimed_def apply_lease_def Let_def option.map_comp o_def)

lemma untimed_apply_outcome: "untimed (apply_outcome i s) = untimed (apply_outcome (untimed_input i) (untimed s))"
  by (cases s) (simp add: untimed_def apply_outcome_def option.map_comp o_def)

lemma transition_untimed:
  assumes "untimed s = untimed t" and "untimed_input i = untimed_input j"
  shows "untimed (ApplyLifecycleTransition s i) = untimed (ApplyLifecycleTransition t j)"
proof -
  have 1: "untimed (apply_status i s) = untimed (apply_status j t)"
    using assms untimed_apply_status [of i s] untimed_apply_status [of j t] by simp
  have 2: "untimed (apply_epoch i (apply_status i s)) = untimed (apply_epoch j (apply_status j t))"
    using 1 assms untimed_apply_epoch [of i] untimed_apply_epoch [of j] by simp
  have 3: "untimed (apply_lease i (apply_epoch i (apply_status i s))) =
      untimed (apply_lease j (apply_epoch j (apply_status j t)))"
    using 2 assms untimed_apply_lease [of i] untimed_apply_lease [of j] by simp
  show ?thesis
    using 3 assms untimed_apply_outcome [of i] untimed_apply_outcome [of j]
    by (simp add: ApplyLifecycleTransition_def)
qed

end
