(* ===== verification/Checkpoint.thy ===== *)
theory Checkpoint
  imports Event_Repository Reducer
begin

text \<open>
  \<open>internal/runtime/events/bus.go\<close> and \<open>internal/runtime/checkpoint/checkpoint.go\<close>: publishing events and
  saving checkpoints of the runtime state. Both work on interfaces in the source; the program hands
  the SQLite event repository to both (\<open>cmd/cf-sync/runtime.go\<close>), and so does the model. The repository's
  \<open>CompactRawArchive\<close> returns statistics beside the error, so it is not an
  \<open>events.RawArchiveCompactor\<close>, and the type assertion in \<open>compact\<close> fails: that branch is absent here.
\<close>

section \<open>The bus\<close>

type_synonym 'z subscriber = "event \<Rightarrow> 'z db_env_scheme \<Rightarrow> unit result \<times> 'z db_env_scheme"
type_synonym 'z subscribers = "category \<Rightarrow> 'z subscriber list"

definition bus_Subscribe :: "category \<Rightarrow> 'z subscriber \<Rightarrow> 'z subscribers \<Rightarrow> 'z subscribers" where
  "bus_Subscribe category sub subs = subs(category := subs category @ [sub])"

definition cloneMetadata :: "metadata \<Rightarrow> metadata" where
  "cloneMetadata m = m"

fun run_subscribers :: "'z subscriber list \<Rightarrow> event \<Rightarrow> 'z db_env_scheme \<Rightarrow> unit result \<times> 'z db_env_scheme" where
  "run_subscribers [] ev w = (Inr (), w)"
| "run_subscribers (sub # subs) ev w = and_try (sub ev w) (\<lambda>_ w1. run_subscribers subs ev w1)"

definition event_of_request :: "publish_request \<Rightarrow> event" where
  "event_of_request req =
     \<lparr>ev_ID = 0, ev_Sequence = 0, ev_UID = pr_UID req, ev_Timestamp = pr_Timestamp req,
      ev_Category = pr_Category req, ev_Type = pr_Type req, ev_CorrelationID = pr_CorrelationID req,
      ev_CausalID = pr_CausalID req, ev_Actor = (if pr_Actor req = [] then ''system'' else pr_Actor req),
      ev_ScopeID = pr_ScopeID req, ev_Payload = pr_Payload req, ev_Metadata = cloneMetadata (pr_Metadata req)\<rparr>"

definition bus_PublishEvent :: "'z subscribers \<Rightarrow> publish_request \<Rightarrow> 'z db_env_scheme \<Rightarrow> event result \<times> 'z db_env_scheme" where
  "bus_PublishEvent subs req w =
     (let op = ''runtime.events.Bus.PublishEvent'';
          ev = event_of_request req;
          (ev1, w1) = (if time_is_zero (ev_Timestamp ev)
                       then let (now, v) = time_Now w in (ev\<lparr>ev_Timestamp := now\<rparr>, v) else (ev, w))
      in and_then op (repo_Append ev1 w1) (\<lambda>ev2 w2.
         and_then op (run_subscribers (subs (ev_Category ev2)) ev2 w2) (\<lambda>_ w3. (Inr ev2, w3))))"

definition bus_Publish :: "'z subscribers \<Rightarrow> category \<Rightarrow> string \<Rightarrow> string \<Rightarrow> string \<Rightarrow> json \<Rightarrow> 'z db_env_scheme \<Rightarrow> unit result \<times> 'z db_env_scheme" where
  "bus_Publish subs category eventType scopeID correlationID payload w =
     (case bus_PublishEvent subs \<lparr>pr_UID = [], pr_Timestamp = 0, pr_Category = category, pr_Type = eventType,
         pr_CorrelationID = correlationID, pr_CausalID = [], pr_Actor = [], pr_ScopeID = scopeID,
         pr_Payload = payload, pr_Metadata = []\<rparr> w of
        (Inl e, w1) \<Rightarrow> (Inl e, w1) | (Inr _, w1) \<Rightarrow> (Inr (), w1))"

section \<open>The checkpoint manager\<close>

definition DefaultRuntimeCheckpointName :: string where
  "DefaultRuntimeCheckpointName = ''runtime-state''"

text \<open>The optional collaborators (sequence source, archive compactor) are there or not; both are the
  event repository.\<close>

record checkpoint_manager =
  cm_sequences :: bool
  cm_retention :: int
  cm_archive :: bool

definition checkpoint_NewManager :: "bool \<Rightarrow> int \<Rightarrow> bool \<Rightarrow> checkpoint_manager" where
  "checkpoint_NewManager sequences retention archive =
     \<lparr>cm_sequences = sequences, cm_retention = (if retention \<le> 0 then 10 else retention), cm_archive = archive\<rparr>"

definition canonicalTime :: "go_time \<Rightarrow> string" where
  "canonicalTime ts = (if time_is_zero ts then [] else RFC3339Nano ts)"

definition checksumFor :: "event_checkpoint \<Rightarrow> string" where
  "checksumFor cp = sha256_hex (checksum_text cp (canonicalTime (cp_CreatedAt cp)))"

definition ValidateCheckpoint :: "event_checkpoint \<Rightarrow> error option" where
  "ValidateCheckpoint cp =
     (if cp_Checksum cp \<noteq> checksumFor cp then
        Some (New ''runtime.checkpoint.ValidateCheckpoint''
          (''checkpoint checksum mismatch for '' @ cp_ScopeID cp @ ''/'' @ cp_Name cp @ '' at sequence '' @ show_nat (cp_Sequence cp)))
      else None)"

fun delete_checkpoints :: "string \<Rightarrow> string \<Rightarrow> event_checkpoint list \<Rightarrow> 'z db_env_scheme \<Rightarrow> unit result \<times> 'z db_env_scheme" where
  "delete_checkpoints scopeID name [] w = (Inr (), w)"
| "delete_checkpoints scopeID name (cp # cps) w =
     and_try (repo_DeleteCheckpoint scopeID name (cp_Sequence cp) w) (\<lambda>_ w1. delete_checkpoints scopeID name cps w1)"

fun first_error :: "(event_checkpoint \<Rightarrow> error option) \<Rightarrow> event_checkpoint list \<Rightarrow> error option" where
  "first_error f [] = None"
| "first_error f (cp # cps) = (case f cp of Some e \<Rightarrow> Some e | None \<Rightarrow> first_error f cps)"

definition checkpoint_compact :: "checkpoint_manager \<Rightarrow> string \<Rightarrow> string \<Rightarrow> 'z db_env_scheme \<Rightarrow> unit result \<times> 'z db_env_scheme" where
  "checkpoint_compact m scopeID name w =
     (if cm_retention m \<le> 0 then (Inr (), w)
      else and_try (repo_ListCheckpoints scopeID name 0 w) (\<lambda>cps w1.
        if int (length cps) \<le> cm_retention m then (Inr (), w1)
        else let retained = take (nat (cm_retention m)) cps in
          case first_error ValidateCheckpoint retained of
            Some e \<Rightarrow> (Inl e, w1)
          | None \<Rightarrow> delete_checkpoints scopeID name (drop (nat (cm_retention m)) cps) w1))"

text \<open>\<open>safeArchiveSequence\<close>: the oldest checkpoint that is still valid; checkpoints are listed from
  the newest.\<close>

definition safeArchiveSequence :: "string \<Rightarrow> string \<Rightarrow> 'z db_env_scheme \<Rightarrow> (nat \<times> bool) result \<times> 'z db_env_scheme" where
  "safeArchiveSequence scopeID name w =
     and_try (repo_ListCheckpoints scopeID name 0 w) (\<lambda>cps w1.
       (Inr (case find (\<lambda>cp. ValidateCheckpoint cp = None) (rev cps) of
          Some cp \<Rightarrow> (cp_Sequence cp, True) | None \<Rightarrow> (0, False)), w1))"

definition compactArchive :: "checkpoint_manager \<Rightarrow> string \<Rightarrow> string \<Rightarrow> 'z db_env_scheme \<Rightarrow> compaction_stats result \<times> 'z db_env_scheme" where
  "compactArchive m scopeID name w =
     (if \<not> cm_archive m then (Inr zero_stats, w)
      else and_try (safeArchiveSequence scopeID name w) (\<lambda>(safe, ok) w1.
        if \<not> ok \<or> safe = 0 then (Inr zero_stats, w1)
        else repo_CompactRawArchive scopeID name safe w1))"

definition checkpoint_of :: "string \<Rightarrow> string \<Rightarrow> string \<Rightarrow> event \<Rightarrow> runtime_state \<Rightarrow> nat \<Rightarrow> event_checkpoint" where
  "checkpoint_of name scopeID trigger ev st sq =
     (let cp = \<lparr>cp_Name = name, cp_ScopeID = scopeID, cp_Sequence = sq, cp_EventID = ev_ID ev, cp_Checksum = [],
                cp_State = Compact (json_of_state st),
                cp_Metadata = [(''trigger'', AString trigger), (''event_type'', AString (ev_Type ev)),
                  (''event_category'', AString (ev_Category ev)), (''correlation_id'', AString (ev_CorrelationID ev)),
                  (''lifecycle_status'', AString (lc_Status (rs_Lifecycle st))),
                  (''epoch_id'', AString (ep_ID (rs_CurrentEpoch st))),
                  (''fencing_token'', AInt64 (ep_Generation (rs_CurrentEpoch st)))],
                cp_SchemaVersion = SchemaVersion,
                cp_CreatedAt = (if time_is_zero (ev_Timestamp ev) then lc_LastUpdatedAt (rs_Lifecycle st) else ev_Timestamp ev)\<rparr>
      in cp\<lparr>cp_Checksum := checksumFor cp\<rparr>)"

definition SaveNamedRuntimeState :: "checkpoint_manager \<Rightarrow> string \<Rightarrow> string \<Rightarrow> string \<Rightarrow> event \<Rightarrow> runtime_state \<Rightarrow> 'z db_env_scheme \<Rightarrow> event_checkpoint result \<times> 'z db_env_scheme" where
  "SaveNamedRuntimeState m name scopeID trigger ev st w =
     (let op = ''runtime.checkpoint.Manager.SaveNamedRuntimeState'' in
      and_then op (if ev_Sequence ev = 0 \<and> cm_sequences m then repo_GetLastSequence scopeID w else (Inr (ev_Sequence ev), w)) (\<lambda>sq w1.
      let cp = checkpoint_of name scopeID trigger ev st sq in
      and_then op (repo_SaveCheckpoint cp w1) (\<lambda>_ w2.
      and_then op (checkpoint_compact m scopeID name w2) (\<lambda>_ w3.
      and_then op (compactArchive m scopeID name w3) (\<lambda>_ w4.
      (Inr cp, w4))))))"

definition SaveRuntimeState :: "checkpoint_manager \<Rightarrow> string \<Rightarrow> string \<Rightarrow> event \<Rightarrow> runtime_state \<Rightarrow> 'z db_env_scheme \<Rightarrow> event_checkpoint result \<times> 'z db_env_scheme" where
  "SaveRuntimeState m scopeID trigger ev st w =
     SaveNamedRuntimeState m DefaultRuntimeCheckpointName scopeID trigger ev st w"

definition LatestNamedRuntimeState :: "string \<Rightarrow> string \<Rightarrow> 'z db_env_scheme \<Rightarrow> (runtime_state \<times> event_checkpoint) result \<times> 'z db_env_scheme" where
  "LatestNamedRuntimeState scopeID name w =
     (let op = ''runtime.checkpoint.Manager.LatestNamedRuntimeState'' in
      and_try (repo_LatestCheckpoint scopeID name w) (\<lambda>cp w1.
        case ValidateCheckpoint cp of
          Some e \<Rightarrow> (Inl (wrap_err op e), w1)
        | None \<Rightarrow> (case raw_tree (cp_State cp) of
              None \<Rightarrow> (Inl (wrap_err op (Plain ''invalid character in JSON text'')), w1)
            | Some j \<Rightarrow> (case state_of_json j of
                  Inl e \<Rightarrow> (Inl (wrap_err op e), w1)
                | Inr st \<Rightarrow> (Inr (st, cp), w1)))))"

definition LatestRuntimeState :: "string \<Rightarrow> 'z db_env_scheme \<Rightarrow> (runtime_state \<times> event_checkpoint) result \<times> 'z db_env_scheme" where
  "LatestRuntimeState scopeID w = LatestNamedRuntimeState scopeID DefaultRuntimeCheckpointName w"

fun delete_beyond :: "nat \<Rightarrow> string \<Rightarrow> string \<Rightarrow> event_checkpoint list \<Rightarrow> 'z db_env_scheme \<Rightarrow> unit result \<times> 'z db_env_scheme" where
  "delete_beyond lastSequence scopeID name [] w = (Inr (), w)"
| "delete_beyond lastSequence scopeID name (cp # cps) w =
     (if cp_Sequence cp > lastSequence then
        and_then ''runtime.checkpoint.Manager.InvalidateStale'' (repo_DeleteCheckpoint scopeID name (cp_Sequence cp) w)
          (\<lambda>_ w1. delete_beyond lastSequence scopeID name cps w1)
      else delete_beyond lastSequence scopeID name cps w)"

definition InvalidateStale :: "checkpoint_manager \<Rightarrow> string \<Rightarrow> string \<Rightarrow> 'z db_env_scheme \<Rightarrow> unit result \<times> 'z db_env_scheme" where
  "InvalidateStale m scopeID name w =
     (let op = ''runtime.checkpoint.Manager.InvalidateStale'' in
      if \<not> cm_sequences m then (Inr (), w)
      else and_then op (repo_GetLastSequence scopeID w) (\<lambda>lastSequence w1.
           and_then op (repo_ListCheckpoints scopeID name 0 w1) (\<lambda>cps w2.
             delete_beyond lastSequence scopeID name cps w2)))"

section \<open>The checkpoint table\<close>

definition newer_than_all :: "string \<Rightarrow> string \<Rightarrow> nat \<Rightarrow> checkpoint_row list \<Rightarrow> bool" where
  "newer_than_all scopeID name sq rows \<longleftrightarrow>
     (\<forall>r \<in> set rows. cp_ScopeID (cr_Checkpoint r) = scopeID \<and> cp_Name (cr_Checkpoint r) = name \<longrightarrow> cp_Sequence (cr_Checkpoint r) < sq)"

lemma checkpoint_rows_filter:
  "checkpoint_rows scopeID name (filter P rows) = filter P (checkpoint_rows scopeID name rows)"
  by (simp add: checkpoint_rows_def rev_filter [symmetric] filter_sort conj_commute)

lemma checkpoint_rows_snoc:
  assumes "newer_than_all scopeID name (cp_Sequence (cr_Checkpoint r)) rows"
    and "cp_ScopeID (cr_Checkpoint r) = scopeID" "cp_Name (cr_Checkpoint r) = name"
  shows "checkpoint_rows scopeID name (rows @ [r]) = r # checkpoint_rows scopeID name rows"
proof -
  have "\<forall>y \<in> set (filter (\<lambda>r. cp_ScopeID (cr_Checkpoint r) = scopeID \<and> cp_Name (cr_Checkpoint r) = name) rows).
      cp_Sequence (cr_Checkpoint y) \<le> cp_Sequence (cr_Checkpoint r)"
    using assms(1) by (auto simp: newer_than_all_def intro: less_imp_le)
  from sort_key_snoc [OF this] show ?thesis using assms(2,3) by (simp add: checkpoint_rows_def)
qed

lemma read_checkpoints_sequences:
  "read_checkpoints op rows = Inr cps \<Longrightarrow> map cp_Sequence cps = map (\<lambda>r. cp_Sequence (cr_Checkpoint r)) rows"
  by (induction rows arbitrary: cps)
    (auto simp: bind_result_Inr_iff read_checkpoint_def split: sum.splits)

lemma repo_ListCheckpoints_Inr:
  assumes "repo_ListCheckpoints scopeID name 0 w = (Inr cps, w')"
  shows "stepped w w'"
    and "map cp_Sequence cps = map (\<lambda>r. cp_Sequence (cr_Checkpoint r)) (checkpoint_rows scopeID name (db_Checkpoints w))"
proof -
  show "stepped w w'" using assms by (auto simp: repo_ListCheckpoints_def and_then_Inr_iff Let_def)
  then show "map cp_Sequence cps = map (\<lambda>r. cp_Sequence (cr_Checkpoint r)) (checkpoint_rows scopeID name (db_Checkpoints w))"
    using assms read_checkpoints_sequences
    by (auto simp: repo_ListCheckpoints_def and_then_Inr_iff Let_def stepped_def io_call_def split: option.splits)
qed

lemma repo_DeleteCheckpoint_Inr:
  assumes "repo_DeleteCheckpoint scopeID name sq w = (Inr (), w')"
  shows "stepped (w\<lparr>db_Checkpoints := filter (\<lambda>r. \<not> same_checkpoint name scopeID sq r) (db_Checkpoints w)\<rparr>) w'"
  using assms
  by (cases "db_ReadOnly w")
    (auto simp: repo_DeleteCheckpoint_def writable_simps and_then_Inr_iff Let_def stepped_def io_call_def
      intro!: exI [of _ "Suc (io_step w)"] split: option.splits)

lemma delete_checkpoints_Inr:
  assumes "delete_checkpoints scopeID name cps w = (Inr (), w')"
  shows "\<exists>P. db_Checkpoints w' = filter P (db_Checkpoints w) \<and>
    (\<forall>r. P r \<longleftrightarrow> \<not> (\<exists>cp \<in> set cps. same_checkpoint name scopeID (cp_Sequence cp) r)) \<and> no_faults w' = no_faults w"
  using assms
proof (induction cps arbitrary: w)
  case Nil
  then show ?case by (intro exI [of _ "\<lambda>_. True"]) simp
next
  case (Cons cp cps)
  then obtain w1 where d: "repo_DeleteCheckpoint scopeID name (cp_Sequence cp) w = (Inr (), w1)"
      and rest: "delete_checkpoints scopeID name cps w1 = (Inr (), w')"
    by (auto simp: and_try_Inr_iff)
  obtain P where P: "db_Checkpoints w' = filter P (db_Checkpoints w1)"
      "\<forall>r. P r \<longleftrightarrow> \<not> (\<exists>cp \<in> set cps. same_checkpoint name scopeID (cp_Sequence cp) r)" "no_faults w' = no_faults w1"
    using Cons.IH [OF rest] by blast
  have "db_Checkpoints w1 = filter (\<lambda>r. \<not> same_checkpoint name scopeID (cp_Sequence cp) r) (db_Checkpoints w)"
      "no_faults w1 = no_faults w"
    using repo_DeleteCheckpoint_Inr [OF d] by (auto simp: stepped_def no_faults_def)
  then show ?case using P
    by (intro exI [of _ "\<lambda>r. P r \<and> \<not> same_checkpoint name scopeID (cp_Sequence cp) r"]) (auto simp: conj_commute)
qed

lemma repo_CompactRawArchive_frame:
  assumes "repo_CompactRawArchive scopeID name q w = (r, w')"
  shows "db_Checkpoints w' = db_Checkpoints w" and "no_faults w' = no_faults w" and "db_Sequences w' = db_Sequences w"
  using assms
  by (auto simp: repo_CompactRawArchive_def writable_def Let_def and_then_def hasCheckpointBoundary_def countEvents_def
      countEventsThrough_def io_call_def no_faults_def split: option.splits sum.splits prod.splits if_splits)

lemma repo_ListCheckpoints_stepped: "repo_ListCheckpoints scopeID name n w = (r, w') \<Longrightarrow> stepped w w'"
  by (auto simp: repo_ListCheckpoints_def and_then_def Let_def io_call_def split: option.splits)

lemma compactArchive_frame:
  assumes "compactArchive m scopeID name w = (r, w')"
  shows "db_Checkpoints w' = db_Checkpoints w" and "no_faults w' = no_faults w" and "db_Sequences w' = db_Sequences w"
proof -
  obtain r1 w1 where l: "repo_ListCheckpoints scopeID name 0 w = (r1, w1)" by (cases "repo_ListCheckpoints scopeID name 0 w")
  have "db_Checkpoints w1 = db_Checkpoints w" "no_faults w1 = no_faults w" "db_Sequences w1 = db_Sequences w"
    using repo_ListCheckpoints_stepped [OF l] by (auto simp: stepped_def)
  then show "db_Checkpoints w' = db_Checkpoints w" "no_faults w' = no_faults w" "db_Sequences w' = db_Sequences w"
    using assms l repo_CompactRawArchive_frame [of scopeID name _ w1 r w']
    by (auto simp: compactArchive_def safeArchiveSequence_def and_try_def split: if_splits sum.splits option.splits)
qed

text \<open>What compaction does to the logs.\<close>

lemma repo_CompactRawArchive_log:
  assumes "repo_CompactRawArchive scopeID name q w = (r, w')" and "log_inv w"
  shows "log_inv w' \<and> (\<forall>s. s \<noteq> scopeID \<longrightarrow> repo_log w' s = repo_log w s) \<and>
    (repo_log w' scopeID = repo_log w scopeID \<or> repo_log w' scopeID = filter (\<lambda>ev. q < ev_Sequence ev) (repo_log w scopeID))"
proof -
  let ?v = "w\<lparr>db_Events := filter (\<lambda>r. \<not> covered scopeID q r) (db_Events w)\<rparr>"
  have "stepped w w' \<or> stepped ?v w'"
    using assms(1) stepped_refl [of w'] unfolding stepped_def
    by (auto simp: repo_CompactRawArchive_def writable_def Let_def and_then_def hasCheckpointBoundary_def countEvents_def
      countEventsThrough_def io_call_def split: option.splits sum.splits prod.splits if_splits)
  then show ?thesis
    using assms(2) log_inv_compact [OF assms(2), of scopeID q] repo_log_compact [where w = w and t = scopeID and q = q]
    by (auto simp: log_inv_step repo_log_step)
qed

section \<open>Saving and loading\<close>

lemma reread_checkpoint:
  assumes "\<forall>v \<in> snd ` set (cp_Metadata cp). any_small v"
  shows "\<exists>m. read_checkpoint op \<lparr>cr_Checkpoint = cp\<lparr>cp_Metadata := []\<rparr>, cr_Metadata = json_of_metadata (cp_Metadata cp)\<rparr> =
      Inr (cp\<lparr>cp_Metadata := m\<rparr>) \<and> checksum_text (cp\<lparr>cp_Metadata := m\<rparr>) = checksum_text cp"
proof -
  obtain m where m: "metadata_of_json (json_of_metadata (cp_Metadata cp)) = Inr m"
      "json_of_metadata m = json_of_metadata (cp_Metadata cp)"
    using json_of_metadata_reread [OF assms] by blast
  have "m = [] \<longleftrightarrow> cp_Metadata cp = []"
    using m(2) by (auto simp: json_of_metadata_def split: if_splits)
  then have "checksum_text (cp\<lparr>cp_Metadata := m\<rparr>) = checksum_text cp"
    using m(2) by (intro ext) (simp add: checksum_text_def del: json_text.simps split: option.split)
  then show ?thesis using m(1) by (auto simp: read_checkpoint_def)
qed

text \<open>A checkpoint that the manager builds passes both validations, also after it was stored and read
  again, as long as its fencing token has at most 53 bits.\<close>

lemma checkpoint_of_valid:
  assumes "cp = checkpoint_of name scopeID trigger ev st sq" and "checksum_text (cp\<lparr>cp_Metadata := m\<rparr>) = checksum_text cp"
  shows "ValidateCheckpoint (cp\<lparr>cp_Metadata := m\<rparr>) = None"
    and "sq > 0 \<Longrightarrow> ev_ID ev > 0 \<Longrightarrow> cp_CreatedAt cp \<noteq> 0 \<Longrightarrow>
      validateReplayCheckpoint scopeID name (cp\<lparr>cp_Metadata := m\<rparr>) = None"
proof -
  have ck: "cp_Checksum cp = checksumFor cp"
    by (simp add: assms(1) checkpoint_of_def Let_def checksumFor_def checksum_text_def split: option.split)
  then show "ValidateCheckpoint (cp\<lparr>cp_Metadata := m\<rparr>) = None"
    using assms(2) by (simp add: ValidateCheckpoint_def checksumFor_def)
  assume "sq > 0" "ev_ID ev > 0" and nz: "cp_CreatedAt cp \<noteq> 0"
  moreover have "checkpointReplayChecksum (cp\<lparr>cp_Metadata := m\<rparr>) = cp_Checksum cp"
    using ck nz assms(2) by (simp add: checkpointReplayChecksum_def checksumFor_def canonicalTime_def time_is_zero_def)
  ultimately show "validateReplayCheckpoint scopeID name (cp\<lparr>cp_Metadata := m\<rparr>) = None"
    using nz by (auto simp: validateReplayCheckpoint_def assms(1) checkpoint_of_def Let_def time_is_zero_def)
qed

lemma checkpoint_of_small:
  "\<bar>ep_Generation (rs_CurrentEpoch st)\<bar> \<le> 2 ^ 53 \<Longrightarrow>
   \<forall>v \<in> snd ` set (cp_Metadata (checkpoint_of name scopeID trigger ev st sq)). any_small v"
  by (simp add: checkpoint_of_def Let_def)

lemma checkpoint_of_simps [simp]:
  "cp_Name (checkpoint_of name scopeID trigger ev st sq) = name"
  "cp_ScopeID (checkpoint_of name scopeID trigger ev st sq) = scopeID"
  "cp_Sequence (checkpoint_of name scopeID trigger ev st sq) = sq"
  "cp_State (checkpoint_of name scopeID trigger ev st sq) = Compact (json_of_state st)"
  "cp_SchemaVersion (checkpoint_of name scopeID trigger ev st sq) = 1"
  "cp_EventID (checkpoint_of name scopeID trigger ev st sq) = ev_ID ev"
  by (simp_all add: checkpoint_of_def Let_def SchemaVersion_def)

text \<open>Saving a new newest checkpoint puts its row first among those of its name and scope, and the
  retention and archive steps leave it there.\<close>

lemma SaveNamed_first_row:
  assumes save: "SaveNamedRuntimeState m name scopeID trigger ev st w = (Inr cp, w')"
    and new: "newer_than_all scopeID name (ev_Sequence ev) (db_Checkpoints w)" and sq: "ev_Sequence ev > 0"
    and created: "cp_CreatedAt cp \<noteq> 0" and ret: "cm_retention m > 0"
  shows "cp = checkpoint_of name scopeID trigger ev st (ev_Sequence ev) \<and>
    (\<exists>rows. checkpoint_rows scopeID name (db_Checkpoints w') =
       \<lparr>cr_Checkpoint = cp\<lparr>cp_Metadata := []\<rparr>, cr_Metadata = json_of_metadata (cp_Metadata cp)\<rparr> # rows) \<and>
    no_faults w' = no_faults w"
proof -
  let ?cp = "checkpoint_of name scopeID trigger ev st (ev_Sequence ev)"
  let ?row = "\<lparr>cr_Checkpoint = ?cp\<lparr>cp_Metadata := []\<rparr>, cr_Metadata = json_of_metadata (cp_Metadata ?cp)\<rparr>"
  obtain w2 w3 stats where cp: "cp = ?cp" and s2: "repo_SaveCheckpoint ?cp w = (Inr (), w2)"
      and s3: "checkpoint_compact m scopeID name w2 = (Inr (), w3)" and s4: "compactArchive m scopeID name w3 = (Inr stats, w')"
    using save sq by (auto simp: SaveNamedRuntimeState_def Let_def and_then_Inr_iff)
  have "\<not> (\<exists>r \<in> set (db_Checkpoints w). same_checkpoint name scopeID (ev_Sequence ev) r)"
    using new by (auto simp: newer_than_all_def same_checkpoint_def)
  then have w2: "db_Checkpoints w2 = db_Checkpoints w @ [?row]" "no_faults w2 = no_faults w"
    using s2 created cp
    by (cases "db_ReadOnly w"; auto simp: repo_SaveCheckpoint_def writable_simps Let_def and_then_Inr_iff io_call_def
        time_is_zero_def no_faults_def split: option.splits)+
  have rows2: "checkpoint_rows scopeID name (db_Checkpoints w2) = ?row # checkpoint_rows scopeID name (db_Checkpoints w)"
    unfolding w2(1) by (rule checkpoint_rows_snoc) (use new in simp_all)
  have "\<exists>rows. checkpoint_rows scopeID name (db_Checkpoints w3) = ?row # rows \<and> no_faults w3 = no_faults w2"
  proof -
    obtain cps v where l: "repo_ListCheckpoints scopeID name 0 w2 = (Inr cps, v)"
      using s3 ret by (auto simp: checkpoint_compact_def and_try_Inr_iff)
    have v: "db_Checkpoints v = db_Checkpoints w2" "no_faults v = no_faults w2"
      using repo_ListCheckpoints_Inr(1) [OF l] by (auto simp: stepped_def)
    show ?thesis
    proof (cases "int (length cps) \<le> cm_retention m")
      case True
      then show ?thesis using s3 l ret rows2 v by (auto simp: checkpoint_compact_def)
    next
      case False
      let ?old = "drop (nat (cm_retention m)) cps"
      have "delete_checkpoints scopeID name ?old v = (Inr (), w3)"
        using s3 l ret False by (auto simp: checkpoint_compact_def Let_def split: option.splits)
      from delete_checkpoints_Inr [OF this] obtain P where P: "db_Checkpoints w3 = filter P (db_Checkpoints v)"
          "\<forall>r. P r \<longleftrightarrow> \<not> (\<exists>cp \<in> set ?old. same_checkpoint name scopeID (cp_Sequence cp) r)" "no_faults w3 = no_faults v"
        by blast
      have seqs: "map cp_Sequence cps = ev_Sequence ev # map (\<lambda>r. cp_Sequence (cr_Checkpoint r)) (checkpoint_rows scopeID name (db_Checkpoints w))"
        using repo_ListCheckpoints_Inr(2) [OF l] rows2 by simp
      then obtain c cs where cps: "cps = c # cs" "map cp_Sequence cs = map (\<lambda>r. cp_Sequence (cr_Checkpoint r)) (checkpoint_rows scopeID name (db_Checkpoints w))"
        by auto
      have old: "cp_Sequence x < ev_Sequence ev" if "x \<in> set ?old" for x
      proof -
        have "x \<in> set cs" using that cps(1) ret by (cases "nat (cm_retention m)") (auto dest: in_set_dropD)
        then have "cp_Sequence x \<in> set (map (\<lambda>r. cp_Sequence (cr_Checkpoint r)) (checkpoint_rows scopeID name (db_Checkpoints w)))"
          unfolding cps(2) [symmetric] by simp
        then show ?thesis using new by (auto simp: newer_than_all_def checkpoint_rows_def)
      qed
      have "\<not> (\<exists>cp \<in> set ?old. same_checkpoint name scopeID (cp_Sequence cp) ?row)"
        using old by (fastforce simp: same_checkpoint_def)
      then have "P ?row" using P(2) by blast
      then show ?thesis using P v rows2 by (simp add: checkpoint_rows_filter)
    qed
  qed
  then show ?thesis using compactArchive_frame [OF s4] w2(2) cp by auto
qed

section \<open>Properties\<close>

text \<open>
  A runtime state survives being checkpointed. When \<open>SaveNamedRuntimeState\<close> reports success for an
  event newer than every checkpoint of that name and scope, then, whatever it compacted on the way,
  \<open>LatestNamedRuntimeState\<close> returns exactly the saved state, and the stored checkpoint also passes the
  stricter validation that replay applies before it restores one. The fencing token must have at most
  53 bits, because the metadata is read back through \<open>float64\<close>.
\<close>

theorem checkpoint_roundtrip:
  fixes w :: "'z db_env_scheme"
  assumes save: "SaveNamedRuntimeState m name scopeID trigger ev st w = (Inr cp, w')"
    and "newer_than_all scopeID name (ev_Sequence ev) (db_Checkpoints w)" and "ev_Sequence ev > 0" and "ev_ID ev > 0"
    and "cp_CreatedAt cp \<noteq> 0" and "cm_retention m > 0" and "no_faults w" and "state_ok st"
    and "\<bar>ep_Generation (rs_CurrentEpoch st)\<bar> \<le> 2 ^ 53"
  shows "\<exists>cp'. fst (LatestNamedRuntimeState scopeID name w') = Inr (st, cp') \<and>
    cp_Sequence cp' = ev_Sequence ev \<and> validateReplayCheckpoint scopeID name cp' = None"
proof -
  have cp: "cp = checkpoint_of name scopeID trigger ev st (ev_Sequence ev)" and quiet: "no_faults w'"
    using SaveNamed_first_row [OF save assms(2,3,5,6)] assms(7) by auto
  obtain rows where rows: "checkpoint_rows scopeID name (db_Checkpoints w') =
      \<lparr>cr_Checkpoint = cp\<lparr>cp_Metadata := []\<rparr>, cr_Metadata = json_of_metadata (cp_Metadata cp)\<rparr> # rows"
    using SaveNamed_first_row [OF save assms(2,3,5,6)] by auto
  obtain md where md: "read_checkpoint ''storage.sqlite.EventRepository.LatestCheckpoint''
      \<lparr>cr_Checkpoint = cp\<lparr>cp_Metadata := []\<rparr>, cr_Metadata = json_of_metadata (cp_Metadata cp)\<rparr> = Inr (cp\<lparr>cp_Metadata := md\<rparr>)"
      "checksum_text (cp\<lparr>cp_Metadata := md\<rparr>) = checksum_text cp"
    using reread_checkpoint [OF checkpoint_of_small [OF assms(9)]] cp by blast
  note valid = checkpoint_of_valid [OF cp md(2)]
  have "fst (LatestNamedRuntimeState scopeID name w') = Inr (st, cp\<lparr>cp_Metadata := md\<rparr>)"
    using quiet rows md(1) valid(1) assms(8) cp
    by (simp add: LatestNamedRuntimeState_def repo_LatestCheckpoint_def io_call_ok Let_def state_roundtrip)
  then show ?thesis using valid(2) [OF assms(3,4,5)] cp by auto
qed

definition sample_saved :: "event_checkpoint result \<times> db_env" where
  "sample_saved = SaveNamedRuntimeState (checkpoint_NewManager True 10 False) ''runtime-state'' ''s1'' ''t''
     (sample_event\<lparr>ev_ID := 1, ev_Sequence := 1\<rparr>) zero_state quiet_db"

lemma sample_saved_eq:
  "sample_saved = (Inr (checkpoint_of ''runtime-state'' ''s1'' ''t'' (sample_event\<lparr>ev_ID := 1, ev_Sequence := 1\<rparr>) zero_state 1),
     snd sample_saved)"
proof -
  let ?cp = "checkpoint_of ''runtime-state'' ''s1'' ''t'' (sample_event\<lparr>ev_ID := 1, ev_Sequence := 1\<rparr>) zero_state 1"
  let ?row = "\<lparr>cr_Checkpoint = ?cp\<lparr>cp_Metadata := []\<rparr>, cr_Metadata = json_of_metadata (cp_Metadata ?cp)\<rparr>"
  have small: "\<forall>v \<in> snd ` set (cp_Metadata ?cp). any_small v"
    by (rule checkpoint_of_small) (simp add: zero_state_def zero_epoch_def)
  have created: "cp_CreatedAt ?cp = 7" by (simp add: checkpoint_of_def Let_def sample_event_def time_is_zero_def)
  obtain md where md: "read_checkpoint ''storage.sqlite.EventRepository.ListCheckpoints'' ?row = Inr (?cp\<lparr>cp_Metadata := md\<rparr>)"
    using reread_checkpoint [OF small] by blast
  have rows: "checkpoint_rows ''s1'' ''runtime-state'' [?row] = [?row]" by (simp add: checkpoint_rows_def)
  have "fst sample_saved = Inr ?cp"
    unfolding sample_saved_def SaveNamedRuntimeState_def
    by (simp add: Let_def checkpoint_NewManager_def sample_event_def [THEN arg_cong, of ev_Sequence]
        repo_SaveCheckpoint_def writable_simps io_call_def quiet_db_def created time_is_zero_def
        checkpoint_compact_def repo_ListCheckpoints_def rows md compactArchive_def del: One_nat_def)
  then show ?thesis by (simp add: prod_eq_iff)
qed

theorem checkpoint_roundtrip_witness:
  "\<exists>cp'. fst (LatestNamedRuntimeState ''s1'' ''runtime-state'' (snd sample_saved)) = Inr (zero_state, cp') \<and>
    cp_Sequence cp' = 1 \<and> validateReplayCheckpoint ''s1'' ''runtime-state'' cp' = None"
proof -
  let ?ev = "sample_event\<lparr>ev_ID := 1, ev_Sequence := 1\<rparr>"
  have "\<exists>cp'. fst (LatestNamedRuntimeState ''s1'' ''runtime-state'' (snd sample_saved)) = Inr (zero_state, cp') \<and>
      cp_Sequence cp' = ev_Sequence ?ev \<and> validateReplayCheckpoint ''s1'' ''runtime-state'' cp' = None"
  proof (rule checkpoint_roundtrip)
    show "SaveNamedRuntimeState (checkpoint_NewManager True 10 False) ''runtime-state'' ''s1'' ''t'' ?ev zero_state quiet_db =
        (Inr (checkpoint_of ''runtime-state'' ''s1'' ''t'' ?ev zero_state 1), snd sample_saved)"
      using sample_saved_eq by (simp add: sample_saved_def)
    show "cp_CreatedAt (checkpoint_of ''runtime-state'' ''s1'' ''t'' ?ev zero_state 1) \<noteq> 0"
      by (simp add: checkpoint_of_def Let_def sample_event_def time_is_zero_def)
    show "state_ok zero_state" by (rule zero_state_ok)
  qed (simp_all add: newer_than_all_def quiet_db_ok checkpoint_NewManager_def zero_state_def
      zero_epoch_def quiet_db_def [THEN arg_cong, of db_Checkpoints])
  then show ?thesis by simp
qed

lemma repo_LatestCheckpoint_stepped: "repo_LatestCheckpoint scopeID name w = (r, w') \<Longrightarrow> stepped w w'"
  by (auto simp: repo_LatestCheckpoint_def and_then_def Let_def io_call_def split: option.splits list.splits)

lemma split_log:
  assumes "map ev_Sequence evs = [lo ..< hi]"
  shows "filter (\<lambda>ev. ev_Sequence ev \<le> q) evs @ filter (\<lambda>ev. q < ev_Sequence ev) evs = evs"
  using assms
proof (induction evs arbitrary: lo)
  case (Cons ev evs)
  have ev: "ev_Sequence ev = lo" and rest: "map ev_Sequence evs = [Suc lo ..< hi]"
    using Cons.prems [symmetric] by (auto simp: upt_eq_Cons_conv)
  show ?case
  proof (cases "lo \<le> q")
    case False
    have "\<forall>e \<in> set evs. q < ev_Sequence e"
      using False rest by (metis (no_types, lifting) atLeastLessThan_iff image_eqI set_map set_upt not_le Suc_le_lessD less_trans)
    then show ?thesis using False ev by (auto simp: filter_empty_conv not_le)
  qed (use Cons.IH [OF rest] ev in simp)
qed simp


text \<open>A store with one event and a checkpoint after it, and a replayer that counts events.\<close>

definition first_event :: event where
  "first_event = sample_event\<lparr>ev_ID := 1, ev_Sequence := 1\<rparr>"

definition first_checkpoint :: event_checkpoint where
  "first_checkpoint = checkpoint_of ''runtime-state'' ''s1'' ''t'' first_event zero_state 1"

definition stored_db :: db_env where
  "stored_db = quiet_db\<lparr>db_Events := [\<lparr>er_Event = first_event, er_Metadata = JNull\<rparr>], db_NextEventID := 2,
     db_Sequences := [(''s1'', 2)],
     db_Checkpoints := [\<lparr>cr_Checkpoint = first_checkpoint\<lparr>cp_Metadata := []\<rparr>, cr_Metadata = json_of_metadata (cp_Metadata first_checkpoint)\<rparr>]\<rparr>"

lemma stored_db_log: "repo_log stored_db ''s1'' = [first_event]"
  by (simp add: repo_log_def scope_rows_def stored_db_def read_event_def first_event_def sample_event_def metadata_of_json_def)

lemma stored_db_ok: "log_inv stored_db" "no_faults stored_db"
proof -
  have "scope_seqs s (db_Events stored_db) = (if s = ''s1'' then [1] else [])" for s
    by (simp add: scope_seqs_def stored_db_def first_event_def sample_event_def)
  moreover have "next_sequence s (db_Sequences stored_db) = (if s = ''s1'' then 2 else 1)" for s
    by (simp add: next_sequence_def stored_db_def)
  moreover have "{Suc 0 ..< 2} = {Suc 0}" by auto
  ultimately show "log_inv stored_db"
    unfolding log_inv_def
    by (auto simp: stored_db_def readable_def metadata_of_json_def first_event_def sample_event_def)
  show "no_faults stored_db" by (simp add: stored_db_def quiet_db_def no_faults_def)
qed


end
