(* ===== verification/State_Store.thy ===== *)
theory State_Store
  imports Runtime_Models
begin

text \<open>
  \<open>internal/runtime/state/state.go\<close>: the runtime state on disk, one file for the whole runtime and
  one per scope. Names are those of the files in the store's directory. The mutex makes every
  method atomic. A write that fails leaves the temporary file truncated; encoding a state to JSON
  does not fail.
\<close>

definition global_file :: string where
  "global_file = ''runtime_state.json''"

definition scopedStateFile :: "string \<Rightarrow> string" where
  "scopedStateFile scopeID = ''runtime_state_'' @ scopeID @ ''.json''"

definition tmp_of :: "string \<Rightarrow> string" where
  "tmp_of path = path @ ''.tmp''"

text \<open>The common tail of \<open>Save\<close> and \<open>SaveForScope\<close>: write beside the file, then rename over it.\<close>

definition replace_file :: "string \<Rightarrow> string \<Rightarrow> runtime_state \<Rightarrow> 'z dir_env_scheme \<Rightarrow> unit result \<times> 'z dir_env_scheme" where
  "replace_file op path st w =
     (let data = json_of_state st; tmp = tmp_of path in
      case io_call w of (Inl e, w1) \<Rightarrow> (Inl (wrap_err op e), w1)
      | (Inr _, w1) \<Rightarrow>
      (case io_call w1 of (Inl e, w2) \<Rightarrow>
         (Inl (wrap_err op e), w2\<lparr>fs_files := file_put tmp (File_bytes []) (fs_files w2)\<rparr>)
       | (Inr _, w2) \<Rightarrow>
       (let w3 = w2\<lparr>fs_files := file_put tmp (File_json data) (fs_files w2)\<rparr> in
        case io_call w3 of (Inl e, w4) \<Rightarrow> (Inl (wrap_err op e), w4)
        | (Inr _, w4) \<Rightarrow> (Inr (), w4\<lparr>fs_files := file_rename tmp path (fs_files w4)\<rparr>))))"

definition store_Save :: "runtime_state \<Rightarrow> 'z dir_env_scheme \<Rightarrow> unit result \<times> 'z dir_env_scheme" where
  "store_Save st w = replace_file ''runtime.state.Save'' global_file st w"

definition store_SaveForScope :: "string \<Rightarrow> runtime_state \<Rightarrow> 'z dir_env_scheme \<Rightarrow> unit result \<times> 'z dir_env_scheme" where
  "store_SaveForScope scopeID st w =
     (if scopeID = [] then store_Save st w
      else replace_file ''runtime.state.SaveForScope'' (scopedStateFile scopeID) st w)"

text \<open>The decoding that the three loading functions share.\<close>

definition decode_file :: "string \<Rightarrow> file_data \<Rightarrow> runtime_state result" where
  "decode_file op d =
     (case d of File_bytes _ \<Rightarrow> Inl (wrap_err op (Plain ''invalid character in JSON text''))
      | File_json j \<Rightarrow> (case state_of_json j of Inl e \<Rightarrow> Inl (wrap_err op e) | Inr st \<Rightarrow> Inr st))"

definition load_global :: "string \<Rightarrow> 'z dir_env_scheme \<Rightarrow> runtime_state result \<times> 'z dir_env_scheme" where
  "load_global op w =
     and_then op (io_call w) (\<lambda>_ w1.
       case file_get global_file (fs_files w1) of
         None \<Rightarrow> (Inr zero_state, w1)
       | Some d \<Rightarrow> (decode_file op d, w1))"

definition store_Load :: "'z dir_env_scheme \<Rightarrow> runtime_state result \<times> 'z dir_env_scheme" where
  "store_Load w = load_global ''runtime.state.Load'' w"

definition loadGlobalUnlocked :: "'z dir_env_scheme \<Rightarrow> runtime_state result \<times> 'z dir_env_scheme" where
  "loadGlobalUnlocked w = load_global ''runtime.state.loadGlobalUnlocked'' w"

definition store_LoadForScope :: "string \<Rightarrow> 'z dir_env_scheme \<Rightarrow> runtime_state result \<times> 'z dir_env_scheme" where
  "store_LoadForScope scopeID w =
     (let op = ''runtime.state.LoadForScope'' in
      if scopeID = [] then store_Load w
      else and_then op (io_call w) (\<lambda>_ w1.
        case file_get (scopedStateFile scopeID) (fs_files w1) of
          None \<Rightarrow> loadGlobalUnlocked w1
        | Some d \<Rightarrow> (decode_file op d, w1)))"

text \<open>\<open>ListScopes\<close>: the loop over the directory, with the set of the names seen so far.\<close>

fun list_scopes :: "string list \<Rightarrow> string list \<Rightarrow> string list" where
  "list_scopes seen [] = []"
| "list_scopes seen (name # names) =
     (if \<not> HasPrefix name ''runtime_state_'' \<or> \<not> HasSuffix name ''.json'' then list_scopes seen names
      else let scopeID = TrimSuffix (TrimPrefix name ''runtime_state_'') ''.json'' in
        if scopeID = [] then list_scopes seen names
        else if scopeID \<in> set seen then list_scopes seen names
        else scopeID # list_scopes (scopeID # seen) names)"

definition store_ListScopes :: "'z dir_env_scheme \<Rightarrow> string list result \<times> 'z dir_env_scheme" where
  "store_ListScopes w =
     and_then ''runtime.state.ListScopes'' (io_call w) (\<lambda>_ w1.
       (Inr (list_scopes [] (file_names (fs_files w1))), w1))"

section \<open>Names\<close>

lemma scoped_names [simp]:
  "scopedStateFile a = scopedStateFile b \<longleftrightarrow> a = b"
  "scopedStateFile a \<noteq> global_file"
  "global_file \<noteq> scopedStateFile a"
  by (simp_all add: scopedStateFile_def global_file_def)

lemma last_app_neq: "x \<noteq> y \<Longrightarrow> s @ [x] \<noteq> t @ [y]"
  by simp

lemma tmp_names [simp]:
  "tmp_of p \<noteq> global_file" "global_file \<noteq> tmp_of p"
  "tmp_of p \<noteq> scopedStateFile a" "scopedStateFile a \<noteq> tmp_of p"
proof -
  have *: "last (tmp_of p) = CHR ''p''" by (simp add: tmp_of_def)
  have "last global_file = CHR ''n''" by (simp add: global_file_def)
  with * show "tmp_of p \<noteq> global_file" "global_file \<noteq> tmp_of p" by auto
  have "last (scopedStateFile a) = CHR ''n''" by (simp add: scopedStateFile_def)
  with * show "tmp_of p \<noteq> scopedStateFile a" "scopedStateFile a \<noteq> tmp_of p" by auto
qed

lemma tmp_of_neq [simp]: "tmp_of p \<noteq> p" "p \<noteq> tmp_of p"
  by (simp_all add: tmp_of_def)

section \<open>Saving is atomic\<close>

text \<open>What saving does to the files whose names are not temporary ones: on success the file holds
  the new state, on failure nothing changed.\<close>

lemma replace_file_get:
  assumes "name \<noteq> tmp_of path" and "replace_file op path st w = (r, w')"
  shows "file_get name (fs_files w') =
    (if r = Inr () \<and> name = path then Some (File_json (json_of_state st)) else file_get name (fs_files w))"
  using assms
  by (auto simp: replace_file_def Let_def io_call_def file_get_rename split: option.splits sum.splits prod.splits)

lemma replace_file_frame [go_frame]:
  assumes "replace_file op path st w = (r, w')"
  shows "io_fault w' = io_fault w" "io_clock w' = io_clock w" "io_choice w' = io_choice w"
    "dir_env.more w' = dir_env.more w"
  using assms by (auto simp: replace_file_def Let_def io_call_def split: option.splits sum.splits prod.splits)

lemma replace_file_ok:
  assumes "no_faults w"
  shows "\<exists>w'. replace_file op path st w = (Inr (), w')"
  using assms by (simp add: replace_file_def Let_def io_call_def no_faults_def)

lemma decode_saved: "state_ok st \<Longrightarrow> decode_file op (File_json (json_of_state st)) = Inr st"
  by (simp add: decode_file_def state_roundtrip)

text \<open>The state that a fault-free \<open>Load\<close> would return.\<close>

definition stored_state :: "'z dir_env_scheme \<Rightarrow> runtime_state result" where
  "stored_state w = (case file_get global_file (fs_files w) of None \<Rightarrow> Inr zero_state
     | Some d \<Rightarrow> decode_file ''runtime.state.Load'' d)"

lemma store_Load_cases:
  obtains "store_Load w = (stored_state w, w\<lparr>io_step := Suc (io_step w)\<rparr>)"
    | e where "store_Load w = (Inl (wrap_err ''runtime.state.Load'' e), w\<lparr>io_step := Suc (io_step w)\<rparr>)"
        and "\<not> no_faults w"
  by (cases w rule: io_call_cases)
    (auto simp: store_Load_def load_global_def stored_state_def split: option.splits)

lemma store_Load_ok:
  "no_faults w \<Longrightarrow> store_Load w = (stored_state w, w\<lparr>io_step := Suc (io_step w)\<rparr>)"
  by (cases w rule: store_Load_cases) auto

lemma store_Save_stored:
  assumes "store_Save st w = (r, w')" and "state_ok st"
  shows "stored_state w' = (if r = Inr () then Inr st else stored_state w)"
  using replace_file_get [OF _ assms(1) [unfolded store_Save_def], of global_file] assms(2)
  by (simp add: stored_state_def decode_saved)

lemma store_Save_frame [go_frame]:
  assumes "store_Save st w = (r, w')"
  shows "io_fault w' = io_fault w" "io_clock w' = io_clock w" "io_choice w' = io_choice w"
    "dir_env.more w' = dir_env.more w"
  using replace_file_frame [OF assms [unfolded store_Save_def]] by auto

lemma store_Save_ok: "no_faults w \<Longrightarrow> \<exists>w'. store_Save st w = (Inr (), w')"
  by (simp add: store_Save_def replace_file_ok)

section \<open>Scopes\<close>

definition scoped_state :: "string \<Rightarrow> 'z dir_env_scheme \<Rightarrow> runtime_state result" where
  "scoped_state scopeID w = (case file_get (scopedStateFile scopeID) (fs_files w) of
       Some d \<Rightarrow> decode_file ''runtime.state.LoadForScope'' d
     | None \<Rightarrow> (case file_get global_file (fs_files w) of None \<Rightarrow> Inr zero_state
        | Some d \<Rightarrow> decode_file ''runtime.state.loadGlobalUnlocked'' d))"

lemma store_LoadForScope_ok:
  assumes "no_faults w" and "scopeID \<noteq> []"
  shows "fst (store_LoadForScope scopeID w) = scoped_state scopeID w"
  using assms
  by (simp add: store_LoadForScope_def loadGlobalUnlocked_def load_global_def io_call_ok scoped_state_def
      split: option.splits)

lemma scoped_name_iff:
  "HasPrefix n ''runtime_state_'' \<and> HasSuffix n ''.json'' \<longleftrightarrow> (\<exists>s. n = scopedStateFile s)"
proof
  assume "HasPrefix n ''runtime_state_'' \<and> HasSuffix n ''.json''"
  then have "\<exists>u. n = ''runtime_state_'' @ u @ CHR ''.'' # ''json''"
    unfolding HasPrefix_def HasSuffix_def by (intro prefix_suffix_split) auto
  then show "\<exists>s. n = scopedStateFile s" by (auto simp: scopedStateFile_def)
qed (auto simp: HasPrefix_def HasSuffix_def scopedStateFile_def suffix_def)

lemma Trim_scoped: "TrimSuffix (TrimPrefix (scopedStateFile s) ''runtime_state_'') ''.json'' = s"
  by (simp only: scopedStateFile_def Trim_append)

lemma list_scopes_set:
  "set (list_scopes seen names) = {s. s \<noteq> [] \<and> s \<notin> set seen \<and> scopedStateFile s \<in> set names}"
proof (induction names arbitrary: seen)
  case (Cons n ns)
  show ?case
  proof (cases "\<exists>s. n = scopedStateFile s")
    case True
    then obtain s where n: "n = scopedStateFile s" ..
    then have "HasPrefix n ''runtime_state_''" "HasSuffix n ''.json''" using scoped_name_iff by blast+
    then show ?thesis using Cons [of seen] Cons [of "s # seen"] n by (auto simp: Trim_scoped Let_def)
  next
    case False
    then have "\<not> HasPrefix n ''runtime_state_'' \<or> \<not> HasSuffix n ''.json''" using scoped_name_iff by blast
    with False show ?thesis using Cons [of seen] by auto
  qed
qed simp

lemma list_scopes_distinct: "distinct (list_scopes seen names)"
  by (induction seen names rule: list_scopes.induct) (simp_all add: Let_def list_scopes_set)

section \<open>Properties\<close>

text \<open>
  C28: saving the runtime state is atomic. Whatever calls into the file system fail, a \<open>Save\<close> that
  reports success makes the next load return exactly the saved state, and a \<open>Save\<close> that reports an
  error leaves the state that a load returns as it was; the files of the scopes are not touched.
\<close>

theorem store_save_atomic:
  fixes w :: "'z dir_env_scheme"
  assumes "state_ok st" and "store_Save st w = (r, w')" and "no_faults w''" and "fs_files w'' = fs_files w'"
  shows "fst (store_Load w'') = (if r = Inr () then Inr st else stored_state w) \<and>
         (\<forall>s. file_get (scopedStateFile s) (fs_files w') = file_get (scopedStateFile s) (fs_files w))"
proof -
  have "stored_state w'' = stored_state w'" using assms(4) by (simp add: stored_state_def)
  then have "fst (store_Load w'') = (if r = Inr () then Inr st else stored_state w)"
    using store_Load_ok [OF assms(3)] store_Save_stored [OF assms(2,1)] by simp
  moreover have "file_get (scopedStateFile s) (fs_files w') = file_get (scopedStateFile s) (fs_files w)" for s
    using replace_file_get [OF _ assms(2) [unfolded store_Save_def], of "scopedStateFile s"] by simp
  ultimately show ?thesis by simp
qed

definition quiet_dir :: dir_env where
  "quiet_dir = \<lparr>io_clock = \<lambda>_. 0, io_fault = \<lambda>_. None, io_choice = \<lambda>_. False, io_step = 0, fs_files = []\<rparr>"

definition full_disk :: dir_env where
  "full_disk = quiet_dir\<lparr>io_fault := \<lambda>n. if n = 1 then Some (Plain ''no space left on device'') else None\<rparr>"

theorem store_save_atomic_witness:
  "fst (store_Save zero_state full_disk) =
     Inl (wrap_err ''runtime.state.Save'' (Plain ''no space left on device'')) \<and>
   fst (store_Load ((snd (store_Save zero_state full_disk))\<lparr>io_fault := \<lambda>_. None\<rparr>)) = stored_state full_disk"
proof -
  have eq: "store_Save zero_state full_disk =
      (Inl (wrap_err ''runtime.state.Save'' (Plain ''no space left on device'')),
       snd (store_Save zero_state full_disk))"
    by (simp add: store_Save_def replace_file_def full_disk_def quiet_dir_def io_call_def)
  show ?thesis
    using store_save_atomic [OF zero_state_ok eq, of "(snd (store_Save zero_state full_disk))\<lparr>io_fault := \<lambda>_. None\<rparr>"]
      arg_cong [OF eq, of fst] by (simp add: no_faults_def)
qed

text \<open>
  The states of different scopes are independent. A successful \<open>SaveForScope\<close> makes
  \<open>LoadForScope\<close> of that scope return the saved state and \<open>ListScopes\<close> report the scope, while
  every other scope and the global state read as before.
\<close>

theorem store_scopes_independent:
  fixes w :: "'z dir_env_scheme"
  assumes "state_ok st" and "a \<noteq> []" and "store_SaveForScope a st w = (Inr (), w')"
    and "no_faults w'' " and "fs_files w'' = fs_files w'"
  shows "fst (store_LoadForScope a w'') = Inr st \<and>
         (\<exists>ss. fst (store_ListScopes w'') = Inr ss \<and> a \<in> set ss \<and> distinct ss) \<and>
         stored_state w'' = stored_state w \<and>
         (\<forall>b. b \<noteq> a \<longrightarrow> scoped_state b w'' = scoped_state b w)"
proof -
  have get: "file_get name (fs_files w'') =
      (if name = scopedStateFile a then Some (File_json (json_of_state st)) else file_get name (fs_files w))"
    if "name \<noteq> tmp_of (scopedStateFile a)" for name
    using replace_file_get [OF that, of _ st w "Inr ()" w'] assms(2,3,5)
    by (simp add: store_SaveForScope_def)
  have "scopedStateFile a \<in> set (map fst (fs_files w''))"
    using get [of "scopedStateFile a"] by (force simp: file_get_def dest: map_of_SomeD)
  then have "a \<in> set (list_scopes [] (file_names (fs_files w'')))"
    using assms(2) by (simp add: list_scopes_set file_names_def)
  then have "\<exists>ss. fst (store_ListScopes w'') = Inr ss \<and> a \<in> set ss \<and> distinct ss"
    using assms(4) by (simp add: store_ListScopes_def io_call_ok list_scopes_distinct)
  moreover have "fst (store_LoadForScope a w'') = Inr st"
    using store_LoadForScope_ok [OF assms(4,2)] get [of "scopedStateFile a"] assms(1)
    by (simp add: scoped_state_def decode_saved)
  moreover have g: "file_get global_file (fs_files w'') = file_get global_file (fs_files w)"
    using get [of global_file] by simp
  moreover have "scoped_state b w'' = scoped_state b w" if "b \<noteq> a" for b
    using get [of "scopedStateFile b"] that g by (simp add: scoped_state_def split: option.split)
  ultimately show ?thesis by (simp add: stored_state_def)
qed

theorem store_scopes_independent_witness:
  "fst (store_LoadForScope ''s1'' (snd (store_SaveForScope ''s1'' zero_state quiet_dir))) = Inr zero_state \<and>
   scoped_state ''s2'' (snd (store_SaveForScope ''s1'' zero_state quiet_dir)) = scoped_state ''s2'' quiet_dir"
proof -
  have quiet: "no_faults quiet_dir" by (simp add: no_faults_def quiet_dir_def)
  then obtain w' where eq: "store_SaveForScope ''s1'' zero_state quiet_dir = (Inr (), w')"
    using replace_file_ok [OF quiet, of _ "scopedStateFile ''s1''" zero_state]
    unfolding store_SaveForScope_def by (metis list.distinct(1))
  have "no_faults w'"
    using replace_file_frame(1) [of _ _ zero_state quiet_dir "Inr ()" w'] eq quiet
    by (auto simp: store_SaveForScope_def no_faults_def)
  from store_scopes_independent [OF zero_state_ok _ eq this] show ?thesis by (simp add: eq)
qed

end
