(* ===== verification/Lifecycle.thy ===== *)
theory Lifecycle
  imports Checkpoint State_Store Runtime_Scope
begin

text \<open>
  \<open>internal/runtime/engine/state_machine.go\<close>: the state machine of the runtime. A transition loads the
  stored state, checks the table of allowed moves, applies the reducer, saves the state, publishes an
  event and saves checkpoints. The bus and the checkpoint manager are optional. A context that is not
  a \<open>RuntimeContext\<close> is the zero one.
\<close>

section \<open>The context of a run\<close>

record tenant_budget =
  tb_TenantID :: string
  tb_MaxConcurrentWorkers :: int
  tb_MaxMutationsPerRun :: int
  tb_MaxRollbacksPerHour :: int

record runtime_context =
  rc_Scope :: runtime_scope
  rc_LeaseID :: string
  rc_EpochID :: string
  rc_FencingToken :: int
  rc_TraceID :: string
  rc_Budget :: tenant_budget

definition zero_scope :: runtime_scope where
  "zero_scope = \<lparr>sc_Tenant = [], sc_AccountID = [], sc_ZoneID = [], sc_Environment = []\<rparr>"

definition zero_budget :: tenant_budget where
  "zero_budget = \<lparr>tb_TenantID = [], tb_MaxConcurrentWorkers = 0, tb_MaxMutationsPerRun = 0, tb_MaxRollbacksPerHour = 0\<rparr>"

definition zero_context :: runtime_context where
  "zero_context = \<lparr>rc_Scope = zero_scope, rc_LeaseID = [], rc_EpochID = [], rc_FencingToken = 0, rc_TraceID = [],
     rc_Budget = zero_budget\<rparr>"

section \<open>The table of transitions\<close>

definition allowed_targets :: "(runtime_status \<times> runtime_status list) list" where
  "allowed_targets =
     [(StatusIdle, [StatusDiscovering, StatusQuarantined]),
      (StatusDiscovering, [StatusPlanning, StatusQuarantined, StatusFailed]),
      (StatusPlanning, [StatusAwaitingApproval, StatusExecuting, StatusQuarantined, StatusFailed]),
      (StatusAwaitingApproval, [StatusExecuting, StatusIdle, StatusQuarantined, StatusFailed]),
      (StatusExecuting, [StatusValidating, StatusRollbackRequired, StatusQuarantined, StatusFailed]),
      (StatusValidating, [StatusConverged, StatusRollbackRequired, StatusQuarantined, StatusFailed]),
      (StatusConverged, [StatusIdle, StatusDiscovering, StatusQuarantined]),
      (StatusRollbackRequired, [StatusRollingBack, StatusFailed]),
      (StatusRollingBack, [StatusIdle, StatusQuarantined, StatusFailed]),
      (StatusFailed, [StatusIdle, StatusDiscovering, StatusQuarantined]),
      (StatusQuarantined, [StatusIdle, StatusDiscovering]),
      (StatusPaused, [StatusIdle, StatusDiscovering, StatusQuarantined])]"

definition isTransitionAllowed :: "runtime_status \<Rightarrow> runtime_status \<Rightarrow> bool" where
  "isTransitionAllowed from_st to_st =
     (case map_of allowed_targets from_st of
        None \<Rightarrow> False
      | Some targets \<Rightarrow>
          if to_st = StatusPaused then from_st = StatusIdle \<or> from_st = StatusConverged \<or> from_st = StatusFailed
          else to_st \<in> set targets)"

section \<open>A transition\<close>

record 'z state_machine =
  sm_eventBus :: "'z subscribers option"
  sm_checkpoints :: "checkpoint_manager option"

definition transition_op :: string where
  "transition_op = ''runtime.engine.Transition''"

definition current_status :: "runtime_state \<Rightarrow> runtime_status" where
  "current_status st = (if lc_Status (rs_Lifecycle st) = [] then StatusIdle else lc_Status (rs_Lifecycle st))"

definition transition_scope :: "runtime_context \<Rightarrow> string" where
  "transition_scope ctx = (if scope_ID (rc_Scope ctx) \<noteq> [] then scope_ID (rc_Scope ctx) else ''default'')"

definition transition_request :: "runtime_context \<Rightarrow> runtime_state \<Rightarrow> runtime_status \<Rightarrow> runtime_status \<Rightarrow> string \<Rightarrow> publish_request" where
  "transition_request ctx st from_st to_st reason =
     NewLifecycleTransition
       \<lparr>ec_ScopeID = transition_scope ctx,
        ec_CorrelationID = (if rc_TraceID ctx \<noteq> [] then rc_TraceID ctx else rs_LastRunID st),
        ec_CausalID = [], ec_Actor = ''runtime-state-machine'',
        ec_Metadata = [(''reason'', AString reason), (''epoch_id'', AString (rc_EpochID ctx)),
          (''fencing_token'', AInt64 (rc_FencingToken ctx)), (''lease_id'', AString (rc_LeaseID ctx)),
          (''trace_id'', AString (rc_TraceID ctx))]\<rparr>
       from_st to_st reason"

definition input_of_context :: "runtime_context \<Rightarrow> runtime_status \<Rightarrow> runtime_status \<Rightarrow> go_time \<Rightarrow> transition_input" where
  "input_of_context ctx from_st to_st now =
     \<lparr>ti_From = from_st, ti_To = to_st, ti_At = now, ti_EpochID = rc_EpochID ctx,
      ti_FencingToken = rc_FencingToken ctx, ti_LeaseID = rc_LeaseID ctx\<rparr>"

text \<open>The checkpoints after the event was published.\<close>

definition transition_checkpoints :: "checkpoint_manager \<Rightarrow> string \<Rightarrow> runtime_status \<Rightarrow> runtime_status \<Rightarrow> event \<Rightarrow> runtime_state \<Rightarrow> 'z db_env_scheme \<Rightarrow> unit result \<times> 'z db_env_scheme" where
  "transition_checkpoints cm scopeID from_st to_st ev st w =
     (let trigger = ''transition:'' @ to_st in
      and_then transition_op (SaveRuntimeState cm scopeID trigger ev st w) (\<lambda>_ w1.
      and_then transition_op
        (if to_st = StatusRollingBack then SaveNamedRuntimeState cm ''rollback-before'' scopeID trigger ev st w1
         else if to_st = StatusConverged then SaveNamedRuntimeState cm ''post-convergence'' scopeID trigger ev st w1
         else (Inr (checkpoint_of [] [] [] ev st 0), w1)) (\<lambda>_ w2.
      and_then transition_op
        (if from_st = StatusRollingBack \<and> to_st = StatusIdle
         then SaveNamedRuntimeState cm ''rollback-after'' scopeID ''transition:rollback_after'' ev st w2
         else (Inr (checkpoint_of [] [] [] ev st 0), w2)) (\<lambda>_ w3. (Inr (), w3)))))"

definition Transition :: "'z state_machine \<Rightarrow> runtime_context \<Rightarrow> runtime_status \<Rightarrow> string \<Rightarrow> 'z db_env_scheme \<Rightarrow> unit result \<times> 'z db_env_scheme" where
  "Transition sm ctx to_st reason w =
     and_then transition_op (store_Load w) (\<lambda>cur w1.
     let from_st = current_status cur in
     if \<not> isTransitionAllowed from_st to_st
     then (Inl (New transition_op (''invalid transition from '' @ from_st @ '' to '' @ to_st)), w1)
     else let (now, w2) = time_Now w1;
              st = ApplyLifecycleTransition cur (input_of_context ctx from_st to_st now)
          in and_then transition_op (store_Save st w2) (\<lambda>_ w3.
             case sm_eventBus sm of None \<Rightarrow> (Inr (), w3)
             | Some subs \<Rightarrow>
                 and_then transition_op (bus_PublishEvent subs (transition_request ctx st from_st to_st reason) w3) (\<lambda>ev w4.
                 case sm_checkpoints sm of None \<Rightarrow> (Inr (), w4)
                 | Some cm \<Rightarrow> transition_checkpoints cm (transition_scope ctx) from_st to_st ev st w4)))"

section \<open>The table\<close>

lemma allowed_sources:
  "isTransitionAllowed x y \<Longrightarrow> x \<in> set all_statuses \<and> y \<in> set all_statuses"
  by (auto simp: isTransitionAllowed_def allowed_targets_def all_statuses_def split: if_splits)

lemma allowed_into:
  "isTransitionAllowed x StatusConverged \<longleftrightarrow> x = StatusValidating"
  "isTransitionAllowed x StatusValidating \<longleftrightarrow> x = StatusExecuting"
  "isTransitionAllowed x StatusExecuting \<longleftrightarrow> x = StatusPlanning \<or> x = StatusAwaitingApproval"
  "isTransitionAllowed x StatusAwaitingApproval \<longleftrightarrow> x = StatusPlanning"
  "isTransitionAllowed x StatusPlanning \<longleftrightarrow> x = StatusDiscovering"
  "isTransitionAllowed x StatusRollingBack \<longleftrightarrow> x = StatusRollbackRequired"
  "isTransitionAllowed x StatusRollbackRequired \<longleftrightarrow> x = StatusExecuting \<or> x = StatusValidating"
  by (auto simp: isTransitionAllowed_def allowed_targets_def status_defs)

lemma allowed_from:
  "isTransitionAllowed StatusDiscovering y \<longleftrightarrow> y = StatusPlanning \<or> y = StatusQuarantined \<or> y = StatusFailed"
  "isTransitionAllowed StatusPlanning y \<longleftrightarrow>
     y = StatusAwaitingApproval \<or> y = StatusExecuting \<or> y = StatusQuarantined \<or> y = StatusFailed"
  "isTransitionAllowed StatusRollbackRequired y \<longleftrightarrow> y = StatusRollingBack \<or> y = StatusFailed"
  by (auto simp: isTransitionAllowed_def allowed_targets_def status_defs)

lemma quarantine_from:
  "isTransitionAllowed x StatusQuarantined \<longleftrightarrow>
     x \<in> set all_statuses \<and> x \<noteq> StatusRollbackRequired \<and> x \<noteq> StatusQuarantined"
  by (auto simp: isTransitionAllowed_def allowed_targets_def all_statuses_def status_defs)

text \<open>Sequences of statuses that the table allows.\<close>

fun allowed_path :: "runtime_status list \<Rightarrow> bool" where
  "allowed_path [] = True"
| "allowed_path [x] = True"
| "allowed_path (x # y # zs) = (isTransitionAllowed x y \<and> allowed_path (y # zs))"

lemma allowed_path_append:
  "allowed_path (xs @ ys) \<Longrightarrow> allowed_path xs"
  "allowed_path (xs @ ys) \<Longrightarrow> xs \<noteq> [] \<Longrightarrow> ys \<noteq> [] \<Longrightarrow> isTransitionAllowed (last xs) (hd ys)"
proof (induction xs rule: allowed_path.induct)
  case (2 x) { case 1 then show ?case by simp next case 2 then show ?case by (cases ys) auto }
qed simp_all

text \<open>Going back one step on a path that starts idle.\<close>

lemma path_back:
  assumes "allowed_path (xs @ [y])" and "hd (xs @ [y]) = StatusIdle" and "y \<noteq> StatusIdle"
  obtains zs x where "xs = zs @ [x]" and "isTransitionAllowed x y" and "allowed_path (zs @ [x])"
    and "hd (zs @ [x]) = StatusIdle"
proof -
  have "xs \<noteq> []" using assms(2,3) by auto
  then obtain zs x where xs: "xs = zs @ [x]" by (metis append_butlast_last_id)
  moreover have "hd (zs @ [x]) = StatusIdle" using assms(2) xs by (cases zs) auto
  ultimately show thesis using that assms allowed_path_append [of xs "[y]"] \<open>xs \<noteq> []\<close> by auto
qed

lemma subseq_snoc: "subseq xs ys \<Longrightarrow> subseq (xs @ [a]) (ys @ [a])"
  by (rule list_emb_append_mono) auto

lemma subseq_snoc_right: "subseq xs ys \<Longrightarrow> subseq xs (ys @ [a])"
  by (rule list_emb_prefix)

abbreviation path_to :: "runtime_status list \<Rightarrow> runtime_status \<Rightarrow> bool" where
  "path_to xs y \<equiv> allowed_path (xs @ [y]) \<and> hd (xs @ [y]) = StatusIdle"

lemma path_to_planning: "path_to xs StatusPlanning \<Longrightarrow> subseq [StatusDiscovering, StatusPlanning] (xs @ [StatusPlanning])"
proof (elim conjE)
  assume "allowed_path (xs @ [StatusPlanning])" "hd (xs @ [StatusPlanning]) = StatusIdle"
  then obtain zs x where "xs = zs @ [x]" "isTransitionAllowed x StatusPlanning"
    by (rule path_back) (auto simp: status_defs)
  then have "subseq [StatusDiscovering] xs" using subseq_snoc [of "[]" zs] by (simp add: allowed_into)
  from subseq_snoc [OF this] show ?thesis by simp
qed

lemma path_to_executing:
  "path_to xs StatusExecuting \<Longrightarrow> subseq [StatusDiscovering, StatusPlanning, StatusExecuting] (xs @ [StatusExecuting])"
proof (elim conjE)
  assume "allowed_path (xs @ [StatusExecuting])" "hd (xs @ [StatusExecuting]) = StatusIdle"
  then obtain zs x where zs: "xs = zs @ [x]" "isTransitionAllowed x StatusExecuting" "path_to zs x"
    by (rule path_back) (auto simp: status_defs)
  have "subseq [StatusDiscovering, StatusPlanning] xs"
  proof (cases "x = StatusPlanning")
    case True
    then show ?thesis using path_to_planning zs by simp
  next
    case False
    then have x: "x = StatusAwaitingApproval" using zs(2) by (simp add: allowed_into)
    have "allowed_path (zs @ [x])" "hd (zs @ [x]) = StatusIdle" "x \<noteq> StatusIdle" using zs(3) x by (auto simp: status_defs)
    then obtain us u where "zs = us @ [u]" "isTransitionAllowed u x" "path_to us u"
      by (rule path_back) auto
    then have "subseq [StatusDiscovering, StatusPlanning] zs" using path_to_planning [of us] x by (simp add: allowed_into)
    then show ?thesis using zs(1) by (simp add: subseq_snoc_right)
  qed
  from subseq_snoc [OF this] show ?thesis by simp
qed

lemma path_to_validating:
  "path_to xs StatusValidating \<Longrightarrow>
   subseq [StatusDiscovering, StatusPlanning, StatusExecuting, StatusValidating] (xs @ [StatusValidating])"
proof (elim conjE)
  assume "allowed_path (xs @ [StatusValidating])" "hd (xs @ [StatusValidating]) = StatusIdle"
  then obtain zs x where "xs = zs @ [x]" "isTransitionAllowed x StatusValidating" "path_to zs x"
    by (rule path_back) (auto simp: status_defs)
  then have "subseq [StatusDiscovering, StatusPlanning, StatusExecuting] xs"
    using path_to_executing [of zs] by (simp add: allowed_into)
  from subseq_snoc [OF this] show ?thesis by simp
qed

lemma path_to_converged:
  "path_to xs StatusConverged \<Longrightarrow>
   subseq [StatusDiscovering, StatusPlanning, StatusExecuting, StatusValidating, StatusConverged] (xs @ [StatusConverged])"
proof (elim conjE)
  assume "allowed_path (xs @ [StatusConverged])" "hd (xs @ [StatusConverged]) = StatusIdle"
  then obtain zs x where "xs = zs @ [x]" "isTransitionAllowed x StatusConverged" "path_to zs x"
    by (rule path_back) (auto simp: status_defs)
  then have "subseq [StatusDiscovering, StatusPlanning, StatusExecuting, StatusValidating] xs"
    using path_to_validating [of zs] by (simp add: allowed_into)
  from subseq_snoc [OF this] show ?thesis by simp
qed

lemma path_to_rolling_back:
  "path_to xs StatusRollingBack \<Longrightarrow>
   subseq [StatusPlanning, StatusExecuting, StatusRollbackRequired, StatusRollingBack] (xs @ [StatusRollingBack])"
proof (elim conjE)
  assume "allowed_path (xs @ [StatusRollingBack])" "hd (xs @ [StatusRollingBack]) = StatusIdle"
  then obtain zs x where zs: "xs = zs @ [x]" "isTransitionAllowed x StatusRollingBack" "path_to zs x"
    by (rule path_back) (auto simp: status_defs)
  then have x: "x = StatusRollbackRequired" by (simp add: allowed_into)
  have "allowed_path (zs @ [x])" "hd (zs @ [x]) = StatusIdle" "x \<noteq> StatusIdle" using zs(3) x by (auto simp: status_defs)
  then obtain us u where us: "zs = us @ [u]" "isTransitionAllowed u x" "path_to us u"
    by (rule path_back) auto
  have "subseq [StatusPlanning, StatusExecuting] zs"
  proof (cases "u = StatusExecuting")
    case True
    then have "subseq [StatusDiscovering, StatusPlanning, StatusExecuting] zs"
      using path_to_executing [of us] us by simp
    moreover have "subseq [StatusPlanning, StatusExecuting] [StatusDiscovering, StatusPlanning, StatusExecuting]"
      by (simp add: status_defs)
    ultimately show ?thesis using subseq_order.trans by blast
  next
    case False
    then have "u = StatusValidating" using us x by (simp add: allowed_into)
    then have "subseq [StatusDiscovering, StatusPlanning, StatusExecuting, StatusValidating] zs"
      using path_to_validating [of us] us by simp
    moreover have "subseq [StatusPlanning, StatusExecuting] [StatusDiscovering, StatusPlanning, StatusExecuting, StatusValidating]"
      by (simp add: status_defs)
    ultimately show ?thesis using subseq_order.trans by blast
  qed
  from subseq_snoc [OF subseq_snoc [OF this]] show ?thesis using zs x by simp
qed



section \<open>What the steps of a transition keep\<close>

text \<open>Saving checkpoints and publishing never touch the files and the leases, and never add events other than
  the published one.\<close>

definition db_frame :: "'z db_env_scheme \<Rightarrow> 'z db_env_scheme \<Rightarrow> bool" where
  "db_frame w w' \<longleftrightarrow> fs_files w' = fs_files w \<and> db_Leases w' = db_Leases w \<and> db_ReadOnly w' = db_ReadOnly w \<and>
     io_fault w' = io_fault w \<and> io_clock w' = io_clock w \<and> db_env.more w' = db_env.more w"

definition log_shrinks :: "'z db_env_scheme \<Rightarrow> 'z db_env_scheme \<Rightarrow> bool" where
  "log_shrinks w w' \<longleftrightarrow> db_frame w w' \<and>
     (log_inv w \<longrightarrow> log_inv w' \<and> (\<forall>s. set (repo_log w' s) \<subseteq> set (repo_log w s)))"

lemma db_frame_refl [simp]: "db_frame w w"
  by (simp add: db_frame_def)

lemma transp_db_frame: "transp db_frame"
  by (auto simp: transp_def db_frame_def)

lemma log_shrinks_refl [simp]: "log_shrinks w w"
  by (simp add: log_shrinks_def)

lemma transp_log_shrinks: "transp log_shrinks"
  by (auto simp: transp_def log_shrinks_def db_frame_def)

lemma stepped_log_shrinks: "stepped w w' \<Longrightarrow> log_shrinks w w'"
  by (simp add: log_shrinks_def log_inv_step repo_log_step) (auto simp: stepped_def db_frame_def)

lemma shrinks_same_events:
  "db_frame w w' \<Longrightarrow> db_Events w' = db_Events w \<Longrightarrow> db_Sequences w' = db_Sequences w \<Longrightarrow> log_shrinks w w'"
  by (simp add: log_shrinks_def log_inv_def repo_log_def)

lemma repo_SaveCheckpoint_shrinks: "log_shrinks w (snd (repo_SaveCheckpoint cp w))"
  by (rule shrinks_same_events)
    (auto simp: repo_SaveCheckpoint_def writable_def Let_def and_then_def io_call_def time_Now_def db_frame_def
      split: option.splits prod.splits if_splits)

lemma repo_DeleteCheckpoint_shrinks: "log_shrinks w (snd (repo_DeleteCheckpoint scopeID name sq w))"
  by (rule shrinks_same_events)
    (auto simp: repo_DeleteCheckpoint_def writable_def Let_def and_then_def io_call_def db_frame_def
      split: option.splits)

lemma delete_checkpoints_shrinks: "log_shrinks w (snd (delete_checkpoints scopeID name cps w))"
proof (induction cps arbitrary: w)
  case (Cons cp cps)
  show ?case by (auto intro!: and_try_rel [OF repo_DeleteCheckpoint_shrinks _ transp_log_shrinks] Cons.IH)
qed simp

lemma repo_ListCheckpoints_shrinks: "log_shrinks w (snd (repo_ListCheckpoints scopeID name n w))"
  by (metis prod.collapse repo_ListCheckpoints_stepped stepped_log_shrinks)

lemma checkpoint_compact_shrinks: "log_shrinks w (snd (checkpoint_compact m scopeID name w))"
  by (auto simp: checkpoint_compact_def Let_def delete_checkpoints_shrinks split: option.split
      intro!: and_try_rel [OF repo_ListCheckpoints_shrinks _ transp_log_shrinks])

lemma repo_CompactRawArchive_db_frame: "db_frame w (snd (repo_CompactRawArchive scopeID name q w))"
  by (auto simp: repo_CompactRawArchive_def writable_def Let_def and_then_def hasCheckpointBoundary_def countEvents_def
      countEventsThrough_def io_call_def db_frame_def split: option.splits sum.splits prod.splits if_splits)

lemma repo_CompactRawArchive_shrinks: "log_shrinks w (snd (repo_CompactRawArchive scopeID name q w))"
proof -
  have "log_inv w \<Longrightarrow> log_inv (snd (repo_CompactRawArchive scopeID name q w)) \<and>
      set (repo_log (snd (repo_CompactRawArchive scopeID name q w)) s) \<subseteq> set (repo_log w s)" for s
    using repo_CompactRawArchive_log [of scopeID name q w "fst (repo_CompactRawArchive scopeID name q w)"
        "snd (repo_CompactRawArchive scopeID name q w)"]
    by (cases "s = scopeID") auto
  then show ?thesis using repo_CompactRawArchive_db_frame by (simp add: log_shrinks_def)
qed

lemma safeArchiveSequence_shrinks: "log_shrinks w (snd (safeArchiveSequence scopeID name w))"
  by (auto simp: safeArchiveSequence_def intro!: and_try_rel [OF repo_ListCheckpoints_shrinks _ transp_log_shrinks])

lemma compactArchive_shrinks: "log_shrinks w (snd (compactArchive m scopeID name w))"
  by (auto simp: compactArchive_def repo_CompactRawArchive_shrinks split: prod.split
      intro!: and_try_rel [OF safeArchiveSequence_shrinks _ transp_log_shrinks])

lemma repo_GetLastSequence_shrinks: "log_shrinks w (snd (repo_GetLastSequence scopeID w))"
  by (rule stepped_log_shrinks) (auto simp: repo_GetLastSequence_def and_then_def io_call_def split: option.split)

lemma SaveNamed_shrinks: "log_shrinks w (snd (SaveNamedRuntimeState m name scopeID trigger ev st w))"
  unfolding SaveNamedRuntimeState_def Let_def
  by (intro and_then_rel [OF _ _ transp_log_shrinks])
    (auto simp: repo_GetLastSequence_shrinks repo_SaveCheckpoint_shrinks checkpoint_compact_shrinks compactArchive_shrinks)

lemma transition_checkpoints_shrinks:
  "log_shrinks w (snd (transition_checkpoints cm scopeID from_st to_st ev st w))"
  unfolding transition_checkpoints_def Let_def
  by (intro and_then_rel [OF _ _ transp_log_shrinks]) (auto simp: SaveRuntimeState_def SaveNamed_shrinks)

lemma repo_Append_db_frame:
  assumes "repo_Append ev w = (r, w')"
  shows "db_frame w w'" and "db_Checkpoints w' = db_Checkpoints w"
  using repo_Append_outcome [OF assms]
  by (auto simp: append_outcome_def Let_def stepped_def committed_append_def db_frame_def)

section \<open>A transition as a whole\<close>

text \<open>A machine whose bus, if it has one, has no subscribers, as the program wires it.\<close>

definition sm_ok :: "'z state_machine \<Rightarrow> bool" where
  "sm_ok sm \<longleftrightarrow> sm_eventBus sm = None \<or> sm_eventBus sm = Some (\<lambda>_. [])"

lemma stored_state_files: "fs_files w' = fs_files w \<Longrightarrow> stored_state w' = stored_state w"
  by (simp add: stored_state_def)

lemma bus_PublishEvent_no_subs:
  assumes "bus_PublishEvent (\<lambda>_. []) req w = (r, w')"
  shows "\<exists>t v r1. stepped w v \<and> repo_Append ((event_of_request req)\<lparr>ev_Timestamp := t\<rparr>) v = (r1, w') \<and>
    (\<forall>ev. r = Inr ev \<longleftrightarrow> r1 = Inr ev)"
proof (cases "time_is_zero (ev_Timestamp (event_of_request req))")
  case True
  let ?t = "io_clock w (io_step w)" and ?v = "w\<lparr>io_step := Suc (io_step w)\<rparr>"
  obtain r1 w1 where ap: "repo_Append ((event_of_request req)\<lparr>ev_Timestamp := ?t\<rparr>) ?v = (r1, w1)"
    by (cases "repo_Append ((event_of_request req)\<lparr>ev_Timestamp := ?t\<rparr>) ?v")
  then show ?thesis
    using assms True
    by (intro exI [of _ ?t] exI [of _ ?v] exI [of _ r1])
      (auto simp: bus_PublishEvent_def time_Now_def Let_def and_then_def event_of_request_def time_is_zero_def split: sum.splits)
next
  case False
  have same: "(event_of_request req)\<lparr>ev_Timestamp := pr_Timestamp req\<rparr> = event_of_request req"
    by (simp add: event_of_request_def)
  obtain r1 w1 where ap: "repo_Append (event_of_request req) w = (r1, w1)"
    by (cases "repo_Append (event_of_request req) w")
  then show ?thesis
    using assms False same
    by (intro exI [of _ "pr_Timestamp req"] exI [of _ w] exI [of _ r1])
      (auto simp: bus_PublishEvent_def Let_def and_then_def split: sum.splits)
qed

lemma same_tables:
  assumes "dir_env.more w' = dir_env.more w"
  shows "db_Events w' = db_Events w" "db_Sequences w' = db_Sequences w" "db_Leases w' = db_Leases w"
    "db_Checkpoints w' = db_Checkpoints w" "db_ReadOnly w' = db_ReadOnly w"
  using assms by (cases w; cases w'; simp)+

lemma bus_PublishEvent_db_frame: "db_frame w (snd (bus_PublishEvent (\<lambda>_. []) req w))"
proof -
  obtain r w' where pub: "bus_PublishEvent (\<lambda>_. []) req w = (r, w')" by (cases "bus_PublishEvent (\<lambda>_. []) req w")
  from bus_PublishEvent_no_subs [OF pub] obtain t v r1
    where "stepped w v" "repo_Append ((event_of_request req)\<lparr>ev_Timestamp := t\<rparr>) v = (r1, w')" by blast
  then show ?thesis using pub repo_Append_db_frame(1) by (force simp: stepped_def db_frame_def)
qed

lemma transition_checkpoints_db_frame:
  "db_frame w (snd (transition_checkpoints cm scopeID from_st to_st ev st w))"
  by (rule conjunct1 [OF transition_checkpoints_shrinks [unfolded log_shrinks_def]])

lemma publish_part_db_frame:
  assumes "sm_ok sm"
  shows "db_frame w (snd (case sm_eventBus sm of None \<Rightarrow> (Inr (), w)
     | Some subs \<Rightarrow> and_then transition_op (bus_PublishEvent subs req w) (\<lambda>ev w4.
         case sm_checkpoints sm of None \<Rightarrow> (Inr (), w4)
         | Some cm \<Rightarrow> transition_checkpoints cm scopeID from_st to_st ev st w4)))"
  using assms
  by (auto simp: sm_ok_def transition_checkpoints_db_frame split: option.split
      intro!: and_then_rel [OF bus_PublishEvent_db_frame _ transp_db_frame])

text \<open>How far a transition came: refused or not saved, with the stored state untouched; or saved, and
  then the event published, and then the checkpoints taken.\<close>

lemma Transition_cases:
  fixes w :: "'z db_env_scheme"
  assumes tr: "Transition sm ctx to_st reason w = (r, w')" and sm: "sm_ok sm"
    and cur: "stored_state w = Inr cur" and ok: "state_ok cur" "is_int64 (rc_FencingToken ctx)"
  obtains (kept) e where "r = Inl e" and "stored_state w' = Inr cur" and "db_Events w' = db_Events w"
      and "db_Sequences w' = db_Sequences w"
    | (saved) now st w3 where "isTransitionAllowed (current_status cur) to_st"
      and "st = ApplyLifecycleTransition cur (input_of_context ctx (current_status cur) to_st now)"
      and "stored_state w3 = Inr st" and "fs_files w' = fs_files w3"
      and "db_Events w3 = db_Events w" and "db_Sequences w3 = db_Sequences w" and "no_faults w3 = no_faults w"
      and "(case sm_eventBus sm of None \<Rightarrow> (Inr (), w3)
             | Some subs \<Rightarrow>
                 and_then transition_op (bus_PublishEvent subs (transition_request ctx st (current_status cur) to_st reason) w3) (\<lambda>ev w4.
                 case sm_checkpoints sm of None \<Rightarrow> (Inr (), w4)
                 | Some cm \<Rightarrow> transition_checkpoints cm (transition_scope ctx) (current_status cur) to_st ev st w4)) = (r, w')"
proof (cases w rule: store_Load_cases)
  case (2 e)
  then show thesis using tr kept [of "wrap_err transition_op (wrap_err ''runtime.state.Load'' e)"] cur
    by (auto simp: Transition_def stored_state_def)
next
  case 1
  let ?w1 = "w\<lparr>io_step := Suc (io_step w)\<rparr>"
  show thesis
  proof (cases "isTransitionAllowed (current_status cur) to_st")
    case False
    then show thesis using tr 1 cur kept by (auto simp: Transition_def Let_def stored_state_def)
  next
    case True
    define now where "now = io_clock ?w1 (io_step ?w1)"
    define w2 where "w2 = ?w1\<lparr>io_step := Suc (io_step ?w1)\<rparr>"
    define st where "st = ApplyLifecycleTransition cur (input_of_context ctx (current_status cur) to_st now)"
    have st_ok: "state_ok st" using ok by (simp add: st_def transition_ok input_of_context_def)
    obtain r3 w3 where save: "store_Save st w2 = (r3, w3)" by (cases "store_Save st w2")
    have frame: "db_Events w3 = db_Events w" "db_Sequences w3 = db_Sequences w" "no_faults w3 = no_faults w"
      using store_Save_frame [OF save] same_tables [of w3 w2] by (auto simp: w2_def no_faults_def)
    have kept_state: "stored_state w2 = stored_state w" by (rule stored_state_files) (simp add: w2_def)
    have tail: "and_then transition_op (r3, w3) (\<lambda>_ w3.
             case sm_eventBus sm of None \<Rightarrow> (Inr (), w3)
             | Some subs \<Rightarrow>
                 and_then transition_op (bus_PublishEvent subs (transition_request ctx st (current_status cur) to_st reason) w3) (\<lambda>ev w4.
                 case sm_checkpoints sm of None \<Rightarrow> (Inr (), w4)
                 | Some cm \<Rightarrow> transition_checkpoints cm (transition_scope ctx) (current_status cur) to_st ev st w4)) = (r, w')"
      unfolding st_def now_def using tr 1 cur True save [unfolded st_def now_def w2_def]
      by (simp add: Transition_def time_Now_def Let_def)
    show thesis
    proof (cases r3)
      case (Inl e)
      then have "stored_state w3 = stored_state w2" using store_Save_stored [OF save st_ok] by simp
      then show thesis using kept [of "wrap_err transition_op e"] tail Inl cur kept_state frame by simp
    next
      case (Inr u)
      then have "stored_state w3 = Inr st" using store_Save_stored [OF save st_ok] by simp
      moreover have pub: "(case sm_eventBus sm of None \<Rightarrow> (Inr (), w3)
             | Some subs \<Rightarrow>
                 and_then transition_op (bus_PublishEvent subs (transition_request ctx st (current_status cur) to_st reason) w3) (\<lambda>ev w4.
                 case sm_checkpoints sm of None \<Rightarrow> (Inr (), w4)
                 | Some cm \<Rightarrow> transition_checkpoints cm (transition_scope ctx) (current_status cur) to_st ev st w4)) = (r, w')"
        using tail Inr by simp
      moreover have "db_frame w3 w'"
        using publish_part_db_frame [OF sm, where w = w3 and req = "transition_request ctx st (current_status cur) to_st reason"
            and scopeID = "transition_scope ctx" and from_st = "current_status cur" and to_st = to_st and st = st]
        unfolding pub by simp
      then have "fs_files w' = fs_files w3" by (simp add: db_frame_def)
      ultimately show thesis using saved [OF True st_def] frame by simp
    qed
  qed
qed

text \<open>
  C22: a transition follows the table and the reducer. A move that the table does not allow is refused
  and changes nothing. A move that reports success was allowed, and the stored state is then the
  reducer's for some reading of the clock. Whatever fails on the way, the stored state is afterwards
  either the old one or the complete new one.
\<close>

theorem transition_sound:
  fixes w :: "'z db_env_scheme"
  assumes "Transition sm ctx to_st reason w = (r, w')" and "sm_ok sm" and "stored_state w = Inr cur"
    and "state_ok cur" and "is_int64 (rc_FencingToken ctx)"
  shows "(\<not> isTransitionAllowed (current_status cur) to_st \<longrightarrow> r \<noteq> Inr () \<and> stored_state w' = Inr cur) \<and>
    (r = Inr () \<longrightarrow> (\<exists>now. stored_state w' =
       Inr (ApplyLifecycleTransition cur (input_of_context ctx (current_status cur) to_st now)))) \<and>
    (stored_state w' = Inr cur \<or> (\<exists>now. stored_state w' =
       Inr (ApplyLifecycleTransition cur (input_of_context ctx (current_status cur) to_st now))))"
  using assms
proof (cases rule: Transition_cases)
  case (kept e)
  then show ?thesis by simp
next
  case (saved now st w3)
  then have "stored_state w' = Inr st" using stored_state_files by metis
  then show ?thesis using saved by auto
qed

definition bare_machine :: "unit state_machine" where
  "bare_machine = \<lparr>sm_eventBus = None, sm_checkpoints = None\<rparr>"

theorem transition_sound_witness:
  "stored_state (snd (Transition bare_machine zero_context StatusExecuting ''x'' quiet_db)) = Inr zero_state \<and>
   fst (Transition bare_machine zero_context StatusExecuting ''x'' quiet_db) \<noteq> Inr ()"
proof -
  have "stored_state quiet_db = Inr zero_state" by (simp add: stored_state_def quiet_db_def file_get_def)
  moreover have "\<not> isTransitionAllowed (current_status zero_state) StatusExecuting"
    by (simp add: current_status_def zero_state_def zero_lifecycle_def isTransitionAllowed_def allowed_targets_def status_defs)
  ultimately show ?thesis
    using transition_sound [of bare_machine zero_context StatusExecuting "''x''" quiet_db
        "fst (Transition bare_machine zero_context StatusExecuting ''x'' quiet_db)"
        "snd (Transition bare_machine zero_context StatusExecuting ''x'' quiet_db)" zero_state] zero_state_ok
    by (simp add: bare_machine_def sm_ok_def zero_context_def is_int64_def min_int64_def max_int64_def)
qed

section \<open>Reachable states\<close>

text \<open>The worlds that transitions reach from a runtime without a state file, with all clocks, failures
  and contexts.\<close>

inductive machine_reachable :: "'z state_machine \<Rightarrow> 'z db_env_scheme \<Rightarrow> bool" for sm where
  start: "file_get global_file (fs_files w) = None \<Longrightarrow> machine_reachable sm w"
| move: "machine_reachable sm w \<Longrightarrow> is_int64 (rc_FencingToken ctx) \<Longrightarrow> Transition sm ctx to_st reason w = (r, w') \<Longrightarrow>
    machine_reachable sm w'"

definition lifecycle_inv :: "runtime_state \<Rightarrow> bool" where
  "lifecycle_inv st \<longleftrightarrow> state_ok st \<and> current_status st \<in> set all_statuses \<and>
     (resting (current_status st) \<longrightarrow> no_active_work st)"

lemma lifecycle_inv_step:
  assumes "lifecycle_inv cur" and "isTransitionAllowed (current_status cur) to_st" and "is_int64 (rc_FencingToken ctx)"
  shows "lifecycle_inv (ApplyLifecycleTransition cur (input_of_context ctx (current_status cur) to_st now))"
proof -
  have to: "to_st \<in> set all_statuses" using allowed_sources [OF assms(2)] by simp
  then have "to_st \<noteq> []" using all_statuses_nonempty by metis
  then have "current_status (ApplyLifecycleTransition cur (input_of_context ctx (current_status cur) to_st now)) = to_st"
    by (simp add: current_status_def input_of_context_def)
  then show ?thesis
    using assms to transition_ok [of cur] transition_resting [of "input_of_context ctx (current_status cur) to_st now" cur]
    by (auto simp: lifecycle_inv_def input_of_context_def)
qed



section \<open>Transitions and the log\<close>

definition transition_event :: "runtime_context \<Rightarrow> runtime_state \<Rightarrow> runtime_status \<Rightarrow> string \<Rightarrow> event" where
  "transition_event ctx cur to_st reason =
     event_of_request (transition_request ctx cur (current_status cur) to_st reason)"

lemma transition_event_saved:
  "event_of_request (transition_request ctx (ApplyLifecycleTransition cur i) from_st to_st reason) =
   event_of_request (transition_request ctx cur from_st to_st reason)"
  by (simp add: transition_request_def)

lemma transition_event_simps:
  "ev_ScopeID (transition_event ctx cur to_st reason) = transition_scope ctx"
  "ev_Type (transition_event ctx cur to_st reason) = TypeLifecycleTransition"
  "ev_Payload (transition_event ctx cur to_st reason) =
     JObj [(''from'', JStr (current_status cur)), (''to'', JStr to_st), (''reason'', JStr reason)]"
  "ev_UID (transition_event ctx cur to_st reason) = []"
  "ev_Metadata (transition_event ctx cur to_st reason) =
     [(''reason'', AString reason), (''epoch_id'', AString (rc_EpochID ctx)),
      (''fencing_token'', AInt64 (rc_FencingToken ctx)), (''lease_id'', AString (rc_LeaseID ctx)),
      (''trace_id'', AString (rc_TraceID ctx))]"
  by (simp_all add: transition_event_def transition_request_def NewLifecycleTransition_def event_request_def
      event_of_request_def cloneMap_def cloneMetadata_def)

lemma with_uid_stamp: "ev_UID ev = [] \<Longrightarrow> with_uid (ev\<lparr>ev_Timestamp := t\<rparr>) = ev\<lparr>ev_UID := eventUID ev, ev_Timestamp := t\<rparr>"
  by (simp add: with_uid_def eventUID_def event_identity_def)

lemma append_known:
  assumes "repo_Append ev v = (r, w')" and "row \<in> set (db_Events v)"
    and "ev_ScopeID (er_Event row) = ev_ScopeID ev" and "ev_UID (er_Event row) = ev_UID (with_uid ev)"
  shows "stepped v w'"
proof -
  have "violates_unique ((with_uid ev)\<lparr>ev_Sequence := n\<rparr>) (db_Events v)" for n
    using assms(2-4) by (auto simp: violates_unique_def)
  then show ?thesis using repo_Append_outcome [OF assms(1)] by (auto simp: append_outcome_def Let_def)
qed

text \<open>The published part of a successful transition.\<close>

lemma Transition_published:
  fixes w :: "'z db_env_scheme"
  assumes tr: "Transition sm ctx to_st reason w = (Inr (), w')" and bus: "sm_eventBus sm = Some (\<lambda>_. [])"
    and cur: "stored_state w = Inr cur" and ok: "state_ok cur" "is_int64 (rc_FencingToken ctx)"
  obtains now st v t ev w4 where
    "st = ApplyLifecycleTransition cur (input_of_context ctx (current_status cur) to_st now)"
    "stored_state w' = Inr st" "db_Events v = db_Events w" "db_Sequences v = db_Sequences w"
    "repo_Append ((transition_event ctx cur to_st reason)\<lparr>ev_Timestamp := t\<rparr>) v = (Inr ev, w4)"
    "log_shrinks w4 w'" "sm_checkpoints sm = None \<Longrightarrow> w' = w4"
proof -
  have "sm_ok sm" using bus by (simp add: sm_ok_def)
  with tr show thesis
    using cur ok
  proof (cases rule: Transition_cases)
    case (saved now st w3)
    obtain ev w4 where pub: "bus_PublishEvent (\<lambda>_. []) (transition_request ctx st (current_status cur) to_st reason) w3 = (Inr ev, w4)"
        and rest: "(case sm_checkpoints sm of None \<Rightarrow> (Inr (), w4)
                 | Some cm \<Rightarrow> transition_checkpoints cm (transition_scope ctx) (current_status cur) to_st ev st w4) = (Inr (), w')"
      using saved(8) bus by (auto simp: and_then_Inr_iff)
    obtain t v where "stepped w3 v"
        and ap: "repo_Append ((event_of_request (transition_request ctx st (current_status cur) to_st reason))\<lparr>ev_Timestamp := t\<rparr>) v = (Inr ev, w4)"
      using bus_PublishEvent_no_subs [OF pub] by (metis (full_types))
    have a: "log_shrinks w4 w'"
    proof (cases "sm_checkpoints sm")
      case (Some cm)
      then show ?thesis
        using rest transition_checkpoints_shrinks [of w4 cm "transition_scope ctx" "current_status cur" to_st ev st] by simp
    qed (use rest in simp)
    have b: "sm_checkpoints sm = None \<Longrightarrow> w' = w4" using rest by simp
    have c: "stored_state w' = Inr st" using saved(3,4) stored_state_files by metis
    have d: "db_Events v = db_Events w" "db_Sequences v = db_Sequences w"
      using \<open>stepped w3 v\<close> saved(5,6) by (auto simp: stepped_def)
    have e: "repo_Append ((transition_event ctx cur to_st reason)\<lparr>ev_Timestamp := t\<rparr>) v = (Inr ev, w4)"
      using ap unfolding saved(2) transition_event_saved transition_event_def .
    show thesis by (rule that [OF saved(2) c d e a b])
  qed auto
qed

text \<open>Without failures and checkpoints an allowed transition succeeds.\<close>

lemma repo_Append_log_inv:
  assumes "repo_Append ev w = (r, w')" and "log_inv w"
  shows "log_inv w'"
proof -
  let ?ev = "(with_uid ev)\<lparr>ev_Sequence := next_sequence (ev_ScopeID ev) (db_Sequences w)\<rparr>"
  have "\<not> violates_unique ?ev (db_Events w) \<Longrightarrow>
      log_inv (committed_append ?ev (advance_sequence (ev_ScopeID ev) (db_Sequences w)) (json_of_metadata (ev_Metadata ev)) w)"
    using log_inv_append [OF assms(2), of ?ev] readable_metadata by simp
  then show ?thesis
    using repo_Append_outcome [OF assms(1)] assms(2) by (auto simp: append_outcome_def Let_def log_inv_step)
qed

lemma Transition_quiet:
  fixes w :: "'z db_env_scheme"
  assumes "no_faults w" "\<not> db_ReadOnly w" "log_inv w" and cur: "stored_state w = Inr cur"
    and allowed: "isTransitionAllowed (current_status cur) to_st"
    and sm: "sm_ok sm" "sm_checkpoints sm = None"
  shows "\<exists>w'. Transition sm ctx to_st reason w = (Inr (), w') \<and> no_faults w' \<and> \<not> db_ReadOnly w' \<and> log_inv w'"
proof -
  let ?w1 = "w\<lparr>io_step := Suc (io_step w)\<rparr>"
  define st where "st = ApplyLifecycleTransition cur (input_of_context ctx (current_status cur) to_st (io_clock ?w1 (io_step ?w1)))"
  let ?w2 = "?w1\<lparr>io_step := Suc (io_step ?w1)\<rparr>"
  have "no_faults ?w2" using assms(1) by simp
  then obtain w3 where save: "store_Save st ?w2 = (Inr (), w3)" using store_Save_ok by blast
  have w3: "no_faults w3" "\<not> db_ReadOnly w3" "log_inv w3"
    using store_Save_frame [OF save] same_tables [of w3 ?w2] assms(1-3) by (auto simp: no_faults_def log_inv_def)
  have head: "Transition sm ctx to_st reason w = (case sm_eventBus sm of None \<Rightarrow> (Inr (), w3)
      | Some subs \<Rightarrow> and_then transition_op (bus_PublishEvent subs (transition_request ctx st (current_status cur) to_st reason) w3)
          (\<lambda>ev w4. case sm_checkpoints sm of None \<Rightarrow> (Inr (), w4)
             | Some cm \<Rightarrow> transition_checkpoints cm (transition_scope ctx) (current_status cur) to_st ev st w4))"
    using store_Load_ok [OF assms(1)] cur allowed save [unfolded st_def]
    unfolding st_def by (simp add: Transition_def time_Now_def Let_def)
  show ?thesis
  proof (cases "sm_eventBus sm")
    case None
    then show ?thesis using head w3 by simp
  next
    case (Some subs)
    let ?req = "transition_request ctx st (current_status cur) to_st reason"
    let ?w4 = "w3\<lparr>io_step := Suc (io_step w3)\<rparr>"
    let ?ev = "(event_of_request ?req)\<lparr>ev_Timestamp := io_clock w3 (io_step w3)\<rparr>"
    have "scope_ID (rc_Scope ctx) \<noteq> []" by (metis length_scope_ID list.size(3) zero_neq_numeral)
    then have scope: "ev_ScopeID ?ev \<noteq> []"
      by (simp add: event_of_request_def transition_request_def NewLifecycleTransition_def event_request_def transition_scope_def)
    have w4: "no_faults ?w4" "\<not> db_ReadOnly ?w4" "log_inv ?w4" using w3 by (auto simp: log_inv_def)
    obtain ev w5 where ap: "repo_Append ?ev ?w4 = (Inr ev, w5)" "no_faults w5" "\<not> db_ReadOnly w5"
      using repo_Append_quiet [OF w4(3,1,2) scope] by blast
    have zero: "time_is_zero (ev_Timestamp (event_of_request ?req))"
      by (simp add: event_of_request_def transition_request_def NewLifecycleTransition_def event_request_def time_is_zero_def)
    have "bus_PublishEvent (\<lambda>_. []) ?req w3 = (Inr ev, w5)"
      using zero ap by (simp add: bus_PublishEvent_def Let_def time_Now_def)
    then show ?thesis using head Some sm ap repo_Append_log_inv [OF ap(1) w4(3)] by (auto simp: sm_ok_def)
  qed
qed

text \<open>
  A transition that repeats one whose event is still in the log leaves no trace there. Events are
  identified by their content without the instant, so when the log holds an event with the same
  scope, correlation, statuses, reason and context, a successful transition changes the stored state
  and adds no event to any log.
\<close>

theorem repeated_transition_not_logged:
  fixes w :: "'z db_env_scheme"
  assumes "Transition sm ctx to_st reason w = (Inr (), w')" and "sm_eventBus sm = Some (\<lambda>_. [])"
    and "stored_state w = Inr cur" and "state_ok cur" and "is_int64 (rc_FencingToken ctx)" and "log_inv w"
    and "e \<in> set (repo_log w (transition_scope ctx))" and "ev_UID e = eventUID (transition_event ctx cur to_st reason)"
  shows "(\<exists>st. stored_state w' = Inr st \<and> lc_Status (rs_Lifecycle st) = to_st) \<and>
    (\<forall>s. set (repo_log w' s) \<subseteq> set (repo_log w s))"
proof (rule Transition_published [OF assms(1-5)])
  fix now st v t ev w4
  assume st: "st = ApplyLifecycleTransition cur (input_of_context ctx (current_status cur) to_st now)" "stored_state w' = Inr st"
    and v: "db_Events v = db_Events w" "db_Sequences v = db_Sequences w"
    and ap: "repo_Append ((transition_event ctx cur to_st reason)\<lparr>ev_Timestamp := t\<rparr>) v = (Inr ev, w4)"
    and shrinks: "log_shrinks w4 w'"
  obtain row where row: "row \<in> set (db_Events v)" "e = read_event row" "ev_ScopeID (er_Event row) = transition_scope ctx"
    using assms(7) v by (auto simp: repo_log_def set_scope_rows)
  have "stepped v w4"
    using ap row(1) by (rule append_known) (use row assms(8) in \<open>simp_all add: transition_event_simps with_uid_stamp\<close>)
  then have "log_inv w4" "repo_log w4 = repo_log w"
    using assms(6) v by (auto simp: stepped_def log_inv_def repo_log_def)
  then show ?thesis using shrinks st by (auto simp: log_shrinks_def input_of_context_def)
qed

definition logging_machine :: "unit state_machine" where
  "logging_machine = \<lparr>sm_eventBus = Some (\<lambda>_. []), sm_checkpoints = None\<rparr>"

text \<open>A log that holds the event of an earlier start of discovery.\<close>

definition discovery_event :: event where
  "discovery_event = (transition_event zero_context zero_state StatusDiscovering ''run'')
     \<lparr>ev_ID := 1, ev_Sequence := 1, ev_Timestamp := 1, ev_Metadata := [],
      ev_UID := eventUID (transition_event zero_context zero_state StatusDiscovering ''run'')\<rparr>"

definition discovered_db :: db_env where
  "discovered_db = quiet_db\<lparr>db_NextEventID := 2, db_Sequences := [(transition_scope zero_context, 2)],
     db_Events := [\<lparr>er_Event = discovery_event, er_Metadata = JNull\<rparr>]\<rparr>"

lemma eventUID_nonempty [simp]: "eventUID ev \<noteq> []"
  using length_sha256_hex [of "json_text (event_identity ev)"] by (auto simp: eventUID_def simp del: length_sha256_hex)

lemma discovered_db_ok:
  "log_inv discovered_db" "no_faults discovered_db" "\<not> db_ReadOnly discovered_db"
  "stored_state discovered_db = Inr zero_state" "discovery_event \<in> set (repo_log discovered_db (transition_scope zero_context))"
proof -
  have sc: "ev_ScopeID discovery_event = transition_scope zero_context" by (simp add: discovery_event_def transition_event_simps)
  have sq: "ev_Sequence discovery_event = 1" "ev_Metadata discovery_event = []" "ev_UID discovery_event \<noteq> []"
    by (simp_all add: discovery_event_def)
  have "scope_seqs s (db_Events discovered_db) = (if s = transition_scope zero_context then [1] else [])" for s
    by (simp add: scope_seqs_def discovered_db_def sc sq)
  moreover have "next_sequence s (db_Sequences discovered_db) = (if s = transition_scope zero_context then 2 else 1)" for s
    by (simp add: next_sequence_def discovered_db_def)
  moreover have "{Suc 0 ..< 2} = {Suc 0}" by auto
  ultimately show "log_inv discovered_db"
    unfolding log_inv_def using sq by (auto simp: discovered_db_def readable_def metadata_of_json_def)
  show "no_faults discovered_db" "\<not> db_ReadOnly discovered_db" "stored_state discovered_db = Inr zero_state"
    by (simp_all add: discovered_db_def quiet_db_def no_faults_def stored_state_def file_get_def)
  show "discovery_event \<in> set (repo_log discovered_db (transition_scope zero_context))"
    by (simp add: repo_log_def set_scope_rows discovered_db_def sc sq read_event_def metadata_of_json_def image_iff)
qed

lemma zero_state_idle: "current_status zero_state = StatusIdle"
  by (simp add: current_status_def zero_state_def zero_lifecycle_def)

lemma zero_context_token: "is_int64 (rc_FencingToken zero_context)"
  by (simp add: zero_context_def is_int64_def min_int64_def max_int64_def)

theorem repeated_transition_not_logged_witness:
  "\<exists>w'. Transition logging_machine zero_context StatusDiscovering ''run'' discovered_db = (Inr (), w') \<and>
     (\<exists>st. stored_state w' = Inr st \<and> lc_Status (rs_Lifecycle st) = StatusDiscovering) \<and>
     (\<forall>s. set (repo_log w' s) \<subseteq> set (repo_log discovered_db s))"
proof -
  have "isTransitionAllowed (current_status zero_state) StatusDiscovering"
    by (simp add: zero_state_idle isTransitionAllowed_def allowed_targets_def status_defs)
  then obtain w' where tr: "Transition logging_machine zero_context StatusDiscovering ''run'' discovered_db = (Inr (), w')"
    using Transition_quiet [OF discovered_db_ok(2,3,1,4), where sm = logging_machine and ctx = zero_context and reason = "''run''"]
    by (auto simp: sm_ok_def logging_machine_def)
  have "ev_UID discovery_event = eventUID (transition_event zero_context zero_state StatusDiscovering ''run'')"
    by (simp add: discovery_event_def)
  from repeated_transition_not_logged [OF tr _ discovered_db_ok(4) zero_state_ok zero_context_token discovered_db_ok(1,5) this]
  show ?thesis using tr by (simp add: logging_machine_def)
qed

text \<open>Reading the metadata of a transition back from the store.\<close>

definition stored_metadata :: "runtime_context \<Rightarrow> string \<Rightarrow> metadata" where
  "stored_metadata ctx reason =
     [(''epoch_id'', AString (rc_EpochID ctx)), (''fencing_token'', AFloat64 (float64_of_int (rc_FencingToken ctx))),
      (''lease_id'', AString (rc_LeaseID ctx)), (''reason'', AString reason), (''trace_id'', AString (rc_TraceID ctx))]"

lemma transition_metadata_reread:
  "metadata_of_json (json_of_metadata (ev_Metadata (transition_event ctx cur to_st reason))) = Inr (stored_metadata ctx reason)"
  unfolding transition_event_simps
  by (simp add: json_of_metadata_def metadata_of_json_def stored_metadata_def)

lemma stored_metadata_fields:
  "\<bar>rc_FencingToken ctx\<bar> \<le> 2 ^ 53 \<Longrightarrow> metadataInt64 (stored_metadata ctx reason) ''fencing_token'' = rc_FencingToken ctx"
  "metadataString (stored_metadata ctx reason) ''epoch_id'' = rc_EpochID ctx"
  "metadataString (stored_metadata ctx reason) ''lease_id'' = rc_LeaseID ctx"
proof -
  assume small: "\<bar>rc_FencingToken ctx\<bar> \<le> 2 ^ 53"
  then have "is_int64 (rc_FencingToken ctx)" by (auto simp: is_int64_def min_int64_def max_int64_def)
  with small show "metadataInt64 (stored_metadata ctx reason) ''fencing_token'' = rc_FencingToken ctx"
    by (simp add: stored_metadata_def metadataInt64_def float64_of_int_small int64_of_float64_def)
qed (simp_all add: stored_metadata_def metadataString_def)

lemma ApplyEvent_transition:
  assumes "\<bar>rc_FencingToken ctx\<bar> \<le> 2 ^ 53"
  shows "ApplyEvent s (((transition_event ctx cur to_st reason)\<lparr>ev_UID := u, ev_Timestamp := t, ev_Sequence := n, ev_ID := i,
      ev_Metadata := stored_metadata ctx reason\<rparr>)) =
    Inr (ApplyLifecycleTransition s (input_of_context ctx (current_status cur) to_st t))"
  using assms
  by (simp add: ApplyEvent_def transition_event_simps lifecycle_payload_of_def json_members_def json_fields
      stored_metadata_fields input_of_context_def)


lemma quiet_db_transition:
  "\<exists>w' e. Transition logging_machine zero_context StatusDiscovering ''run'' quiet_db = (Inr (), w') \<and>
     repo_log w' (transition_scope zero_context) = repo_log quiet_db (transition_scope zero_context) @ [e]"
proof -
  have cur: "stored_state quiet_db = Inr zero_state" by (simp add: stored_state_def quiet_db_def file_get_def)
  have sm: "sm_eventBus logging_machine = Some (\<lambda>_. [])" "sm_checkpoints logging_machine = None"
    by (simp_all add: logging_machine_def)
  have "isTransitionAllowed (current_status zero_state) StatusDiscovering"
    by (simp add: zero_state_idle isTransitionAllowed_def allowed_targets_def status_defs)
  then obtain w' where tr: "Transition logging_machine zero_context StatusDiscovering ''run'' quiet_db = (Inr (), w')"
    using Transition_quiet [OF quiet_db_ok(2,3,1) cur, where sm = logging_machine and ctx = zero_context and reason = "''run''"]
    by (auto simp: sm_ok_def sm)
  from Transition_published [OF tr sm(1) cur zero_state_ok zero_context_token] obtain v t ev where
      v: "db_Events v = db_Events quiet_db" "db_Sequences v = db_Sequences quiet_db"
      and ap: "repo_Append ((transition_event zero_context zero_state StatusDiscovering ''run'')\<lparr>ev_Timestamp := t\<rparr>) v = (Inr ev, w')"
    using sm(2) by metis
  have inv: "log_inv v" and log: "repo_log v = repo_log quiet_db" using quiet_db_ok(1) v by (auto simp: log_inv_def repo_log_def)
  let ?ev = "(transition_event zero_context zero_state StatusDiscovering ''run'')\<lparr>ev_Timestamp := t\<rparr>"
  let ?ev1 = "(with_uid ?ev)\<lparr>ev_Sequence := next_sequence (ev_ScopeID (with_uid ?ev)) (db_Sequences v)\<rparr>"
  have "stepped (committed_append ?ev1 (advance_sequence (ev_ScopeID (with_uid ?ev)) (db_Sequences v)) (json_of_metadata (ev_Metadata ?ev)) v) w'"
    using repo_Append_outcome [OF ap] v by (auto simp: append_outcome_def existing_reported_def quiet_db_def find_event_def Let_def)
  from repo_log_step [OF this] show ?thesis
    using tr log repo_log_append [OF inv, of ?ev1] by (auto simp: transition_event_simps(1))
qed


end
