(* ===== verification/Lease_Repository.thy ===== *)
theory Lease_Repository
  imports Sqlite_Db
begin

text \<open>
  \<open>internal/storage/sqlite/lease.go\<close>: the lease table behind the lease manager. \<open>AcquireLease\<close> runs in an
  immediate transaction, so its statements act on a copy of the table that is installed by the
  commit; the deferred rollback discards it. A lease identifier is the primary key.
\<close>

definition lease_for :: "string \<Rightarrow> string \<Rightarrow> lease_row \<Rightarrow> bool" where
  "lease_for scopeID action r \<longleftrightarrow> lr_ScopeID r = scopeID \<and> ls_Action (lr_Lease r) = action"

definition repo_GetActiveLease :: "string \<Rightarrow> string \<Rightarrow> 'z db_env_scheme \<Rightarrow> lease option result \<times> 'z db_env_scheme" where
  "repo_GetActiveLease scopeID action w =
     (let (now, w1) = time_Now w in
      and_then ''storage.sqlite.LeaseRepository.GetActiveLease'' (io_call w1) (\<lambda>_ w2.
        (Inr (map_option lr_Lease
           (find (\<lambda>r. lease_for scopeID action r \<and> ls_ExpiresAt (lr_Lease r) > now) (db_Leases w2))), w2)))"

definition acquire_op :: string where
  "acquire_op = ''storage.sqlite.LeaseRepository.AcquireLease''"

text \<open>The lease that the transaction finds: of the unexpired ones the one with the latest expiry, then the
  latest creation.\<close>

fun best_lease :: "lease list \<Rightarrow> lease option" where
  "best_lease [] = None"
| "best_lease (l # ls) = (case best_lease ls of None \<Rightarrow> Some l
     | Some b \<Rightarrow> if ls_ExpiresAt l > ls_ExpiresAt b \<or> (ls_ExpiresAt l = ls_ExpiresAt b \<and> ls_CreatedAt l \<ge> ls_CreatedAt b)
                then Some l else Some b)"

definition current_lease :: "string \<Rightarrow> string \<Rightarrow> go_time \<Rightarrow> lease_row list \<Rightarrow> lease option" where
  "current_lease scopeID action now rows =
     best_lease (map lr_Lease (filter (\<lambda>r. lease_for scopeID action r \<and> ls_ExpiresAt (lr_Lease r) > now) rows))"

definition repo_AcquireLease :: "string \<Rightarrow> lease \<Rightarrow> 'z db_env_scheme \<Rightarrow> unit result \<times> 'z db_env_scheme" where
  "repo_AcquireLease scopeID l w =
     writable acquire_op w (\<lambda>w0.
     and_then acquire_op (io_call w0) (\<lambda>_ w1.
     let (now, w2) = time_Now w1 in
     and_then acquire_op (io_call w2) (\<lambda>_ w3.
     let refused = (case current_lease scopeID (ls_Action l) now (db_Leases w3) of
           None \<Rightarrow> None
         | Some cur \<Rightarrow> if ls_Owner cur \<noteq> ls_Owner l
             then Some (New acquire_op (''lease held by '' @ ls_Owner cur @ '' for '' @ scopeID @ ''/'' @ ls_Action l)) else None)
     in case refused of Some e \<Rightarrow> (Inl e, w3) | None \<Rightarrow>
     and_then acquire_op (io_call w3) (\<lambda>_ w4.
     let kept = filter (\<lambda>r. \<not> lease_for scopeID (ls_Action l) r) (db_Leases w4) in
     and_then acquire_op (io_call w4) (\<lambda>_ w5.
     if \<exists>r \<in> set kept. ls_ID (lr_Lease r) = ls_ID l then (Inl (wrap_err acquire_op unique_violation), w5)
     else let (created, w6) = time_Now w5 in
     and_then acquire_op (io_call w6) (\<lambda>_ w7.
       (Inr (), w7\<lparr>db_Leases := kept @ [\<lparr>lr_ScopeID = scopeID, lr_Lease = l\<lparr>ls_CreatedAt := created\<rparr>\<rparr>]\<rparr>)))))))"

definition renew_op :: string where
  "renew_op = ''storage.sqlite.LeaseRepository.RenewLease''"

definition renew_matches :: "string \<Rightarrow> string \<Rightarrow> string \<Rightarrow> string \<Rightarrow> int \<Rightarrow> lease_row \<Rightarrow> bool" where
  "renew_matches scopeID leaseID owner epochID fencingToken r \<longleftrightarrow>
     ls_ID (lr_Lease r) = leaseID \<and> lr_ScopeID r = scopeID \<and> ls_Owner (lr_Lease r) = owner \<and>
     ls_EpochID (lr_Lease r) = epochID \<and> ls_FencingToken (lr_Lease r) = fencingToken"

definition repo_RenewLease :: "string \<Rightarrow> string \<Rightarrow> string \<Rightarrow> string \<Rightarrow> int \<Rightarrow> go_time \<Rightarrow> 'z db_env_scheme \<Rightarrow> unit result \<times> 'z db_env_scheme" where
  "repo_RenewLease scopeID leaseID owner epochID fencingToken expiresAt w =
     writable renew_op w (\<lambda>w0.
     if scopeID = [] then (Inl (New renew_op ''scope_id is required''), w0)
     else if owner = [] then (Inl (New renew_op ''owner is required''), w0)
     else if epochID = [] then (Inl (New renew_op ''epoch_id is required''), w0)
     else and_then renew_op (io_call w0) (\<lambda>_ w1.
       let hit = renew_matches scopeID leaseID owner epochID fencingToken in
       if \<exists>r \<in> set (db_Leases w1). hit r then
         (Inr (), w1\<lparr>db_Leases := map (\<lambda>r. if hit r then r\<lparr>lr_Lease := (lr_Lease r)\<lparr>ls_ExpiresAt := expiresAt\<rparr>\<rparr> else r) (db_Leases w1)\<rparr>)
       else (Inl (New renew_op (''failed to renew lease '' @ leaseID @ '': not found or owner/scope/epoch/fencing mismatch'')), w1)))"

definition release_op :: string where
  "release_op = ''storage.sqlite.LeaseRepository.ReleaseLease''"

definition release_matches :: "string \<Rightarrow> string \<Rightarrow> string \<Rightarrow> lease_row \<Rightarrow> bool" where
  "release_matches scopeID leaseID owner r \<longleftrightarrow>
     ls_ID (lr_Lease r) = leaseID \<and> lr_ScopeID r = scopeID \<and> ls_Owner (lr_Lease r) = owner"

definition repo_ReleaseLease :: "string \<Rightarrow> string \<Rightarrow> string \<Rightarrow> 'z db_env_scheme \<Rightarrow> unit result \<times> 'z db_env_scheme" where
  "repo_ReleaseLease scopeID leaseID owner w =
     writable release_op w (\<lambda>w0.
     and_then release_op (io_call w0) (\<lambda>_ w1.
       (Inr (), w1\<lparr>db_Leases := filter (\<lambda>r. \<not> release_matches scopeID leaseID owner r) (db_Leases w1)\<rparr>)))"

definition NormalizeLeases :: "'z db_env_scheme \<Rightarrow> unit result \<times> 'z db_env_scheme" where
  "NormalizeLeases w =
     and_then ''storage.sqlite.DB.NormalizeLeases'' (io_call w) (\<lambda>_ w1.
       (Inr (), w1\<lparr>db_Leases := map (\<lambda>r. if lr_ScopeID r = [] then r\<lparr>lr_ScopeID := ''default''\<rparr> else r) (db_Leases w1)\<rparr>))"

section \<open>What the operations do to the table\<close>

definition lease_inv :: "'z db_env_scheme \<Rightarrow> bool" where
  "lease_inv w \<longleftrightarrow> distinct (map (\<lambda>r. (lr_ScopeID r, ls_Action (lr_Lease r))) (db_Leases w)) \<and>
     distinct (map (\<lambda>r. ls_ID (lr_Lease r)) (db_Leases w))"

lemma best_lease_None [simp]: "best_lease ls = None \<longleftrightarrow> ls = []"
  by (cases ls) (auto split: option.splits)

lemma best_lease_in: "best_lease ls = Some b \<Longrightarrow> b \<in> set ls"
  by (induction ls arbitrary: b) (auto split: option.splits if_splits)

text \<open>Acquiring: a failed call leaves the table alone; a successful one was not blocked by another
  owner and leaves exactly the new lease for its scope and action.\<close>

lemma repo_AcquireLease_cases:
  assumes "repo_AcquireLease scopeID l w = (r, w')"
  shows "(\<exists>e. r = Inl e) \<and> db_Leases w' = db_Leases w \<or>
    r = Inr () \<and>
    (\<exists>created. db_Leases w' = filter (\<lambda>r. \<not> lease_for scopeID (ls_Action l) r) (db_Leases w) @
         [\<lparr>lr_ScopeID = scopeID, lr_Lease = l\<lparr>ls_CreatedAt := created\<rparr>\<rparr>]) \<and>
    (\<forall>cur. current_lease scopeID (ls_Action l) (io_clock w (Suc (io_step w))) (db_Leases w) = Some cur \<longrightarrow> ls_Owner cur = ls_Owner l) \<and>
    (\<forall>r \<in> set (db_Leases w). \<not> lease_for scopeID (ls_Action l) r \<longrightarrow> ls_ID (lr_Lease r) \<noteq> ls_ID l)"
  using assms
  by (auto simp: repo_AcquireLease_def writable_def ensureWritable_def and_then_def io_call_def time_Now_def Let_def
      split: option.splits if_splits)

lemma repo_AcquireLease_frame:
  assumes "repo_AcquireLease scopeID l w = (r, w')"
  shows "fs_files w' = fs_files w" "db_Events w' = db_Events w" "io_fault w' = io_fault w" "io_clock w' = io_clock w"
    "db_ReadOnly w' = db_ReadOnly w"
  using assms
  by (auto simp: repo_AcquireLease_def writable_def ensureWritable_def and_then_def io_call_def time_Now_def Let_def
      split: option.splits if_splits)

lemma repo_RenewLease_cases:
  assumes "repo_RenewLease scopeID leaseID owner epochID token expiresAt w = (r, w')"
  shows "db_Leases w' = db_Leases w \<or>
    db_Leases w' = map (\<lambda>r. if renew_matches scopeID leaseID owner epochID token r
      then r\<lparr>lr_Lease := (lr_Lease r)\<lparr>ls_ExpiresAt := expiresAt\<rparr>\<rparr> else r) (db_Leases w)"
  using assms
  by (auto simp: repo_RenewLease_def writable_def ensureWritable_def and_then_def io_call_def Let_def
      split: option.splits if_splits)

lemma repo_ReleaseLease_cases:
  assumes "repo_ReleaseLease scopeID leaseID owner w = (r, w')"
  shows "db_Leases w' = db_Leases w \<or>
    db_Leases w' = filter (\<lambda>r. \<not> release_matches scopeID leaseID owner r) (db_Leases w)"
  using assms
  by (auto simp: repo_ReleaseLease_def writable_def ensureWritable_def and_then_def io_call_def
      split: option.splits if_splits)

text \<open>The invariant: one lease per scope and action, and one per identifier.\<close>

lemma lease_inv_filter: "lease_inv w \<Longrightarrow> db_Leases w' = filter P (db_Leases w) \<Longrightarrow> lease_inv w'"
  by (simp add: lease_inv_def distinct_map_filter)

lemma repo_AcquireLease_inv [go_inv]:
  assumes "lease_inv w" and "repo_AcquireLease scopeID l w = (r, w')"
  shows "lease_inv w'"
proof -
  let ?kept = "filter (\<lambda>r. \<not> lease_for scopeID (ls_Action l) r) (db_Leases w)"
  have kept: "distinct (map (\<lambda>r. (lr_ScopeID r, ls_Action (lr_Lease r))) ?kept)" "distinct (map (\<lambda>r. ls_ID (lr_Lease r)) ?kept)"
    using assms(1) by (auto simp: lease_inv_def distinct_map_filter)
  from repo_AcquireLease_cases [OF assms(2)] show ?thesis
  proof (elim disjE conjE exE)
    fix created
    assume "db_Leases w' = ?kept @ [\<lparr>lr_ScopeID = scopeID, lr_Lease = l\<lparr>ls_CreatedAt := created\<rparr>\<rparr>]"
      and "\<forall>r \<in> set (db_Leases w). \<not> lease_for scopeID (ls_Action l) r \<longrightarrow> ls_ID (lr_Lease r) \<noteq> ls_ID l"
    then show ?thesis using kept by (auto simp: lease_inv_def lease_for_def)
  next
    assume "db_Leases w' = db_Leases w"
    then show ?thesis using assms(1) by (simp add: lease_inv_def)
  qed
qed

lemma repo_RenewLease_inv [go_inv]:
  assumes "lease_inv w" and "repo_RenewLease scopeID leaseID owner epochID token expiresAt w = (r, w')"
  shows "lease_inv w'"
proof -
  let ?f = "\<lambda>r. if renew_matches scopeID leaseID owner epochID token r
      then r\<lparr>lr_Lease := (lr_Lease r)\<lparr>ls_ExpiresAt := expiresAt\<rparr>\<rparr> else r"
  have same: "map (\<lambda>r. (lr_ScopeID r, ls_Action (lr_Lease r))) (map ?f rows) = map (\<lambda>r. (lr_ScopeID r, ls_Action (lr_Lease r))) rows"
    "map (\<lambda>r. ls_ID (lr_Lease r)) (map ?f rows) = map (\<lambda>r. ls_ID (lr_Lease r)) rows" for rows
    by (induction rows) auto
  from repo_RenewLease_cases [OF assms(2)] show ?thesis
  proof
    assume "db_Leases w' = map ?f (db_Leases w)"
    then show ?thesis using assms(1) unfolding lease_inv_def by (simp only: same)
  qed (use assms(1) in \<open>simp add: lease_inv_def\<close>)
qed

lemma repo_ReleaseLease_inv [go_inv]:
  assumes "lease_inv w" and "repo_ReleaseLease scopeID leaseID owner w = (r, w')"
  shows "lease_inv w'"
  using repo_ReleaseLease_cases [OF assms(2)] assms(1) lease_inv_filter [of w w'] by (auto simp: lease_inv_def)

section \<open>The contract of a lease store\<close>

text \<open>What the users of a lease store rely on: a table of leases that every operation keeps
  well-formed, in which another owner's operation cannot change a lease before it expires.\<close>

locale lease_store =
  fixes acquire :: "string \<Rightarrow> lease \<Rightarrow> 'w \<Rightarrow> unit result \<times> 'w"
    and renew :: "string \<Rightarrow> string \<Rightarrow> string \<Rightarrow> string \<Rightarrow> int \<Rightarrow> go_time \<Rightarrow> 'w \<Rightarrow> unit result \<times> 'w"
    and release :: "string \<Rightarrow> string \<Rightarrow> string \<Rightarrow> 'w \<Rightarrow> unit result \<times> 'w"
    and held :: "'w \<Rightarrow> lease_row set"
    and inv :: "'w \<Rightarrow> bool"
    and now_of :: "'w \<Rightarrow> go_time"
  assumes acquire_inv: "inv w \<Longrightarrow> acquire s l w = (r, w') \<Longrightarrow> inv w'"
    and renew_inv: "inv w \<Longrightarrow> renew s i ow e k x w = (r, w') \<Longrightarrow> inv w'"
    and release_inv: "inv w \<Longrightarrow> release s i ow w = (r, w') \<Longrightarrow> inv w'"
    and held_unique: "inv w \<Longrightarrow> row \<in> held w \<Longrightarrow> row' \<in> held w \<Longrightarrow> lr_ScopeID row = lr_ScopeID row' \<Longrightarrow>
      ls_Action (lr_Lease row) = ls_Action (lr_Lease row') \<Longrightarrow> row = row'"
    and acquire_other: "inv w \<Longrightarrow> row \<in> held w \<Longrightarrow> ls_ExpiresAt (lr_Lease row) > now_of w \<Longrightarrow>
      ls_Owner l \<noteq> ls_Owner (lr_Lease row) \<Longrightarrow> acquire s l w = (r, w') \<Longrightarrow>
      row \<in> held w' \<and> (s = lr_ScopeID row \<and> ls_Action l = ls_Action (lr_Lease row) \<longrightarrow> r \<noteq> Inr ())"
    and renew_other: "inv w \<Longrightarrow> row \<in> held w \<Longrightarrow> ow \<noteq> ls_Owner (lr_Lease row) \<Longrightarrow> renew s i ow e k x w = (r, w') \<Longrightarrow> row \<in> held w'"
    and release_other: "inv w \<Longrightarrow> row \<in> held w \<Longrightarrow> ow \<noteq> ls_Owner (lr_Lease row) \<Longrightarrow> release s i ow w = (r, w') \<Longrightarrow> row \<in> held w'"
begin

text \<open>A run of operations by anyone but the holder, each before the lease expires.\<close>

inductive foreign_run :: "lease_row \<Rightarrow> 'w \<Rightarrow> 'w \<Rightarrow> bool" for row where
  foreign_refl: "foreign_run row w w"
| foreign_acquire: "foreign_run row w v \<Longrightarrow> ls_ExpiresAt (lr_Lease row) > now_of v \<Longrightarrow> ls_Owner l \<noteq> ls_Owner (lr_Lease row) \<Longrightarrow>
    acquire s l v = (r, w') \<Longrightarrow> foreign_run row w w'"
| foreign_renew: "foreign_run row w v \<Longrightarrow> ow \<noteq> ls_Owner (lr_Lease row) \<Longrightarrow> renew s i ow e k x v = (r, w') \<Longrightarrow> foreign_run row w w'"
| foreign_release: "foreign_run row w v \<Longrightarrow> ow \<noteq> ls_Owner (lr_Lease row) \<Longrightarrow> release s i ow v = (r, w') \<Longrightarrow> foreign_run row w w'"

lemma foreign_run_keeps: "foreign_run row w w' \<Longrightarrow> inv w \<Longrightarrow> row \<in> held w \<Longrightarrow> inv w' \<and> row \<in> held w'"
proof (induction rule: foreign_run.induct)
  case (foreign_acquire w v l s r w')
  then show ?case using acquire_inv acquire_other by blast
next
  case (foreign_renew w v ow s i e k x r w')
  then show ?case using renew_inv renew_other by blast
next
  case (foreign_release w v ow s i r w')
  then show ?case using release_inv release_other by blast
qed simp

text \<open>Two holders of the same scope and action are the same holder.\<close>

lemma exclusive:
  assumes "foreign_run row w w'" and "inv w" and "row \<in> held w" and "row' \<in> held w'"
    and "lr_ScopeID row' = lr_ScopeID row" and "ls_Action (lr_Lease row') = ls_Action (lr_Lease row)"
  shows "row' = row"
  using foreign_run_keeps [OF assms(1-3)] held_unique assms(4-6) by blast

end

text \<open>The SQLite table keeps the contract. The reading of the clock that decides is the second entry
  of the script, after the start of the transaction.\<close>

interpretation leases: lease_store repo_AcquireLease repo_RenewLease repo_ReleaseLease
  "\<lambda>w. set (db_Leases w)" lease_inv "\<lambda>w. io_clock w (Suc (io_step w))"
proof
  fix w :: "'a db_env_scheme" and row row'
  assume "lease_inv w" "row \<in> set (db_Leases w)" "row' \<in> set (db_Leases w)" "lr_ScopeID row = lr_ScopeID row'"
    "ls_Action (lr_Lease row) = ls_Action (lr_Lease row')"
  then show "row = row'" by (auto simp: lease_inv_def distinct_map inj_on_def)
next
  fix w w' :: "'a db_env_scheme" and row l s r
  assume inv: "lease_inv w" and row: "row \<in> set (db_Leases w)" and live: "ls_ExpiresAt (lr_Lease row) > io_clock w (Suc (io_step w))"
    and other: "ls_Owner l \<noteq> ls_Owner (lr_Lease row)" and ac: "repo_AcquireLease s l w = (r, w')"
  have blocked: "\<exists>cur. current_lease s (ls_Action l) (io_clock w (Suc (io_step w))) (db_Leases w) = Some cur \<and> ls_Owner cur \<noteq> ls_Owner l"
    if for_row: "lease_for s (ls_Action l) row"
  proof -
    let ?live = "filter (\<lambda>r. lease_for s (ls_Action l) r \<and> ls_ExpiresAt (lr_Lease r) > io_clock w (Suc (io_step w))) (db_Leases w)"
    have all: "x = row" if "x \<in> set ?live" for x
      using that row for_row inv by (auto simp: lease_inv_def distinct_map inj_on_def lease_for_def)
    have "row \<in> set ?live" using row live for_row by simp
    then have "map lr_Lease ?live \<noteq> []" by (metis list.map_disc_iff list.set(1) empty_iff)
    then obtain b where "best_lease (map lr_Lease ?live) = Some b" by (cases "best_lease (map lr_Lease ?live)") simp_all
    then show ?thesis using best_lease_in [of "map lr_Lease ?live" b] all other by (auto simp: current_lease_def)
  qed
  show "row \<in> set (db_Leases w') \<and> (s = lr_ScopeID row \<and> ls_Action l = ls_Action (lr_Lease row) \<longrightarrow> r \<noteq> Inr ())"
    using repo_AcquireLease_cases [OF ac]
  proof (elim disjE conjE exE)
    fix created
    assume rows: "db_Leases w' = filter (\<lambda>r. \<not> lease_for s (ls_Action l) r) (db_Leases w) @
         [\<lparr>lr_ScopeID = s, lr_Lease = l\<lparr>ls_CreatedAt := created\<rparr>\<rparr>]"
      and "\<forall>cur. current_lease s (ls_Action l) (io_clock w (Suc (io_step w))) (db_Leases w) = Some cur \<longrightarrow> ls_Owner cur = ls_Owner l"
    then have "\<not> lease_for s (ls_Action l) row" using blocked by blast
    then show ?thesis using rows row by (auto simp: lease_for_def)
  qed (use row in simp)
next
  fix w w' :: "'a db_env_scheme" and row ow s i e k x r
  assume "row \<in> set (db_Leases w)" "ow \<noteq> ls_Owner (lr_Lease row)" "repo_RenewLease s i ow e k x w = (r, w')"
  then show "row \<in> set (db_Leases w')"
    using repo_RenewLease_cases by (force simp: renew_matches_def)
next
  fix w w' :: "'a db_env_scheme" and row ow s i r
  assume "row \<in> set (db_Leases w)" "ow \<noteq> ls_Owner (lr_Lease row)" "repo_ReleaseLease s i ow w = (r, w')"
  then show "row \<in> set (db_Leases w')"
    using repo_ReleaseLease_cases by (force simp: release_matches_def)
qed (auto intro: go_inv)

text \<open>
  C2: leases exclude each other. While a lease has not expired, no sequence of acquisitions, renewals and
  releases by other owners, with whatever failures, changes its row, lets another owner's lease for the
  same scope and action into the table, or lets an acquisition of that scope and action by another
  owner succeed.
\<close>

theorem lease_mutual_exclusion:
  fixes w w' :: "'z db_env_scheme"
  assumes "lease_inv w" and "row \<in> set (db_Leases w)" and "leases.foreign_run row w w'"
  shows "row \<in> set (db_Leases w') \<and>
    (\<forall>row' \<in> set (db_Leases w'). lease_for (lr_ScopeID row) (ls_Action (lr_Lease row)) row' \<longrightarrow> row' = row) \<and>
    (\<forall>l r w''. ls_Owner l \<noteq> ls_Owner (lr_Lease row) \<and> ls_Action l = ls_Action (lr_Lease row) \<and>
       ls_ExpiresAt (lr_Lease row) > io_clock w' (Suc (io_step w')) \<and>
       repo_AcquireLease (lr_ScopeID row) l w' = (r, w'') \<longrightarrow> r \<noteq> Inr ())"
proof -
  have keep: "lease_inv w'" "row \<in> set (db_Leases w')" using leases.foreign_run_keeps [OF assms(3,1,2)] by auto
  have "row' = row" if "row' \<in> set (db_Leases w')" "lease_for (lr_ScopeID row) (ls_Action (lr_Lease row)) row'" for row'
    using leases.exclusive [OF assms(3,1,2) that(1)] that(2) by (simp add: lease_for_def)
  with keep(2) leases.acquire_other [OF keep] show ?thesis by blast
qed

definition sample_lease :: lease where
  "sample_lease = \<lparr>ls_ID = ''lease-1'', ls_Owner = ''node-a'', ls_Action = ''reconcile'', ls_EpochID = ''ep-1'',
     ls_ExpiresAt = 1000, ls_CreatedAt = 0, ls_FencingToken = 1\<rparr>"

definition leased_db :: db_env where
  "leased_db = \<lparr>io_clock = int, io_fault = \<lambda>_. None, io_choice = \<lambda>_. False, io_step = 0, fs_files = [],
     db_ReadOnly = False, db_Events = [], db_NextEventID = 1, db_Sequences = [], db_Checkpoints = [],
     db_Leases = [\<lparr>lr_ScopeID = ''s1'', lr_Lease = sample_lease\<rparr>]\<rparr>"

theorem lease_mutual_exclusion_witness:
  "\<lparr>lr_ScopeID = ''s1'', lr_Lease = sample_lease\<rparr> \<in>
     set (db_Leases (snd (repo_AcquireLease ''s1'' (sample_lease\<lparr>ls_ID := ''lease-2'', ls_Owner := ''node-b''\<rparr>) leased_db)))"
proof -
  let ?row = "\<lparr>lr_ScopeID = ''s1'', lr_Lease = sample_lease\<rparr>"
  let ?l = "sample_lease\<lparr>ls_ID := ''lease-2'', ls_Owner := ''node-b''\<rparr>"
  have "leases.foreign_run ?row leased_db (snd (repo_AcquireLease ''s1'' ?l leased_db))"
    by (rule leases.foreign_acquire [OF leases.foreign_refl _ _ prod.collapse [symmetric]])
      (simp_all add: leased_db_def sample_lease_def)
  from lease_mutual_exclusion [OF _ _ this] show ?thesis by (simp add: leased_db_def lease_inv_def)
qed

end
