(* ===== verification/Coordination.thy ===== *)
theory Coordination
  imports Lease_Repository Lifecycle "HOL-Library.Signed_Division"
begin

text \<open>
  \<open>internal/runtime/coordination\<close>: the lease manager (\<open>lease.go\<close>), which keeps a mirror of the leases in
  the runtime state and, when it has one, in the lease store, and the heartbeat (\<open>heartbeat.go\<close>). The
  mutex makes every method atomic; each of its readings of the clock is a separate entry of the
  script.
\<close>

record lease_manager =
  lm_expiry :: duration
  lm_scopeID :: string
  lm_leases :: bool

definition NewLeaseManager :: "duration \<Rightarrow> lease_manager" where
  "NewLeaseManager expiry = \<lparr>lm_expiry = expiry, lm_scopeID = [], lm_leases = False\<rparr>"

definition WithLeaseStore :: "string \<Rightarrow> lease_manager \<Rightarrow> lease_manager" where
  "WithLeaseStore scopeID m = m\<lparr>lm_scopeID := scopeID, lm_leases := True\<rparr>"

definition HasPersistentLeaseStore :: "lease_manager \<Rightarrow> bool" where
  "HasPersistentLeaseStore m \<longleftrightarrow> lm_scopeID m \<noteq> [] \<and> lm_leases m"

text \<open>Nanoseconds from the zero instant to 1970.\<close>

definition unix_epoch :: go_time where
  "unix_epoch = 62135596800000000000"

definition UnixNano :: "go_time \<Rightarrow> int" where
  "UnixNano t = int64_of (t - unix_epoch)"

definition manager_acquire_op :: string where
  "manager_acquire_op = ''runtime.coordination.Acquire''"

definition put_lease :: "string \<Rightarrow> lease \<Rightarrow> runtime_state \<Rightarrow> runtime_state" where
  "put_lease action l st = (if action = ''rollback'' then st\<lparr>rs_ActiveRollbackLease := Some l\<rparr> else st\<lparr>rs_ActiveLease := Some l\<rparr>)"

text \<open>The epoch and the lease that \<open>Acquire\<close> makes, each field with its own reading of the clock, and
  the question whether the lease may be taken.\<close>

definition acquired_epoch :: "epoch \<Rightarrow> string \<Rightarrow> go_time \<Rightarrow> go_time \<Rightarrow> epoch" where
  "acquired_epoch cur schedulerRunID t1 t2 =
     \<lparr>ep_ID = ''ep-'' @ show_int (UnixNano t1), ep_ParentID = ep_ID cur,
      ep_Generation = int64_of (ep_Generation cur + 1), ep_SchedulerRunID = schedulerRunID, ep_CreatedAt = t2\<rparr>"

definition acquired_lease :: "lease_manager \<Rightarrow> string \<Rightarrow> string \<Rightarrow> epoch \<Rightarrow> go_time \<Rightarrow> go_time \<Rightarrow> lease" where
  "acquired_lease m owner action newEpoch t3 t4 =
     \<lparr>ls_ID = ''lease-'' @ ep_ID newEpoch, ls_Owner = owner, ls_Action = action, ls_EpochID = ep_ID newEpoch,
      ls_ExpiresAt = time_add t3 (lm_expiry m), ls_CreatedAt = t4, ls_FencingToken = ep_Generation newEpoch\<rparr>"

definition claim_lease :: "lease_manager \<Rightarrow> string \<Rightarrow> string \<Rightarrow> runtime_state \<Rightarrow> lease \<Rightarrow> 'z db_env_scheme \<Rightarrow> unit result \<times> 'z db_env_scheme" where
  "claim_lease m owner action cur newLease w =
     (if lm_leases m then and_then manager_acquire_op (repo_AcquireLease (lm_scopeID m) newLease w) (\<lambda>u w1. (Inr u, w1))
      else case (if action = ''rollback'' then rs_ActiveRollbackLease cur else rs_ActiveLease cur) of
          None \<Rightarrow> (Inr (), w)
        | Some a \<Rightarrow> let (t5, w1) = time_Now w in
            if \<not> IsExpired t5 a \<and> ls_Owner a \<noteq> owner
            then (Inl (New manager_acquire_op (''lease owned by '' @ ls_Owner a @ '' (action: '' @ ls_Action a @ '')'')), w1)
            else (Inr (), w1))"

definition manager_Acquire :: "lease_manager \<Rightarrow> string \<Rightarrow> string \<Rightarrow> string \<Rightarrow> 'z db_env_scheme \<Rightarrow> (lease \<times> epoch) result \<times> 'z db_env_scheme" where
  "manager_Acquire m owner action schedulerRunID w =
     and_then manager_acquire_op (store_Load w) (\<lambda>cur w1.
     let (t1, w2) = time_Now w1; (t2, w3) = time_Now w2; (t3, w4) = time_Now w3; (t4, w5) = time_Now w4;
         newEpoch = acquired_epoch (rs_CurrentEpoch cur) schedulerRunID t1 t2;
         newLease = acquired_lease m owner action newEpoch t3 t4
     in and_try (claim_lease m owner action cur newLease w5) (\<lambda>_ w6.
     and_then manager_acquire_op (store_Save (put_lease action newLease (cur\<lparr>rs_CurrentEpoch := newEpoch\<rparr>)) w6) (\<lambda>_ w7.
     (Inr (newLease, newEpoch), w7))))"

definition manager_Release :: "lease_manager \<Rightarrow> string \<Rightarrow> 'z db_env_scheme \<Rightarrow> unit result \<times> 'z db_env_scheme" where
  "manager_Release m leaseID w =
     (let op = ''runtime.coordination.Release'' in
      and_then op (store_Load w) (\<lambda>cur w1.
      let found = (case rs_ActiveLease cur of
            Some l \<Rightarrow> if ls_ID l = leaseID then Some (l, cur\<lparr>rs_ActiveLease := None\<rparr>) else None | None \<Rightarrow> None);
          found' = (case found of Some x \<Rightarrow> Some x | None \<Rightarrow> (case rs_ActiveRollbackLease cur of
            Some l \<Rightarrow> if ls_ID l = leaseID then Some (l, cur\<lparr>rs_ActiveRollbackLease := None\<rparr>) else None | None \<Rightarrow> None))
      in case found' of
           None \<Rightarrow> (Inr (), w1)
         | Some (l, st) \<Rightarrow>
             and_then op (if lm_leases m then repo_ReleaseLease (lm_scopeID m) leaseID (ls_Owner l) w1 else (Inr (), w1))
               (\<lambda>_ w2. store_Save st w2)))"

definition activeLeaseByID :: "runtime_state \<Rightarrow> string \<Rightarrow> lease option" where
  "activeLeaseByID st leaseID =
     (case rs_ActiveLease st of
        Some l \<Rightarrow> if ls_ID l = leaseID then Some l
          else (case rs_ActiveRollbackLease st of Some k \<Rightarrow> if ls_ID k = leaseID then Some k else None | None \<Rightarrow> None)
      | None \<Rightarrow> (case rs_ActiveRollbackLease st of Some k \<Rightarrow> if ls_ID k = leaseID then Some k else None | None \<Rightarrow> None))"

definition manager_Renew :: "lease_manager \<Rightarrow> string \<Rightarrow> duration \<Rightarrow> 'z db_env_scheme \<Rightarrow> unit result \<times> 'z db_env_scheme" where
  "manager_Renew m leaseID ttl0 w =
     (let op = ''runtime.coordination.Renew''; ttl = (if ttl0 \<le> 0 then lm_expiry m else ttl0) in
      if ttl \<le> 0 then (Inl (New op ''lease ttl must be positive''), w)
      else and_then op (store_Load w) (\<lambda>cur w1.
        case activeLeaseByID cur leaseID of
          None \<Rightarrow> (Inl (New op (''active lease not found: '' @ leaseID)), w1)
        | Some l0 \<Rightarrow>
            let (now, w2) = time_Now w1; l = l0\<lparr>ls_ExpiresAt := time_add now ttl\<rparr> in
            and_then op (if lm_leases m
                then repo_RenewLease (lm_scopeID m) (ls_ID l) (ls_Owner l) (ls_EpochID l) (ls_FencingToken l) (ls_ExpiresAt l) w2
                else (Inr (), w2)) (\<lambda>_ w3. store_Save (put_lease (ls_Action l) l cur) w3)))"

section \<open>Heartbeat\<close>

text \<open>\<open>StartHeartbeat\<close> starts a goroutine that renews the lease at every tick until its context is
  cancelled. \<open>heartbeat_run n\<close> is what the goroutine does in the first \<open>n\<close> ticks before the
  cancellation: the error it reports as the loss of the lease, if any, after which it returns.\<close>

record heartbeat_config =
  hc_Interval :: duration
  hc_TTL :: duration
  hc_FailureThreshold :: int

definition heartbeat_defaults :: "lease_manager \<Rightarrow> heartbeat_config \<Rightarrow> heartbeat_config" where
  "heartbeat_defaults m cfg =
     (let i0 = (if hc_Interval cfg \<le> 0 then lm_expiry m sdiv 2 else hc_Interval cfg);
          i = (if i0 \<le> 0 then Second else i0);
          t0 = (if hc_TTL cfg \<le> 0 then lm_expiry m else hc_TTL cfg);
          t = (if t0 \<le> 0 then int64_of (i * 2) else t0);
          f = (if hc_FailureThreshold cfg \<le> 0 then 3 else hc_FailureThreshold cfg)
      in \<lparr>hc_Interval = i, hc_TTL = t, hc_FailureThreshold = f\<rparr>)"

fun heartbeat_run :: "nat \<Rightarrow> lease_manager \<Rightarrow> string \<Rightarrow> heartbeat_config \<Rightarrow> int \<Rightarrow> 'z db_env_scheme \<Rightarrow> error option \<times> 'z db_env_scheme" where
  "heartbeat_run 0 m leaseID cfg failures w = (None, w)"
| "heartbeat_run (Suc n) m leaseID cfg failures w =
     (case manager_Renew m leaseID (hc_TTL cfg) w of
        (Inl e, w1) \<Rightarrow>
          if failures + 1 \<ge> hc_FailureThreshold cfg then (Some e, w1)
          else heartbeat_run n m leaseID cfg (failures + 1) w1
      | (Inr _, w1) \<Rightarrow> heartbeat_run n m leaseID cfg 0 w1)"

definition StartHeartbeat :: "lease_manager \<Rightarrow> lease \<Rightarrow> heartbeat_config \<Rightarrow> nat \<Rightarrow> 'z db_env_scheme \<Rightarrow> error option \<times> 'z db_env_scheme" where
  "StartHeartbeat m l cfg ticks w = heartbeat_run ticks m (ls_ID l) (heartbeat_defaults m cfg) 0 w"

section \<open>What the manager's methods do to the stored state\<close>

lemma repo_RenewLease_frame:
  "repo_RenewLease scopeID leaseID owner epochID token expiresAt w = (r, w') \<Longrightarrow> fs_files w' = fs_files w"
  by (auto simp: repo_RenewLease_def writable_def ensureWritable_def and_then_def io_call_def Let_def
      split: option.splits if_splits)

lemma repo_ReleaseLease_frame:
  "repo_ReleaseLease scopeID leaseID owner w = (r, w') \<Longrightarrow> fs_files w' = fs_files w"
  by (auto simp: repo_ReleaseLease_def writable_def ensureWritable_def and_then_def io_call_def
      split: option.splits if_splits)

text \<open>A method that loads the state, makes calls that leave the files alone, and saves at the end:
  either the stored state is as it was, or it is the saved one.\<close>

lemma load_then:
  assumes "and_then op (store_Load w) k = (r, w')" and "stored_state w = Inr cur"
  obtains (failed) e where "r = Inl e" "stored_state w' = Inr cur" "w' = w\<lparr>io_step := Suc (io_step w)\<rparr>"
    | (loaded) "k cur (w\<lparr>io_step := Suc (io_step w)\<rparr>) = (r, w')"
proof (cases w rule: store_Load_cases)
  case 1
  then show ?thesis using assms loaded by simp
next
  case (2 e)
  then have r: "r = Inl (wrap_err op (wrap_err ''runtime.state.Load'' e))" and w': "w' = w\<lparr>io_step := Suc (io_step w)\<rparr>"
    using assms(1) by simp_all
  have "stored_state w' = Inr cur" using stored_state_files [of w' w] w' assms(2) by simp
  then show ?thesis using failed r w' by blast
qed

lemma save_stored:
  assumes "store_Save st v = (r, w')" and "state_ok st" and "fs_files v = fs_files w" and "stored_state w = Inr cur"
  shows "stored_state w' = Inr st \<and> r = Inr () \<or> stored_state w' = Inr cur \<and> (\<exists>e. r = Inl e)"
  using store_Save_stored [OF assms(1,2)] stored_state_files [OF assms(3)] assms(4) by (cases r) auto

lemma put_lease_ok:
  "state_ok st \<Longrightarrow> lease_ok l \<Longrightarrow> state_ok (put_lease action l st)"
  by (simp add: put_lease_def state_ok_def)

lemma put_lease_epoch [simp]: "rs_CurrentEpoch (put_lease action l st) = rs_CurrentEpoch st"
  by (simp add: put_lease_def)

lemma claim_lease_files: "fs_files (snd (claim_lease m owner action cur l w)) = fs_files w"
proof (cases "lm_leases m")
  case True
  then show ?thesis
    using repo_AcquireLease_frame(1) [OF prod.collapse [symmetric], of "lm_scopeID m" l w]
    by (auto simp: claim_lease_def and_then_def split: prod.splits sum.splits)
next
  case False
  then show ?thesis by (simp add: claim_lease_def time_Now_def Let_def split: option.split)
qed

lemma acquired_state_ok:
  assumes "state_ok cur"
  shows "state_ok (put_lease action (acquired_lease m owner action (acquired_epoch (rs_CurrentEpoch cur) run t1 t2) t3 t4)
     (cur\<lparr>rs_CurrentEpoch := acquired_epoch (rs_CurrentEpoch cur) run t1 t2\<rparr>))"
  using assms is_int64_int64_of
  by (intro put_lease_ok) (auto simp: state_ok_def lease_ok_def acquired_epoch_def acquired_lease_def)

lemma manager_Acquire_cases:
  assumes ac: "manager_Acquire m owner action run w = (r, w')" and cur: "stored_state w = Inr cur" and ok: "state_ok cur"
  obtains (failed) e where "r = Inl e" "stored_state w' = Inr cur"
    | (acquired) t1 t2 t3 t4 ep l where "ep = acquired_epoch (rs_CurrentEpoch cur) run t1 t2"
        "l = acquired_lease m owner action ep t3 t4" "r = Inr (l, ep)"
        "stored_state w' = Inr (put_lease action l (cur\<lparr>rs_CurrentEpoch := ep\<rparr>))"
        "state_ok (put_lease action l (cur\<lparr>rs_CurrentEpoch := ep\<rparr>))"
  using ac [unfolded manager_Acquire_def] cur
proof (cases rule: load_then)
  case failed
  then show thesis using that(1) by simp
next
  case loaded
  obtain t1 t2 t3 t4 w5 where
    body: "and_try (claim_lease m owner action cur (acquired_lease m owner action (acquired_epoch (rs_CurrentEpoch cur) run t1 t2) t3 t4) w5) (\<lambda>_ w6.
       and_then manager_acquire_op (store_Save (put_lease action (acquired_lease m owner action (acquired_epoch (rs_CurrentEpoch cur) run t1 t2) t3 t4)
           (cur\<lparr>rs_CurrentEpoch := acquired_epoch (rs_CurrentEpoch cur) run t1 t2\<rparr>)) w6) (\<lambda>_ w7.
       (Inr (acquired_lease m owner action (acquired_epoch (rs_CurrentEpoch cur) run t1 t2) t3 t4, acquired_epoch (rs_CurrentEpoch cur) run t1 t2), w7))) = (r, w')"
    and files: "fs_files w5 = fs_files w"
    using loaded by (auto simp: time_Now_def Let_def)
  define ep where "ep = acquired_epoch (rs_CurrentEpoch cur) run t1 t2"
  define l where "l = acquired_lease m owner action ep t3 t4"
  note body = body [folded ep_def, folded l_def]
  have st_ok: "state_ok (put_lease action l (cur\<lparr>rs_CurrentEpoch := ep\<rparr>))"
    unfolding l_def ep_def by (rule acquired_state_ok [OF ok])
  obtain q v where claim: "claim_lease m owner action cur l w5 = (q, v)" by (cases "claim_lease m owner action cur l w5")
  then have vfiles: "fs_files v = fs_files w" using claim_lease_files [of m owner action cur l w5] files by simp
  show thesis
  proof (cases q)
    case (Inl e)
    then show thesis using body claim that(1) [of e] stored_state_files [OF vfiles] cur by simp
  next
    case (Inr u)
    obtain r8 w8 where sv: "store_Save (put_lease action l (cur\<lparr>rs_CurrentEpoch := ep\<rparr>)) v = (r8, w8)"
      by (cases "store_Save (put_lease action l (cur\<lparr>rs_CurrentEpoch := ep\<rparr>)) v")
    show thesis
    proof (cases r8)
      case (Inl e)
      then show thesis
        using save_stored [OF sv st_ok vfiles cur] body claim \<open>q = Inr u\<close> sv that(1) [of "wrap_err manager_acquire_op e"] by simp
    next
      case (Inr _)
      then show thesis
        using save_stored [OF sv st_ok vfiles cur] body claim \<open>q = Inr u\<close> sv that(2) [OF ep_def l_def _ _ st_ok] by simp
    qed
  qed
qed

lemma claim_lease_quiet:
  assumes "\<not> lm_leases m" and "rs_ActiveLease cur = None" and "action \<noteq> ''rollback''"
  shows "claim_lease m owner action cur l w = (Inr (), w)"
  using assms by (simp add: claim_lease_def)

lemma manager_Acquire_quiet:
  assumes "no_faults w" and cur: "stored_state w = Inr cur" and "\<not> lm_leases m" "rs_ActiveLease cur = None" "action \<noteq> ''rollback''"
  shows "\<exists>l ep w'. manager_Acquire m owner action run w = (Inr (l, ep), w') \<and> no_faults w'"
proof -
  let ?w = "w\<lparr>io_step := Suc (Suc (Suc (Suc (Suc (io_step w)))))\<rparr>"
  define ep where "ep = acquired_epoch (rs_CurrentEpoch cur) run (io_clock w (Suc (io_step w))) (io_clock w (Suc (Suc (io_step w))))"
  define l where "l = acquired_lease m owner action ep (io_clock w (Suc (Suc (Suc (io_step w))))) (io_clock w (Suc (Suc (Suc (Suc (io_step w))))))"
  define st where "st = put_lease action l (cur\<lparr>rs_CurrentEpoch := ep\<rparr>)"
  have "no_faults ?w" using assms(1) by simp
  then obtain w' where save: "store_Save st ?w = (Inr (), w')" using store_Save_ok by blast
  have "no_faults w'" using store_Save_frame [OF save] assms(1) by (simp add: no_faults_def)
  then show ?thesis
    using store_Load_ok [OF assms(1)] cur save [unfolded st_def l_def ep_def]
    by (simp add: manager_Acquire_def time_Now_def Let_def claim_lease_quiet [OF assms(3-5)])
qed

lemma manager_Release_epoch:
  assumes "manager_Release m leaseID w = (r, w')" and cur: "stored_state w = Inr cur" and ok: "state_ok cur"
  shows "\<exists>st. stored_state w' = Inr st \<and> state_ok st \<and> rs_CurrentEpoch st = rs_CurrentEpoch cur"
  using assms(1) [unfolded manager_Release_def Let_def] cur
proof (cases rule: load_then)
  case failed
  then show ?thesis using ok by blast
next
  case loaded
  let ?w1 = "w\<lparr>io_step := Suc (io_step w)\<rparr>"
  have save: ?thesis if body: "and_then op (if lm_leases m then repo_ReleaseLease (lm_scopeID m) leaseID owner ?w1 else (Inr (), ?w1))
               (\<lambda>_ w2. store_Save st w2) = (r, w')" and st: "state_ok st" "rs_CurrentEpoch st = rs_CurrentEpoch cur" for op owner st
  proof -
    obtain q v where call: "(if lm_leases m then repo_ReleaseLease (lm_scopeID m) leaseID owner ?w1 else (Inr (), ?w1)) = (q, v)"
      by (cases "if lm_leases m then repo_ReleaseLease (lm_scopeID m) leaseID owner ?w1 else (Inr (), ?w1)")
    then have files: "fs_files v = fs_files w" using repo_ReleaseLease_frame by (fastforce split: if_splits)
    show ?thesis
    proof (cases q)
      case (Inl e)
      then show ?thesis using body call stored_state_files [OF files] cur ok by simp
    next
      case (Inr u)
      then have "store_Save st v = (r, w')" using body call by simp
      then show ?thesis using save_stored [OF _ st(1) files cur] st ok by blast
    qed
  qed
  show ?thesis
  proof (cases "\<exists>l. rs_ActiveLease cur = Some l \<and> ls_ID l = leaseID")
    case True
    then obtain l where "rs_ActiveLease cur = Some l" "ls_ID l = leaseID" by blast
    then show ?thesis
      using loaded ok by (intro save [where op = "''runtime.coordination.Release''" and owner = "ls_Owner l" and st = "cur\<lparr>rs_ActiveLease := None\<rparr>"])
        (auto simp: state_ok_def)
  next
    case no_lease: False
    show ?thesis
    proof (cases "\<exists>l. rs_ActiveRollbackLease cur = Some l \<and> ls_ID l = leaseID")
      case True
      then obtain l where "rs_ActiveRollbackLease cur = Some l" "ls_ID l = leaseID" by blast
      then show ?thesis
        using loaded ok no_lease
        by (intro save [where op = "''runtime.coordination.Release''" and owner = "ls_Owner l" and st = "cur\<lparr>rs_ActiveRollbackLease := None\<rparr>"])
          (auto simp: state_ok_def split: option.splits)
    next
      case False
      then have "w' = ?w1" using loaded no_lease by (auto split: option.splits)
      then show ?thesis using stored_state_files [of w' w] cur ok by simp
    qed
  qed
qed

lemma activeLeaseByID_ok: "state_ok st \<Longrightarrow> activeLeaseByID st i = Some l \<Longrightarrow> lease_ok l"
  by (auto simp: activeLeaseByID_def state_ok_def split: option.splits if_splits)

lemma manager_Renew_epoch:
  assumes rn: "manager_Renew m leaseID ttl w = (r, w')" and cur: "stored_state w = Inr cur" and ok: "state_ok cur"
  shows "\<exists>st. stored_state w' = Inr st \<and> state_ok st \<and> rs_CurrentEpoch st = rs_CurrentEpoch cur"
proof (cases "(if ttl \<le> 0 then lm_expiry m else ttl) \<le> 0")
  case True
  then have "w' = w" using rn by (auto simp: manager_Renew_def Let_def split: if_splits)
  then show ?thesis using cur ok by blast
next
  case False
  let ?ttl = "if ttl \<le> 0 then lm_expiry m else ttl" and ?w1 = "w\<lparr>io_step := Suc (io_step w)\<rparr>"
  let ?w2 = "w\<lparr>io_step := Suc (Suc (io_step w))\<rparr>"
  from False have "and_then ''runtime.coordination.Renew'' (store_Load w) (\<lambda>cur w1.
        case activeLeaseByID cur leaseID of
          None \<Rightarrow> (Inl (New ''runtime.coordination.Renew'' (''active lease not found: '' @ leaseID)), w1)
        | Some l0 \<Rightarrow>
            let (now, w2) = time_Now w1; l = l0\<lparr>ls_ExpiresAt := time_add now ?ttl\<rparr> in
            and_then ''runtime.coordination.Renew'' (if lm_leases m
                then repo_RenewLease (lm_scopeID m) (ls_ID l) (ls_Owner l) (ls_EpochID l) (ls_FencingToken l) (ls_ExpiresAt l) w2
                else (Inr (), w2)) (\<lambda>_ w3. store_Save (put_lease (ls_Action l) l cur) w3)) = (r, w')"
    using rn unfolding manager_Renew_def Let_def by (simp del: append.simps)
  from this cur show ?thesis
  proof (cases rule: load_then)
    case failed
    then show ?thesis using ok by blast
  next
    case loaded
    show ?thesis
    proof (cases "activeLeaseByID cur leaseID")
      case None
      then have "w' = ?w1" using loaded by simp
      then show ?thesis using stored_state_files [of w' w] cur ok by simp
    next
      case (Some l0)
      define l where "l = l0\<lparr>ls_ExpiresAt := time_add (io_clock w (Suc (io_step w))) ?ttl\<rparr>"
      have "state_ok (put_lease (ls_Action l) l cur)"
        using ok activeLeaseByID_ok [OF ok Some] by (intro put_lease_ok) (simp_all add: l_def lease_ok_def)
      moreover obtain q v where call: "(if lm_leases m
          then repo_RenewLease (lm_scopeID m) (ls_ID l) (ls_Owner l) (ls_EpochID l) (ls_FencingToken l) (ls_ExpiresAt l) ?w2
          else (Inr (), ?w2)) = (q, v)" by fastforce
      then have files: "fs_files v = fs_files w" using repo_RenewLease_frame by (fastforce split: if_splits)
      moreover have "and_then ''runtime.coordination.Renew'' (q, v) (\<lambda>_ w3. store_Save (put_lease (ls_Action l) l cur) w3) = (r, w')"
        using loaded Some call [unfolded l_def] unfolding l_def by (simp add: time_Now_def Let_def)
      ultimately show ?thesis
        using save_stored [of "put_lease (ls_Action l) l cur" v r w' w cur] stored_state_files [OF files] cur ok
        by (cases q) (auto simp del: append.simps)
    qed
  qed
qed

section \<open>Fencing tokens\<close>

text \<open>A run of the manager's methods on one runtime directory, with any configuration, owner and failure
  at every call, and the tokens of the acquisitions that succeeded.\<close>

inductive lease_run :: "'z db_env_scheme \<Rightarrow> int list \<Rightarrow> 'z db_env_scheme \<Rightarrow> bool" for w where
  run_start: "lease_run w [] w"
| run_acquired: "lease_run w toks v \<Longrightarrow> manager_Acquire m owner action run v = (Inr (l, ep), w') \<Longrightarrow>
    lease_run w (toks @ [ls_FencingToken l]) w'"
| run_refused: "lease_run w toks v \<Longrightarrow> manager_Acquire m owner action run v = (Inl e, w') \<Longrightarrow> lease_run w toks w'"
| run_release: "lease_run w toks v \<Longrightarrow> manager_Release m leaseID v = (r, w') \<Longrightarrow> lease_run w toks w'"
| run_renew: "lease_run w toks v \<Longrightarrow> manager_Renew m leaseID ttl v = (r, w') \<Longrightarrow> lease_run w toks w'"

lemma acquired_token:
  "ls_FencingToken (acquired_lease m owner action (acquired_epoch cur run t1 t2) t3 t4) = int64_of (ep_Generation cur + 1)"
  "ep_Generation (acquired_epoch cur run t1 t2) = int64_of (ep_Generation cur + 1)"
  by (simp_all add: acquired_lease_def acquired_epoch_def)

lemma lease_run_state:
  assumes "lease_run w toks w'" and "stored_state w = Inr cur" and "state_ok cur" and "0 \<le> ep_Generation (rs_CurrentEpoch cur)"
    and "ep_Generation (rs_CurrentEpoch cur) + int (length toks) \<le> max_int64"
  shows "\<exists>st. stored_state w' = Inr st \<and> state_ok st \<and>
    ep_Generation (rs_CurrentEpoch st) = ep_Generation (rs_CurrentEpoch cur) + int (length toks) \<and>
    toks = [ep_Generation (rs_CurrentEpoch cur) + 1 .. ep_Generation (rs_CurrentEpoch cur) + int (length toks)]"
  using assms
proof (induction rule: lease_run.induct)
  case run_start
  then show ?case by simp
next
  case (run_acquired toks v m owner action run l ep w')
  let ?g = "ep_Generation (rs_CurrentEpoch cur)"
  from run_acquired obtain st where st: "stored_state v = Inr st" "state_ok st"
      "ep_Generation (rs_CurrentEpoch st) = ?g + int (length toks)" "toks = [?g + 1 .. ?g + int (length toks)]" by auto
  have gen: "int64_of (?g + int (length toks) + 1) = ?g + int (length toks) + 1"
    using run_acquired.prems by (intro int64_of_small) auto
  have up: "[?g + 1 .. ?g + int (Suc (length toks))] = [?g + 1 .. ?g + int (length toks)] @ [?g + int (length toks) + 1]"
    using upto_rec2 [of "?g + 1" "?g + int (Suc (length toks))"] by (simp add: add.commute add.left_commute)
  from run_acquired.hyps(2) st(1,2) show ?case
  proof (cases rule: manager_Acquire_cases)
    case (acquired t1 t2 t3 t4 ep' l')
    then show ?thesis using st gen up by (auto simp: acquired_token)
  qed simp
next
  case (run_refused toks v m owner action run e w')
  then obtain st where st: "stored_state v = Inr st" "state_ok st"
      "ep_Generation (rs_CurrentEpoch st) = ep_Generation (rs_CurrentEpoch cur) + int (length toks)"
      "toks = [ep_Generation (rs_CurrentEpoch cur) + 1 .. ep_Generation (rs_CurrentEpoch cur) + int (length toks)]" by blast
  from run_refused.hyps(2) st(1,2) show ?case by (cases rule: manager_Acquire_cases) (use st in auto)
next
  case (run_release toks v m leaseID r w')
  then show ?case using manager_Release_epoch [OF run_release.hyps(2)] by metis
next
  case (run_renew toks v m leaseID ttl r w')
  then show ?case using manager_Renew_epoch [OF run_renew.hyps(2)] by metis
qed

text \<open>
  C6: fencing tokens are issued in order and never twice. In every run of acquisitions, renewals and
  releases on one runtime directory, whatever fails in between, the tokens of the successful
  acquisitions are the numbers after the stored generation, without a gap and without a repetition, as
  long as they fit into 64 bits.
\<close>

theorem fencing_tokens_consecutive:
  assumes "lease_run w toks w'" and "stored_state w = Inr cur" and "state_ok cur" and "0 \<le> ep_Generation (rs_CurrentEpoch cur)"
    and "ep_Generation (rs_CurrentEpoch cur) + int (length toks) \<le> max_int64"
  shows "toks = [ep_Generation (rs_CurrentEpoch cur) + 1 .. ep_Generation (rs_CurrentEpoch cur) + int (length toks)]"
  using lease_run_state [OF assms] by blast

lemma transition_generation:
  "ti_EpochID i \<noteq> [] \<Longrightarrow> ep_Generation (rs_CurrentEpoch (ApplyLifecycleTransition st i)) = ti_FencingToken i"
  by (simp add: transition_defs Let_def)

definition local_manager :: lease_manager where
  "local_manager = NewLeaseManager (30 * Second)"

lemma quiet_db_state: "stored_state quiet_db = Inr zero_state"
  by (simp add: stored_state_def quiet_db_def file_get_def)

lemma zero_generation: "ep_Generation (rs_CurrentEpoch zero_state) = 0" "rs_ActiveLease zero_state = None"
  by (simp_all add: zero_state_def zero_epoch_def)

lemma local_manager_acquires:
  assumes "no_faults w" and "stored_state w = Inr cur" and "rs_ActiveLease cur = None"
  shows "\<exists>l ep w'. manager_Acquire local_manager owner ''reconcile'' run w = (Inr (l, ep), w')"
  using manager_Acquire_quiet [OF assms(1,2) _ assms(3), of local_manager "''reconcile''"]
  by (fastforce simp: local_manager_def NewLeaseManager_def)

theorem fencing_tokens_consecutive_witness:
  "\<exists>l ep w'. manager_Acquire local_manager ''node-a'' ''reconcile'' ''run'' quiet_db = (Inr (l, ep), w') \<and> ls_FencingToken l = 1"
proof -
  obtain l ep w' where ac: "manager_Acquire local_manager ''node-a'' ''reconcile'' ''run'' quiet_db = (Inr (l, ep), w')"
    using local_manager_acquires [OF quiet_db_ok(2) quiet_db_state zero_generation(2)] by blast
  have "lease_run quiet_db [ls_FencingToken l] w'" using run_acquired [OF run_start ac] by simp
  from fencing_tokens_consecutive [OF this quiet_db_state zero_state_ok] have "[ls_FencingToken l] = [1]"
    by (simp add: zero_generation max_int64_def)
  with ac show ?thesis by blast
qed

text \<open>
  A transition in a stale context takes the generation back, and the next acquisition issues an old
  token again. The state machine stores the token of the caller's context as the current generation
  without comparing it with the stored one; the token that the manager issues next is the context's
  plus one, however high the generation had been before.
\<close>

theorem stale_context_reissues_token:
  fixes w :: "'z db_env_scheme"
  assumes "stored_state w = Inr cur" and "state_ok cur" and "sm_ok sm"
    and "rc_EpochID ctx \<noteq> []" and "0 \<le> rc_FencingToken ctx" and "rc_FencingToken ctx < ep_Generation (rs_CurrentEpoch cur)"
    and "Transition sm ctx to_st reason w = (Inr (), w1)"
    and "manager_Acquire m owner action run w1 = (Inr (l, ep), w2)"
  shows "ls_FencingToken l = rc_FencingToken ctx + 1 \<and> ls_FencingToken l \<le> ep_Generation (rs_CurrentEpoch cur)"
proof -
  have small: "rc_FencingToken ctx < max_int64" using assms(2,6) by (auto simp: state_ok_def is_int64_def)
  then have tok: "is_int64 (rc_FencingToken ctx)" using assms(5) by (simp add: is_int64_def min_int64_def)
  from assms(7,3,1,2) tok obtain st where st: "stored_state w1 = Inr st" "ep_Generation (rs_CurrentEpoch st) = rc_FencingToken ctx" "state_ok st"
  proof (cases rule: Transition_cases)
    case (saved now st w3)
    then have "stored_state w1 = Inr st" using stored_state_files by metis
    moreover have "ep_Generation (rs_CurrentEpoch st) = rc_FencingToken ctx" "state_ok st"
      unfolding saved(2) using assms(2,4) tok by (simp_all add: transition_generation transition_ok input_of_context_def)
    ultimately show ?thesis using that by blast
  qed simp
  from assms(8) st(1,3) show ?thesis
  proof (cases rule: manager_Acquire_cases)
    case (acquired t1 t2 t3 t4 ep' l')
    then show ?thesis using st(2) small assms(5,6) by (auto simp: acquired_token int64_of_small)
  qed simp
qed

definition advanced_state :: runtime_state where
  "advanced_state = zero_state\<lparr>rs_CurrentEpoch := zero_epoch\<lparr>ep_Generation := 7\<rparr>\<rparr>"

definition advanced_db :: db_env where
  "advanced_db = quiet_db\<lparr>fs_files := [(global_file, File_json (json_of_state advanced_state))]\<rparr>"

definition stale_context :: runtime_context where
  "stale_context = zero_context\<lparr>rc_EpochID := ''ep-3'', rc_FencingToken := 3\<rparr>"

lemma advanced_db_ok:
  "state_ok advanced_state" "stored_state advanced_db = Inr advanced_state" "no_faults advanced_db" "\<not> db_ReadOnly advanced_db"
  "log_inv advanced_db"
proof -
  show ok: "state_ok advanced_state"
    using zero_state_ok by (simp add: advanced_state_def state_ok_def is_int64_def min_int64_def max_int64_def)
  show "stored_state advanced_db = Inr advanced_state"
    using decode_saved [OF ok] by (simp add: stored_state_def advanced_db_def file_get_def)
qed (use quiet_db_ok in \<open>simp_all add: advanced_db_def no_faults_def log_inv_def\<close>)

theorem stale_context_reissues_token_witness:
  "\<exists>w1 w2 l ep. Transition bare_machine stale_context StatusDiscovering ''late'' advanced_db = (Inr (), w1) \<and>
     manager_Acquire local_manager ''node-a'' ''reconcile'' ''run'' w1 = (Inr (l, ep), w2) \<and>
     ls_FencingToken l = 4 \<and> ls_FencingToken l \<le> ep_Generation (rs_CurrentEpoch advanced_state)"
proof -
  have sm: "sm_ok bare_machine" "sm_checkpoints bare_machine = None" by (simp_all add: bare_machine_def sm_ok_def)
  have idle: "current_status advanced_state = StatusIdle"
    by (simp add: advanced_state_def current_status_def zero_state_def zero_lifecycle_def)
  then have "isTransitionAllowed (current_status advanced_state) StatusDiscovering"
    by (simp add: isTransitionAllowed_def allowed_targets_def status_defs)
  then obtain w1 where tr: "Transition bare_machine stale_context StatusDiscovering ''late'' advanced_db = (Inr (), w1)" "no_faults w1"
    using Transition_quiet [OF advanced_db_ok(3-5,2), where sm = bare_machine] sm by blast
  have tok: "is_int64 (rc_FencingToken stale_context)" by (simp add: stale_context_def is_int64_def min_int64_def max_int64_def)
  from tr(1) sm(1) advanced_db_ok(2,1) tok obtain st where "stored_state w1 = Inr st" "rs_ActiveLease st = None"
  proof (cases rule: Transition_cases)
    case (saved now st w3)
    then have "stored_state w1 = Inr st" using stored_state_files by metis
    moreover have "rs_ActiveLease st = None"
      unfolding saved(2) by (simp add: transition_defs Let_def input_of_context_def stale_context_def zero_context_def advanced_state_def zero_generation)
    ultimately show ?thesis using that by blast
  qed simp
  then obtain l ep w2 where ac: "manager_Acquire local_manager ''node-a'' ''reconcile'' ''run'' w1 = (Inr (l, ep), w2)"
    using local_manager_acquires [OF tr(2)] by blast
  from stale_context_reissues_token [OF advanced_db_ok(2,1) sm(1) _ _ _ tr(1) ac] show ?thesis
    using tr ac by (simp add: stale_context_def advanced_state_def)
qed

section \<open>Releasing after a transition to rest\<close>

lemma Transition_leases:
  fixes w :: "'z db_env_scheme"
  assumes "sm_ok sm"
  shows "db_Leases (snd (Transition sm ctx to_st reason w)) = db_Leases w"
proof -
  have load: "db_Leases (snd (store_Load w)) = db_Leases w" by (cases w rule: store_Load_cases) auto
  have save: "db_Leases (snd (store_Save st v)) = db_Leases v" for st and v :: "'z db_env_scheme"
    using store_Save_frame(4) [OF prod.collapse [symmetric], of st v] same_tables(3) by blast
  have publish: "db_Leases (snd (case sm_eventBus sm of None \<Rightarrow> (Inr (), v)
     | Some subs \<Rightarrow> and_then transition_op (bus_PublishEvent subs req v) (\<lambda>ev w4.
         case sm_checkpoints sm of None \<Rightarrow> (Inr (), w4)
         | Some cm \<Rightarrow> transition_checkpoints cm scopeID from_st to_st ev st w4))) = db_Leases v" for v req scopeID from_st st
    using publish_part_db_frame [OF assms, of v req scopeID from_st to_st st] by (simp add: db_frame_def)
  show ?thesis
    unfolding Transition_def
    by (rule and_then_frame [OF load])
      (auto simp: Let_def time_Now_def intro!: and_then_frame [where g = db_Leases] simp: save publish)
qed

text \<open>
  A release that follows a transition to rest does not release the stored lease. The transition to
  idle, converged or failed has already removed the mirrored leases, so \<open>Release\<close> finds nothing under
  the identifier, reports success when no call fails, and the row of the lease stays in the database
  until it expires.
\<close>

theorem release_after_rest_keeps_rows:
  fixes w :: "'z db_env_scheme"
  assumes "stored_state w = Inr cur" and "state_ok cur" and "sm_ok sm" and "is_int64 (rc_FencingToken ctx)"
    and "to_st \<in> {StatusIdle, StatusConverged, StatusFailed}"
    and "Transition sm ctx to_st reason w = (Inr (), w1)" and "manager_Release m leaseID w1 = (r, w2)"
  shows "db_Leases w2 = db_Leases w \<and> (no_faults w1 \<longrightarrow> r = Inr ())"
proof -
  from assms(6,3,1,2,4) obtain st where st: "stored_state w1 = Inr st" "no_active_work st"
  proof (cases rule: Transition_cases)
    case (saved now st w3)
    then have "stored_state w1 = Inr st" using stored_state_files by metis
    moreover have "no_active_work st"
      unfolding saved(2) using transition_resting assms(5) by (auto simp: resting_def input_of_context_def)
    ultimately show ?thesis using that by blast
  qed simp
  have "db_Leases w1 = db_Leases w" using Transition_leases [OF assms(3), of ctx to_st reason w] assms(6) by simp
  moreover from assms(7) [unfolded manager_Release_def Let_def] st(1)
  have "w2 = w1\<lparr>io_step := Suc (io_step w1)\<rparr> \<and> (no_faults w1 \<longrightarrow> r = Inr ())"
  proof (cases rule: load_then)
    case (failed e)
    then show ?thesis using assms(7) store_Load_ok [of w1] st by (auto simp: manager_Release_def no_active_work_def)
  next
    case loaded
    then show ?thesis using st(2) by (auto simp: no_active_work_def)
  qed
  ultimately show ?thesis by auto
qed

definition rolling_state :: runtime_state where
  "rolling_state = zero_state\<lparr>rs_Lifecycle := zero_lifecycle\<lparr>lc_Status := StatusRollingBack\<rparr>, rs_ActiveRollbackLease := Some sample_lease\<rparr>"

definition rolling_db :: db_env where
  "rolling_db = leased_db\<lparr>fs_files := [(global_file, File_json (json_of_state rolling_state))]\<rparr>"

lemma rolling_db_ok:
  "state_ok rolling_state" "stored_state rolling_db = Inr rolling_state" "no_faults rolling_db" "\<not> db_ReadOnly rolling_db"
  "log_inv rolling_db"
proof -
  show ok: "state_ok rolling_state"
    using zero_state_ok
    by (simp add: rolling_state_def state_ok_def zero_lifecycle_def lease_ok_def sample_lease_def is_int64_def min_int64_def max_int64_def)
  show "stored_state rolling_db = Inr rolling_state"
    using decode_saved [OF ok] by (simp add: stored_state_def rolling_db_def file_get_def)
qed (auto simp: rolling_db_def leased_db_def no_faults_def log_inv_def scope_seqs_def next_sequence_def)

theorem release_after_rest_keeps_rows_witness:
  "\<exists>w1 w2. Transition bare_machine zero_context StatusIdle ''rolled back'' rolling_db = (Inr (), w1) \<and>
     manager_Release (WithLeaseStore ''s1'' local_manager) ''lease-1'' w1 = (Inr (), w2) \<and>
     db_Leases w2 = [\<lparr>lr_ScopeID = ''s1'', lr_Lease = sample_lease\<rparr>]"
proof -
  have sm: "sm_ok bare_machine" "sm_checkpoints bare_machine = None" by (simp_all add: bare_machine_def sm_ok_def)
  have "isTransitionAllowed (current_status rolling_state) StatusIdle"
    by (simp add: rolling_state_def current_status_def isTransitionAllowed_def allowed_targets_def status_defs)
  then obtain w1 where tr: "Transition bare_machine zero_context StatusIdle ''rolled back'' rolling_db = (Inr (), w1)" "no_faults w1"
    using Transition_quiet [OF rolling_db_ok(3-5,2), where sm = bare_machine] sm by blast
  obtain r w2 where rl: "manager_Release (WithLeaseStore ''s1'' local_manager) ''lease-1'' w1 = (r, w2)"
    by (cases "manager_Release (WithLeaseStore ''s1'' local_manager) ''lease-1'' w1")
  from release_after_rest_keeps_rows [OF rolling_db_ok(2,1) sm(1) zero_context_token _ tr(1) rl] show ?thesis
    using tr rl by (simp add: rolling_db_def leased_db_def)
qed

section \<open>The heartbeat\<close>

text \<open>The outcomes of the renewals of the first ticks.\<close>

fun renewals :: "nat \<Rightarrow> lease_manager \<Rightarrow> string \<Rightarrow> duration \<Rightarrow> 'z db_env_scheme \<Rightarrow> unit result list" where
  "renewals 0 m leaseID ttl w = []"
| "renewals (Suc n) m leaseID ttl w = (case manager_Renew m leaseID ttl w of (r, w1) \<Rightarrow> r # renewals n m leaseID ttl w1)"

text \<open>Counting failures that follow each other finds exactly the runs of that length.\<close>

lemma prefix_replicate_le: "prefix (replicate k x) xs \<Longrightarrow> j \<le> k \<Longrightarrow> prefix (replicate j x) xs"
  by (metis le_add_diff_inverse prefix_def prefix_order.trans replicate_add)

lemma heartbeat_run_iff:
  assumes "0 \<le> f" and "f < hc_FailureThreshold cfg"
  shows "fst (heartbeat_run n m i cfg f w) \<noteq> None \<longleftrightarrow>
    prefix (replicate (nat (hc_FailureThreshold cfg - f)) True) (map isl (renewals n m i (hc_TTL cfg) w)) \<or>
    sublist (replicate (nat (hc_FailureThreshold cfg)) True) (map isl (renewals n m i (hc_TTL cfg) w))"
  using assms
proof (induction n arbitrary: f w)
  case (Suc n)
  let ?t = "hc_FailureThreshold cfg"
  obtain r w1 where rn: "manager_Renew m i (hc_TTL cfg) w = (r, w1)" by (cases "manager_Renew m i (hc_TTL cfg) w")
  let ?bs = "map isl (renewals n m i (hc_TTL cfg) w1)"
  have t: "nat ?t = Suc (nat (?t - 1))" "nat (?t - f) = Suc (nat (?t - (f + 1)))" using Suc.prems by auto
  show ?case
  proof (cases r)
    case (Inl e)
    have shorter: "prefix (replicate (nat (?t - 1)) True) ?bs \<Longrightarrow> prefix (replicate (nat (?t - (f + 1))) True) ?bs"
      by (rule prefix_replicate_le) (use Suc.prems in auto)
    show ?thesis
    proof (cases "f + 1 \<ge> ?t")
      case True
      then show ?thesis using rn Inl Suc.prems t by simp
    next
      case False
      then show ?thesis
        using Suc.IH [of "f + 1" w1] rn Inl Suc.prems t shorter by (auto simp: sublist_Cons_right)
    qed
  next
    case (Inr u)
    then show ?thesis
      using Suc.IH [of 0 w1] rn Suc.prems t prefix_imp_sublist [of "replicate (nat ?t) True" ?bs]
      by (auto simp: sublist_Cons_right)
  qed
qed (use assms in auto)


end
