(* ===== verification/Worker_Pool.thy ===== *)
theory Worker_Pool
  imports Lifecycle
begin

text \<open>
  \<open>internal/runtime/scheduler/budget\<close> and \<open>internal/runtime/scheduler/pool\<close>: the number of workers a
  tenant may occupy, and the pool of workers that the scheduler hands its tasks to. A method of the
  budget manager is atomic under its mutex. The goroutines of the pool interleave, so the pool is a
  step relation whose steps are the actions between two synchronisations of the code.
\<close>

section \<open>Budgets\<close>

record budget_manager =
  bm_budgets :: "string \<rightharpoonup> tenant_budget"
  bm_active :: "string \<rightharpoonup> int"

definition budget_NewManager :: budget_manager where
  "budget_NewManager = \<lparr>bm_budgets = Map.empty, bm_active = Map.empty\<rparr>"

definition RegisterTenant :: "tenant_budget \<Rightarrow> budget_manager \<Rightarrow> budget_manager" where
  "RegisterTenant b m = m\<lparr>bm_budgets := (bm_budgets m)(tb_TenantID b \<mapsto> b)\<rparr>"

text \<open>Reading a key that is not in the map gives zero.\<close>

definition active_count :: "budget_manager \<Rightarrow> string \<Rightarrow> int" where
  "active_count m t = (case bm_active m t of None \<Rightarrow> 0 | Some n \<Rightarrow> n)"

definition GetBudget :: "budget_manager \<Rightarrow> string \<Rightarrow> tenant_budget" where
  "GetBudget m tenantID = (case bm_budgets m tenantID of Some b \<Rightarrow> b
     | None \<Rightarrow> \<lparr>tb_TenantID = tenantID, tb_MaxConcurrentWorkers = 1, tb_MaxMutationsPerRun = 0, tb_MaxRollbacksPerHour = 0\<rparr>)"

definition budget_Acquire :: "string \<Rightarrow> budget_manager \<Rightarrow> bool \<times> budget_manager" where
  "budget_Acquire tenantID m =
     (let limit = (case bm_budgets m tenantID of Some b \<Rightarrow> tb_MaxConcurrentWorkers b | None \<Rightarrow> 1) in
      if active_count m tenantID \<ge> limit then (False, m)
      else (True, m\<lparr>bm_active := (bm_active m)(tenantID \<mapsto> int64_of (active_count m tenantID + 1))\<rparr>))"

definition budget_Release :: "string \<Rightarrow> budget_manager \<Rightarrow> budget_manager" where
  "budget_Release tenantID m = m\<lparr>bm_active := (bm_active m)(tenantID \<mapsto> int64_of (active_count m tenantID - 1))\<rparr>"

definition GetActiveCounts :: "budget_manager \<Rightarrow> string \<rightharpoonup> int" where
  "GetActiveCounts m = bm_active m"

section \<open>The pool\<close>

text \<open>The tasks on their way: reserved by \<open>Submit\<close> and about to be sent, in the channel, at a
  worker, and finished but with the slot of their tenant not yet given back.\<close>

record worker_pool =
  wp_workers :: nat
  wp_active :: int
  wp_budget :: budget_manager
  wp_submitting :: "runtime_context list"
  wp_tasks :: "runtime_context list"
  wp_running :: "runtime_context list"
  wp_finished :: "runtime_context list"
  wp_closed :: bool
  wp_panicked :: bool

definition pool_New :: "nat \<Rightarrow> budget_manager \<Rightarrow> worker_pool" where
  "pool_New workers b = \<lparr>wp_workers = workers, wp_active = 0, wp_budget = b, wp_submitting = [], wp_tasks = [],
     wp_running = [], wp_finished = [], wp_closed = False, wp_panicked = False\<rparr>"

definition tenant_of :: "runtime_context \<Rightarrow> string" where
  "tenant_of c = sc_Tenant (rc_Scope c)"

text \<open>\<open>Submit\<close>: the slot is taken first; without one the task is refused.\<close>

definition submit_reserve :: "runtime_context \<Rightarrow> worker_pool \<Rightarrow> worker_pool option" where
  "submit_reserve c p =
     (case budget_Acquire (tenant_of c) (wp_budget p) of
        (False, _) \<Rightarrow> None
      | (True, b) \<Rightarrow> Some (p\<lparr>wp_budget := b, wp_submitting := c # wp_submitting p\<rparr>))"

text \<open>Then it waits for room in the channel or for the cancellation of its context. A send on a
  closed channel panics.\<close>

definition submit_send :: "runtime_context \<Rightarrow> worker_pool \<Rightarrow> worker_pool" where
  "submit_send c p =
     (if wp_closed p then p\<lparr>wp_panicked := True\<rparr>
      else p\<lparr>wp_submitting := remove1 c (wp_submitting p), wp_tasks := wp_tasks p @ [c]\<rparr>)"

definition submit_cancel :: "runtime_context \<Rightarrow> worker_pool \<Rightarrow> worker_pool" where
  "submit_cancel c p = p\<lparr>wp_submitting := remove1 c (wp_submitting p), wp_budget := budget_Release (tenant_of c) (wp_budget p)\<rparr>"

text \<open>A worker takes a task, runs it, reports its result and gives the slot back.\<close>

definition worker_take :: "runtime_context \<Rightarrow> runtime_context list \<Rightarrow> worker_pool \<Rightarrow> worker_pool" where
  "worker_take c rest p = p\<lparr>wp_tasks := rest, wp_running := c # wp_running p, wp_active := int64_of (wp_active p + 1)\<rparr>"

definition worker_done :: "runtime_context \<Rightarrow> worker_pool \<Rightarrow> worker_pool" where
  "worker_done c p = p\<lparr>wp_running := remove1 c (wp_running p), wp_finished := c # wp_finished p, wp_active := int64_of (wp_active p - 1)\<rparr>"

definition worker_release :: "runtime_context \<Rightarrow> worker_pool \<Rightarrow> worker_pool" where
  "worker_release c p = p\<lparr>wp_finished := remove1 c (wp_finished p), wp_budget := budget_Release (tenant_of c) (wp_budget p)\<rparr>"

definition pool_Close :: "worker_pool \<Rightarrow> worker_pool" where
  "pool_Close p = p\<lparr>wp_closed := True\<rparr>"

inductive pool_step :: "worker_pool \<Rightarrow> worker_pool \<Rightarrow> bool" where
  step_reserve: "submit_reserve c p = Some p' \<Longrightarrow> pool_step p p'"
| step_send: "c \<in> set (wp_submitting p) \<Longrightarrow> wp_closed p \<or> length (wp_tasks p) < wp_workers p \<Longrightarrow> pool_step p (submit_send c p)"
| step_cancel: "c \<in> set (wp_submitting p) \<Longrightarrow> pool_step p (submit_cancel c p)"
| step_take: "wp_tasks p = c # rest \<Longrightarrow> length (wp_running p) + length (wp_finished p) < wp_workers p \<Longrightarrow>
    pool_step p (worker_take c rest p)"
| step_done: "c \<in> set (wp_running p) \<Longrightarrow> pool_step p (worker_done c p)"
| step_release: "c \<in> set (wp_finished p) \<Longrightarrow> pool_step p (worker_release c p)"
| step_close: "pool_step p (pool_Close p)"

text \<open>The pools that start with no slot taken.\<close>

inductive pool_reachable :: "nat \<Rightarrow> (string \<rightharpoonup> tenant_budget) \<Rightarrow> worker_pool \<Rightarrow> bool" for n bs where
  pool_start: "pool_reachable n bs (pool_New n \<lparr>bm_budgets = bs, bm_active = Map.empty\<rparr>)"
| pool_next: "pool_reachable n bs p \<Longrightarrow> pool_step p p' \<Longrightarrow> pool_reachable n bs p'"

section \<open>The invariant\<close>

definition in_flight :: "worker_pool \<Rightarrow> runtime_context list" where
  "in_flight p = wp_submitting p @ wp_tasks p @ wp_running p @ wp_finished p"

definition of_tenant :: "string \<Rightarrow> runtime_context list \<Rightarrow> int" where
  "of_tenant t cs = int (length (filter (\<lambda>c. tenant_of c = t) cs))"

definition worker_limit :: "(string \<rightharpoonup> tenant_budget) \<Rightarrow> string \<Rightarrow> int" where
  "worker_limit bs t = (case bs t of Some b \<Rightarrow> tb_MaxConcurrentWorkers b | None \<Rightarrow> 1)"

definition pool_inv :: "nat \<Rightarrow> (string \<rightharpoonup> tenant_budget) \<Rightarrow> worker_pool \<Rightarrow> bool" where
  "pool_inv n bs p \<longleftrightarrow> wp_workers p = n \<and> bm_budgets (wp_budget p) = bs \<and>
     (\<forall>t. active_count (wp_budget p) t = of_tenant t (in_flight p)) \<and>
     (\<forall>t. of_tenant t (in_flight p) \<le> max 0 (worker_limit bs t)) \<and>
     wp_active p = int (length (wp_running p)) \<and>
     length (wp_running p) + length (wp_finished p) \<le> n \<and> length (wp_tasks p) \<le> n \<and>
     (wp_panicked p \<longrightarrow> wp_closed p)"

lemma of_tenant_simps [simp]:
  "of_tenant t [] = 0"
  "of_tenant t (c # cs) = (if tenant_of c = t then 1 else 0) + of_tenant t cs"
  "of_tenant t (cs @ ds) = of_tenant t cs + of_tenant t ds"
  by (simp_all add: of_tenant_def)

lemma of_tenant_nonneg [simp]: "0 \<le> of_tenant t cs"
  by (simp add: of_tenant_def)

lemma of_tenant_remove1:
  "c \<in> set cs \<Longrightarrow> of_tenant t (remove1 c cs) = of_tenant t cs - (if tenant_of c = t then 1 else 0)"
  by (induction cs) auto

text \<open>Slots are 64-bit counters; a limit is one too, so they never wrap.\<close>

definition limits_ok :: "(string \<rightharpoonup> tenant_budget) \<Rightarrow> bool" where
  "limits_ok bs \<longleftrightarrow> (\<forall>t b. bs t = Some b \<longrightarrow> is_int64 (tb_MaxConcurrentWorkers b))"

lemma worker_limit_max: "limits_ok bs \<Longrightarrow> worker_limit bs t \<le> max_int64"
  by (auto simp: worker_limit_def limits_ok_def is_int64_def max_int64_def split: option.split)

lemma budget_Acquire_True:
  assumes "budget_Acquire t m = (True, m')" and "limits_ok (bm_budgets m)" and "0 \<le> active_count m t"
  shows "active_count m t < worker_limit (bm_budgets m) t" "bm_budgets m' = bm_budgets m"
    "active_count m' u = (if u = t then active_count m t + 1 else active_count m u)"
  using assms worker_limit_max [OF assms(2), of t]
  by (auto simp: budget_Acquire_def worker_limit_def Let_def active_count_def int64_of_small split: if_splits option.splits)

lemma budget_Release_counts:
  assumes "0 < active_count m t" and "active_count m t \<le> max_int64"
  shows "bm_budgets (budget_Release t m) = bm_budgets m"
    "active_count (budget_Release t m) u = (if u = t then active_count m t - 1 else active_count m u)"
  using assms by (auto simp: budget_Release_def active_count_def int64_of_small)

lemma in_flight_bound:
  assumes "pool_inv n bs p" and "limits_ok bs"
  shows "active_count (wp_budget p) t \<le> max_int64"
proof -
  have "active_count (wp_budget p) t \<le> max 0 (worker_limit bs t)" using assms(1) by (simp add: pool_inv_def)
  with worker_limit_max [OF assms(2), of t] show ?thesis by (simp add: max_int64_def max_def split: if_splits)
qed

lemma in_flight_pos:
  assumes "pool_inv n bs p" and "c \<in> set (in_flight p)"
  shows "0 < active_count (wp_budget p) (tenant_of c)"
proof -
  have "c \<in> set (filter (\<lambda>x. tenant_of x = tenant_of c) (in_flight p))" using assms(2) by simp
  then have "0 < of_tenant (tenant_of c) (in_flight p)" using length_pos_if_in_set by (fastforce simp: of_tenant_def)
  then show ?thesis using assms(1) by (simp add: pool_inv_def)
qed

lemma pool_step_inv:
  assumes inv: "pool_inv n bs p" and ok: "limits_ok bs" "int n \<le> max_int64" and "pool_step p p'"
  shows "pool_inv n bs p'"
  using assms(4)
proof cases
  case (step_reserve c)
  obtain b where ac: "budget_Acquire (tenant_of c) (wp_budget p) = (True, b)"
      and p': "p' = p\<lparr>wp_budget := b, wp_submitting := c # wp_submitting p\<rparr>"
    using step_reserve by (auto simp: submit_reserve_def split: prod.splits bool.splits)
  have lim: "limits_ok (bm_budgets (wp_budget p))" and nn: "0 \<le> active_count (wp_budget p) (tenant_of c)"
    using inv ok by (simp_all add: pool_inv_def)
  note budget_Acquire_True [OF ac lim nn]
  then show ?thesis using inv by (auto simp: pool_inv_def p' in_flight_def)
next
  case (step_send c)
  then show ?thesis using inv by (auto simp: pool_inv_def submit_send_def in_flight_def of_tenant_remove1 algebra_simps)
next
  case (step_cancel c)
  then have "c \<in> set (in_flight p)" by (simp add: in_flight_def)
  note counts = budget_Release_counts [OF in_flight_pos [OF inv this] in_flight_bound [OF inv ok(1)]]
  have "of_tenant t (in_flight p') \<le> of_tenant t (in_flight p)" for t
    using step_cancel by (simp add: submit_cancel_def in_flight_def of_tenant_remove1)
  then have le: "of_tenant t (in_flight p') \<le> max 0 (worker_limit bs t)" for t
    using inv by (meson order_trans pool_inv_def)
  show ?thesis using inv step_cancel counts le by (auto simp: pool_inv_def submit_cancel_def in_flight_def of_tenant_remove1)
next
  case (step_take c rest)
  then have "wp_active p + 1 \<le> max_int64" using inv ok(2) by (simp add: pool_inv_def)
  then show ?thesis using inv step_take
    by (auto simp: pool_inv_def worker_take_def in_flight_def int64_of_small algebra_simps)
next
  case (step_done c)
  from step_done(2) have "0 < length (wp_running p)" by (rule length_pos_if_in_set)
  then have "1 \<le> wp_active p" "wp_active p \<le> max_int64"
    using inv ok(2) unfolding pool_inv_def by linarith+
  then have "int64_of (wp_active p - 1) = wp_active p - 1" by (simp add: int64_of_small)
  moreover obtain k where "length (wp_running p) = Suc k" using \<open>0 < length (wp_running p)\<close> gr0_implies_Suc by blast
  ultimately show ?thesis using inv step_done
    by (auto simp: pool_inv_def worker_done_def in_flight_def of_tenant_remove1 length_remove1)
next
  case (step_release c)
  then have "c \<in> set (in_flight p)" by (simp add: in_flight_def)
  note counts = budget_Release_counts [OF in_flight_pos [OF inv this] in_flight_bound [OF inv ok(1)]]
  have "of_tenant t (in_flight p') \<le> of_tenant t (in_flight p)" for t
    using step_release by (simp add: worker_release_def in_flight_def of_tenant_remove1)
  then have le: "of_tenant t (in_flight p') \<le> max 0 (worker_limit bs t)" for t
    using inv by (meson order_trans pool_inv_def)
  show ?thesis using inv step_release counts le
    by (auto simp: pool_inv_def worker_release_def in_flight_def of_tenant_remove1 length_remove1)
next
  case step_close
  then show ?thesis using inv by (auto simp: pool_inv_def pool_Close_def in_flight_def)
qed

lemma pool_reachable_inv:
  assumes "pool_reachable n bs p" and "limits_ok bs" and "int n \<le> max_int64"
  shows "pool_inv n bs p"
  using assms
proof (induction rule: pool_reachable.induct)
  case pool_start
  then show ?case by (simp add: pool_inv_def pool_New_def in_flight_def active_count_def)
qed (blast intro: pool_step_inv)


definition one_task :: worker_pool where
  "one_task = pool_New 4 \<lparr>bm_budgets = Map.empty, bm_active = [sc_Tenant zero_scope \<mapsto> 1]\<rparr>\<lparr>wp_submitting := [zero_context]\<rparr>"

lemma one_task_reachable: "pool_reachable 4 Map.empty one_task"
proof (rule pool_next [OF pool_start], rule step_reserve)
  show "submit_reserve zero_context (pool_New 4 \<lparr>bm_budgets = Map.empty, bm_active = Map.empty\<rparr>) = Some one_task"
    by (simp add: submit_reserve_def budget_Acquire_def pool_New_def active_count_def one_task_def tenant_of_def zero_context_def
        int64_of_def)
qed


text \<open>Closing the pool while a submission waits for room makes that submission panic.\<close>

lemma close_during_submit_panics: "\<exists>p. pool_reachable 4 Map.empty p \<and> wp_panicked p"
proof -
  have "pool_reachable 4 Map.empty (pool_Close one_task)" using one_task_reachable step_close pool_next by blast
  moreover have "pool_step (pool_Close one_task) (submit_send zero_context (pool_Close one_task))"
    by (rule step_send) (simp_all add: pool_Close_def one_task_def pool_New_def)
  ultimately have "pool_reachable 4 Map.empty (submit_send zero_context (pool_Close one_task))" using pool_next by blast
  then show ?thesis by (rule_tac x = "submit_send zero_context (pool_Close one_task)" in exI) (simp add: submit_send_def pool_Close_def)
qed

end
