(* ===== verification/Scheduler.thy ===== *)
theory Scheduler
  imports Worker_Pool Work_Queue
begin

text \<open>
  \<open>internal/runtime/cooldown\<close> and \<open>internal/runtime/scheduler/stateful\<close>: the cooldowns kept in the
  runtime state, and the scheduler that at every interval queues a reconciliation for each scope, and
  for each item that it takes from the queue decides from the scope's state whether a run is handed
  to the pool. The run itself is the pair of transitions of \<open>executeRun\<close>; the call of the
  orchestrator between them is commented out in the source.
\<close>

section \<open>Cooldowns\<close>

text \<open>The map of cooldowns, kept in the order of the reasons.\<close>

definition cooldown_put :: "string \<Rightarrow> go_time \<Rightarrow> (string \<times> go_time) list \<Rightarrow> (string \<times> go_time) list" where
  "cooldown_put reason expiry cs = insort_key fst (reason, expiry) (filter (\<lambda>(k, _). k \<noteq> reason) cs)"

definition cooldown_Start :: "duration \<Rightarrow> string \<Rightarrow> 'z dir_env_scheme \<Rightarrow> unit result \<times> 'z dir_env_scheme" where
  "cooldown_Start d reason w =
     and_try (store_Load w) (\<lambda>cur w1.
     let (now, w2) = time_Now w1
     in store_Save (cur\<lparr>rs_Cooldowns := cooldown_put reason (time_add now d) (rs_Cooldowns cur)\<rparr>) w2)"

text \<open>Both queries ignore the error of \<open>Load\<close>, which then returned the zero state.\<close>

definition loaded_or_zero :: "runtime_state result \<Rightarrow> runtime_state" where
  "loaded_or_zero r = (case r of Inl _ \<Rightarrow> zero_state | Inr st \<Rightarrow> st)"

definition cooldown_IsActive :: "string \<Rightarrow> 'z dir_env_scheme \<Rightarrow> bool \<times> 'z dir_env_scheme" where
  "cooldown_IsActive reason w =
     (let (r, w1) = store_Load w in
      case map_of (rs_Cooldowns (loaded_or_zero r)) reason of
        None \<Rightarrow> (False, w1)
      | Some expiry \<Rightarrow> let (now, w2) = time_Now w1 in (time_before now expiry, w2))"

definition longest_remaining :: "go_time \<Rightarrow> (string \<times> go_time) list \<Rightarrow> duration" where
  "longest_remaining now cs = foldl (\<lambda>m (_, expiry). let rem = time_sub expiry now in if rem > m then rem else m) 0 cs"

definition cooldown_Remaining :: "'z dir_env_scheme \<Rightarrow> duration \<times> 'z dir_env_scheme" where
  "cooldown_Remaining w =
     (let (r, w1) = store_Load w; cs = rs_Cooldowns (loaded_or_zero r) in
      if cs = [] then (0, w1)
      else let (now, w2) = time_Now w1 in (longest_remaining now cs, w2))"

section \<open>The scheduler\<close>

definition PriorityNormal :: int where "PriorityNormal = 0"

definition scopeForID :: "string \<Rightarrow> string \<Rightarrow> runtime_scope" where
  "scopeForID zoneID scopeID =
     (if scopeID = [] then \<lparr>sc_Tenant = ''default'', sc_AccountID = [], sc_ZoneID = zoneID, sc_Environment = ''prod''\<rparr>
      else \<lparr>sc_Tenant = ''default'', sc_AccountID = scopeID, sc_ZoneID = zoneID, sc_Environment = ''prod''\<rparr>)"

text \<open>One pass of the loop of \<open>Start\<close>: an item for every scope, or one for the zone.\<close>

definition interval_scopes :: "string \<Rightarrow> string list result \<Rightarrow> string list" where
  "interval_scopes zoneID r = (case r of Inl _ \<Rightarrow> [zoneID] | Inr scopes \<Rightarrow> if scopes = [] then [zoneID] else scopes)"

definition scheduler_interval :: "string \<Rightarrow> work_queue \<Rightarrow> 'z dir_env_scheme \<Rightarrow> work_queue \<times> 'z dir_env_scheme" where
  "scheduler_interval zoneID q w =
     (let (r, w1) = store_ListScopes w
      in (foldl (\<lambda>q scopedID. queue_Push \<lparr>wi_Scope = scopeForID zoneID scopedID, wi_Priority = PriorityNormal, wi_Type = ''reconcile''\<rparr> q)
            q (interval_scopes zoneID r), w1))"

text \<open>\<open>tick\<close>: the context that is handed to the pool, if one is.\<close>

definition tick :: "budget_manager \<Rightarrow> work_item \<Rightarrow> 'z dir_env_scheme \<Rightarrow> runtime_context option result \<times> 'z dir_env_scheme" where
  "tick bm item w =
     and_try (store_LoadForScope (scope_ID (wi_Scope item)) w) (\<lambda>cur w1.
     let status = current_status cur in
     if status \<noteq> StatusIdle \<and> status \<noteq> StatusConverged \<and> status \<noteq> StatusFailed then (Inr None, w1)
     else let (rem, w2) = cooldown_Remaining w1 in
       if rem > 0 then (Inr None, w2)
       else (Inr (Some \<lparr>rc_Scope = wi_Scope item, rc_LeaseID = [], rc_EpochID = [],
               rc_FencingToken = ep_Generation (rs_CurrentEpoch cur), rc_TraceID = [],
               rc_Budget = GetBudget bm (sc_Tenant (wi_Scope item))\<rparr>), w2))"

text \<open>One round of \<open>processQueue\<close>: the item that was taken and what its tick decided.\<close>

definition process_next :: "budget_manager \<Rightarrow> work_queue \<Rightarrow> 'z dir_env_scheme \<Rightarrow>
    runtime_context option result option \<times> work_queue \<times> 'z dir_env_scheme" where
  "process_next bm q w =
     (case queue_Pop q of
        (q1, None) \<Rightarrow> (None, q1, w)
      | (q1, Some item) \<Rightarrow> let (r, w1) = tick bm item w in (Some r, q1, w1))"

definition executeRun :: "'z state_machine \<Rightarrow> runtime_context \<Rightarrow> 'z db_env_scheme \<Rightarrow> unit result \<times> 'z db_env_scheme" where
  "executeRun sm ctx w =
     and_try (Transition sm ctx StatusDiscovering ''autonomous run'' w) (\<lambda>_ w1.
     let (_, w2) = Transition sm ctx StatusIdle ''run completed'' w1 in (Inr (), w2))"

definition recoverStaleState :: "'z state_machine \<Rightarrow> 'z db_env_scheme \<Rightarrow> unit result \<times> 'z db_env_scheme" where
  "recoverStaleState sm w =
     and_try (store_Load w) (\<lambda>cur w1.
     if lc_Status (rs_Lifecycle cur) \<in> set [[], StatusIdle, StatusConverged, StatusFailed, StatusPaused, StatusQuarantined]
     then (Inr (), w1)
     else Transition sm zero_context StatusFailed ''startup: stale state recovery'' w1)"

section \<open>Lemmas on cooldowns\<close>

lemma cooldown_put_lookup: "map_of (cooldown_put k t cs) j = (if j = k then Some t else map_of cs j)"
proof -
  have ins: "map_of (insort_key fst (k, t) xs) j = (if j = k then Some t else map_of xs j)" if "k \<notin> fst ` set xs" for xs
    using that by (induction xs) auto
  have "map_of (filter (\<lambda>(k', _). k' \<noteq> k) cs) j = (if j = k then None else map_of cs j)"
    by (induction cs) auto
  then show ?thesis unfolding cooldown_put_def by (subst ins) auto
qed

lemma cooldown_put_keys:
  assumes "sorted (map fst cs)" and "distinct (map fst cs)"
  shows "sorted (map fst (cooldown_put k t cs))" "distinct (map fst (cooldown_put k t cs))"
proof -
  have "sorted (map fst (filter (\<lambda>(k', _). k' \<noteq> k) cs))" using assms(1) by (rule sorted_filter)
  then show "sorted (map fst (cooldown_put k t cs))" by (simp add: cooldown_put_def sorted_insort_key)
  have "distinct (map fst (filter (\<lambda>(k', _). k' \<noteq> k) cs))" using assms(2) by (rule distinct_map_filter)
  moreover have "distinct (map fst (insort_key fst (k, t) xs)) \<longleftrightarrow> k \<notin> fst ` set xs \<and> distinct (map fst xs)" for xs
    by (induction xs) (auto simp: set_insort_key)
  ultimately show "distinct (map fst (cooldown_put k t cs))" unfolding cooldown_put_def by auto
qed

lemma longest_remaining_ge:
  "m \<le> foldl (\<lambda>m (_, expiry). let rem = time_sub expiry now in if rem > m then rem else m) m cs \<and>
   (\<forall>(k, e) \<in> set cs. time_sub e now \<le> foldl (\<lambda>m (_, expiry). let rem = time_sub expiry now in if rem > m then rem else m) m cs)"
proof (induction cs arbitrary: m)
  case (Cons c cs)
  obtain k e where c: "c = (k, e)" by (cases c)
  show ?case using Cons [of "if time_sub e now > m then time_sub e now else m"] by (auto simp: c Let_def)
qed simp

lemma longest_remaining_pos_iff: "longest_remaining now cs > 0 \<longleftrightarrow> (\<exists>(k, e) \<in> set cs. e > now)"
proof -
  have one: "time_sub e now > 0 \<longleftrightarrow> e > now" for e using time_sub_gt_iff [of 0 e now] by (simp add: min_int64_def max_int64_def)
  have up: "foldl (\<lambda>m (_, expiry). let rem = time_sub expiry now in if rem > m then rem else m) m cs \<in> insert m ((\<lambda>(k, e). time_sub e now) ` set cs)" for m
  proof (induction cs arbitrary: m)
    case (Cons c cs)
    obtain k e where c: "c = (k, e)" by (cases c)
    show ?case using Cons [of "if time_sub e now > m then time_sub e now else m"] by (auto simp: c Let_def)
  qed simp
  show ?thesis
  proof
    assume "longest_remaining now cs > 0"
    then obtain k e where "(k, e) \<in> set cs" "time_sub e now > 0" using up [of 0] by (auto simp: longest_remaining_def)
    then show "\<exists>(k, e) \<in> set cs. e > now" using one by blast
  next
    assume "\<exists>(k, e) \<in> set cs. e > now"
    then obtain k e where "(k, e) \<in> set cs" "time_sub e now > 0" using one by auto
    then show "longest_remaining now cs > 0"
      using longest_remaining_ge [of 0 now cs] by (fastforce simp: longest_remaining_def)
  qed
qed

text \<open>
  A cooldown that was started holds the scheduler back until it expires. After \<open>Start\<close> reported
  success, in any later world with the same stored state in which the file system does not fail, and
  as long as the clock reads less than the instant of the call plus the duration, \<open>IsActive\<close> is true
  for that reason, the remaining time is positive and no tick hands a run to the pool.
\<close>

theorem cooldown_blocks_ticks:
  fixes w :: "'y dir_env_scheme" and w2 :: "'z dir_env_scheme"
  assumes "stored_state w = Inr cur" and "state_ok cur" and "cooldown_Start d reason w = (Inr (), w1)"
    and "no_faults w2" and "stored_state w2 = stored_state w1"
    and "\<forall>n. io_clock w2 n < io_clock w (Suc (io_step w)) + d"
  shows "fst (cooldown_IsActive reason w2) \<and> fst (cooldown_Remaining w2) > 0 \<and>
    (\<forall>ctx. fst (tick bm item w2) \<noteq> Inr (Some ctx))"
proof -
  let ?e = "io_clock w (Suc (io_step w)) + d"
  let ?st = "cur\<lparr>rs_Cooldowns := cooldown_put reason ?e (rs_Cooldowns cur)\<rparr>"
  have ok: "state_ok ?st" using assms(2) cooldown_put_keys [of "rs_Cooldowns cur"] by (simp add: state_ok_def)
  have "store_Save ?st (w\<lparr>io_step := Suc (Suc (io_step w))\<rparr>) = (Inr (), w1)"
    using assms(1,3) by (cases w rule: store_Load_cases) (auto simp: cooldown_Start_def time_Now_def Let_def time_add_def)
  from store_Save_stored [OF this ok] have st: "stored_state w2 = Inr ?st" using assms(5) by simp
  note load = store_Load_ok [OF assms(4), unfolded st]
  have look: "map_of (rs_Cooldowns ?st) reason = Some ?e" by (simp add: cooldown_put_lookup)
  then have mem: "(reason, ?e) \<in> set (cooldown_put reason ?e (rs_Cooldowns cur))" by (simp add: map_of_SomeD)
  have active: "fst (cooldown_IsActive reason w2)"
    using assms(6) look by (simp add: cooldown_IsActive_def load loaded_or_zero_def time_Now_def time_before_def)
  have remaining: "fst (cooldown_Remaining v) > 0" if "no_faults v" "fs_files v = fs_files w2" "io_clock v = io_clock w2" for v :: "'z dir_env_scheme"
  proof -
    have "stored_state v = Inr ?st" using st that(2) by (simp add: stored_state_def)
    then have "store_Load v = (Inr ?st, v\<lparr>io_step := Suc (io_step v)\<rparr>)" using store_Load_ok [OF that(1)] by simp
    moreover have "longest_remaining (io_clock v (Suc (io_step v))) (cooldown_put reason ?e (rs_Cooldowns cur)) > 0"
      unfolding longest_remaining_pos_iff using mem assms(6) that(3) by auto
    moreover have "cooldown_put reason ?e (rs_Cooldowns cur) \<noteq> []" using mem by auto
    ultimately show ?thesis by (simp add: cooldown_Remaining_def loaded_or_zero_def time_Now_def)
  qed
  have "fst (tick bm item w2) \<noteq> Inr (Some ctx)" for ctx
  proof -
    obtain r v where lo: "store_LoadForScope (scope_ID (wi_Scope item)) w2 = (r, v)"
      by (cases "store_LoadForScope (scope_ID (wi_Scope item)) w2")
    then have "no_faults v" "fs_files v = fs_files w2" "io_clock v = io_clock w2"
      using assms(4) by (auto simp: store_LoadForScope_def store_Load_def loadGlobalUnlocked_def load_global_def Let_def
          io_call_ok split: option.splits if_splits)
    from remaining [OF this] show ?thesis
      using lo by (cases r) (auto simp: tick_def Let_def split: prod.splits)
  qed
  then show ?thesis using active remaining [OF assms(4)] by simp
qed

definition zone_item :: work_item where
  "zone_item = \<lparr>wi_Scope = scopeForID ''z1'' [], wi_Priority = PriorityNormal, wi_Type = ''reconcile''\<rparr>"

lemma quiet_db_stored: "stored_state quiet_db = Inr zero_state"
  by (simp add: stored_state_def quiet_db_def file_get_def)

lemma cooldown_Start_quiet:
  assumes "no_faults w" and "stored_state w = Inr cur"
  shows "\<exists>w'. cooldown_Start d reason w = (Inr (), w') \<and> no_faults w'"
proof -
  let ?w2 = "w\<lparr>io_step := Suc (Suc (io_step w))\<rparr>"
  let ?st = "cur\<lparr>rs_Cooldowns := cooldown_put reason (time_add (io_clock w (Suc (io_step w))) d) (rs_Cooldowns cur)\<rparr>"
  have "no_faults ?w2" using assms(1) by simp
  then obtain w' where save: "store_Save ?st ?w2 = (Inr (), w')" using store_Save_ok by blast
  have "no_faults w'" using store_Save_frame [OF save] assms(1) by (simp add: no_faults_def)
  then show ?thesis using save assms by (simp add: cooldown_Start_def store_Load_ok time_Now_def Let_def)
qed

theorem cooldown_blocks_ticks_witness:
  "\<exists>w1. cooldown_Start 100 ''rollback'' quiet_db = (Inr (), w1) \<and>
     fst (cooldown_Remaining (w1\<lparr>io_clock := \<lambda>_. 5\<rparr>)) > 0"
proof -
  obtain w1 where st: "cooldown_Start 100 ''rollback'' quiet_db = (Inr (), w1)" "no_faults w1"
    using cooldown_Start_quiet [OF quiet_db_ok(2) quiet_db_stored] by blast
  have "no_faults (w1\<lparr>io_clock := \<lambda>_. 5\<rparr>)" using st(2) by (simp add: no_faults_def)
  from cooldown_blocks_ticks [OF quiet_db_stored zero_state_ok st(1) this, of budget_NewManager zone_item]
  have "fst (cooldown_Remaining (w1\<lparr>io_clock := \<lambda>_. 5\<rparr>)) > 0" by (simp add: quiet_db_def stored_state_def)
  then show ?thesis using st(1) by blast
qed

section \<open>Runs and recovery\<close>

lemma Transition_refused:
  assumes "Transition sm ctx to_st reason w = (r, w')" and "stored_state w = Inr cur" and "\<not> isTransitionAllowed (current_status cur) to_st"
  shows "fs_files w' = fs_files w"
  using assms by (cases w rule: store_Load_cases) (auto simp: Transition_def Let_def)

lemma current_status_transition:
  "ti_To i \<noteq> [] \<Longrightarrow> current_status (ApplyLifecycleTransition st i) = ti_To i"
  by (simp add: current_status_def)

lemma status_nonempty: "StatusDiscovering \<noteq> []" "StatusFailed \<noteq> []" "StatusIdle \<noteq> []"
  by (simp_all add: status_defs)

lemma tick_unscoped:
  assumes "stored_state w = Inr cur" and "file_get (scopedStateFile (scope_ID (wi_Scope item))) (fs_files w) = None"
    and "current_status cur \<notin> {StatusIdle, StatusConverged, StatusFailed}"
  shows "fst (tick bm item w) \<noteq> Inr (Some ctx)"
proof -
  obtain r v where lo: "store_LoadForScope (scope_ID (wi_Scope item)) w = (r, v)"
    by (cases "store_LoadForScope (scope_ID (wi_Scope item)) w")
  have "scope_ID (wi_Scope item) \<noteq> []" by (metis length_scope_ID list.size(3) zero_neq_numeral)
  then have "r = Inr cur \<or> (\<exists>e. r = Inl e)"
    using lo assms(1,2)
    by (auto simp: store_LoadForScope_def loadGlobalUnlocked_def load_global_def Let_def and_then_def io_call_def
        stored_state_def decode_file_def split: option.splits file_data.splits sum.splits)
  then show ?thesis using lo assms(3) by (auto simp: tick_def Let_def)
qed

lemma transition_cooldowns: "rs_Cooldowns (ApplyLifecycleTransition st i) = rs_Cooldowns st"
  by (simp add: transition_defs Let_def)

lemma Transition_scoped_files:
  fixes w :: "'z db_env_scheme"
  assumes "sm_ok sm"
  shows "file_get (scopedStateFile a) (fs_files (snd (Transition sm ctx to_st reason w))) = file_get (scopedStateFile a) (fs_files w)"
proof -
  let ?g = "\<lambda>w :: 'z db_env_scheme. file_get (scopedStateFile a) (fs_files w)"
  have load: "?g (snd (store_Load w)) = ?g w" by (cases w rule: store_Load_cases) auto
  have save: "?g (snd (store_Save st v)) = ?g v" for st v
    using replace_file_get [OF _ prod.collapse [symmetric], of "scopedStateFile a" global_file "''runtime.state.Save''" st v]
    by (simp add: store_Save_def)
  have publish: "?g (snd (case sm_eventBus sm of None \<Rightarrow> (Inr (), v)
     | Some subs \<Rightarrow> and_then transition_op (bus_PublishEvent subs req v) (\<lambda>ev w4.
         case sm_checkpoints sm of None \<Rightarrow> (Inr (), w4)
         | Some cm \<Rightarrow> transition_checkpoints cm scopeID from_st to_st ev st w4))) = ?g v" for v req scopeID from_st st
    using publish_part_db_frame [OF assms, of v req scopeID from_st to_st st] by (simp add: db_frame_def)
  show ?thesis
    unfolding Transition_def
    by (rule and_then_frame [where g = ?g, OF load])
      (auto simp: Let_def time_Now_def intro!: and_then_frame [where g = ?g] simp: save publish)
qed

lemma tick_runs:
  assumes "no_faults w" and "stored_state w = Inr cur" and "file_get (scopedStateFile (scope_ID (wi_Scope item))) (fs_files w) = None"
    and "current_status cur \<in> {StatusIdle, StatusConverged, StatusFailed}" and "rs_Cooldowns cur = []"
  shows "\<exists>ctx. fst (tick bm item w) = Inr (Some ctx)"
proof -
  have "scope_ID (wi_Scope item) \<noteq> []" by (metis length_scope_ID list.size(3) zero_neq_numeral)
  moreover have decoded: "decode_file ''runtime.state.loadGlobalUnlocked'' d = Inr cur"
    if "decode_file ''runtime.state.Load'' d = Inr cur" for d
    using that by (auto simp: decode_file_def split: file_data.splits sum.splits)
  ultimately have load: "store_LoadForScope (scope_ID (wi_Scope item)) w = (Inr cur, w\<lparr>io_step := Suc (Suc (io_step w))\<rparr>)"
    using assms(1-3)
    by (auto simp: store_LoadForScope_def loadGlobalUnlocked_def load_global_def Let_def io_call_ok stored_state_def
        split: option.splits)
  have st: "stored_state (w\<lparr>io_step := Suc (Suc (io_step w))\<rparr>) = Inr cur" using assms(2) by (simp add: stored_state_def)
  have "fst (cooldown_Remaining (w\<lparr>io_step := Suc (Suc (io_step w))\<rparr>)) = 0"
    using store_Load_ok [of "w\<lparr>io_step := Suc (Suc (io_step w))\<rparr>"] assms(1,5) st by (simp add: cooldown_Remaining_def loaded_or_zero_def)
  then show ?thesis using load assms(4) by (auto simp: tick_def Let_def split: prod.split)
qed

text \<open>
  A scheduled run leaves the runtime in discovery and no later tick starts another. The closing
  transition of \<open>executeRun\<close>, from discovery to idle, is not in the table; its refusal is ignored, so
  whenever a run reports success the stored status is discovering, and no tick for a scope without a
  state file of its own hands a run to the pool again.
\<close>

theorem run_leaves_runtime_discovering:
  fixes w :: "'z db_env_scheme"
  assumes "stored_state w = Inr cur" and "state_ok cur" and "sm_ok sm" and "is_int64 (rc_FencingToken ctx)"
    and "executeRun sm ctx w = (Inr (), w')"
  shows "\<exists>st. stored_state w' = Inr st \<and> current_status st = StatusDiscovering \<and>
    (\<forall>item ctx'. file_get (scopedStateFile (scope_ID (wi_Scope item))) (fs_files w') = None \<longrightarrow>
       fst (tick bm item w') \<noteq> Inr (Some ctx'))"
proof -
  obtain w1 where first: "Transition sm ctx StatusDiscovering ''autonomous run'' w = (Inr (), w1)"
      and last: "snd (Transition sm ctx StatusIdle ''run completed'' w1) = w'"
    using assms(5) by (auto simp: executeRun_def and_try_Inr_iff split_beta)
  obtain r where second: "Transition sm ctx StatusIdle ''run completed'' w1 = (r, w')" using last prod.collapse by metis
  from first assms(3,1,2,4) obtain st where st: "stored_state w1 = Inr st" "current_status st = StatusDiscovering"
  proof (cases rule: Transition_cases)
    case (saved now st w3)
    then have "stored_state w1 = Inr st" using stored_state_files by metis
    moreover have "current_status st = StatusDiscovering"
      unfolding saved(2) by (simp add: current_status_transition input_of_context_def status_nonempty)
    ultimately show ?thesis using that by blast
  qed simp
  have "\<not> isTransitionAllowed (current_status st) StatusIdle"
    unfolding st(2) by (simp add: isTransitionAllowed_def allowed_targets_def status_defs)
  from Transition_refused [OF second st(1) this] have "stored_state w' = Inr st" using st(1) stored_state_files by metis
  then show ?thesis using st(2) tick_unscoped [of w' st] by (auto simp: status_defs)
qed

lemma executeRun_quiet:
  fixes w :: "'z db_env_scheme"
  assumes "no_faults w" "\<not> db_ReadOnly w" "log_inv w" "stored_state w = Inr cur"
    "isTransitionAllowed (current_status cur) StatusDiscovering" "sm_ok sm" "sm_checkpoints sm = None"
  shows "\<exists>w'. executeRun sm ctx w = (Inr (), w')"
  using Transition_quiet [OF assms, where ctx = ctx and reason = "''autonomous run''"]
  by (fastforce simp: executeRun_def split: prod.split)

theorem run_leaves_runtime_discovering_witness:
  "\<exists>w' st. executeRun bare_machine zero_context quiet_db = (Inr (), w') \<and> stored_state w' = Inr st \<and> current_status st = StatusDiscovering"
proof -
  have sm: "sm_ok bare_machine" "sm_checkpoints bare_machine = None" by (simp_all add: bare_machine_def sm_ok_def)
  have "isTransitionAllowed (current_status zero_state) StatusDiscovering"
    by (simp add: zero_state_idle isTransitionAllowed_def allowed_targets_def status_defs)
  then obtain w' where run: "executeRun bare_machine zero_context quiet_db = (Inr (), w')"
    using executeRun_quiet [OF quiet_db_ok(2,3,1) quiet_db_stored _ sm] by blast
  from run_leaves_runtime_discovering [OF quiet_db_stored zero_state_ok sm(1) zero_context_token run] show ?thesis
    using run by blast
qed


definition stranded_state :: runtime_state where
  "stranded_state = zero_state\<lparr>rs_Lifecycle := zero_lifecycle\<lparr>lc_Status := StatusDiscovering\<rparr>\<rparr>"

definition stranded_db :: db_env where
  "stranded_db = quiet_db\<lparr>fs_files := [(global_file, File_json (json_of_state stranded_state))]\<rparr>"


end
