(* ===== verification/Planner.thy ===== *)
theory Planner
  imports Go_World "HOL-Library.Product_Lexorder"
begin

text \<open>
  \<open>internal/snapshot\<close> (the model of a snapshot and \<open>CanonicalJSON\<close>) and \<open>internal/reconciliation\<close> (the
  planner that compares a snapshot with a target). Of a snapshot and of its objects the
  fields are kept that this code reads.
\<close>

section \<open>Snapshots\<close>

record normalized_object =
  no_ObjectID :: string
  no_ObjectType :: string
  no_StableIdentityKey :: string
  no_Attributes :: metadata

record snapshot =
  sn_SnapshotID :: string
  sn_Objects :: "normalized_object list"
  sn_SnapshotChecksum :: string

text \<open>\<open>writeCanonicalJSON\<close>: the members of a map by the order of their names.\<close>

fun writeCanonicalJSON :: "go_any \<Rightarrow> string" where
  "writeCanonicalJSON ANil = ''null''"
| "writeCanonicalJSON (AString s) = json_quote s"
| "writeCanonicalJSON (ABool b) = (if b then ''true'' else ''false'')"
| "writeCanonicalJSON (ANumber s) = s"
| "writeCanonicalJSON (AMap ms) = ''{'' @ comma_join (map (\<lambda>(k, t). json_quote k @ CHR '':'' # t)
     (sort_key fst (map (\<lambda>(k, v). (k, writeCanonicalJSON v)) ms))) @ ''}''"
| "writeCanonicalJSON (AList vs) = ''['' @ comma_join (map writeCanonicalJSON vs) @ '']''"
| "writeCanonicalJSON (AInt n) = show_int n"
| "writeCanonicalJSON (AInt64 n) = show_int n"
| "writeCanonicalJSON (AFloat64 n) = json_text (json_of_float64 n)"

definition CanonicalJSON :: "go_any \<Rightarrow> string" where
  "CanonicalJSON v = writeCanonicalJSON v"

section \<open>The planner\<close>

type_synonym operation_type = string

definition OpCreate :: operation_type where "OpCreate = ''create''"
definition OpDelete :: operation_type where "OpDelete = ''delete''"
definition OpUpdate :: operation_type where "OpUpdate = ''update''"

lemmas op_type_defs = OpCreate_def OpDelete_def OpUpdate_def

text \<open>A payload is a map or nil.\<close>

record operation =
  op_OperationID :: string
  op_Type :: operation_type
  op_TargetID :: string
  op_ResourceType :: string
  op_Reason :: string
  op_IdempotencyKey :: string
  op_State :: string
  op_Payload :: "metadata option"
  op_Preconditions :: metadata

record plan =
  pl_PlanID :: string
  pl_SnapshotID :: string
  pl_CreatedAt :: go_time
  pl_Operations :: "operation list"
  pl_DryRunSummary :: string
  pl_Status :: string

definition unix_nano :: "go_time \<Rightarrow> int" where
  "unix_nano t = int64_of (t - 62135596800000000000)"

definition deriveOpID :: "operation_type \<Rightarrow> string \<Rightarrow> 'z io_env_scheme \<Rightarrow> string \<times> 'z io_env_scheme" where
  "deriveOpID t targetID w =
     (let (now, w1) = time_Now w in
      (''op-'' @ take 16 (sha256_hex (t @ '':'' @ targetID @ '':'' @ RFC3339Nano now)), w1))"

definition deriveIdempotencyKey :: "operation_type \<Rightarrow> string \<Rightarrow> metadata option \<Rightarrow> string" where
  "deriveIdempotencyKey t targetID payload =
     sha256_hex (t @ '':'' @ targetID @ '':'' @ (case payload of None \<Rightarrow> [] | Some m \<Rightarrow> CanonicalJSON (AMap m)))"

definition attributesEqual :: "metadata \<Rightarrow> metadata \<Rightarrow> bool" where
  "attributesEqual a b \<longleftrightarrow> CanonicalJSON (AMap a) = CanonicalJSON (AMap b)"

definition typePriority :: "operation_type \<Rightarrow> int" where
  "typePriority t = (if t = OpDelete then 1 else if t = OpUpdate then 2 else if t = OpCreate then 3 else 4)"

definition countType :: "operation list \<Rightarrow> operation_type \<Rightarrow> nat" where
  "countType ops t = length (filter (\<lambda>op. op_Type op = t) ops)"

text \<open>The maps by identity key; a later object replaces an earlier one.\<close>

definition by_key :: "normalized_object list \<Rightarrow> string \<rightharpoonup> normalized_object" where
  "by_key objs = map_of (rev (map (\<lambda>obj. (no_StableIdentityKey obj, obj)) objs))"

definition planned :: "operation_type \<Rightarrow> normalized_object \<Rightarrow> string \<Rightarrow> metadata option \<Rightarrow> metadata \<Rightarrow> 'z io_env_scheme \<Rightarrow> operation \<times> 'z io_env_scheme" where
  "planned t obj reason payload pre w =
     (let (i, w1) = deriveOpID t (no_StableIdentityKey obj) w in
      (\<lparr>op_OperationID = i, op_Type = t, op_TargetID = no_StableIdentityKey obj, op_ResourceType = no_ObjectType obj,
        op_Reason = reason, op_IdempotencyKey = deriveIdempotencyKey t (no_StableIdentityKey obj) payload,
        op_State = ''planned'', op_Payload = payload, op_Preconditions = pre\<rparr>, w1))"

fun plan_deletions :: "(string \<rightharpoonup> normalized_object) \<Rightarrow> normalized_object list \<Rightarrow> 'z io_env_scheme \<Rightarrow> operation list \<times> 'z io_env_scheme" where
  "plan_deletions targetMap [] w = ([], w)"
| "plan_deletions targetMap (obj # objs) w =
     (if targetMap (no_StableIdentityKey obj) = None then
        let (op, w1) = planned OpDelete obj ''not present in target state'' None [] w;
            (ops, w2) = plan_deletions targetMap objs w1
        in (op # ops, w2)
      else plan_deletions targetMap objs w)"

fun plan_changes :: "(string \<rightharpoonup> normalized_object) \<Rightarrow> normalized_object list \<Rightarrow> 'z io_env_scheme \<Rightarrow> operation list \<times> 'z io_env_scheme" where
  "plan_changes currentMap [] w = ([], w)"
| "plan_changes currentMap (obj # objs) w =
     (case currentMap (no_StableIdentityKey obj) of
        None \<Rightarrow>
          let (op, w1) = planned OpCreate obj ''present in target but not in current state'' (Some (no_Attributes obj)) [] w;
              (ops, w2) = plan_changes currentMap objs w1
          in (op # ops, w2)
      | Some old \<Rightarrow>
          if \<not> attributesEqual (no_Attributes old) (no_Attributes obj) then
            let (op, w1) = planned OpUpdate obj ''attributes differ between current and target state'' (Some (no_Attributes obj)) (no_Attributes old) w;
                (ops, w2) = plan_changes currentMap objs w1
            in (op # ops, w2)
          else plan_changes currentMap objs w)"

text \<open>\<open>sort.Slice\<close> with the comparison by type and then by target. It is not stable; operations that
  compare equal have the same type and target.\<close>

definition operation_key :: "operation \<Rightarrow> int \<times> string" where
  "operation_key op = (typePriority (op_Type op), op_TargetID op)"

definition planner_Plan :: "snapshot option \<Rightarrow> normalized_object list \<Rightarrow> 'z io_env_scheme \<Rightarrow> plan \<times> 'z io_env_scheme" where
  "planner_Plan current target w =
     (let (t1, w1) = time_Now w; (t2, w2) = time_Now w1;
          objs = (case current of None \<Rightarrow> [] | Some s \<Rightarrow> sn_Objects s);
          (dels, w3) = plan_deletions (by_key target) objs w2;
          (changes, w4) = plan_changes (by_key objs) target w3;
          ops = sort_key operation_key (dels @ changes)
      in (\<lparr>pl_PlanID = ''plan-'' @ show_int (unix_nano t1),
           pl_SnapshotID = (case current of None \<Rightarrow> [] | Some s \<Rightarrow> sn_SnapshotID s),
           pl_CreatedAt = t2, pl_Operations = ops,
           pl_DryRunSummary = ''Planned '' @ show_nat (length ops) @ '' operations: '' @ show_nat (countType ops OpCreate) @
             '' creations, '' @ show_nat (countType ops OpUpdate) @ '' updates, '' @ show_nat (countType ops OpDelete) @ '' deletions'',
           pl_Status = ''draft''\<rparr>, w4))"

section \<open>What a plan does\<close>

text \<open>The remote state, as far as the planner compares it: the canonical attributes by identity key.
  Carrying out an operation removes the object or gives it the payload.\<close>

definition remote_of :: "normalized_object list \<Rightarrow> string \<rightharpoonup> string" where
  "remote_of objs k = map_option (\<lambda>obj. CanonicalJSON (AMap (no_Attributes obj))) (by_key objs k)"

definition carry_out :: "(string \<rightharpoonup> string) \<Rightarrow> operation \<Rightarrow> string \<rightharpoonup> string" where
  "carry_out st op = st(op_TargetID op := map_option (\<lambda>m. CanonicalJSON (AMap m)) (op_Payload op))"

lemma carry_out_all:
  assumes "\<And>op. op \<in> set ops \<Longrightarrow> op_TargetID op = k \<Longrightarrow> map_option (\<lambda>m. CanonicalJSON (AMap m)) (op_Payload op) = v"
  shows "foldl carry_out st ops k = (if \<exists>op \<in> set ops. op_TargetID op = k then v else st k)"
  using assms
proof (induction ops rule: rev_induct)
  case (snoc op ops)
  then show ?case by (auto simp: carry_out_def)
qed simp

lemma planned_fields:
  assumes "planned t obj reason payload pre w = (op, w')"
  shows "op_Type op = t" "op_TargetID op = no_StableIdentityKey obj" "op_Payload op = payload"
  using assms by (auto simp: planned_def split: prod.splits)

lemma plan_deletions_iff:
  "(\<exists>op \<in> set (fst (plan_deletions tm objs w)). P (op_Type op) (op_TargetID op) (op_Payload op)) \<longleftrightarrow>
   (\<exists>obj \<in> set objs. tm (no_StableIdentityKey obj) = None \<and> P OpDelete (no_StableIdentityKey obj) None)"
proof (induction objs arbitrary: w)
  case (Cons obj objs)
  show ?case
  proof (cases "tm (no_StableIdentityKey obj) = None")
    case True
    obtain op w1 where op: "planned OpDelete obj ''not present in target state'' None [] w = (op, w1)"
      by (cases "planned OpDelete obj ''not present in target state'' None [] w")
    then show ?thesis using True Cons [of w1] planned_fields [OF op] by (simp add: split_beta)
  next
    case False
    then obtain y where "tm (no_StableIdentityKey obj) = Some y" by blast
    then show ?thesis using Cons [of w] by simp
  qed
qed simp

lemma plan_changes_iff:
  "(\<exists>op \<in> set (fst (plan_changes cm objs w)). P (op_Type op) (op_TargetID op) (op_Payload op)) \<longleftrightarrow>
   (\<exists>obj \<in> set objs. cm (no_StableIdentityKey obj) = None \<and> P OpCreate (no_StableIdentityKey obj) (Some (no_Attributes obj)) \<or>
     (\<exists>old. cm (no_StableIdentityKey obj) = Some old \<and> \<not> attributesEqual (no_Attributes old) (no_Attributes obj) \<and>
        P OpUpdate (no_StableIdentityKey obj) (Some (no_Attributes obj))))"
proof (induction objs arbitrary: w)
  case (Cons obj objs)
  show ?case
  proof (cases "cm (no_StableIdentityKey obj)")
    case None
    obtain op w1 where op: "planned OpCreate obj ''present in target but not in current state'' (Some (no_Attributes obj)) [] w = (op, w1)"
      by (cases "planned OpCreate obj ''present in target but not in current state'' (Some (no_Attributes obj)) [] w")
    then show ?thesis using None Cons [of w1] planned_fields [OF op] by (simp add: split_beta)
  next
    case (Some old)
    obtain op w1 where op: "planned OpUpdate obj ''attributes differ between current and target state'' (Some (no_Attributes obj)) (no_Attributes old) w = (op, w1)"
      by (cases "planned OpUpdate obj ''attributes differ between current and target state'' (Some (no_Attributes obj)) (no_Attributes old) w")
    then show ?thesis
      using Some Cons [of w1] Cons [of w] planned_fields [OF op]
      by (cases "attributesEqual (no_Attributes old) (no_Attributes obj)") (simp_all add: split_beta)
  qed
qed simp

lemma plan_operations:
  "pl_Operations (fst (planner_Plan current target w)) =
     sort_key operation_key (fst (plan_deletions (by_key target) (case current of None \<Rightarrow> [] | Some s \<Rightarrow> sn_Objects s)
        (w\<lparr>io_step := Suc (Suc (io_step w))\<rparr>)) @
      fst (plan_changes (by_key (case current of None \<Rightarrow> [] | Some s \<Rightarrow> sn_Objects s)) target
        (snd (plan_deletions (by_key target) (case current of None \<Rightarrow> [] | Some s \<Rightarrow> sn_Objects s) (w\<lparr>io_step := Suc (Suc (io_step w))\<rparr>)))))"
  by (simp add: planner_Plan_def time_Now_def Let_def split_beta)

text \<open>Which operations a plan has.\<close>

lemma plan_iff:
  assumes "objs = (case current of None \<Rightarrow> [] | Some s \<Rightarrow> sn_Objects s)"
  shows "(\<exists>op \<in> set (pl_Operations (fst (planner_Plan current target w))). P (op_Type op) (op_TargetID op) (op_Payload op)) \<longleftrightarrow>
    (\<exists>obj \<in> set objs. by_key target (no_StableIdentityKey obj) = None \<and> P OpDelete (no_StableIdentityKey obj) None) \<or>
    (\<exists>obj \<in> set target. by_key objs (no_StableIdentityKey obj) = None \<and> P OpCreate (no_StableIdentityKey obj) (Some (no_Attributes obj)) \<or>
     (\<exists>old. by_key objs (no_StableIdentityKey obj) = Some old \<and> \<not> attributesEqual (no_Attributes old) (no_Attributes obj) \<and>
        P OpUpdate (no_StableIdentityKey obj) (Some (no_Attributes obj))))"
  unfolding plan_operations set_sort set_append bex_Un assms [symmetric] plan_deletions_iff plan_changes_iff by simp

lemma by_key_Some: "by_key objs k = Some obj \<Longrightarrow> obj \<in> set objs \<and> no_StableIdentityKey obj = k"
  by (auto simp: by_key_def dest!: map_of_SomeD)

lemma by_key_None: "by_key objs k = None \<longleftrightarrow> (\<forall>obj \<in> set objs. no_StableIdentityKey obj \<noteq> k)"
  by (auto simp: by_key_def map_of_eq_None_iff image_iff)

lemma by_key_distinct:
  assumes "distinct (map no_StableIdentityKey objs)" and "obj \<in> set objs"
  shows "by_key objs (no_StableIdentityKey obj) = Some obj"
  using assms by (auto simp: by_key_def rev_map [symmetric] o_def intro!: map_of_is_SomeI)

lemma plan_at:
  assumes objs: "objs = (case current of None \<Rightarrow> [] | Some s \<Rightarrow> sn_Objects s)" and dist: "distinct (map no_StableIdentityKey target)"
    and op: "op \<in> set (pl_Operations (fst (planner_Plan current target w)))" "op_TargetID op = k"
  shows "map_option (\<lambda>m. CanonicalJSON (AMap m)) (op_Payload op) = remote_of target k \<and> remote_of objs k \<noteq> remote_of target k"
proof -
  let ?P = "\<lambda>(t :: operation_type) i p. i = k \<and> p = op_Payload op"
  have "\<exists>op \<in> set (pl_Operations (fst (planner_Plan current target w))). ?P (op_Type op) (op_TargetID op) (op_Payload op)"
    using op by blast
  then consider (del) obj where "obj \<in> set objs" "by_key target k = None" "no_StableIdentityKey obj = k" "op_Payload op = None"
    | (create) obj where "obj \<in> set target" "by_key objs k = None" "no_StableIdentityKey obj = k" "op_Payload op = Some (no_Attributes obj)"
    | (update) obj old where "obj \<in> set target" "by_key objs k = Some old" "no_StableIdentityKey obj = k"
        "\<not> attributesEqual (no_Attributes old) (no_Attributes obj)" "op_Payload op = Some (no_Attributes obj)"
    unfolding plan_iff [OF objs, where P = ?P] by (auto 0 4)
  then show ?thesis
  proof cases
    case del
    then show ?thesis using by_key_None [of objs k] by (auto simp: remote_of_def)
  next
    case create
    then show ?thesis using by_key_distinct [OF dist, of obj] by (simp add: remote_of_def)
  next
    case update
    then show ?thesis using by_key_distinct [OF dist, of obj] by (auto simp: remote_of_def attributesEqual_def)
  qed
qed

lemma plan_covers:
  assumes objs: "objs = (case current of None \<Rightarrow> [] | Some s \<Rightarrow> sn_Objects s)" and diff: "remote_of objs k \<noteq> remote_of target k"
  shows "\<exists>op \<in> set (pl_Operations (fst (planner_Plan current target w))). op_TargetID op = k"
proof -
  have "(\<exists>obj \<in> set objs. by_key target (no_StableIdentityKey obj) = None \<and> no_StableIdentityKey obj = k) \<or>
    (\<exists>obj \<in> set target. by_key objs (no_StableIdentityKey obj) = None \<and> no_StableIdentityKey obj = k \<or>
     (\<exists>old. by_key objs (no_StableIdentityKey obj) = Some old \<and> \<not> attributesEqual (no_Attributes old) (no_Attributes obj) \<and>
        no_StableIdentityKey obj = k))"
  proof (cases "by_key target k")
    case None
    then obtain obj where "by_key objs k = Some obj" using diff by (auto simp: remote_of_def)
    then show ?thesis using None by_key_Some by blast
  next
    case (Some obj)
    note obj = by_key_Some [OF this]
    show ?thesis
    proof (cases "by_key objs k")
      case None
      then show ?thesis using obj by (auto intro!: bexI [of _ obj])
    next
      case (Some old)
      then have "\<not> attributesEqual (no_Attributes old) (no_Attributes obj)"
        using diff \<open>by_key target k = Some obj\<close> by (auto simp: remote_of_def attributesEqual_def)
      then show ?thesis using obj Some by (auto intro!: bexI [of _ obj])
    qed
  qed
  then show ?thesis using plan_iff [OF objs, where P = "\<lambda>t i p. i = k" and target = target and w = w] by blast
qed


definition rule_object :: "string \<Rightarrow> string \<Rightarrow> normalized_object" where
  "rule_object key mode = \<lparr>no_ObjectID = [], no_ObjectType = ''ip_access_rules'', no_StableIdentityKey = key,
     no_Attributes = [(''mode'', AString mode)]\<rparr>"

definition two_rules :: snapshot where
  "two_rules = \<lparr>sn_SnapshotID = ''s1'', sn_Objects = [rule_object ''a'' ''block'', rule_object ''b'' ''block''], sn_SnapshotChecksum = []\<rparr>"

definition plain_world :: io_env where
  "plain_world = \<lparr>io_clock = int, io_fault = \<lambda>_. None, io_choice = \<lambda>_. False, io_step = 0\<rparr>"


end
