(* ===== verification/Execution.thy ===== *)
theory Execution
  imports Planner Breaker Lease_Repository "HOL-Library.Signed_Division"
begin

text \<open>
  \<open>internal/execution\<close> with the registry of \<open>internal/cloudflare/resources\<close>: the governed executor, which
  carries out a batch of mutations behind the circuit breaker, the approvals, the security guard,
  the ownership of the resource type and the fencing of the lease.

  The mutators and the security guard are interfaces; an implementation is a function of the number
  of the call and of the operation, so a theorem for all of them is one for all their behaviours
  over time. \<open>ctx.Err()\<close> is a call that can fail. The provider calls are recorded in \<open>ex_Calls\<close>.
  Telemetry and the metadata of audit events are left out: nothing reads them.
\<close>

section \<open>The resource registry\<close>

type_synonym ownership = string

definition OwnershipFullyManaged :: ownership where "OwnershipFullyManaged = ''fully_managed''"
definition OwnershipPartiallyManaged :: ownership where "OwnershipPartiallyManaged = ''partially_managed''"
definition OwnershipExternallyOwned :: ownership where "OwnershipExternallyOwned = ''externally_owned''"

record descriptor =
  ds_Type :: string
  ds_Dependencies :: "string list"
  ds_Capabilities :: "string list"
  ds_DefaultOwner :: ownership

type_synonym registry = "string \<rightharpoonup> descriptor"

definition registry_Register :: "descriptor \<Rightarrow> registry \<Rightarrow> registry" where
  "registry_Register d r = r(ds_Type d \<mapsto> d)"

definition registry_Get :: "registry \<Rightarrow> string \<Rightarrow> descriptor option" where
  "registry_Get r rt = r rt"

definition registry_descriptors :: "descriptor list" where
  "registry_descriptors =
     [\<lparr>ds_Type = ''ip_access_rules'', ds_Dependencies = [], ds_Capabilities = [''read'', ''create'', ''delete''], ds_DefaultOwner = OwnershipFullyManaged\<rparr>,
      \<lparr>ds_Type = ''lists'', ds_Dependencies = [], ds_Capabilities = [''read'', ''create'', ''delete''], ds_DefaultOwner = OwnershipFullyManaged\<rparr>,
      \<lparr>ds_Type = ''list_items'', ds_Dependencies = [''lists''], ds_Capabilities = [''read'', ''create'', ''delete''], ds_DefaultOwner = OwnershipPartiallyManaged\<rparr>,
      \<lparr>ds_Type = ''rulesets'', ds_Dependencies = [], ds_Capabilities = [''read'', ''update''], ds_DefaultOwner = OwnershipPartiallyManaged\<rparr>,
      \<lparr>ds_Type = ''ruleset_rules'', ds_Dependencies = [''rulesets''], ds_Capabilities = [''read'', ''create'', ''update'', ''delete''], ds_DefaultOwner = OwnershipFullyManaged\<rparr>]"

definition NewRegistry :: registry where
  "NewRegistry = foldl (\<lambda>r d. registry_Register d r) Map.empty registry_descriptors"

section \<open>Batches and operations\<close>

definition StatePlanned :: string where "StatePlanned = ''planned''"
definition StateValidating :: string where "StateValidating = ''validating''"
definition StateExecuting :: string where "StateExecuting = ''executing''"
definition StateCompleted :: string where "StateCompleted = ''completed''"
definition StateFailed :: string where "StateFailed = ''failed''"
definition StateQuarantined :: string where "StateQuarantined = ''quarantined''"
definition StateAwaitingApproval :: string where "StateAwaitingApproval = ''awaiting_approval''"

definition ApprovalPending :: string where "ApprovalPending = ''pending''"
definition ApprovalApproved :: string where "ApprovalApproved = ''approved''"
definition ApprovalRejected :: string where "ApprovalRejected = ''rejected''"
definition ApprovalExpired :: string where "ApprovalExpired = ''expired''"

record mutation_operation =
  mo_OperationID :: string
  mo_ScopeID :: string
  mo_Type :: operation_type
  mo_ResourceType :: string
  mo_StableIdentityKey :: string
  mo_State :: string
  mo_ProviderObjectID :: string
  mo_ExpectedETag :: string
  mo_Payload :: "metadata option"
  mo_ResultID :: string
  mo_StartedAt :: go_time
  mo_FinishedAt :: go_time
  mo_Error :: string
  mo_ApprovalRequired :: bool
  mo_ApprovalID :: string
  mo_ApprovalStatus :: string
  mo_ApprovalExpiresAt :: go_time
  mo_ApprovedBy :: string
  mo_ApprovalReason :: string
  mo_LeaseID :: string
  mo_FencingToken :: int
  mo_LeaseAction :: string

record mutation_batch =
  mb_ID :: string
  mb_ScopeID :: string
  mb_PlanID :: string
  mb_Operations :: "mutation_operation list"
  mb_DestructiveCount :: int
  mb_ApprovalRequired :: bool
  mb_ApprovalID :: string
  mb_ApprovalStatus :: string
  mb_ApprovalExpiresAt :: go_time
  mb_ApprovedBy :: string
  mb_ApprovalReason :: string

section \<open>Approval evidence\<close>

record approval_evidence =
  ae_EvidenceID :: string
  ae_Timestamp :: go_time
  ae_Event :: string
  ae_ScopeID :: string
  ae_BatchID :: string
  ae_OperationID :: string
  ae_PlanID :: string
  ae_ApprovalID :: string
  ae_Status :: string
  ae_Reason :: string
  ae_ApprovedBy :: string
  ae_ExpiresAt :: go_time
  ae_ApprovalReason :: string
  ae_MutationType :: string
  ae_RiskLevel :: string
  ae_ParentEvidenceID :: string
  ae_LineageID :: string
  ae_DecisionHash :: string

definition decisionTargetID :: "mutation_operation option \<Rightarrow> string" where
  "decisionTargetID op = (case op of None \<Rightarrow> [] | Some m \<Rightarrow> mo_OperationID m)"

definition approvalID :: "mutation_batch \<Rightarrow> mutation_operation option \<Rightarrow> string" where
  "approvalID b op = (case op of Some m \<Rightarrow> if mo_ApprovalID m \<noteq> [] then mo_ApprovalID m else mb_ApprovalID b | None \<Rightarrow> mb_ApprovalID b)"

definition approvalStatus :: "mutation_batch \<Rightarrow> mutation_operation option \<Rightarrow> string" where
  "approvalStatus b op = (case op of Some m \<Rightarrow> if mo_ApprovalRequired m then mo_ApprovalStatus m else mb_ApprovalStatus b | None \<Rightarrow> mb_ApprovalStatus b)"

definition approvalRequired :: "mutation_batch \<Rightarrow> mutation_operation option \<Rightarrow> bool" where
  "approvalRequired b op = (case op of Some m \<Rightarrow> if mo_ApprovalRequired m then True else mb_ApprovalRequired b | None \<Rightarrow> mb_ApprovalRequired b)"

definition approvalExpiresAt :: "mutation_batch \<Rightarrow> mutation_operation option \<Rightarrow> go_time" where
  "approvalExpiresAt b op = (case op of Some m \<Rightarrow> if \<not> time_is_zero (mo_ApprovalExpiresAt m) then mo_ApprovalExpiresAt m
     else mb_ApprovalExpiresAt b | None \<Rightarrow> mb_ApprovalExpiresAt b)"

definition approvedBy :: "mutation_batch \<Rightarrow> mutation_operation option \<Rightarrow> string" where
  "approvedBy b op = (case op of Some m \<Rightarrow> if mo_ApprovedBy m \<noteq> [] then mo_ApprovedBy m else mb_ApprovedBy b | None \<Rightarrow> mb_ApprovedBy b)"

definition approvalReason :: "mutation_batch \<Rightarrow> mutation_operation option \<Rightarrow> string" where
  "approvalReason b op = (case op of Some m \<Rightarrow> if mo_ApprovalReason m \<noteq> [] then mo_ApprovalReason m else mb_ApprovalReason b | None \<Rightarrow> mb_ApprovalReason b)"

definition approvalScope :: "mutation_batch \<Rightarrow> mutation_operation option \<Rightarrow> string" where
  "approvalScope b op = (case op of Some m \<Rightarrow> if mo_ScopeID m \<noteq> [] then mo_ScopeID m else mb_ScopeID b | None \<Rightarrow> mb_ScopeID b)"

definition mutationType :: "mutation_operation option \<Rightarrow> string" where
  "mutationType op = (case op of None \<Rightarrow> [] | Some m \<Rightarrow> mo_Type m)"

definition riskLevel :: "mutation_batch \<Rightarrow> mutation_operation option \<Rightarrow> string" where
  "riskLevel b op = (case op of
       Some m \<Rightarrow> if mo_Type m = ''delete'' then ''high'' else if mo_Type m = ''update'' then ''medium'' else ''low''
     | None \<Rightarrow> if mb_DestructiveCount b > 0 then ''high'' else ''low'')"

definition approvalLineageID :: "mutation_batch \<Rightarrow> mutation_operation option \<Rightarrow> string" where
  "approvalLineageID b op =
     take 32 (sha256_hex (mb_ID b @ ''|'' @ mb_PlanID b @ ''|'' @ mb_ApprovalID b @
       (case op of None \<Rightarrow> [] | Some m \<Rightarrow> ''|'' @ mo_OperationID m @ ''|'' @ mo_ApprovalID m)))"

definition approvalEvidenceID :: "mutation_batch \<Rightarrow> mutation_operation option \<Rightarrow> go_time \<Rightarrow> string" where
  "approvalEvidenceID b op t =
     ''approval-'' @ take 24 (sha256_hex (approvalLineageID b op @ ''|'' @ decisionTargetID op @ ''|'' @ show_int (unix_nano t)))"

definition approvalDecisionHash :: "mutation_batch \<Rightarrow> mutation_operation option \<Rightarrow> string \<Rightarrow> string \<Rightarrow> string" where
  "approvalDecisionHash b op ev reason =
     sha256_hex (json_text (JObj (
       member ''event'' (JStr ev) @
       omitempty (mb_ID b = []) ''batch_id'' (JStr (mb_ID b)) @
       omitempty (decisionTargetID op = []) ''operation_id'' (JStr (decisionTargetID op)) @
       omitempty (approvalID b op = []) ''approval_id'' (JStr (approvalID b op)) @
       member ''approval_status'' (JStr (approvalStatus b op)) @
       member ''approval_required'' (JBool (approvalRequired b op)) @
       member ''approval_expires_at'' (JTime (approvalExpiresAt b op)) @
       omitempty (approvedBy b op = []) ''approved_by'' (JStr (approvedBy b op)) @
       omitempty (approvalReason b op = []) ''approval_reason'' (JStr (approvalReason b op)) @
       omitempty (reason = []) ''reason'' (JStr reason))))"

section \<open>The executor's surroundings\<close>

record audit_event =
  au_Timestamp :: go_time
  au_RunID :: string
  au_BatchID :: string
  au_OpID :: string
  au_Status :: string
  au_Action :: string
  au_Target :: string
  au_Duration :: int
  au_Error :: string

definition zero_audit :: audit_event where
  "zero_audit = \<lparr>au_Timestamp = 0, au_RunID = [], au_BatchID = [], au_OpID = [], au_Status = [], au_Action = [], au_Target = [],
     au_Duration = 0, au_Error = []\<rparr>"

record exec_env = db_env +
  ex_Breaker :: circuit_breaker
  ex_Journal :: "audit_event list"
  ex_Evidence :: "approval_evidence list"
  ex_Calls :: "mutation_operation list"

record guard_decision =
  gd_Allowed :: bool
  gd_Reason :: string

record governed_executor =
  ge_mutators :: "string \<Rightarrow> (nat \<Rightarrow> mutation_operation \<Rightarrow> string result) option"
  ge_guard :: "(nat \<Rightarrow> mutation_operation \<Rightarrow> guard_decision result) option"
  ge_registry :: registry
  ge_fencing :: "bool option"
  ge_evidence :: bool

text \<open>The result of appending to the journal is ignored everywhere.\<close>

definition journal_Append :: "audit_event \<Rightarrow> 'z exec_env_scheme \<Rightarrow> 'z exec_env_scheme" where
  "journal_Append ev w = (case io_call w of (Inl _, w1) \<Rightarrow> w1 | (Inr _, w1) \<Rightarrow> w1\<lparr>ex_Journal := ex_Journal w1 @ [ev]\<rparr>)"

definition record_failure :: "'z exec_env_scheme \<Rightarrow> 'z exec_env_scheme" where
  "record_failure w = (let (now, w1) = time_Now w in w1\<lparr>ex_Breaker := breaker_RecordFailure now (ex_Breaker w1)\<rparr>)"

definition record_success :: "'z exec_env_scheme \<Rightarrow> 'z exec_env_scheme" where
  "record_success w = w\<lparr>ex_Breaker := breaker_RecordSuccess (ex_Breaker w)\<rparr>"

definition breaker_allows :: "'z exec_env_scheme \<Rightarrow> bool \<times> 'z exec_env_scheme" where
  "breaker_allows w = (let (now, w1) = time_Now w; (cb, b) = breaker_Allow now (ex_Breaker w1) in (b, w1\<lparr>ex_Breaker := cb\<rparr>))"

section \<open>The gates\<close>

definition batchApprovalBlock :: "mutation_batch \<Rightarrow> go_time \<Rightarrow> bool \<times> string \<times> string" where
  "batchApprovalBlock b now =
     (if \<not> mb_ApprovalRequired b then (False, [], [])
      else if mb_ApprovalStatus b = ApprovalRejected then (True, ''approval_denied'', ''batch approval denied before execution'')
      else if mb_ApprovalStatus b = ApprovalApproved then
        if \<not> time_is_zero (mb_ApprovalExpiresAt b) \<and> time_after now (mb_ApprovalExpiresAt b)
        then (True, ''approval_expired'', ''batch approval expired before execution'') else (False, [], [])
      else (True, ''awaiting_approval'', ''batch requires approval before execution''))"

definition operationApprovalBlock :: "mutation_operation \<Rightarrow> go_time \<Rightarrow> bool \<times> string \<times> string" where
  "operationApprovalBlock op now =
     (if \<not> mo_ApprovalRequired op then (False, [], [])
      else if mo_ApprovalStatus op = ApprovalRejected then (True, ''approval_denied'', ''operation approval denied before execution'')
      else if mo_ApprovalStatus op = ApprovalApproved then
        if \<not> time_is_zero (mo_ApprovalExpiresAt op) \<and> time_after now (mo_ApprovalExpiresAt op)
        then (True, ''approval_expired'', ''operation approval expired before execution'') else (False, [], [])
      else (True, ''awaiting_approval'', ''approval required before execution''))"

text \<open>\<open>RequiresApprovedExecution\<close> of a batch and of an operation.\<close>

definition batch_RequiresApprovedExecution :: "mutation_batch \<Rightarrow> go_time \<Rightarrow> bool" where
  "batch_RequiresApprovedExecution b now =
     (if \<not> mb_ApprovalRequired b then False
      else if mb_ApprovalStatus b \<noteq> ApprovalApproved then True
      else \<not> time_is_zero (mb_ApprovalExpiresAt b) \<and> time_after now (mb_ApprovalExpiresAt b))"

definition operation_RequiresApprovedExecution :: "mutation_operation \<Rightarrow> go_time \<Rightarrow> bool" where
  "operation_RequiresApprovedExecution op now =
     (if \<not> mo_ApprovalRequired op then False
      else if mo_ApprovalStatus op \<noteq> ApprovalApproved then True
      else \<not> time_is_zero (mo_ApprovalExpiresAt op) \<and> time_after now (mo_ApprovalExpiresAt op))"

definition OwnershipValidator_Validate :: "registry \<Rightarrow> mutation_operation \<Rightarrow> unit result" where
  "OwnershipValidator_Validate r op =
     (let fn = ''execution.OwnershipValidator.Validate'' in
      case registry_Get r (mo_ResourceType op) of
        None \<Rightarrow> Inl (New fn (''unrecognized resource type: '' @ mo_ResourceType op))
      | Some d \<Rightarrow> if ds_DefaultOwner d = OwnershipExternallyOwned
          then Inl (New fn (''permission denied: resource '' @ mo_StableIdentityKey op @ '' is externally owned''))
          else Inr ())"

definition DriftValidator_Validate :: "mutation_operation \<Rightarrow> snapshot option \<Rightarrow> unit result" where
  "DriftValidator_Validate op current =
     (let fn = ''execution.DriftValidator.Validate'' in
      case current of
        None \<Rightarrow> Inl (New fn ''current snapshot is required for drift validation'')
      | Some s \<Rightarrow>
          let found = (\<exists>obj \<in> set (sn_Objects s). no_StableIdentityKey obj = mo_StableIdentityKey op) in
          if mo_Type op = ''create'' \<and> found
          then Inl (New fn (''drift detected: resource '' @ mo_StableIdentityKey op @ '' already exists''))
          else if (mo_Type op = ''update'' \<or> mo_Type op = ''delete'') \<and> \<not> found
          then Inl (New fn (''drift detected: resource '' @ mo_StableIdentityKey op @ '' no longer exists''))
          else Inr ())"

definition fencing_fn :: string where
  "fencing_fn = ''execution.LeaseStoreFencingValidator.ValidateMutation''"

definition fencing_action :: "mutation_operation \<Rightarrow> string" where
  "fencing_action op = (if mo_LeaseAction op = [] then ''reconcile'' else mo_LeaseAction op)"

definition ValidateMutation :: "bool \<Rightarrow> mutation_operation \<Rightarrow> 'z db_env_scheme \<Rightarrow> unit result \<times> 'z db_env_scheme" where
  "ValidateMutation requireFencing op w =
     (if requireFencing \<and> mo_ScopeID op = [] then (Inl (New fencing_fn ''missing scope_id for fenced mutation''), w)
      else if requireFencing \<and> (mo_LeaseID op = [] \<or> mo_FencingToken op = 0) then (Inl (New fencing_fn ''missing fencing metadata''), w)
      else if mo_LeaseID op = [] \<and> mo_FencingToken op = 0 then (Inr (), w)
      else if mo_ScopeID op = [] then (Inl (New fencing_fn ''missing scope_id for fenced mutation''), w)
      else if mo_LeaseID op = [] \<or> mo_FencingToken op = 0 then (Inl (New fencing_fn ''incomplete fencing metadata''), w)
      else and_then fencing_fn (repo_GetActiveLease (mo_ScopeID op) (fencing_action op) w) (\<lambda>active w1.
        case active of
          None \<Rightarrow> (Inl (New fencing_fn (''no active lease for scope '' @ mo_ScopeID op @ '' action '' @ fencing_action op)), w1)
        | Some l \<Rightarrow> if ls_ID l \<noteq> mo_LeaseID op \<or> ls_FencingToken l \<noteq> mo_FencingToken op
            then (Inl (New fencing_fn (''stale fencing token for scope '' @ mo_ScopeID op @ '' action '' @ fencing_action op)), w1)
            else (Inr (), w1)))"

section \<open>Executing one operation\<close>

definition recordApprovalEvidence :: "governed_executor \<Rightarrow> mutation_batch \<Rightarrow> mutation_operation option \<Rightarrow> string \<Rightarrow> string \<Rightarrow> string \<Rightarrow> 'z exec_env_scheme \<Rightarrow> string \<times> 'z exec_env_scheme" where
  "recordApprovalEvidence ge b op ev reason parentID w =
     (if \<not> ge_evidence ge then ([], w)
      else let (now, w1) = time_Now w;
               e = \<lparr>ae_EvidenceID = approvalEvidenceID b op now, ae_Timestamp = now, ae_Event = ev, ae_ScopeID = approvalScope b op,
                    ae_BatchID = mb_ID b, ae_OperationID = decisionTargetID op, ae_PlanID = mb_PlanID b, ae_ApprovalID = approvalID b op,
                    ae_Status = approvalStatus b op, ae_Reason = reason, ae_ApprovedBy = approvedBy b op, ae_ExpiresAt = approvalExpiresAt b op,
                    ae_ApprovalReason = approvalReason b op, ae_MutationType = mutationType op, ae_RiskLevel = riskLevel b op,
                    ae_ParentEvidenceID = parentID, ae_LineageID = approvalLineageID b op, ae_DecisionHash = approvalDecisionHash b op ev reason\<rparr>
           in (ae_EvidenceID e, case io_call w1 of (Inl _, w2) \<Rightarrow> w2 | (Inr _, w2) \<Rightarrow> w2\<lparr>ex_Evidence := ex_Evidence w2 @ [e]\<rparr>))"

definition recordLostLeaseAbort :: "string \<Rightarrow> string \<Rightarrow> error \<Rightarrow> 'z exec_env_scheme \<Rightarrow> 'z exec_env_scheme" where
  "recordLostLeaseAbort batchID operationID e w =
     (let (now, w1) = time_Now w in
      journal_Append (zero_audit\<lparr>au_Timestamp := now, au_BatchID := batchID, au_OpID := operationID,
        au_Status := ''lost_lease_mutation_aborted'', au_Error := Error e\<rparr>) w1)"

definition recordFencingRefusal :: "string \<Rightarrow> mutation_operation \<Rightarrow> error \<Rightarrow> 'z exec_env_scheme \<Rightarrow> 'z exec_env_scheme" where
  "recordFencingRefusal batchID op e w =
     (let (now, w1) = time_Now w in
      journal_Append (zero_audit\<lparr>au_Timestamp := now, au_BatchID := batchID, au_OpID := mo_OperationID op,
        au_Status := ''stale_fencing_token_mutation_refused'', au_Error := Error e\<rparr>) w1)"

definition single_fn :: string where
  "single_fn = ''execution.GovernedExecutor.executeSingle''"

definition approval_batch :: "string \<Rightarrow> mutation_operation \<Rightarrow> mutation_batch" where
  "approval_batch batchID op =
     \<lparr>mb_ID = batchID, mb_ScopeID = mo_ScopeID op, mb_PlanID = [], mb_Operations = [], mb_DestructiveCount = 0,
      mb_ApprovalRequired = mo_ApprovalRequired op, mb_ApprovalID = mo_ApprovalID op, mb_ApprovalStatus = mo_ApprovalStatus op,
      mb_ApprovalExpiresAt = mo_ApprovalExpiresAt op, mb_ApprovedBy = mo_ApprovedBy op, mb_ApprovalReason = mo_ApprovalReason op\<rparr>"

text \<open>The last part of \<open>executeSingle\<close>, once all gates are passed.\<close>

definition run_mutation :: "(nat \<Rightarrow> mutation_operation \<Rightarrow> string result) \<Rightarrow> mutation_operation \<Rightarrow> string \<Rightarrow> 'z exec_env_scheme \<Rightarrow> unit result \<times> mutation_operation \<times> 'z exec_env_scheme" where
  "run_mutation mutator op batchID w =
     (let (started, w1) = time_Now w;
          op1 = op\<lparr>mo_State := StateExecuting, mo_StartedAt := started\<rparr>;
          w2 = journal_Append (zero_audit\<lparr>au_Timestamp := started, au_BatchID := batchID, au_OpID := mo_OperationID op,
                 au_Status := ''executing'', au_Action := ''mutation'', au_Target := mo_StableIdentityKey op\<rparr>) w1
      in case io_call w2 of
           (Inl e, w3) \<Rightarrow> (Inl (wrap_err single_fn e), op1\<lparr>mo_State := StateFailed, mo_Error := Error e\<rparr>,
                            recordLostLeaseAbort batchID (mo_OperationID op) e w3)
         | (Inr _, w3) \<Rightarrow>
             let r = mutator (io_step w3) op1; w4 = w3\<lparr>ex_Calls := ex_Calls w3 @ [op1]\<rparr>; (finished, w5) = time_Now w4;
                 op2 = op1\<lparr>mo_FinishedAt := finished\<rparr>; dur = time_sub finished started sdiv 1000000
             in case r of
                  Inl e \<Rightarrow>
                    let (cancelled, w6) = io_call w5; (lost, w7) = io_choose w6;
                        w8 = (if isl cancelled \<or> lost then recordLostLeaseAbort batchID (mo_OperationID op) e w7 else w7)
                    in (Inl e, op2\<lparr>mo_State := StateFailed, mo_Error := Error e\<rparr>,
                        journal_Append (zero_audit\<lparr>au_Timestamp := finished, au_BatchID := batchID, au_OpID := mo_OperationID op,
                          au_Status := ''failed'', au_Error := Error e, au_Duration := dur\<rparr>) w8)
                | Inr resultID \<Rightarrow>
                    (Inr (), op2\<lparr>mo_State := StateCompleted, mo_ResultID := resultID\<rparr>,
                     journal_Append (zero_audit\<lparr>au_Timestamp := finished, au_BatchID := batchID, au_OpID := mo_OperationID op,
                       au_Status := ''completed'', au_Duration := dur\<rparr>) w5))"

text \<open>Ownership and fencing, then the mutation.\<close>

definition owned_and_fenced :: "governed_executor \<Rightarrow> (nat \<Rightarrow> mutation_operation \<Rightarrow> string result) \<Rightarrow> mutation_operation \<Rightarrow> string \<Rightarrow> 'z exec_env_scheme \<Rightarrow> unit result \<times> mutation_operation \<times> 'z exec_env_scheme" where
  "owned_and_fenced ge mutator op batchID w =
     (case OwnershipValidator_Validate (ge_registry ge) op of
        Inl e \<Rightarrow> (Inl (wrap_err single_fn e), op\<lparr>mo_State := StateQuarantined\<rparr>, w)
      | Inr _ \<Rightarrow>
          case ge_fencing ge of
            None \<Rightarrow> run_mutation mutator op batchID w
          | Some req \<Rightarrow>
              case ValidateMutation req op w of
                (Inl e, w1) \<Rightarrow> (Inl (wrap_err single_fn e), op\<lparr>mo_State := StateQuarantined, mo_Error := Error e\<rparr>,
                  recordFencingRefusal batchID op e w1)
              | (Inr _, w1) \<Rightarrow> run_mutation mutator op batchID w1)"

definition guarded :: "governed_executor \<Rightarrow> (nat \<Rightarrow> mutation_operation \<Rightarrow> string result) \<Rightarrow> mutation_operation \<Rightarrow> string \<Rightarrow> 'z exec_env_scheme \<Rightarrow> unit result \<times> mutation_operation \<times> 'z exec_env_scheme" where
  "guarded ge mutator op batchID w =
     (case ge_guard ge of
        None \<Rightarrow> owned_and_fenced ge mutator op batchID w
      | Some g \<Rightarrow>
          case g (io_step w) op of
            Inl e \<Rightarrow> (Inl (wrap_err single_fn e), op, w)
          | Inr d \<Rightarrow>
              if \<not> gd_Allowed d then
                let (now, w1) = time_Now w in
                (Inl (New single_fn (''guard suppressed mutation: '' @ gd_Reason d)),
                 op\<lparr>mo_State := StateQuarantined, mo_Error := gd_Reason d\<rparr>,
                 journal_Append (zero_audit\<lparr>au_Timestamp := now, au_BatchID := batchID, au_OpID := mo_OperationID op,
                   au_Status := ''quarantined'', au_Error := gd_Reason d\<rparr>) w1)
              else owned_and_fenced ge mutator op batchID w)"

definition executeSingle :: "governed_executor \<Rightarrow> mutation_operation \<Rightarrow> string \<Rightarrow> 'z exec_env_scheme \<Rightarrow> unit result \<times> mutation_operation \<times> 'z exec_env_scheme" where
  "executeSingle ge op batchID w =
     (case ge_mutators ge (mo_ResourceType op) of
        None \<Rightarrow> (Inl (New single_fn (''no mutator registered for resource type: '' @ mo_ResourceType op)), op, w)
      | Some mutator \<Rightarrow>
          let (now, w1) = time_Now w; (blocked, status, reason) = operationApprovalBlock op now in
          if blocked then
            let op1 = op\<lparr>mo_State := StateAwaitingApproval, mo_Error := reason\<rparr>; ab = approval_batch batchID op1;
                (parentID, w2) = recordApprovalEvidence ge ab (Some op1) ''approval_required'' reason [] w1;
                (_, w3) = recordApprovalEvidence ge ab (Some op1) status reason parentID w2;
                (now2, w4) = time_Now w3
            in (Inl (New single_fn reason), op1,
                journal_Append (zero_audit\<lparr>au_Timestamp := now2, au_BatchID := batchID, au_OpID := mo_OperationID op,
                  au_Status := StateAwaitingApproval, au_Error := reason\<rparr>) w4)
          else
            let w2 = (if mo_ApprovalRequired op
                      then snd (recordApprovalEvidence ge (approval_batch batchID op) (Some op) ''approval_granted'' ''operation approval satisfied'' [] w1)
                      else w1)
            in guarded ge mutator (op\<lparr>mo_State := StateValidating\<rparr>) batchID w2)"

section \<open>Executing a batch\<close>

definition batch_op :: string where
  "batch_op = ''execution.GovernedExecutor.ExecuteBatch''"

text \<open>The loop over the operations, which are changed in place.\<close>

fun execute_operations :: "governed_executor \<Rightarrow> string \<Rightarrow> mutation_operation list \<Rightarrow> 'z exec_env_scheme \<Rightarrow> unit result \<times> mutation_operation list \<times> 'z exec_env_scheme" where
  "execute_operations ge batchID [] w = (Inr (), [], w)"
| "execute_operations ge batchID (op # ops) w =
     (case io_call w of
        (Inl e, w1) \<Rightarrow> (Inl (wrap_err batch_op e), op # ops, recordLostLeaseAbort batchID [] e (record_failure w1))
      | (Inr _, w1) \<Rightarrow>
          case executeSingle ge op batchID w1 of
            (Inl e, op1, w2) \<Rightarrow> (Inl (AppErr batch_op (''batch failed at operation '' @ mo_OperationID op1) (Some e)), op1 # ops, record_failure w2)
          | (Inr _, op1, w2) \<Rightarrow>
              let (r, ops', w3) = execute_operations ge batchID ops w2 in (r, op1 # ops', w3))"

definition ExecuteBatch :: "governed_executor \<Rightarrow> mutation_batch \<Rightarrow> 'z exec_env_scheme \<Rightarrow> unit result \<times> mutation_operation list \<times> 'z exec_env_scheme" where
  "ExecuteBatch ge b w =
     (let (ok, w1) = breaker_allows w in
      if \<not> ok then (Inl (New batch_op ''circuit breaker is open, refusing execution''), mb_Operations b, w1)
      else let (now, w2) = time_Now w1; (blocked, status, reason) = batchApprovalBlock b now in
        if blocked then
          let (parentID, w3) = recordApprovalEvidence ge b None ''approval_required'' reason [] w2;
              (_, w4) = recordApprovalEvidence ge b None status reason parentID w3
          in (Inl (New batch_op reason), mb_Operations b, w4)
        else
          let w3 = (if mb_ApprovalRequired b
                    then snd (recordApprovalEvidence ge b None ''approval_granted'' ''batch approval satisfied'' [] w2) else w2);
              (r, ops, w4) = execute_operations ge (mb_ID b) (mb_Operations b) w3
          in case r of Inl e \<Rightarrow> (Inl e, ops, w4) | Inr _ \<Rightarrow> (Inr (), ops, record_success w4))"

section \<open>What the steps leave alone\<close>

text \<open>A step that records something but makes no provider call and does not touch the breaker.\<close>

definition recording :: "'z exec_env_scheme \<Rightarrow> 'z exec_env_scheme \<Rightarrow> bool" where
  "recording w w' \<longleftrightarrow> db_Leases w' = db_Leases w \<and> io_clock w' = io_clock w \<and> ex_Calls w' = ex_Calls w \<and> ex_Breaker w' = ex_Breaker w"

lemma recording_refl [simp]: "recording w w"
  by (simp add: recording_def)

lemma recording_trans: "recording u v \<Longrightarrow> recording v w \<Longrightarrow> recording u w"
  by (simp add: recording_def)

lemma recording_step [simp]: "recording w (w\<lparr>io_step := n\<rparr>)"
  by (simp add: recording_def)

lemma recording_journal [simp]: "recording w (journal_Append ev w)"
  by (simp add: recording_def journal_Append_def io_call_def split: option.split)

lemma recording_evidence [simp]: "recording w (snd (recordApprovalEvidence ge b op ev reason pid w))"
  by (simp add: recording_def recordApprovalEvidence_def io_call_def time_Now_def Let_def split: option.split)

lemma recording_abort [simp]: "recording w (recordLostLeaseAbort bid oid e w)"
  by (simp add: recordLostLeaseAbort_def time_Now_def recording_trans [OF recording_step recording_journal])

lemma recording_refusal [simp]: "recording w (recordFencingRefusal bid op e w)"
  by (simp add: recordFencingRefusal_def time_Now_def recording_trans [OF recording_step recording_journal])

lemma io_call_recording: "io_call w = (r, w') \<Longrightarrow> recording w w'"
  by (auto simp: io_call_def)

lemma ValidateMutation_recording: "ValidateMutation req op w = (r, w') \<Longrightarrow> recording w w'"
  by (auto simp: ValidateMutation_def repo_GetActiveLease_def time_Now_def and_then_def io_call_def recording_def Let_def
      split: if_splits option.splits)

text \<open>What passing the fencing validator means: either the operation carries no fencing data and need
  not, or the lease it names is in the table, for its scope and action, with its token, and had not
  expired at the reading of the clock.\<close>

definition fencing_ok :: "lease_row list \<Rightarrow> (nat \<Rightarrow> go_time) \<Rightarrow> bool \<Rightarrow> mutation_operation \<Rightarrow> bool" where
  "fencing_ok rows clock req op \<longleftrightarrow>
     (\<not> req \<and> mo_LeaseID op = [] \<and> mo_FencingToken op = 0) \<or>
     (\<exists>row \<in> set rows. \<exists>n. lease_for (mo_ScopeID op) (fencing_action op) row \<and> ls_ExpiresAt (lr_Lease row) > clock n \<and>
        ls_ID (lr_Lease row) = mo_LeaseID op \<and> ls_FencingToken (lr_Lease row) = mo_FencingToken op)"

lemma ValidateMutation_ok:
  assumes "ValidateMutation req op w = (Inr (), w')"
  shows "fencing_ok (db_Leases w) (io_clock w) req op"
proof (cases "mo_LeaseID op = [] \<and> mo_FencingToken op = 0")
  case True
  then show ?thesis using assms by (auto simp: ValidateMutation_def fencing_ok_def split: if_splits)
next
  case False
  then obtain l w1 where "repo_GetActiveLease (mo_ScopeID op) (fencing_action op) w = (Inr (Some l), w1)"
      "ls_ID l = mo_LeaseID op" "ls_FencingToken l = mo_FencingToken op"
    using assms by (auto simp: ValidateMutation_def and_then_Inr_iff split: if_splits option.splits)
  then obtain row where "find (\<lambda>r. lease_for (mo_ScopeID op) (fencing_action op) r \<and> ls_ExpiresAt (lr_Lease r) > io_clock w (io_step w)) (db_Leases w) = Some row"
      "l = lr_Lease row"
    by (auto simp: repo_GetActiveLease_def time_Now_def and_then_Inr_iff io_call_def split: option.splits)
  then have "row \<in> set (db_Leases w)" "lease_for (mo_ScopeID op) (fencing_action op) row" "ls_ExpiresAt (lr_Lease row) > io_clock w (io_step w)"
    by (auto simp: find_Some_iff)
  then show ?thesis using \<open>l = lr_Lease row\<close> \<open>ls_ID l = mo_LeaseID op\<close> \<open>ls_FencingToken l = mo_FencingToken op\<close>
    unfolding fencing_ok_def by blast
qed

text \<open>A provider call \<open>c\<close> that was permitted for the operation \<open>op\<close>.\<close>

definition permitted :: "governed_executor \<Rightarrow> lease_row list \<Rightarrow> (nat \<Rightarrow> go_time) \<Rightarrow> mutation_operation \<Rightarrow> mutation_operation \<Rightarrow> bool" where
  "permitted ge rows clock op c \<longleftrightarrow>
     (\<exists>t. c = op\<lparr>mo_State := StateExecuting, mo_StartedAt := t\<rparr>) \<and>
     (\<exists>n. \<not> operation_RequiresApprovedExecution op (clock n)) \<and>
     (\<forall>g. ge_guard ge = Some g \<longrightarrow> (\<exists>n d. g n (op\<lparr>mo_State := StateValidating\<rparr>) = Inr d \<and> gd_Allowed d)) \<and>
     (\<exists>d. registry_Get (ge_registry ge) (mo_ResourceType op) = Some d \<and> ds_DefaultOwner d \<noteq> OwnershipExternallyOwned) \<and>
     (\<forall>req. ge_fencing ge = Some req \<longrightarrow> fencing_ok rows clock req op)"

lemma approval_block_iff:
  "fst (operationApprovalBlock op now) = operation_RequiresApprovedExecution op now"
  "fst (batchApprovalBlock b now) = batch_RequiresApprovedExecution b now"
  by (simp_all add: operationApprovalBlock_def operation_RequiresApprovedExecution_def batchApprovalBlock_def
      batch_RequiresApprovedExecution_def ApprovalRejected_def ApprovalApproved_def)

lemma ownership_ok:
  "OwnershipValidator_Validate r op = Inr () \<longleftrightarrow>
   (\<exists>d. registry_Get r (mo_ResourceType op) = Some d \<and> ds_DefaultOwner d \<noteq> OwnershipExternallyOwned)"
  by (auto simp: OwnershipValidator_Validate_def Let_def split: option.splits)

definition same_env :: "'z exec_env_scheme \<Rightarrow> 'z exec_env_scheme \<Rightarrow> bool" where
  "same_env w w' \<longleftrightarrow> db_Leases w' = db_Leases w \<and> io_clock w' = io_clock w"

lemma recording_same_env: "recording w w' \<Longrightarrow> same_env w w' \<and> ex_Breaker w' = ex_Breaker w \<and> ex_Calls w' = ex_Calls w"
  by (simp add: recording_def same_env_def)

lemma run_mutation_calls:
  assumes "run_mutation mutator op bid w = (r, op', w')"
  shows "same_env w w' \<and> ex_Breaker w' = ex_Breaker w \<and>
    (ex_Calls w' = ex_Calls w \<and> r \<noteq> Inr () \<or> (\<exists>t. ex_Calls w' = ex_Calls w @ [op\<lparr>mo_State := StateExecuting, mo_StartedAt := t\<rparr>]))"
proof -
  note keeps = recording_journal [unfolded recording_def] recording_abort [unfolded recording_def]
  show ?thesis
    using assms
    by (auto simp: run_mutation_def time_Now_def io_choose_def Let_def same_env_def keeps
        dest!: io_call_recording [unfolded recording_def] split: prod.splits sum.splits if_splits)
qed

lemma same_env_trans: "same_env u v \<Longrightarrow> same_env v w \<Longrightarrow> same_env u w"
  by (simp add: same_env_def)

text \<open>One step of the executor: it changes neither leases nor clock nor breaker, and it makes either no
  provider call, and then fails, or one that was permitted.\<close>

definition at_most_one_call :: "(mutation_operation \<Rightarrow> bool) \<Rightarrow> 'z exec_env_scheme \<Rightarrow> unit result \<Rightarrow> 'z exec_env_scheme \<Rightarrow> bool" where
  "at_most_one_call P w r w' \<longleftrightarrow> same_env w w' \<and> ex_Breaker w' = ex_Breaker w \<and>
     (ex_Calls w' = ex_Calls w \<and> r \<noteq> Inr () \<or> (\<exists>c. ex_Calls w' = ex_Calls w @ [c] \<and> P c))"

lemma at_most_one_call_recording: "recording w w' \<Longrightarrow> at_most_one_call P w (Inl e) w'"
  by (simp add: at_most_one_call_def recording_def same_env_def)

lemma at_most_one_call_after: "recording w v \<Longrightarrow> at_most_one_call P v r w' \<Longrightarrow> at_most_one_call P w r w'"
  by (auto simp: at_most_one_call_def recording_def same_env_def)

lemma at_most_one_call_mono: "at_most_one_call P w r w' \<Longrightarrow> (\<And>c. P c \<Longrightarrow> Q c) \<Longrightarrow> at_most_one_call Q w r w'"
  by (auto simp: at_most_one_call_def)

lemma owned_and_fenced_calls:
  assumes "owned_and_fenced ge mutator op bid w = (r, op', w')"
  shows "at_most_one_call (\<lambda>c. (\<exists>t. c = op\<lparr>mo_State := StateExecuting, mo_StartedAt := t\<rparr>) \<and>
      OwnershipValidator_Validate (ge_registry ge) op = Inr () \<and>
      (\<forall>req. ge_fencing ge = Some req \<longrightarrow> fencing_ok (db_Leases w) (io_clock w) req op)) w r w'"
proof (cases "OwnershipValidator_Validate (ge_registry ge) op")
  case (Inl e)
  then show ?thesis using assms by (auto simp: owned_and_fenced_def intro: at_most_one_call_recording)
next
  case (Inr u)
  show ?thesis
  proof (cases "ge_fencing ge")
    case None
    then have "run_mutation mutator op bid w = (r, op', w')" using assms Inr by (simp add: owned_and_fenced_def)
    from run_mutation_calls [OF this] show ?thesis using None Inr by (auto simp: at_most_one_call_def)
  next
    case (Some req)
    obtain q v where val: "ValidateMutation req op w = (q, v)" by (cases "ValidateMutation req op w")
    note rec = ValidateMutation_recording [OF val]
    show ?thesis
    proof (cases q)
      case (Inl e)
      then have "r = Inl (wrap_err single_fn e)" "w' = recordFencingRefusal bid op e v"
        using assms Inr Some val by (simp_all add: owned_and_fenced_def)
      then show ?thesis by (auto intro: at_most_one_call_recording recording_trans [OF rec recording_refusal])
    next
      case ok: (Inr x)
      then have "run_mutation mutator op bid v = (r, op', w')" using assms Inr Some val by (simp add: owned_and_fenced_def)
      from run_mutation_calls [OF this] have "at_most_one_call (\<lambda>c. \<exists>t. c = op\<lparr>mo_State := StateExecuting, mo_StartedAt := t\<rparr>) v r w'"
        by (auto simp: at_most_one_call_def)
      moreover have "fencing_ok (db_Leases w) (io_clock w) req op" using ValidateMutation_ok val ok by simp
      ultimately show ?thesis
        using Inr Some at_most_one_call_mono [OF at_most_one_call_after [OF rec]] by simp
    qed
  qed
qed

lemma guarded_calls:
  assumes "guarded ge mutator op bid w = (r, op', w')"
  shows "at_most_one_call (\<lambda>c. (\<exists>t. c = op\<lparr>mo_State := StateExecuting, mo_StartedAt := t\<rparr>) \<and>
      (\<forall>g. ge_guard ge = Some g \<longrightarrow> (\<exists>n d. g n op = Inr d \<and> gd_Allowed d)) \<and>
      OwnershipValidator_Validate (ge_registry ge) op = Inr () \<and>
      (\<forall>req. ge_fencing ge = Some req \<longrightarrow> fencing_ok (db_Leases w) (io_clock w) req op)) w r w'"
proof (cases "ge_guard ge")
  case None
  then have "owned_and_fenced ge mutator op bid w = (r, op', w')" using assms by (simp add: guarded_def)
  from owned_and_fenced_calls [OF this] show ?thesis by (rule at_most_one_call_mono) (simp add: None)
next
  case (Some g)
  show ?thesis
  proof (cases "\<exists>d. g (io_step w) op = Inr d \<and> gd_Allowed d")
    case True
    then have "owned_and_fenced ge mutator op bid w = (r, op', w')" using assms Some by (auto simp: guarded_def)
    from owned_and_fenced_calls [OF this] show ?thesis by (rule at_most_one_call_mono) (use True Some in auto)
  next
    case False
    then have "\<exists>e. r = Inl e" "recording w w'"
      using assms Some by (auto simp: guarded_def time_Now_def recording_trans [OF recording_step recording_journal] split: sum.splits)
    then show ?thesis by (auto intro: at_most_one_call_recording)
  qed
qed

lemma fencing_ok_state [simp]: "fencing_ok rows clock req (op\<lparr>mo_State := s\<rparr>) = fencing_ok rows clock req op"
proof -
  have "fencing_action (op\<lparr>mo_State := s\<rparr>) = fencing_action op" by (simp add: fencing_action_def)
  then show ?thesis by (simp add: fencing_ok_def)
qed

lemma permitted_validating:
  assumes "\<exists>n. \<not> operation_RequiresApprovedExecution op (clock n)"
    and "(\<exists>t. c = (op\<lparr>mo_State := StateValidating\<rparr>)\<lparr>mo_State := StateExecuting, mo_StartedAt := t\<rparr>)"
    and "\<forall>g. ge_guard ge = Some g \<longrightarrow> (\<exists>n d. g n (op\<lparr>mo_State := StateValidating\<rparr>) = Inr d \<and> gd_Allowed d)"
    and "OwnershipValidator_Validate (ge_registry ge) (op\<lparr>mo_State := StateValidating\<rparr>) = Inr ()"
    and "\<forall>req. ge_fencing ge = Some req \<longrightarrow> fencing_ok rows clock req (op\<lparr>mo_State := StateValidating\<rparr>)"
  shows "permitted ge rows clock op c"
  using assms by (simp add: permitted_def ownership_ok)

lemma executeSingle_calls:
  assumes "executeSingle ge op bid w = (r, op', w')"
  shows "at_most_one_call (permitted ge (db_Leases w) (io_clock w) op) w r w'"
proof (cases "ge_mutators ge (mo_ResourceType op)")
  case None
  then show ?thesis using assms by (auto simp: executeSingle_def intro: at_most_one_call_recording)
next
  case (Some mutator)
  let ?w1 = "w\<lparr>io_step := Suc (io_step w)\<rparr>" and ?t = "io_clock w (io_step w)"
  show ?thesis
  proof (cases "operation_RequiresApprovedExecution op ?t")
    case True
    then obtain status reason where bl: "operationApprovalBlock op ?t = (True, status, reason)"
      using approval_block_iff(1) [of op ?t] by (metis prod.collapse)
    define op1 where "op1 = op\<lparr>mo_State := StateAwaitingApproval, mo_Error := reason\<rparr>"
    define e1 where "e1 = recordApprovalEvidence ge (approval_batch bid op1) (Some op1) ''approval_required'' reason [] ?w1"
    define e2 where "e2 = recordApprovalEvidence ge (approval_batch bid op1) (Some op1) status reason (fst e1) (snd e1)"
    have "recording w (snd e1)" unfolding e1_def by (rule recording_trans [OF recording_step recording_evidence])
    then have rec: "recording w (snd e2)" unfolding e2_def by (rule recording_trans) (rule recording_evidence)
    obtain ev where "w' = journal_Append ev ((snd e2)\<lparr>io_step := Suc (io_step (snd e2))\<rparr>)" "r = Inl (New single_fn reason)"
      using assms Some bl by (auto simp: executeSingle_def time_Now_def Let_def split_beta e1_def e2_def op1_def)
    then show ?thesis
      by (auto intro!: at_most_one_call_recording recording_trans [OF rec recording_trans [OF recording_step recording_journal]])
  next
    case False
    then obtain x where bl: "operationApprovalBlock op ?t = (False, x)"
      using approval_block_iff(1) [of op ?t] by (metis prod.collapse)
    define w2 where "w2 = (if mo_ApprovalRequired op
        then snd (recordApprovalEvidence ge (approval_batch bid op) (Some op) ''approval_granted'' ''operation approval satisfied'' [] ?w1) else ?w1)"
    have rec: "recording w w2"
      unfolding w2_def by (simp add: recording_trans [OF recording_step recording_evidence])
    have "guarded ge mutator (op\<lparr>mo_State := StateValidating\<rparr>) bid w2 = (r, op', w')"
      using assms Some bl by (auto simp: executeSingle_def time_Now_def Let_def split_beta w2_def)
    from guarded_calls [OF this] have "at_most_one_call (permitted ge (db_Leases w) (io_clock w) op) w2 r w'"
      by (rule at_most_one_call_mono) (use rec False in \<open>auto intro!: permitted_validating simp: recording_def\<close>)
    then show ?thesis by (rule at_most_one_call_after [OF rec])
  qed
qed

lemma execute_operations_calls:
  assumes "execute_operations ge bid ops w = (r, ops', w')"
  shows "\<exists>cs. ex_Calls w' = ex_Calls w @ cs \<and> length cs \<le> length ops \<and>
    list_all2 (permitted ge (db_Leases w) (io_clock w)) (take (length cs) ops) cs \<and>
    (r = Inr () \<longrightarrow> length cs = length ops \<and> ex_Breaker w' = ex_Breaker w) \<and>
    (r \<noteq> Inr () \<longrightarrow> (\<exists>n. ex_Breaker w' = breaker_RecordFailure (io_clock w n) (ex_Breaker w)))"
  using assms
proof (induction ops arbitrary: w r ops' w')
  case (Cons op ops)
  let ?w1 = "w\<lparr>io_step := Suc (io_step w)\<rparr>"
  have fail: "ex_Calls (record_failure v) = ex_Calls v" "ex_Breaker (record_failure v) = breaker_RecordFailure (io_clock v (io_step v)) (ex_Breaker v)"
    for v :: "'a exec_env_scheme" by (simp_all add: record_failure_def time_Now_def)
  note abort = recording_abort [unfolded recording_def]
  show ?case
  proof (cases w rule: io_call_cases)
    case (2 e)
    then show ?thesis using Cons.prems by (auto simp: fail abort)
  next
    case 1
    obtain q op1 w2 where single: "executeSingle ge op bid ?w1 = (q, op1, w2)" by (cases "executeSingle ge op bid ?w1")
    note one = executeSingle_calls [OF single, unfolded at_most_one_call_def]
    show ?thesis
    proof (cases q)
      case (Inl e)
      then have res: "r \<noteq> Inr ()" "w' = record_failure w2" using Cons.prems 1 single by auto
      from one Inl consider "ex_Calls w2 = ex_Calls w" | c where "ex_Calls w2 = ex_Calls w @ [c]" "permitted ge (db_Leases w) (io_clock w) op c"
        by auto
      then show ?thesis
      proof cases
        case 1
        then show ?thesis using res one by (intro exI [of _ "[]"]) (auto simp: fail same_env_def)
      next
        case (2 c)
        then show ?thesis using res one by (intro exI [of _ "[c]"]) (auto simp: fail same_env_def)
      qed
    next
      case (Inr u)
      obtain r3 ops3 w3 where rest: "execute_operations ge bid ops w2 = (r3, ops3, w3)" by (cases "execute_operations ge bid ops w2")
      then have res: "r = r3" "w' = w3" using Cons.prems 1 single Inr by auto
      from one Inr obtain c where c: "ex_Calls w2 = ex_Calls w @ [c]" "permitted ge (db_Leases w) (io_clock w) op c" by auto
      from Cons.IH [OF rest] obtain cs where cs: "ex_Calls w3 = ex_Calls w2 @ cs" "length cs \<le> length ops"
          "list_all2 (permitted ge (db_Leases w2) (io_clock w2)) (take (length cs) ops) cs"
          "r3 = Inr () \<longrightarrow> length cs = length ops \<and> ex_Breaker w3 = ex_Breaker w2"
          "r3 \<noteq> Inr () \<longrightarrow> (\<exists>n. ex_Breaker w3 = breaker_RecordFailure (io_clock w2 n) (ex_Breaker w2))" by blast
      then show ?thesis using res c one by (intro exI [of _ "c # cs"]) (auto simp: same_env_def)
    qed
  qed
qed simp

text \<open>How far a batch comes: it is refused, with the breaker as it was after being asked, or the loop runs.\<close>

lemma ExecuteBatch_cases:
  fixes w :: "'z exec_env_scheme"
  assumes "ExecuteBatch ge b w = (r, ops', w')"
  obtains (refused) e where "r = Inl e" "ex_Calls w' = ex_Calls w"
      "ex_Breaker w' = fst (breaker_Allow (io_clock w (io_step w)) (ex_Breaker w))"
    | (run) w3 r4 ops4 w4 where "snd (breaker_Allow (io_clock w (io_step w)) (ex_Breaker w))"
      "\<not> batch_RequiresApprovedExecution b (io_clock w (Suc (io_step w)))"
      "ex_Calls w3 = ex_Calls w" "db_Leases w3 = db_Leases w" "io_clock w3 = io_clock w"
      "ex_Breaker w3 = fst (breaker_Allow (io_clock w (io_step w)) (ex_Breaker w))"
      "execute_operations ge (mb_ID b) (mb_Operations b) w3 = (r4, ops4, w4)" "r = r4"
      "w' = (if r4 = Inr () then record_success w4 else w4)"
proof -
  let ?t = "io_clock w (io_step w)" and ?t2 = "io_clock w (Suc (io_step w))"
  obtain cb ok where al: "breaker_Allow ?t (ex_Breaker w) = (cb, ok)" by (cases "breaker_Allow ?t (ex_Breaker w)")
  define w1 where "w1 = w\<lparr>io_step := Suc (io_step w), ex_Breaker := cb\<rparr>"
  have br: "breaker_allows w = (ok, w1)" using al by (simp add: breaker_allows_def time_Now_def w1_def)
  let ?w2 = "w1\<lparr>io_step := Suc (io_step w1)\<rparr>"
  have env: "ex_Calls ?w2 = ex_Calls w" "db_Leases ?w2 = db_Leases w" "io_clock ?w2 = io_clock w" "ex_Breaker ?w2 = cb"
    "io_clock w1 (io_step w1) = ?t2" by (simp_all add: w1_def)
  obtain blocked status reason where bl: "batchApprovalBlock b ?t2 = (blocked, status, reason)" by (cases "batchApprovalBlock b ?t2")
  consider (shut) "\<not> ok" | (blocked) ok blocked | (passed) ok "\<not> blocked" by blast
  then show thesis
  proof cases
    case shut
    then show thesis using assms br al refused by (auto simp: ExecuteBatch_def w1_def)
  next
    case blocked
    define e1 where "e1 = recordApprovalEvidence ge b None ''approval_required'' reason [] ?w2"
    have r: "r = Inl (New batch_op reason)" and w': "w' = snd (recordApprovalEvidence ge b None status reason (fst e1) (snd e1))"
      using assms br blocked bl env(5) by (auto simp: ExecuteBatch_def time_Now_def Let_def split_beta e1_def)
    have "recording ?w2 w'" unfolding w' by (simp add: e1_def recording_trans [OF recording_evidence recording_evidence])
    then show thesis using env al r refused [of "New batch_op reason"] by (simp add: recording_def)
  next
    case passed
    define w3 where "w3 = (if mb_ApprovalRequired b
        then snd (recordApprovalEvidence ge b None ''approval_granted'' ''batch approval satisfied'' [] ?w2) else ?w2)"
    have "recording ?w2 w3" unfolding w3_def by simp
    moreover obtain r4 ops4 w4 where "execute_operations ge (mb_ID b) (mb_Operations b) w3 = (r4, ops4, w4)"
      by (cases "execute_operations ge (mb_ID b) (mb_Operations b) w3")
    moreover have "r = r4" "w' = (if r4 = Inr () then record_success w4 else w4)"
      using assms br passed bl env(5) calculation(2)
      by (auto simp: ExecuteBatch_def time_Now_def Let_def w3_def split: sum.splits)
    moreover have "\<not> batch_RequiresApprovedExecution b ?t2"
      using passed bl approval_block_iff(2) [of b ?t2] by auto
    ultimately show thesis using run [of w3 r4 ops4 w4] env al passed by (simp add: recording_def)
  qed
qed

text \<open>
  C1: no provider call gets past a gate. Whatever the mutators, the guard, the context and the clock do,
  the calls that a batch makes are for its operations from the first on, in their order, each at
  most once; if there is any, the breaker admitted the batch and its approval, when one is required,
  was given and not expired at the reading of the clock, and for every call the same holds of its
  operation, the guard allowed it, its resource type is registered and not externally owned, and, with
  a fencing validator, its lease was current. All operations were called when the batch succeeds.
\<close>

theorem execution_gated:
  fixes w :: "'z exec_env_scheme"
  assumes "ExecuteBatch ge b w = (r, ops', w')"
  shows "\<exists>cs. ex_Calls w' = ex_Calls w @ cs \<and> length cs \<le> length (mb_Operations b) \<and>
    (cs \<noteq> [] \<longrightarrow> snd (breaker_Allow (io_clock w (io_step w)) (ex_Breaker w)) \<and>
       \<not> batch_RequiresApprovedExecution b (io_clock w (Suc (io_step w)))) \<and>
    list_all2 (permitted ge (db_Leases w) (io_clock w)) (take (length cs) (mb_Operations b)) cs \<and>
    (r = Inr () \<longrightarrow> length cs = length (mb_Operations b))"
  using assms
proof (cases rule: ExecuteBatch_cases)
  case (refused e)
  then show ?thesis by (intro exI [of _ "[]"]) simp
next
  case (run w3 r4 ops4 w4)
  then show ?thesis using execute_operations_calls [OF run(7)] by (auto simp: record_success_def)
qed

text \<open>
  The outcome of a batch is reported to the breaker exactly once. A batch that succeeds resets it, a
  batch that fails in the loop, for whatever reason, counts as one failure, and a batch that is
  refused, before any provider call, leaves it as the question whether it admits left it.
\<close>

theorem batch_feeds_breaker:
  fixes w :: "'z exec_env_scheme"
  assumes "ExecuteBatch ge b w = (r, ops', w')" and "cb = fst (breaker_Allow (io_clock w (io_step w)) (ex_Breaker w))"
  shows "(r = Inr () \<longrightarrow> ex_Breaker w' = breaker_RecordSuccess cb) \<and>
    (r \<noteq> Inr () \<longrightarrow> (\<exists>n. ex_Breaker w' = breaker_RecordFailure (io_clock w n) cb) \<or> (ex_Breaker w' = cb \<and> ex_Calls w' = ex_Calls w))"
  using assms(1)
proof (cases rule: ExecuteBatch_cases)
  case (refused e)
  then show ?thesis using assms(2) by simp
next
  case (run w3 r4 ops4 w4)
  then show ?thesis using execute_operations_calls [OF run(7)] assms(2) by (auto simp: record_success_def)
qed

definition block_rule :: mutation_operation where
  "block_rule = \<lparr>mo_OperationID = ''op-1'', mo_ScopeID = ''s1'', mo_Type = OpCreate, mo_ResourceType = ''ip_access_rules'',
     mo_StableIdentityKey = ''ip:zone:192.0.2.1:block'', mo_State = StatePlanned, mo_ProviderObjectID = [], mo_ExpectedETag = [],
     mo_Payload = None, mo_ResultID = [], mo_StartedAt = 0, mo_FinishedAt = 0, mo_Error = [], mo_ApprovalRequired = False,
     mo_ApprovalID = [], mo_ApprovalStatus = [], mo_ApprovalExpiresAt = 0, mo_ApprovedBy = [], mo_ApprovalReason = [],
     mo_LeaseID = ''lease-1'', mo_FencingToken = 1, mo_LeaseAction = []\<rparr>"

definition one_batch :: mutation_batch where
  "one_batch = \<lparr>mb_ID = ''b1'', mb_ScopeID = ''s1'', mb_PlanID = ''p1'', mb_Operations = [block_rule], mb_DestructiveCount = 0,
     mb_ApprovalRequired = False, mb_ApprovalID = [], mb_ApprovalStatus = [], mb_ApprovalExpiresAt = 0, mb_ApprovedBy = [],
     mb_ApprovalReason = []\<rparr>"

definition fenced_executor :: governed_executor where
  "fenced_executor = \<lparr>ge_mutators = (\<lambda>_. Some (\<lambda>_ _. Inr ''id-1'')), ge_guard = None, ge_registry = NewRegistry,
     ge_fencing = Some True, ge_evidence = False\<rparr>"

definition leased_env :: exec_env where
  "leased_env = \<lparr>io_clock = int, io_fault = \<lambda>_. None, io_choice = \<lambda>_. False, io_step = 0, fs_files = [],
     db_ReadOnly = False, db_Events = [], db_NextEventID = 1, db_Sequences = [], db_Checkpoints = [],
     db_Leases = [\<lparr>lr_ScopeID = ''s1'', lr_Lease = sample_lease\<rparr>],
     ex_Breaker = breaker_New 3 Minute Minute, ex_Journal = [], ex_Evidence = [], ex_Calls = []\<rparr>"

lemma fenced_run: "\<exists>ops' w'. ExecuteBatch fenced_executor one_batch leased_env = (Inr (), ops', w')"
  by (simp add: ExecuteBatch_def fenced_executor_def one_batch_def leased_env_def block_rule_def sample_lease_def breaker_allows_def
      breaker_Allow_def breaker_New_def time_Now_def batchApprovalBlock_def operationApprovalBlock_def executeSingle_def guarded_def
      owned_and_fenced_def OwnershipValidator_Validate_def registry_Get_def NewRegistry_def registry_descriptors_def registry_Register_def
      OwnershipFullyManaged_def OwnershipPartiallyManaged_def OwnershipExternallyOwned_def ValidateMutation_def repo_GetActiveLease_def
      fencing_action_def lease_for_def run_mutation_def journal_Append_def io_call_def Let_def)

theorem execution_gated_witness:
  "\<exists>ops' w'. ExecuteBatch fenced_executor one_batch leased_env = (Inr (), ops', w') \<and> length (ex_Calls w') = 1"
proof -
  obtain ops' w' where ex: "ExecuteBatch fenced_executor one_batch leased_env = (Inr (), ops', w')" using fenced_run by blast
  from execution_gated [OF this] have "length (ex_Calls w') = 1" by (auto simp: leased_env_def one_batch_def)
  with ex show ?thesis by blast
qed

theorem batch_feeds_breaker_witness:
  "\<exists>ops' w'. ExecuteBatch fenced_executor one_batch leased_env = (Inr (), ops', w') \<and>
     ex_Breaker w' = breaker_RecordSuccess (breaker_New 3 Minute Minute)"
proof -
  obtain ops' w' where ex: "ExecuteBatch fenced_executor one_batch leased_env = (Inr (), ops', w')" using fenced_run by blast
  from batch_feeds_breaker [OF this refl] have "ex_Breaker w' = breaker_RecordSuccess (breaker_New 3 Minute Minute)"
    by (simp add: leased_env_def breaker_Allow_def breaker_New_def)
  with ex show ?thesis by blast
qed

end
