(* ===== verification/Rollback.thy ===== *)
theory Rollback
  imports Execution
begin

text \<open>
  \<open>internal/rollback\<close>: the planner that turns a batch of mutations into compensations, the validator,
  and the executor with its checkpoints (\<open>internal/storage/sqlite/rollback_checkpoint.go\<close>), which let a
  rollback that was interrupted go on where it stopped. Of a loaded checkpoint only the identity
  of the plan, the status, the index and the start are read.
\<close>

section \<open>Data\<close>

record compensation =
  co_OperationID :: string
  co_OriginatingOpID :: string
  co_Type :: operation_type
  co_ResourceType :: string
  co_StableIdentityKey :: string
  co_State :: string
  co_ProviderObjectID :: string
  co_Payload :: "metadata option"
  co_ExpectedPrecondition :: "metadata option"
  co_ExpectedETag :: string
  co_ResultID :: string
  co_StartedAt :: go_time
  co_FinishedAt :: go_time
  co_Error :: string
  co_ScopeID :: string
  co_LeaseID :: string
  co_FencingToken :: int
  co_LeaseAction :: string

record rollback_batch =
  rb_ID :: string
  rb_OriginatingBatchID :: string
  rb_Operations :: "compensation list"
  rb_CreatedAt :: go_time
  rb_Status :: string
  rb_Reason :: string
  rb_PlanHash :: string
  rb_OperationIDs :: "string list"
  rb_OperationCount :: nat
  rb_LastCompletedOpIdx :: nat
  rb_StartedAt :: go_time
  rb_FinishedAt :: go_time

section \<open>Planning\<close>

definition generateCompensation :: "mutation_operation \<Rightarrow> compensation result" where
  "generateCompensation f =
     (let op = ''rollback.planner.generateCompensation'';
          comp = \<lparr>co_OperationID = ''comp-'' @ mo_OperationID f, co_OriginatingOpID = mo_OperationID f, co_Type = [],
                  co_ResourceType = mo_ResourceType f, co_StableIdentityKey = mo_StableIdentityKey f, co_State = StatePlanned,
                  co_ProviderObjectID = (if mo_ProviderObjectID f = [] then mo_ResultID f else mo_ProviderObjectID f),
                  co_Payload = None, co_ExpectedPrecondition = None, co_ExpectedETag = [], co_ResultID = [], co_StartedAt = 0,
                  co_FinishedAt = 0, co_Error = [], co_ScopeID = mo_ScopeID f, co_LeaseID = mo_LeaseID f,
                  co_FencingToken = mo_FencingToken f, co_LeaseAction = mo_LeaseAction f\<rparr>
      in if mo_Type f = OpCreate then Inr (comp\<lparr>co_Type := OpDelete, co_ExpectedPrecondition := mo_Payload f\<rparr>)
         else if mo_Type f = OpDelete then Inr (comp\<lparr>co_Type := OpCreate, co_Payload := mo_Payload f\<rparr>)
         else if mo_Type f = OpUpdate
         then Inl (New op ''rollback for OpUpdate requires PreviousPayload which is not yet supported'')
         else Inl (New op (''unsupported forward operation type for rollback: '' @ mo_Type f)))"

text \<open>The loop from the last operation to the first.\<close>

fun compensations :: "mutation_operation list \<Rightarrow> compensation list result" where
  "compensations [] = Inr []"
| "compensations (f # fs) =
     (case generateCompensation f of
        Inl e \<Rightarrow> Inl (AppErr ''rollback.planner.GenerateRollbackBatch'' (''failed to generate compensation for '' @ mo_OperationID f) (Some e))
      | Inr c \<Rightarrow> bind_result (compensations fs) (\<lambda>cs. Inr (c # cs)))"

definition unix_seconds :: "go_time \<Rightarrow> int" where
  "unix_seconds t = (t - 62135596800000000000) div 1000000000"

definition GenerateRollbackBatch :: "mutation_batch \<Rightarrow> string \<Rightarrow> 'z io_env_scheme \<Rightarrow> rollback_batch result \<times> 'z io_env_scheme" where
  "GenerateRollbackBatch forward reason w =
     (let (t1, w1) = time_Now w; (t2, w2) = time_Now w1 in
      (bind_result (compensations (rev (mb_Operations forward))) (\<lambda>cs.
         Inr \<lparr>rb_ID = ''rb-'' @ mb_ID forward @ ''-'' @ show_int (unix_seconds t1), rb_OriginatingBatchID = mb_ID forward,
              rb_Operations = cs, rb_CreatedAt = t2, rb_Status = StatePlanned, rb_Reason = reason, rb_PlanHash = [],
              rb_OperationIDs = [], rb_OperationCount = 0, rb_LastCompletedOpIdx = 0, rb_StartedAt = 0, rb_FinishedAt = 0\<rparr>), w2))"

section \<open>Validation\<close>

definition ValidateOperation :: "compensation \<Rightarrow> snapshot option \<Rightarrow> unit result" where
  "ValidateOperation op current =
     (let fn = ''rollback.validator.ValidateOperation'' in
      if co_StableIdentityKey op = [] then Inl (New fn ''missing StableIdentityKey'')
      else case current of
        None \<Rightarrow> Inr ()
      | Some s \<Rightarrow>
          let found = (\<exists>obj \<in> set (sn_Objects s). no_StableIdentityKey obj = co_StableIdentityKey op) in
          if co_Type op = OpDelete \<and> \<not> found
          then Inl (New fn (''rollback target '' @ co_StableIdentityKey op @ '' missing on remote''))
          else if co_Type op = OpCreate \<and> found
          then Inl (New fn (''rollback target '' @ co_StableIdentityKey op @ '' unexpectedly present on remote''))
          else Inr ())"

fun validate_operations :: "compensation list \<Rightarrow> snapshot option \<Rightarrow> unit result" where
  "validate_operations [] current = Inr ()"
| "validate_operations (op # ops) current =
     (case ValidateOperation op current of
        Inl e \<Rightarrow> Inl (AppErr ''rollback.validator.ValidateBatch'' (''validation failed for compensation '' @ co_OperationID op) (Some e))
      | Inr _ \<Rightarrow> validate_operations ops current)"

definition ValidateBatch :: "rollback_batch \<Rightarrow> snapshot option \<Rightarrow> unit result" where
  "ValidateBatch b current =
     (if rb_Status b = StateQuarantined then Inl (New ''rollback.validator.ValidateBatch'' ''batch is quarantined'')
      else validate_operations (rb_Operations b) current)"

section \<open>The checkpoint store\<close>

record rollback_env = exec_env +
  rk_Checkpoints :: "string \<rightharpoonup> rollback_batch"

definition SaveRollbackCheckpoint :: "rollback_batch \<Rightarrow> 'z rollback_env_scheme \<Rightarrow> unit result \<times> 'z rollback_env_scheme" where
  "SaveRollbackCheckpoint b w =
     (let op = ''storage.sqlite.RollbackCheckpointStore.SaveRollbackCheckpoint'' in
      writable op w (\<lambda>w0. and_then op (io_call w0) (\<lambda>_ w1. (Inr (), w1\<lparr>rk_Checkpoints := (rk_Checkpoints w1)(rb_ID b \<mapsto> b)\<rparr>))))"

definition LoadRollbackCheckpoint :: "string \<Rightarrow> 'z rollback_env_scheme \<Rightarrow> rollback_batch option result \<times> 'z rollback_env_scheme" where
  "LoadRollbackCheckpoint batchID w =
     and_then ''storage.sqlite.RollbackCheckpointStore.LoadRollbackCheckpoint'' (io_call w) (\<lambda>_ w1. (Inr (rk_Checkpoints w1 batchID), w1))"

section \<open>The identity of a plan\<close>

definition canonicalRollbackOperation :: "compensation \<Rightarrow> compensation" where
  "canonicalRollbackOperation op = op\<lparr>co_State := [], co_StartedAt := 0, co_FinishedAt := 0, co_Error := [], co_ResultID := []\<rparr>"

definition json_of_compensation :: "compensation \<Rightarrow> json" where
  "json_of_compensation op = JObj (
     member ''operation_id'' (JStr (co_OperationID op)) @
     member ''originating_op_id'' (JStr (co_OriginatingOpID op)) @
     member ''type'' (JStr (co_Type op)) @
     member ''resource_type'' (JStr (co_ResourceType op)) @
     member ''stable_identity_key'' (JStr (co_StableIdentityKey op)) @
     member ''state'' (JStr (co_State op)) @
     omitempty (co_ProviderObjectID op = []) ''provider_object_id'' (JStr (co_ProviderObjectID op)) @
     (case co_Payload op of None \<Rightarrow> [] | Some m \<Rightarrow> member ''payload'' (json_of_any (AMap m))) @
     (case co_ExpectedPrecondition op of None \<Rightarrow> [] | Some m \<Rightarrow> member ''expected_precondition'' (json_of_any (AMap m))) @
     omitempty (co_ExpectedETag op = []) ''expected_etag'' (JStr (co_ExpectedETag op)) @
     omitempty (co_ResultID op = []) ''result_id'' (JStr (co_ResultID op)) @
     member ''started_at'' (JTime (co_StartedAt op)) @
     member ''finished_at'' (JTime (co_FinishedAt op)) @
     omitempty (co_Error op = []) ''error'' (JStr (co_Error op)) @
     omitempty (co_ScopeID op = []) ''scope_id'' (JStr (co_ScopeID op)) @
     omitempty (co_LeaseID op = []) ''lease_id'' (JStr (co_LeaseID op)) @
     omitempty (co_FencingToken op = 0) ''fencing_token'' (JNum (co_FencingToken op)) @
     omitempty (co_LeaseAction op = []) ''lease_action'' (JStr (co_LeaseAction op)))"

definition operationIDs :: "compensation list \<Rightarrow> string list" where
  "operationIDs ops = map co_OperationID ops"

definition rollbackPlanHash :: "rollback_batch \<Rightarrow> string" where
  "rollbackPlanHash b =
     sha256_hex (json_text (JObj (
       member ''id'' (JStr (rb_ID b)) @
       member ''originating_batch_id'' (JStr (rb_OriginatingBatchID b)) @
       member ''operation_count'' (JNum (int (length (rb_Operations b)))) @
       member ''operation_ids'' (JArr (map JStr (operationIDs (rb_Operations b)))) @
       member ''operations'' (JArr (map (json_of_compensation \<circ> canonicalRollbackOperation) (rb_Operations b))))))"

definition ensureRollbackPlanIdentity :: "rollback_batch \<Rightarrow> rollback_batch" where
  "ensureRollbackPlanIdentity b =
     (let b1 = b\<lparr>rb_OperationCount := length (rb_Operations b), rb_OperationIDs := map co_OperationID (rb_Operations b)\<rparr>
      in b1\<lparr>rb_PlanHash := rollbackPlanHash b1\<rparr>)"

definition validateRollbackPlanIdentity :: "rollback_batch \<Rightarrow> rollback_batch \<Rightarrow> unit result" where
  "validateRollbackPlanIdentity cur persisted =
     (let op = ''rollback.executor.ExecuteRollback'' in
      if rb_ID cur \<noteq> rb_ID persisted then Inl (New op ''rollback batch id mismatch'')
      else if rb_PlanHash cur \<noteq> rb_PlanHash persisted then Inl (New op ''rollback plan hash mismatch'')
      else if rb_OperationCount cur \<noteq> rb_OperationCount persisted then Inl (New op ''rollback operation count mismatch'')
      else if rb_OperationIDs cur \<noteq> rb_OperationIDs persisted then Inl (New op ''rollback operation ids mismatch'')
      else Inr ())"

section \<open>Executing compensations\<close>

record rollback_executor =
  re_mutators :: "string \<Rightarrow> (nat \<Rightarrow> mutation_operation \<Rightarrow> string result) option"
  re_registry :: registry
  re_fencing :: "bool option"
  re_checkpoints :: bool

definition rollback_fn :: string where
  "rollback_fn = ''rollback.executor.executeSingle''"

definition rollback_op :: string where
  "rollback_op = ''rollback.executor.ExecuteRollback''"

text \<open>The operation that the validators and the mutator are given.\<close>

definition exec_operation :: "compensation \<Rightarrow> mutation_operation" where
  "exec_operation op =
     \<lparr>mo_OperationID = co_OperationID op, mo_ScopeID = co_ScopeID op, mo_Type = co_Type op, mo_ResourceType = co_ResourceType op,
      mo_StableIdentityKey = co_StableIdentityKey op, mo_State = [], mo_ProviderObjectID = co_ProviderObjectID op,
      mo_ExpectedETag = co_ExpectedETag op, mo_Payload = co_Payload op, mo_ResultID = [], mo_StartedAt = 0, mo_FinishedAt = 0,
      mo_Error = [], mo_ApprovalRequired = False, mo_ApprovalID = [], mo_ApprovalStatus = [], mo_ApprovalExpiresAt = 0,
      mo_ApprovedBy = [], mo_ApprovalReason = [], mo_LeaseID = co_LeaseID op, mo_FencingToken = co_FencingToken op,
      mo_LeaseAction = co_LeaseAction op\<rparr>"

definition run_compensation :: "(nat \<Rightarrow> mutation_operation \<Rightarrow> string result) \<Rightarrow> compensation \<Rightarrow> string \<Rightarrow> 'z exec_env_scheme \<Rightarrow> unit result \<times> compensation \<times> 'z exec_env_scheme" where
  "run_compensation mutator op batchID w =
     (let (started, w1) = time_Now w;
          op1 = op\<lparr>co_State := StateExecuting, co_StartedAt := started\<rparr>;
          w2 = journal_Append (zero_audit\<lparr>au_Timestamp := started, au_BatchID := batchID, au_OpID := co_OperationID op,
                 au_Status := ''executing_compensation'', au_Action := ''rollback'', au_Target := co_StableIdentityKey op\<rparr>) w1;
          r = mutator (io_step w2) (exec_operation op);
          w3 = w2\<lparr>ex_Calls := ex_Calls w2 @ [exec_operation op]\<rparr>;
          (finished, w4) = time_Now w3;
          op2 = op1\<lparr>co_FinishedAt := finished\<rparr>; dur = time_sub finished started sdiv 1000000
      in case r of
           Inl e \<Rightarrow> (Inl e, op2\<lparr>co_State := StateFailed, co_Error := Error e\<rparr>,
             journal_Append (zero_audit\<lparr>au_Timestamp := finished, au_BatchID := batchID, au_OpID := co_OperationID op,
               au_Status := ''compensation_failed'', au_Error := Error e, au_Duration := dur\<rparr>) w4)
         | Inr resultID \<Rightarrow> (Inr (), op2\<lparr>co_State := StateCompleted, co_ResultID := resultID\<rparr>,
             journal_Append (zero_audit\<lparr>au_Timestamp := finished, au_BatchID := batchID, au_OpID := co_OperationID op,
               au_Status := ''compensation_completed'', au_Duration := dur\<rparr>) w4))"

definition rollback_single :: "rollback_executor \<Rightarrow> compensation \<Rightarrow> string \<Rightarrow> 'z exec_env_scheme \<Rightarrow> unit result \<times> compensation \<times> 'z exec_env_scheme" where
  "rollback_single re op batchID w =
     (case re_mutators re (co_ResourceType op) of
        None \<Rightarrow> (Inl (New rollback_fn (''no mutator registered for resource type: '' @ co_ResourceType op)), op, w)
      | Some mutator \<Rightarrow>
          let op1 = op\<lparr>co_State := StateValidating\<rparr>; execOp = exec_operation op in
          case OwnershipValidator_Validate (re_registry re) execOp of
            Inl e \<Rightarrow> (Inl (wrap_err rollback_fn e), op1\<lparr>co_State := StateQuarantined\<rparr>, w)
          | Inr _ \<Rightarrow>
              case re_fencing re of
                None \<Rightarrow> run_compensation mutator op1 batchID w
              | Some req \<Rightarrow>
                  case ValidateMutation req execOp w of
                    (Inl e, w1) \<Rightarrow> (Inl (wrap_err rollback_fn e), op1\<lparr>co_State := StateQuarantined, co_Error := Error e\<rparr>,
                      recordFencingRefusal batchID execOp e w1)
                  | (Inr _, w1) \<Rightarrow> run_compensation mutator op1 batchID w1)"

text \<open>Saving when there is a checkpoint store.\<close>

definition save_checkpoint :: "rollback_executor \<Rightarrow> rollback_batch \<Rightarrow> 'z rollback_env_scheme \<Rightarrow> unit result \<times> 'z rollback_env_scheme" where
  "save_checkpoint re b w = (if re_checkpoints re then SaveRollbackCheckpoint b w else (Inr (), w))"

text \<open>A failed operation ends the run; the result of saving is ignored here.\<close>

definition rollback_failed :: "rollback_executor \<Rightarrow> rollback_batch \<Rightarrow> compensation \<Rightarrow> error \<Rightarrow> 'z rollback_env_scheme \<Rightarrow> unit result \<times> rollback_batch \<times> 'z rollback_env_scheme" where
  "rollback_failed re b op e w =
     (let (finished, w1) = time_Now (record_failure w);
          b1 = b\<lparr>rb_Status := StateFailed, rb_FinishedAt := finished\<rparr>;
          (_, w2) = save_checkpoint re b1 w1
      in (Inl (AppErr rollback_op (''rollback batch failed at operation '' @ co_OperationID op) (Some e)), b1,
          journal_Append (zero_audit\<lparr>au_Timestamp := finished, au_RunID := rb_ID b, au_Status := ''rollback_failed'', au_Error := Error e\<rparr>) w2))"

text \<open>The loop. Its counter is always \<open>rb_LastCompletedOpIdx\<close>; an operation is changed in place.\<close>

function run_compensations :: "rollback_executor \<Rightarrow> rollback_batch \<Rightarrow> 'z rollback_env_scheme \<Rightarrow> unit result \<times> rollback_batch \<times> 'z rollback_env_scheme" where
  "run_compensations re b w =
     (let i = rb_LastCompletedOpIdx b in
      if i < length (rb_Operations b) then
        case rollback_single re (rb_Operations b ! i) (rb_ID b) w of
          (Inl e, op, w1) \<Rightarrow> rollback_failed re (b\<lparr>rb_Operations := (rb_Operations b)[i := op]\<rparr>) op e w1
        | (Inr _, op, w1) \<Rightarrow>
            let b1 = b\<lparr>rb_Operations := (rb_Operations b)[i := op], rb_LastCompletedOpIdx := i + 1\<rparr> in
            case save_checkpoint re b1 w1 of
              (Inl e, w2) \<Rightarrow> (Inl (wrap_err rollback_op e), b1, w2)
            | (Inr _, w2) \<Rightarrow> run_compensations re b1 w2
      else (Inr (), b, w))"
  by pat_completeness auto
termination
  by (relation "measure (\<lambda>(re, b, w). length (rb_Operations b) - rb_LastCompletedOpIdx b)") auto

declare run_compensations.simps [simp del]

text \<open>What a persisted checkpoint changes of the batch; \<open>None\<close> when there is nothing left to do.\<close>

definition adopt_checkpoint :: "rollback_batch \<Rightarrow> rollback_batch \<Rightarrow> rollback_batch option" where
  "adopt_checkpoint persisted b =
     (let b1 = (if rb_LastCompletedOpIdx persisted > rb_LastCompletedOpIdx b
                then b\<lparr>rb_LastCompletedOpIdx := rb_LastCompletedOpIdx persisted\<rparr> else b)
      in if rb_Status persisted = StateCompleted \<and> rb_LastCompletedOpIdx persisted \<ge> length (rb_Operations b) then None
         else Some (if \<not> time_is_zero (rb_StartedAt persisted) then b1\<lparr>rb_StartedAt := rb_StartedAt persisted\<rparr> else b1))"

definition resume_batch :: "rollback_executor \<Rightarrow> rollback_batch \<Rightarrow> 'z rollback_env_scheme \<Rightarrow> rollback_batch option result \<times> 'z rollback_env_scheme" where
  "resume_batch re b w =
     (if \<not> re_checkpoints re then (Inr (Some b), w)
      else and_then rollback_op (LoadRollbackCheckpoint (rb_ID b) w) (\<lambda>loaded w1.
        case loaded of
          None \<Rightarrow> (Inr (Some b), w1)
        | Some persisted \<Rightarrow>
            case validateRollbackPlanIdentity b persisted of
              Inl e \<Rightarrow> let (now, w2) = time_Now w1 in
                (Inl (wrap_err rollback_op e), journal_Append (zero_audit\<lparr>au_Timestamp := now, au_RunID := rb_ID b,
                   au_Status := ''rollback_plan_mismatch'', au_Error := Error e\<rparr>) w2)
            | Inr _ \<Rightarrow> (Inr (adopt_checkpoint persisted b), w1)))"

text \<open>The rest of \<open>ExecuteRollback\<close>, from setting the status on.\<close>

definition run_rollback :: "rollback_executor \<Rightarrow> rollback_batch \<Rightarrow> 'z rollback_env_scheme \<Rightarrow> unit result \<times> 'z rollback_env_scheme" where
  "run_rollback re b w =
     (let (started, w1) = (if time_is_zero (rb_StartedAt b) then time_Now w else (rb_StartedAt b, w));
          b1 = b\<lparr>rb_Status := StateExecuting, rb_StartedAt := started\<rparr>
      in and_then rollback_op (save_checkpoint re b1 w1) (\<lambda>_ w2.
         case run_compensations re b1 (journal_Append (zero_audit\<lparr>au_Timestamp := started, au_RunID := rb_ID b,
                au_Status := ''rollback_started''\<rparr>) w2) of
           (Inl e, _, w3) \<Rightarrow> (Inl e, w3)
         | (Inr _, b2, w3) \<Rightarrow>
             let (finished, w4) = time_Now (record_success w3);
                 b3 = b2\<lparr>rb_Status := StateCompleted, rb_FinishedAt := finished\<rparr>
             in and_then rollback_op (save_checkpoint re b3 w4) (\<lambda>_ w5.
                  (Inr (), journal_Append (zero_audit\<lparr>au_Timestamp := finished, au_RunID := rb_ID b,
                     au_Status := ''rollback_completed''\<rparr>) w5))))"

definition ExecuteRollback :: "rollback_executor \<Rightarrow> rollback_batch \<Rightarrow> 'z rollback_env_scheme \<Rightarrow> unit result \<times> 'z rollback_env_scheme" where
  "ExecuteRollback re batch w =
     (let (ok, w1) = breaker_allows w in
      if \<not> ok then (Inl (New rollback_op ''circuit breaker is open, refusing rollback''), w1)
      else and_try (resume_batch re (ensureRollbackPlanIdentity batch) w1) (\<lambda>todo w2.
        case todo of None \<Rightarrow> (Inr (), w2) | Some b \<Rightarrow> run_rollback re b w2))"

section \<open>What a run calls and what it leaves in the store\<close>

lemma journal_frame [simp]:
  fixes w :: "'z rollback_env_scheme"
  shows "ex_Calls (journal_Append ev w) = ex_Calls w" "rk_Checkpoints (journal_Append ev w) = rk_Checkpoints w"
  by (simp_all add: journal_Append_def io_call_def split: option.split)

lemma ValidateMutation_frame:
  fixes w :: "'z rollback_env_scheme"
  assumes "ValidateMutation req op w = (r, w')"
  shows "ex_Calls w' = ex_Calls w \<and> rk_Checkpoints w' = rk_Checkpoints w"
  using assms
  by (auto simp: ValidateMutation_def repo_GetActiveLease_def time_Now_def and_then_def io_call_def Let_def
      split: if_splits option.splits)

lemma run_compensation_calls:
  fixes w :: "'z rollback_env_scheme"
  assumes "run_compensation mutator op bid w = (r, op', w')"
  shows "ex_Calls w' = ex_Calls w @ [exec_operation op] \<and> rk_Checkpoints w' = rk_Checkpoints w"
  using assms by (auto simp: run_compensation_def time_Now_def Let_def split: sum.splits)

lemma exec_operation_state [simp]: "exec_operation (op\<lparr>co_State := s\<rparr>) = exec_operation op"
  by (simp add: exec_operation_def)

lemma rollback_single_calls:
  fixes w :: "'z rollback_env_scheme"
  assumes "rollback_single re op bid w = (r, op', w')"
  shows "rk_Checkpoints w' = rk_Checkpoints w \<and>
    (ex_Calls w' = ex_Calls w \<and> r \<noteq> Inr () \<or> ex_Calls w' = ex_Calls w @ [exec_operation op])"
  using assms
  by (auto simp: rollback_single_def recordFencingRefusal_def time_Now_def Let_def
      dest!: ValidateMutation_frame run_compensation_calls split: option.splits sum.splits prod.splits)

lemma save_checkpoint_cases:
  fixes w :: "'z rollback_env_scheme"
  assumes "save_checkpoint re b w = (r, w')" and "re_checkpoints re"
  shows "ex_Calls w' = ex_Calls w \<and>
    (r = Inr () \<and> rk_Checkpoints w' = (rk_Checkpoints w)(rb_ID b \<mapsto> b) \<or> r \<noteq> Inr () \<and> rk_Checkpoints w' = rk_Checkpoints w)"
  using assms
  by (auto simp: save_checkpoint_def SaveRollbackCheckpoint_def writable_def and_then_def io_call_def Let_def
      split: option.splits prod.splits sum.splits)

lemma record_frame [simp]:
  fixes w :: "'z rollback_env_scheme"
  shows "ex_Calls (record_failure w) = ex_Calls w" "rk_Checkpoints (record_failure w) = rk_Checkpoints w"
    "ex_Calls (record_success w) = ex_Calls w" "rk_Checkpoints (record_success w) = rk_Checkpoints w"
  by (simp_all add: record_failure_def record_success_def time_Now_def)

text \<open>Two batches that carry the same identity of a plan, and a checkpoint \<open>p\<close> of the plan of \<open>b\<close>
  that says \<open>k\<close> operations are done.\<close>

definition same_plan :: "rollback_batch \<Rightarrow> rollback_batch \<Rightarrow> bool" where
  "same_plan b p \<longleftrightarrow> rb_ID b = rb_ID p \<and> rb_PlanHash b = rb_PlanHash p \<and> rb_OperationCount b = rb_OperationCount p \<and>
     rb_OperationIDs b = rb_OperationIDs p"

lemma same_plan_iff: "validateRollbackPlanIdentity b p = Inr () \<longleftrightarrow> same_plan b p"
  by (simp add: validateRollbackPlanIdentity_def same_plan_def Let_def)

definition checkpointed :: "rollback_batch \<Rightarrow> nat \<Rightarrow> 'z rollback_env_scheme \<Rightarrow> bool" where
  "checkpointed b k w \<longleftrightarrow> (\<exists>p. rk_Checkpoints w (rb_ID b) = Some p \<and> same_plan b p \<and> rb_LastCompletedOpIdx p = k \<and>
     (rb_Status p = StateCompleted \<longrightarrow> length (rb_Operations b) \<le> k))"

lemma rollback_failed_result:
  fixes w :: "'z rollback_env_scheme"
  assumes "rollback_failed re b op e w = (r, b', w')" and "re_checkpoints re" and "checkpointed b (rb_LastCompletedOpIdx b) w"
  shows "r \<noteq> Inr () \<and> ex_Calls w' = ex_Calls w \<and> checkpointed b (rb_LastCompletedOpIdx b) w'"
proof -
  define b1 where "b1 = b\<lparr>rb_Status := StateFailed, rb_FinishedAt := io_clock (record_failure w) (io_step (record_failure w))\<rparr>"
  define v where "v = (record_failure w)\<lparr>io_step := Suc (io_step (record_failure w))\<rparr>"
  obtain q w2 where sv: "save_checkpoint re b1 v = (q, w2)" by (cases "save_checkpoint re b1 v")
  have "r \<noteq> Inr () \<and> ex_Calls w' = ex_Calls w2 \<and> rk_Checkpoints w' = rk_Checkpoints w2"
    using assms(1) sv by (auto simp: rollback_failed_def time_Now_def Let_def b1_def v_def)
  then show ?thesis
    using save_checkpoint_cases [OF sv assms(2)] assms(3)
    by (auto simp: checkpointed_def same_plan_def b1_def v_def StateFailed_def StateCompleted_def)
qed

text \<open>The loop calls the operations from the index of the batch on, and what it leaves in the store is
  the number of operations done, or one less.\<close>

definition progress :: "'a list \<Rightarrow> nat \<Rightarrow> nat \<Rightarrow> 'a list \<Rightarrow> bool" where
  "progress ops k k' cs \<longleftrightarrow>
     (\<exists>m. k + m \<le> length ops \<and> cs = take m (drop k ops) \<and> k \<le> k' \<and> k' \<le> k + m \<and> k + m \<le> Suc k')"

lemma progress_none: "k \<le> length ops \<Longrightarrow> progress ops k k []"
  unfolding progress_def by (intro exI [of _ 0]) simp

lemma progress_one: "k < length ops \<Longrightarrow> progress ops k k [ops ! k]"
  unfolding progress_def by (intro exI [of _ 1]) (simp add: take_Suc_conv_app_nth)

lemma progress_done: "k < length ops \<Longrightarrow> progress ops k (Suc k) [ops ! k]"
  unfolding progress_def by (intro exI [of _ 1]) (simp add: take_Suc_conv_app_nth)

lemma progress_Suc:
  assumes "progress ops (Suc k) k' cs" and "k < length ops"
  shows "progress ops k k' (ops ! k # cs)"
proof -
  from assms(1) obtain m where "Suc k + m \<le> length ops" "cs = take m (drop (Suc k) ops)" "Suc k \<le> k'" "k' \<le> Suc k + m" "Suc k + m \<le> Suc k'"
    unfolding progress_def by blast
  then show ?thesis
    unfolding progress_def using assms(2) by (intro exI [of _ "Suc m"]) (simp add: Cons_nth_drop_Suc [symmetric])
qed

lemma progress_cong: "progress ops k k' cs \<Longrightarrow> length ops' = length ops \<Longrightarrow> drop k ops' = drop k ops \<Longrightarrow> progress ops' k k' cs"
  by (auto simp: progress_def)

lemma run_compensations_progress:
  fixes w :: "'z rollback_env_scheme"
  assumes "run_compensations re b w = (r, b', w')" and "re_checkpoints re"
    and "rb_LastCompletedOpIdx b \<le> length (rb_Operations b)" and "checkpointed b (rb_LastCompletedOpIdx b) w"
    and "rb_Status b = StateExecuting"
  shows "\<exists>cs k'. ex_Calls w' = ex_Calls w @ cs \<and> progress (map exec_operation (rb_Operations b)) (rb_LastCompletedOpIdx b) k' cs \<and>
    checkpointed b k' w' \<and>
    (r = Inr () \<longrightarrow> k' = length (rb_Operations b) \<and> rb_LastCompletedOpIdx b' = k' \<and> same_plan b b')"
  using assms
proof (induction re b w arbitrary: r b' w' rule: run_compensations.induct)
  case (1 re b w)
  let ?i = "rb_LastCompletedOpIdx b" and ?ops = "map exec_operation (rb_Operations b)"
  note unfold = run_compensations.simps [of re b w, unfolded Let_def]
  show ?case
  proof (cases "?i < length (rb_Operations b)")
    case False
    then show ?thesis using 1 progress_none [of ?i ?ops]
      by (intro exI [of _ "[]"] exI [of _ ?i]) (auto simp: unfold same_plan_def)
  next
    case True
    then have nth: "?ops ! ?i = exec_operation (rb_Operations b ! ?i)" by simp
    obtain q op w1 where single: "rollback_single re (rb_Operations b ! ?i) (rb_ID b) w = (q, op, w1)"
      by (cases "rollback_single re (rb_Operations b ! ?i) (rb_ID b) w")
    note calls = rollback_single_calls [OF single]
    show ?thesis
    proof (cases q)
      case (Inl e)
      define b1 where "b1 = b\<lparr>rb_Operations := (rb_Operations b)[?i := op]\<rparr>"
      have "rollback_failed re b1 op e w1 = (r, b', w')" using "1.prems"(1) single Inl True by (simp add: unfold b1_def)
      moreover have "checkpointed b1 (rb_LastCompletedOpIdx b1) w1"
        using "1.prems"(4) calls by (simp add: checkpointed_def same_plan_def b1_def)
      ultimately have res: "r \<noteq> Inr () \<and> ex_Calls w' = ex_Calls w1 \<and> checkpointed b1 (rb_LastCompletedOpIdx b1) w'"
        using rollback_failed_result "1.prems"(2) by blast
      then have ck: "checkpointed b ?i w'" by (simp add: checkpointed_def same_plan_def b1_def)
      from calls consider "ex_Calls w1 = ex_Calls w @ []" | "ex_Calls w1 = ex_Calls w @ [?ops ! ?i]" using nth by auto
      then show ?thesis
        by cases (use res ck True progress_none [of ?i ?ops] progress_one [of ?i ?ops] in \<open>auto intro!: exI [of _ ?i]\<close>)
    next
      case (Inr u)
      define b1 where "b1 = b\<lparr>rb_Operations := (rb_Operations b)[?i := op], rb_LastCompletedOpIdx := ?i + 1\<rparr>"
      obtain s w2 where save: "save_checkpoint re b1 w1 = (s, w2)" by (cases "save_checkpoint re b1 w1")
      note saved = save_checkpoint_cases [OF save "1.prems"(2)]
      have w1: "ex_Calls w1 = ex_Calls w @ [?ops ! ?i]" using calls Inr nth by auto
      show ?thesis
      proof (cases s)
        case (Inl e)
        then have "r \<noteq> Inr ()" "w' = w2" using "1.prems"(1) single Inr save True by (auto simp: unfold b1_def)
        then show ?thesis using saved Inl w1 calls "1.prems"(4) True progress_one [of ?i ?ops]
          by (intro exI [of _ "[?ops ! ?i]"] exI [of _ ?i]) (simp add: checkpointed_def)
      next
        case (Inr u')
        have run: "run_compensations re b1 w2 = (r, b', w')"
          using "1.prems"(1) single \<open>q = Inr u\<close> save Inr True by (simp add: unfold b1_def)
        have store: "checkpointed b1 (rb_LastCompletedOpIdx b1) w2" "rb_LastCompletedOpIdx b1 \<le> length (rb_Operations b1)"
            "rb_Status b1 = StateExecuting"
          using saved Inr True "1.prems"(4,5)
          by (auto simp: checkpointed_def same_plan_def b1_def StateExecuting_def StateCompleted_def)
        from "1.IH" [OF refl True single [symmetric] \<open>q = Inr u\<close> refl b1_def save [symmetric] Inr run "1.prems"(2) store(2,1,3)]
        obtain cs k' where cs: "ex_Calls w' = ex_Calls w2 @ cs" "progress (map exec_operation (rb_Operations b1)) (Suc ?i) k' cs"
            "checkpointed b1 k' w'" "r = Inr () \<longrightarrow> k' = length (rb_Operations b1) \<and> rb_LastCompletedOpIdx b' = k' \<and> same_plan b1 b'"
          by (auto simp: b1_def)
        have "progress ?ops (Suc ?i) k' cs"
          using cs(2) by (rule progress_cong) (simp_all add: b1_def map_update drop_update_cancel)
        then show ?thesis using cs saved Inr w1 True progress_Suc [of ?ops ?i k' cs]
          by (intro exI [of _ "?ops ! ?i # cs"] exI [of _ k']) (auto simp: checkpointed_def same_plan_def b1_def)
      qed
    qed
  qed
qed

text \<open>The store before the first run, or after any number of runs.\<close>

definition resumable :: "rollback_batch \<Rightarrow> nat \<Rightarrow> 'z rollback_env_scheme \<Rightarrow> bool" where
  "resumable b k w \<longleftrightarrow> k \<le> length (rb_Operations b) \<and>
     (rk_Checkpoints w (rb_ID b) = None \<and> k = 0 \<or> checkpointed (ensureRollbackPlanIdentity b) k w)"

lemma ensure_simps [simp]:
  "rb_ID (ensureRollbackPlanIdentity b) = rb_ID b" "rb_Operations (ensureRollbackPlanIdentity b) = rb_Operations b"
  "rb_LastCompletedOpIdx (ensureRollbackPlanIdentity b) = rb_LastCompletedOpIdx b"
  by (simp_all add: ensureRollbackPlanIdentity_def Let_def)

lemma run_rollback_progress:
  fixes w :: "'z rollback_env_scheme"
  assumes "run_rollback re b w = (r, w')" and "re_checkpoints re" and "rb_LastCompletedOpIdx b \<le> length (rb_Operations b)"
  shows "\<exists>cs k'. ex_Calls w' = ex_Calls w @ cs \<and> progress (map exec_operation (rb_Operations b)) (rb_LastCompletedOpIdx b) k' cs \<and>
    (checkpointed b k' w' \<or> rk_Checkpoints w' = rk_Checkpoints w \<and> k' = rb_LastCompletedOpIdx b \<and> r \<noteq> Inr ()) \<and>
    (r = Inr () \<longrightarrow> k' = length (rb_Operations b))"
proof -
  let ?ops = "map exec_operation (rb_Operations b)"
  define started where "started = (if time_is_zero (rb_StartedAt b) then io_clock w (io_step w) else rb_StartedAt b)"
  define w1 where "w1 = (if time_is_zero (rb_StartedAt b) then w\<lparr>io_step := Suc (io_step w)\<rparr> else w)"
  define b1 where "b1 = b\<lparr>rb_Status := StateExecuting, rb_StartedAt := started\<rparr>"
  have st: "(if time_is_zero (rb_StartedAt b) then time_Now w else (rb_StartedAt b, w)) = (started, w1)"
    by (simp add: started_def w1_def time_Now_def)
  have w1: "ex_Calls w1 = ex_Calls w" "rk_Checkpoints w1 = rk_Checkpoints w" by (simp_all add: w1_def)
  obtain q w2 where save: "save_checkpoint re b1 w1 = (q, w2)" by (cases "save_checkpoint re b1 w1")
  note saved = save_checkpoint_cases [OF save assms(2)]
  show ?thesis
  proof (cases q)
    case (Inl e)
    then have "r \<noteq> Inr ()" "w' = w2" using assms(1) save st by (auto simp: run_rollback_def b1_def)
    then show ?thesis using saved Inl w1 assms(3) progress_none [of "rb_LastCompletedOpIdx b" ?ops]
      by (intro exI [of _ "[]"] exI [of _ "rb_LastCompletedOpIdx b"]) simp
  next
    case (Inr u)
    define w3 where "w3 = journal_Append (zero_audit\<lparr>au_Timestamp := started, au_RunID := rb_ID b, au_Status := ''rollback_started''\<rparr>) w2"
    obtain r4 b4 w4 where run: "run_compensations re b1 w3 = (r4, b4, w4)" by (cases "run_compensations re b1 w3")
    have "checkpointed b1 (rb_LastCompletedOpIdx b1) w3"
      using saved Inr by (auto simp: checkpointed_def same_plan_def b1_def w3_def StateExecuting_def StateCompleted_def)
    from run_compensations_progress [OF run assms(2) _ this] assms(3)
    obtain cs k' where cs: "ex_Calls w4 = ex_Calls w3 @ cs" "progress ?ops (rb_LastCompletedOpIdx b) k' cs" "checkpointed b1 k' w4"
        "r4 = Inr () \<longrightarrow> k' = length (rb_Operations b) \<and> rb_LastCompletedOpIdx b4 = k' \<and> same_plan b1 b4"
      by (auto simp: b1_def)
    have calls: "ex_Calls w3 = ex_Calls w" using saved w1 by (simp add: w3_def)
    have ck: "checkpointed b k' v" if "checkpointed b1 k' v" for v :: "'z rollback_env_scheme"
      using that by (simp add: checkpointed_def same_plan_def b1_def)
    show ?thesis
    proof (cases r4)
      case (Inl e)
      then have "r \<noteq> Inr ()" "w' = w4" using assms(1) save st \<open>q = Inr u\<close> run by (auto simp: run_rollback_def b1_def w3_def)
      then show ?thesis using cs calls ck by auto
    next
      case (Inr v)
      define w5 where "w5 = snd (time_Now (record_success w4))"
      define b5 where "b5 = b4\<lparr>rb_Status := StateCompleted, rb_FinishedAt := fst (time_Now (record_success w4))\<rparr>"
      obtain q6 w6 where save6: "save_checkpoint re b5 w5 = (q6, w6)" by (cases "save_checkpoint re b5 w5")
      have res: "ex_Calls w' = ex_Calls w6" "rk_Checkpoints w' = rk_Checkpoints w6"
        using assms(1) save st \<open>q = Inr u\<close> run Inr save6
        by (cases q6; auto simp: run_rollback_def b1_def w3_def w5_def b5_def split_beta Let_def)+
      have w5: "ex_Calls w5 = ex_Calls w4" "rk_Checkpoints w5 = rk_Checkpoints w4" by (simp_all add: w5_def time_Now_def)
      have "checkpointed b1 k' w'"
        using save_checkpoint_cases [OF save6 assms(2)] w5 cs Inr res by (auto simp: checkpointed_def same_plan_def b5_def b1_def)
      then show ?thesis using save_checkpoint_cases [OF save6 assms(2)] w5 cs Inr res calls ck by auto
    qed
  qed
qed

lemma ExecuteRollback_progress:
  fixes w :: "'z rollback_env_scheme"
  assumes "ExecuteRollback re b w = (r, w')" and "re_checkpoints re" and "rb_LastCompletedOpIdx b = 0" and "resumable b k w"
  shows "\<exists>cs k'. ex_Calls w' = ex_Calls w @ cs \<and> progress (map exec_operation (rb_Operations b)) k k' cs \<and>
    resumable b k' w' \<and> (r = Inr () \<longrightarrow> k' = length (rb_Operations b))"
proof -
  let ?ops = "map exec_operation (rb_Operations b)" and ?b = "ensureRollbackPlanIdentity b"
  obtain ok w1 where br: "breaker_allows w = (ok, w1)" by (cases "breaker_allows w")
  have w1: "ex_Calls w1 = ex_Calls w" "rk_Checkpoints w1 = rk_Checkpoints w"
    using br by (auto simp: breaker_allows_def time_Now_def Let_def split: prod.splits)
  have none: ?thesis if "ex_Calls w' = ex_Calls w" "rk_Checkpoints w' = rk_Checkpoints w" "r = Inr () \<longrightarrow> k = length (rb_Operations b)"
    using that assms(4) progress_none [of k ?ops]
    by (intro exI [of _ "[]"] exI [of _ k]) (simp add: resumable_def checkpointed_def)
  obtain q w2 where res: "resume_batch re ?b w1 = (q, w2)" by (cases "resume_batch re ?b w1")
  have w2: "ex_Calls w2 = ex_Calls w" "rk_Checkpoints w2 = rk_Checkpoints w"
    and q: "isl q \<or> q = Inr None \<and> k = length (rb_Operations b) \<or>
      (\<exists>b1. q = Inr (Some b1) \<and> same_plan ?b b1 \<and> rb_Operations b1 = rb_Operations b \<and> rb_LastCompletedOpIdx b1 = k)"
    using res w1 assms(2-4)
    by (auto simp: resume_batch_def LoadRollbackCheckpoint_def and_then_def io_call_def time_Now_def resumable_def checkpointed_def
        adopt_checkpoint_def same_plan_iff same_plan_def Let_def split: option.splits sum.splits if_splits)
  from q consider (stop) "isl q \<or> q = Inr None \<and> k = length (rb_Operations b) \<or> \<not> ok"
    | (go) b1 where ok "q = Inr (Some b1)" "same_plan ?b b1" "rb_Operations b1 = rb_Operations b" "rb_LastCompletedOpIdx b1 = k" by blast
  then show ?thesis
  proof cases
    case stop
    then show ?thesis
      by (intro none) (use assms(1) br res w1 w2 in \<open>auto simp: ExecuteRollback_def isl_def and_try_def split: if_splits\<close>)
  next
    case go
    then have run: "run_rollback re b1 w2 = (r, w')" using assms(1) br res by (simp add: ExecuteRollback_def and_try_def)
    have "k \<le> length (rb_Operations b)" using assms(4) by (simp add: resumable_def)
    with run_rollback_progress [OF run assms(2)] go obtain cs k' where cs: "ex_Calls w' = ex_Calls w2 @ cs" "progress ?ops k k' cs"
        "checkpointed b1 k' w' \<or> rk_Checkpoints w' = rk_Checkpoints w2 \<and> k' = k" "r = Inr () \<longrightarrow> k' = length (rb_Operations b)" by auto
    from cs(2) have "k' \<le> length (rb_Operations b)" by (auto simp: progress_def)
    moreover have "resumable b k' w'"
      using cs(3) calculation go w2 assms(4) by (auto simp: resumable_def checkpointed_def same_plan_def)
    ultimately show ?thesis using cs w2 by auto
  qed
qed

section \<open>Interrupted rollbacks\<close>

text \<open>
  Runs of one plan, one after the other, by executors that share the checkpoint store. Between two runs
  anything may happen that leaves the plan's checkpoint alone and makes no provider call, so the
  mutators, the leases, the breaker and the clock may all be different; the result is that of the last run.
\<close>

inductive rollback_runs :: "rollback_batch \<Rightarrow> 'z rollback_env_scheme \<Rightarrow> nat \<Rightarrow> unit result \<Rightarrow> 'z rollback_env_scheme \<Rightarrow> bool" for b w where
  first_run: "re_checkpoints re \<Longrightarrow> ExecuteRollback re b w = (r, w') \<Longrightarrow> rollback_runs b w 1 r w'"
| next_run: "rollback_runs b w n r0 v \<Longrightarrow> ex_Calls v' = ex_Calls v \<Longrightarrow> rk_Checkpoints v' (rb_ID b) = rk_Checkpoints v (rb_ID b) \<Longrightarrow>
    re_checkpoints re \<Longrightarrow> ExecuteRollback re b v' = (r, w') \<Longrightarrow> rollback_runs b w (Suc n) r w'"

lemma progress_subseq:
  assumes "progress ops k k' cs"
  shows "subseq (take k' ops) (take k ops @ cs) \<and> length cs \<le> Suc k' - k"
proof -
  from assms obtain m where m: "cs = take m (drop k ops)" "k' \<le> k + m" "k + m \<le> Suc k'" "k \<le> k'" unfolding progress_def by blast
  then have "take k' ops = take k' (take k ops @ cs)" by (simp add: take_add [symmetric] min_def)
  then show ?thesis using m prefix_imp_subseq [OF take_is_prefix] by (metis add_leD2 diff_le_mono le_diff_conv2 length_take min.coboundedI2 nat_le_linear add_diff_cancel_left' min.commute)
qed

lemma progress_set: "progress ops k k' cs \<Longrightarrow> set cs \<subseteq> set ops"
  unfolding progress_def by (metis set_drop_subset set_take_subset subset_trans)

lemma rollback_runs_calls:
  fixes w :: "'z rollback_env_scheme"
  assumes "rollback_runs b w n r w'" and "rk_Checkpoints w (rb_ID b) = None" and "rb_LastCompletedOpIdx b = 0"
  shows "\<exists>cs k. ex_Calls w' = ex_Calls w @ cs \<and> subseq (take k (map exec_operation (rb_Operations b))) cs \<and>
    set cs \<subseteq> set (map exec_operation (rb_Operations b)) \<and> length cs \<le> k + n \<and> resumable b k w' \<and>
    (r = Inr () \<longrightarrow> k = length (rb_Operations b))"
  using assms
proof (induction n r w' rule: rollback_runs.induct)
  case (first_run re r w')
  let ?ops = "map exec_operation (rb_Operations b)"
  have "resumable b 0 w" using first_run by (simp add: resumable_def)
  from ExecuteRollback_progress [OF first_run(2,1) first_run(4) this] obtain cs k where
    *: "ex_Calls w' = ex_Calls w @ cs" "progress ?ops 0 k cs" "resumable b k w'" "r = Inr () \<longrightarrow> k = length (rb_Operations b)" by blast
  moreover have "set cs \<subseteq> set ?ops" using *(2) by (rule progress_set)
  ultimately show ?case using progress_subseq [OF *(2)] by (intro exI [of _ cs] exI [of _ k]) simp
next
  case (next_run n r0 v v' re r w')
  let ?ops = "map exec_operation (rb_Operations b)"
  from next_run obtain cs k where v: "ex_Calls v = ex_Calls w @ cs" "subseq (take k ?ops) cs" "set cs \<subseteq> set ?ops" "length cs \<le> k + n"
    "resumable b k v" by blast
  have "resumable b k v'" using v(5) next_run(3) by (simp add: resumable_def checkpointed_def)
  from ExecuteRollback_progress [OF next_run(5,4) next_run(8) this] obtain ds k' where
    *: "ex_Calls w' = ex_Calls v' @ ds" "progress ?ops k k' ds" "resumable b k' w'" "r = Inr () \<longrightarrow> k' = length (rb_Operations b)" by blast
  have "k \<le> k'" using *(2) by (auto simp: progress_def)
  moreover have "set ds \<subseteq> set ?ops" using *(2) by (rule progress_set)
  moreover have "subseq (take k' ?ops) (cs @ ds)"
    using progress_subseq [OF *(2)] subseq_append' v(2) by (meson list_emb_append_mono subseq_order.order_refl subseq_order.trans)
  ultimately show ?case using progress_subseq [OF *(2)] * v next_run(2)
    by (intro exI [of _ "cs @ ds"] exI [of _ k']) auto
qed

text \<open>
  C3: an interrupted rollback goes on where it stopped. However often the same plan is run, and whatever
  fails in those runs (a compensation, saving or loading a checkpoint, a gate, an interruption before
  a checkpoint is saved), the provider calls made so far contain the completed part of the plan in
  its order, contain nothing but operations of the plan, and repeat an operation at most once per
  run; the store has the number of the completed ones, and a run that succeeds has completed the plan.
\<close>

theorem rollback_resumes:
  fixes w :: "'z rollback_env_scheme"
  assumes "rollback_runs b w n r w'" and "rk_Checkpoints w (rb_ID b) = None" and "rb_LastCompletedOpIdx b = 0"
  shows "\<exists>cs k. ex_Calls w' = ex_Calls w @ cs \<and> subseq (take k (map exec_operation (rb_Operations b))) cs \<and>
    set cs \<subseteq> set (map exec_operation (rb_Operations b)) \<and> length cs \<le> k + n \<and> resumable b k w' \<and>
    (r = Inr () \<longrightarrow> k = length (rb_Operations b))"
  using assms by (rule rollback_runs_calls)

definition unblock_rule :: compensation where
  "unblock_rule = \<lparr>co_OperationID = ''comp-op-1'', co_OriginatingOpID = ''op-1'', co_Type = OpDelete, co_ResourceType = ''ip_access_rules'',
     co_StableIdentityKey = ''ip:zone:192.0.2.1:block'', co_State = StatePlanned, co_ProviderObjectID = ''id-1'', co_Payload = None,
     co_ExpectedPrecondition = None, co_ExpectedETag = [], co_ResultID = [], co_StartedAt = 0, co_FinishedAt = 0, co_Error = [],
     co_ScopeID = ''s1'', co_LeaseID = ''lease-1'', co_FencingToken = 1, co_LeaseAction = []\<rparr>"

definition one_rollback :: rollback_batch where
  "one_rollback = \<lparr>rb_ID = ''rb-b1'', rb_OriginatingBatchID = ''b1'', rb_Operations = [unblock_rule], rb_CreatedAt = 0,
     rb_Status = StatePlanned, rb_Reason = [], rb_PlanHash = [], rb_OperationIDs = [], rb_OperationCount = 0,
     rb_LastCompletedOpIdx = 0, rb_StartedAt = 0, rb_FinishedAt = 0\<rparr>"

definition rollback_with :: rollback_executor where
  "rollback_with = \<lparr>re_mutators = (\<lambda>_. Some (\<lambda>_ _. Inr ''id-1'')), re_registry = NewRegistry, re_fencing = Some True, re_checkpoints = True\<rparr>"

definition rollback_world :: rollback_env where
  "rollback_world = exec_env.extend leased_env \<lparr>rk_Checkpoints = Map.empty\<rparr>"

lemma one_rollback_run: "\<exists>w'. ExecuteRollback rollback_with one_rollback rollback_world = (Inr (), w')"
  by (simp add: ExecuteRollback_def rollback_with_def one_rollback_def rollback_world_def leased_env_def exec_env.defs sample_lease_def
      breaker_allows_def breaker_Allow_def breaker_New_def time_Now_def resume_batch_def LoadRollbackCheckpoint_def
      ensureRollbackPlanIdentity_def run_rollback_def save_checkpoint_def SaveRollbackCheckpoint_def writable_simps time_is_zero_def
      run_compensations.simps rollback_single_def unblock_rule_def exec_operation_def OwnershipValidator_Validate_def registry_Get_def
      NewRegistry_def registry_descriptors_def registry_Register_def OwnershipFullyManaged_def OwnershipPartiallyManaged_def
      OwnershipExternallyOwned_def ValidateMutation_def repo_GetActiveLease_def fencing_action_def lease_for_def run_compensation_def
      record_success_def journal_Append_def io_call_def Let_def)

theorem rollback_resumes_witness:
  "\<exists>w'. ExecuteRollback rollback_with one_rollback rollback_world = (Inr (), w') \<and> set (ex_Calls w') = {exec_operation unblock_rule}"
proof -
  obtain w' where run: "ExecuteRollback rollback_with one_rollback rollback_world = (Inr (), w')" using one_rollback_run by blast
  then have "rollback_runs one_rollback rollback_world 1 (Inr ()) w'" by (intro first_run) (simp_all add: rollback_with_def)
  from rollback_resumes [OF this] have "set (ex_Calls w') = {exec_operation unblock_rule}"
    by (auto simp: rollback_world_def exec_env.defs leased_env_def one_rollback_def dest: list_emb_set)
  with run show ?thesis by blast
qed

section \<open>A rollback undoes its batch\<close>

text \<open>The objects at the provider, by identity, and what an operation of a given type does to them.\<close>

definition provider_effect :: "operation_type \<Rightarrow> string \<Rightarrow> metadata option \<Rightarrow> (string \<rightharpoonup> metadata option) \<Rightarrow> (string \<rightharpoonup> metadata option)" where
  "provider_effect t k payload m =
     (if t = OpCreate \<or> t = OpUpdate then m(k \<mapsto> payload) else if t = OpDelete then m(k := None) else m)"

definition forward_effect :: "mutation_operation \<Rightarrow> (string \<rightharpoonup> metadata option) \<Rightarrow> (string \<rightharpoonup> metadata option)" where
  "forward_effect op = provider_effect (mo_Type op) (mo_StableIdentityKey op) (mo_Payload op)"

definition compensation_effect :: "compensation \<Rightarrow> (string \<rightharpoonup> metadata option) \<Rightarrow> (string \<rightharpoonup> metadata option)" where
  "compensation_effect op = provider_effect (co_Type op) (co_StableIdentityKey op) (co_Payload op)"

text \<open>A batch that fits the objects: it creates what is not there, and a deletion carries the object it deletes.\<close>

fun fits :: "mutation_operation list \<Rightarrow> (string \<rightharpoonup> metadata option) \<Rightarrow> bool" where
  "fits [] m = True"
| "fits (op # ops) m =
     ((mo_Type op = OpCreate \<longrightarrow> m (mo_StableIdentityKey op) = None) \<and>
      (mo_Type op = OpDelete \<longrightarrow> m (mo_StableIdentityKey op) = Some (mo_Payload op)) \<and> fits ops (forward_effect op m))"

lemma generateCompensation_inverts:
  assumes "generateCompensation op = Inr c" and "fits [op] m"
  shows "compensation_effect c (forward_effect op m) = m"
  using assms
  by (auto simp: generateCompensation_def compensation_effect_def forward_effect_def provider_effect_def Let_def
      OpCreate_def OpDelete_def OpUpdate_def split: if_splits)

lemma compensations_append:
  "compensations (xs @ ys) = bind_result (compensations xs) (\<lambda>cs. bind_result (compensations ys) (\<lambda>ds. Inr (cs @ ds)))"
  by (induction xs) (auto simp: bind_result_def split: sum.splits)

lemma compensations_invert:
  assumes "compensations (rev ops) = Inr cs" and "fits ops m"
  shows "fold compensation_effect cs (fold forward_effect ops m) = m"
  using assms
proof (induction ops arbitrary: m cs)
  case (Cons op ops)
  from Cons.prems(1) obtain cs1 c where c: "compensations (rev ops) = Inr cs1" "generateCompensation op = Inr c" "cs = cs1 @ [c]"
    by (auto simp: compensations_append bind_result_def split: sum.splits)
  then show ?case using Cons generateCompensation_inverts [OF c(2), of m] by simp
qed simp

lemma compensations_total:
  "isl (compensations ops) \<longleftrightarrow> (\<exists>op \<in> set ops. mo_Type op \<noteq> OpCreate \<and> mo_Type op \<noteq> OpDelete)"
  by (induction ops) (auto simp: bind_result_def generateCompensation_def Let_def OpCreate_def OpDelete_def split: sum.splits)



end
