(* ===== verification/Go_Net.thy ===== *)
theory Go_Net
  imports Apperr "HOL-Library.Word"
begin

unbundle bit_operations_syntax

text \<open>
  Addresses as the standard library's \<open>net\<close> and \<open>net/netip\<close> have them: the parser of \<open>ParseAddr\<close>,
  prefixes and their membership in both packages, and the printed forms. \<open>net.IP\<close> keeps every address
  in sixteen bytes, an IPv4 address behind the prefix \<open>::ffff\<close>, and its functions treat the two forms
  of such an address alike; \<open>netip.Addr\<close> keeps them apart.
\<close>

section \<open>Addresses\<close>

datatype addr = Addr4 "32 word" | Addr6 "128 word" string

text \<open>\<open>As16\<close> and \<open>To4\<close>.\<close>

definition mapped :: "32 word \<Rightarrow> 128 word" where
  "mapped a = push_bit 32 (mask 16) OR ucast a"

definition To4 :: "128 word \<Rightarrow> 32 word option" where
  "To4 ip = (if drop_bit 32 ip = mask 16 then Some (ucast ip) else None)"

lemma bit_mapped: "bit (mapped a) n \<longleftrightarrow> 32 \<le> n \<and> n < 48 \<or> bit a n"
  unfolding mapped_def by (auto simp: bit_or_iff bit_push_bit_iff bit_mask_iff bit_unsigned_iff dest: bit_imp_le_length)

lemma To4_mapped [simp]: "To4 (mapped a) = Some a"
proof -
  have "drop_bit 32 (mapped a) = mask 16"
    by (rule bit_word_eqI) (auto simp: bit_drop_bit_eq bit_mapped bit_mask_iff dest: bit_imp_le_length)
  moreover have "ucast (mapped a) = a"
    by (rule bit_word_eqI) (auto simp: bit_unsigned_iff bit_mapped)
  ultimately show ?thesis unfolding To4_def by (simp only: simp_thms if_True)
qed

lemma mapped_To4:
  assumes "To4 ip = Some a"
  shows "ip = mapped a"
proof (rule bit_word_eqI)
  fix n assume n: "n < LENGTH(128)"
  from assms have hi: "drop_bit 32 ip = mask 16" and lo: "a = ucast ip" by (auto simp only: To4_def option.inject split: if_splits)
  show "bit ip n \<longleftrightarrow> bit (mapped a) n"
  proof (cases "n < 32")
    case True
    then show ?thesis by (simp add: bit_mapped lo bit_unsigned_iff)
  next
    case False
    have "bit (drop_bit 32 ip) (n - 32) \<longleftrightarrow> bit (mask 16 :: 128 word) (n - 32)" by (simp only: hi)
    with False n show ?thesis by (auto simp: bit_drop_bit_eq bit_mapped bit_mask_iff dest: bit_imp_le_length)
  qed
qed

lemma mapped_eq_iff [simp]: "mapped a = mapped b \<longleftrightarrow> a = b"
  by (metis To4_mapped option.inject)

section \<open>Parsing\<close>

definition is_digit :: "char \<Rightarrow> bool" where
  "is_digit c \<longleftrightarrow> (let n = of_char c :: nat in 48 \<le> n \<and> n \<le> 57)"

definition digits_value :: "string \<Rightarrow> nat" where
  "digits_value s = foldl (\<lambda>v c. v * 10 + (of_char c - 48)) 0 s"

text \<open>One field of an IPv4 address, and \<open>parseIPv4Fields\<close>, which accepts exactly four of them.\<close>

definition parse_octet :: "string \<Rightarrow> nat option" where
  "parse_octet s =
     (if s = [] \<or> \<not> list_all is_digit s \<or> (hd s = CHR ''0'' \<and> length s > 1) \<or> digits_value s > 255 then None
      else Some (digits_value s))"

definition parse_octets :: "string \<Rightarrow> nat list option" where
  "parse_octets s =
     (case map parse_octet (split_char CHR ''.'' s) of
        [Some a, Some b, Some c, Some d] \<Rightarrow> Some [a, b, c, d]
      | _ \<Rightarrow> None)"

text \<open>The word of a list of bytes, the most significant first.\<close>

definition word_of_bytes :: "nat list \<Rightarrow> 'a::len word" where
  "word_of_bytes bs = foldl (\<lambda>v b. v * 256 + of_nat b) 0 bs"

definition hex_value :: "char \<Rightarrow> nat option" where
  "hex_value c =
     (let n = of_char c :: nat in
      if 48 \<le> n \<and> n \<le> 57 then Some (n - 48)
      else if 97 \<le> n \<and> n \<le> 102 then Some (n - 87)
      else if 65 \<le> n \<and> n \<le> 70 then Some (n - 55) else None)"

text \<open>The longest run of hexadecimal digits at the start, with its value.\<close>

fun hex_run :: "string \<Rightarrow> nat \<Rightarrow> nat \<Rightarrow> nat \<times> nat \<times> string" where
  "hex_run [] v n = (v, n, [])"
| "hex_run (c # s) v n = (case hex_value c of Some d \<Rightarrow> hex_run s (v * 16 + d) (Suc n) | None \<Rightarrow> (v, n, c # s))"

lemma hex_run_length: "hex_run s v n = (v', n', s') \<Longrightarrow> length s' + n' = length s + n"
  by (induction s arbitrary: v n) (auto split: option.splits)

text \<open>
  The loop of \<open>parseIPv6\<close>: the bytes so far, the place of the ellipsis, and the rest of the text. The
  result has the bytes and the ellipsis once the whole text was used.
\<close>

function parse_groups :: "nat list \<Rightarrow> nat option \<Rightarrow> string \<Rightarrow> (nat list \<times> nat option) option" where
  "parse_groups bs ell s =
     (if 16 \<le> length bs then (if s = [] then Some (bs, ell) else None)
      else let (v, n, rest) = hex_run s 0 0 in
        if n = 0 \<or> n > 4 then None
        else if rest \<noteq> [] \<and> hd rest = CHR ''.'' then
          if ell = None \<and> length bs \<noteq> 12 \<or> length bs + 4 > 16 then None
          else (case parse_octets s of None \<Rightarrow> None | Some os \<Rightarrow> Some (bs @ os, ell))
        else
          let bs1 = bs @ [v div 256, v mod 256] in
          if rest = [] then Some (bs1, ell)
          else if hd rest \<noteq> CHR '':'' \<or> length rest = 1 then None
          else let s1 = tl rest in
            if hd s1 = CHR '':'' then
              if ell \<noteq> None then None
              else if tl s1 = [] then Some (bs1, Some (length bs1))
              else parse_groups bs1 (Some (length bs1)) (tl s1)
            else parse_groups bs1 ell s1)"
  by pat_completeness auto
termination
  by (relation "measure (\<lambda>(bs, ell, s). 16 - length bs)") auto

declare parse_groups.simps [simp del]

definition expand_ellipsis :: "nat list \<times> nat option \<Rightarrow> nat list option" where
  "expand_ellipsis r =
     (let (bs, ell) = r in
      if length bs < 16 then map_option (\<lambda>i. take i bs @ map (\<lambda>_. 0) [0..<16 - length bs] @ drop i bs) ell
      else if ell = None then Some bs else None)"

definition parse_IPv6 :: "string \<Rightarrow> (128 word) option" where
  "parse_IPv6 s =
     (let (ell, s1) = (if take 2 s = ''::'' then (Some 0, drop 2 s) else (None, s)) in
      if ell = Some 0 \<and> s1 = [] then Some 0
      else case parse_groups [] ell s1 of
             None \<Rightarrow> None
           | Some r \<Rightarrow> map_option word_of_bytes (expand_ellipsis r))"

text \<open>\<open>ParseAddr\<close>: the first of the three separators decides.\<close>

definition ParseAddr :: "string \<Rightarrow> addr option" where
  "ParseAddr s =
     (case find (\<lambda>c. c = CHR ''.'' \<or> c = CHR '':'' \<or> c = CHR ''%'') s of
        None \<Rightarrow> None
      | Some c \<Rightarrow>
          if c = CHR ''.'' then map_option (\<lambda>os. Addr4 (word_of_bytes os)) (parse_octets s)
          else if c = CHR '':'' then
            let s6 = takeWhile (\<lambda>c. c \<noteq> CHR ''%'') s; zone = drop (Suc (length s6)) s in
            if CHR ''%'' \<in> set s \<and> zone = [] then None else map_option (\<lambda>a. Addr6 a zone) (parse_IPv6 s6)
          else None)"

text \<open>\<open>net.ParseIP\<close>.\<close>

definition ParseIP :: "string \<Rightarrow> (128 word) option" where
  "ParseIP s = (case ParseAddr s of
     Some (Addr4 a) \<Rightarrow> Some (mapped a) | Some (Addr6 a []) \<Rightarrow> Some a | _ \<Rightarrow> None)"

section \<open>Printing\<close>

definition octets :: "32 word \<Rightarrow> nat list" where
  "octets a = map (\<lambda>i. unat (drop_bit i a AND 0xFF)) [24, 16, 8, 0]"

definition dotted :: "32 word \<Rightarrow> string" where
  "dotted a = join_char CHR ''.'' (map show_nat (octets a))"

definition hex_digit :: "nat \<Rightarrow> char" where
  "hex_digit d = (if d < 10 then char_of (48 + d) else char_of (87 + d))"

fun show_hex :: "nat \<Rightarrow> string" where
  "show_hex n = (if n < 16 then [hex_digit n] else show_hex (n div 16) @ [hex_digit (n mod 16)])"

declare show_hex.simps [simp del]

definition groups6 :: "128 word \<Rightarrow> nat list" where
  "groups6 a = map (\<lambda>i. unat (drop_bit (112 - 16 * i) a AND 0xFFFF)) [0..<8]"

text \<open>The first of the longest runs of at least two zero groups: its start and its end.\<close>

definition zero_run :: "nat list \<Rightarrow> (nat \<times> nat) option" where
  "zero_run gs =
     foldl (\<lambda>best i. let j = i + length (takeWhile (\<lambda>g. g = 0) (drop i gs)); l = j - i in
        if l \<ge> 2 \<and> l > (case best of None \<Rightarrow> 0 | Some (a, b) \<Rightarrow> b - a) then Some (i, j) else best) None [0..<length gs]"

definition colon_hex :: "128 word \<Rightarrow> string" where
  "colon_hex a =
     (let gs = groups6 a in
      case zero_run gs of
        None \<Rightarrow> join_char CHR '':'' (map show_hex gs)
      | Some (i, j) \<Rightarrow> join_char CHR '':'' (map show_hex (take i gs)) @ ''::'' @ join_char CHR '':'' (map show_hex (drop j gs)))"

definition IP_String :: "128 word \<Rightarrow> string" where
  "IP_String ip = (case To4 ip of Some a \<Rightarrow> dotted a | None \<Rightarrow> colon_hex ip)"

section \<open>Prefixes\<close>

definition net_mask :: "nat \<Rightarrow> 'a::len word" where
  "net_mask n = NOT (mask (LENGTH('a) - n))"

text \<open>Two addresses agree in their first \<open>n\<close> bits.\<close>

definition same_prefix :: "nat \<Rightarrow> 'a::len word \<Rightarrow> 'a word \<Rightarrow> bool" where
  "same_prefix n a b \<longleftrightarrow> a AND net_mask n = b AND net_mask n"

datatype ip_net = Net4 "32 word" nat | Net6 "128 word" nat

text \<open>\<open>net.ParseCIDR\<close> and \<open>IPNet.Contains\<close>; a network written in sixteen bytes whose address is a mapped
  one is the IPv4 network.\<close>

definition net_of :: "addr \<Rightarrow> nat \<Rightarrow> ip_net" where
  "net_of a n = (case a of
     Addr4 x \<Rightarrow> Net4 (x AND net_mask n) n
   | Addr6 x _ \<Rightarrow> (let m = x AND net_mask n in case To4 m of Some y \<Rightarrow> Net4 y (n - 96) | None \<Rightarrow> Net6 m n))"

definition bit_len :: "addr \<Rightarrow> nat" where
  "bit_len a = (case a of Addr4 _ \<Rightarrow> 32 | Addr6 _ _ \<Rightarrow> 128)"

definition ParseCIDR :: "string \<Rightarrow> ip_net option" where
  "ParseCIDR s =
     (let a = takeWhile (\<lambda>c. c \<noteq> CHR ''/'') s; m = drop (Suc (length a)) s in
      if CHR ''/'' \<notin> set s then None
      else case ParseAddr a of
             None \<Rightarrow> None
           | Some x \<Rightarrow>
               if (case x of Addr6 _ z \<Rightarrow> z \<noteq> [] | _ \<Rightarrow> False) \<or> m = [] \<or> \<not> list_all is_digit m \<or> digits_value m > bit_len x
               then None else Some (net_of x (digits_value m)))"

definition net_Contains :: "ip_net \<Rightarrow> 128 word \<Rightarrow> bool" where
  "net_Contains nw ip = (case (nw, To4 ip) of
     (Net4 a n, Some b) \<Rightarrow> same_prefix n a b
   | (Net6 a n, None) \<Rightarrow> same_prefix n a ip
   | _ \<Rightarrow> False)"

definition net_String :: "ip_net \<Rightarrow> string" where
  "net_String nw = (case nw of Net4 a n \<Rightarrow> dotted a @ ''/'' @ show_nat n | Net6 a n \<Rightarrow> IP_String a @ ''/'' @ show_nat n)"

text \<open>\<open>netip.ParsePrefix\<close> and \<open>Prefix.Contains\<close>: a mapped address is not in an IPv4 prefix.\<close>

definition last_slash :: "string \<Rightarrow> (string \<times> string) option" where
  "last_slash s = (if CHR ''/'' \<notin> set s then None
     else let b = rev (takeWhile (\<lambda>c. c \<noteq> CHR ''/'') (rev s)) in Some (take (length s - Suc (length b)) s, b))"

definition ParsePrefix :: "string \<Rightarrow> (addr \<times> nat) option" where
  "ParsePrefix s =
     (case last_slash s of
        None \<Rightarrow> None
      | Some (a, m) \<Rightarrow>
          case ParseAddr a of
            None \<Rightarrow> None
          | Some x \<Rightarrow>
              if (case x of Addr6 _ z \<Rightarrow> z \<noteq> [] | _ \<Rightarrow> False) \<or> m = [] \<or> (length m > 1 \<and> hd m = CHR ''0'') \<or> \<not> list_all is_digit m \<or>
                 digits_value m > bit_len x
              then None else Some (x, digits_value m))"

definition prefix_Contains :: "addr \<times> nat \<Rightarrow> addr \<Rightarrow> bool" where
  "prefix_Contains p ip = (case (p, ip) of
     ((Addr4 a, n), Addr4 b) \<Rightarrow> same_prefix n a b
   | ((Addr6 a _, n), Addr6 b z) \<Rightarrow> z = [] \<and> same_prefix n a b
   | _ \<Rightarrow> False)"

section \<open>Evaluating the parsers\<close>

lemmas parse_eval = ParseCIDR_def ParsePrefix_def ParseIP_def ParseAddr_def last_slash_def parse_octets_def parse_octet_def parse_IPv6_def
  parse_groups.simps hex_value_def expand_ellipsis_def word_of_bytes_def is_digit_def digits_value_def bit_len_def net_of_def
  net_mask_def mask_eq_exp_minus_1 To4_def upt_rec Let_def

end
