(* ===== verification/Protection.thy ===== *)
theory Protection
  imports Go_Net
begin

text \<open>
  \<open>internal/security/trust\<close> (the registry of protected resources that the automatic bans consult) and
  \<open>internal/security/protected\<close> (the shield that keeps the synchronisation from banning its own and
  other essential networks). The confidence thresholds of resources are left out, and so are the
  logs. What the command \<open>ip -j addr\<close> reports and the addresses of the interfaces are parameters.
\<close>

section \<open>Texts\<close>

text \<open>The encodings of the white space of \<open>unicode.IsSpace\<close>, and \<open>strings.TrimSpace\<close>.\<close>

definition space_texts :: "string list" where
  "space_texts = map (map char_of)
     ([[9], [10], [11], [12], [13], [32], [0xC2, 0x85], [0xC2, 0xA0], [0xE1, 0x9A, 0x80], [0xE2, 0x80, 0xA8], [0xE2, 0x80, 0xA9],
       [0xE2, 0x80, 0xAF], [0xE2, 0x81, 0x9F], [0xE3, 0x80, 0x80]] @ map (\<lambda>n. [0xE2, 0x80, n]) [0x80..<0x8B :: nat])"

fun strip_front :: "string list \<Rightarrow> nat \<Rightarrow> string \<Rightarrow> string" where
  "strip_front ps 0 s = s"
| "strip_front ps (Suc n) s = (case find (\<lambda>p. prefix p s) ps of None \<Rightarrow> s | Some p \<Rightarrow> strip_front ps n (drop (length p) s))"

text \<open>Every round of the loop takes at least one byte, so the length of the text bounds their number.\<close>

definition TrimSpace :: "string \<Rightarrow> string" where
  "TrimSpace s =
     (let t = strip_front space_texts (length s) s
      in rev (strip_front (map rev space_texts) (length t) (rev t)))"

text \<open>A text that begins and ends with visible ASCII characters is not trimmed.\<close>

lemma space_texts_bytes:
  "p \<in> set space_texts \<Longrightarrow> p \<noteq> [] \<and> (of_char (hd p) :: nat) \<notin> {33..<128} \<and> (of_char (last p) :: nat) \<notin> {33..<128}"
  by (auto simp: space_texts_def)

lemma strip_front_id: "(\<And>p. p \<in> set ps \<Longrightarrow> \<not> prefix p s) \<Longrightarrow> strip_front ps n s = s"
  by (cases n) (auto simp: find_Some_iff split: option.split dest: nth_mem)

lemma TrimSpace_visible:
  assumes "s \<noteq> []" and "(of_char (hd s) :: nat) \<in> {33..<128}" and "(of_char (last s) :: nat) \<in> {33..<128}"
  shows "TrimSpace s = s"
proof -
  have "\<not> prefix p s" if "p \<in> set space_texts" for p
    using space_texts_bytes [OF that] assms(1,2) by (cases p; cases s) auto
  then have front: "strip_front space_texts n s = s" for n by (rule strip_front_id)
  have "\<not> prefix q (rev s)" if q_in: "q \<in> set (map rev space_texts)" for q
  proof
    assume q: "prefix q (rev s)"
    obtain p where p: "q = rev p" "p \<in> set space_texts" using q_in by auto
    with q have "last p = last s" using space_texts_bytes [OF p(2)] assms(1)
      by (cases p rule: rev_cases; cases s rule: rev_cases) auto
    then show False using space_texts_bytes [OF p(2)] assms(3) by simp
  qed
  then have "strip_front (map rev space_texts) n (rev s) = rev s" for n by (rule strip_front_id)
  then show ?thesis using front by (simp add: TrimSpace_def)
qed

text \<open>
  \<open>strings.ToLower\<close> and \<open>strings.EqualFold\<close> where the other text of the comparison is ASCII: beside the
  ASCII capitals only two characters are turned into ASCII letters by either of them, the Kelvin sign
  (and for \<open>ToLower\<close> the dotted capital I, for \<open>EqualFold\<close> the long s).
\<close>

fun replace_text :: "string \<Rightarrow> char \<Rightarrow> string \<Rightarrow> string" where
  "replace_text p c [] = []"
| "replace_text p c (x # s) = (if p \<noteq> [] \<and> prefix p (x # s) then c # replace_text p c (drop (length p - 1) s) else x # replace_text p c s)"

definition kelvin_sign :: string where "kelvin_sign = map char_of [0xE2, 0x84, 0xAA :: nat]"
definition dotted_I :: string where "dotted_I = map char_of [0xC4, 0xB0 :: nat]"
definition long_s :: string where "long_s = map char_of [0xC5, 0xBF :: nat]"

definition lower_text :: "string \<Rightarrow> string" where
  "lower_text s = ToLower (replace_text dotted_I CHR ''i'' (replace_text kelvin_sign CHR ''k'' s))"

definition EqualFold_ascii :: "string \<Rightarrow> string \<Rightarrow> bool" where
  "EqualFold_ascii a s \<longleftrightarrow> ToLower a = ToLower (replace_text long_s CHR ''s'' (replace_text kelvin_sign CHR ''k'' s))"

section \<open>Classes of addresses\<close>

text \<open>The predicates of \<open>netip.Addr\<close>; all but \<open>IsGlobalUnicast\<close> look at a mapped address as the IPv4 address.\<close>

definition Unmap :: "addr \<Rightarrow> addr" where
  "Unmap a = (case a of Addr6 x z \<Rightarrow> (case To4 x of Some y \<Rightarrow> Addr4 y | None \<Rightarrow> Addr6 x z) | Addr4 x \<Rightarrow> Addr4 x)"

definition IsLoopback :: "addr \<Rightarrow> bool" where
  "IsLoopback a = (case Unmap a of Addr4 x \<Rightarrow> same_prefix 8 x 0x7F000000 | Addr6 x _ \<Rightarrow> x = 1)"

definition IsMulticast :: "addr \<Rightarrow> bool" where
  "IsMulticast a = (case Unmap a of Addr4 x \<Rightarrow> same_prefix 4 x 0xE0000000 | Addr6 x _ \<Rightarrow> same_prefix 8 x 0xFF000000000000000000000000000000)"

definition IsLinkLocalUnicast :: "addr \<Rightarrow> bool" where
  "IsLinkLocalUnicast a = (case Unmap a of Addr4 x \<Rightarrow> same_prefix 16 x 0xA9FE0000 | Addr6 x _ \<Rightarrow> same_prefix 10 x 0xFE800000000000000000000000000000)"

definition IsPrivate :: "addr \<Rightarrow> bool" where
  "IsPrivate a = (case Unmap a of
     Addr4 x \<Rightarrow> same_prefix 8 x 0x0A000000 \<or> same_prefix 12 x 0xAC100000 \<or> same_prefix 16 x 0xC0A80000
   | Addr6 x _ \<Rightarrow> same_prefix 7 x 0xFC000000000000000000000000000000)"

definition IsGlobalUnicast :: "addr \<Rightarrow> bool" where
  "IsGlobalUnicast a \<longleftrightarrow> a \<noteq> Addr4 0 \<and> a \<noteq> Addr4 0xFFFFFFFF \<and> a \<noteq> Addr6 0 [] \<and> \<not> IsLoopback a \<and> \<not> IsMulticast a \<and> \<not> IsLinkLocalUnicast a"

section \<open>The trust registry\<close>

record protected_resource =
  pr_Name :: string
  pr_Kind :: string
  pr_CIDR :: string
  pr_Tags :: "string list"
  pr_AllowPropagation :: bool

record trust_match =
  tm_Resource :: protected_resource
  tm_Reason :: string

record trust_registry =
  tr_resources :: "protected_resource list"
  tr_prefixes :: "((addr \<times> nat) \<times> protected_resource) list"

definition trust_Add :: "protected_resource \<Rightarrow> trust_registry \<Rightarrow> trust_registry" where
  "trust_Add res r =
     (let r1 = r\<lparr>tr_resources := tr_resources r @ [res]\<rparr> in
      if pr_CIDR res = [] then r1
      else case ParsePrefix (pr_CIDR res) of None \<Rightarrow> r1 | Some p \<Rightarrow> r1\<lparr>tr_prefixes := tr_prefixes r1 @ [(p, res)]\<rparr>)"

definition network :: "string \<Rightarrow> string \<Rightarrow> string list \<Rightarrow> protected_resource" where
  "network name cidr tags = \<lparr>pr_Name = name, pr_Kind = ''network'', pr_CIDR = cidr, pr_Tags = tags, pr_AllowPropagation = False\<rparr>"

definition service :: "string \<Rightarrow> string list \<Rightarrow> protected_resource" where
  "service name tags = \<lparr>pr_Name = name, pr_Kind = ''service'', pr_CIDR = [], pr_Tags = tags, pr_AllowPropagation = False\<rparr>"

definition default_networks :: "protected_resource list" where
  "default_networks =
     [network ''rfc1918-10'' ''10.0.0.0/8'' [''internal'', ''rfc1918''],
      network ''rfc1918-172'' ''172.16.0.0/12'' [''internal'', ''rfc1918''],
      network ''rfc1918-192'' ''192.168.0.0/16'' [''internal'', ''rfc1918''],
      network ''loopback-v4'' ''127.0.0.0/8'' [''loopback''],
      network ''loopback-v6'' ''::1/128'' [''loopback''],
      network ''link-local-v4'' ''169.254.0.0/16'' [''linklocal''],
      network ''link-local-v6'' ''fe80::/10'' [''linklocal''],
      network ''cloudflare-173'' ''173.245.48.0/20'' [''cloudflare'', ''edge''],
      network ''cloudflare-103-21'' ''103.21.244.0/22'' [''cloudflare'', ''edge''],
      network ''cloudflare-103-22'' ''103.22.200.0/22'' [''cloudflare'', ''edge''],
      network ''cloudflare-103-31'' ''103.31.4.0/22'' [''cloudflare'', ''edge''],
      network ''cloudflare-141'' ''141.101.64.0/18'' [''cloudflare'', ''edge''],
      network ''cloudflare-108'' ''108.162.192.0/18'' [''cloudflare'', ''edge''],
      network ''cloudflare-190'' ''190.93.240.0/20'' [''cloudflare'', ''edge''],
      network ''cloudflare-188'' ''188.114.96.0/20'' [''cloudflare'', ''edge''],
      network ''cloudflare-197'' ''197.234.240.0/22'' [''cloudflare'', ''edge''],
      network ''cloudflare-198'' ''198.41.128.0/17'' [''cloudflare'', ''edge''],
      network ''cloudflare-162'' ''162.158.0.0/15'' [''cloudflare'', ''edge''],
      network ''cloudflare-104-16'' ''104.16.0.0/13'' [''cloudflare'', ''edge''],
      network ''cloudflare-104-24'' ''104.24.0.0/14'' [''cloudflare'', ''edge''],
      network ''cloudflare-172'' ''172.64.0.0/13'' [''cloudflare'', ''edge''],
      network ''cloudflare-131'' ''131.0.72.0/22'' [''cloudflare'', ''edge'']]"

definition default_services :: "protected_resource list" where
  "default_services =
     [service ''control-plane'' [''management'', ''control-plane''], service ''monitoring'' [''monitoring''],
      service ''sonarr'' [''media'', ''critical''], service ''radarr'' [''media'', ''critical'']]"

definition DefaultRegistry :: trust_registry where
  "DefaultRegistry = foldl (\<lambda>r res. trust_Add res r) \<lparr>tr_resources = [], tr_prefixes = []\<rparr> (default_networks @ default_services)"

text \<open>The matches by the names of the resources; the callers only ask whether there is one.\<close>

definition MatchIP :: "trust_registry \<Rightarrow> string \<Rightarrow> trust_match list" where
  "MatchIP r ip =
     (case ParseAddr ip of
        None \<Rightarrow> []
      | Some a \<Rightarrow> sort_key (\<lambda>m. pr_Name (tm_Resource m))
          (map (\<lambda>(_, res). \<lparr>tm_Resource = res, tm_Reason = ''protected network''\<rparr>) (filter (\<lambda>(p, _). prefix_Contains p a) (tr_prefixes r))))"

definition MatchService :: "trust_registry \<Rightarrow> string \<Rightarrow> trust_match list" where
  "MatchService r name =
     (let n = TrimSpace (lower_text name) in
      if n = [] then []
      else sort_key (\<lambda>m. pr_Name (tm_Resource m))
        (map (\<lambda>res. \<lparr>tm_Resource = res, tm_Reason = ''protected service''\<rparr>)
          (filter (\<lambda>res. pr_Kind res = ''service'' \<and> (EqualFold_ascii (pr_Name res) n \<or> n \<in> set (pr_Tags res))) (tr_resources r))))"

section \<open>The shield\<close>

definition staticCIDRs :: "string list" where
  "staticCIDRs =
     [''10.0.0.0/8'', ''172.16.0.0/12'', ''192.168.0.0/16'', ''127.0.0.0/8'', ''::1/128'', ''169.254.0.0/16'', ''fe80::/10'', ''100.64.0.0/10'',
      ''173.245.48.0/20'', ''103.21.244.0/22'', ''103.22.200.0/22'', ''103.31.4.0/22'', ''141.101.64.0/18'', ''108.162.192.0/18'',
      ''190.93.240.0/20'', ''188.114.96.0/20'', ''197.234.240.0/22'', ''198.41.128.0/17'', ''162.158.0.0/15'', ''104.16.0.0/13'',
      ''104.24.0.0/14'', ''172.64.0.0/13'', ''131.0.72.0/22'',
      ''2400:cb00::/32'', ''2606:4700::/32'', ''2803:f800::/32'', ''2405:b500::/32'', ''2405:8100::/32'', ''2a06:98c0::/29'', ''2c0f:f248::/32'']"

definition cidr_nets :: "string list \<Rightarrow> ip_net list" where
  "cidr_nets cidrs = List.map_filter ParseCIDR cidrs"

definition host_net :: "128 word \<Rightarrow> ip_net" where
  "host_net ip = (case To4 ip of Some a \<Rightarrow> Net4 a 32 | None \<Rightarrow> Net6 ip 128)"

text \<open>The addresses that the command reports, if it could be run and read, else those of the interfaces.\<close>

definition addOwnIPs :: "string list option \<Rightarrow> ip_net list option \<Rightarrow> ip_net list \<Rightarrow> ip_net list" where
  "addOwnIPs reported ifaces nets =
     (case reported of
        Some locals \<Rightarrow> nets @ map host_net (List.map_filter ParseIP (filter (\<lambda>l. l \<noteq> []) locals))
      | None \<Rightarrow> nets @ (case ifaces of None \<Rightarrow> [] | Some ns \<Rightarrow> ns))"

definition newWithRunner :: "string list option \<Rightarrow> ip_net list option \<Rightarrow> ip_net list" where
  "newWithRunner reported ifaces = addOwnIPs reported ifaces (cidr_nets staticCIDRs)"

definition NewWithExtraRanges :: "string list \<Rightarrow> string list option \<Rightarrow> ip_net list option \<Rightarrow> ip_net list" where
  "NewWithExtraRanges extras reported ifaces = newWithRunner reported ifaces @ cidr_nets extras"

definition IsProtected :: "ip_net list \<Rightarrow> string \<Rightarrow> bool" where
  "IsProtected nets ipStr = (case ParseIP ipStr of None \<Rightarrow> False | Some ip \<Rightarrow> \<exists>n \<in> set nets. net_Contains n ip)"

section \<open>The networks\<close>

lemma static_nets:
  "cidr_nets staticCIDRs =
     [Net4 0x0A000000 8, Net4 0xAC100000 12, Net4 0xC0A80000 16, Net4 0x7F000000 8, Net6 1 128, Net4 0xA9FE0000 16,
      Net6 0xFE800000000000000000000000000000 10, Net4 0x64400000 10,
      Net4 0xADF53000 20, Net4 0x6715F400 22, Net4 0x6716C800 22, Net4 0x671F0400 22, Net4 0x8D654000 18, Net4 0x6CA2C000 18,
      Net4 0xBE5DF000 20, Net4 0xBC726000 20, Net4 0xC5EAF000 22, Net4 0xC6298000 17, Net4 0xA29E0000 15, Net4 0x68100000 13,
      Net4 0x68180000 14, Net4 0xAC400000 13, Net4 0x83004800 22,
      Net6 0x2400CB00000000000000000000000000 32, Net6 0x26064700000000000000000000000000 32, Net6 0x2803F800000000000000000000000000 32,
      Net6 0x2405B500000000000000000000000000 32, Net6 0x24058100000000000000000000000000 32, Net6 0x2A0698C0000000000000000000000000 29,
      Net6 0x2C0FF248000000000000000000000000 32]"
  by (simp add: cidr_nets_def staticCIDRs_def List.map_filter_simps parse_eval)

lemma default_prefixes:
  "map fst (tr_prefixes DefaultRegistry) =
     [(Addr4 0x0A000000, 8), (Addr4 0xAC100000, 12), (Addr4 0xC0A80000, 16), (Addr4 0x7F000000, 8), (Addr6 1 [], 128), (Addr4 0xA9FE0000, 16),
      (Addr6 0xFE800000000000000000000000000000 [], 10), (Addr4 0xADF53000, 20), (Addr4 0x6715F400, 22), (Addr4 0x6716C800, 22),
      (Addr4 0x671F0400, 22), (Addr4 0x8D654000, 18), (Addr4 0x6CA2C000, 18), (Addr4 0xBE5DF000, 20), (Addr4 0xBC726000, 20),
      (Addr4 0xC5EAF000, 22), (Addr4 0xC6298000, 17), (Addr4 0xA29E0000, 15), (Addr4 0x68100000, 13), (Addr4 0x68180000, 14),
      (Addr4 0xAC400000, 13), (Addr4 0x83004800, 22)]"
  by (simp add: DefaultRegistry_def default_networks_def default_services_def network_def service_def trust_Add_def parse_eval)

section \<open>The registry and the shield\<close>

lemma MatchIP_nonempty_iff:
  "MatchIP r s \<noteq> [] \<longleftrightarrow> (\<exists>a. ParseAddr s = Some a \<and> (\<exists>p \<in> set (map fst (tr_prefixes r)). prefix_Contains p a))"
proof -
  have sorted_empty: "sort_key f xs = [] \<longleftrightarrow> xs = []" for f :: "trust_match \<Rightarrow> string" and xs
    by (metis length_0_conv length_sort)
  show ?thesis by (cases "ParseAddr s") (force simp: MatchIP_def sorted_empty filter_empty_conv)+
qed

text \<open>No mapped address shares its first bits with an address whose first ten bits are not all zero.\<close>

lemma mapped_high_bits: "n \<le> 80 \<Longrightarrow> mapped a AND net_mask n = 0"
  by (rule bit_word_eqI) (auto simp: bit_and_iff net_mask_def bit_not_iff bit_mask_iff bit_mapped dest: bit_imp_le_length)

lemma mapped_not_loopback: "mapped a \<noteq> 1"
proof
  assume "mapped a = 1"
  moreover have "bit (mapped a) 32" by (simp add: bit_mapped)
  ultimately show False by (simp add: bit_1_iff)
qed

text \<open>The networks of the shield that the registry has too.\<close>

definition net_of_prefix :: "addr \<times> nat \<Rightarrow> ip_net" where
  "net_of_prefix p = (case p of (Addr4 a, n) \<Rightarrow> Net4 a n | (Addr6 a _, n) \<Rightarrow> Net6 a n)"

lemma registry_in_shield: "p \<in> set (map fst (tr_prefixes DefaultRegistry)) \<Longrightarrow> net_of_prefix p \<in> set (cidr_nets staticCIDRs)"
  unfolding default_prefixes static_nets by (auto simp: net_of_prefix_def)

lemma registry_v6:
  assumes "(Addr6 a z, n) \<in> set (map fst (tr_prefixes DefaultRegistry))"
  shows "\<not> same_prefix n a (mapped b)"
proof -
  from assms consider "a = 1" "n = 128" | "a = 0xFE800000000000000000000000000000" "n = 10"
    unfolding default_prefixes by auto
  then show ?thesis
  proof cases
    case 1
    then show ?thesis using mapped_not_loopback [of b] by (simp add: same_prefix_def net_mask_def)
  next
    case 2
    then have "a AND net_mask n \<noteq> 0" by (simp add: net_mask_def mask_eq_exp_minus_1)
    then show ?thesis using 2 by (simp only: same_prefix_def mapped_high_bits) simp
  qed
qed

lemma registry_escapes_mapped: "ParseAddr s = Some (Addr6 (mapped a) z) \<Longrightarrow> MatchIP DefaultRegistry s = []"
proof -
  assume s: "ParseAddr s = Some (Addr6 (mapped a) z)"
  have "\<not> prefix_Contains p (Addr6 (mapped a) z)" if "p \<in> set (map fst (tr_prefixes DefaultRegistry))" for p
    using registry_v6 [of _ _ _ a] that by (cases p; cases "fst p") (auto simp: prefix_Contains_def)
  then show "MatchIP DefaultRegistry s = []" using MatchIP_nonempty_iff [of DefaultRegistry s] s by auto
qed

text \<open>
  What the trust registry protects from automatic bans the shield protects from the synchronisation:
  if the default registry matches an address text, the shield, whatever own addresses it found,
  says that it is protected. The networks of the shield that the registry lacks are the shared address
  space and the IPv6 ranges of Cloudflare.
\<close>

theorem registry_within_shield:
  assumes "MatchIP DefaultRegistry s \<noteq> []"
  shows "IsProtected (newWithRunner reported ifaces) s"
proof -
  obtain a p where a: "ParseAddr s = Some a" and p: "p \<in> set (map fst (tr_prefixes DefaultRegistry))" and c: "prefix_Contains p a"
    using assms unfolding MatchIP_nonempty_iff by blast
  have "net_of_prefix p \<in> set (newWithRunner reported ifaces)"
    using registry_in_shield [OF p] by (auto simp: newWithRunner_def addOwnIPs_def split: option.split)
  moreover have "\<exists>ip. ParseIP s = Some ip \<and> net_Contains (net_of_prefix p) ip"
  proof (cases p)
    case (Pair x n)
    show ?thesis
    proof (cases x)
      case (Addr4 y)
      then show ?thesis using a c Pair
        by (auto simp: prefix_Contains_def ParseIP_def net_of_prefix_def net_Contains_def split: addr.splits)
    next
      case (Addr6 y z)
      then obtain b where b: "a = Addr6 b []" "same_prefix n y b" using c Pair by (auto simp: prefix_Contains_def split: addr.splits)
      have "To4 b = None"
        using registry_v6 [of y z n] p b(2) mapped_To4 [of b] Pair Addr6 by (cases "To4 b") auto
      then show ?thesis using a b Pair Addr6 by (simp add: ParseIP_def net_of_prefix_def net_Contains_def)
    qed
  qed
  ultimately show ?thesis by (auto simp: IsProtected_def)
qed

theorem registry_within_shield_witness: "IsProtected (newWithRunner None None) ''104.18.32.7''"
proof (rule registry_within_shield)
  have "(Addr4 0x68100000, 13) \<in> set (map fst (tr_prefixes DefaultRegistry))" unfolding default_prefixes by simp
  moreover have "ParseAddr ''104.18.32.7'' = Some (Addr4 0x68122007)" by (simp add: parse_eval)
  moreover have "prefix_Contains (Addr4 0x68100000, 13) (Addr4 0x68122007)"
    by (simp add: prefix_Contains_def same_prefix_def net_mask_def mask_eq_exp_minus_1)
  ultimately show "MatchIP DefaultRegistry ''104.18.32.7'' \<noteq> []" unfolding MatchIP_nonempty_iff by blast
qed

end
