(* ===== verification/Reputation.thy ===== *)
theory Reputation
  imports Go_Net Go_World
begin

text \<open>
  \<open>internal/security/reputation\<close>: the gate that weighs the verdicts of the external providers against
  the local evidence before a report is sent or an address is banned. The enrichment service and the
  quota registry are parameters, as functions of the number of the call.
\<close>

section \<open>Signals\<close>

definition ModeShadow :: string where "ModeShadow = ''shadow''"
definition ModeEnforce :: string where "ModeEnforce = ''enforce''"

definition ActionAllow :: string where "ActionAllow = ''allow''"
definition ActionSuppressLowConfidence :: string where "ActionSuppressLowConfidence = ''suppress_low_confidence''"
definition ActionInvestigationShadow :: string where "ActionInvestigationShadow = ''investigation_shadow''"

definition ReasonSuppressedLowReputationConfidence :: string where "ReasonSuppressedLowReputationConfidence = ''suppressed_low_reputation_confidence''"
definition ReasonInvestigationShadow :: string where "ReasonInvestigationShadow = ''investigation_shadow''"
definition ReasonProviderUnavailable :: string where "ReasonProviderUnavailable = ''provider_unavailable''"
definition ReasonAllowedCorroborated :: string where "ReasonAllowedCorroborated = ''allowed_corroborated_signal''"

definition SignalNone :: string where "SignalNone = ''none''"
definition SignalWeak :: string where "SignalWeak = ''weak''"
definition SignalConfirmedHostile :: string where "SignalConfirmedHostile = ''confirmed_hostile''"

lemmas signal_defs = SignalNone_def SignalWeak_def SignalConfirmedHostile_def

record provider_signal =
  ps_Available :: bool
  ps_Score :: int
  ps_Note :: string
  ps_Err :: "error option"

definition no_signal :: provider_signal where
  "no_signal = \<lparr>ps_Available = False, ps_Score = 0, ps_Note = [], ps_Err = None\<rparr>"

text \<open>The kind of abuse that a local signal carries along is not read.\<close>

record signals =
  sg_AbuseIPDB :: provider_signal
  sg_VirusTotal :: provider_signal
  sg_Strength :: string

record policy =
  po_Enabled :: bool
  po_Mode :: string
  po_AbuseIPDBCheckBeforeReport :: bool
  po_MinConfidenceToReport :: int
  po_MinConfidenceToBan :: int
  po_SuppressIfZero :: bool
  po_VirusTotalEnabled :: bool
  po_VirusTotalSuppressClean :: bool

definition DefaultPolicy :: policy where
  "DefaultPolicy = \<lparr>po_Enabled = True, po_Mode = ModeShadow, po_AbuseIPDBCheckBeforeReport = True, po_MinConfidenceToReport = 25,
     po_MinConfidenceToBan = 50, po_SuppressIfZero = True, po_VirusTotalEnabled = True, po_VirusTotalSuppressClean = True\<rparr>"

record decision =
  de_Action :: string
  de_Reason :: string
  de_AllowReport :: bool
  de_AllowBan :: bool
  de_ProviderUnavailable :: bool
  de_Shadow :: bool

section \<open>Evaluating\<close>

definition gate_actionFor :: "bool \<Rightarrow> string" where
  "gate_actionFor allow = (if allow then ActionAllow else ActionSuppressLowConfidence)"

definition decided :: "string \<Rightarrow> string \<Rightarrow> bool \<Rightarrow> bool \<Rightarrow> bool \<Rightarrow> decision" where
  "decided action reason allow unavailable shadow =
     \<lparr>de_Action = action, de_Reason = reason, de_AllowReport = allow, de_AllowBan = allow, de_ProviderUnavailable = unavailable, de_Shadow = shadow\<rparr>"

definition Evaluate :: "policy \<Rightarrow> signals \<Rightarrow> bool \<Rightarrow> decision" where
  "Evaluate p s forBan =
     (let shadow = (po_Mode p \<noteq> ModeEnforce) in
      if \<not> po_Enabled p then decided ActionAllow ''reputation_gate_disabled'' True False shadow
      else
        let unavailable = (\<not> ps_Available (sg_AbuseIPDB s) \<or> (po_VirusTotalEnabled p \<and> \<not> ps_Available (sg_VirusTotal s)));
            haveAbuse = ps_Available (sg_AbuseIPDB s);
            abuseScore = ps_Score (sg_AbuseIPDB s);
            haveVT = (po_VirusTotalEnabled p \<and> ps_Available (sg_VirusTotal s));
            vtMalicious = (haveVT \<and> ps_Score (sg_VirusTotal s) > 0);
            vtClean = (haveVT \<and> ps_Score (sg_VirusTotal s) = 0);
            minConfidence = (if forBan then po_MinConfidenceToBan p else po_MinConfidenceToReport p);
            abuseHigh = (haveAbuse \<and> abuseScore \<ge> minConfidence);
            abuseZero = (haveAbuse \<and> abuseScore = 0);
            suppress = decided ActionSuppressLowConfidence ReasonSuppressedLowReputationConfidence False unavailable shadow
        in
        if (abuseHigh \<or> vtMalicious) \<and> sg_Strength s \<noteq> SignalNone then decided ActionAllow ReasonAllowedCorroborated True unavailable shadow
        else if \<not> haveAbuse \<and> \<not> haveVT then
          let allow = (sg_Strength s = SignalConfirmedHostile) in decided (gate_actionFor allow) ReasonProviderUnavailable allow True shadow
        else if sg_Strength s = SignalConfirmedHostile
        then decided ActionInvestigationShadow ReasonInvestigationShadow False unavailable shadow
        else if po_SuppressIfZero p \<and> abuseZero then suppress
        else if po_VirusTotalSuppressClean p \<and> haveVT \<and> vtClean \<and> \<not> abuseHigh then suppress
        else if sg_Strength s = SignalNone \<or> sg_Strength s = SignalWeak then suppress
        else decided ActionAllow ReasonAllowedCorroborated True unavailable shadow)"

section \<open>Fetching\<close>

definition quota_Exhausted :: string where "quota_Exhausted = ''EXHAUSTED''"
definition quota_Throttled :: string where "quota_Throttled = ''THROTTLED''"

record provider_verdict =
  pv_Provider :: string
  pv_Score :: int
  pv_Note :: string

record gate =
  ga_Enricher :: "(nat \<Rightarrow> addr \<Rightarrow> provider_verdict list result) option"
  ga_Quota :: "(nat \<Rightarrow> string \<Rightarrow> string option) option"
  ga_Policy :: policy

definition extractProviderSignal :: "provider_verdict list \<Rightarrow> string \<Rightarrow> provider_signal" where
  "extractProviderSignal vs provider =
     (case find (\<lambda>v. pv_Provider v = provider) vs of
        Some v \<Rightarrow> \<lparr>ps_Available = True, ps_Score = pv_Score v, ps_Note = pv_Note v, ps_Err = None\<rparr>
      | None \<Rightarrow> no_signal\<lparr>ps_Note := provider @ ''_not_returned''\<rparr>)"

definition constrained :: "string option \<Rightarrow> bool" where
  "constrained st \<longleftrightarrow> st = Some quota_Exhausted \<or> st = Some quota_Throttled"

text \<open>The error of \<open>ParseAddr\<close>; its text is not read.\<close>

definition invalid_address :: error where
  "invalid_address = Plain ''ParseAddr''"

definition FetchSignals :: "gate \<Rightarrow> string \<Rightarrow> string \<Rightarrow> 'z io_env_scheme \<Rightarrow> signals \<times> 'z io_env_scheme" where
  "FetchSignals g ip strength w =
     (let p = ga_Policy g; w1 = w\<lparr>io_step := Suc (io_step w)\<rparr> in
      case ParseAddr ip of
        None \<Rightarrow> (\<lparr>sg_AbuseIPDB = no_signal\<lparr>ps_Err := Some invalid_address\<rparr>, sg_VirusTotal = no_signal\<lparr>ps_Err := Some invalid_address\<rparr>,
                  sg_Strength = strength\<rparr>, w)
      | Some a \<Rightarrow>
          let quotaConstrained = (case ga_Quota g of None \<Rightarrow> False | Some q \<Rightarrow> constrained (q (io_step w) ''abuseipdb''));
              disabled = no_signal\<lparr>ps_Note := ''virustotal_disabled''\<rparr>;
              answer = (case ga_Enricher g of None \<Rightarrow> None | Some e \<Rightarrow> Some (e (io_step w) a));
              abuse = (if quotaConstrained then no_signal\<lparr>ps_Note := ''abuseipdb_quota_constrained''\<rparr>
                       else case answer of None \<Rightarrow> no_signal
                            | Some (Inl e) \<Rightarrow> no_signal\<lparr>ps_Err := Some e\<rparr>
                            | Some (Inr vs) \<Rightarrow> extractProviderSignal vs ''abuseipdb'');
              vt = (if \<not> po_VirusTotalEnabled p then disabled
                    else case answer of None \<Rightarrow> no_signal
                         | Some (Inl e) \<Rightarrow> if quotaConstrained then no_signal\<lparr>ps_Err := Some e\<rparr> else no_signal
                         | Some (Inr vs) \<Rightarrow> extractProviderSignal vs ''virustotal'')
          in (\<lparr>sg_AbuseIPDB = abuse, sg_VirusTotal = vt, sg_Strength = strength\<rparr>,
              if answer = None \<or> (quotaConstrained \<and> \<not> po_VirusTotalEnabled p) then w else w1))"

definition EvaluateReport :: "gate \<Rightarrow> string \<Rightarrow> string \<Rightarrow> 'z io_env_scheme \<Rightarrow> decision \<times> 'z io_env_scheme" where
  "EvaluateReport g ip strength w = (let (s, w1) = FetchSignals g ip strength w in (Evaluate (ga_Policy g) s False, w1))"

definition EvaluateBan :: "gate \<Rightarrow> string \<Rightarrow> string \<Rightarrow> 'z io_env_scheme \<Rightarrow> decision \<times> 'z io_env_scheme" where
  "EvaluateBan g ip strength w = (let (s, w1) = FetchSignals g ip strength w in (Evaluate (ga_Policy g) s True, w1))"

section \<open>What the gate allows\<close>

lemma Evaluate_shadow: "de_Shadow (Evaluate p s b) \<longleftrightarrow> po_Mode p \<noteq> ModeEnforce"
  by (simp add: Evaluate_def decided_def Let_def)

lemma Evaluate_allow_iff:
  assumes "po_Enabled p" and "sg_Strength s \<in> {SignalNone, SignalWeak, SignalConfirmedHostile}"
  shows "de_AllowBan (Evaluate p s b) \<longleftrightarrow>
    ((ps_Available (sg_AbuseIPDB s) \<and> ps_Score (sg_AbuseIPDB s) \<ge> (if b then po_MinConfidenceToBan p else po_MinConfidenceToReport p) \<or>
      po_VirusTotalEnabled p \<and> ps_Available (sg_VirusTotal s) \<and> ps_Score (sg_VirusTotal s) > 0) \<and> sg_Strength s \<noteq> SignalNone) \<or>
    (\<not> ps_Available (sg_AbuseIPDB s) \<and> \<not> (po_VirusTotalEnabled p \<and> ps_Available (sg_VirusTotal s)) \<and> sg_Strength s = SignalConfirmedHostile)"
  using assms(2) by (elim insertE emptyE; simp add: Evaluate_def decided_def Let_def signal_defs assms(1); argo)

text \<open>The verdict of a provider as the gate sees it: none when it was not asked, failed or did not answer.\<close>

definition verdict :: "gate \<Rightarrow> string \<Rightarrow> string \<Rightarrow> nat \<Rightarrow> int option" where
  "verdict g ip provider n =
     (case (ParseAddr ip, ga_Enricher g) of
        (Some a, Some e) \<Rightarrow> (case e n a of Inr vs \<Rightarrow> map_option pv_Score (find (\<lambda>v. pv_Provider v = provider) vs) | Inl _ \<Rightarrow> None)
      | _ \<Rightarrow> None)"

definition quota_left :: "gate \<Rightarrow> nat \<Rightarrow> bool" where
  "quota_left g n \<longleftrightarrow> (case ga_Quota g of None \<Rightarrow> True | Some q \<Rightarrow> \<not> constrained (q n ''abuseipdb''))"

lemma FetchSignals_available:
  "ps_Available (sg_AbuseIPDB (fst (FetchSignals g ip st w))) \<and> ps_Score (sg_AbuseIPDB (fst (FetchSignals g ip st w))) = x \<longleftrightarrow>
     quota_left g (io_step w) \<and> verdict g ip ''abuseipdb'' (io_step w) = Some x" (is ?abuse)
  "po_VirusTotalEnabled (ga_Policy g) \<Longrightarrow>
     ps_Available (sg_VirusTotal (fst (FetchSignals g ip st w))) \<and> ps_Score (sg_VirusTotal (fst (FetchSignals g ip st w))) = x \<longleftrightarrow>
     verdict g ip ''virustotal'' (io_step w) = Some x" (is "_ \<Longrightarrow> ?vt")
  "sg_Strength (fst (FetchSignals g ip st w)) = st" (is ?strength)
proof -
  note defs = FetchSignals_def verdict_def quota_left_def extractProviderSignal_def no_signal_def Let_def
  show ?strength by (simp add: FetchSignals_def Let_def split: option.split)
  show ?abuse
  proof (cases "ParseAddr ip")
    case (Some a)
    then show ?thesis
    proof (cases "ga_Enricher g")
      case (Some e)
      with \<open>ParseAddr ip = Some a\<close> show ?thesis by (cases "e (io_step w) a") (auto simp: defs split: option.split)
    qed (auto simp: defs split: option.split)
  qed (simp add: defs)
  show ?vt if "po_VirusTotalEnabled (ga_Policy g)"
  proof (cases "ParseAddr ip")
    case (Some a)
    then show ?thesis
    proof (cases "ga_Enricher g")
      case (Some e)
      with \<open>ParseAddr ip = Some a\<close> that show ?thesis by (cases "e (io_step w) a") (auto simp: defs split: option.split)
    qed (use that in \<open>auto simp: defs split: option.split\<close>)
  qed (use that in \<open>simp add: defs\<close>)
qed

text \<open>
  External reputation is never the sole authority for a ban, and neither is a local signal that the
  providers contradict. With an enabled policy that consults both providers, the gate allows a ban
  exactly when there is local evidence and AbuseIPDB reaches the threshold for bans or VirusTotal
  reports a detection, or when neither provider gave a verdict and the local evidence is
  confirmed-hostile; a verdict that was not fetched because the quota is used up counts as none.
\<close>

theorem gate_allows_iff:
  fixes w :: "'z io_env_scheme"
  assumes "po_Enabled (ga_Policy g)" and "po_VirusTotalEnabled (ga_Policy g)" and "st \<in> {SignalNone, SignalWeak, SignalConfirmedHostile}"
  shows "de_AllowBan (fst (EvaluateBan g ip st w)) \<longleftrightarrow>
    (st \<noteq> SignalNone \<and>
       ((\<exists>x \<ge> po_MinConfidenceToBan (ga_Policy g). quota_left g (io_step w) \<and> verdict g ip ''abuseipdb'' (io_step w) = Some x) \<or>
        (\<exists>x > 0. verdict g ip ''virustotal'' (io_step w) = Some x))) \<or>
    (st = SignalConfirmedHostile \<and> (verdict g ip ''abuseipdb'' (io_step w) = None \<or> \<not> quota_left g (io_step w)) \<and>
       verdict g ip ''virustotal'' (io_step w) = None)"
proof -
  obtain s w1 where s: "FetchSignals g ip st w = (s, w1)" by (cases "FetchSignals g ip st w")
  have "fst (EvaluateBan g ip st w) = Evaluate (ga_Policy g) s True" using s by (simp add: EvaluateBan_def)
  then have allow: "de_AllowBan (fst (EvaluateBan g ip st w)) = de_AllowBan (Evaluate (ga_Policy g) s True)" by simp
  have st: "sg_Strength s = st" using FetchSignals_available(3) [of g ip st w] s by simp
  have a: "(ps_Available (sg_AbuseIPDB s) \<and> ps_Score (sg_AbuseIPDB s) = x) =
      (quota_left g (io_step w) \<and> verdict g ip ''abuseipdb'' (io_step w) = Some x)" for x
    using FetchSignals_available(1) [of g ip st w x] s by simp
  have v: "(ps_Available (sg_VirusTotal s) \<and> ps_Score (sg_VirusTotal s) = x) = (verdict g ip ''virustotal'' (io_step w) = Some x)" for x
    using FetchSignals_available(2) [OF assms(2), of ip st w x] s by simp
  have high: "(ps_Available (sg_AbuseIPDB s) \<and> ps_Score (sg_AbuseIPDB s) \<ge> k) =
      (\<exists>x \<ge> k. quota_left g (io_step w) \<and> verdict g ip ''abuseipdb'' (io_step w) = Some x)" for k
    using a [of "ps_Score (sg_AbuseIPDB s)"] a by auto
  have malicious: "(ps_Available (sg_VirusTotal s) \<and> ps_Score (sg_VirusTotal s) > 0) = (\<exists>x > 0. verdict g ip ''virustotal'' (io_step w) = Some x)"
    using v [of "ps_Score (sg_VirusTotal s)"] v by auto
  have no_a: "(\<not> ps_Available (sg_AbuseIPDB s)) = (verdict g ip ''abuseipdb'' (io_step w) = None \<or> \<not> quota_left g (io_step w))"
    using a by (metis not_Some_eq option.distinct(1))
  have no_v: "(\<not> ps_Available (sg_VirusTotal s)) = (verdict g ip ''virustotal'' (io_step w) = None)"
    using v by (metis not_Some_eq option.distinct(1))
  show ?thesis
    using Evaluate_allow_iff [OF assms(1), of s True] assms(2,3) unfolding allow st
    by (simp only: high malicious no_a no_v if_True simp_thms) blast
qed

definition both_clean :: gate where
  "both_clean = \<lparr>ga_Enricher = Some (\<lambda>_ _. Inr [\<lparr>pv_Provider = ''abuseipdb'', pv_Score = 0, pv_Note = []\<rparr>,
     \<lparr>pv_Provider = ''virustotal'', pv_Score = 0, pv_Note = []\<rparr>]), ga_Quota = None, ga_Policy = DefaultPolicy\<lparr>po_Mode := ModeEnforce\<rparr>\<rparr>"

definition gate_world :: io_env where
  "gate_world = \<lparr>io_clock = int, io_fault = \<lambda>_. None, io_choice = \<lambda>_. False, io_step = 0\<rparr>"

theorem gate_allows_iff_witness: "\<not> de_AllowBan (fst (EvaluateBan both_clean ''192.0.2.1'' SignalConfirmedHostile gate_world))"
proof -
  have p: "po_Enabled (ga_Policy both_clean)" "po_VirusTotalEnabled (ga_Policy both_clean)" "po_MinConfidenceToBan (ga_Policy both_clean) = 50"
    by (simp_all add: both_clean_def DefaultPolicy_def)
  have "ParseAddr ''192.0.2.1'' = Some (Addr4 0xC0000201)" by (simp add: parse_eval)
  then have "verdict both_clean ''192.0.2.1'' ''abuseipdb'' 0 = Some 0" "verdict both_clean ''192.0.2.1'' ''virustotal'' 0 = Some 0"
    "quota_left both_clean 0" by (simp_all add: verdict_def quota_left_def both_clean_def)
  then show ?thesis using gate_allows_iff [OF p(1,2), of SignalConfirmedHostile "''192.0.2.1''" gate_world] p(3) by (simp add: gate_world_def)
qed

end
