(* ===== verification/Autoban.thy ===== *)
theory Autoban
  imports Protection Reputation "HOL-Library.Multiset"
begin

text \<open>
  \<open>internal/services/autoban\<close>: the evaluator that decides about automatic bans, with its burst counter, its
  guard against repeated bans and the cache in front of AbuseIPDB. The reputation gate is that of
  \<open>Reputation\<close>, the registry that of \<open>Protection\<close>; the enrichment service, the quota registry and the
  AbuseIPDB client are parameters, as functions of the number of the call. The methods hold the mutex
  of their structure, so each is one step.
\<close>

section \<open>The burst counter\<close>

definition burstPruneLookback :: duration where "burstPruneLookback = 15 * Minute"

record burst_counter =
  bc_events :: "string \<Rightarrow> go_time list"
  bc_seen :: "string set"

definition NewBurstCounter :: burst_counter where
  "NewBurstCounter = \<lparr>bc_events = (\<lambda>_. []), bc_seen = {}\<rparr>"

definition burst_Record :: "string \<Rightarrow> string \<Rightarrow> go_time \<Rightarrow> burst_counter \<Rightarrow> burst_counter" where
  "burst_Record ip key ts c =
     (let dk = ip @ '':'' @ key in
      if key \<noteq> [] \<and> dk \<in> bc_seen c then c
      else c\<lparr>bc_seen := (if key \<noteq> [] then insert dk (bc_seen c) else bc_seen c),
             bc_events := (bc_events c)(ip := bc_events c ip @ [ts])\<rparr>)"

definition HasLocalEvidence :: "burst_counter \<Rightarrow> string \<Rightarrow> go_time \<Rightarrow> bool" where
  "HasLocalEvidence c ip now = list_ex (\<lambda>t. time_after t (time_add now (- burstPruneLookback))) (bc_events c ip)"

text \<open>The two loops of \<open>DetectBurst\<close> over the sorted timestamps.\<close>

fun burst_scan :: "nat \<Rightarrow> nat \<Rightarrow> go_time \<Rightarrow> go_time list \<Rightarrow> bool" where
  "burst_scan threshold n end [] = False"
| "burst_scan threshold n end (t # ts) =
     (if \<not> time_before t end then False
      else if n + 1 > threshold then True else burst_scan threshold (n + 1) end ts)"

fun burst_windows :: "nat \<Rightarrow> duration \<Rightarrow> go_time list \<Rightarrow> bool" where
  "burst_windows threshold window [] = False"
| "burst_windows threshold window (t # ts) = (burst_scan threshold 1 (time_add t window) ts \<or> burst_windows threshold window ts)"

text \<open>The slice that is sorted is the one that was stored.\<close>

definition DetectBurst :: "string \<Rightarrow> duration \<Rightarrow> nat \<Rightarrow> go_time \<Rightarrow> burst_counter \<Rightarrow> bool \<times> burst_counter" where
  "DetectBurst ip window threshold now c =
     (let cutoff = time_add now (- burstPruneLookback);
          ts = filter (\<lambda>t. time_after t cutoff) (bc_events c ip)
      in if length ts \<le> threshold then (False, c\<lparr>bc_events := (bc_events c)(ip := ts)\<rparr>)
         else (burst_windows threshold window (sort ts), c\<lparr>bc_events := (bc_events c)(ip := sort ts)\<rparr>))"

section \<open>The guard against repeated bans\<close>

record ban_record =
  br_at :: go_time
  br_ttl :: duration

record ban_dedup =
  bd_bans :: "string \<rightharpoonup> ban_record"
  bd_defaultTTL :: duration

definition NewBanDedup :: "duration \<Rightarrow> ban_dedup" where
  "NewBanDedup ttl = \<lparr>bd_bans = Map.empty, bd_defaultTTL = ttl\<rparr>"

definition AlreadyBanned :: "ban_dedup \<Rightarrow> string \<Rightarrow> go_time \<Rightarrow> bool" where
  "AlreadyBanned d ip now = (case bd_bans d ip of None \<Rightarrow> False | Some r \<Rightarrow> time_before now (time_add (br_at r) (br_ttl r)))"

definition MarkBanned :: "string \<Rightarrow> go_time \<Rightarrow> duration \<Rightarrow> ban_dedup \<Rightarrow> ban_dedup" where
  "MarkBanned ip now ttl d = d\<lparr>bd_bans := (bd_bans d)(ip \<mapsto> \<lparr>br_at = now, br_ttl = ttl\<rparr>)\<rparr>"

definition MarkBannedDefaultTTL :: "string \<Rightarrow> go_time \<Rightarrow> ban_dedup \<Rightarrow> ban_dedup" where
  "MarkBannedDefaultTTL ip now d = MarkBanned ip now (bd_defaultTTL d) d"

section \<open>The cache in front of AbuseIPDB\<close>

text \<open>An address that could not be parsed is the zero \<open>Addr\<close>, here \<open>None\<close>.\<close>

definition Addr_String :: "addr option \<Rightarrow> string" where
  "Addr_String a = (case a of
     None \<Rightarrow> ''invalid IP''
   | Some (Addr4 x) \<Rightarrow> dotted x
   | Some (Addr6 x z) \<Rightarrow> (case To4 x of Some y \<Rightarrow> ''::ffff:'' @ dotted y | None \<Rightarrow> colon_hex x) @ (if z = [] then [] else CHR ''%'' # z))"

definition makeSummary :: "int \<Rightarrow> provider_verdict list" where
  "makeSummary score = [\<lparr>pv_Provider = ''abuseipdb'', pv_Score = score, pv_Note = []\<rparr>]"

record cache_entry =
  ce_score :: int
  ce_expiresAt :: go_time

text \<open>\<open>Enrich\<close> of the cached enricher; the new entry expires a time after the answer came.\<close>

definition cached_Enrich :: "(nat \<Rightarrow> string \<Rightarrow> int result) \<Rightarrow> duration \<Rightarrow> addr option \<Rightarrow> (string \<rightharpoonup> cache_entry) \<Rightarrow> 'z io_env_scheme \<Rightarrow>
    provider_verdict list result \<times> (string \<rightharpoonup> cache_entry) \<times> 'z io_env_scheme" where
  "cached_Enrich checker ttl a cache w =
     (let ipStr = Addr_String a;
          (hit, w1) = (case cache ipStr of None \<Rightarrow> (None, w)
             | Some e \<Rightarrow> let (now, w1) = time_Now w in (if time_before now (ce_expiresAt e) then Some (ce_score e) else None, w1))
      in case hit of
           Some score \<Rightarrow> (Inr (makeSummary score), cache, w1)
         | None \<Rightarrow>
             let r = checker (io_step w1) ipStr; w2 = w1\<lparr>io_step := Suc (io_step w1)\<rparr> in
             case r of
               Inl e \<Rightarrow> (Inl e, cache, w2)
             | Inr score \<Rightarrow> let (now, w3) = time_Now w2 in
                 (Inr (makeSummary score), cache(ipStr \<mapsto> \<lparr>ce_score = score, ce_expiresAt = time_add now ttl\<rparr>), w3))"

section \<open>The evaluator\<close>

definition BurstWindow :: duration where "BurstWindow = 30 * Second"
definition BurstThreshold :: nat where "BurstThreshold = 30"
definition BanDedupTTL :: duration where "BanDedupTTL = 24 * Hour"

record ban_decision =
  dc_IP :: string
  dc_ShouldBan :: bool
  dc_Reason :: string
  dc_SkipReason :: string
  dc_Shadow :: bool
  dc_Confidence :: int

record evaluator =
  ev_trust :: "trust_registry option"
  ev_enricher :: "nat \<Rightarrow> addr option \<Rightarrow> provider_verdict list result"
  ev_quota :: "nat \<Rightarrow> string \<Rightarrow> string option"
  ev_burst :: burst_counter
  ev_dedup :: ban_dedup
  ev_live :: bool
  ev_gate :: "gate option"

definition NewEvaluator :: "bool \<Rightarrow> trust_registry option \<Rightarrow> (nat \<Rightarrow> addr option \<Rightarrow> provider_verdict list result) \<Rightarrow> (nat \<Rightarrow> string \<Rightarrow> string option) \<Rightarrow> evaluator" where
  "NewEvaluator live reg enricher quota =
     \<lparr>ev_trust = reg, ev_enricher = enricher, ev_quota = quota, ev_burst = NewBurstCounter, ev_dedup = NewBanDedup BanDedupTTL,
      ev_live = live, ev_gate = None\<rparr>"

definition SetReputationGate :: "gate option \<Rightarrow> evaluator \<Rightarrow> evaluator" where
  "SetReputationGate g ev = ev\<lparr>ev_gate := g\<rparr>"

definition isBenign :: "string \<Rightarrow> bool" where
  "isBenign t \<longleftrightarrow> t = ''benign_bootstrap'' \<or> t = ''benign_probe'' \<or> t = []"

definition abuseIPDBScore :: "provider_verdict list \<Rightarrow> int" where
  "abuseIPDBScore vs = (case find (\<lambda>v. pv_Provider v = ''abuseipdb'') vs of Some v \<Rightarrow> pv_Score v | None \<Rightarrow> 0)"

record malicious_event =
  me_IP :: string
  me_Timestamp :: go_time
  me_AbuseType :: string
  me_RayID :: string

definition RecordMalicious :: "malicious_event \<Rightarrow> evaluator \<Rightarrow> evaluator" where
  "RecordMalicious e ev =
     (if me_IP e = [] \<or> isBenign (me_AbuseType e) \<or> ParseAddr (me_IP e) = None then ev
      else ev\<lparr>ev_burst := burst_Record (me_IP e) (me_RayID e) (me_Timestamp e) (ev_burst ev)\<rparr>)"

definition guardIP :: "evaluator \<Rightarrow> string \<Rightarrow> go_time \<Rightarrow> string" where
  "guardIP ev ip now =
     (case ParseAddr (TrimSpace ip) of
        None \<Rightarrow> ''invalid_ip''
      | Some a \<Rightarrow>
          if \<not> IsGlobalUnicast a \<or> IsPrivate a then ''not_public_ip''
          else if (case ev_trust ev of None \<Rightarrow> False | Some r \<Rightarrow> MatchIP r ip \<noteq> []) then ''protected_target''
          else if AlreadyBanned (ev_dedup ev) ip now then ''already_banned''
          else [])"

definition skipped :: "string \<Rightarrow> string \<Rightarrow> ban_decision" where
  "skipped ip reason = \<lparr>dc_IP = ip, dc_ShouldBan = False, dc_Reason = [], dc_SkipReason = reason, dc_Shadow = False, dc_Confidence = 0\<rparr>"

definition ban :: "evaluator \<Rightarrow> string \<Rightarrow> string \<Rightarrow> int \<Rightarrow> ban_decision" where
  "ban ev ip reason confidence =
     \<lparr>dc_IP = ip, dc_ShouldBan = True, dc_Reason = reason, dc_SkipReason = [], dc_Shadow = (\<not> ev_live ev), dc_Confidence = confidence\<rparr>"

definition reputationSkip :: "evaluator \<Rightarrow> string \<Rightarrow> string \<Rightarrow> 'z io_env_scheme \<Rightarrow> string \<times> 'z io_env_scheme" where
  "reputationSkip ev ip strength w =
     (case ev_gate ev of
        None \<Rightarrow> ([], w)
      | Some g \<Rightarrow> let (d, w1) = EvaluateBan g ip strength w in
          (if de_Shadow d then [] else if \<not> de_AllowBan d then ''reputation_gate:'' @ de_Reason d else [], w1))"

definition EvaluateConfidence :: "evaluator \<Rightarrow> string \<Rightarrow> 'z io_env_scheme \<Rightarrow> ban_decision \<times> 'z io_env_scheme" where
  "EvaluateConfidence ev ip w =
     (let (t1, w1) = time_Now w; skip = guardIP ev ip t1 in
      if skip \<noteq> [] then (skipped ip skip, w1)
      else let (t2, w2) = time_Now w1 in
        if \<not> HasLocalEvidence (ev_burst ev) ip t2 then (skipped ip ''no_local_evidence'', w2)
        else if constrained (ev_quota ev (io_step w2) ''abuseipdb'') then (skipped ip ''abuseipdb_quota_constrained'', w2)
        else
          let r = ev_enricher ev (io_step w2) (ParseAddr ip); w3 = w2\<lparr>io_step := Suc (io_step w2)\<rparr> in
          case r of
            Inl e \<Rightarrow> (skipped ip (''enrichment_error: '' @ Error e), w3)
          | Inr vs \<Rightarrow>
              if abuseIPDBScore vs < 100 then (skipped ip ''confidence_below_100'', w3)
              else let (skip2, w4) = reputationSkip ev ip SignalConfirmedHostile w3 in
                if skip2 \<noteq> [] then (skipped ip skip2, w4) else (ban ev ip ''confidence_100'' (abuseIPDBScore vs), w4))"

definition EvaluateBurst :: "evaluator \<Rightarrow> string \<Rightarrow> 'z io_env_scheme \<Rightarrow> ban_decision \<times> evaluator \<times> 'z io_env_scheme" where
  "EvaluateBurst ev ip w =
     (let (t1, w1) = time_Now w; skip = guardIP ev ip t1 in
      if skip \<noteq> [] then (skipped ip skip, ev, w1)
      else let (t2, w2) = time_Now w1; (burst, c) = DetectBurst ip BurstWindow BurstThreshold t2 (ev_burst ev); ev1 = ev\<lparr>ev_burst := c\<rparr> in
        if \<not> burst then (skipped ip ''burst_below_threshold'', ev1, w2)
        else let (skip2, w3) = reputationSkip ev1 ip SignalConfirmedHostile w2 in
          if skip2 \<noteq> [] then (skipped ip skip2, ev1, w3) else (ban ev1 ip ''burst_malicious'' 0, ev1, w3))"

definition EvaluateExternalBurst :: "evaluator \<Rightarrow> string \<Rightarrow> string \<Rightarrow> 'z io_env_scheme \<Rightarrow> ban_decision \<times> 'z io_env_scheme" where
  "EvaluateExternalBurst ev ip reason w =
     (let (t1, w1) = time_Now w; skip = guardIP ev ip t1 in
      if skip \<noteq> [] then (skipped ip skip, w1) else (ban ev ip reason 0, w1))"

definition RecordBan :: "string \<Rightarrow> evaluator \<Rightarrow> 'z io_env_scheme \<Rightarrow> evaluator \<times> 'z io_env_scheme" where
  "RecordBan ip ev w = (let (now, w1) = time_Now w in (ev\<lparr>ev_dedup := MarkBannedDefaultTTL ip now (ev_dedup ev)\<rparr>, w1))"

definition RecordBanWithDuration :: "string \<Rightarrow> duration \<Rightarrow> evaluator \<Rightarrow> 'z io_env_scheme \<Rightarrow> evaluator \<times> 'z io_env_scheme" where
  "RecordBanWithDuration ip ttl ev w =
     (let (now, w1) = time_Now w in
      (ev\<lparr>ev_dedup := (if ttl \<le> 0 then MarkBannedDefaultTTL ip now (ev_dedup ev) else MarkBanned ip now ttl (ev_dedup ev))\<rparr>, w1))"

section \<open>Bursts\<close>

lemma burst_scan_iff:
  assumes "n \<le> threshold"
  shows "burst_scan threshold n end ts \<longleftrightarrow> n + length (takeWhile (\<lambda>t. t < end) ts) > threshold"
  using assms by (induction ts arbitrary: n) (auto simp: time_before_def)

lemma takeWhile_less_sorted: "sorted ts \<Longrightarrow> takeWhile (\<lambda>t. t < e) ts = filter (\<lambda>t. t < e) ts" for e :: go_time
  by (induction ts) (auto intro!: filter_False [symmetric])

definition in_window :: "go_time \<Rightarrow> duration \<Rightarrow> go_time list \<Rightarrow> nat" where
  "in_window t window ts = length (filter (\<lambda>x. t \<le> x \<and> x < t + window) ts)"

lemma burst_windows_iff:
  assumes "sorted ts" and "1 \<le> threshold"
  shows "burst_windows threshold window ts \<longleftrightarrow> (\<exists>t. in_window t window ts > threshold)"
  using assms(1)
proof (induction ts)
  case Nil
  then show ?case by (simp add: in_window_def)
next
  case (Cons x xs)
  have scan: "burst_scan threshold 1 (time_add x window) xs \<longleftrightarrow> in_window x window (x # xs) > threshold" (is "?s \<longleftrightarrow> ?n > _")
  proof -
    have "?s \<longleftrightarrow> 1 + length (filter (\<lambda>t. t < x + window) xs) > threshold"
      using Cons.prems assms(2) by (simp add: burst_scan_iff takeWhile_less_sorted time_add_def)
    moreover have "filter (\<lambda>t. t < x + window) xs = filter (\<lambda>t. x \<le> t \<and> t < x + window) xs"
      using Cons.prems by (intro filter_cong) auto
    moreover have "filter (\<lambda>t. t < x + window) xs = []" if "window \<le> 0"
      using Cons.prems that by (auto simp: filter_empty_conv)
    ultimately show ?thesis using assms(2) by (cases "window \<le> 0") (auto simp: in_window_def)
  qed
  have shift: "in_window t window (x # xs) \<le> in_window x window (x # xs) \<or> in_window t window (x # xs) = in_window t window xs" for t
  proof (cases "t \<le> x \<and> x < t + window")
    case True
    have "filter (\<lambda>y. t \<le> y \<and> y < t + window) (x # xs) = filter (\<lambda>y. t \<le> y \<and> y < t + window) (filter (\<lambda>y. x \<le> y \<and> y < x + window) (x # xs))"
      using True Cons.prems by (auto simp: filter_filter intro!: filter_cong)
    then show ?thesis unfolding in_window_def by (metis length_filter_le)
  next
    case False
    then show ?thesis by (auto simp: in_window_def)
  qed
  have mono: "in_window t window xs \<le> in_window t window (x # xs)" for t by (simp add: in_window_def)
  have "(\<exists>t. in_window t window (x # xs) > threshold) \<longleftrightarrow> in_window x window (x # xs) > threshold \<or> (\<exists>t. in_window t window xs > threshold)"
    using shift mono by (metis less_le_trans)
  then show ?case using scan Cons by simp
qed

lemma in_window_sort [simp]: "in_window t window (sort ts) = in_window t window ts"
  unfolding in_window_def by (metis mset_filter mset_sort size_mset)

lemma DetectBurst_exact:
  assumes "1 \<le> threshold" and "DetectBurst ip window threshold now c = (r, c')"
  shows "(r \<longleftrightarrow> (\<exists>t. in_window t window (filter (\<lambda>x. x > now - burstPruneLookback) (bc_events c ip)) > threshold)) \<and>
    mset (bc_events c' ip) = mset (filter (\<lambda>x. x > now - burstPruneLookback) (bc_events c ip)) \<and>
    (\<forall>other. other \<noteq> ip \<longrightarrow> bc_events c' other = bc_events c other)"
proof -
  let ?ts = "filter (\<lambda>x. x > now - burstPruneLookback) (bc_events c ip)"
  have le: "in_window t window ?ts \<le> length ?ts" for t unfolding in_window_def by (rule length_filter_le)
  show ?thesis
  proof (cases "length ?ts \<le> threshold")
    case True
    then show ?thesis using assms(2) le by (auto simp: DetectBurst_def time_add_def time_after_def Let_def not_less intro: order_trans)
  next
    case False
    then show ?thesis using assms(2) burst_windows_iff [of "sort ?ts" threshold window] assms(1)
      by (auto simp: DetectBurst_def time_add_def time_after_def Let_def)
  qed
qed

text \<open>
  C35: burst detection is exact. For any threshold of at least one, \<open>DetectBurst\<close> says yes exactly when some
  interval of the given length holds more events of the address than the threshold, among the events
  younger than the lookback, wherever the interval lies; and it forgets exactly the older events.
\<close>

theorem burst_detection_exact:
  assumes "1 \<le> threshold" and "DetectBurst ip window threshold now c = (r, c')"
  shows "(r \<longleftrightarrow> (\<exists>t. in_window t window (filter (\<lambda>x. x > now - burstPruneLookback) (bc_events c ip)) > threshold)) \<and>
    mset (bc_events c' ip) = mset (filter (\<lambda>x. x > now - burstPruneLookback) (bc_events c ip)) \<and>
    (\<forall>other. other \<noteq> ip \<longrightarrow> bc_events c' other = bc_events c other)"
  using assms by (rule DetectBurst_exact)

theorem burst_detection_exact_witness:
  "fst (DetectBurst ''192.0.2.1'' 10 1 100 (NewBurstCounter\<lparr>bc_events := (\<lambda>_. [50, 90, 55])\<rparr>))"
proof -
  let ?c = "NewBurstCounter\<lparr>bc_events := (\<lambda>_. [50, 90, 55])\<rparr>"
  obtain r c' where d: "DetectBurst ''192.0.2.1'' 10 1 100 ?c = (r, c')" by (cases "DetectBurst ''192.0.2.1'' 10 1 100 ?c")
  have "in_window 50 10 (filter (\<lambda>x. x > 100 - burstPruneLookback) (bc_events ?c ''192.0.2.1'')) > 1"
    by (simp add: in_window_def burstPruneLookback_def Minute_def)
  then show ?thesis using burst_detection_exact [OF _ d] d by auto
qed

section \<open>The guards\<close>

text \<open>An address text that the guard lets through, the gate's consent at the \<open>n\<close>-th call, and what the
  three rules need beside it.\<close>

definition eligible :: "evaluator \<Rightarrow> string \<Rightarrow> go_time \<Rightarrow> bool" where
  "eligible ev ip now \<longleftrightarrow> (\<exists>a. ParseAddr (TrimSpace ip) = Some a \<and> IsGlobalUnicast a \<and> \<not> IsPrivate a) \<and>
     (\<forall>r. ev_trust ev = Some r \<longrightarrow> MatchIP r ip = []) \<and> (\<forall>r. bd_bans (ev_dedup ev) ip = Some r \<longrightarrow> br_at r + br_ttl r \<le> now)"

definition gate_consents :: "evaluator \<Rightarrow> string \<Rightarrow> 'z io_env_scheme \<Rightarrow> bool" where
  "gate_consents ev ip w \<longleftrightarrow> (\<forall>g. ev_gate ev = Some g \<longrightarrow> po_Mode (ga_Policy g) = ModeEnforce \<longrightarrow>
     (\<exists>n. de_AllowBan (fst (EvaluateBan g ip SignalConfirmedHostile (w\<lparr>io_step := n\<rparr>)))))"

lemma guardIP_iff: "guardIP ev ip now = [] \<longleftrightarrow> eligible ev ip now"
  by (auto simp: guardIP_def eligible_def AlreadyBanned_def time_before_def time_add_def not_less split: option.splits)

lemma reputationSkip_consents:
  assumes "reputationSkip ev ip SignalConfirmedHostile (w\<lparr>io_step := n\<rparr>) = ([], w')"
  shows "gate_consents ev ip w"
proof (unfold gate_consents_def, intro allI impI)
  fix g assume g: "ev_gate ev = Some g" "po_Mode (ga_Policy g) = ModeEnforce"
  let ?r = "EvaluateBan g ip SignalConfirmedHostile (w\<lparr>io_step := n\<rparr>)"
  have "\<not> de_Shadow (fst ?r)" using g(2) by (simp add: EvaluateBan_def Evaluate_shadow split_beta)
  then have "de_AllowBan (fst ?r)" using assms g(1) by (auto simp: reputationSkip_def split_beta split: if_splits)
  then show "\<exists>n. de_AllowBan (fst (EvaluateBan g ip SignalConfirmedHostile (w\<lparr>io_step := n\<rparr>)))" by blast
qed

lemma decision_simps [simp]:
  "dc_ShouldBan (skipped ip r) = False" "dc_ShouldBan (ban ev ip r c)" "dc_Shadow (ban ev ip r c) = (\<not> ev_live ev)"
  "dc_Reason (ban ev ip r c) = r" "dc_Confidence (ban ev ip r c) = c"
  by (simp_all add: skipped_def ban_def)

lemma confidence_guarded:
  fixes w :: "'z io_env_scheme"
  assumes "dc_ShouldBan (fst (EvaluateConfidence ev ip w))"
  shows "eligible ev ip (io_clock w (io_step w)) \<and> dc_Shadow (fst (EvaluateConfidence ev ip w)) = (\<not> ev_live ev) \<and>
      HasLocalEvidence (ev_burst ev) ip (io_clock w (Suc (io_step w))) \<and>
      \<not> constrained (ev_quota ev (io_step w + 2) ''abuseipdb'') \<and> dc_Confidence (fst (EvaluateConfidence ev ip w)) \<ge> 100 \<and> gate_consents ev ip w"
proof -
  let ?r = "reputationSkip ev ip SignalConfirmedHostile (w\<lparr>io_step := Suc (Suc (Suc (io_step w)))\<rparr>)"
  from assms have all: "eligible ev ip (io_clock w (io_step w)) \<and> dc_Shadow (fst (EvaluateConfidence ev ip w)) = (\<not> ev_live ev) \<and>
      HasLocalEvidence (ev_burst ev) ip (io_clock w (Suc (io_step w))) \<and>
      \<not> constrained (ev_quota ev (io_step w + 2) ''abuseipdb'') \<and> dc_Confidence (fst (EvaluateConfidence ev ip w)) \<ge> 100 \<and> fst ?r = []"
    by (auto simp: EvaluateConfidence_def time_Now_def Let_def split_beta guardIP_iff split: if_splits sum.splits)
  then have "?r = ([], snd ?r)" by (simp add: prod_eq_iff)
  then show ?thesis using all reputationSkip_consents by blast
qed

lemma burst_guarded:
  fixes w :: "'z io_env_scheme"
  assumes "dc_ShouldBan (fst (EvaluateBurst ev ip w))"
  shows "eligible ev ip (io_clock w (io_step w)) \<and> dc_Shadow (fst (EvaluateBurst ev ip w)) = (\<not> ev_live ev) \<and>
      (\<exists>t. in_window t (30 * Second) (bc_events (ev_burst ev) ip) > 30) \<and> gate_consents ev ip w"
proof -
  let ?t2 = "io_clock w (Suc (io_step w))"
  let ?d = "DetectBurst ip BurstWindow BurstThreshold ?t2 (ev_burst ev)"
  obtain r c where d: "?d = (r, c)" by (cases ?d)
  let ?r = "reputationSkip (ev\<lparr>ev_burst := c\<rparr>) ip SignalConfirmedHostile (w\<lparr>io_step := Suc (Suc (io_step w))\<rparr>)"
  have all: "eligible ev ip (io_clock w (io_step w)) \<and> dc_Shadow (fst (EvaluateBurst ev ip w)) = (\<not> ev_live ev) \<and> r \<and> fst ?r = []"
    using assms d by (auto simp: EvaluateBurst_def time_Now_def Let_def split_beta guardIP_iff split: if_splits)
  from all DetectBurst_exact [OF _ d] obtain t where
    "in_window t BurstWindow (filter (\<lambda>x. x > ?t2 - burstPruneLookback) (bc_events (ev_burst ev) ip)) > BurstThreshold"
    by (auto simp: BurstThreshold_def)
  moreover have "in_window t BurstWindow (filter P ts) \<le> in_window t BurstWindow ts" for P ts
    unfolding in_window_def by (induction ts) auto
  ultimately have "\<exists>t. in_window t (30 * Second) (bc_events (ev_burst ev) ip) > 30"
    unfolding BurstThreshold_def BurstWindow_def by (metis less_le_trans)
  moreover have "?r = ([], snd ?r)" using all by (simp add: prod_eq_iff)
  then have "gate_consents (ev\<lparr>ev_burst := c\<rparr>) ip w" by (rule reputationSkip_consents)
  then have "gate_consents ev ip w" by (simp add: gate_consents_def)
  ultimately show ?thesis using all by blast
qed


definition live_evaluator :: evaluator where
  "live_evaluator = NewEvaluator True (Some DefaultRegistry) (\<lambda>_ _. Inr []) (\<lambda>_ _. None)"

lemma trim_samples: "TrimSpace ''198.51.100.7'' = ''198.51.100.7''" "TrimSpace ''::ffff:104.18.32.7'' = ''::ffff:104.18.32.7''"
  by (simp_all add: TrimSpace_visible)

lemma live_guard:
  assumes "ParseAddr (TrimSpace ip) = Some a" and "IsGlobalUnicast a" and "\<not> IsPrivate a" and "MatchIP DefaultRegistry ip = []"
  shows "guardIP live_evaluator ip now = []"
  using assms by (simp add: guardIP_def live_evaluator_def NewEvaluator_def NewBanDedup_def AlreadyBanned_def)

lemma sample_public: "IsGlobalUnicast (Addr4 0xC6336407)" "\<not> IsPrivate (Addr4 0xC6336407)"
  by (simp_all add: IsGlobalUnicast_def IsPrivate_def IsLoopback_def IsMulticast_def IsLinkLocalUnicast_def Unmap_def same_prefix_def
      net_mask_def mask_eq_exp_minus_1)

lemma sample_unprotected: "ParseAddr ''198.51.100.7'' = Some (Addr4 0xC6336407)" "MatchIP DefaultRegistry ''198.51.100.7'' = []"
proof -
  show parse: "ParseAddr ''198.51.100.7'' = Some (Addr4 0xC6336407)" by (simp add: parse_eval)
  have "\<forall>p \<in> set (map fst (tr_prefixes DefaultRegistry)). \<not> prefix_Contains p (Addr4 0xC6336407)"
    unfolding default_prefixes by (simp add: prefix_Contains_def same_prefix_def net_mask_def mask_eq_exp_minus_1)
  then show "MatchIP DefaultRegistry ''198.51.100.7'' = []" using MatchIP_nonempty_iff [of DefaultRegistry "''198.51.100.7''"] parse by auto
qed


text \<open>
  An IPv4 address written in its mapped form escapes the trust registry. If a text denotes the mapped form
  of a public address, then the guard lets it through and every external burst bans it, also when the
  default registry protects the address itself and the shield of the synchronisation protects the text.
\<close>

theorem mapped_form_escapes_guard:
  fixes w :: "'z io_env_scheme"
  assumes "ParseAddr ip = Some (Addr6 (mapped a) [])" and "TrimSpace ip = ip"
    and "IsGlobalUnicast (Addr6 (mapped a) [])" and "\<not> IsPrivate (Addr6 (mapped a) [])"
    and "ev_trust ev = Some DefaultRegistry" and "\<not> AlreadyBanned (ev_dedup ev) ip (io_clock w (io_step w))"
    and "p \<in> set (map fst (tr_prefixes DefaultRegistry))" and "prefix_Contains p (Addr4 a)"
  shows "dc_ShouldBan (fst (EvaluateExternalBurst ev ip reason w)) \<and> IsProtected (newWithRunner reported ifaces) ip"
proof
  have "guardIP ev ip (io_clock w (io_step w)) = []"
    using assms(1-6) registry_escapes_mapped [OF assms(1)] by (simp add: guardIP_def)
  then show "dc_ShouldBan (fst (EvaluateExternalBurst ev ip reason w))" by (simp add: EvaluateExternalBurst_def time_Now_def)
  have "net_of_prefix p \<in> set (newWithRunner reported ifaces)"
    using registry_in_shield [OF assms(7)] by (auto simp: newWithRunner_def addOwnIPs_def split: option.split)
  moreover have "net_Contains (net_of_prefix p) (mapped a)"
    using assms(8) by (cases p; cases "fst p") (auto simp: prefix_Contains_def net_of_prefix_def net_Contains_def)
  ultimately show "IsProtected (newWithRunner reported ifaces) ip" using assms(1) by (auto simp: IsProtected_def ParseIP_def)
qed

theorem mapped_form_escapes_guard_witness:
  "dc_ShouldBan (fst (EvaluateExternalBurst live_evaluator ''::ffff:104.18.32.7'' ''http_error_burst'' gate_world)) \<and>
   IsProtected (newWithRunner None None) ''::ffff:104.18.32.7''"
proof (rule mapped_form_escapes_guard [where a = "0x68122007" and p = "(Addr4 0x68100000, 13)"])
  have m: "mapped 0x68122007 = 0xFFFF68122007" by (simp add: mapped_def mask_eq_exp_minus_1)
  show "ParseAddr ''::ffff:104.18.32.7'' = Some (Addr6 (mapped 0x68122007) [])" unfolding m by (simp add: parse_eval)
  show "IsGlobalUnicast (Addr6 (mapped 0x68122007) [])" "\<not> IsPrivate (Addr6 (mapped 0x68122007) [])"
    by (simp_all add: IsGlobalUnicast_def IsPrivate_def IsLoopback_def IsMulticast_def IsLinkLocalUnicast_def Unmap_def same_prefix_def
        net_mask_def mask_eq_exp_minus_1) (simp add: m)
  show "(Addr4 0x68100000, 13) \<in> set (map fst (tr_prefixes DefaultRegistry))" unfolding default_prefixes by simp
  show "prefix_Contains (Addr4 0x68100000, 13) (Addr4 0x68122007)"
    by (simp add: prefix_Contains_def same_prefix_def net_mask_def mask_eq_exp_minus_1)
qed (simp_all add: trim_samples live_evaluator_def NewEvaluator_def NewBanDedup_def AlreadyBanned_def)

end
