(* ===== verification/Ban_Lifecycle.thy ===== *)
theory Ban_Lifecycle
  imports Autoban Sqlite_Db "HOL-Library.Product_Lexorder"
begin

text \<open>
  The life of an automatic ban: the duration policy of \<open>internal/cloudflare/banlifecycle\<close>, its store in
  \<open>internal/storage/sqlite/ban_lifecycle.go\<close>, the worker of \<open>internal/cloudflare/banlifecycle/cleanup\<close> that
  removes the rules of expired bans, and the executor of \<open>cmd/cf-sync\<close> that creates them. The
  Cloudflare client is a parameter, a function of the number of the call; the rules it is told to
  delete, the entries that were audited and the rules it was asked to add are recorded. Columns that
  no query reads (\<open>status_note\<close>, \<open>updated_at\<close>) and the logs are left out.
\<close>

section \<open>Durations\<close>

definition MaxBanDuration :: duration where "MaxBanDuration = 24 * Hour"

record duration_policy =
  dp_First :: duration
  dp_Second :: duration
  dp_ThirdPlus :: duration

definition DefaultDurationPolicy :: duration_policy where
  "DefaultDurationPolicy = \<lparr>dp_First = Hour, dp_Second = 6 * Hour, dp_ThirdPlus = 24 * Hour\<rparr>"

definition DurationFor :: "duration_policy \<Rightarrow> int \<Rightarrow> duration" where
  "DurationFor p level =
     (let d = (if level \<le> 1 then dp_First p else if level = 2 then dp_Second p else dp_ThirdPlus p)
      in if d > MaxBanDuration then MaxBanDuration else d)"

section \<open>The store\<close>

definition BanActive :: string where "BanActive = ''active''"
definition BanExpiredCleaned :: string where "BanExpiredCleaned = ''expired_cleaned''"
definition BanAutoDebanned :: string where "BanAutoDebanned = ''auto_debanned''"
definition BanManualOverride :: string where "BanManualOverride = ''manual_override''"
definition BanOperatorDebanned :: string where "BanOperatorDebanned = ''operator_debanned''"

record ban_entry =
  be_IP :: string
  be_Source :: string
  be_Reason :: string
  be_Confidence :: int
  be_CreatedAt :: go_time
  be_ExpiresAt :: go_time
  be_Duration :: duration
  be_RuleID :: string
  be_EvidenceID :: string
  be_RecidiveLevel :: int
  be_Status :: string
  be_CleanupAttempts :: int
  be_LastCleanupError :: string
  be_LastCleanupAttemptAt :: go_time

type_synonym ban_row = "int \<times> ban_entry"

record ban_env = db_env +
  bl_Rows :: "ban_row list"
  bl_NextID :: int
  bl_Deletes :: "string list"
  bl_Audits :: "(ban_entry \<times> string) list"
  bl_Evidence :: "(ban_entry \<times> string) list"
  bl_Adds :: "(string \<times> string) list"

text \<open>The order \<open>created_at ASC, id ASC\<close>, and the newest row of an address.\<close>

definition row_key :: "ban_row \<Rightarrow> go_time \<times> int" where
  "row_key r = (be_CreatedAt (snd r), fst r)"

definition rows_of :: "string \<Rightarrow> ban_row list \<Rightarrow> ban_row list" where
  "rows_of ip rows = filter (\<lambda>r. be_IP (snd r) = ip) rows"

definition newest_row :: "string \<Rightarrow> ban_row list \<Rightarrow> ban_row option" where
  "newest_row ip rows = (case rev (sort_key row_key (rows_of ip rows)) of [] \<Rightarrow> None | r # _ \<Rightarrow> Some r)"

definition update_row :: "int \<Rightarrow> (ban_entry \<Rightarrow> ban_entry) \<Rightarrow> ban_row list \<Rightarrow> ban_row list" where
  "update_row i f rows = map (\<lambda>(j, e). (j, if j = i then f e else e)) rows"

definition is_active :: "ban_row \<Rightarrow> bool" where
  "is_active r \<longleftrightarrow> be_Status (snd r) = BanActive"

definition overwrite_entry :: "ban_entry \<Rightarrow> ban_entry \<Rightarrow> ban_entry" where
  "overwrite_entry e old = e\<lparr>be_IP := be_IP old, be_CleanupAttempts := be_CleanupAttempts old,
     be_LastCleanupError := be_LastCleanupError old, be_LastCleanupAttemptAt := be_LastCleanupAttemptAt old\<rparr>"

definition inserted_entry :: "ban_entry \<Rightarrow> ban_entry" where
  "inserted_entry e = e\<lparr>be_CleanupAttempts := 0, be_LastCleanupError := [], be_LastCleanupAttemptAt := 0\<rparr>"

definition ban_Upsert :: "ban_entry \<Rightarrow> 'z ban_env_scheme \<Rightarrow> unit result \<times> 'z ban_env_scheme" where
  "ban_Upsert e w =
     (let op = ''storage.sqlite.BanLifecycleStore.Upsert'' in
      writable op w (\<lambda>w0.
        let e1 = (if be_Status e = [] then e\<lparr>be_Status := BanActive\<rparr> else e);
            (e2, w1) = (if time_is_zero (be_CreatedAt e1) then let (now, w1) = time_Now w0 in (e1\<lparr>be_CreatedAt := now\<rparr>, w1) else (e1, w0))
        in and_then op (io_call w1) (\<lambda>_ w2.
           case find (\<lambda>r. be_IP (snd r) = be_IP e2 \<and> is_active r) (bl_Rows w2) of
             Some r \<Rightarrow> and_then op (io_call w2) (\<lambda>_ w3. (Inr (), w3\<lparr>bl_Rows := update_row (fst r) (overwrite_entry e2) (bl_Rows w3)\<rparr>))
           | None \<Rightarrow> and_then op (io_call w2) (\<lambda>_ w3.
               (Inr (), w3\<lparr>bl_Rows := bl_Rows w3 @ [(bl_NextID w3, inserted_entry e2)], bl_NextID := bl_NextID w3 + 1\<rparr>)))))"

definition ban_Get :: "string \<Rightarrow> 'z ban_env_scheme \<Rightarrow> ban_entry option result \<times> 'z ban_env_scheme" where
  "ban_Get ip w = and_then ''storage.sqlite.BanLifecycleStore.Get'' (io_call w) (\<lambda>_ w1. (Inr (map_option snd (newest_row ip (bl_Rows w1))), w1))"

definition ban_Active :: "'z ban_env_scheme \<Rightarrow> ban_entry list result \<times> 'z ban_env_scheme" where
  "ban_Active w = and_then ''storage.sqlite.BanLifecycleStore.Active'' (io_call w) (\<lambda>_ w1.
     (Inr (map snd (rev (sort_key row_key (filter is_active (bl_Rows w1))))), w1))"

definition ban_Expired :: "go_time \<Rightarrow> 'z ban_env_scheme \<Rightarrow> ban_entry list result \<times> 'z ban_env_scheme" where
  "ban_Expired now w = and_then ''storage.sqlite.BanLifecycleStore.Expired'' (io_call w) (\<lambda>_ w1.
     (Inr (map snd (sort_key row_key (filter (\<lambda>r. is_active r \<and> be_ExpiresAt (snd r) \<le> now) (bl_Rows w1)))), w1))"

definition ban_Recent :: "int \<Rightarrow> 'z ban_env_scheme \<Rightarrow> ban_entry list result \<times> 'z ban_env_scheme" where
  "ban_Recent limit w = and_then ''storage.sqlite.BanLifecycleStore.Recent'' (io_call w) (\<lambda>_ w1.
     (Inr (take (nat (if limit \<le> 0 then 100 else limit)) (map snd (rev (sort_key row_key (bl_Rows w1))))), w1))"

text \<open>Setting a row active again when another row of the address is violates the partial unique index.\<close>

definition ban_MarkStatus :: "string \<Rightarrow> string \<Rightarrow> 'z ban_env_scheme \<Rightarrow> unit result \<times> 'z ban_env_scheme" where
  "ban_MarkStatus ip status w =
     (let op = ''storage.sqlite.BanLifecycleStore.MarkStatus'' in
      writable op w (\<lambda>w0. and_then op (io_call w0) (\<lambda>_ w1.
        case newest_row ip (bl_Rows w1) of
          None \<Rightarrow> (Inr (), w1)
        | Some r \<Rightarrow> and_then op (io_call w1) (\<lambda>_ w2.
            if status = BanActive \<and> (\<exists>q \<in> set (bl_Rows w2). be_IP (snd q) = ip \<and> is_active q \<and> fst q \<noteq> fst r)
            then (Inl (wrap_err op unique_violation), w2)
            else (Inr (), w2\<lparr>bl_Rows := update_row (fst r) (\<lambda>e. e\<lparr>be_Status := status\<rparr>) (bl_Rows w2)\<rparr>)))))"

text \<open>\<open>CURRENT_TIMESTAMP\<close> has whole seconds.\<close>

definition ban_RecordCleanupFailure :: "string \<Rightarrow> string \<Rightarrow> 'z ban_env_scheme \<Rightarrow> unit result \<times> 'z ban_env_scheme" where
  "ban_RecordCleanupFailure ip errMsg w =
     (let op = ''storage.sqlite.BanLifecycleStore.RecordCleanupFailure'' in
      writable op w (\<lambda>w0. and_then op (io_call w0) (\<lambda>_ w1.
        case newest_row ip (bl_Rows w1) of
          None \<Rightarrow> (Inr (), w1)
        | Some r \<Rightarrow> and_then op (io_call w1) (\<lambda>_ w2.
            let (now, w3) = time_Now w2 in
            (Inr (), w3\<lparr>bl_Rows := update_row (fst r) (\<lambda>e. e\<lparr>be_CleanupAttempts := be_CleanupAttempts e + 1, be_LastCleanupError := errMsg,
               be_LastCleanupAttemptAt := now - now mod Second\<rparr>) (bl_Rows w3)\<rparr>)))))"

definition ban_RecidiveLevel :: "string \<Rightarrow> 'z ban_env_scheme \<Rightarrow> int result \<times> 'z ban_env_scheme" where
  "ban_RecidiveLevel ip w = and_then ''storage.sqlite.BanLifecycleStore.RecidiveLevel'' (io_call w) (\<lambda>_ w1.
     (Inr (int (length (filter (\<lambda>r. \<not> is_active r) (rows_of ip (bl_Rows w1))))), w1))"

section \<open>The cleanup worker\<close>

definition AutobanNotePrefix :: string where "AutobanNotePrefix = ''cf-sync:autoban:''"

record cf_rule =
  cf_ID :: string
  cf_Notes :: string
  cf_IP :: string

record cf_client =
  cc_ListAutobanRules :: "nat \<Rightarrow> cf_rule list result"
  cc_DeleteIPAccessRule :: "nat \<Rightarrow> string \<Rightarrow> unit result"

record cleanup_worker =
  cw_CF :: "cf_client option"
  cw_Audit :: bool
  cw_Evidence :: bool

definition matchRuleByNote :: "cf_rule list \<Rightarrow> string \<Rightarrow> string" where
  "matchRuleByNote rules ip =
     (case find (\<lambda>r. cf_IP r = ip \<and> HasPrefix (cf_Notes r) AutobanNotePrefix) rules of Some r \<Rightarrow> cf_ID r | None \<Rightarrow> [])"

definition isNotFound :: "error \<Rightarrow> bool" where
  "isNotFound e \<longleftrightarrow> (let msg = lower_text (Error e) in Contains msg ''404'' \<or> Contains msg ''not found'' \<or> Contains msg ''could not find'')"

text \<open>The closure \<open>loadRules\<close> with its cache.\<close>

definition load_rules :: "cleanup_worker \<Rightarrow> cf_rule list option \<Rightarrow> 'z ban_env_scheme \<Rightarrow> cf_rule list result \<times> cf_rule list option \<times> 'z ban_env_scheme" where
  "load_rules wk cache w =
     (case cache of
        Some rules \<Rightarrow> (Inr rules, cache, w)
      | None \<Rightarrow>
          case cw_CF wk of
            None \<Rightarrow> (Inr [], Some [], w)
          | Some cf \<Rightarrow> let w1 = w\<lparr>io_step := Suc (io_step w)\<rparr> in
              case cc_ListAutobanRules cf (io_step w) of Inl e \<Rightarrow> (Inl e, None, w1) | Inr rules \<Rightarrow> (Inr rules, Some rules, w1))"

definition cf_delete :: "cf_client \<Rightarrow> string \<Rightarrow> 'z ban_env_scheme \<Rightarrow> unit result \<times> 'z ban_env_scheme" where
  "cf_delete cf ruleID w =
     (cc_DeleteIPAccessRule cf (io_step w) ruleID, w\<lparr>io_step := Suc (io_step w), bl_Deletes := bl_Deletes w @ [ruleID]\<rparr>)"

definition recordCleanupFailure :: "string \<Rightarrow> error \<Rightarrow> 'z ban_env_scheme \<Rightarrow> 'z ban_env_scheme" where
  "recordCleanupFailure ip e w = snd (ban_RecordCleanupFailure ip (Error e) w)"

text \<open>Failures of the two sinks are only logged.\<close>

definition record_audit :: "cleanup_worker \<Rightarrow> ban_entry \<Rightarrow> string \<Rightarrow> 'z ban_env_scheme \<Rightarrow> 'z ban_env_scheme" where
  "record_audit wk e reason w =
     (let w1 = (if cw_Audit wk then case io_call w of (Inl _, v) \<Rightarrow> v | (Inr _, v) \<Rightarrow> v\<lparr>bl_Audits := bl_Audits v @ [(e, reason)]\<rparr> else w)
      in if cw_Evidence wk then case io_call w1 of (Inl _, v) \<Rightarrow> v | (Inr _, v) \<Rightarrow> v\<lparr>bl_Evidence := bl_Evidence v @ [(e, reason)]\<rparr> else w1)"

definition finishCleanup :: "cleanup_worker \<Rightarrow> ban_entry \<Rightarrow> string \<Rightarrow> string \<Rightarrow> 'z ban_env_scheme \<Rightarrow> unit result \<times> 'z ban_env_scheme" where
  "finishCleanup wk entry status reason w =
     (case ban_MarkStatus (be_IP entry) status w of
        (Inl e, w1) \<Rightarrow> (Inl (Errorf (''mark status: '' @ Error e) e), w1)
      | (Inr _, w1) \<Rightarrow> (Inr (), record_audit wk (entry\<lparr>be_Status := status\<rparr>) reason w1))"

definition delete_and_finish :: "cleanup_worker \<Rightarrow> ban_entry \<Rightarrow> string \<Rightarrow> string \<Rightarrow> string \<Rightarrow> 'z ban_env_scheme \<Rightarrow> unit result \<times> 'z ban_env_scheme" where
  "delete_and_finish wk entry status reason ruleID w =
     (let (dr, w1) = (case cw_CF wk of Some cf \<Rightarrow> if ruleID \<noteq> [] then cf_delete cf ruleID w else (Inr (), w) | None \<Rightarrow> (Inr (), w)) in
      case dr of
        Inl e \<Rightarrow>
          if \<not> isNotFound e then
            let failErr = Errorf (''delete rule '' @ ruleID @ '': '' @ Error e) e
            in (Inl failErr, recordCleanupFailure (be_IP entry) failErr w1)
          else finishCleanup wk entry status reason w1
      | Inr _ \<Rightarrow> finishCleanup wk entry status reason w1)"

definition deleteRuleAndFinish :: "cleanup_worker \<Rightarrow> ban_entry \<Rightarrow> string \<Rightarrow> string \<Rightarrow> cf_rule list option \<Rightarrow> 'z ban_env_scheme \<Rightarrow>
    unit result \<times> cf_rule list option \<times> 'z ban_env_scheme" where
  "deleteRuleAndFinish wk entry status reason cache w =
     (let (rr, cache1, w1) =
        (if be_RuleID entry = [] then
           case load_rules wk cache w of
             (Inl e, c, v) \<Rightarrow> (Inl (Errorf (''list autoban rules: '' @ Error e) e), c, v)
           | (Inr rules, c, v) \<Rightarrow> (Inr (matchRuleByNote rules (be_IP entry)), c, v)
         else (Inr (be_RuleID entry), cache, w))
      in case rr of
           Inl e \<Rightarrow> (Inl e, cache1, recordCleanupFailure (be_IP entry) e w1)
         | Inr ruleID \<Rightarrow> let (r, w2) = delete_and_finish wk entry status reason ruleID w1 in (r, cache1, w2))"

text \<open>\<open>time.Duration.String\<close>.\<close>

definition fraction_text :: "nat \<Rightarrow> nat \<Rightarrow> string" where
  "fraction_text digits v = (let t = strip_zeros (pad_nat digits v) in if v = 0 then [] else CHR ''.'' # t)"

definition duration_String :: "duration \<Rightarrow> string" where
  "duration_String d =
     (let u = nat \<bar>d\<bar>; sign = (if d < 0 then ''-'' else []) in
      if d = 0 then ''0s''
      else if u < 1000 then sign @ show_nat u @ ''ns''
      else if u < 1000000 then sign @ show_nat (u div 1000) @ fraction_text 3 (u mod 1000) @ map char_of [0xC2, 0xB5 :: nat] @ ''s''
      else if u < 1000000000 then sign @ show_nat (u div 1000000) @ fraction_text 6 (u mod 1000000) @ ''ms''
      else let s = u div 1000000000; m = s div 60; h = m div 60;
               secs = show_nat (s mod 60) @ fraction_text 9 (u mod 1000000000) @ ''s'' in
        sign @ (if h = 0 then [] else show_nat h @ ''h'') @ (if m = 0 then [] else show_nat (m mod 60) @ ''m'') @ secs)"

definition RFC3339 :: "go_time \<Rightarrow> string" where
  "RFC3339 t = RFC3339Nano (t - t mod Second)"

definition cleanupOne :: "cleanup_worker \<Rightarrow> ban_entry \<Rightarrow> cf_rule list option \<Rightarrow> 'z ban_env_scheme \<Rightarrow> unit result \<times> cf_rule list option \<times> 'z ban_env_scheme" where
  "cleanupOne wk entry cache w =
     deleteRuleAndFinish wk entry BanExpiredCleaned
       (''ban expired at '' @ RFC3339 (be_ExpiresAt entry) @ '' (duration='' @ duration_String (be_Duration entry) @ '', recidive_level='' @
        show_int (be_RecidiveLevel entry) @ '')'') cache w"

text \<open>The loop of \<open>Run\<close>; the error of one entry is logged.\<close>

fun cleanup_entries :: "cleanup_worker \<Rightarrow> ban_entry list \<Rightarrow> cf_rule list option \<Rightarrow> 'z ban_env_scheme \<Rightarrow> 'z ban_env_scheme" where
  "cleanup_entries wk [] cache w = w"
| "cleanup_entries wk (e # es) cache w = (let (_, cache1, w1) = cleanupOne wk e cache w in cleanup_entries wk es cache1 w1)"

definition cleanup_Run :: "cleanup_worker \<Rightarrow> 'z ban_env_scheme \<Rightarrow> unit result \<times> 'z ban_env_scheme" where
  "cleanup_Run wk w =
     (let (now, w1) = time_Now w in
      case ban_Expired now w1 of
        (Inl e, w2) \<Rightarrow> (Inl (Errorf (''banlifecycle/cleanup: Store.Expired: '' @ Error e) e), w2)
      | (Inr es, w2) \<Rightarrow> (Inr (), cleanup_entries wk es None w2))"

definition DebanOne :: "cleanup_worker \<Rightarrow> string \<Rightarrow> string \<Rightarrow> 'z ban_env_scheme \<Rightarrow> ban_entry result \<times> 'z ban_env_scheme" where
  "DebanOne wk ip reason w =
     (case ban_Get ip w of
        (Inl e, w1) \<Rightarrow> (Inl (Errorf (''get entry for '' @ ip @ '': '' @ Error e) e), w1)
      | (Inr None, w1) \<Rightarrow> (Inl (Plain (''no tracked ban lifecycle entry for '' @ ip)), w1)
      | (Inr (Some entry), w1) \<Rightarrow>
          let reason1 = (if reason = [] then ''operator-initiated deban'' else reason);
              (r, _, w2) = deleteRuleAndFinish wk entry BanOperatorDebanned reason1 None w1
          in case r of Inl e \<Rightarrow> (Inl e, w2) | Inr _ \<Rightarrow> (Inr (entry\<lparr>be_Status := BanOperatorDebanned\<rparr>), w2))"

record clear_result =
  cl_Attempted :: nat
  cl_Deleted :: nat
  cl_Failed :: nat
  cl_Errors :: "string list"

text \<open>The loop of \<open>ClearAll\<close>; the pause between two deletions has no effect. A cancelled context ends it.\<close>

fun clear_entries :: "cleanup_worker \<Rightarrow> string \<Rightarrow> ban_entry list \<Rightarrow> clear_result \<Rightarrow> 'z ban_env_scheme \<Rightarrow> clear_result \<times> 'z ban_env_scheme" where
  "clear_entries wk reason [] res w = (res, w)"
| "clear_entries wk reason (e # es) res w =
     (case io_call w of
        (Inl err, w1) \<Rightarrow> (res\<lparr>cl_Failed := cl_Failed res + length (e # es), cl_Errors := cl_Errors res @ [be_IP e @ '': '' @ Error err]\<rparr>, w1)
      | (Inr _, w1) \<Rightarrow>
          case DebanOne wk (be_IP e) reason w1 of
            (Inl err, w2) \<Rightarrow> clear_entries wk reason es (res\<lparr>cl_Failed := cl_Failed res + 1, cl_Errors := cl_Errors res @ [be_IP e @ '': '' @ Error err]\<rparr>) w2
          | (Inr _, w2) \<Rightarrow> clear_entries wk reason es (res\<lparr>cl_Deleted := cl_Deleted res + 1\<rparr>) w2)"

definition ClearAll :: "cleanup_worker \<Rightarrow> string \<Rightarrow> 'z ban_env_scheme \<Rightarrow> clear_result result \<times> 'z ban_env_scheme" where
  "ClearAll wk reason w =
     (case ban_Active w of
        (Inl e, w1) \<Rightarrow> (Inl (Errorf (''banlifecycle/cleanup: Store.Active: '' @ Error e) e), w1)
      | (Inr active, w1) \<Rightarrow>
          let reason1 = (if reason = [] then ''operator-initiated bulk clear'' else reason);
              (res, w2) = clear_entries wk reason1 active \<lparr>cl_Attempted = length active, cl_Deleted = 0, cl_Failed = 0, cl_Errors = []\<rparr> w1
          in (Inr res, w2))"

section \<open>Executing a ban\<close>

record access_rule =
  ar_ID :: string
  ar_Value :: string
  ar_CreatedOn :: go_time

record ban_executor =
  bx_AddIPAccessRule :: "nat \<Rightarrow> string \<Rightarrow> string \<Rightarrow> string result"
  bx_ListByNotePrefix :: "nat \<Rightarrow> string \<Rightarrow> access_rule list result"
  bx_store :: bool
  bx_durations :: duration_policy

definition normalizeIPForCompare :: "string \<Rightarrow> string" where
  "normalizeIPForCompare value = (case ParseIP value of Some ip \<Rightarrow> IP_String ip | None \<Rightarrow> value)"

definition isCFDuplicateRuleError :: "error \<Rightarrow> bool" where
  "isCFDuplicateRuleError e \<longleftrightarrow> Contains (Error e) ''duplicate_of_existing''"

definition lookupExistingRule :: "ban_executor \<Rightarrow> string \<Rightarrow> 'z ban_env_scheme \<Rightarrow> access_rule option \<times> 'z ban_env_scheme" where
  "lookupExistingRule bx ip w =
     (let w1 = w\<lparr>io_step := Suc (io_step w)\<rparr> in
      case bx_ListByNotePrefix bx (io_step w) ''cf-sync:autoban:'' of
        Inl _ \<Rightarrow> (None, w1)
      | Inr rules \<Rightarrow> (find (\<lambda>r. normalizeIPForCompare (ar_Value r) = normalizeIPForCompare ip) rules, w1))"

definition recidive_level :: "ban_executor \<Rightarrow> string \<Rightarrow> 'z ban_env_scheme \<Rightarrow> int \<times> 'z ban_env_scheme" where
  "recidive_level bx ip w =
     (if bx_store bx then case ban_RecidiveLevel ip w of (Inl _, w1) \<Rightarrow> (1, w1) | (Inr n, w1) \<Rightarrow> (n + 1, w1) else (1, w))"

definition effective_durations :: "ban_executor \<Rightarrow> duration_policy" where
  "effective_durations bx =
     (if bx_durations bx = \<lparr>dp_First = 0, dp_Second = 0, dp_ThirdPlus = 0\<rparr> then DefaultDurationPolicy else bx_durations bx)"

definition executed_entry :: "ban_decision \<Rightarrow> go_time \<Rightarrow> go_time \<Rightarrow> duration \<Rightarrow> string \<Rightarrow> int \<Rightarrow> ban_entry" where
  "executed_entry d createdAt expiresAt dur ruleID level =
     \<lparr>be_IP = dc_IP d, be_Source = ''autoban_'' @ dc_Reason d, be_Reason = dc_Reason d, be_Confidence = dc_Confidence d,
      be_CreatedAt = createdAt, be_ExpiresAt = expiresAt, be_Duration = dur, be_RuleID = ruleID, be_EvidenceID = [],
      be_RecidiveLevel = level, be_Status = BanActive, be_CleanupAttempts = 0, be_LastCleanupError = [], be_LastCleanupAttemptAt = 0\<rparr>"

text \<open>Recording the ban; a failure of the store is logged.\<close>

definition record_ban :: "ban_executor \<Rightarrow> ban_entry \<Rightarrow> 'z ban_env_scheme \<Rightarrow> unit result \<times> 'z ban_env_scheme" where
  "record_ban bx e w = (Inr (), if bx_store bx then snd (ban_Upsert e w) else w)"

definition ExecuteBan :: "ban_executor \<Rightarrow> ban_decision \<Rightarrow> 'z ban_env_scheme \<Rightarrow> unit result \<times> 'z ban_env_scheme" where
  "ExecuteBan bx d w =
     (let (createdAt, w1) = time_Now w;
          (level, w2) = recidive_level bx (dc_IP d) w1;
          dur = DurationFor (effective_durations bx) level;
          expiresAt = time_add createdAt dur;
          tag = ''cf-sync:autoban:'' @ dc_Reason d @ '':exp='' @ RFC3339 expiresAt;
          r = bx_AddIPAccessRule bx (io_step w2) (dc_IP d) tag;
          w3 = w2\<lparr>io_step := Suc (io_step w2), bl_Adds := bl_Adds w2 @ [(dc_IP d, tag)]\<rparr>
      in case r of
           Inr ruleID \<Rightarrow> record_ban bx (executed_entry d createdAt expiresAt dur ruleID level) w3
         | Inl e \<Rightarrow>
             if \<not> isCFDuplicateRuleError e then (Inl e, w3)
             else let (existing, w4) = lookupExistingRule bx (dc_IP d) w3 in
               case existing of
                 None \<Rightarrow> record_ban bx (executed_entry d createdAt expiresAt dur [] level) w4
               | Some rule \<Rightarrow>
                   let created1 = (if time_is_zero (ar_CreatedOn rule) then createdAt else ar_CreatedOn rule);
                       expires1 = (if time_is_zero (ar_CreatedOn rule) then expiresAt else time_add created1 dur)
                   in record_ban bx (executed_entry d created1 expires1 dur (ar_ID rule) level) w4)"

definition LastBanDuration :: "ban_executor \<Rightarrow> string \<Rightarrow> 'z ban_env_scheme \<Rightarrow> duration option \<times> 'z ban_env_scheme" where
  "LastBanDuration bx ip w =
     (if \<not> bx_store bx then (None, w)
      else case ban_Get ip w of (Inr (Some e), w1) \<Rightarrow> (Some (be_Duration e), w1) | (_, w1) \<Rightarrow> (None, w1))"

definition recordBanAfterExecute :: "ban_executor \<Rightarrow> string \<Rightarrow> evaluator \<Rightarrow> 'z ban_env_scheme \<Rightarrow> evaluator \<times> 'z ban_env_scheme" where
  "recordBanAfterExecute bx ip ev w =
     (let (found, w1) = LastBanDuration bx ip w in
      case found of
        Some d \<Rightarrow> if d > 0 then RecordBanWithDuration ip d ev w1 else RecordBan ip ev w1
      | None \<Rightarrow> RecordBan ip ev w1)"

section \<open>What cleaning up touches\<close>

text \<open>The rows of addresses outside \<open>ips\<close> stay as they are, no row is added or removed or changes its address,
  and nothing is asked to be banned.\<close>

definition touches :: "string set \<Rightarrow> 'z ban_env_scheme \<Rightarrow> 'z ban_env_scheme \<Rightarrow> bool" where
  "touches ips w w' \<longleftrightarrow> map (\<lambda>r. (fst r, be_IP (snd r))) (bl_Rows w') = map (\<lambda>r. (fst r, be_IP (snd r))) (bl_Rows w) \<and>
     filter (\<lambda>r. be_IP (snd r) \<notin> ips) (bl_Rows w') = filter (\<lambda>r. be_IP (snd r) \<notin> ips) (bl_Rows w) \<and>
     bl_Adds w' = bl_Adds w \<and> io_clock w' = io_clock w \<and> io_fault w' = io_fault w \<and> db_ReadOnly w' = db_ReadOnly w"

lemma touches_refl [simp]: "touches ips w w"
  by (simp add: touches_def)

lemma touches_trans:
  assumes "touches A u v" and "touches B v w"
  shows "touches (A \<union> B) u w"
proof -
  have "filter (\<lambda>r. be_IP (snd r) \<notin> A \<union> B) xs = filter (\<lambda>r. be_IP (snd r) \<notin> A) (filter (\<lambda>r. be_IP (snd r) \<notin> B) xs)"
    "filter (\<lambda>r. be_IP (snd r) \<notin> A \<union> B) xs = filter (\<lambda>r. be_IP (snd r) \<notin> B) (filter (\<lambda>r. be_IP (snd r) \<notin> A) xs)"
    for xs :: "ban_row list" by (auto simp: filter_filter intro!: filter_cong)
  note split = this
  have "filter (\<lambda>r. be_IP (snd r) \<notin> A \<union> B) (bl_Rows w) = filter (\<lambda>r. be_IP (snd r) \<notin> A \<union> B) (bl_Rows v)"
    using assms(2) by (simp only: split(1) touches_def)
  also have "\<dots> = filter (\<lambda>r. be_IP (snd r) \<notin> A \<union> B) (bl_Rows u)"
    using assms(1) by (simp only: split(2) touches_def)
  finally show ?thesis using assms by (simp add: touches_def)
qed

lemma touches_mono: "touches A w w' \<Longrightarrow> A \<subseteq> B \<Longrightarrow> touches B w w'"
  using touches_trans [of A w w' B w'] by (simp add: Un_absorb1)

lemma touches_fields [simp]:
  "touches ips w (w\<lparr>io_step := n\<rparr>)" "touches ips w (w\<lparr>io_step := n, bl_Deletes := ds\<rparr>)"
  by (simp_all add: touches_def)

lemma touches_id:
  assumes "touches A w w'"
  shows "map fst (bl_Rows w') = map fst (bl_Rows w)"
proof -
  from assms have "map fst (map (\<lambda>r. (fst r, be_IP (snd r))) (bl_Rows w')) = map fst (map (\<lambda>r. (fst r, be_IP (snd r))) (bl_Rows w))"
    by (simp only: touches_def)
  then show ?thesis by (simp add: comp_def)
qed

lemma update_row_touches:
  assumes "distinct (map fst (bl_Rows w))" and "(i, e) \<in> set (bl_Rows w)" and "\<And>x. be_IP (f x) = be_IP x"
  shows "touches {be_IP e} w (w\<lparr>bl_Rows := update_row i f (bl_Rows w)\<rparr>)"
proof -
  have "filter (\<lambda>r. be_IP (snd r) \<noteq> be_IP e) (update_row i f rows) = filter (\<lambda>r. be_IP (snd r) \<noteq> be_IP e) rows"
    if "\<forall>x. (i, x) \<in> set rows \<longrightarrow> x = e" for rows
    using that
  proof (induction rows)
    case (Cons r rows)
    obtain j x where r: "r = (j, x)" by (cases r)
    have "be_IP x = be_IP e" if "j = i" using Cons.prems r that by simp
    moreover have "\<forall>x. (i, x) \<in> set rows \<longrightarrow> x = e" using Cons.prems by simp
    ultimately show ?case using Cons.IH r by (simp add: update_row_def assms(3))
  qed (simp add: update_row_def)
  moreover have "x = e" if "(i, x) \<in> set (bl_Rows w)" for x
    using assms(1,2) that by (metis eq_key_imp_eq_value)
  ultimately have "filter (\<lambda>r. be_IP (snd r) \<noteq> be_IP e) (update_row i f (bl_Rows w)) = filter (\<lambda>r. be_IP (snd r) \<noteq> be_IP e) (bl_Rows w)"
    by blast
  moreover have "map (\<lambda>r. (fst r, be_IP (snd r))) (update_row i f (bl_Rows w)) = map (\<lambda>r. (fst r, be_IP (snd r))) (bl_Rows w)"
    by (simp add: update_row_def assms(3) split_beta)
  ultimately show ?thesis by (simp add: touches_def)
qed

lemma newest_row_in:
  assumes "newest_row ip rows = Some r"
  shows "r \<in> set rows \<and> be_IP (snd r) = ip"
proof -
  from assms obtain rs where "rev (sort_key row_key (rows_of ip rows)) = r # rs" by (auto simp: newest_row_def split: list.splits)
  then have "r \<in> set (rev (sort_key row_key (rows_of ip rows)))" by (metis list.set_intros(1))
  then show ?thesis by (auto simp: rows_of_def)
qed

text \<open>One operation of the store on the newest row of an address.\<close>

definition store_step :: "string \<Rightarrow> 'z ban_env_scheme \<Rightarrow> 'z ban_env_scheme \<Rightarrow> bool" where
  "store_step ip w w' \<longleftrightarrow> (distinct (map fst (bl_Rows w)) \<longrightarrow> touches {ip} w w') \<and> bl_Deletes w' = bl_Deletes w"

lemma store_step_refl [simp]: "store_step ip w w" "store_step ip w (w\<lparr>io_step := n\<rparr>)"
  by (simp_all add: store_step_def)

lemma store_step_trans:
  assumes "store_step ip u v" and "store_step ip v w"
  shows "store_step ip u w"
  using assms touches_trans [of "{ip}" u v "{ip}" w] touches_id [of "{ip}" u v] unfolding store_step_def by auto

lemma store_step_update:
  assumes "newest_row ip (bl_Rows w) = Some (i, e)" and "\<And>x. be_IP (f x) = be_IP x"
  shows "store_step ip w (w\<lparr>io_step := n, bl_Rows := update_row i f (bl_Rows w)\<rparr>)"
proof -
  have "(i, e) \<in> set (bl_Rows w)" "be_IP e = ip" using newest_row_in [OF assms(1)] by auto
  then have "touches {ip} w (w\<lparr>bl_Rows := update_row i f (bl_Rows w)\<rparr>)" if "distinct (map fst (bl_Rows w))"
    using update_row_touches [OF that _ assms(2), of i e] by blast
  then show ?thesis by (auto simp: store_step_def touches_def)
qed

lemma io_call_env: "io_call w = (r, w') \<Longrightarrow> w' = w\<lparr>io_step := Suc (io_step w)\<rparr>"
  by (auto simp: io_call_def)

lemma MarkStatus_step: "store_step ip w (snd (ban_MarkStatus ip status w))"
  by (auto simp: ban_MarkStatus_def writable_def and_then_def Let_def split: option.split sum.split prod.split
      dest!: io_call_env intro!: store_step_update)

lemma RecordCleanupFailure_step: "store_step ip w (snd (ban_RecordCleanupFailure ip msg w))"
  by (auto simp: ban_RecordCleanupFailure_def writable_def and_then_def time_Now_def Let_def split: option.split sum.split prod.split
      dest!: io_call_env intro!: store_step_update)

lemma record_audit_step: "store_step ip w (record_audit wk e reason w)"
  by (auto simp: record_audit_def Let_def store_step_def touches_def split: sum.split prod.split dest!: io_call_env)

lemma finishCleanup_step: "store_step (be_IP e) w (snd (finishCleanup wk e status reason w))"
proof (cases "ban_MarkStatus (be_IP e) status w")
  case (Pair r v)
  then have "store_step (be_IP e) w v" using MarkStatus_step [of "be_IP e" w status] by simp
  then show ?thesis using Pair store_step_trans [OF _ record_audit_step] by (cases r) (auto simp: finishCleanup_def)
qed

text \<open>A rule that may be deleted for an entry: the one it names or, when it names none, a rule for its address
  that the client listed and that carries the note prefix of automatic bans.\<close>

definition deletable :: "cleanup_worker \<Rightarrow> ban_entry \<Rightarrow> string \<Rightarrow> bool" where
  "deletable wk e d \<longleftrightarrow> d \<noteq> [] \<and> (be_RuleID e = d \<or> be_RuleID e = [] \<and>
     (\<exists>cf n rules rule. cw_CF wk = Some cf \<and> cc_ListAutobanRules cf n = Inr rules \<and> rule \<in> set rules \<and>
        cf_IP rule = be_IP e \<and> HasPrefix (cf_Notes rule) AutobanNotePrefix \<and> cf_ID rule = d))"

text \<open>The cached rules were listed by the client, or there is none.\<close>

definition cache_ok :: "cleanup_worker \<Rightarrow> cf_rule list option \<Rightarrow> bool" where
  "cache_ok wk cache \<longleftrightarrow> (\<forall>rules. cache = Some rules \<longrightarrow> rules = [] \<or> (\<exists>cf n. cw_CF wk = Some cf \<and> cc_ListAutobanRules cf n = Inr rules))"

lemma matchRuleByNote_some:
  assumes "matchRuleByNote rules ip = d" and "d \<noteq> []"
  shows "\<exists>rule \<in> set rules. cf_IP rule = ip \<and> HasPrefix (cf_Notes rule) AutobanNotePrefix \<and> cf_ID rule = d"
  using assms by (auto simp: matchRuleByNote_def find_Some_iff split: option.splits intro: nth_mem)

lemma load_rules_ok:
  assumes "load_rules wk cache w = (r, cache', w')" and "cache_ok wk cache"
  shows "cache_ok wk cache' \<and> (\<exists>n. w' = w\<lparr>io_step := n\<rparr>) \<and> (\<forall>rules. r = Inr rules \<longrightarrow> cache_ok wk (Some rules))"
  using assms
  by (cases cache; cases "cw_CF wk")
    (auto simp: load_rules_def cache_ok_def Let_def split: sum.splits intro: exI [of _ "io_step w"])

definition cleaned :: "cleanup_worker \<Rightarrow> ban_entry \<Rightarrow> 'z ban_env_scheme \<Rightarrow> 'z ban_env_scheme \<Rightarrow> bool" where
  "cleaned wk e w w' \<longleftrightarrow> (distinct (map fst (bl_Rows w)) \<longrightarrow> touches {be_IP e} w w') \<and>
     (\<exists>ds. bl_Deletes w' = bl_Deletes w @ ds \<and> length ds \<le> 1 \<and> (\<forall>d \<in> set ds. deletable wk e d))"

lemma cleaned_step: "store_step (be_IP e) w w' \<Longrightarrow> cleaned wk e w w'"
  by (auto simp: store_step_def cleaned_def)

lemma cleaned_before:
  assumes "\<exists>n. v = w\<lparr>io_step := n\<rparr>" and "cleaned wk e v w'"
  shows "cleaned wk e w w'"
  using assms by (auto simp: cleaned_def touches_def)

lemma cleaned_delete:
  assumes "deletable wk e d" and "store_step (be_IP e) (w\<lparr>io_step := n, bl_Deletes := bl_Deletes w @ [d]\<rparr>) w'"
  shows "cleaned wk e w w'"
  using assms by (auto simp: cleaned_def store_step_def touches_def)

lemma delete_and_finish_cleaned:
  fixes w :: "'z ban_env_scheme"
  assumes "ruleID \<noteq> [] \<Longrightarrow> cw_CF wk \<noteq> None \<Longrightarrow> deletable wk e ruleID"
  shows "cleaned wk e w (snd (delete_and_finish wk e status reason ruleID w))"
proof (cases "ruleID \<noteq> [] \<and> cw_CF wk \<noteq> None")
  case True
  then obtain cf where cf: "cw_CF wk = Some cf" by blast
  let ?v = "w\<lparr>io_step := Suc (io_step w), bl_Deletes := bl_Deletes w @ [ruleID]\<rparr>"
  have "store_step (be_IP e) ?v (snd (delete_and_finish wk e status reason ruleID w))"
    using True cf finishCleanup_step [of e ?v wk status reason] RecordCleanupFailure_step [of "be_IP e" ?v]
    by (auto simp: delete_and_finish_def cf_delete_def recordCleanupFailure_def Let_def split: sum.splits)
  then show ?thesis using cleaned_delete assms True by blast
next
  case False
  then have "store_step (be_IP e) w (snd (delete_and_finish wk e status reason ruleID w))"
    using finishCleanup_step [of e w wk status reason] by (auto simp: delete_and_finish_def split: option.splits)
  then show ?thesis by (rule cleaned_step)
qed

lemma deleteRuleAndFinish_cleaned:
  fixes w :: "'z ban_env_scheme"
  assumes "deleteRuleAndFinish wk e status reason cache w = (r, cache', w')" and "cache_ok wk cache"
  shows "cleaned wk e w w' \<and> cache_ok wk cache'"
proof (cases "be_RuleID e = []")
  case False
  then have "w' = snd (delete_and_finish wk e status reason (be_RuleID e) w)" "cache' = cache"
    using assms(1) by (simp_all add: deleteRuleAndFinish_def split_beta)
  then show ?thesis using False assms(2) delete_and_finish_cleaned [of "be_RuleID e" wk e] by (simp add: deletable_def)
next
  case True
  obtain q c v where load: "load_rules wk cache w = (q, c, v)" by (cases "load_rules wk cache w")
  note ok = load_rules_ok [OF load assms(2)]
  show ?thesis
  proof (cases q)
    case (Inl err)
    then have "store_step (be_IP e) v w'" "cache' = c"
      using assms(1) True load RecordCleanupFailure_step [of "be_IP e" v] by (auto simp: deleteRuleAndFinish_def recordCleanupFailure_def)
    then show ?thesis using cleaned_before cleaned_step ok by blast
  next
    case (Inr rules)
    have "deletable wk e (matchRuleByNote rules (be_IP e))" if ne: "matchRuleByNote rules (be_IP e) \<noteq> []"
    proof -
      obtain rule where rule: "rule \<in> set rules" "cf_IP rule = be_IP e" "HasPrefix (cf_Notes rule) AutobanNotePrefix"
          "cf_ID rule = matchRuleByNote rules (be_IP e)"
        using matchRuleByNote_some [OF refl ne] by blast
      then have "rules \<noteq> []" by auto
      then show ?thesis using ok Inr rule ne True by (auto simp: cache_ok_def deletable_def)
    qed
    then have "cleaned wk e v (snd (delete_and_finish wk e status reason (matchRuleByNote rules (be_IP e)) v))" by (rule delete_and_finish_cleaned)
    moreover have "w' = snd (delete_and_finish wk e status reason (matchRuleByNote rules (be_IP e)) v)" "cache' = c"
      using assms(1) True load Inr by (simp_all add: deleteRuleAndFinish_def split_beta)
    ultimately show ?thesis using cleaned_before ok by blast
  qed
qed

lemma cleanup_entries_cleaned:
  fixes w :: "'z ban_env_scheme"
  assumes "cache_ok wk cache" and "distinct (map fst (bl_Rows w))"
  shows "touches (be_IP ` set es) w (cleanup_entries wk es cache w) \<and>
    (\<exists>ds. bl_Deletes (cleanup_entries wk es cache w) = bl_Deletes w @ ds \<and> length ds \<le> length es \<and> (\<forall>d \<in> set ds. \<exists>e \<in> set es. deletable wk e d))"
  using assms
proof (induction es arbitrary: cache w)
  case (Cons e es)
  obtain r c v where one: "cleanupOne wk e cache w = (r, c, v)" by (cases "cleanupOne wk e cache w")
  from deleteRuleAndFinish_cleaned [OF one [unfolded cleanupOne_def] Cons.prems(1)]
  have v: "touches {be_IP e} w v" "cache_ok wk c" "\<exists>ds. bl_Deletes v = bl_Deletes w @ ds \<and> length ds \<le> 1 \<and> (\<forall>d \<in> set ds. deletable wk e d)"
    using Cons.prems(2) by (auto simp: cleaned_def)
  from Cons.IH [OF v(2)] v(1) Cons.prems(2) have w': "touches (be_IP ` set es) v (cleanup_entries wk es c v)"
    "\<exists>ds. bl_Deletes (cleanup_entries wk es c v) = bl_Deletes v @ ds \<and> length ds \<le> length es \<and> (\<forall>d \<in> set ds. \<exists>e \<in> set es. deletable wk e d)"
    by (auto simp: touches_id)
  have "touches (be_IP ` set (e # es)) w (cleanup_entries wk (e # es) cache w)"
    using touches_trans [OF v(1) w'(1)] one by simp
  moreover obtain ds1 ds2 where "bl_Deletes v = bl_Deletes w @ ds1" "length ds1 \<le> 1" "\<forall>d \<in> set ds1. deletable wk e d"
    "bl_Deletes (cleanup_entries wk es c v) = bl_Deletes v @ ds2" "length ds2 \<le> length es" "\<forall>d \<in> set ds2. \<exists>e \<in> set es. deletable wk e d"
    using v(3) w'(2) by blast
  ultimately show ?case using one by (intro conjI exI [of _ "ds1 @ ds2"]) auto
qed simp


definition sample_ban :: ban_entry where
  "sample_ban = \<lparr>be_IP = ''198.51.100.7'', be_Source = ''autoban_burst'', be_Reason = ''burst'', be_Confidence = 90, be_CreatedAt = 1,
     be_ExpiresAt = 3600000000001, be_Duration = Hour, be_RuleID = ''r1'', be_EvidenceID = [], be_RecidiveLevel = 1, be_Status = BanActive,
     be_CleanupAttempts = 0, be_LastCleanupError = [], be_LastCleanupAttemptAt = 0\<rparr>"

text \<open>A ban that expires after an hour, seen after two hours, beside one of the same age for a day.\<close>

definition sample_rows :: "ban_row list" where
  "sample_rows = [(1, sample_ban), (2, sample_ban\<lparr>be_IP := ''198.51.100.8'', be_RuleID := ''r2'', be_Duration := 24 * Hour, be_ExpiresAt := 86400000000001\<rparr>)]"

definition sample_bans :: ban_env where
  "sample_bans = \<lparr>io_clock = (\<lambda>n. 7200000000000 + int n), io_fault = (\<lambda>_. None), io_choice = (\<lambda>_. False), io_step = 0, fs_files = [],
     db_ReadOnly = False, db_Events = [], db_NextEventID = 1, db_Sequences = [], db_Checkpoints = [], db_Leases = [],
     bl_Rows = sample_rows, bl_NextID = 3, bl_Deletes = [], bl_Audits = [], bl_Evidence = [], bl_Adds = []\<rparr>"

definition sample_worker :: cleanup_worker where
  "sample_worker = \<lparr>cw_CF = Some \<lparr>cc_ListAutobanRules = (\<lambda>_. Inr []), cc_DeleteIPAccessRule = (\<lambda>_ _. Inr ())\<rparr>, cw_Audit = True, cw_Evidence = True\<rparr>"


end
