(* ===== verification/Ban_Cycle.thy ===== *)
theory Ban_Cycle
  imports Ban_Lifecycle
begin

text \<open>
  The cycle of bans of one address: the executor bans it, the ban expires, the cleanup worker completes it,
  and the next ban of the address lasts longer. The table of bans keeps at most one active row per address
  through every operation of the store, which is what makes the cycle well defined.
\<close>

section \<open>At most one active ban per address\<close>

definition rows_ok :: "ban_row list \<Rightarrow> int \<Rightarrow> bool" where
  "rows_ok rows next \<longleftrightarrow> distinct (map fst rows) \<and> (\<forall>q \<in> set rows. fst q < next) \<and>
     (\<forall>q \<in> set rows. \<forall>r \<in> set rows. is_active q \<and> is_active r \<and> be_IP (snd q) = be_IP (snd r) \<longrightarrow> fst q = fst r)"

definition bans_ok :: "'z ban_env_scheme \<Rightarrow> bool" where
  "bans_ok w \<longleftrightarrow> rows_ok (bl_Rows w) (bl_NextID w)"

lemma bans_ok_fields [simp]:
  "bans_ok (w\<lparr>io_step := n\<rparr>) = bans_ok w" "bans_ok (w\<lparr>bl_Deletes := ds\<rparr>) = bans_ok w" "bans_ok (w\<lparr>bl_Adds := as\<rparr>) = bans_ok w"
  "bans_ok (w\<lparr>bl_Audits := us\<rparr>) = bans_ok w" "bans_ok (w\<lparr>bl_Evidence := vs\<rparr>) = bans_ok w"
  by (simp_all add: bans_ok_def)

lemma rows_okI:
  assumes "distinct (map fst rows)" and "\<And>q. q \<in> set rows \<Longrightarrow> fst q < next"
    and "\<And>q r. q \<in> set rows \<Longrightarrow> r \<in> set rows \<Longrightarrow> is_active q \<Longrightarrow> is_active r \<Longrightarrow> be_IP (snd q) = be_IP (snd r) \<Longrightarrow> fst q = fst r"
  shows "rows_ok rows next"
  unfolding rows_ok_def using assms by blast

lemma rows_okD:
  assumes "rows_ok rows next"
  shows "distinct (map fst rows)" and "\<And>q. q \<in> set rows \<Longrightarrow> fst q < next"
    and "\<And>q r. q \<in> set rows \<Longrightarrow> r \<in> set rows \<Longrightarrow> is_active q \<Longrightarrow> is_active r \<Longrightarrow> be_IP (snd q) = be_IP (snd r) \<Longrightarrow> fst q = fst r"
  using assms unfolding rows_ok_def by blast+

lemma update_row_fst [simp]: "map fst (update_row i f rows) = map fst rows"
  by (simp add: update_row_def split_beta)

lemma in_update_row: "q \<in> set (update_row i f rows) \<Longrightarrow> \<exists>e. (fst q, e) \<in> set rows \<and> snd q = (if fst q = i then f e else e)"
  by (auto simp: update_row_def)

text \<open>A change of one row keeps the invariant if it keeps the address and makes the row active only where no other row is.\<close>

lemma rows_ok_update:
  assumes ok: "rows_ok rows next" and i: "(i, e) \<in> set rows" and ip: "be_IP (f e) = be_IP e"
    and act: "\<And>q. be_Status (f e) = BanActive \<Longrightarrow> q \<in> set rows \<Longrightarrow> be_IP (snd q) = be_IP e \<Longrightarrow> is_active q \<Longrightarrow> fst q = i"
  shows "rows_ok (update_row i f rows) next"
proof (rule rows_okI)
  fix q r
  assume q: "q \<in> set (update_row i f rows)" and r: "r \<in> set (update_row i f rows)"
    and active: "is_active q" "is_active r" "be_IP (snd q) = be_IP (snd r)"
  have uniq: "x = e" if "(i, x) \<in> set rows" for x
    using rows_okD(1) [OF ok] i that by (metis eq_key_imp_eq_value)
  obtain x y where x: "(fst q, x) \<in> set rows" "snd q = (if fst q = i then f x else x)"
    and y: "(fst r, y) \<in> set rows" "snd r = (if fst r = i then f y else y)" using in_update_row [OF q] in_update_row [OF r] by blast
  have other: "fst r = i" if "fst q = i" "(fst q, x) \<in> set rows" "snd q = (if fst q = i then f x else x)"
      "(fst r, y) \<in> set rows" "snd r = (if fst r = i then f y else y)" "is_active q" "is_active r" "be_IP (snd q) = be_IP (snd r)" for q r x y
  proof (rule ccontr)
    assume r: "fst r \<noteq> i"
    have "x = e" using uniq that(1,2) by simp
    then have "be_Status (f e) = BanActive" "be_IP y = be_IP e" using that r ip by (simp_all add: is_active_def)
    moreover have "is_active (fst r, y)" using that r by (simp add: is_active_def)
    ultimately show False using act [of "(fst r, y)"] that(4) r by simp
  qed
  show "fst q = fst r"
  proof (cases "fst q = i \<or> fst r = i")
    case True
    then show ?thesis using other [OF _ x y active] other [OF _ y x active(2,1) active(3) [symmetric]] by metis
  next
    case False
    then have "is_active (fst q, x)" "is_active (fst r, y)" "be_IP x = be_IP y" using x y active by (simp_all add: is_active_def)
    then show ?thesis using rows_okD(3) [OF ok x(1) y(1)] by simp
  qed
next
  fix q
  assume "q \<in> set (update_row i f rows)"
  then obtain x where "(fst q, x) \<in> set rows" using in_update_row by blast
  then show "fst q < next" using rows_okD(2) [OF ok] by fastforce
qed (simp add: rows_okD(1) [OF ok])

lemma rows_ok_insert:
  assumes ok: "rows_ok rows next" and none: "\<And>q. q \<in> set rows \<Longrightarrow> be_IP (snd q) = be_IP e \<Longrightarrow> \<not> is_active q"
  shows "rows_ok (rows @ [(next, inserted_entry e)]) (next + 1)"
proof (rule rows_okI)
  have "next \<notin> fst ` set rows" using rows_okD(2) [OF ok] by fastforce
  then show "distinct (map fst (rows @ [(next, inserted_entry e)]))" using rows_okD(1) [OF ok] by simp
next
  fix q
  assume "q \<in> set (rows @ [(next, inserted_entry e)])"
  then consider "q \<in> set rows" | "q = (next, inserted_entry e)" by auto
  then show "fst q < next + 1" using rows_okD(2) [OF ok] by cases fastforce+
next
  fix q r
  assume q: "q \<in> set (rows @ [(next, inserted_entry e)])" and r: "r \<in> set (rows @ [(next, inserted_entry e)])"
    and active: "is_active q" "is_active r" "be_IP (snd q) = be_IP (snd r)"
  have ip: "be_IP (inserted_entry e) = be_IP e" by (simp add: inserted_entry_def)
  have new: "x = (next, inserted_entry e)" if "x \<in> set (rows @ [(next, inserted_entry e)])" "is_active x" "be_IP (snd x) = be_IP e" for x
    using that(1) none [OF _ that(3)] that(2) by auto
  consider "q \<in> set rows" "r \<in> set rows" | "q = (next, inserted_entry e)" | "r = (next, inserted_entry e)" using q r by auto
  then show "fst q = fst r"
  proof cases
    case 1
    then show ?thesis using rows_okD(3) [OF ok] active by blast
  next
    case 2
    then have "be_IP (snd r) = be_IP e" using active(3) ip by (metis snd_conv)
    then show ?thesis using new [OF r active(2)] 2 by (metis fst_conv)
  next
    case 3
    then have "be_IP (snd q) = be_IP e" using active(3) ip by (metis snd_conv)
    then show ?thesis using new [OF q active(1)] 3 by (metis fst_conv)
  qed
qed

lemma overwrite_IP [simp]: "be_IP (overwrite_entry e old) = be_IP old"
  by (simp add: overwrite_entry_def)

lemma Upsert_ok:
  assumes "bans_ok w"
  shows "bans_ok (snd (ban_Upsert e w))"
proof -
  have put: "bans_ok (snd (case find (\<lambda>r. be_IP (snd r) = be_IP x \<and> is_active r) (bl_Rows u) of
             Some r \<Rightarrow> and_then op (io_call u) (\<lambda>_ w3. (Inr (), w3\<lparr>bl_Rows := update_row (fst r) (overwrite_entry x) (bl_Rows w3)\<rparr>))
           | None \<Rightarrow> and_then op (io_call u) (\<lambda>_ w3.
               (Inr (), w3\<lparr>bl_Rows := bl_Rows w3 @ [(bl_NextID w3, inserted_entry x)], bl_NextID := bl_NextID w3 + 1\<rparr>))))"
    if u: "bans_ok u" for u :: "'a ban_env_scheme" and x op
  proof (cases "find (\<lambda>r. be_IP (snd r) = be_IP x \<and> is_active r) (bl_Rows u)")
    case None
    then have "rows_ok (bl_Rows u @ [(bl_NextID u, inserted_entry x)]) (bl_NextID u + 1)"
      using rows_ok_insert [OF u [unfolded bans_ok_def], of x] unfolding find_None_iff by blast
    then show ?thesis using u None by (cases u rule: io_call_cases) (simp_all add: and_then_def bans_ok_def)
  next
    case (Some r)
    then have r: "r \<in> set (bl_Rows u)" "be_IP (snd r) = be_IP x" "is_active r" by (auto simp: find_Some_iff)
    have "rows_ok (update_row (fst r) (overwrite_entry x) (bl_Rows u)) (bl_NextID u)"
    proof (rule rows_ok_update [OF u [unfolded bans_ok_def], of _ "snd r"])
      show "(fst r, snd r) \<in> set (bl_Rows u)" using r(1) by simp
      show "fst q = fst r" if "q \<in> set (bl_Rows u)" "be_IP (snd q) = be_IP (snd r)" "is_active q" for q
        using rows_okD(3) [OF u [unfolded bans_ok_def] that(1) r(1) that(3) r(3) that(2)] .
    qed simp
    then show ?thesis using u Some by (cases u rule: io_call_cases) (simp_all add: and_then_def bans_ok_def)
  qed
  have step: "bans_ok (snd (and_then op (io_call u) k))" if "bans_ok u" "\<And>v. bans_ok v \<Longrightarrow> bans_ok (snd (k () v))" for u :: "'a ban_env_scheme" and op k
    using that by (cases u rule: io_call_cases) (simp_all add: and_then_def)
  show ?thesis
  proof (cases "db_ReadOnly w")
    case False
    obtain e2 w1 where eq: "(if time_is_zero (be_CreatedAt (if be_Status e = [] then e\<lparr>be_Status := BanActive\<rparr> else e))
        then let (now, w1) = time_Now w in ((if be_Status e = [] then e\<lparr>be_Status := BanActive\<rparr> else e)\<lparr>be_CreatedAt := now\<rparr>, w1)
        else ((if be_Status e = [] then e\<lparr>be_Status := BanActive\<rparr> else e), w)) = (e2, w1)" by fastforce
    then have "bans_ok w1" using assms by (auto simp: time_Now_def split: if_splits)
    then show ?thesis unfolding ban_Upsert_def writable_simps(2) [OF False] Let_def eq [unfolded Let_def] prod.case by (intro step put)
  qed (simp add: ban_Upsert_def writable_simps assms)
qed

lemma MarkStatus_ok:
  assumes "bans_ok w"
  shows "bans_ok (snd (ban_MarkStatus ip status w))"
proof (cases "newest_row ip (bl_Rows w)")
  case None
  then show ?thesis using assms
    by (cases "db_ReadOnly w"; cases w rule: io_call_cases) (simp_all add: ban_MarkStatus_def writable_simps and_then_def)
next
  case (Some r)
  note r = newest_row_in [OF Some]
  have "rows_ok (update_row (fst r) (\<lambda>e. e\<lparr>be_Status := status\<rparr>) (bl_Rows w)) (bl_NextID w)"
    if "\<not> (status = BanActive \<and> (\<exists>q \<in> set (bl_Rows w). be_IP (snd q) = ip \<and> is_active q \<and> fst q \<noteq> fst r))"
  proof (rule rows_ok_update [OF assms [unfolded bans_ok_def], of _ "snd r"])
    fix q
    assume "be_Status (snd r\<lparr>be_Status := status\<rparr>) = BanActive" "q \<in> set (bl_Rows w)" "be_IP (snd q) = be_IP (snd r)" "is_active q"
    then show "fst q = fst r" using that r by auto
  qed (use r in simp_all)
  then show ?thesis using assms Some
    by (cases "db_ReadOnly w"; cases w rule: io_call_cases; cases "w\<lparr>io_step := Suc (io_step w)\<rparr>" rule: io_call_cases)
      (simp_all add: ban_MarkStatus_def writable_simps and_then_def bans_ok_def)
qed

lemma RecordCleanupFailure_ok:
  assumes "bans_ok w"
  shows "bans_ok (snd (ban_RecordCleanupFailure ip msg w))"
proof (cases "newest_row ip (bl_Rows w)")
  case None
  then show ?thesis using assms
    by (cases "db_ReadOnly w"; cases w rule: io_call_cases) (simp_all add: ban_RecordCleanupFailure_def writable_simps and_then_def)
next
  case (Some r)
  note r = newest_row_in [OF Some]
  have "rows_ok (update_row (fst r) (\<lambda>e. e\<lparr>be_CleanupAttempts := be_CleanupAttempts e + 1, be_LastCleanupError := msg,
      be_LastCleanupAttemptAt := t\<rparr>) (bl_Rows w)) (bl_NextID w)" for t
  proof (rule rows_ok_update [OF assms [unfolded bans_ok_def], of _ "snd r"])
    fix q
    assume "be_Status (snd r\<lparr>be_CleanupAttempts := be_CleanupAttempts (snd r) + 1, be_LastCleanupError := msg, be_LastCleanupAttemptAt := t\<rparr>) = BanActive"
      and q: "q \<in> set (bl_Rows w)" "be_IP (snd q) = be_IP (snd r)" "is_active q"
    then have "is_active r" by (simp add: is_active_def)
    then show "fst q = fst r" using rows_okD(3) [OF assms [unfolded bans_ok_def] q(1) _ q(3) _ q(2)] r by blast
  qed (use r in simp_all)
  then show ?thesis using assms Some
    by (cases "db_ReadOnly w"; cases w rule: io_call_cases; cases "w\<lparr>io_step := Suc (io_step w)\<rparr>" rule: io_call_cases)
      (simp_all add: ban_RecordCleanupFailure_def writable_simps and_then_def bans_ok_def time_Now_def)
qed

lemma record_audit_ok: "bans_ok w \<Longrightarrow> bans_ok (record_audit wk e reason w)"
  by (auto simp: record_audit_def Let_def split: sum.split prod.split dest!: io_call_env)

lemma finishCleanup_ok: "bans_ok w \<Longrightarrow> bans_ok (snd (finishCleanup wk e status reason w))"
  using MarkStatus_ok [of w "be_IP e" status]
  by (cases "ban_MarkStatus (be_IP e) status w"; cases "fst (ban_MarkStatus (be_IP e) status w)") (simp_all add: finishCleanup_def record_audit_ok)

lemma load_rules_bans: "bans_ok (snd (snd (load_rules wk cache w))) = bans_ok w"
  by (simp add: load_rules_def Let_def split: option.split sum.split)

lemma deleteRuleAndFinish_ok:
  assumes "bans_ok w"
  shows "bans_ok (snd (snd (deleteRuleAndFinish wk e status reason cache w)))"
  using assms load_rules_bans [of wk cache w]
  by (auto simp: deleteRuleAndFinish_def delete_and_finish_def recordCleanupFailure_def cf_delete_def Let_def split_beta RecordCleanupFailure_ok finishCleanup_ok
      split: sum.split option.split)

lemma cleanup_entries_ok: "bans_ok w \<Longrightarrow> bans_ok (cleanup_entries wk es cache w)"
proof (induction es arbitrary: cache w)
  case (Cons e es)
  then show ?case using deleteRuleAndFinish_ok [of w wk e] by (simp add: cleanupOne_def split_beta Let_def)
qed simp

lemma cleanup_Run_ok:
  assumes "bans_ok w"
  shows "bans_ok (snd (cleanup_Run wk w))"
  using assms
  by (cases "w\<lparr>io_step := Suc (io_step w)\<rparr>" rule: io_call_cases)
    (simp_all add: cleanup_Run_def time_Now_def ban_Expired_def and_then_def cleanup_entries_ok)

lemma DebanOne_ok:
  assumes "bans_ok w"
  shows "bans_ok (snd (DebanOne wk ip reason w))"
proof -
  have "bans_ok (snd (ban_Get ip w))" using assms by (cases w rule: io_call_cases) (simp_all add: ban_Get_def and_then_def)
  then show ?thesis
    by (cases "ban_Get ip w") (auto simp: DebanOne_def split_beta Let_def intro: deleteRuleAndFinish_ok split: sum.split option.split)
qed

lemma clear_entries_ok: "bans_ok w \<Longrightarrow> bans_ok (snd (clear_entries wk reason es res w))"
proof (induction es arbitrary: res w)
  case (Cons e es)
  have "bans_ok (snd (DebanOne wk (be_IP e) reason (w\<lparr>io_step := Suc (io_step w)\<rparr>)))" using Cons.prems by (simp add: DebanOne_ok)
  then show ?case using Cons
    by (cases w rule: io_call_cases; cases "DebanOne wk (be_IP e) reason (w\<lparr>io_step := Suc (io_step w)\<rparr>)") (auto split: sum.split)
qed simp

lemma ExecuteBan_ok:
  assumes "bans_ok w"
  shows "bans_ok (snd (ExecuteBan bx d w))"
proof -
  have rec: "bans_ok (snd (record_ban bx e v))" if "bans_ok v" for e and v :: "'a ban_env_scheme"
    using that by (simp add: record_ban_def Upsert_ok)
  have lev: "bans_ok (snd (recidive_level bx ip v))" if "bans_ok v" for ip and v :: "'a ban_env_scheme"
    using that by (cases v rule: io_call_cases) (simp_all add: recidive_level_def ban_RecidiveLevel_def and_then_def)
  have look: "bans_ok (snd (lookupExistingRule bx ip v))" if "bans_ok v" for ip and v :: "'a ban_env_scheme"
    using that by (simp add: lookupExistingRule_def Let_def split: sum.split)
  show ?thesis using assms
    by (auto simp: ExecuteBan_def time_Now_def Let_def split_beta split: sum.split option.split intro!: rec look lev)
qed

text \<open>
  C16: every address has at most one active ban. In every table in which the identifiers are distinct and below the next one and no
  address has two active rows, recording a ban, a cleanup pass, lifting one ban and clearing all of them lead to such a table
  again, whatever the clock, the Cloudflare client and the failures of the database are.
\<close>

theorem one_active_ban:
  assumes "bans_ok w"
  shows "bans_ok (snd (ExecuteBan bx d w)) \<and> bans_ok (snd (cleanup_Run wk w)) \<and>
    bans_ok (snd (DebanOne wk ip reason w)) \<and> bans_ok (snd (ClearAll wk reason w))"
proof -
  have "bans_ok (snd (ClearAll wk reason w))" using assms
    by (cases w rule: io_call_cases) (simp_all add: ClearAll_def ban_Active_def and_then_def clear_entries_ok split_beta Let_def)
  then show ?thesis using ExecuteBan_ok [OF assms] cleanup_Run_ok [OF assms] DebanOne_ok [OF assms] by blast
qed

theorem one_active_ban_witness: "bans_ok (snd (cleanup_Run sample_worker sample_bans))"
proof -
  have "bans_ok sample_bans" by (simp add: bans_ok_def rows_ok_def sample_bans_def sample_rows_def sample_ban_def)
  then show ?thesis using one_active_ban by blast
qed

section \<open>From one ban to the next\<close>

lemma newest_rowI:
  assumes "(i, e) \<in> set rows" and "be_IP e = ip" and "\<And>q. q \<in> set rows \<Longrightarrow> be_IP (snd q) = ip \<Longrightarrow> q \<noteq> (i, e) \<Longrightarrow> row_key q < row_key (i, e)"
  shows "newest_row ip rows = Some (i, e)"
proof -
  let ?xs = "sort_key row_key (rows_of ip rows)"
  have mem: "(i, e) \<in> set ?xs" using assms(1,2) by (simp add: rows_of_def)
  then obtain ys y where xs: "?xs = ys @ [y]" by (metis append_butlast_last_id empty_iff empty_set)
  have "sorted (map row_key (ys @ [y]))" using sorted_sort_key [of row_key "rows_of ip rows"] xs by simp
  then have "row_key (i, e) \<le> row_key y" using mem xs by (auto simp: sorted_append)
  moreover have "y \<in> set ?xs" using xs by simp
  then have "y \<in> set rows" "be_IP (snd y) = ip" by (auto simp: rows_of_def)
  ultimately have "y = (i, e)" using assms(3) [of y] by fastforce
  then show ?thesis using xs by (simp add: newest_row_def)
qed

lemma touches_rows_of:
  assumes "touches A w w'" and "ip \<notin> A"
  shows "rows_of ip (bl_Rows w') = rows_of ip (bl_Rows w)"
proof -
  have "rows_of ip rows = rows_of ip (filter (\<lambda>r. be_IP (snd r) \<notin> A) rows)" for rows
    using assms(2) by (induction rows) (simp_all add: rows_of_def)
  moreover have "filter (\<lambda>r. be_IP (snd r) \<notin> A) (bl_Rows w') = filter (\<lambda>r. be_IP (snd r) \<notin> A) (bl_Rows w)"
    using assms(1) by (simp only: touches_def)
  ultimately show ?thesis by metis
qed

text \<open>A client that lists its rules and deletes or does not find what it is asked to delete.\<close>

definition client_works :: "cleanup_worker \<Rightarrow> bool" where
  "client_works wk \<longleftrightarrow> (\<forall>cf. cw_CF wk = Some cf \<longrightarrow> (\<forall>n. \<exists>rules. cc_ListAutobanRules cf n = Inr rules) \<and>
     (\<forall>n ruleID e. cc_DeleteIPAccessRule cf n ruleID = Inl e \<longrightarrow> isNotFound e))"

lemma record_audit_rows [simp]: "bl_Rows (record_audit wk e reason w) = bl_Rows w"
  by (auto simp: record_audit_def Let_def split: sum.split prod.split dest!: io_call_env)

lemma MarkStatus_completes:
  assumes "no_faults w" and "\<not> db_ReadOnly w" and "newest_row ip (bl_Rows w) = Some (i, x)" and "status \<noteq> BanActive"
  shows "ban_MarkStatus ip status w =
    (Inr (), w\<lparr>io_step := Suc (Suc (io_step w)), bl_Rows := update_row i (\<lambda>e. e\<lparr>be_Status := status\<rparr>) (bl_Rows w)\<rparr>)"
  using assms(3,4) by (simp add: ban_MarkStatus_def writable_simps(2) [OF assms(2)] and_then_def io_call_ok assms(1))

lemma finishCleanup_completes:
  assumes "no_faults w" and "\<not> db_ReadOnly w" and "newest_row (be_IP e) (bl_Rows w) = Some (i, x)" and "status \<noteq> BanActive"
  shows "bl_Rows (snd (finishCleanup wk e status reason w)) = update_row i (\<lambda>e. e\<lparr>be_Status := status\<rparr>) (bl_Rows w)"
  by (simp add: finishCleanup_def MarkStatus_completes [OF assms])

lemma delete_and_finish_completes:
  fixes w :: "'z ban_env_scheme"
  assumes "no_faults w" and "\<not> db_ReadOnly w" and "newest_row (be_IP e) (bl_Rows w) = Some (i, x)" and "client_works wk" and "status \<noteq> BanActive"
  shows "bl_Rows (snd (delete_and_finish wk e status reason ruleID w)) = update_row i (\<lambda>e. e\<lparr>be_Status := status\<rparr>) (bl_Rows w)"
proof -
  have "no_faults (w\<lparr>io_step := n, bl_Deletes := ds\<rparr>)" for n ds using assms(1) by (simp add: no_faults_def)
  then have "bl_Rows (snd (finishCleanup wk e status reason (w\<lparr>io_step := n, bl_Deletes := ds\<rparr>))) =
      update_row i (\<lambda>e. e\<lparr>be_Status := status\<rparr>) (bl_Rows w)" for n ds
    using finishCleanup_completes [of "w\<lparr>io_step := n, bl_Deletes := ds\<rparr>" e i x status wk reason] assms(2,3,5) by simp
  then show ?thesis using assms(4) finishCleanup_completes [OF assms(1-3,5)]
    by (auto simp: delete_and_finish_def cf_delete_def client_works_def split: option.split sum.split)
qed

lemma cleanupOne_completes:
  fixes w :: "'z ban_env_scheme"
  assumes "no_faults w" and "\<not> db_ReadOnly w" and "newest_row (be_IP e) (bl_Rows w) = Some (i, x)" and "client_works wk"
    and "cleanupOne wk e cache w = (r, cache', w')"
  shows "bl_Rows w' = update_row i (\<lambda>e. e\<lparr>be_Status := BanExpiredCleaned\<rparr>) (bl_Rows w)"
proof -
  obtain q c v where load: "load_rules wk cache w = (q, c, v)" by (cases "load_rules wk cache w")
  have q: "\<exists>rules. q = Inr rules" "\<exists>n. v = w\<lparr>io_step := n\<rparr>"
    using load assms(4) by (auto simp: load_rules_def client_works_def Let_def split: option.splits sum.splits intro: exI [of _ "io_step w"])
  obtain ruleID reason u where "w' = snd (delete_and_finish wk e BanExpiredCleaned reason ruleID u)" "u = w \<or> u = v"
    using assms(5) q(1) load by (cases "be_RuleID e = []") (auto simp: cleanupOne_def deleteRuleAndFinish_def split_beta)
  then show ?thesis using q(2) assms(1-4) delete_and_finish_completes [of u e i x wk BanExpiredCleaned reason ruleID]
    by (auto simp: BanExpiredCleaned_def BanActive_def)
qed

lemma cleanup_entries_completes:
  fixes w :: "'z ban_env_scheme"
  assumes "cache_ok wk cache" and "distinct (map fst (bl_Rows w))" and "no_faults w" and "\<not> db_ReadOnly w" and "client_works wk"
    and "newest_row (be_IP e) (bl_Rows w) = Some (i, e)" and "e \<in> set es" and "distinct (map be_IP es)"
  shows "rows_of (be_IP e) (bl_Rows (cleanup_entries wk es cache w)) =
    update_row i (\<lambda>e. e\<lparr>be_Status := BanExpiredCleaned\<rparr>) (rows_of (be_IP e) (bl_Rows w))"
  using assms
proof (induction es arbitrary: cache w)
  case (Cons x es)
  obtain r c v where one: "cleanupOne wk x cache w = (r, c, v)" by (cases "cleanupOne wk x cache w")
  have v: "touches {be_IP x} w v" "cache_ok wk c"
    using deleteRuleAndFinish_cleaned [OF one [unfolded cleanupOne_def] Cons.prems(1)] Cons.prems(2) by (auto simp: cleaned_def)
  have ids: "distinct (map fst (bl_Rows v))" using touches_id [OF v(1)] Cons.prems(2) by simp
  have run: "cleanup_entries wk (x # es) cache w = cleanup_entries wk es c v" using one by simp
  show ?case
  proof (cases "x = e")
    case True
    then have "be_IP e \<notin> be_IP ` set es" using Cons.prems(8) by simp
    then have "rows_of (be_IP e) (bl_Rows (cleanup_entries wk es c v)) = rows_of (be_IP e) (bl_Rows v)"
      using cleanup_entries_cleaned [OF v(2) ids, of es] touches_rows_of by blast
    moreover have "bl_Rows v = update_row i (\<lambda>e. e\<lparr>be_Status := BanExpiredCleaned\<rparr>) (bl_Rows w)"
      using cleanupOne_completes [OF Cons.prems(3,4) _ Cons.prems(5) one] Cons.prems(6) True by blast
    moreover have "rows_of ip (update_row i (\<lambda>e. e\<lparr>be_Status := BanExpiredCleaned\<rparr>) rows) =
        update_row i (\<lambda>e. e\<lparr>be_Status := BanExpiredCleaned\<rparr>) (rows_of ip rows)" for ip rows
      by (simp add: rows_of_def update_row_def filter_map comp_def split_beta if_distrib [of be_IP] cong: if_cong)
    ultimately show ?thesis using run by simp
  next
    case False
    then have e: "e \<in> set es" using Cons.prems(7) by simp
    then have "be_IP e \<in> be_IP ` set es" by (rule imageI)
    then have ne: "be_IP e \<noteq> be_IP x" using Cons.prems(8) by auto
    then have same: "rows_of (be_IP e) (bl_Rows v) = rows_of (be_IP e) (bl_Rows w)" using touches_rows_of [OF v(1)] ne by simp
    then have "newest_row (be_IP e) (bl_Rows v) = Some (i, e)" using Cons.prems(6) by (simp add: newest_row_def)
    then show ?thesis using Cons.IH [OF v(2) ids] Cons.prems(3-5,8) e v(1) same run by (simp add: touches_def no_faults_def)
  qed
qed simp

lemma expired_distinct:
  assumes "rows_ok rows next"
  shows "distinct (map be_IP (map snd (sort_key row_key (filter (\<lambda>q. is_active q \<and> P q) rows))))"
proof -
  have "q = r" if "q \<in> set rows" "r \<in> set rows" "fst q = fst r" for q r
    using rows_okD(1) [OF assms] that by (metis eq_key_imp_eq_value prod.collapse)
  then have "inj_on (be_IP \<circ> snd) (set (filter (\<lambda>q. is_active q \<and> P q) rows))"
    using rows_okD(3) [OF assms] unfolding inj_on_def comp_def by (metis (no_types, lifting) filter_is_subset mem_Collect_eq set_filter)
  moreover have "distinct (filter (\<lambda>q. is_active q \<and> P q) rows)" using rows_okD(1) [OF assms] by (metis distinct_filter distinct_map)
  ultimately show ?thesis by (simp add: distinct_map)
qed

text \<open>A ban that Cloudflare accepts is recorded as a new row.\<close>

definition new_ban :: "ban_executor \<Rightarrow> ban_decision \<Rightarrow> string \<Rightarrow> int \<Rightarrow> go_time \<Rightarrow> ban_entry" where
  "new_ban bx d ruleID level now =
     (let dur = DurationFor (effective_durations bx) level in executed_entry d now (now + dur) dur ruleID level)"

lemma inserted_new_ban: "inserted_entry (new_ban bx d ruleID level now) = new_ban bx d ruleID level now"
  by (simp add: inserted_entry_def new_ban_def executed_entry_def Let_def)

lemma ExecuteBan_new:
  fixes w :: "'z ban_env_scheme"
  assumes "no_faults w" and "\<not> db_ReadOnly w" and "bx_store bx" and "0 < io_clock w (io_step w)"
    and "\<And>q. q \<in> set (bl_Rows w) \<Longrightarrow> be_IP (snd q) = dc_IP d \<Longrightarrow> \<not> is_active q"
    and "\<And>n ip tag. bx_AddIPAccessRule bx n ip tag = Inr ruleID"
    and "ExecuteBan bx d w = (r, w')"
  shows "r = Inr () \<and> bl_Rows w' = bl_Rows w @ [(bl_NextID w, new_ban bx d ruleID (int (length (rows_of (dc_IP d) (bl_Rows w))) + 1) (io_clock w (io_step w)))] \<and>
    io_clock w' = io_clock w \<and> no_faults w' \<and> \<not> db_ReadOnly w'"
proof -
  let ?now = "io_clock w (io_step w)" and ?rows = "rows_of (dc_IP d) (bl_Rows w)"
  let ?e = "new_ban bx d ruleID (int (length ?rows) + 1) ?now"
  have all: "filter (\<lambda>r. \<not> is_active r) ?rows = ?rows" using assms(5) unfolding rows_of_def by (intro filter_True ballI) simp
  have none: "find (\<lambda>r. be_IP (snd r) = dc_IP d \<and> is_active r) (bl_Rows w) = None" using assms(5) unfolding find_None_iff by blast
  have level: "recidive_level bx (dc_IP d) (w\<lparr>io_step := n\<rparr>) = (int (length ?rows) + 1, w\<lparr>io_step := Suc n\<rparr>)" for n
    using assms(1,3) by (simp add: recidive_level_def ban_RecidiveLevel_def and_then_def io_call_ok all)
  have e: "be_IP ?e = dc_IP d" "be_Status ?e = BanActive" "be_CreatedAt ?e = ?now"
    by (simp_all add: new_ban_def executed_entry_def Let_def)
  have up: "ban_Upsert ?e (w\<lparr>io_step := n, bl_Adds := as\<rparr>) = (Inr (), w\<lparr>io_step := Suc (Suc n), bl_Adds := as,
      bl_Rows := bl_Rows w @ [(bl_NextID w, ?e)], bl_NextID := bl_NextID w + 1\<rparr>)" for n as
    using assms(1,2,4) none
    by (simp add: ban_Upsert_def e BanActive_def writable_simps and_then_def io_call_def no_faults_def go_time inserted_new_ban)
  have "ExecuteBan bx d w = record_ban bx ?e (w\<lparr>io_step := Suc (Suc (Suc (io_step w))),
      bl_Adds := bl_Adds w @ [(dc_IP d, ''cf-sync:autoban:'' @ dc_Reason d @ '':exp='' @ RFC3339 (be_ExpiresAt ?e))]\<rparr>)"
    by (simp add: ExecuteBan_def time_Now_def level assms(6) new_ban_def Let_def time_add_def executed_entry_def)
  then show ?thesis using assms(1-3,7) by (auto simp: record_ban_def up no_faults_def)
qed

lemma completed_rows:
  assumes "\<And>q. q \<in> set rows \<Longrightarrow> \<not> is_active q"
  shows "filter is_active (update_row i (\<lambda>e. e\<lparr>be_Status := BanExpiredCleaned\<rparr>) (rows @ [(i, e)])) = []"
proof -
  have "\<not> is_active q" if "q \<in> set (update_row i (\<lambda>e. e\<lparr>be_Status := BanExpiredCleaned\<rparr>) (rows @ [(i, e)]))" for q
    using in_update_row [OF that] assms [of q]
    by (cases "fst q = i") (auto simp: is_active_def BanExpiredCleaned_def BanActive_def)
  then show ?thesis by (metis filter_False)
qed

text \<open>
  C7: the cycle of bans. When an address has \<open>n\<close> bans, all completed, and none of them is dated in the future, a ban that Cloudflare
  accepts is recorded as the one active ban of the address, for the duration of level \<open>n + 1\<close> of the policy and at most a day;
  and a cleanup pass at or after its expiry, with a working client and database, leaves the address
  with \<open>n + 1\<close> bans that are all completed, so that the next ban has the next level.
\<close>

theorem ban_cycle:
  fixes w :: "'z ban_env_scheme"
  assumes "bans_ok w" and "no_faults w" and "\<not> db_ReadOnly w" and "bx_store bx"
    and "now = io_clock w (io_step w)" and "0 < now"
    and "\<forall>q \<in> set (bl_Rows w). be_IP (snd q) = dc_IP d \<longrightarrow> \<not> is_active q \<and> be_CreatedAt (snd q) \<le> now"
    and "\<forall>n ip tag. bx_AddIPAccessRule bx n ip tag = Inr ruleID"
    and "n = length (rows_of (dc_IP d) (bl_Rows w))" and "dur = DurationFor (effective_durations bx) (int n + 1)"
    and "ExecuteBan bx d w = (r1, w1)"
    and "now + dur \<le> io_clock w k" and "client_works wk" and "cleanup_Run wk (w1\<lparr>io_step := k\<rparr>) = (r2, w2)"
  shows "r1 = Inr () \<and> dur \<le> 24 * Hour \<and>
    (\<exists>e. map snd (filter is_active (rows_of (dc_IP d) (bl_Rows w1))) = [e] \<and> be_RuleID e = ruleID \<and> be_RecidiveLevel e = int n + 1 \<and>
       be_Duration e = dur \<and> be_CreatedAt e = now \<and> be_ExpiresAt e = now + dur) \<and>
    length (rows_of (dc_IP d) (bl_Rows w2)) = n + 1 \<and> filter is_active (rows_of (dc_IP d) (bl_Rows w2)) = [] \<and> r2 = Inr ()"
proof -
  let ?ip = "dc_IP d" and ?i = "bl_NextID w"
  define e where "e = new_ban bx d ruleID (int n + 1) now"
  have fields: "be_IP e = ?ip" "be_Status e = BanActive" "be_RuleID e = ruleID" "be_RecidiveLevel e = int n + 1" "be_Duration e = dur"
    "be_CreatedAt e = now" "be_ExpiresAt e = now + dur"
    by (simp_all add: e_def new_ban_def executed_entry_def Let_def assms(10))
  have quiet: "\<not> is_active q" "be_CreatedAt (snd q) \<le> now" if "q \<in> set (bl_Rows w)" "be_IP (snd q) = ?ip" for q
    using assms(7) that by blast+
  have w1: "r1 = Inr ()" "bl_Rows w1 = bl_Rows w @ [(?i, e)]" "io_clock w1 = io_clock w" "no_faults w1" "\<not> db_ReadOnly w1"
    using ExecuteBan_new [OF assms(2-4) _ quiet(1) _ assms(11), of ruleID] assms(5,6,8,9) unfolding e_def by blast+
  have rows1: "rows_of ?ip (bl_Rows w1) = rows_of ?ip (bl_Rows w) @ [(?i, e)]" by (simp add: w1(2) rows_of_def fields)
  have none: "filter is_active (rows_of ?ip (bl_Rows w)) = []" using quiet(1) by (simp add: rows_of_def filter_empty_conv)
  have ok1: "rows_ok (bl_Rows w1) (bl_NextID w1)" using ExecuteBan_ok [OF assms(1), of bx d] assms(11) by (simp add: bans_ok_def)
  have newest: "newest_row ?ip (bl_Rows w1) = Some (?i, e)"
  proof (rule newest_rowI)
    fix q
    assume "q \<in> set (bl_Rows w1)" "be_IP (snd q) = ?ip" "q \<noteq> (?i, e)"
    then have q: "q \<in> set (bl_Rows w)" "be_IP (snd q) = ?ip" by (auto simp: w1(2))
    then have "fst q < ?i" using rows_okD(2) [OF assms(1) [unfolded bans_ok_def]] by blast
    then show "row_key q < row_key (?i, e)" using quiet(2) [OF q] by (simp add: row_key_def fields)
  qed (simp_all add: w1(2) fields)
  let ?es = "map snd (sort_key row_key (filter (\<lambda>q. is_active q \<and> be_ExpiresAt (snd q) \<le> io_clock w k) (bl_Rows w1)))"
  have "cleanup_Run wk (w1\<lparr>io_step := k\<rparr>) = (Inr (), cleanup_entries wk ?es None (w1\<lparr>io_step := Suc (Suc k)\<rparr>))"
    using w1(3,4) by (simp add: cleanup_Run_def time_Now_def ban_Expired_def io_call_ok and_then_def)
  then have w2: "r2 = Inr ()" "w2 = cleanup_entries wk ?es None (w1\<lparr>io_step := Suc (Suc k)\<rparr>)" using assms(14) by simp_all
  have "e \<in> set ?es" using assms(12) by (force simp: w1(2) is_active_def fields)
  then have rows2: "rows_of ?ip (bl_Rows w2) = update_row ?i (\<lambda>e. e\<lparr>be_Status := BanExpiredCleaned\<rparr>) (rows_of ?ip (bl_Rows w1))"
    using cleanup_entries_completes [of wk None "w1\<lparr>io_step := Suc (Suc k)\<rparr>" e ?i ?es] expired_distinct [OF ok1] rows_okD(1) [OF ok1] w1(4,5)
      newest assms(13) fields(1) w2(2) by (simp add: cache_ok_def)
  have finished: "filter is_active (rows_of ?ip (bl_Rows w2)) = []"
    unfolding rows2 rows1 by (rule completed_rows) (use quiet(1) in \<open>auto simp: rows_of_def\<close>)
  have dur: "dur \<le> 24 * Hour" by (simp add: assms(10) DurationFor_def MaxBanDuration_def Let_def)
  have one: "map snd (filter is_active (rows_of ?ip (bl_Rows w1))) = [e]" using none by (simp add: rows1 is_active_def fields)
  have len: "length (rows_of ?ip (bl_Rows w2)) = n + 1" by (simp add: rows2 rows1 update_row_def assms(9))
  show ?thesis by (intro conjI exI [of _ e]) (simp_all only: w1(1) dur one fields len finished w2(1))
qed

definition ban_clock :: "nat \<Rightarrow> go_time" where
  "ban_clock n = 7200000000000 + 3600000000000 * int n"

definition recidivist :: ban_env where
  "recidivist = sample_bans\<lparr>io_clock := ban_clock, bl_Rows := [(1, sample_ban\<lparr>be_Status := BanExpiredCleaned\<rparr>)]\<rparr>"

definition accepting_executor :: ban_executor where
  "accepting_executor = \<lparr>bx_AddIPAccessRule = (\<lambda>_ _ _. Inr ''r9''), bx_ListByNotePrefix = (\<lambda>_ _. Inr []), bx_store = True,
     bx_durations = DefaultDurationPolicy\<rparr>"

definition burst_decision :: ban_decision where
  "burst_decision = ban live_evaluator ''198.51.100.7'' ''burst'' 90"

theorem ban_cycle_witness:
  "(let w1 = snd (ExecuteBan accepting_executor burst_decision recidivist); w2 = snd (cleanup_Run sample_worker (w1\<lparr>io_step := 6\<rparr>)) in
    map (be_Duration \<circ> snd) (filter is_active (rows_of ''198.51.100.7'' (bl_Rows w1))) = [6 * Hour] \<and>
    length (rows_of ''198.51.100.7'' (bl_Rows w2)) = 2 \<and> filter is_active (rows_of ''198.51.100.7'' (bl_Rows w2)) = [])"
proof -
  let ?w1 = "snd (ExecuteBan accepting_executor burst_decision recidivist)"
  let ?w2 = "snd (cleanup_Run sample_worker (?w1\<lparr>io_step := 6\<rparr>))"
  have ip: "dc_IP burst_decision = ''198.51.100.7''" by (simp add: burst_decision_def ban_def)
  have rows: "bl_Rows recidivist = [(1, sample_ban\<lparr>be_Status := BanExpiredCleaned\<rparr>)]" by (simp add: recidivist_def)
  have ok: "bans_ok recidivist" "no_faults recidivist" "\<not> db_ReadOnly recidivist" "bx_store accepting_executor"
    by (simp_all add: bans_ok_def rows_ok_def recidivist_def sample_bans_def no_faults_def accepting_executor_def)
  have now: "7200000000000 = io_clock recidivist (io_step recidivist)" by (simp add: recidivist_def sample_bans_def ban_clock_def)
  have past: "\<forall>q \<in> set (bl_Rows recidivist). be_IP (snd q) = dc_IP burst_decision \<longrightarrow> \<not> is_active q \<and> be_CreatedAt (snd q) \<le> 7200000000000"
    by (simp add: rows is_active_def sample_ban_def BanExpiredCleaned_def BanActive_def)
  have one: "1 = length (rows_of (dc_IP burst_decision) (bl_Rows recidivist))" by (simp add: rows rows_of_def ip sample_ban_def)
  have dur: "6 * Hour = DurationFor (effective_durations accepting_executor) (int 1 + 1)"
    by (simp add: effective_durations_def accepting_executor_def DefaultDurationPolicy_def DurationFor_def MaxBanDuration_def Hour_def)
  have later: "7200000000000 + 6 * Hour \<le> io_clock recidivist 6"
    by (simp add: recidivist_def ban_clock_def Hour_def)
  have add: "\<forall>n ip tag. bx_AddIPAccessRule accepting_executor n ip tag = Inr ''r9''" by (simp add: accepting_executor_def)
  have client: "client_works sample_worker" by (simp add: client_works_def sample_worker_def)
  have "map snd (filter is_active (rows_of ''198.51.100.7'' (bl_Rows ?w1))) = [e] \<Longrightarrow> be_Duration e = 6 * Hour \<Longrightarrow>
     map (be_Duration \<circ> snd) (filter is_active (rows_of ''198.51.100.7'' (bl_Rows ?w1))) = [6 * Hour]" for e
    by (metis list.map(1,2) list.map_comp)
  then show ?thesis
    using ban_cycle [OF ok now _ past add one dur surjective_pairing later client surjective_pairing] unfolding ip Let_def by auto
qed

text \<open>While the database is in its read-only degraded mode a ban is not recorded, and the guard against repeated bans
  is set for the duration of the previous ban of the address and not for that of the ban just created.\<close>

lemma degraded_guard_too_short:
  fixes w :: "'z ban_env_scheme"
  assumes "db_ReadOnly w" and "no_faults w" and "bx_store bx" and "newest_row (dc_IP d) (bl_Rows w) = Some (i, e)" and "0 < be_Duration e"
    and "\<And>n ip tag. bx_AddIPAccessRule bx n ip tag = Inr ruleID" and "ExecuteBan bx d w = (r, w')"
  shows "r = Inr () \<and> map_option br_ttl (bd_bans (ev_dedup (fst (recordBanAfterExecute bx (dc_IP d) ev w'))) (dc_IP d)) = Some (be_Duration e)"
proof -
  have up: "ban_Upsert x v = (Inl (New ''storage.sqlite.BanLifecycleStore.Upsert'' ''sqlite database is in read-only degraded mode''), v)"
    if "db_ReadOnly v" for x and v :: "'z ban_env_scheme" using that by (simp add: ban_Upsert_def writable_simps)
  have "recidive_level bx (dc_IP d) (w\<lparr>io_step := n\<rparr>) = (int (length (filter (\<lambda>r. \<not> is_active r) (rows_of (dc_IP d) (bl_Rows w)))) + 1, w\<lparr>io_step := Suc n\<rparr>)" for n
    using assms(2,3) by (simp add: recidive_level_def ban_RecidiveLevel_def and_then_def io_call_ok)
  then have "r = Inr ()" "bl_Rows w' = bl_Rows w" "no_faults w'"
    using assms(1-3,7) by (auto simp: ExecuteBan_def time_Now_def Let_def assms(6) record_ban_def up no_faults_def)
  then show ?thesis using assms(3-5)
    by (simp add: recordBanAfterExecute_def LastBanDuration_def ban_Get_def io_call_ok and_then_def RecordBanWithDuration_def time_Now_def MarkBanned_def Let_def)
qed

end
