(* ===== verification/Risk.thy ===== *)
theory Risk
  imports Protection Reputation Go_Sha256
begin

text \<open>
  What the reporting service makes of an event before it decides: \<open>internal/security/baseline\<close> (the paths that a
  browser loads anyway), \<open>internal/security/risk\<close> (the score of an event), \<open>internal/security/classifier\<close>,
  \<open>internal/security/abuseformat\<close> (the comment of a report) and the pure functions of
  \<open>internal/services/reporting/policy.go\<close>. A confidence is one of the decimal constants of the source
  and is given in hundredths. The paths of events are percent-encoded and so ASCII, where \<open>lower_text\<close> is
  \<open>strings.ToLower\<close>.
\<close>

section \<open>The baseline\<close>

definition baseline_assets :: "string list" where
  "baseline_assets = [''/'', ''/favicon.ico'', ''/robots.txt'', ''/sitemap.xml'', ''/manifest.json'', ''/apple-touch-icon.png'', ''/browserconfig.xml'']"

definition baseline_prefixes :: "string list" where
  "baseline_prefixes = [''/css/'', ''/js/'', ''/fonts/'', ''/images/'', ''/img/'', ''/assets/'']"

definition baseline_Match :: "string \<Rightarrow> bool" where
  "baseline_Match path = (let normalized = TrimSpace (lower_text path) in
     normalized \<in> set baseline_assets \<or> (\<exists>p \<in> set baseline_prefixes. HasPrefix normalized p))"

section \<open>The score\<close>

definition CategoryBenignBootstrap :: string where "CategoryBenignBootstrap = ''benign_bootstrap''"
definition CategoryBenignProbe :: string where "CategoryBenignProbe = ''benign_probe''"
definition CategorySuspiciousProbe :: string where "CategorySuspiciousProbe = ''suspicious_probe''"
definition CategoryWordPressProbe :: string where "CategoryWordPressProbe = ''wordpress_probe''"
definition CategoryScanner :: string where "CategoryScanner = ''scanner''"
definition CategoryExploitAttempt :: string where "CategoryExploitAttempt = ''exploit_attempt''"
definition CategoryCredentialAttack :: string where "CategoryCredentialAttack = ''credential_attack''"
definition CategoryAppSecAttack :: string where "CategoryAppSecAttack = ''appsec_attack''"
definition CategoryConfirmedAbuse :: string where "CategoryConfirmedAbuse = ''confirmed_abuse''"

lemmas category_defs = CategoryBenignBootstrap_def CategoryBenignProbe_def CategorySuspiciousProbe_def CategoryWordPressProbe_def
  CategoryScanner_def CategoryExploitAttempt_def CategoryCredentialAttack_def CategoryAppSecAttack_def CategoryConfirmedAbuse_def

definition DecisionObserveOnly :: string where "DecisionObserveOnly = ''observe_only''"
definition DecisionSoftMitigation :: string where "DecisionSoftMitigation = ''soft_mitigation''"
definition DecisionLocalBlock :: string where "DecisionLocalBlock = ''local_block''"
definition DecisionPropagableBan :: string where "DecisionPropagableBan = ''propagable_ban''"

record risk_event =
  re_URIs :: "string list"
  re_UserAgent :: string
  re_Action :: string
  re_RuleName :: string
  re_Source :: string
  re_Hits :: int
  re_Allowlisted :: bool

record assessment =
  as_Score :: int
  as_AbuseType :: string
  as_Decision :: string
  as_Evidence :: "string list"
  as_BenignProbe :: bool
  as_Confidence :: nat
  as_SuppressedLowSignal :: bool

text \<open>\<open>strings.ToUpper\<close> compared with words that have no S and no I.\<close>

definition upper_text :: "string \<Rightarrow> string" where
  "upper_text s = map (\<lambda>c. let n = of_char c :: nat in if 97 \<le> n \<and> n \<le> 122 then char_of (n - 32) else c) s"

definition isBaselineBootstrap :: "string \<Rightarrow> string \<Rightarrow> bool" where
  "isBaselineBootstrap uri method \<longleftrightarrow> method \<in> {[], ''GET'', ''HEAD'', ''BLOCK'', ''ALLOW''} \<and> baseline_Match uri"

text \<open>The loop with its set of texts already seen.\<close>

fun dedup_seen :: "string list \<Rightarrow> string list \<Rightarrow> string list" where
  "dedup_seen seen [] = []"
| "dedup_seen seen (t # ts) = (if t = [] \<or> t \<in> set seen then dedup_seen seen ts else t # dedup_seen (t # seen) ts)"

definition dedupNormalizeURIs :: "string list \<Rightarrow> string list" where
  "dedupNormalizeURIs uris = dedup_seen [] (map (\<lambda>u. TrimSpace (lower_text u)) uris)"

definition isBenignURI :: "string \<Rightarrow> bool" where
  "isBenignURI uri \<longleftrightarrow> uri \<in> {''/favicon.ico'', ''/robots.txt'', ''/sitemap.xml'', ''/apple-touch-icon.png'', ''/manifest.json'', ''/browserconfig.xml'',
     ''/health'', ''/healthz'', ''/ping''}"

definition contains_any :: "string \<Rightarrow> string list \<Rightarrow> bool" where
  "contains_any s ts \<longleftrightarrow> (\<exists>t \<in> set ts. Contains s t)"

definition isWordPressURI :: "string \<Rightarrow> bool" where
  "isWordPressURI uri = contains_any uri [''/wp-login.php'', ''/xmlrpc.php'', ''/wp-admin/'', ''/wp-content'']"

definition isSensitiveExtension :: "string \<Rightarrow> bool" where
  "isSensitiveExtension uri = contains_any uri [''.env'', ''.bak'', ''.sql'', ''.zip'']"

definition isTraversal :: "string \<Rightarrow> bool" where
  "isTraversal uri = contains_any uri [''../'', ''%2e%2e'', ''/etc/passwd'']"

definition isExploitPayload :: "string \<Rightarrow> bool" where
  "isExploitPayload uri = contains_any uri [''union+select'', ''<script'', ''cmd='', ''exec='']"

definition isKnownScannerUA :: "string \<Rightarrow> bool" where
  "isKnownScannerUA ua = contains_any ua [''sqlmap'', ''nikto'', ''nmap'', ''python-requests'', ''curl/'']"

definition isLegitCrawler :: "string \<Rightarrow> bool" where
  "isLegitCrawler ua = contains_any ua [''googlebot'', ''bingbot'', ''uptimerobot'', ''better uptime'', ''facebookexternalhit'', ''slackbot'']"

definition confidenceFromScore :: "int \<Rightarrow> nat" where
  "confidenceFromScore score = (if score \<ge> 20 then 95 else if score \<ge> 10 then 82 else if score \<ge> 5 then 65 else 25)"

definition severity_order :: "string \<Rightarrow> nat" where
  "severity_order t = (case map_of [(CategoryBenignBootstrap, 1), (CategoryBenignProbe, 1), (CategorySuspiciousProbe, 2), (CategoryWordPressProbe, 3),
     (CategoryScanner, 4), (CategoryCredentialAttack, 5), (CategoryAppSecAttack, 6), (CategoryExploitAttempt, 7), (CategoryConfirmedAbuse, 8)] t of
     Some n \<Rightarrow> n | None \<Rightarrow> 0)"

definition maxSeverity :: "string \<Rightarrow> string \<Rightarrow> string" where
  "maxSeverity a b = (if severity_order b > severity_order a then b else a)"

text \<open>The variables of the loop over the paths.\<close>

record uri_scan =
  us_score :: int
  us_evidence :: "string list"
  us_abuseType :: string
  us_onlyBenign :: bool
  us_onlyBootstrap :: bool

definition scan_uri :: "string \<Rightarrow> string \<Rightarrow> uri_scan \<Rightarrow> uri_scan" where
  "scan_uri method uri s =
     (if isBaselineBootstrap uri method then
        s\<lparr>us_score := us_score s + 1, us_evidence := us_evidence s @ [''baseline_bootstrap:'' @ uri], us_onlyBenign := False\<rparr>
      else if isBenignURI uri then
        s\<lparr>us_score := us_score s + 1, us_evidence := us_evidence s @ [''benign_uri:'' @ uri], us_onlyBootstrap := False\<rparr>
      else
        let t = s\<lparr>us_onlyBenign := False, us_onlyBootstrap := False\<rparr> in
        if isWordPressURI uri then
          t\<lparr>us_score := us_score s + 3, us_abuseType := CategoryWordPressProbe, us_evidence := us_evidence s @ [''wordpress_probe:'' @ uri]\<rparr>
        else if isSensitiveExtension uri then
          t\<lparr>us_score := us_score s + 10, us_abuseType := CategoryExploitAttempt, us_evidence := us_evidence s @ [''sensitive_extension:'' @ uri]\<rparr>
        else if isTraversal uri then
          t\<lparr>us_score := us_score s + 10, us_abuseType := CategoryExploitAttempt, us_evidence := us_evidence s @ [''traversal:'' @ uri]\<rparr>
        else if isExploitPayload uri then
          t\<lparr>us_score := us_score s + 10, us_abuseType := CategoryExploitAttempt, us_evidence := us_evidence s @ [''payload:'' @ uri]\<rparr>
        else t)"

definition scan_uris :: "string \<Rightarrow> string list \<Rightarrow> uri_scan" where
  "scan_uris method uris = fold (scan_uri method) uris
     \<lparr>us_score = 0, us_evidence = [], us_abuseType = CategoryBenignProbe, us_onlyBenign = uris \<noteq> [], us_onlyBootstrap = uris \<noteq> []\<rparr>"

definition cf_explicit_block :: "risk_event \<Rightarrow> bool" where
  "cf_explicit_block ev \<longleftrightarrow> EqualFold_ascii ''block'' (re_Action ev) \<and>
     (EqualFold_ascii ''firewallCustom'' (re_Source ev) \<or> EqualFold_ascii ''firewallRules'' (re_Source ev) \<or> EqualFold_ascii ''firewallManaged'' (re_Source ev))"

text \<open>The part of \<open>Assess\<close> after the early return for a page load: the score, the kind of abuse and the evidence.\<close>

definition assess_signals :: "risk_event \<Rightarrow> uri_scan \<Rightarrow> int \<times> string \<times> string list" where
  "assess_signals ev s =
     (let ua = lower_text (re_UserAgent ev); ruleName = lower_text (re_RuleName ev);
          (score1, evidence1) = (if isLegitCrawler ua then (us_score s - 2, us_evidence s @ [''legit_crawler'']) else (us_score s, us_evidence s));
          (score2, abuse2, evidence2) =
            (if isKnownScannerUA ua then
               (score1 + 5, if us_abuseType s = CategoryBenignProbe \<or> us_abuseType s = CategorySuspiciousProbe then CategoryScanner else us_abuseType s,
                evidence1 @ [''scanner_user_agent''])
             else (score1, us_abuseType s, evidence1));
          (score3, abuse3, evidence3) =
            (if contains_any ruleName [''coraza'', ''crs'', ''owasp''] then
               (score2 + 10, if abuse2 \<noteq> CategoryExploitAttempt then CategoryAppSecAttack else abuse2, evidence2 @ [''appsec_signature''])
             else (score2, abuse2, evidence2));
          (score4, evidence4) =
            (if re_Hits ev \<ge> 10 then (score3 + 10, evidence3 @ [''high_hit_count''])
             else if re_Hits ev \<ge> 3 then (score3 + 5, evidence3 @ [''repeat_hits'']) else (score3, evidence3));
          score5 = (if score4 < 0 then 0 else score4);
          abuse5 = (if us_onlyBootstrap s then CategoryBenignBootstrap else abuse3);
          abuse6 = (if us_onlyBenign s then CategoryBenignProbe else abuse5);
          (score7, abuse7, evidence7) =
            (if cf_explicit_block ev then
               (score5 + 10, if abuse6 = CategoryBenignBootstrap \<or> abuse6 = CategoryBenignProbe then CategorySuspiciousProbe else abuse6,
                evidence4 @ [''cf_rule_block:'' @ re_Source ev])
             else (score5, abuse6, evidence4));
          abuse8 = (if abuse7 = CategoryBenignProbe \<and> score7 \<ge> 5 then CategorySuspiciousProbe else abuse7);
          abuse9 = (if score7 \<ge> 20 then maxSeverity abuse8 CategoryConfirmedAbuse else abuse8)
      in (score7, abuse9, evidence7))"

definition Assess :: "risk_event \<Rightarrow> assessment" where
  "Assess ev =
     (if re_Allowlisted ev then
        \<lparr>as_Score = 0, as_AbuseType = CategoryBenignProbe, as_Decision = DecisionObserveOnly, as_Evidence = [''allowlisted''],
         as_BenignProbe = True, as_Confidence = 10, as_SuppressedLowSignal = True\<rparr>
      else
        let s = scan_uris (upper_text (re_Action ev)) (dedupNormalizeURIs (re_URIs ev)) in
        if us_onlyBootstrap s \<and> \<not> cf_explicit_block ev then
          \<lparr>as_Score = us_score s, as_AbuseType = CategoryBenignBootstrap, as_Decision = DecisionObserveOnly, as_Evidence = us_evidence s,
           as_BenignProbe = False, as_Confidence = 15, as_SuppressedLowSignal = True\<rparr>
        else
          let (score, abuseType, evidence) = assess_signals ev s;
              decision = (if score \<ge> 20 then DecisionPropagableBan else if score \<ge> 10 then DecisionLocalBlock
                          else if score \<ge> 5 then DecisionSoftMitigation else DecisionObserveOnly);
              confidence = confidenceFromScore score
          in \<lparr>as_Score = score, as_AbuseType = abuseType, as_Decision = decision, as_Evidence = evidence,
              as_BenignProbe = (abuseType = CategoryBenignProbe),
              as_Confidence = (if isKnownScannerUA (lower_text (re_UserAgent ev)) \<and> confidence < 75 then 75 else confidence),
              as_SuppressedLowSignal = (score < 5)\<rparr>)"

section \<open>Classification\<close>

record waf_event =
  we_IP :: string
  we_URI :: string
  we_URIs :: "string list"
  we_Hostname :: string
  we_UserAgent :: string
  we_Action :: string
  we_RuleID :: string
  we_RuleName :: string
  we_Source :: string
  we_Timestamp :: go_time
  we_Hits :: int
  we_WindowSec :: int

record classification =
  cs_AbuseType :: string
  cs_RiskScore :: int
  cs_Confidence :: nat
  cs_Categories :: "string list"
  cs_Evidence :: "string list"
  cs_SuspectedLowConf :: bool
  cs_EnforcementStage :: string

definition mapCategories :: "string \<Rightarrow> string list" where
  "mapCategories t =
     (if t = CategoryBenignBootstrap then []
      else if t = CategoryWordPressProbe then [''Web App Attack'', ''Bad Web Bot'']
      else if t = CategoryScanner \<or> t = CategorySuspiciousProbe then [''Bad Web Bot'']
      else if t = CategoryCredentialAttack then [''Brute-Force'', ''Web App Attack'']
      else if t = CategoryExploitAttempt \<or> t = CategoryAppSecAttack \<or> t = CategoryConfirmedAbuse then [''Web App Attack'']
      else [''Bad Web Bot''])"

definition classified_event :: "waf_event \<Rightarrow> risk_event" where
  "classified_event e =
     \<lparr>re_URIs = (if we_URIs e = [] \<and> we_URI e \<noteq> [] then [we_URI e] else we_URIs e), re_UserAgent = we_UserAgent e, re_Action = we_Action e,
      re_RuleName = we_RuleName e, re_Source = we_Source e, re_Hits = we_Hits e, re_Allowlisted = False\<rparr>"

definition Classify :: "waf_event \<Rightarrow> classification" where
  "Classify e =
     (let a = Assess (classified_event e) in
      \<lparr>cs_AbuseType = as_AbuseType a, cs_RiskScore = as_Score a, cs_Confidence = as_Confidence a, cs_Categories = mapCategories (as_AbuseType a),
       cs_Evidence = as_Evidence a, cs_SuspectedLowConf = (as_Confidence a < 70 \<or> as_SuppressedLowSignal a), cs_EnforcementStage = as_Decision a\<rparr>)"

section \<open>Comments\<close>

definition SourceCrowdSecWAF :: string where "SourceCrowdSecWAF = ''crowdsec_waf''"
definition SourceOpenRestyWAF :: string where "SourceOpenRestyWAF = ''openresty_waf''"
definition SourceCloudflareWAF :: string where "SourceCloudflareWAF = ''cloudflare_waf''"
definition SourceNginxError :: string where "SourceNginxError = ''nginx_http_error''"

definition maxCommentLength :: nat where "maxCommentLength = 300"
definition maxURIs :: nat where "maxURIs = 5"

text \<open>The confidence is given by its text with two decimals.\<close>

record comment_input =
  ci_Source :: string
  ci_Hits :: int
  ci_WindowSec :: int
  ci_Action :: string
  ci_AbuseType :: string
  ci_Categories :: "string list"
  ci_RuleID :: string
  ci_URIs :: "string list"
  ci_Confidence :: string

definition sourcePrefix :: "string \<Rightarrow> string" where
  "sourcePrefix s =
     (if s = SourceCrowdSecWAF then ''CrowdSec WAF'' else if s = SourceOpenRestyWAF then ''OpenResty WAF''
      else if s = SourceNginxError then ''Nginx HTTP Error'' else ''Cloudflare WAF'')"

definition normalizeCategories :: "string list \<Rightarrow> string list" where
  "normalizeCategories cs = sort (dedup_seen [] (map TrimSpace cs))"

definition normalizeURIs :: "string list \<Rightarrow> string list" where
  "normalizeURIs us = take maxURIs (sort (dedup_seen [] (map TrimSpace us)))"

text \<open>The three bytes of the ellipsis.\<close>

definition ellipsis :: string where "ellipsis = map char_of [0xE2, 0x80, 0xA6 :: nat]"

definition full_comment :: "comment_input \<Rightarrow> string" where
  "full_comment i =
     sourcePrefix (ci_Source i) @ '': '' @ show_int (ci_Hits i) @ '' hits in '' @ show_int (ci_WindowSec i) @ ''s | action='' @ ci_Action i @
     '' | abuse='' @ ci_AbuseType i @ '' | categories='' @ comma_join (normalizeCategories (ci_Categories i)) @
     '' | rule_id='' @ (if ci_RuleID i = [] then ''unknown'' else ci_RuleID i) @
     '' | URIs='' @ comma_join (normalizeURIs (ci_URIs i)) @ '' | confidence='' @ ci_Confidence i"

definition Build :: "comment_input \<Rightarrow> string" where
  "Build i = (let comment = full_comment i in
     if length comment > maxCommentLength then take (maxCommentLength - 1) comment @ ellipsis else comment)"

section \<open>The pure functions of the reporting policy\<close>

definition telemetrySource :: "string \<Rightarrow> string" where
  "telemetrySource s = (if s = SourceCrowdSecWAF then ''crowdsec_waf'' else if s = SourceOpenRestyWAF then ''openresty_waf'' else ''cloudflare_waf'')"

definition eventURIs :: "waf_event \<Rightarrow> string list" where
  "eventURIs e = (if we_URIs e \<noteq> [] then we_URIs e else if we_URI e = [] then [] else [we_URI e])"

definition ruleID :: "string \<Rightarrow> string" where
  "ruleID i = (if TrimSpace i = [] then ''unknown'' else i)"

text \<open>The sorted identifiers are few, and equal ones are neighbours; an empty one would not be kept.\<close>

fun drop_repeats :: "string \<Rightarrow> string list \<Rightarrow> string list" where
  "drop_repeats prev [] = []"
| "drop_repeats prev (i # ids) = (if i = prev then drop_repeats prev ids else i # drop_repeats i ids)"

definition category_id :: "string \<Rightarrow> string list" where
  "category_id c = (if c = ''Bad Web Bot'' then [''19''] else if c = ''Brute-Force'' then [''18''] else if c = ''Web App Attack'' then [''21''] else [])"

definition categoryIDs :: "string list \<Rightarrow> string" where
  "categoryIDs cs = comma_join (drop_repeats [] (sort (concat (map category_id cs))))"

definition reputationLocalSignal :: "classification \<Rightarrow> string" where
  "reputationLocalSignal c =
     (if cs_AbuseType c \<in> {''benign_bootstrap'', ''benign_probe'', []} then SignalNone
      else if cs_AbuseType c \<in> {''exploit_attempt'', ''appsec_attack'', ''confirmed_abuse''} then SignalConfirmedHostile
      else SignalWeak)"

definition severityFor :: "string \<Rightarrow> string" where
  "severityFor t =
     (if t \<in> {''benign_bootstrap'', ''benign_probe''} then ''info''
      else if t \<in> {''suspicious_probe'', ''wordpress_probe''} then ''warning''
      else if t = ''exploit_attempt'' then ''high'' else if t = ''confirmed_abuse'' then ''critical'' else ''warning'')"

definition bar :: "string list \<Rightarrow> string" where
  "bar = join_char CHR ''|''"

definition fingerprint :: "string \<Rightarrow> waf_event \<Rightarrow> classification \<Rightarrow> string" where
  "fingerprint source e c =
     ''report-'' @ take 16 (sha256_hex (bar [source, we_IP e, comma_join (eventURIs e), we_RuleID e, cs_AbuseType c]))"

definition executionID :: "string \<Rightarrow> waf_event \<Rightarrow> classification \<Rightarrow> string" where
  "executionID source e c = ''exec-'' @ fingerprint source e c"

definition decisionEvidenceID :: "string \<Rightarrow> waf_event \<Rightarrow> classification \<Rightarrow> string \<Rightarrow> go_time \<Rightarrow> string" where
  "decisionEvidenceID source e c suppressionReason now =
     ''report-ev-'' @ take 16 (sha256_hex (bar [source, we_IP e, comma_join (eventURIs e), we_RuleID e, cs_AbuseType c, suppressionReason, RFC3339Nano now]))"

definition decisionKind :: "bool \<Rightarrow> bool \<Rightarrow> string" where
  "decisionKind reported suppressed = (if reported then ''reported'' else if suppressed then ''suppressed'' else ''observed'')"

definition evidenceInputHash :: "string \<Rightarrow> waf_event \<Rightarrow> string" where
  "evidenceInputHash source e =
     sha256_hex (bar [source, we_IP e, we_Hostname e, comma_join (eventURIs e), we_UserAgent e, we_Action e, we_RuleID e, we_RuleName e, RFC3339Nano (we_Timestamp e)])"

definition evidenceDecisionHash :: "string \<Rightarrow> classification \<Rightarrow> string \<Rightarrow> string \<Rightarrow> string" where
  "evidenceDecisionHash comment c decision suppressionReason =
     sha256_hex (bar [comment, cs_AbuseType c, comma_join (cs_Categories c), decision, suppressionReason])"

section \<open>What the score means\<close>

definition uri_points :: "string \<Rightarrow> string \<Rightarrow> int" where
  "uri_points method uri =
     (if isBaselineBootstrap uri method \<or> isBenignURI uri then 1
      else if isWordPressURI uri then 3
      else if isSensitiveExtension uri \<or> isTraversal uri \<or> isExploitPayload uri then 10 else 0)"

lemma scan_uri_score: "us_score (scan_uri m u s) = us_score s + uri_points m u"
  by (simp add: scan_uri_def uri_points_def Let_def)

lemma fold_scan_score: "us_score (fold (scan_uri m) us s) = us_score s + sum_list (map (uri_points m) us)"
  by (induction us arbitrary: s) (simp_all add: scan_uri_score)

lemma scan_uri_flags:
  "us_onlyBootstrap (scan_uri m u s) \<longleftrightarrow> us_onlyBootstrap s \<and> isBaselineBootstrap u m"
  "us_onlyBenign (scan_uri m u s) \<longleftrightarrow> us_onlyBenign s \<and> isBenignURI u \<and> \<not> isBaselineBootstrap u m"
  by (simp_all add: scan_uri_def Let_def)

lemma fold_scan_flags:
  "us_onlyBootstrap (fold (scan_uri m) us s) \<longleftrightarrow> us_onlyBootstrap s \<and> (\<forall>u \<in> set us. isBaselineBootstrap u m)"
  "us_onlyBenign (fold (scan_uri m) us s) \<longleftrightarrow> us_onlyBenign s \<and> (\<forall>u \<in> set us. isBenignURI u \<and> \<not> isBaselineBootstrap u m)"
  by (induction us arbitrary: s) (auto simp: scan_uri_flags)

lemma scan_uris_score: "us_score (scan_uris m us) = sum_list (map (uri_points m) us)"
  by (simp add: scan_uris_def fold_scan_score)

lemma scan_uris_flags:
  "us_onlyBootstrap (scan_uris m us) \<longleftrightarrow> us \<noteq> [] \<and> (\<forall>u \<in> set us. isBaselineBootstrap u m)"
  "us_onlyBenign (scan_uris m us) \<longleftrightarrow> us \<noteq> [] \<and> (\<forall>u \<in> set us. isBenignURI u \<and> \<not> isBaselineBootstrap u m)"
  by (simp_all add: scan_uris_def fold_scan_flags)

text \<open>The points of an event, and whether all of it is the loading of a page.\<close>

definition signal_points :: "risk_event \<Rightarrow> int" where
  "signal_points ev =
     (if isLegitCrawler (lower_text (re_UserAgent ev)) then -2 else 0) + (if isKnownScannerUA (lower_text (re_UserAgent ev)) then 5 else 0) +
     (if contains_any (lower_text (re_RuleName ev)) [''coraza'', ''crs'', ''owasp''] then 10 else 0) +
     (if re_Hits ev \<ge> 10 then 10 else if re_Hits ev \<ge> 3 then 5 else 0)"

definition event_points :: "risk_event \<Rightarrow> int" where
  "event_points ev = max 0 (sum_list (map (uri_points (upper_text (re_Action ev))) (dedupNormalizeURIs (re_URIs ev))) + signal_points ev) +
     (if cf_explicit_block ev then 10 else 0)"

definition page_load :: "risk_event \<Rightarrow> bool" where
  "page_load ev \<longleftrightarrow> dedupNormalizeURIs (re_URIs ev) \<noteq> [] \<and>
     (\<forall>u \<in> set (dedupNormalizeURIs (re_URIs ev)). isBaselineBootstrap u (upper_text (re_Action ev))) \<and> \<not> cf_explicit_block ev"

lemma assess_signals_score:
  "fst (assess_signals ev s) = max 0 (us_score s + signal_points ev) + (if cf_explicit_block ev then 10 else 0)"
  by (simp add: assess_signals_def signal_points_def Let_def max_def)

lemma assess_signals_confirmed:
  assumes "fst (assess_signals ev s) \<ge> 20"
  shows "fst (snd (assess_signals ev s)) = CategoryConfirmedAbuse"
proof -
  have top: "maxSeverity t CategoryConfirmedAbuse = CategoryConfirmedAbuse" for t
    by (simp add: maxSeverity_def severity_order_def category_defs split: if_splits)
  obtain score abuse evidence where "assess_signals ev s = (score, abuse, evidence)" by (cases "assess_signals ev s")
  then show ?thesis using assms by (auto simp: assess_signals_def Let_def top split: prod.splits if_splits)
qed

lemma Assess_simps:
  assumes "\<not> re_Allowlisted ev"
  shows "page_load ev \<Longrightarrow> as_AbuseType (Assess ev) = CategoryBenignBootstrap \<and> as_Decision (Assess ev) = DecisionObserveOnly \<and>
      as_SuppressedLowSignal (Assess ev) \<and> as_Confidence (Assess ev) = 15"
    and "\<not> page_load ev \<Longrightarrow> as_Score (Assess ev) = event_points ev \<and> as_SuppressedLowSignal (Assess ev) = (event_points ev < 5) \<and>
      as_Decision (Assess ev) = (if event_points ev \<ge> 20 then DecisionPropagableBan else if event_points ev \<ge> 10 then DecisionLocalBlock
        else if event_points ev \<ge> 5 then DecisionSoftMitigation else DecisionObserveOnly) \<and>
      (event_points ev \<ge> 20 \<longrightarrow> as_AbuseType (Assess ev) = CategoryConfirmedAbuse) \<and>
      as_Confidence (Assess ev) = (if isKnownScannerUA (lower_text (re_UserAgent ev)) \<and> event_points ev < 10 then 75 else confidenceFromScore (event_points ev))"
proof -
  let ?s = "scan_uris (upper_text (re_Action ev)) (dedupNormalizeURIs (re_URIs ev))"
  have page: "page_load ev \<longleftrightarrow> us_onlyBootstrap ?s \<and> \<not> cf_explicit_block ev" by (simp add: page_load_def scan_uris_flags)
  show "as_AbuseType (Assess ev) = CategoryBenignBootstrap \<and> as_Decision (Assess ev) = DecisionObserveOnly \<and>
      as_SuppressedLowSignal (Assess ev) \<and> as_Confidence (Assess ev) = 15" if "page_load ev"
    using that assms page by (simp add: Assess_def Let_def)
  obtain score abuse evidence where sig: "assess_signals ev ?s = (score, abuse, evidence)" by (cases "assess_signals ev ?s")
  have score: "score = event_points ev" using assess_signals_score [of ev ?s] sig by (simp add: event_points_def scan_uris_score)
  have "abuse = CategoryConfirmedAbuse" if "score \<ge> 20" using assess_signals_confirmed [of ev ?s] sig that by simp
  then show "as_Score (Assess ev) = event_points ev \<and> as_SuppressedLowSignal (Assess ev) = (event_points ev < 5) \<and>
      as_Decision (Assess ev) = (if event_points ev \<ge> 20 then DecisionPropagableBan else if event_points ev \<ge> 10 then DecisionLocalBlock
        else if event_points ev \<ge> 5 then DecisionSoftMitigation else DecisionObserveOnly) \<and>
      (event_points ev \<ge> 20 \<longrightarrow> as_AbuseType (Assess ev) = CategoryConfirmedAbuse) \<and>
      as_Confidence (Assess ev) = (if isKnownScannerUA (lower_text (re_UserAgent ev)) \<and> event_points ev < 10 then 75 else confidenceFromScore (event_points ev))"
    if "\<not> page_load ev"
    using that assms page sig by (simp add: Assess_def Let_def score confidenceFromScore_def)
qed

text \<open>Only an event with ten points, or with five points from a known scanner, is reliable enough to be reported.\<close>

lemma reliable_iff:
  "\<not> cs_SuspectedLowConf (Classify e) \<longleftrightarrow> \<not> page_load (classified_event e) \<and>
     (event_points (classified_event e) \<ge> 10 \<or>
      event_points (classified_event e) \<ge> 5 \<and> isKnownScannerUA (lower_text (we_UserAgent e)))"
proof -
  have allow: "\<not> re_Allowlisted (classified_event e)" by (simp add: classified_event_def)
  have ua: "re_UserAgent (classified_event e) = we_UserAgent e" by (simp add: classified_event_def)
  show ?thesis
  proof (cases "page_load (classified_event e)")
    case True
    then show ?thesis using Assess_simps(1) [OF allow] by (simp add: Classify_def Let_def)
  next
    case False
    then show ?thesis using Assess_simps(2) [OF allow False] by (auto simp: Classify_def Let_def ua confidenceFromScore_def)
  qed
qed

lemma points_of_assets:
  "int (length (filter (\<lambda>u. isBaselineBootstrap u m) us)) \<le> sum_list (map (uri_points m) us)"
  by (induction us) (auto simp: uri_points_def)

lemma many_assets:
  assumes "us = dedupNormalizeURIs (re_URIs (classified_event e))" and "m = upper_text (we_Action e)"
    and "20 \<le> length (filter (\<lambda>u. isBaselineBootstrap u m) us)" and "\<exists>u \<in> set us. \<not> isBaselineBootstrap u m"
    and "\<not> isLegitCrawler (lower_text (we_UserAgent e))"
  shows "cs_AbuseType (Classify e) = CategoryConfirmedAbuse \<and> cs_EnforcementStage (Classify e) = DecisionPropagableBan \<and>
    cs_Confidence (Classify e) = 95 \<and> \<not> cs_SuspectedLowConf (Classify e)"
proof -
  let ?r = "classified_event e"
  have fields: "re_Action ?r = we_Action e" "re_UserAgent ?r = we_UserAgent e" "\<not> re_Allowlisted ?r" by (simp_all add: classified_event_def)
  have page: "\<not> page_load ?r" using assms(1,2,4) fields by (auto simp: page_load_def)
  have "0 \<le> signal_points ?r" using assms(5) by (simp add: signal_points_def fields)
  moreover have "20 \<le> sum_list (map (uri_points m) us)" using points_of_assets [of m us] assms(3) by linarith
  ultimately have "20 \<le> event_points ?r" using assms(1,2) by (simp add: event_points_def fields)
  then show ?thesis using Assess_simps(2) [OF fields(3) page] by (simp add: Classify_def Let_def confidenceFromScore_def)
qed

text \<open>
  The loading of a page can be taken for confirmed abuse. An event in which twenty paths are known page assets, with any one path
  beside them that is not (an ordinary page), from an agent that is not a known crawler, is classified as confirmed abuse with
  the highest confidence and leads to a ban that is propagated, without any hostile path, scanner, signature or repetition.
\<close>

theorem asset_loading_confirmed_abuse:
  assumes "us = dedupNormalizeURIs (re_URIs (classified_event e))" and "m = upper_text (we_Action e)"
    and "20 \<le> length (filter (\<lambda>u. isBaselineBootstrap u m) us)" and "\<exists>u \<in> set us. \<not> isBaselineBootstrap u m"
    and "\<not> isLegitCrawler (lower_text (we_UserAgent e))"
  shows "cs_AbuseType (Classify e) = CategoryConfirmedAbuse \<and> cs_EnforcementStage (Classify e) = DecisionPropagableBan \<and>
    cs_Confidence (Classify e) = 95 \<and> \<not> cs_SuspectedLowConf (Classify e)"
  using assms by (rule many_assets)

definition asset_uris :: "string list" where
  "asset_uris = ''/about'' # map (\<lambda>c. ''/css/'' @ [c]) ''abcdefghijklmnopqrst''"

definition page_visit :: waf_event where
  "page_visit = \<lparr>we_IP = ''198.51.100.7'', we_URI = [], we_URIs = asset_uris, we_Hostname = ''www.example.org'', we_UserAgent = ''Mozilla/5.0'',
     we_Action = ''GET'', we_RuleID = ''r1'', we_RuleName = [], we_Source = [], we_Timestamp = 1, we_Hits = 1, we_WindowSec = 60\<rparr>"

lemma asset_uris_id: "u \<in> set asset_uris \<Longrightarrow> TrimSpace (lower_text u) = u"
proof -
  assume u: "u \<in> set asset_uris"
  have "map lower_text asset_uris = asset_uris" by code_simp
  then have "map lower_text asset_uris = map (\<lambda>x. x) asset_uris" by simp
  then have "\<forall>u \<in> set asset_uris. lower_text u = u" by (simp only: map_eq_conv)
  moreover have "\<forall>u \<in> set asset_uris. TrimSpace u = u" by (simp add: asset_uris_def TrimSpace_visible)
  ultimately show "TrimSpace (lower_text u) = u" using u by simp
qed

lemma asset_uris_normal: "dedupNormalizeURIs asset_uris = asset_uris"
proof -
  have "map (\<lambda>u. TrimSpace (lower_text u)) asset_uris = asset_uris" by (simp add: asset_uris_id map_idI)
  moreover have "dedup_seen [] asset_uris = asset_uris" by (simp add: asset_uris_def)
  ultimately show ?thesis by (simp only: dedupNormalizeURIs_def)
qed

lemma asset_uris_baseline: "filter (\<lambda>u. isBaselineBootstrap u ''GET'') asset_uris = tl asset_uris" "\<not> isBaselineBootstrap ''/about'' ''GET''"
proof -
  have match: "isBaselineBootstrap u ''GET'' \<longleftrightarrow> u \<in> set baseline_assets \<or> (\<exists>p \<in> set baseline_prefixes. prefix p u)" if "u \<in> set asset_uris" for u
    using asset_uris_id [OF that] by (simp add: isBaselineBootstrap_def baseline_Match_def HasPrefix_def)
  then have "filter (\<lambda>u. isBaselineBootstrap u ''GET'') asset_uris = filter (\<lambda>u. u \<in> set baseline_assets \<or> (\<exists>p \<in> set baseline_prefixes. prefix p u)) asset_uris"
    by (rule filter_cong [OF refl])
  also have "\<dots> = tl asset_uris" by (simp add: asset_uris_def baseline_assets_def baseline_prefixes_def)
  finally show "filter (\<lambda>u. isBaselineBootstrap u ''GET'') asset_uris = tl asset_uris" .
  show "\<not> isBaselineBootstrap ''/about'' ''GET''" using match [of "''/about''"] by (simp add: asset_uris_def baseline_assets_def baseline_prefixes_def)
qed

lemma page_visit_facts:
  "asset_uris = dedupNormalizeURIs (re_URIs (classified_event page_visit))" "''GET'' = upper_text (we_Action page_visit)"
  "20 \<le> length (filter (\<lambda>u. isBaselineBootstrap u ''GET'') asset_uris)" "\<exists>u \<in> set asset_uris. \<not> isBaselineBootstrap u ''GET''"
  "\<not> isLegitCrawler (lower_text (we_UserAgent page_visit))"
proof -
  show "asset_uris = dedupNormalizeURIs (re_URIs (classified_event page_visit))"
    by (simp add: classified_event_def page_visit_def asset_uris_normal asset_uris_def [symmetric])
  show "''GET'' = upper_text (we_Action page_visit)" by (simp add: page_visit_def upper_text_def)
  show "20 \<le> length (filter (\<lambda>u. isBaselineBootstrap u ''GET'') asset_uris)" unfolding asset_uris_baseline by (simp add: asset_uris_def)
  show "\<exists>u \<in> set asset_uris. \<not> isBaselineBootstrap u ''GET''" using asset_uris_baseline(2) by (auto simp: asset_uris_def)
  show "\<not> isLegitCrawler (lower_text (we_UserAgent page_visit))" by code_simp
qed

lemma page_visit_class:
  "cs_AbuseType (Classify page_visit) = CategoryConfirmedAbuse" "cs_Confidence (Classify page_visit) = 95" "\<not> cs_SuspectedLowConf (Classify page_visit)"
  "cs_Categories (Classify page_visit) = [''Web App Attack'']"
proof -
  show c: "cs_AbuseType (Classify page_visit) = CategoryConfirmedAbuse" "cs_Confidence (Classify page_visit) = 95" "\<not> cs_SuspectedLowConf (Classify page_visit)"
    using many_assets [OF page_visit_facts] by blast+
  have "cs_Categories (Classify page_visit) = mapCategories (cs_AbuseType (Classify page_visit))" by (simp add: Classify_def Let_def)
  then show "cs_Categories (Classify page_visit) = [''Web App Attack'']" by (simp add: c(1) mapCategories_def category_defs)
qed

theorem asset_loading_confirmed_abuse_witness:
  "cs_AbuseType (Classify page_visit) = CategoryConfirmedAbuse \<and> cs_EnforcementStage (Classify page_visit) = DecisionPropagableBan"
  using asset_loading_confirmed_abuse [OF page_visit_facts] by blast

text \<open>A truncated comment is longer than the limit: the ellipsis has three bytes and not one.\<close>

lemma comment_length: "length (Build i) = (if length (full_comment i) > maxCommentLength then 302 else length (full_comment i))"
  by (simp add: Build_def Let_def maxCommentLength_def ellipsis_def)

end
