(* ===== verification/Decision_Gate.thy ===== *)
theory Decision_Gate
  imports Risk
begin

text \<open>
  The decision gate of the reporting service, \<open>internal/services/reporting/decision_gate.go\<close>, and the memory of
  submitted addresses of \<open>internal/services/reporting/spamhaus_dedup.go\<close>. Both remember keys for a time to live; the
  gate also hands out one lock per address. A lock is an object that goroutines keep a pointer to: the table maps an address to
  the index of a lock, and the locks are never moved. The metrics are left out.
\<close>

section \<open>Keys with an expiry time\<close>

type_synonym expiry_map = "string \<rightharpoonup> go_time"

text \<open>Both loops drop every entry whose time is past.\<close>

definition drop_expired :: "go_time \<Rightarrow> expiry_map \<Rightarrow> expiry_map" where
  "drop_expired now m = (\<lambda>k. case m k of None \<Rightarrow> None | Some expires \<Rightarrow> if time_after now expires then None else Some expires)"

definition mark_key :: "string \<Rightarrow> duration \<Rightarrow> go_time \<Rightarrow> expiry_map \<Rightarrow> bool \<times> expiry_map" where
  "mark_key key ttl now m =
     (let m1 = drop_expired now m in
      if (case m1 key of None \<Rightarrow> False | Some expires \<Rightarrow> time_before now expires) then (True, m1)
      else (False, m1(key \<mapsto> time_add now ttl)))"

record spamhaus_dedup =
  sd_seen :: expiry_map
  sd_ttl :: duration

definition newSpamhausIPDedup :: "duration \<Rightarrow> spamhaus_dedup" where
  "newSpamhausIPDedup ttl = \<lparr>sd_seen = Map.empty, sd_ttl = (if ttl \<le> 0 then 24 * Hour else ttl)\<rparr>"

definition markSeen :: "string \<Rightarrow> go_time \<Rightarrow> spamhaus_dedup \<Rightarrow> bool \<times> spamhaus_dedup" where
  "markSeen ip now d = (let (seen, m) = mark_key ip (sd_ttl d) now (sd_seen d) in (seen, d\<lparr>sd_seen := m\<rparr>))"

section \<open>The gate\<close>

record ip_lock =
  il_held :: bool
  il_lastUsed :: go_time
  il_locked :: bool

record decision_gate =
  dg_recentFingerprints :: expiry_map
  dg_ipLocks :: "string \<rightharpoonup> nat"
  dg_heap :: "ip_lock list"
  dg_dedupTTL :: duration

definition newDecisionGate :: "duration \<Rightarrow> decision_gate" where
  "newDecisionGate dedupTTL =
     \<lparr>dg_recentFingerprints = Map.empty, dg_ipLocks = Map.empty, dg_heap = [], dg_dedupTTL = (if dedupTTL \<le> 0 then 15 * Minute else dedupTTL)\<rparr>"

definition pruned_lock :: "duration \<Rightarrow> go_time \<Rightarrow> ip_lock \<Rightarrow> bool" where
  "pruned_lock ttl now l \<longleftrightarrow> \<not> il_locked l \<and> time_sub now (il_lastUsed l) > ttl"

definition pruneIPLocksLocked :: "go_time \<Rightarrow> decision_gate \<Rightarrow> decision_gate" where
  "pruneIPLocksLocked now g =
     g\<lparr>dg_ipLocks := (\<lambda>ip. case dg_ipLocks g ip of None \<Rightarrow> None
       | Some a \<Rightarrow> if pruned_lock (dg_dedupTTL g) now (dg_heap g ! a) then None else Some a)\<rparr>"

definition isDuplicate :: "string \<Rightarrow> go_time \<Rightarrow> decision_gate \<Rightarrow> bool \<times> decision_gate" where
  "isDuplicate key now g =
     (let (dup, m) = mark_key key (dg_dedupTTL g) now (dg_recentFingerprints g)
      in (dup, pruneIPLocksLocked now (g\<lparr>dg_recentFingerprints := m\<rparr>)))"

text \<open>What \<open>lockIP\<close> does under the mutex of the gate, for an address that is not empty: it gives the lock of the address.\<close>

definition lock_entry :: "string \<Rightarrow> go_time \<Rightarrow> decision_gate \<Rightarrow> nat \<times> decision_gate" where
  "lock_entry ip now g =
     (let g1 = pruneIPLocksLocked now g in
      case dg_ipLocks g1 ip of
        Some a \<Rightarrow> (a, g1\<lparr>dg_heap := (dg_heap g1)[a := (dg_heap g1 ! a)\<lparr>il_lastUsed := now, il_locked := True\<rparr>]\<rparr>)
      | None \<Rightarrow> (length (dg_heap g1), g1\<lparr>dg_ipLocks := (dg_ipLocks g1)(ip \<mapsto> length (dg_heap g1)),
                   dg_heap := dg_heap g1 @ [\<lparr>il_held = False, il_lastUsed = now, il_locked = True\<rparr>]\<rparr>))"

definition lock_acquire :: "nat \<Rightarrow> decision_gate \<Rightarrow> decision_gate option" where
  "lock_acquire a g = (if il_held (dg_heap g ! a) then None else Some (g\<lparr>dg_heap := (dg_heap g)[a := (dg_heap g ! a)\<lparr>il_held := True\<rparr>]\<rparr>))"

text \<open>The two halves of the function that \<open>lockIP\<close> returns.\<close>

definition unlock_mutex :: "nat \<Rightarrow> decision_gate \<Rightarrow> decision_gate" where
  "unlock_mutex a g = g\<lparr>dg_heap := (dg_heap g)[a := (dg_heap g ! a)\<lparr>il_held := False\<rparr>]\<rparr>"

definition unlock_settle :: "nat \<Rightarrow> go_time \<Rightarrow> decision_gate \<Rightarrow> decision_gate" where
  "unlock_settle a now g = g\<lparr>dg_heap := (dg_heap g)[a := (dg_heap g ! a)\<lparr>il_lastUsed := now, il_locked := False\<rparr>]\<rparr>"

section \<open>Keys are let through once\<close>

text \<open>
  The contract of a memory of keys, and what follows from it: after a key was let through, every later question about it is answered with
  yes until its time is past, whatever other keys are asked about in between.
\<close>

locale ttl_memory =
  fixes ask :: "string \<Rightarrow> go_time \<Rightarrow> 's \<Rightarrow> bool \<times> 's" and expires :: "'s \<Rightarrow> string \<Rightarrow> go_time option" and ttl :: "'s \<Rightarrow> duration"
  assumes ask_answer: "fst (ask k now s) \<longleftrightarrow> (\<exists>t. expires s k = Some t \<and> now < t)"
    and ask_new: "\<not> fst (ask k now s) \<Longrightarrow> expires (snd (ask k now s)) k = Some (now + ttl s)"
    and ask_keeps: "expires s k = Some t \<Longrightarrow> now < t \<Longrightarrow> expires (snd (ask k' now s)) k = Some t"
    and ask_ttl: "ttl (snd (ask k now s)) = ttl s"
begin

fun ask_all :: "(string \<times> go_time) list \<Rightarrow> 's \<Rightarrow> (string \<times> bool) list \<times> 's" where
  "ask_all [] s = ([], s)"
| "ask_all ((k, now) # qs) s = (let (b, s1) = ask k now s; (bs, s2) = ask_all qs s1 in ((k, b) # bs, s2))"

lemma remembered:
  assumes "expires s k = Some t" and "\<forall>(k', now) \<in> set qs. now < t"
  shows "(k, False) \<notin> set (fst (ask_all qs s)) \<and> expires (snd (ask_all qs s)) k = Some t"
  using assms
proof (induction qs arbitrary: s)
  case (Cons q qs)
  obtain k' now where q: "q = (k', now)" by (cases q)
  then have now: "now < t" using Cons.prems(2) by simp
  have keep: "expires (snd (ask k' now s)) k = Some t" using ask_keeps Cons.prems(1) now .
  then have rest: "(k, False) \<notin> set (fst (ask_all qs (snd (ask k' now s)))) \<and> expires (snd (ask_all qs (snd (ask k' now s)))) k = Some t"
    using Cons.IH Cons.prems(2) by simp
  moreover have "k' = k \<Longrightarrow> fst (ask k' now s)" using ask_answer [of k' now s] Cons.prems(1) now by blast
  ultimately show ?case by (auto simp: q split_beta Let_def)
qed simp

lemma let_through_once:
  assumes "\<not> fst (ask k now s)" and "\<forall>(k', now') \<in> set qs. now' < now + ttl s"
  shows "(k, False) \<notin> set (fst (ask_all qs (snd (ask k now s))))"
  using remembered [OF ask_new [OF assms(1)] assms(2)] by simp

end

lemma mark_key_answer: "fst (mark_key k d now m) \<longleftrightarrow> (\<exists>t. m k = Some t \<and> now < t)"
  by (auto simp: mark_key_def drop_expired_def go_time Let_def split: option.splits)

lemma mark_key_new: "\<not> fst (mark_key k d now m) \<Longrightarrow> snd (mark_key k d now m) k = Some (now + d)"
  by (auto simp: mark_key_def drop_expired_def go_time Let_def split: option.splits if_splits)

lemma mark_key_keeps: "m k = Some t \<Longrightarrow> now < t \<Longrightarrow> snd (mark_key k' d now m) k = Some t"
  by (auto simp: mark_key_def drop_expired_def go_time Let_def split: option.splits if_splits)

interpretation spamhaus: ttl_memory markSeen sd_seen sd_ttl
  by unfold_locales (simp_all add: markSeen_def split_beta Let_def mark_key_answer mark_key_new mark_key_keeps)

interpretation fingerprints: ttl_memory isDuplicate dg_recentFingerprints dg_dedupTTL
  by unfold_locales (simp_all add: isDuplicate_def pruneIPLocksLocked_def split_beta Let_def mark_key_answer mark_key_new mark_key_keeps)

section \<open>Goroutines at the gate\<close>

text \<open>
  Where a goroutine is: it has read the clock for a call of \<open>lockIP\<close>, waits for the mutex of the lock, is past \<open>lockIP\<close>, or
  has released the mutex and not yet noted that. The time is the one that the call read. \<open>isDuplicate\<close> also reads the clock
  before it enters; all of them then run under the mutex of the gate.
\<close>

datatype visitor = Calling string go_time | Waiting string go_time nat | Inside string go_time nat | Leaving string go_time nat

record gate_system =
  gs_gate :: decision_gate
  gs_clock :: go_time
  gs_visitors :: "nat \<rightharpoonup> visitor"

inductive gate_step :: "gate_system \<Rightarrow> gate_system \<Rightarrow> bool" where
  tick: "gs_clock s \<le> t \<Longrightarrow> gate_step s (s\<lparr>gs_clock := t\<rparr>)"
| call: "gs_visitors s i = None \<Longrightarrow> ip \<noteq> [] \<Longrightarrow> gate_step s (s\<lparr>gs_visitors := (gs_visitors s)(i \<mapsto> Calling ip (gs_clock s))\<rparr>)"
| enter: "gs_visitors s i = Some (Calling ip e) \<Longrightarrow> lock_entry ip e (gs_gate s) = (a, g) \<Longrightarrow>
    gate_step s (s\<lparr>gs_gate := g, gs_visitors := (gs_visitors s)(i \<mapsto> Waiting ip e a)\<rparr>)"
| acquire: "gs_visitors s i = Some (Waiting ip e a) \<Longrightarrow> lock_acquire a (gs_gate s) = Some g \<Longrightarrow>
    gate_step s (s\<lparr>gs_gate := g, gs_visitors := (gs_visitors s)(i \<mapsto> Inside ip e a)\<rparr>)"
| leave: "gs_visitors s i = Some (Inside ip e a) \<Longrightarrow>
    gate_step s (s\<lparr>gs_gate := unlock_mutex a (gs_gate s), gs_visitors := (gs_visitors s)(i \<mapsto> Leaving ip e a)\<rparr>)"
| settle: "gs_visitors s i = Some (Leaving ip e a) \<Longrightarrow>
    gate_step s (s\<lparr>gs_gate := unlock_settle a (gs_clock s) (gs_gate s), gs_visitors := (gs_visitors s)(i := None)\<rparr>)"
| duplicate: "now \<le> gs_clock s \<Longrightarrow> gate_step s (s\<lparr>gs_gate := snd (isDuplicate key now (gs_gate s))\<rparr>)"

inductive_cases gate_stepE: "gate_step s s'"

definition gate_start :: "duration \<Rightarrow> go_time \<Rightarrow> gate_system" where
  "gate_start ttl t = \<lparr>gs_gate = newDecisionGate ttl, gs_clock = t, gs_visitors = Map.empty\<rparr>"

text \<open>A visitor that has the lock of its address, and a system in which no visit has lasted longer than the time to live of the locks.\<close>

fun visit :: "visitor \<Rightarrow> (string \<times> go_time \<times> nat) option" where
  "visit (Calling ip e) = None"
| "visit (Waiting ip e a) = Some (ip, e, a)"
| "visit (Inside ip e a) = Some (ip, e, a)"
| "visit (Leaving ip e a) = Some (ip, e, a)"

definition visiting :: "(nat \<rightharpoonup> visitor) \<Rightarrow> nat \<Rightarrow> string \<Rightarrow> go_time \<Rightarrow> nat \<Rightarrow> bool" where
  "visiting vs i ip e a \<longleftrightarrow> Option.bind (vs i) visit = Some (ip, e, a)"

definition timely :: "gate_system \<Rightarrow> bool" where
  "timely s \<longleftrightarrow> (\<forall>i ip e a. visiting (gs_visitors s) i ip e a \<longrightarrow> gs_clock s \<le> e + dg_dedupTTL (gs_gate s))"

definition timely_step :: "gate_system \<Rightarrow> gate_system \<Rightarrow> bool" where
  "timely_step s s' \<longleftrightarrow> gate_step s s' \<and> timely s'"

text \<open>
  The invariant: the lock of a visitor is the one the table has for its address; the lock of a visited address was last
  used no earlier than some visitor of it came; no visitor comes from the future; and a goroutine inside holds the mutex alone.
\<close>

definition locks_ok :: "decision_gate \<Rightarrow> bool" where
  "locks_ok g \<longleftrightarrow> 0 < dg_dedupTTL g \<and> (\<forall>ip a. dg_ipLocks g ip = Some a \<longrightarrow> a < length (dg_heap g)) \<and>
     (\<forall>ip ip' a. dg_ipLocks g ip = Some a \<longrightarrow> dg_ipLocks g ip' = Some a \<longrightarrow> ip = ip')"

definition visits_ok :: "decision_gate \<Rightarrow> go_time \<Rightarrow> (nat \<rightharpoonup> visitor) \<Rightarrow> bool" where
  "visits_ok g c vs \<longleftrightarrow> (\<forall>i ip e. vs i = Some (Calling ip e) \<longrightarrow> e \<le> c) \<and>
     (\<forall>i ip e a. visiting vs i ip e a \<longrightarrow> e \<le> c \<and> dg_ipLocks g ip = Some a \<and> (\<exists>j e'. visiting vs j ip e' a \<and> e' \<le> il_lastUsed (dg_heap g ! a)))"

definition mutex_ok :: "decision_gate \<Rightarrow> (nat \<rightharpoonup> visitor) \<Rightarrow> bool" where
  "mutex_ok g vs \<longleftrightarrow> (\<forall>i ip e a. vs i = Some (Inside ip e a) \<longrightarrow> il_held (dg_heap g ! a) \<and> (\<forall>j ip' e'. vs j = Some (Inside ip' e' a) \<longrightarrow> j = i))"

definition gate_ok :: "gate_system \<Rightarrow> bool" where
  "gate_ok s \<longleftrightarrow> locks_ok (gs_gate s) \<and> visits_ok (gs_gate s) (gs_clock s) (gs_visitors s) \<and> mutex_ok (gs_gate s) (gs_visitors s)"

lemma visiting_upd [simp]:
  "visiting (vs(i := v)) j ip e a = (if j = i then Option.bind v visit = Some (ip, e, a) else visiting vs j ip e a)"
  by (simp add: visiting_def)

lemma visiting_at: "vs i = Some v \<Longrightarrow> visiting vs i ip e a \<longleftrightarrow> visit v = Some (ip, e, a)"
  by (simp add: visiting_def)

lemma visitsD:
  assumes "visits_ok g c vs" and "visiting vs i ip e a"
  shows "e \<le> c" and "dg_ipLocks g ip = Some a" and "\<exists>j e'. visiting vs j ip e' a \<and> e' \<le> il_lastUsed (dg_heap g ! a)"
  using assms unfolding visits_ok_def by blast+

lemma prune_fields [simp]:
  "dg_heap (pruneIPLocksLocked now g) = dg_heap g" "dg_dedupTTL (pruneIPLocksLocked now g) = dg_dedupTTL g"
  by (simp_all add: pruneIPLocksLocked_def)

lemma prune_sub: "dg_ipLocks (pruneIPLocksLocked now g) ip = Some a \<Longrightarrow> dg_ipLocks g ip = Some a"
  by (auto simp: pruneIPLocksLocked_def split: option.splits if_splits)

lemma prune_locks_ok: "locks_ok g \<Longrightarrow> locks_ok (pruneIPLocksLocked now g)"
  unfolding locks_ok_def by (simp, metis prune_sub)

lemma time_sub_past: "min_int64 \<le> d \<Longrightarrow> d < time_sub t u \<Longrightarrow> d < t - u"
  by (auto simp: time_sub_def min_def max_def split: if_splits)

text \<open>Pruning leaves the locks of the visitors alone as long as every visit is timely.\<close>

lemma prune_visits:
  assumes "locks_ok g" and "visits_ok g c vs" and "now \<le> c" and "\<And>i ip e a. visiting vs i ip e a \<Longrightarrow> c \<le> e + dg_dedupTTL g"
  shows "visits_ok (pruneIPLocksLocked now g) c vs"
proof -
  have "dg_ipLocks (pruneIPLocksLocked now g) ip = Some a" if v: "visiting vs i ip e a" for i ip e a
  proof -
    obtain j e' where j: "visiting vs j ip e' a" "e' \<le> il_lastUsed (dg_heap g ! a)" using visitsD(3) [OF assms(2) v] by blast
    then have "now - il_lastUsed (dg_heap g ! a) \<le> dg_dedupTTL g" using assms(3) assms(4) [OF j(1)] by linarith
    moreover have "min_int64 \<le> dg_dedupTTL g" using assms(1) by (simp add: locks_ok_def min_int64_def)
    ultimately have "\<not> pruned_lock (dg_dedupTTL g) now (dg_heap g ! a)" using time_sub_past unfolding pruned_lock_def by fastforce
    then show ?thesis using visitsD(2) [OF assms(2) v] by (simp add: pruneIPLocksLocked_def)
  qed
  then show ?thesis using assms(2) unfolding visits_ok_def by simp
qed

lemma mutex_prune [simp]: "mutex_ok (pruneIPLocksLocked now g) vs = mutex_ok g vs"
  by (simp add: mutex_ok_def)

text \<open>What \<open>lock_entry\<close> finds or makes: the lock of the address, used now; every other lock is as before.\<close>

lemma lock_entry_spec:
  assumes "locks_ok g" and "lock_entry ip e g = (a, g')"
  defines "p \<equiv> pruneIPLocksLocked e g"
  shows "locks_ok g'" and "dg_dedupTTL g' = dg_dedupTTL g" and "dg_ipLocks g' = (dg_ipLocks p)(ip \<mapsto> a)" and "il_lastUsed (dg_heap g' ! a) = e"
    and "b < length (dg_heap g) \<Longrightarrow> b \<noteq> a \<Longrightarrow> dg_heap g' ! b = dg_heap g ! b"
    and "b < length (dg_heap g) \<Longrightarrow> il_held (dg_heap g' ! b) = il_held (dg_heap g ! b)"
    and "dg_ipLocks p ip' = Some a \<Longrightarrow> ip' = ip"
proof -
  have ok: "locks_ok p" unfolding p_def using assms(1) by (rule prune_locks_ok)
  have h: "dg_heap p = dg_heap g" "dg_dedupTTL p = dg_dedupTTL g" by (simp_all add: p_def)
  have "locks_ok g' \<and> dg_dedupTTL g' = dg_dedupTTL g \<and> dg_ipLocks g' = (dg_ipLocks p)(ip \<mapsto> a) \<and> il_lastUsed (dg_heap g' ! a) = e \<and>
    (\<forall>b < length (dg_heap g). (b \<noteq> a \<longrightarrow> dg_heap g' ! b = dg_heap g ! b) \<and> il_held (dg_heap g' ! b) = il_held (dg_heap g ! b)) \<and>
    (\<forall>ip'. dg_ipLocks p ip' = Some a \<longrightarrow> ip' = ip)"
  proof (cases "dg_ipLocks p ip")
    case None
    then have g': "a = length (dg_heap g)" "g' = p\<lparr>dg_ipLocks := (dg_ipLocks p)(ip \<mapsto> a), dg_heap := dg_heap g @ [\<lparr>il_held = False, il_lastUsed = e, il_locked = True\<rparr>]\<rparr>"
      using assms(2) h by (auto simp: lock_entry_def p_def Let_def)
    have fresh: "dg_ipLocks p ip' \<noteq> Some a" for ip' using ok h(1) g'(1) unfolding locks_ok_def by fastforce
    have "locks_ok g'" using ok h fresh unfolding locks_ok_def g'(2) by (auto simp: g'(1) less_Suc_eq)
    then show ?thesis using h fresh by (simp add: g' nth_append)
  next
    case (Some b)
    then have g': "a = b" "g' = p\<lparr>dg_heap := (dg_heap g)[a := (dg_heap g ! a)\<lparr>il_lastUsed := e, il_locked := True\<rparr>]\<rparr>"
      using assms(2) h by (auto simp: lock_entry_def p_def Let_def)
    have a: "a < length (dg_heap g)" using ok h Some g'(1) unfolding locks_ok_def by fastforce
    have "dg_ipLocks p = (dg_ipLocks p)(ip \<mapsto> a)" using Some g'(1) by (simp add: fun_upd_idem)
    moreover have "locks_ok g'" using ok h unfolding locks_ok_def g'(2) by simp
    moreover have "\<forall>ip'. dg_ipLocks p ip' = Some a \<longrightarrow> ip' = ip" using ok Some g'(1) unfolding locks_ok_def by blast
    ultimately show ?thesis using h a by (auto simp: g'(2) nth_list_update)
  qed
  then show "locks_ok g'" "dg_dedupTTL g' = dg_dedupTTL g" "dg_ipLocks g' = (dg_ipLocks p)(ip \<mapsto> a)" "il_lastUsed (dg_heap g' ! a) = e"
    "b < length (dg_heap g) \<Longrightarrow> b \<noteq> a \<Longrightarrow> dg_heap g' ! b = dg_heap g ! b"
    "b < length (dg_heap g) \<Longrightarrow> il_held (dg_heap g' ! b) = il_held (dg_heap g ! b)" "dg_ipLocks p ip' = Some a \<Longrightarrow> ip' = ip"
    by blast+
qed

lemma enter_ok:
  assumes "gate_ok s" and "timely s" and "gs_visitors s i = Some (Calling ip e)" and "lock_entry ip e (gs_gate s) = (a, g)"
  shows "gate_ok (s\<lparr>gs_gate := g, gs_visitors := (gs_visitors s)(i \<mapsto> Waiting ip e a)\<rparr>)"
proof -
  let ?vs = "gs_visitors s" and ?p = "pruneIPLocksLocked e (gs_gate s)"
  have ok: "locks_ok (gs_gate s)" "visits_ok (gs_gate s) (gs_clock s) ?vs" "mutex_ok (gs_gate s) ?vs" using assms(1) by (simp_all add: gate_ok_def)
  have e: "e \<le> gs_clock s" using ok(2) assms(3) unfolding visits_ok_def by blast
  have p: "visits_ok ?p (gs_clock s) ?vs" using prune_visits [OF ok(1,2) e] assms(2) unfolding timely_def by blast
  note spec = lock_entry_spec [OF ok(1) assms(4)]
  have not_i: "\<not> visiting ?vs i ip' e' b" for ip' e' b using assms(3) by (simp add: visiting_at)
  have len: "b < length (dg_heap (gs_gate s))" if "visiting ?vs j ip' e' b" for j ip' e' b
    using visitsD(2) [OF ok(2) that] ok(1) unfolding locks_ok_def by blast
  have "visits_ok g (gs_clock s) (?vs(i \<mapsto> Waiting ip e a))" unfolding visits_ok_def
  proof (intro conjI allI impI)
    fix j ip' e' b
    assume v: "visiting (?vs(i \<mapsto> Waiting ip e a)) j ip' e' b"
    have in_a: "visiting (?vs(i \<mapsto> Waiting ip e a)) i ip e a" by simp
    consider "j = i" "ip' = ip" "e' = e" "b = a" | "j \<noteq> i" "visiting ?vs j ip' e' b" using v by (cases "j = i") auto
    note cases = this
    have old: "ip' = ip" if "j \<noteq> i" "visiting ?vs j ip' e' b" "b = a" using spec(7) visitsD(2) [OF p that(2)] that(3) by blast
    show "e' \<le> gs_clock s" using cases e visitsD(1) [OF ok(2)] by cases auto
    show "dg_ipLocks g ip' = Some b" using cases
    proof cases
      case 2
      then have "dg_ipLocks ?p ip' = Some b" using visitsD(2) [OF p] by blast
      moreover have "ip' = ip \<Longrightarrow> b = a"
      proof -
        assume "ip' = ip"
        then have "dg_ipLocks ?p ip = Some b" using calculation by simp
        then show "b = a" using assms(4) by (simp add: lock_entry_def Let_def)
      qed
      ultimately show ?thesis by (auto simp: spec(3))
    qed (simp add: spec(3))
    show "\<exists>j e'. visiting (?vs(i \<mapsto> Waiting ip e a)) j ip' e' b \<and> e' \<le> il_lastUsed (dg_heap g ! b)"
    proof (cases "b = a")
      case True
      then have "ip' = ip" using cases old by cases auto
      then show ?thesis using in_a True spec(4) by (metis order_refl)
    next
      case False
      then have v2: "visiting ?vs j ip' e' b" using cases by cases auto
      then obtain k e2 where k: "visiting ?vs k ip' e2 b" "e2 \<le> il_lastUsed (dg_heap (gs_gate s) ! b)" using visitsD(3) [OF ok(2)] by blast
      then have "k \<noteq> i" using not_i by blast
      then show ?thesis using k spec(5) [OF len [OF k(1)] False] by (intro exI [of _ k] exI [of _ e2]) simp
    qed
  next
    fix j ip' e'
    assume "(?vs(i \<mapsto> Waiting ip e a)) j = Some (Calling ip' e')"
    then have "?vs j = Some (Calling ip' e')" by (cases "j = i") auto
    then show "e' \<le> gs_clock s" using ok(2) unfolding visits_ok_def by blast
  qed
  moreover have "mutex_ok g (?vs(i \<mapsto> Waiting ip e a))" unfolding mutex_ok_def
  proof (intro allI impI conjI)
    fix j ip' e' b
    assume "(?vs(i \<mapsto> Waiting ip e a)) j = Some (Inside ip' e' b)"
    then have j: "?vs j = Some (Inside ip' e' b)" by (cases "j = i") auto
    then have "visiting ?vs j ip' e' b" by (simp add: visiting_at)
    then show "il_held (dg_heap g ! b)" using spec(6) [OF len] ok(3) j unfolding mutex_ok_def by blast
    fix k ip2 e2
    assume "(?vs(i \<mapsto> Waiting ip e a)) k = Some (Inside ip2 e2 b)"
    then have "?vs k = Some (Inside ip2 e2 b)" by (cases "k = i") auto
    then show "k = j" using ok(3) j unfolding mutex_ok_def by blast
  qed
  ultimately show ?thesis using spec(1) by (simp add: gate_ok_def)
qed

text \<open>A step of a visitor that stays with its lock, and changes only the mutex of it.\<close>

lemma stay_ok:
  assumes "gate_ok s" and "gs_visitors s i = Some v" and "visit v = Some (ip, e, a)" and "visit v' = Some (ip, e, a)"
    and "mutex_ok (gs_gate s\<lparr>dg_heap := (dg_heap (gs_gate s))[a := (dg_heap (gs_gate s) ! a)\<lparr>il_held := b\<rparr>]\<rparr>) ((gs_visitors s)(i \<mapsto> v'))"
  shows "gate_ok (s\<lparr>gs_gate := gs_gate s\<lparr>dg_heap := (dg_heap (gs_gate s))[a := (dg_heap (gs_gate s) ! a)\<lparr>il_held := b\<rparr>]\<rparr>,
    gs_visitors := (gs_visitors s)(i \<mapsto> v')\<rparr>)"
proof -
  let ?vs = "gs_visitors s" and ?vs' = "(gs_visitors s)(i \<mapsto> v')"
  have same: "visiting ?vs' j ip' e' a' = visiting ?vs j ip' e' a'" for j ip' e' a' using assms(2-4) by (simp add: visiting_at)
  have used: "il_lastUsed ((dg_heap (gs_gate s))[a := (dg_heap (gs_gate s) ! a)\<lparr>il_held := b\<rparr>] ! c) = il_lastUsed (dg_heap (gs_gate s) ! c)" for c
    by (cases "a < length (dg_heap (gs_gate s))") (simp_all add: nth_list_update list_update_beyond)
  have calling: "?vs' j = Some (Calling ip' e') \<longleftrightarrow> j \<noteq> i \<and> ?vs j = Some (Calling ip' e')" for j ip' e' using assms(4) by auto
  have "visits_ok (gs_gate s) (gs_clock s) ?vs" using assms(1) by (simp add: gate_ok_def)
  then have "visits_ok (gs_gate s\<lparr>dg_heap := (dg_heap (gs_gate s))[a := (dg_heap (gs_gate s) ! a)\<lparr>il_held := b\<rparr>]\<rparr>) (gs_clock s) ?vs'"
    unfolding visits_ok_def same by (simp add: used calling del: fun_upd_apply) blast
  then show ?thesis using assms(1,5) by (simp add: gate_ok_def locks_ok_def)
qed

lemma visited_lock:
  assumes "gate_ok s" and "gs_visitors s i = Some v" and "visit v = Some (ip, e, a)"
  shows "a < length (dg_heap (gs_gate s))"
  using assms visitsD(2) [of "gs_gate s" "gs_clock s" "gs_visitors s" i ip e a] unfolding gate_ok_def locks_ok_def by (auto simp: visiting_at)

lemma acquire_ok:
  assumes "gate_ok s" and "gs_visitors s i = Some (Waiting ip e a)" and "lock_acquire a (gs_gate s) = Some g"
  shows "gate_ok (s\<lparr>gs_gate := g, gs_visitors := (gs_visitors s)(i \<mapsto> Inside ip e a)\<rparr>)"
proof -
  have g: "\<not> il_held (dg_heap (gs_gate s) ! a)" "g = gs_gate s\<lparr>dg_heap := (dg_heap (gs_gate s))[a := (dg_heap (gs_gate s) ! a)\<lparr>il_held := True\<rparr>]\<rparr>"
    using assms(3) by (auto simp: lock_acquire_def split: if_splits)
  have m: "mutex_ok (gs_gate s) (gs_visitors s)" using assms(1) by (simp add: gate_ok_def)
  have a: "a < length (dg_heap (gs_gate s))" using visited_lock [OF assms(1,2)] by simp
  have none: "gs_visitors s j \<noteq> Some (Inside ip' e' a)" for j ip' e' using m g(1) unfolding mutex_ok_def by blast
  have "mutex_ok g ((gs_visitors s)(i \<mapsto> Inside ip e a))" unfolding mutex_ok_def g(2)
    using m none a by (auto simp: mutex_ok_def nth_list_update)
  then show ?thesis using stay_ok [OF assms(1,2), of ip e a "Inside ip e a" True] g(2) by simp
qed

lemma leave_ok:
  assumes "gate_ok s" and "gs_visitors s i = Some (Inside ip e a)"
  shows "gate_ok (s\<lparr>gs_gate := unlock_mutex a (gs_gate s), gs_visitors := (gs_visitors s)(i \<mapsto> Leaving ip e a)\<rparr>)"
proof -
  have m: "mutex_ok (gs_gate s) (gs_visitors s)" using assms(1) by (simp add: gate_ok_def)
  have alone: "j = i" if "gs_visitors s j = Some (Inside ip' e' a)" for j ip' e' using m assms(2) that unfolding mutex_ok_def by blast
  have "mutex_ok (unlock_mutex a (gs_gate s)) ((gs_visitors s)(i \<mapsto> Leaving ip e a))"
    unfolding mutex_ok_def unlock_mutex_def
  proof (intro allI impI conjI)
    fix j ip' e' b
    assume "((gs_visitors s)(i \<mapsto> Leaving ip e a)) j = Some (Inside ip' e' b)"
    then have j: "j \<noteq> i" "gs_visitors s j = Some (Inside ip' e' b)" by (auto split: if_splits)
    then have "b \<noteq> a" using alone by blast
    then show "il_held (dg_heap (gs_gate s\<lparr>dg_heap := (dg_heap (gs_gate s))[a := (dg_heap (gs_gate s) ! a)\<lparr>il_held := False\<rparr>]\<rparr>) ! b)"
      using m j(2) unfolding mutex_ok_def by (auto simp: nth_list_update)
    fix k ip2 e2
    assume "((gs_visitors s)(i \<mapsto> Leaving ip e a)) k = Some (Inside ip2 e2 b)"
    then have "gs_visitors s k = Some (Inside ip2 e2 b)" by (auto split: if_splits)
    then show "k = j" using m j(2) unfolding mutex_ok_def by blast
  qed
  then show ?thesis using stay_ok [OF assms, of ip e a "Leaving ip e a" False] by (simp add: unlock_mutex_def)
qed

lemma settle_ok:
  assumes "gate_ok s" and "gs_visitors s i = Some (Leaving ip e a)"
  shows "gate_ok (s\<lparr>gs_gate := unlock_settle a (gs_clock s) (gs_gate s), gs_visitors := (gs_visitors s)(i := None)\<rparr>)"
proof -
  let ?vs = "gs_visitors s" and ?g = "unlock_settle a (gs_clock s) (gs_gate s)"
  have ok: "locks_ok (gs_gate s)" "visits_ok (gs_gate s) (gs_clock s) ?vs" "mutex_ok (gs_gate s) ?vs" using assms(1) by (simp_all add: gate_ok_def)
  have a: "a < length (dg_heap (gs_gate s))" using visited_lock [OF assms] by simp
  have i: "visiting ?vs i ip' e' b \<Longrightarrow> b = a" for ip' e' b using assms(2) by (simp add: visiting_at)
  have held: "il_held (dg_heap ?g ! b) = il_held (dg_heap (gs_gate s) ! b)" for b using a by (simp add: unlock_settle_def nth_list_update)
  have "visits_ok ?g (gs_clock s) (?vs(i := None))" unfolding visits_ok_def
  proof (intro conjI allI impI)
    fix j ip' e' b
    assume "visiting (?vs(i := None)) j ip' e' b"
    then have v: "j \<noteq> i" "visiting ?vs j ip' e' b" by (simp_all split: if_splits)
    show e': "e' \<le> gs_clock s" "dg_ipLocks ?g ip' = Some b" using visitsD [OF ok(2) v(2)] by (simp_all add: unlock_settle_def)
    show "\<exists>j e'. visiting (?vs(i := None)) j ip' e' b \<and> e' \<le> il_lastUsed (dg_heap ?g ! b)"
    proof (cases "b = a")
      case True
      then show ?thesis using v e' a by (intro exI [of _ j] exI [of _ e']) (simp add: unlock_settle_def)
    next
      case False
      obtain k e2 where k: "visiting ?vs k ip' e2 b" "e2 \<le> il_lastUsed (dg_heap (gs_gate s) ! b)" using visitsD(3) [OF ok(2) v(2)] by blast
      then have "k \<noteq> i" using i False by blast
      then show ?thesis using k False by (intro exI [of _ k] exI [of _ e2]) (simp add: unlock_settle_def)
    qed
  next
    fix j ip' e'
    assume "(?vs(i := None)) j = Some (Calling ip' e')"
    then have "?vs j = Some (Calling ip' e')" by (auto split: if_splits)
    then show "e' \<le> gs_clock s" using ok(2) unfolding visits_ok_def by blast
  qed
  moreover have "mutex_ok ?g (?vs(i := None))" using ok(3) unfolding mutex_ok_def held by (auto split: if_splits)
  moreover have "locks_ok ?g" using ok(1) by (simp add: locks_ok_def unlock_settle_def)
  ultimately show ?thesis by (simp add: gate_ok_def)
qed

lemma gate_step_ok:
  assumes "gate_step s s'" and "gate_ok s" and "timely s"
  shows "gate_ok s'"
  using assms(1)
proof cases
  case (tick t)
  then show ?thesis using assms(2) unfolding gate_ok_def visits_ok_def by simp (meson order_trans)
next
  case (call i ip)
  then have v: "visiting ((gs_visitors s)(i \<mapsto> Calling ip (gs_clock s))) j ip' e a \<longleftrightarrow> visiting (gs_visitors s) j ip' e a" for j ip' e a
    by (simp add: visiting_def)
  show ?thesis using assms(2) unfolding call(1) gate_ok_def visits_ok_def mutex_ok_def by (simp add: v del: visiting_upd)
next
  case (enter i ip e a g)
  then show ?thesis using enter_ok assms(2,3) by blast
next
  case (acquire i ip e a g)
  then show ?thesis using acquire_ok assms(2) by blast
next
  case (leave i ip e a)
  then show ?thesis using leave_ok assms(2) by blast
next
  case (settle i ip e a)
  then show ?thesis using settle_ok assms(2) by blast
next
  case (duplicate now key)
  let ?g = "gs_gate s\<lparr>dg_recentFingerprints := snd (mark_key key (dg_dedupTTL (gs_gate s)) now (dg_recentFingerprints (gs_gate s)))\<rparr>"
  have "locks_ok ?g" "visits_ok ?g (gs_clock s) (gs_visitors s)" "mutex_ok ?g (gs_visitors s)"
    using assms(2) by (simp_all add: gate_ok_def locks_ok_def visits_ok_def mutex_ok_def)
  moreover have "visiting (gs_visitors s) i ip e a \<Longrightarrow> gs_clock s \<le> e + dg_dedupTTL ?g" for i ip e a using assms(3) unfolding timely_def by fastforce
  ultimately have "visits_ok (pruneIPLocksLocked now ?g) (gs_clock s) (gs_visitors s)" "locks_ok (pruneIPLocksLocked now ?g)" "mutex_ok (pruneIPLocksLocked now ?g) (gs_visitors s)"
    using prune_visits [of ?g "gs_clock s" "gs_visitors s" now] prune_locks_ok duplicate(2) by auto
  then show ?thesis unfolding duplicate(1) by (simp add: gate_ok_def isDuplicate_def split_beta)
qed

text \<open>
  C11: one goroutine at a time works on an address. From a new gate, through every interleaving of calls of \<open>lockIP\<close>, of the functions that it
  returns and of \<open>isDuplicate\<close> in which no visit (from reading the clock in \<open>lockIP\<close> to the end of the returned function) lasts
  longer than the time to live, two goroutines that are past \<open>lockIP\<close> for the same address are the same goroutine, however the
  locks of the addresses are pruned and made anew.
\<close>

theorem gate_mutual_exclusion:
  assumes "timely_step\<^sup>*\<^sup>* (gate_start ttl t) s" and "gs_visitors s i = Some (Inside ip e a)" and "gs_visitors s j = Some (Inside ip e' a')"
  shows "i = j"
proof -
  have "gate_ok s \<and> timely s" using assms(1)
  proof (induction rule: rtranclp_induct)
    case base
    show ?case by (simp add: gate_start_def newDecisionGate_def gate_ok_def locks_ok_def visits_ok_def mutex_ok_def timely_def visiting_def Minute_def Second_def)
  next
    case (step s s')
    then show ?case using gate_step_ok unfolding timely_step_def by blast
  qed
  then have ok: "visits_ok (gs_gate s) (gs_clock s) (gs_visitors s)" "mutex_ok (gs_gate s) (gs_visitors s)" by (simp_all add: gate_ok_def)
  have "a = a'" using visitsD(2) [OF ok(1), of i ip e a] visitsD(2) [OF ok(1), of j ip e' a'] assms(2,3) by (simp add: visiting_at)
  then show ?thesis using ok(2) assms(2,3) unfolding mutex_ok_def by blast
qed

section \<open>A lock that is pruned in use\<close>

text \<open>The flag of a lock is set by every goroutine that comes and cleared by every one that leaves. A goroutine that waited keeps a lock that
  is not marked as locked, and after the time to live the lock of the address is replaced.\<close>

definition busy_gate :: "nat \<Rightarrow> gate_system" where
  "busy_gate n =
     (let lock = (\<lambda>h u l. \<lparr>il_held = h, il_lastUsed = u, il_locked = l\<rparr>); late = 15 * Minute + 1;
          at = (\<lambda>tab heap c vs. \<lparr>gs_gate = \<lparr>dg_recentFingerprints = Map.empty, dg_ipLocks = tab, dg_heap = heap, dg_dedupTTL = 15 * Minute\<rparr>,
            gs_clock = c, gs_visitors = vs\<rparr>);
          ip = ''198.51.100.7''; one = [ip \<mapsto> 0] in
      [at Map.empty [] 0 [1 \<mapsto> Calling ip 0],
       at one [lock False 0 True] 0 [1 \<mapsto> Waiting ip 0 0],
       at one [lock True 0 True] 0 [1 \<mapsto> Inside ip 0 0],
       at one [lock True 0 True] 0 [1 \<mapsto> Inside ip 0 0, 2 \<mapsto> Calling ip 0],
       at one [lock True 0 True] 0 [1 \<mapsto> Inside ip 0 0, 2 \<mapsto> Waiting ip 0 0],
       at one [lock False 0 True] 0 [1 \<mapsto> Leaving ip 0 0, 2 \<mapsto> Waiting ip 0 0],
       at one [lock True 0 True] 0 [1 \<mapsto> Leaving ip 0 0, 2 \<mapsto> Inside ip 0 0],
       at one [lock True 0 False] 0 [2 \<mapsto> Inside ip 0 0],
       at one [lock True 0 False] late [2 \<mapsto> Inside ip 0 0],
       at one [lock True 0 False] late [2 \<mapsto> Inside ip 0 0, 3 \<mapsto> Calling ip late],
       at [ip \<mapsto> 1] [lock True 0 False, lock False late True] late [2 \<mapsto> Inside ip 0 0, 3 \<mapsto> Waiting ip late 1],
       at [ip \<mapsto> 1] [lock True 0 False, lock True late True] late [2 \<mapsto> Inside ip 0 0, 3 \<mapsto> Inside ip late 1]] ! n)"

lemmas busy_gate_simps = busy_gate_def lock_entry_def lock_acquire_def unlock_mutex_def unlock_settle_def pruneIPLocksLocked_def pruned_lock_def
  time_sub_def min_int64_def max_int64_def Minute_def Second_def Let_def numeral_eq_Suc fun_eq_iff

lemma busy_gate_begin:
  "gate_step (gate_start 0 0) (busy_gate 0)" "gate_step (busy_gate 0) (busy_gate 1)" "gate_step (busy_gate 1) (busy_gate 2)"
  "gate_step (busy_gate 2) (busy_gate 3)" "gate_step (busy_gate 3) (busy_gate 4)"
proof -
  let ?ip = "''198.51.100.7''"
  show "gate_step (gate_start 0 0) (busy_gate 0)"
    using gate_step.call [of "gate_start 0 0" 1 ?ip] by (simp add: gate_start_def newDecisionGate_def busy_gate_simps)
  show "gate_step (busy_gate 0) (busy_gate 1)" using gate_step.enter [of "busy_gate 0" 1 ?ip 0 0 "gs_gate (busy_gate 1)"] by (simp add: busy_gate_simps)
  show "gate_step (busy_gate 1) (busy_gate 2)" using gate_step.acquire [of "busy_gate 1" 1 ?ip 0 0 "gs_gate (busy_gate 2)"] by (simp add: busy_gate_simps)
  show "gate_step (busy_gate 2) (busy_gate 3)" using gate_step.call [of "busy_gate 2" 2 ?ip] by (simp add: busy_gate_simps)
  show "gate_step (busy_gate 3) (busy_gate 4)" using gate_step.enter [of "busy_gate 3" 2 ?ip 0 0 "gs_gate (busy_gate 4)"] by (simp add: busy_gate_simps)
qed

lemma busy_gate_path: "gate_step\<^sup>*\<^sup>* (gate_start 0 0) (busy_gate 11)"
proof -
  let ?ip = "''198.51.100.7''"
  have "busy_gate 5 = (busy_gate 4)\<lparr>gs_gate := unlock_mutex 0 (gs_gate (busy_gate 4)), gs_visitors := (gs_visitors (busy_gate 4))(1 \<mapsto> Leaving ?ip 0 0)\<rparr>"
    by (simp add: busy_gate_simps)
  then have s4: "gate_step (busy_gate 4) (busy_gate 5)" using gate_step.leave [of "busy_gate 4" 1 ?ip 0 0] by (simp add: busy_gate_def Let_def numeral_eq_Suc)
  have s5: "gate_step (busy_gate 5) (busy_gate 6)" using gate_step.acquire [of "busy_gate 5" 2 ?ip 0 0 "gs_gate (busy_gate 6)"] by (simp add: busy_gate_simps)
  have "busy_gate 7 = (busy_gate 6)\<lparr>gs_gate := unlock_settle 0 (gs_clock (busy_gate 6)) (gs_gate (busy_gate 6)), gs_visitors := (gs_visitors (busy_gate 6))(1 := None)\<rparr>"
    by (simp add: busy_gate_simps)
  then have s6: "gate_step (busy_gate 6) (busy_gate 7)" using gate_step.settle [of "busy_gate 6" 1 ?ip 0 0] by (simp add: busy_gate_def Let_def numeral_eq_Suc)
  have s7: "gate_step (busy_gate 7) (busy_gate 8)" using gate_step.tick [of "busy_gate 7" "15 * Minute + 1"] by (simp add: busy_gate_simps)
  have s8: "gate_step (busy_gate 8) (busy_gate 9)" using gate_step.call [of "busy_gate 8" 3 ?ip] by (simp add: busy_gate_simps)
  have s9: "gate_step (busy_gate 9) (busy_gate 10)" using gate_step.enter [of "busy_gate 9" 3 ?ip "15 * Minute + 1" 1 "gs_gate (busy_gate 10)"] by (simp add: busy_gate_simps)
  have s10: "gate_step (busy_gate 10) (busy_gate 11)" using gate_step.acquire [of "busy_gate 10" 3 ?ip "15 * Minute + 1" 1 "gs_gate (busy_gate 11)"] by (simp add: busy_gate_simps)
  show ?thesis using busy_gate_begin s4 s5 s6 s7 s8 s9 s10 by (auto intro: rtranclp.rtrancl_into_rtrancl rtranclp.rtrancl_refl)
qed

text \<open>
  Without that bound two goroutines work on the same address. In the trace of \<open>busy_gate\<close> a goroutine that waited for the lock works longer than the
  time to live; the goroutine that left before it has cleared the flag that keeps the lock from being pruned, and a third one gets a
  new lock for the same address.
\<close>

theorem pruned_lock_admits_two:
  "\<exists>s e e' a a'. gate_step\<^sup>*\<^sup>* (gate_start 0 0) s \<and> gs_visitors s 2 = Some (Inside ''198.51.100.7'' e a) \<and> gs_visitors s 3 = Some (Inside ''198.51.100.7'' e' a')"
proof -
  have "gs_visitors (busy_gate 11) 2 = Some (Inside ''198.51.100.7'' 0 0)" "gs_visitors (busy_gate 11) 3 = Some (Inside ''198.51.100.7'' (15 * Minute + 1) 1)"
    by (simp_all add: busy_gate_def Let_def numeral_eq_Suc)
  then show ?thesis using busy_gate_path by blast
qed

theorem gate_mutual_exclusion_witness:
  "gs_visitors (busy_gate 4) 1 = Some (Inside ''198.51.100.7'' 0 0) \<and> gs_visitors (busy_gate 4) 2 \<noteq> Some (Inside ''198.51.100.7'' 0 0)"
proof -
  have "timely (busy_gate 0)" "timely (busy_gate 1)" "timely (busy_gate 2)" "timely (busy_gate 3)" "timely (busy_gate 4)"
    by (auto simp: timely_def visiting_def busy_gate_def Let_def numeral_eq_Suc Minute_def Second_def split: if_splits)
  then have "timely_step (gate_start 0 0) (busy_gate 0)" "timely_step (busy_gate 0) (busy_gate 1)" "timely_step (busy_gate 1) (busy_gate 2)"
    "timely_step (busy_gate 2) (busy_gate 3)" "timely_step (busy_gate 3) (busy_gate 4)" using busy_gate_begin by (simp_all add: timely_step_def)
  then have path: "timely_step\<^sup>*\<^sup>* (gate_start 0 0) (busy_gate 4)" by (auto intro: rtranclp.rtrancl_into_rtrancl rtranclp.rtrancl_refl)
  have one: "gs_visitors (busy_gate 4) 1 = Some (Inside ''198.51.100.7'' 0 0)" by (simp add: busy_gate_def Let_def numeral_eq_Suc)
  then show ?thesis using gate_mutual_exclusion [OF path one, of 2] by fastforce
qed

end
