(* ===== verification/Report_Outbox.thy ===== *)
theory Report_Outbox
  imports Risk Autoban Lease_Repository "HOL-Library.Product_Lexorder"
begin

text \<open>
  The outbox of AbuseIPDB reports: the reservations of \<open>internal/storage/sqlite/report_outbox.go\<close>, the times of the last
  reports of \<open>internal/storage/sqlite/report_dedup.go\<close>, the evidence of \<open>internal/storage/sqlite/reporting_evidence.go\<close>, the
  merging of reports of \<open>internal/services/reporting/report_aggregate.go\<close> and the worker of
  \<open>internal/services/reporting/outbox_worker.go\<close> with its lease guard. The reporter is a parameter, a
  function of the number of the call, and the reports it is given are recorded. Of a report the comment and the
  sums of confidences, which are floating-point numbers that only the comment shows, are left out; of
  the evidence the fields that no operation here reads.
\<close>

section \<open>Reports\<close>

record executable_report =
  xr_ExecutionID :: string
  xr_StableIdentityKey :: string
  xr_IP :: string
  xr_Source :: string
  xr_AbuseType :: string
  xr_Categories :: string
  xr_Action :: string
  xr_OriginatingOpID :: string
  xr_CreatedAt :: go_time
  xr_Hits :: int
  xr_WindowSec :: int
  xr_URIs :: "string list"
  xr_RuleIDs :: "string list"
  xr_Sources :: "string list"

definition splitCSV :: "string \<Rightarrow> string list" where
  "splitCSV value = (if TrimSpace value = [] then [] else filter (\<lambda>p. p \<noteq> []) (map TrimSpace (split_char CHR '','' value)))"

definition mergeUnique :: "string list list \<Rightarrow> string list" where
  "mergeUnique values = dedup_seen [] (map TrimSpace (concat values))"

definition mergeCSV :: "string \<Rightarrow> string \<Rightarrow> string" where
  "mergeCSV a b = comma_join (mergeUnique [splitCSV a, splitCSV b])"

definition or_else :: "string \<Rightarrow> string \<Rightarrow> string" where
  "or_else a b = (if a = [] then b else a)"

definition MergeExecutableReports :: "executable_report \<Rightarrow> executable_report \<Rightarrow> executable_report" where
  "MergeExecutableReports a b =
     a\<lparr>xr_ExecutionID := or_else (xr_ExecutionID a) (xr_ExecutionID b),
       xr_StableIdentityKey := or_else (xr_StableIdentityKey a) (xr_StableIdentityKey b),
       xr_IP := or_else (xr_IP a) (xr_IP b), xr_Source := or_else (xr_Source a) (xr_Source b),
       xr_AbuseType := or_else (xr_AbuseType a) (xr_AbuseType b),
       xr_OriginatingOpID := or_else (xr_OriginatingOpID a) (xr_OriginatingOpID b),
       xr_CreatedAt := (if time_is_zero (xr_CreatedAt a) \<or> \<not> time_is_zero (xr_CreatedAt b) \<and> time_before (xr_CreatedAt b) (xr_CreatedAt a)
                        then xr_CreatedAt b else xr_CreatedAt a),
       xr_WindowSec := (if xr_WindowSec a < xr_WindowSec b then xr_WindowSec b else xr_WindowSec a),
       xr_Action := (if xr_Action a = [] then xr_Action b
                     else if xr_Action b \<noteq> [] \<and> \<not> Contains ('','' @ xr_Action a @ '','') ('','' @ xr_Action b @ '','')
                     then xr_Action a @ '','' @ xr_Action b else xr_Action a),
       xr_Hits := int64_of (xr_Hits a + xr_Hits b),
       xr_Categories := mergeCSV (xr_Categories a) (xr_Categories b),
       xr_URIs := mergeUnique [xr_URIs a, xr_URIs b], xr_RuleIDs := mergeUnique [xr_RuleIDs a, xr_RuleIDs b],
       xr_Sources := mergeUnique [xr_Sources a, xr_Sources b]\<rparr>"

record reservation =
  rv_IP :: string
  rv_Source :: string
  rv_IdempotencyKey :: string
  rv_EvidenceID :: string
  rv_Status :: string
  rv_ExpiresAt :: go_time
  rv_Report :: executable_report

record outbox_item =
  oi_Reservation :: reservation
  oi_AttemptCount :: int
  oi_LastError :: string
  oi_NextAttemptAt :: go_time

definition ReportPending :: string where "ReportPending = ''pending''"
definition ReportReported :: string where "ReportReported = ''reported''"
definition ReportFailed :: string where "ReportFailed = ''failed''"
definition ReportReportedDedupFailed :: string where "ReportReportedDedupFailed = ''reported_dedup_failed''"

lemmas report_status_defs = ReportPending_def ReportReported_def ReportFailed_def ReportReportedDedupFailed_def

section \<open>The tables\<close>

record outbox_row =
  ob_EvidenceID :: string
  ob_IP :: string
  ob_Source :: string
  ob_Key :: string
  ob_Status :: string
  ob_ExpiresAt :: go_time
  ob_NextAttempt :: "go_time option"
  ob_Report :: executable_report
  ob_Attempts :: int
  ob_LastError :: string
  ob_UpdatedAt :: go_time

record dedup_row =
  dr_IP :: string
  dr_LastReportedAt :: go_time
  dr_EvidenceID :: string
  dr_Count :: int

record evidence_row =
  vr_EvidenceID :: string
  vr_Timestamp :: go_time
  vr_Source :: string
  vr_IP :: string
  vr_AbuseType :: string
  vr_Decision :: string
  vr_Reported :: bool
  vr_Suppressed :: bool
  vr_Reason :: string

text \<open>The counters and times of the last cleanup are fields of the stores.\<close>

record report_env = db_env +
  ro_Rows :: "outbox_row list"
  ro_WriteCount :: nat
  ro_LastCleanup :: go_time
  rd_Rows :: "dedup_row list"
  ve_Rows :: "evidence_row list"
  ve_WriteCount :: nat
  ve_LastCleanup :: go_time
  rp_Sent :: "executable_report list"

definition retention :: duration where "retention = 180 * 24 * Hour"
definition outbox_maxEntries :: nat where "outbox_maxEntries = 25000"
definition evidence_maxEntries :: nat where "evidence_maxEntries = 50000"
definition cleanupEvery :: nat where "cleanupEvery = 32"

text \<open>\<open>CURRENT_TIMESTAMP\<close> of a statement has whole seconds.\<close>

definition sql_now :: "'z io_env_scheme \<Rightarrow> go_time \<times> 'z io_env_scheme" where
  "sql_now w = (let (t, w1) = time_Now w in (t - t mod Second, w1))"

definition update_outbox :: "string \<Rightarrow> (outbox_row \<Rightarrow> outbox_row) \<Rightarrow> outbox_row list \<Rightarrow> outbox_row list" where
  "update_outbox i f rows = map (\<lambda>r. if ob_EvidenceID r = i then f r else r) rows"

definition is_pending :: "outbox_row \<Rightarrow> bool" where
  "is_pending r \<longleftrightarrow> ob_Status r = ReportPending"

section \<open>Cleaning up the outbox\<close>

definition outbox_noteWrite :: "'z report_env_scheme \<Rightarrow> 'z report_env_scheme" where
  "outbox_noteWrite w = w\<lparr>ro_WriteCount := ro_WriteCount w + 1\<rparr>"

definition outbox_purgeExpired :: "go_time \<Rightarrow> 'z report_env_scheme \<Rightarrow> unit result \<times> 'z report_env_scheme" where
  "outbox_purgeExpired cutoff w =
     (if time_is_zero cutoff then (Inr (), w)
      else and_then ''storage.sqlite.ReportReservationStore.PurgeExpired'' (io_call w) (\<lambda>_ w1.
        (Inr (), w1\<lparr>ro_Rows := filter (\<lambda>r. \<not> (ob_Status r \<in> {ReportReported, ReportFailed, ReportReportedDedupFailed} \<and> ob_UpdatedAt r < cutoff \<or>
           ob_Status r = ReportPending \<and> ob_ExpiresAt r < cutoff)) (ro_Rows w1)\<rparr>)))"

definition outbox_oldest :: "nat \<Rightarrow> outbox_row list \<Rightarrow> outbox_row list" where
  "outbox_oldest n rows = take n (sort_key (\<lambda>r. (ob_UpdatedAt r, ob_EvidenceID r)) rows)"

definition outbox_trimToMaxEntries :: "nat \<Rightarrow> 'z report_env_scheme \<Rightarrow> unit result \<times> 'z report_env_scheme" where
  "outbox_trimToMaxEntries n w =
     (let op = ''storage.sqlite.ReportReservationStore.TrimToMaxEntries'' in
      if n = 0 then (Inr (), w)
      else and_then op (io_call w) (\<lambda>_ w1.
        let total = length (ro_Rows w1) in
        if total \<le> n then (Inr (), w1)
        else and_then op (io_call w1) (\<lambda>_ w2.
          let old = map ob_EvidenceID (outbox_oldest (total - n) (ro_Rows w2))
          in (Inr (), w2\<lparr>ro_Rows := filter (\<lambda>r. ob_EvidenceID r \<notin> set old) (ro_Rows w2)\<rparr>))))"

definition cleanup_due :: "nat \<Rightarrow> go_time \<Rightarrow> go_time \<Rightarrow> bool" where
  "cleanup_due writes prev now \<longleftrightarrow>
     \<not> (writes mod cleanupEvery \<noteq> 0 \<and> \<not> time_is_zero prev \<and> time_sub now prev < 5 * Minute)"

definition outbox_cleanup :: "'z report_env_scheme \<Rightarrow> unit result \<times> 'z report_env_scheme" where
  "outbox_cleanup w =
     (if db_ReadOnly w then (Inr (), w)
      else let (current, w1) = time_Now w in
        if \<not> cleanup_due (ro_WriteCount w1) (ro_LastCleanup w1) current then (Inr (), w1)
        else and_try (outbox_purgeExpired (time_add current (- retention)) (w1\<lparr>ro_LastCleanup := current\<rparr>)) (\<lambda>_ w2.
          outbox_trimToMaxEntries outbox_maxEntries w2))"

section \<open>Reservations\<close>

definition reservation_row :: "reservation \<Rightarrow> go_time \<Rightarrow> outbox_row" where
  "reservation_row r now =
     \<lparr>ob_EvidenceID = rv_EvidenceID r, ob_IP = rv_IP r, ob_Source = rv_Source r, ob_Key = rv_IdempotencyKey r, ob_Status = rv_Status r,
      ob_ExpiresAt = rv_ExpiresAt r, ob_NextAttempt = Some (rv_ExpiresAt r), ob_Report = rv_Report r, ob_Attempts = 0, ob_LastError = [],
      ob_UpdatedAt = now\<rparr>"

text \<open>The primary key and the unique index on the pending rows of an address.\<close>

definition violates_outbox :: "outbox_row \<Rightarrow> outbox_row list \<Rightarrow> bool" where
  "violates_outbox r rows \<longleftrightarrow>
     (\<exists>q \<in> set rows. ob_EvidenceID q = ob_EvidenceID r \<or> is_pending q \<and> is_pending r \<and> ob_IP q = ob_IP r)"

definition outbox_insert :: "reservation \<Rightarrow> 'z report_env_scheme \<Rightarrow> unit result \<times> 'z report_env_scheme" where
  "outbox_insert r w =
     (let op = ''storage.sqlite.ReportReservationStore.Reserve'' in
      and_then op (io_call w) (\<lambda>_ w1.
        let (now, w2) = sql_now w1; row = reservation_row r now in
        if violates_outbox row (ro_Rows w2) then (Inl (wrap_err op unique_violation), w2)
        else outbox_cleanup (outbox_noteWrite (w2\<lparr>ro_Rows := ro_Rows w2 @ [row]\<rparr>))))"

definition merge_row :: "reservation \<Rightarrow> go_time \<Rightarrow> outbox_row \<Rightarrow> outbox_row" where
  "merge_row r now q =
     (let next = (if time_before (rv_ExpiresAt r) (ob_ExpiresAt q) then ob_ExpiresAt q else rv_ExpiresAt r)
      in q\<lparr>ob_ExpiresAt := next, ob_NextAttempt := Some next, ob_Report := MergeExecutableReports (ob_Report q) (rv_Report r), ob_UpdatedAt := now\<rparr>)"

text \<open>What \<open>Reserve\<close> does with the pending reservation of the address, and the whole from the query on.\<close>

definition reserve_over :: "go_time \<Rightarrow> reservation \<Rightarrow> outbox_row \<Rightarrow> 'z report_env_scheme \<Rightarrow> unit result \<times> 'z report_env_scheme" where
  "reserve_over now r q w =
     (let op = ''storage.sqlite.ReportReservationStore.Reserve'' in
      if ob_Key q = rv_IdempotencyKey r then (Inr (), w)
      else if time_before now (ob_ExpiresAt q) then
        and_then op (io_call w) (\<lambda>_ w1. let (t, w2) = sql_now w1 in
          (Inr (), w2\<lparr>ro_Rows := update_outbox (ob_EvidenceID q) (merge_row r t) (ro_Rows w2)\<rparr>))
      else
        and_then op (io_call w) (\<lambda>_ w1. let (t, w2) = sql_now w1 in
          outbox_insert r (w2\<lparr>ro_Rows := update_outbox (ob_EvidenceID q) (\<lambda>x. x\<lparr>ob_Status := ReportFailed, ob_UpdatedAt := t\<rparr>) (ro_Rows w2)\<rparr>)))"

definition reserve_at :: "go_time \<Rightarrow> reservation \<Rightarrow> 'z report_env_scheme \<Rightarrow> unit result \<times> 'z report_env_scheme" where
  "reserve_at now r w =
     and_then ''storage.sqlite.ReportReservationStore.Reserve'' (io_call w) (\<lambda>_ w1.
       case find (\<lambda>q. ob_IP q = rv_IP r \<and> is_pending q) (ro_Rows w1) of
         None \<Rightarrow> outbox_insert r w1 | Some q \<Rightarrow> reserve_over now r q w1)"

definition outbox_Reserve :: "reservation \<Rightarrow> 'z report_env_scheme \<Rightarrow> unit result \<times> 'z report_env_scheme" where
  "outbox_Reserve r w =
     writable ''storage.sqlite.ReportReservationStore.Reserve'' w (\<lambda>w0.
       let (r1, w1) = (if time_is_zero (rv_ExpiresAt r) then let (t, v) = time_Now w0 in (r\<lparr>rv_ExpiresAt := time_add t (24 * Hour)\<rparr>, v) else (r, w0));
           r2 = (if rv_Status r1 = [] then r1\<lparr>rv_Status := ReportPending\<rparr> else r1);
           (now, w2) = time_Now w1
       in reserve_at now r2 w2)"

definition row_reservation :: "outbox_row \<Rightarrow> reservation" where
  "row_reservation q =
     \<lparr>rv_IP = ob_IP q, rv_Source = ob_Source q, rv_IdempotencyKey = ob_Key q, rv_EvidenceID = ob_EvidenceID q, rv_Status = ob_Status q,
      rv_ExpiresAt = ob_ExpiresAt q, rv_Report = ob_Report q\<rparr>"

definition FindPending :: "string \<Rightarrow> string \<Rightarrow> 'z report_env_scheme \<Rightarrow> reservation option result \<times> 'z report_env_scheme" where
  "FindPending ip key w =
     (let op = ''storage.sqlite.ReportReservationStore.FindPendingByIPAndIdempotencyKey'' in
      writable op w (\<lambda>w0. and_then op (io_call w0) (\<lambda>_ w1.
        case rev (sort_key (\<lambda>q. (ob_UpdatedAt q, ob_EvidenceID q)) (filter (\<lambda>q. ob_IP q = ip \<and> ob_Key q = key \<and> is_pending q) (ro_Rows w1))) of
          [] \<Rightarrow> (Inr None, w1) | q # _ \<Rightarrow> (Inr (Some (row_reservation q)), w1))))"

text \<open>The \<open>UPDATE\<close> of one row by its identifier, with the check that there is one.\<close>

definition outbox_update :: "string \<Rightarrow> string \<Rightarrow> (go_time \<Rightarrow> outbox_row \<Rightarrow> outbox_row) \<Rightarrow> 'z report_env_scheme \<Rightarrow> unit result \<times> 'z report_env_scheme" where
  "outbox_update op evidenceID f w =
     writable op w (\<lambda>w0. and_then op (io_call w0) (\<lambda>_ w1.
       let (t, w2) = sql_now w1; rows = update_outbox evidenceID (f t) (ro_Rows w2) in
       if \<exists>q \<in> set (ro_Rows w2). ob_EvidenceID q = evidenceID \<and> is_pending (f t q) \<and>
            (\<exists>p \<in> set (ro_Rows w2). ob_EvidenceID p \<noteq> evidenceID \<and> is_pending p \<and> ob_IP p = ob_IP q)
       then (Inl (wrap_err op unique_violation), w2)
       else if \<forall>q \<in> set (ro_Rows w2). ob_EvidenceID q \<noteq> evidenceID
       then (Inl (New op (''report reservation not found: '' @ evidenceID)), w2)
       else outbox_cleanup (outbox_noteWrite (w2\<lparr>ro_Rows := rows\<rparr>))))"

definition outbox_MarkStatus :: "string \<Rightarrow> string \<Rightarrow> 'z report_env_scheme \<Rightarrow> unit result \<times> 'z report_env_scheme" where
  "outbox_MarkStatus evidenceID status w =
     outbox_update ''storage.sqlite.ReportReservationStore.MarkStatus'' evidenceID (\<lambda>t q. q\<lparr>ob_Status := status, ob_UpdatedAt := t\<rparr>) w"

definition RecordAttempt :: "string \<Rightarrow> string \<Rightarrow> string \<Rightarrow> go_time \<Rightarrow> 'z report_env_scheme \<Rightarrow> unit result \<times> 'z report_env_scheme" where
  "RecordAttempt evidenceID status lastError nextAttemptAt w =
     outbox_update ''storage.sqlite.ReportReservationStore.RecordAttempt'' evidenceID
       (\<lambda>t q. q\<lparr>ob_Status := status, ob_Attempts := ob_Attempts q + 1, ob_LastError := lastError,
          ob_NextAttempt := (if time_is_zero nextAttemptAt then None else Some nextAttemptAt), ob_UpdatedAt := t\<rparr>) w"

section \<open>Claims\<close>

definition retryable :: "go_time \<Rightarrow> outbox_row \<Rightarrow> bool" where
  "retryable now q \<longleftrightarrow> ob_Status q \<in> {ReportPending, ReportFailed} \<and> (case ob_NextAttempt q of None \<Rightarrow> True | Some t \<Rightarrow> t \<le> now)"

definition row_item :: "outbox_row \<Rightarrow> outbox_item" where
  "row_item q = \<lparr>oi_Reservation = row_reservation q, oi_AttemptCount = ob_Attempts q, oi_LastError = ob_LastError q,
     oi_NextAttemptAt = (case ob_NextAttempt q of None \<Rightarrow> 0 | Some t \<Rightarrow> t)\<rparr>"

definition claim_row :: "go_time \<Rightarrow> go_time \<Rightarrow> outbox_row \<Rightarrow> outbox_row" where
  "claim_row claimUntil t q = q\<lparr>ob_NextAttempt := Some claimUntil, ob_UpdatedAt := t\<rparr>"

text \<open>The loop over the selected rows, inside the transaction.\<close>

fun claim_rows :: "go_time \<Rightarrow> go_time \<Rightarrow> outbox_row list \<Rightarrow> outbox_item list \<Rightarrow> 'z report_env_scheme \<Rightarrow> outbox_item list result \<times> 'z report_env_scheme" where
  "claim_rows now claimUntil [] out w = (Inr out, w)"
| "claim_rows now claimUntil (q # qs) out w =
     and_then ''storage.sqlite.ReportReservationStore.ClaimRetryable'' (io_call w) (\<lambda>_ w1.
       let (t, w2) = sql_now w1;
           hit = (\<lambda>r. ob_EvidenceID r = ob_EvidenceID q \<and> ob_Status r = ob_Status q \<and> (case ob_NextAttempt r of None \<Rightarrow> True | Some n \<Rightarrow> n \<le> now)) in
       if \<exists>r \<in> set (ro_Rows w2). hit r
       then claim_rows now claimUntil qs (out @ [row_item q]) (w2\<lparr>ro_Rows := map (\<lambda>r. if hit r then claim_row claimUntil t r else r) (ro_Rows w2)\<rparr>)
       else claim_rows now claimUntil qs out w2)"

definition ClaimRetryable :: "go_time \<Rightarrow> int \<Rightarrow> go_time \<Rightarrow> 'z report_env_scheme \<Rightarrow> outbox_item list result \<times> 'z report_env_scheme" where
  "ClaimRetryable now limit claimUntil w =
     (let op = ''storage.sqlite.ReportReservationStore.ClaimRetryable''; n = (if limit \<le> 0 then 50 else nat limit) in
      and_try (outbox_cleanup w) (\<lambda>_ w1.
      and_then op (io_call w1) (\<lambda>_ w2.
      and_then op (io_call w2) (\<lambda>_ w3.
        let selected = outbox_oldest n (filter (retryable now) (ro_Rows w3)) in
        case claim_rows now claimUntil selected [] w3 of
          (Inl e, w4) \<Rightarrow> (Inl e, w4\<lparr>ro_Rows := ro_Rows w3\<rparr>)
        | (Inr items, w4) \<Rightarrow>
            case io_call w4 of
              (Inl e, w5) \<Rightarrow> (Inl (wrap_err op e), w5\<lparr>ro_Rows := ro_Rows w3\<rparr>)
            | (Inr _, w5) \<Rightarrow> (Inr items, w5)))))"

definition ListRetryable :: "go_time \<Rightarrow> int \<Rightarrow> 'z report_env_scheme \<Rightarrow> outbox_item list result \<times> 'z report_env_scheme" where
  "ListRetryable now limit w = ClaimRetryable now limit now w"

section \<open>The times of the last reports\<close>

definition LastReportedAt :: "addr \<Rightarrow> 'z report_env_scheme \<Rightarrow> go_time option result \<times> 'z report_env_scheme" where
  "LastReportedAt ip w =
     and_then ''storage.sqlite.AbuseReportDedupStore.LastReportedAt'' (io_call w) (\<lambda>_ w1.
       (Inr (map_option dr_LastReportedAt (find (\<lambda>r. dr_IP r = Addr_String (Some ip)) (rd_Rows w1))), w1))"

definition mark_dedup_row :: "string \<Rightarrow> go_time \<Rightarrow> string \<Rightarrow> dedup_row list \<Rightarrow> dedup_row list" where
  "mark_dedup_row ip t evidenceID rows =
     (if \<exists>r \<in> set rows. dr_IP r = ip
      then map (\<lambda>r. if dr_IP r = ip then r\<lparr>dr_LastReportedAt := t, dr_EvidenceID := evidenceID, dr_Count := dr_Count r + 1\<rparr> else r) rows
      else rows @ [\<lparr>dr_IP = ip, dr_LastReportedAt = t, dr_EvidenceID = evidenceID, dr_Count = 1\<rparr>])"

definition MarkReported :: "addr \<Rightarrow> go_time \<Rightarrow> string \<Rightarrow> 'z report_env_scheme \<Rightarrow> unit result \<times> 'z report_env_scheme" where
  "MarkReported ip reportedAt evidenceID w =
     (let op = ''storage.sqlite.AbuseReportDedupStore.MarkReported'' in
      writable op w (\<lambda>w0.
        let (t, w1) = (if time_is_zero reportedAt then time_Now w0 else (reportedAt, w0));
            i = (if evidenceID = [] then ''unknown'' else evidenceID)
        in and_then op (io_call w1) (\<lambda>_ w2. (Inr (), w2\<lparr>rd_Rows := mark_dedup_row (Addr_String (Some ip)) t i (rd_Rows w2)\<rparr>))))"

section \<open>Evidence\<close>

definition evidence_purgeBefore :: "go_time \<Rightarrow> 'z report_env_scheme \<Rightarrow> unit result \<times> 'z report_env_scheme" where
  "evidence_purgeBefore cutoff w =
     (if time_is_zero cutoff then (Inr (), w)
      else and_then ''storage.sqlite.ReportingEvidenceStore.PurgeBefore'' (io_call w) (\<lambda>_ w1.
        (Inr (), w1\<lparr>ve_Rows := filter (\<lambda>r. \<not> vr_Timestamp r < cutoff) (ve_Rows w1)\<rparr>)))"

definition evidence_trimToMaxEntries :: "nat \<Rightarrow> 'z report_env_scheme \<Rightarrow> unit result \<times> 'z report_env_scheme" where
  "evidence_trimToMaxEntries n w =
     (let op = ''storage.sqlite.ReportingEvidenceStore.TrimToMaxEntries'' in
      if n = 0 then (Inr (), w)
      else and_then op (io_call w) (\<lambda>_ w1.
        let total = length (ve_Rows w1) in
        if total \<le> n then (Inr (), w1)
        else and_then op (io_call w1) (\<lambda>_ w2.
          let old = map vr_EvidenceID (take (total - n) (sort_key (\<lambda>r. (vr_Timestamp r, vr_EvidenceID r)) (ve_Rows w2)))
          in (Inr (), w2\<lparr>ve_Rows := filter (\<lambda>r. vr_EvidenceID r \<notin> set old) (ve_Rows w2)\<rparr>))))"

definition evidence_cleanup :: "'z report_env_scheme \<Rightarrow> unit result \<times> 'z report_env_scheme" where
  "evidence_cleanup w =
     (if db_ReadOnly w then (Inr (), w)
      else let (current, w1) = time_Now w in
        if \<not> cleanup_due (ve_WriteCount w1) (ve_LastCleanup w1) current then (Inr (), w1)
        else and_try (evidence_purgeBefore (time_add current (- retention)) (w1\<lparr>ve_LastCleanup := current\<rparr>)) (\<lambda>_ w2.
          evidence_trimToMaxEntries evidence_maxEntries w2))"

definition evidence_Append :: "evidence_row \<Rightarrow> 'z report_env_scheme \<Rightarrow> unit result \<times> 'z report_env_scheme" where
  "evidence_Append e w =
     (let op = ''storage.sqlite.ReportingEvidenceStore.Append'' in
      writable op w (\<lambda>w0.
        let (e1, w1) = (if time_is_zero (vr_Timestamp e) then let (t, v) = time_Now w0 in (e\<lparr>vr_Timestamp := t\<rparr>, v) else (e, w0))
        in and_then op (io_call w1) (\<lambda>_ w2.
          if \<exists>r \<in> set (ve_Rows w2). vr_EvidenceID r = vr_EvidenceID e1 then (Inl (wrap_err op unique_violation), w2)
          else evidence_cleanup (w2\<lparr>ve_Rows := ve_Rows w2 @ [e1], ve_WriteCount := ve_WriteCount w2 + 1\<rparr>))))"

text \<open>Searching: the options whose text is blank or whose time is zero do not restrict; an offset without a limit takes a hundred rows. The reference of a firewall event is left out.\<close>

record evidence_options =
  eo_IP :: string
  eo_Source :: string
  eo_SuppressionReason :: string
  eo_Decision :: string
  eo_Reported :: bool
  eo_Suppressed :: bool
  eo_From :: go_time
  eo_To :: go_time
  eo_Limit :: int
  eo_Offset :: int

definition no_options :: evidence_options where
  "no_options = \<lparr>eo_IP = [], eo_Source = [], eo_SuppressionReason = [], eo_Decision = [], eo_Reported = False, eo_Suppressed = False, eo_From = 0, eo_To = 0, eo_Limit = 0, eo_Offset = 0\<rparr>"

definition evidence_matches :: "evidence_options \<Rightarrow> evidence_row \<Rightarrow> bool" where
  "evidence_matches opts r =
     (let given = (\<lambda>s v. TrimSpace s = [] \<or> v = TrimSpace s) in
      given (eo_IP opts) (vr_IP r) \<and> given (eo_Source opts) (vr_Source r) \<and> given (eo_SuppressionReason opts) (vr_Reason r) \<and> given (eo_Decision opts) (vr_Decision r) \<and>
      (eo_Reported opts \<longrightarrow> vr_Reported r) \<and> (eo_Suppressed opts \<longrightarrow> vr_Suppressed r) \<and>
      (time_is_zero (eo_From opts) \<or> eo_From opts \<le> vr_Timestamp r) \<and> (time_is_zero (eo_To opts) \<or> vr_Timestamp r \<le> eo_To opts))"

definition evidence_Search :: "evidence_options \<Rightarrow> 'z report_env_scheme \<Rightarrow> evidence_row list result \<times> 'z report_env_scheme" where
  "evidence_Search opts w =
     and_try (evidence_cleanup w) (\<lambda>_ w1. and_then ''storage.sqlite.ReportingEvidenceStore.List'' (io_call w1) (\<lambda>_ w2.
       let rows = rev (sort_key (\<lambda>r. (vr_Timestamp r, vr_EvidenceID r)) (filter (evidence_matches opts) (ve_Rows w2)));
           limit = (if eo_Limit opts > 0 then nat (eo_Limit opts) else if eo_Offset opts > 0 then 100 else length rows)
       in (Inr (take limit (drop (nat (eo_Offset opts)) rows)), w2)))"

definition evidence_List :: "int \<Rightarrow> 'z report_env_scheme \<Rightarrow> evidence_row list result \<times> 'z report_env_scheme" where
  "evidence_List limit w = evidence_Search (no_options\<lparr>eo_Limit := limit\<rparr>) w"

definition evidence_Get :: "string \<Rightarrow> 'z report_env_scheme \<Rightarrow> evidence_row option result \<times> 'z report_env_scheme" where
  "evidence_Get evidenceID w = and_then ''storage.sqlite.ReportingEvidenceStore.Get'' (io_call w) (\<lambda>_ w1. (Inr (find (\<lambda>r. vr_EvidenceID r = evidenceID) (ve_Rows w1)), w1))"

definition evidence_Count :: "evidence_options \<Rightarrow> 'z report_env_scheme \<Rightarrow> int result \<times> 'z report_env_scheme" where
  "evidence_Count opts w = and_then ''storage.sqlite.ReportingEvidenceStore.Count'' (io_call w) (\<lambda>_ w1. (Inr (int (length (filter (evidence_matches opts) (ve_Rows w1)))), w1))"

section \<open>The worker\<close>

text \<open>The fields that say which collaborators there are; the reporter gets the number of the call.\<close>

record outbox_worker =
  ow_reporter :: "nat \<Rightarrow> executable_report \<Rightarrow> unit result"
  ow_dedup :: bool
  ow_evidence :: bool
  ow_limit :: int
  ow_retryBackoff :: duration
  ow_claimLease :: duration
  ow_leaseGuard :: "(string \<times> string) option"

definition NewOutboxWorker :: "(nat \<Rightarrow> executable_report \<Rightarrow> unit result) \<Rightarrow> bool \<Rightarrow> bool \<Rightarrow> int \<Rightarrow> duration \<Rightarrow> duration \<Rightarrow> (string \<times> string) option \<Rightarrow> outbox_worker" where
  "NewOutboxWorker reporter dedup evidence limit backoff lease guard =
     \<lparr>ow_reporter = reporter, ow_dedup = dedup, ow_evidence = evidence, ow_limit = (if limit \<le> 0 then 50 else limit),
      ow_retryBackoff = (if backoff \<le> 0 then 5 * Minute else backoff), ow_claimLease = (if lease \<le> 0 then 30 * Second else lease),
      ow_leaseGuard = guard\<rparr>"

definition NewLeaseStoreOutboxGuard :: "string \<Rightarrow> string \<Rightarrow> string \<times> string" where
  "NewLeaseStoreOutboxGuard scopeID action = (scopeID, if action = [] then ''reconcile'' else action)"

definition ValidateOutboxItem :: "string \<times> string \<Rightarrow> 'z report_env_scheme \<Rightarrow> unit result \<times> 'z report_env_scheme" where
  "ValidateOutboxItem g w =
     (let op = ''reporting.LeaseStoreOutboxGuard.ValidateOutboxItem''; (scopeID, action) = g in
      if scopeID = [] then (Inl (New op ''missing outbox lease guard configuration''), w)
      else and_then op (repo_GetActiveLease scopeID action w) (\<lambda>lease w1.
        let refused = (Inl (New op (''no active lease for scope '' @ scopeID @ '' action '' @ action)) :: unit result) in
        case lease of
          None \<Rightarrow> (refused, w1)
        | Some l \<Rightarrow> let (now, w2) = time_Now w1 in (if IsExpired now l then refused else Inr (), w2)))"

text \<open>The layout of the identifiers of evidence: date and time without separators, and nine digits of a second.\<close>

definition compact_nano :: "go_time \<Rightarrow> string" where
  "compact_nano t =
     (let secs = t div Second mod 86400; (y, m, d) = civil_of_days (t div Second div 86400) in
      pad_nat 4 (nat y) @ pad_nat 2 (nat m) @ pad_nat 2 (nat d) @ ''T'' @ pad_nat 2 (nat (secs div 3600)) @
      pad_nat 2 (nat (secs div 60 mod 60)) @ pad_nat 2 (nat (secs mod 60)) @ ''.'' @ pad_nat 9 (nat (t mod Second)) @ ''Z'')"

text \<open>The errors of the evidence store are ignored; the telemetry is not modelled.\<close>

definition recordOutboxEvidence :: "outbox_worker \<Rightarrow> outbox_item \<Rightarrow> bool \<Rightarrow> bool \<Rightarrow> string \<Rightarrow> 'z report_env_scheme \<Rightarrow> 'z report_env_scheme" where
  "recordOutboxEvidence ow item reported suppressed reason w =
     (let (now, w1) = time_Now w in
      if ow_evidence ow then
        snd (evidence_Append \<lparr>vr_EvidenceID = rv_EvidenceID (oi_Reservation item) @ ''-outbox-'' @ compact_nano now, vr_Timestamp = now, vr_Source = rv_Source (oi_Reservation item),
          vr_IP = rv_IP (oi_Reservation item), vr_AbuseType = [], vr_Decision = (if reason = [] then ''reported'' else ''suppressed''),
          vr_Reported = reported, vr_Suppressed = suppressed, vr_Reason = reason\<rparr> w1)
      else w1)"

definition invalid_ip_error :: "string \<Rightarrow> error" where
  "invalid_ip_error s = Plain (''ParseAddr('' @ json_quote s @ ''): unable to parse IP'')"

definition worker_markDedup :: "outbox_worker \<Rightarrow> outbox_item \<Rightarrow> 'z report_env_scheme \<Rightarrow> unit result \<times> 'z report_env_scheme" where
  "worker_markDedup ow item w =
     (if \<not> ow_dedup ow then (Inr (), w)
      else case ParseAddr (rv_IP (oi_Reservation item)) of
        None \<Rightarrow> (Inl (invalid_ip_error (rv_IP (oi_Reservation item))), w)
      | Some a \<Rightarrow> let (now, w1) = time_Now w in MarkReported a now (rv_EvidenceID (oi_Reservation item)) w1)"

definition send_report :: "(nat \<Rightarrow> executable_report \<Rightarrow> unit result) \<Rightarrow> executable_report \<Rightarrow> 'z report_env_scheme \<Rightarrow> unit result \<times> 'z report_env_scheme" where
  "send_report reporter r w = (reporter (io_step w) r, w\<lparr>io_step := Suc (io_step w), rp_Sent := rp_Sent w @ [r]\<rparr>)"

definition item_report :: "outbox_item \<Rightarrow> executable_report" where
  "item_report item = (let r = rv_Report (oi_Reservation item) in if xr_IP r = [] then r\<lparr>xr_IP := rv_IP (oi_Reservation item)\<rparr> else r)"

definition processItem :: "outbox_worker \<Rightarrow> outbox_item \<Rightarrow> 'z report_env_scheme \<Rightarrow> unit result \<times> 'z report_env_scheme" where
  "processItem ow item w =
     (let id = rv_EvidenceID (oi_Reservation item) in
      case send_report (ow_reporter ow) (item_report item) w of
        (Inl e, w1) \<Rightarrow>
          let (now, w2) = time_Now w1; (_, w3) = RecordAttempt id ReportFailed (Error e) (time_add now (ow_retryBackoff ow)) w2
          in (Inl e, recordOutboxEvidence ow item False True ''abuseipdb_outbox_retry_failed'' w3)
      | (Inr _, w1) \<Rightarrow>
          case worker_markDedup ow item w1 of
            (Inl e, w2) \<Rightarrow>
              let (_, w3) = RecordAttempt id ReportReportedDedupFailed (Error e) 0 w2
              in (Inl e, recordOutboxEvidence ow item True True ''abuseipdb_outbox_dedup_mark_failed'' w3)
          | (Inr _, w2) \<Rightarrow>
              case outbox_MarkStatus id ReportReported w2 of
                (Inl e, w3) \<Rightarrow> (Inl e, recordOutboxEvidence ow item True True ''abuseipdb_outbox_status_failed'' w3)
              | (Inr _, w3) \<Rightarrow> (Inr (), recordOutboxEvidence ow item True False [] w3))"

definition first_error :: "error option \<Rightarrow> unit result \<Rightarrow> error option" where
  "first_error e r = (case e of Some x \<Rightarrow> Some x | None \<Rightarrow> (case r of Inl y \<Rightarrow> Some y | Inr _ \<Rightarrow> None))"

text \<open>The loop of \<open>ProcessOnce\<close>: the number of processed items and the error that is returned with it. The cancellation of the
  context is a failure of the script.\<close>

fun process_items :: "outbox_worker \<Rightarrow> outbox_item list \<Rightarrow> nat \<Rightarrow> error option \<Rightarrow> 'z report_env_scheme \<Rightarrow> (nat \<times> error option) \<times> 'z report_env_scheme" where
  "process_items ow [] n err w = ((n, err), w)"
| "process_items ow (item # items) n err w =
     (case io_call w of
        (Inl e, w1) \<Rightarrow> ((n, Some e), w1)
      | (Inr _, w1) \<Rightarrow>
          case (case ow_leaseGuard ow of None \<Rightarrow> (Inr (), w1) | Some g \<Rightarrow> ValidateOutboxItem g w1) of
            (Inl e, w2) \<Rightarrow> ((n, Some e), recordOutboxEvidence ow item False True ''outbox_lease_guard_refused'' w2)
          | (Inr _, w2) \<Rightarrow>
              let (r, w3) = processItem ow item w2 in process_items ow items (n + 1) (first_error err r) w3)"

definition ProcessOnce :: "outbox_worker \<Rightarrow> 'z report_env_scheme \<Rightarrow> (nat \<times> error option) \<times> 'z report_env_scheme" where
  "ProcessOnce ow w =
     (let (now, w1) = time_Now w; (now2, w2) = time_Now w1 in
      case ClaimRetryable now (ow_limit ow) (time_add now2 (ow_claimLease ow)) w2 of
        (Inl e, w3) \<Rightarrow> ((0, Some e), w3)
      | (Inr items, w3) \<Rightarrow> process_items ow items 0 None w3)"

end
