(* ===== verification/Outbox_Proofs.thy ===== *)
theory Outbox_Proofs
  imports Report_Outbox
begin

text \<open>
  What the report outbox guarantees: one pending reservation per address, claims that exclude each other, and the
  delivery of what was reserved.
\<close>

section \<open>One pending reservation per address\<close>

definition outbox_rows_ok :: "outbox_row list \<Rightarrow> bool" where
  "outbox_rows_ok rows \<longleftrightarrow> distinct (map ob_EvidenceID rows) \<and> inj_on ob_IP {q \<in> set rows. is_pending q}"

definition outbox_ok :: "'z report_env_scheme \<Rightarrow> bool" where
  "outbox_ok w \<longleftrightarrow> outbox_rows_ok (ro_Rows w)"

lemma outbox_ok_fields [simp]: "outbox_ok (w\<lparr>io_step := n\<rparr>) = outbox_ok w" "outbox_ok (w\<lparr>rp_Sent := rs\<rparr>) = outbox_ok w"
  by (simp_all add: outbox_ok_def)

lemma rows_ok_filter: "outbox_rows_ok rows \<Longrightarrow> outbox_rows_ok (filter P rows)"
  by (auto simp: outbox_rows_ok_def distinct_map_filter elim: inj_on_subset)

lemma rows_ok_append:
  assumes "outbox_rows_ok rows" and "\<not> violates_outbox r rows"
  shows "outbox_rows_ok (rows @ [r])"
proof -
  have "ob_EvidenceID r \<notin> ob_EvidenceID ` set rows" using assms(2) by (auto simp: violates_outbox_def)
  moreover have "inj_on ob_IP {q \<in> set (rows @ [r]). is_pending q}"
    using assms unfolding outbox_rows_ok_def violates_outbox_def inj_on_def by fastforce
  ultimately show ?thesis using assms(1) by (simp add: outbox_rows_ok_def)
qed

text \<open>A change of the rows that keeps identifiers and addresses and makes a row pending only if no other row of the address is.\<close>

lemma rows_ok_map:
  assumes ok: "outbox_rows_ok rows" and keep: "\<And>q. ob_EvidenceID (g q) = ob_EvidenceID q" "\<And>q. ob_IP (g q) = ob_IP q"
    and pend: "\<And>q p. q \<in> set rows \<Longrightarrow> is_pending (g q) \<Longrightarrow> is_pending q \<or>
      (p \<in> set rows \<longrightarrow> is_pending p \<or> is_pending (g p) \<longrightarrow> ob_IP p = ob_IP q \<longrightarrow> ob_EvidenceID p = ob_EvidenceID q)"
  shows "outbox_rows_ok (map g rows)"
proof -
  have uniq: "q = p" if "q \<in> set rows" "p \<in> set rows" "ob_EvidenceID q = ob_EvidenceID p" for p q
    using ok that by (auto simp: outbox_rows_ok_def distinct_map dest: inj_onD)
  have "g q = g p" if q: "q \<in> set rows" "is_pending (g q)" and p: "p \<in> set rows" "is_pending (g p)" and ip: "ob_IP q = ob_IP p" for p q
  proof -
    consider "is_pending q" "is_pending p" | "ob_EvidenceID p = ob_EvidenceID q"
      using pend [OF q] pend [OF p] p q ip by metis
    then show ?thesis
    proof cases
      case 1
      then show ?thesis using ok p q ip by (auto simp: outbox_rows_ok_def dest: inj_onD)
    next
      case 2
      then show ?thesis using uniq [OF p(1) q(1)] by simp
    qed
  qed
  then have "inj_on ob_IP {q \<in> set (map g rows). is_pending q}" by (auto simp: inj_on_def keep)
  moreover have "map (ob_EvidenceID \<circ> g) rows = map ob_EvidenceID rows" by (simp add: keep)
  ultimately show ?thesis using ok by (simp only: outbox_rows_ok_def list.map_comp)
qed

section \<open>Invariants of the table\<close>

text \<open>
  What an invariant of the table has to satisfy so that every operation of the store keeps it: the rows that are
  purged or trimmed, the reservations and the ends of claims it admits.
\<close>

locale outbox_invariant =
  fixes I :: "outbox_row list \<Rightarrow> bool" and admits :: "reservation \<Rightarrow> bool" and lasting :: "go_time \<Rightarrow> bool"
  assumes filter_rows: "I rows \<Longrightarrow> I (filter P rows)"
    and insert_row: "I rows \<Longrightarrow> admits r \<Longrightarrow> \<not> violates_outbox (reservation_row r t) rows \<Longrightarrow> I (rows @ [reservation_row r t])"
    and merge_rows: "I rows \<Longrightarrow> admits r \<Longrightarrow> I (update_outbox i (merge_row r t) rows)"
    and fail_row: "I rows \<Longrightarrow> q \<in> set rows \<Longrightarrow> is_pending q \<Longrightarrow>
      I (update_outbox (ob_EvidenceID q) (\<lambda>x. x\<lparr>ob_Status := ReportFailed, ob_UpdatedAt := t\<rparr>) rows)"
    and claim_some: "I rows \<Longrightarrow> lasting u \<Longrightarrow> I (map (\<lambda>r. if hit r then claim_row u t r else r) rows)"
    and admits_status: "admits r \<Longrightarrow> admits (r\<lparr>rv_Status := s\<rparr>)"
    and admits_expiry: "admits r \<Longrightarrow> time_is_zero (rv_ExpiresAt r) \<Longrightarrow> admits (r\<lparr>rv_ExpiresAt := t\<rparr>)"
begin

lemma purge: "I (ro_Rows w) \<Longrightarrow> I (ro_Rows (snd (outbox_purgeExpired cutoff w)))"
  by (cases w rule: io_call_cases) (simp_all add: outbox_purgeExpired_def filter_rows)

lemma trim: "I (ro_Rows w) \<Longrightarrow> I (ro_Rows (snd (outbox_trimToMaxEntries n w)))"
  by (cases w rule: io_call_cases; cases "w\<lparr>io_step := Suc (io_step w)\<rparr>" rule: io_call_cases)
    (simp_all add: outbox_trimToMaxEntries_def filter_rows Let_def)

lemma cleanup_rows:
  assumes "I (ro_Rows w)"
  shows "I (ro_Rows (snd (outbox_cleanup w)))"
proof -
  let ?current = "io_clock w (io_step w)"
  obtain r v where pv: "outbox_purgeExpired (time_add ?current (- retention)) (w\<lparr>io_step := Suc (io_step w), ro_LastCleanup := ?current\<rparr>) = (r, v)"
    by (cases "outbox_purgeExpired (time_add ?current (- retention)) (w\<lparr>io_step := Suc (io_step w), ro_LastCleanup := ?current\<rparr>)")
  then have "I (ro_Rows v)"
    using purge [of "w\<lparr>io_step := Suc (io_step w), ro_LastCleanup := ?current\<rparr>" "time_add ?current (- retention)"] assms by simp
  then show ?thesis using assms pv by (cases r) (simp_all add: outbox_cleanup_def time_Now_def Let_def trim)
qed

lemma insert_op: "I (ro_Rows w) \<Longrightarrow> admits r \<Longrightarrow> I (ro_Rows (snd (outbox_insert r w)))"
  by (cases w rule: io_call_cases) (simp_all add: outbox_insert_def sql_now_def time_Now_def outbox_noteWrite_def Let_def cleanup_rows insert_row)

lemma reserve_over_op:
  assumes "I (ro_Rows w)" and "admits r" and "q \<in> set (ro_Rows w)" and "is_pending q"
  shows "I (ro_Rows (snd (reserve_over now r q w)))"
  using assms merge_rows [OF assms(1,2)] fail_row [OF assms(1,3,4)]
  by (cases w rule: io_call_cases) (simp_all add: reserve_over_def sql_now_def time_Now_def Let_def insert_op)

lemma reserve_at_op:
  assumes "I (ro_Rows w)" and "admits r"
  shows "I (ro_Rows (snd (reserve_at now r w)))"
proof (cases "find (\<lambda>q. ob_IP q = rv_IP r \<and> is_pending q) (ro_Rows w)")
  case None
  then show ?thesis using assms by (cases w rule: io_call_cases) (simp_all add: reserve_at_def insert_op)
next
  case (Some q)
  then have q: "q \<in> set (ro_Rows w)" "is_pending q" by (auto simp: find_Some_iff)
  then show ?thesis using assms Some reserve_over_op [OF _ assms(2), of "w\<lparr>io_step := Suc (io_step w)\<rparr>" q]
    by (cases w rule: io_call_cases) (simp_all add: reserve_at_def)
qed

lemma reserve_op:
  assumes "I (ro_Rows w)" and "admits r"
  shows "I (ro_Rows (snd (outbox_Reserve r w)))"
  using assms
  by (cases "db_ReadOnly w"; cases "time_is_zero (rv_ExpiresAt r)")
    (simp_all add: outbox_Reserve_def writable_simps time_Now_def reserve_at_op admits_status admits_expiry)

lemma claim_loop: "I (ro_Rows w) \<Longrightarrow> lasting u \<Longrightarrow> I (ro_Rows (snd (claim_rows now u qs out w)))"
proof (induction qs arbitrary: out w)
  case (Cons q qs)
  then show ?case
    by (cases w rule: io_call_cases) (simp_all add: sql_now_def time_Now_def Let_def claim_some)
qed simp

lemma claim_op:
  assumes "I (ro_Rows w)" and "lasting u"
  shows "I (ro_Rows (snd (ClaimRetryable now limit u w)))"
proof -
  let ?qs = "\<lambda>v. outbox_oldest (if limit \<le> 0 then 50 else nat limit) (filter (retryable now) (ro_Rows v))"
  obtain r1 w1 where clean: "outbox_cleanup w = (r1, w1)" by (cases "outbox_cleanup w")
  then have w1: "I (ro_Rows w1)" using cleanup_rows [OF assms(1)] by simp
  let ?w3 = "w1\<lparr>io_step := Suc (Suc (io_step w1))\<rparr>"
  obtain r4 w4 where loop: "claim_rows now u (?qs ?w3) [] ?w3 = (r4, w4)" by (cases "claim_rows now u (?qs ?w3) [] ?w3")
  then have w4: "I (ro_Rows w4)" using claim_loop [OF _ assms(2), of ?w3 now "?qs ?w3" "[]"] w1 by simp
  show ?thesis
  proof (cases r1)
    case (Inr x)
    then show ?thesis using w1 w4 clean loop
      by (cases w1 rule: io_call_cases; cases "w1\<lparr>io_step := Suc (io_step w1)\<rparr>" rule: io_call_cases; cases r4; cases w4 rule: io_call_cases)
        (simp_all add: ClaimRetryable_def Let_def)
  qed (use clean w1 in \<open>simp add: ClaimRetryable_def\<close>)
qed

lemma update_op:
  assumes "I (ro_Rows w)"
    and "\<And>t. \<not> (\<exists>q \<in> set (ro_Rows w). ob_EvidenceID q = i \<and> is_pending (f t q) \<and>
            (\<exists>p \<in> set (ro_Rows w). ob_EvidenceID p \<noteq> i \<and> is_pending p \<and> ob_IP p = ob_IP q)) \<Longrightarrow> I (update_outbox i (f t) (ro_Rows w))"
  shows "I (ro_Rows (snd (outbox_update op i f w)))"
  using assms
  by (cases "db_ReadOnly w"; cases w rule: io_call_cases)
    (simp_all add: outbox_update_def writable_simps sql_now_def time_Now_def Let_def cleanup_rows outbox_noteWrite_def)

end

interpretation pending: outbox_invariant outbox_rows_ok "\<lambda>_. True" "\<lambda>_. True"
proof unfold_locales
  fix rows r t
  show "outbox_rows_ok rows \<Longrightarrow> \<not> violates_outbox (reservation_row r t) rows \<Longrightarrow> outbox_rows_ok (rows @ [reservation_row r t])"
    by (rule rows_ok_append)
next
  fix rows r i t
  show "outbox_rows_ok rows \<Longrightarrow> outbox_rows_ok (update_outbox i (merge_row r t) rows)"
    unfolding update_outbox_def by (rule rows_ok_map) (auto simp: merge_row_def is_pending_def Let_def split: if_splits)
next
  fix rows q t
  show "outbox_rows_ok rows \<Longrightarrow> outbox_rows_ok (update_outbox (ob_EvidenceID q) (\<lambda>x. x\<lparr>ob_Status := ReportFailed, ob_UpdatedAt := t\<rparr>) rows)"
    unfolding update_outbox_def by (rule rows_ok_map) (auto simp: is_pending_def report_status_defs split: if_splits)
next
  fix rows u t and hit :: "outbox_row \<Rightarrow> bool"
  show "outbox_rows_ok rows \<Longrightarrow> outbox_rows_ok (map (\<lambda>r. if hit r then claim_row u t r else r) rows)"
    by (rule rows_ok_map) (auto simp: claim_row_def is_pending_def split: if_splits)
qed (simp_all add: rows_ok_filter)

lemma update_pending_ok:
  assumes "outbox_rows_ok rows" and "\<And>q. ob_EvidenceID (f q) = ob_EvidenceID q" and "\<And>q. ob_IP (f q) = ob_IP q"
    and "\<not> (\<exists>q \<in> set rows. ob_EvidenceID q = i \<and> is_pending (f q) \<and> (\<exists>p \<in> set rows. ob_EvidenceID p \<noteq> i \<and> is_pending p \<and> ob_IP p = ob_IP q))"
  shows "outbox_rows_ok (update_outbox i f rows)"
  unfolding update_outbox_def
proof (rule rows_ok_map [OF assms(1)])
  fix q p
  assume q: "q \<in> set rows" "is_pending (if ob_EvidenceID q = i then f q else q)"
  show "is_pending q \<or> (p \<in> set rows \<longrightarrow> is_pending p \<or> is_pending (if ob_EvidenceID p = i then f p else p) \<longrightarrow> ob_IP p = ob_IP q \<longrightarrow> ob_EvidenceID p = ob_EvidenceID q)"
    using q assms(4) by (cases "ob_EvidenceID q = i"; cases "ob_EvidenceID p = i") auto
qed (simp_all add: assms(2,3))

lemma MarkStatus_pending: "outbox_ok w \<Longrightarrow> outbox_ok (snd (outbox_MarkStatus i s w))"
  unfolding outbox_ok_def outbox_MarkStatus_def by (rule pending.update_op) (auto intro!: update_pending_ok)

lemma RecordAttempt_pending: "outbox_ok w \<Longrightarrow> outbox_ok (snd (RecordAttempt i s e t w))"
  unfolding outbox_ok_def RecordAttempt_def by (rule pending.update_op) (auto intro!: update_pending_ok)

text \<open>The other stores leave the outbox alone.\<close>

lemma evidence_trim_frame: "ro_Rows (snd (evidence_trimToMaxEntries n w)) = ro_Rows w"
  by (cases w rule: io_call_cases; cases "w\<lparr>io_step := Suc (io_step w)\<rparr>" rule: io_call_cases)
    (simp_all add: evidence_trimToMaxEntries_def Let_def)

lemma evidence_cleanup_frame: "ro_Rows (snd (evidence_cleanup w)) = ro_Rows w"
proof -
  have "ro_Rows (snd (evidence_purgeBefore c v)) = ro_Rows v" for c and v :: "'a report_env_scheme"
    by (cases v rule: io_call_cases) (simp_all add: evidence_purgeBefore_def)
  then have "ro_Rows (snd (and_try (evidence_purgeBefore c v) (\<lambda>_ w2. evidence_trimToMaxEntries n w2))) = ro_Rows v" for c n and v :: "'a report_env_scheme"
    by (rule and_try_frame) (rule evidence_trim_frame)
  then show ?thesis by (simp add: evidence_cleanup_def time_Now_def Let_def)
qed

lemma evidence_Append_frame: "ro_Rows (snd (evidence_Append e w)) = ro_Rows w"
  by (cases "db_ReadOnly w"; cases "time_is_zero (vr_Timestamp e)"; cases w rule: io_call_cases; cases "w\<lparr>io_step := Suc (io_step w)\<rparr>" rule: io_call_cases)
    (simp_all add: evidence_Append_def writable_simps time_Now_def Let_def evidence_cleanup_frame)

lemma recordOutboxEvidence_frame: "ro_Rows (recordOutboxEvidence ow item a b reason w) = ro_Rows w"
  by (simp add: recordOutboxEvidence_def time_Now_def Let_def evidence_Append_frame)

lemma MarkReported_frame: "ro_Rows (snd (MarkReported a t i w)) = ro_Rows w"
  by (cases "db_ReadOnly w"; cases "time_is_zero t"; cases w rule: io_call_cases; cases "w\<lparr>io_step := Suc (io_step w)\<rparr>" rule: io_call_cases)
    (simp_all add: MarkReported_def writable_simps time_Now_def)

lemma worker_markDedup_frame: "ro_Rows (snd (worker_markDedup ow item w)) = ro_Rows w"
  by (simp add: worker_markDedup_def time_Now_def MarkReported_frame split: option.split)

lemma ValidateOutboxItem_frame: "ro_Rows (snd (ValidateOutboxItem g w)) = ro_Rows w"
  by (cases g; cases "w\<lparr>io_step := Suc (io_step w)\<rparr>" rule: io_call_cases)
    (simp_all add: ValidateOutboxItem_def repo_GetActiveLease_def time_Now_def Let_def split: option.split)

lemma processItem_pending:
  assumes "outbox_ok w"
  shows "outbox_ok (snd (processItem ow item w))"
proof -
  let ?w1 = "w\<lparr>io_step := Suc (io_step w), rp_Sent := rp_Sent w @ [item_report item]\<rparr>"
  have w1: "outbox_ok ?w1" using assms by simp
  obtain r w2 where dedup: "worker_markDedup ow item ?w1 = (r, w2)" by (cases "worker_markDedup ow item ?w1")
  have w2: "outbox_ok w2" using worker_markDedup_frame [of ow item ?w1] dedup w1 by (simp add: outbox_ok_def)
  have ev: "outbox_ok (recordOutboxEvidence ow item a b reason v) = outbox_ok v" for a b reason and v :: "'a report_env_scheme"
    by (simp add: outbox_ok_def recordOutboxEvidence_frame)
  obtain m w3 where mark: "outbox_MarkStatus (rv_EvidenceID (oi_Reservation item)) ReportReported w2 = (m, w3)"
    by (cases "outbox_MarkStatus (rv_EvidenceID (oi_Reservation item)) ReportReported w2")
  have w3: "outbox_ok w3" using MarkStatus_pending [OF w2, of "rv_EvidenceID (oi_Reservation item)" ReportReported] mark by simp
  show ?thesis
    by (cases "ow_reporter ow (io_step w) (item_report item)"; cases r; cases m)
      (simp_all add: processItem_def send_report_def dedup mark w3 w2 ev time_Now_def Let_def split_beta RecordAttempt_pending assms)
qed

lemma process_items_pending: "outbox_ok w \<Longrightarrow> outbox_ok (snd (process_items ow items n err w))"
proof (induction items arbitrary: n err w)
  case (Cons item items)
  let ?w1 = "w\<lparr>io_step := Suc (io_step w)\<rparr>"
  obtain r w2 where guard: "(case ow_leaseGuard ow of None \<Rightarrow> (Inr (), ?w1) | Some g \<Rightarrow> ValidateOutboxItem g ?w1) = (r, w2)" by fastforce
  have "ro_Rows (snd (case ow_leaseGuard ow of None \<Rightarrow> (Inr (), ?w1) | Some g \<Rightarrow> ValidateOutboxItem g ?w1)) = ro_Rows w"
    by (simp add: ValidateOutboxItem_frame split: option.split)
  then have w2: "outbox_ok w2" using guard Cons.prems by (simp add: outbox_ok_def)
  have ev: "outbox_ok (recordOutboxEvidence ow item a b reason w2)" for a b reason using w2 by (simp add: outbox_ok_def recordOutboxEvidence_frame)
  have ok1: "outbox_ok ?w1" using Cons.prems by (simp add: outbox_ok_def)
  show ?case
  proof (cases w rule: io_call_cases)
    case 1
    then show ?thesis using guard ev Cons.IH [OF processItem_pending [OF w2]] by (cases r) (simp_all add: split_beta)
  next
    case (2 e)
    then show ?thesis using ok1 by simp
  qed
qed simp


definition busy_outbox :: report_env where
  "busy_outbox = \<lparr>io_clock = (\<lambda>n. 100 * Second + int n), io_fault = (\<lambda>_. None), io_choice = (\<lambda>_. False), io_step = 0, fs_files = [],
     db_ReadOnly = False, db_Events = [], db_NextEventID = 1, db_Sequences = [], db_Checkpoints = [], db_Leases = [],
     ro_Rows = [], ro_WriteCount = 0, ro_LastCleanup = 0, rd_Rows = [], ve_Rows = [], ve_WriteCount = 0, ve_LastCleanup = 0, rp_Sent = []\<rparr>"

definition sample_report :: executable_report where
  "sample_report = \<lparr>xr_ExecutionID = ''exec-1'', xr_StableIdentityKey = ''report-1'', xr_IP = ''198.51.100.7'', xr_Source = ''cloudflare_waf'',
     xr_AbuseType = ''scanner'', xr_Categories = ''19'', xr_Action = ''block'', xr_OriginatingOpID = ''r1'', xr_CreatedAt = 1, xr_Hits = 3, xr_WindowSec = 30,
     xr_URIs = [''/a''], xr_RuleIDs = [''r1''], xr_Sources = [''cloudflare_waf'']\<rparr>"

definition sample_reservation :: reservation where
  "sample_reservation = \<lparr>rv_IP = ''198.51.100.7'', rv_Source = ''cloudflare_waf'', rv_IdempotencyKey = ''exec-1'', rv_EvidenceID = ''ev-1'', rv_Status = ReportPending,
     rv_ExpiresAt = 130 * Second, rv_Report = sample_report\<rparr>"


section \<open>Claims\<close>

definition held :: "string set \<Rightarrow> go_time \<Rightarrow> outbox_row list \<Rightarrow> bool" where
  "held S u rows \<longleftrightarrow> (\<forall>q \<in> set rows. ob_EvidenceID q \<in> S \<longrightarrow> ob_Status q \<in> {ReportPending, ReportFailed} \<longrightarrow> (\<exists>t. ob_NextAttempt q = Some t \<and> u \<le> t))"

lemma heldD: "held S u rows \<Longrightarrow> q \<in> set rows \<Longrightarrow> ob_EvidenceID q \<in> S \<Longrightarrow> ob_Status q \<in> {ReportPending, ReportFailed} \<Longrightarrow> \<exists>t. ob_NextAttempt q = Some t \<and> u \<le> t"
  unfolding held_def by blast

lemma held_map:
  assumes "\<And>q. q \<in> set rows \<Longrightarrow> ob_EvidenceID (g q) \<in> S \<Longrightarrow> ob_Status (g q) \<in> {ReportPending, ReportFailed} \<Longrightarrow> \<exists>t. ob_NextAttempt (g q) = Some t \<and> u \<le> t"
  shows "held S u (map g rows)"
  unfolding held_def using assms by auto

lemma row_by_id:
  assumes "outbox_rows_ok rows" and "q \<in> set rows" and "p \<in> set rows" and "ob_EvidenceID q = ob_EvidenceID p"
  shows "q = p"
  using assms by (auto simp: outbox_rows_ok_def distinct_map dest: inj_onD)

interpretation claimed: outbox_invariant "\<lambda>rows. outbox_rows_ok rows \<and> held S u rows" "\<lambda>r. rv_ExpiresAt r \<noteq> 0 \<and> u \<le> rv_ExpiresAt r" "\<lambda>v. u \<le> v"
  for S :: "string set" and u :: go_time
proof unfold_locales
  fix rows and P :: "outbox_row \<Rightarrow> bool"
  show "outbox_rows_ok rows \<and> held S u rows \<Longrightarrow> outbox_rows_ok (filter P rows) \<and> held S u (filter P rows)"
    by (simp add: rows_ok_filter held_def)
next
  fix rows t and r :: reservation
  assume "outbox_rows_ok rows \<and> held S u rows" "rv_ExpiresAt r \<noteq> 0 \<and> u \<le> rv_ExpiresAt r" "\<not> violates_outbox (reservation_row r t) rows"
  then show "outbox_rows_ok (rows @ [reservation_row r t]) \<and> held S u (rows @ [reservation_row r t])"
    by (simp add: rows_ok_append held_def reservation_row_def)
next
  fix rows i t and r :: reservation
  assume I: "outbox_rows_ok rows \<and> held S u rows" and r: "rv_ExpiresAt r \<noteq> 0 \<and> u \<le> rv_ExpiresAt r"
  have "held S u (update_outbox i (merge_row r t) rows)" unfolding update_outbox_def
  proof (rule held_map)
    fix q
    assume q: "q \<in> set rows" "ob_EvidenceID (if ob_EvidenceID q = i then merge_row r t q else q) \<in> S"
      "ob_Status (if ob_EvidenceID q = i then merge_row r t q else q) \<in> {ReportPending, ReportFailed}"
    show "\<exists>t'. ob_NextAttempt (if ob_EvidenceID q = i then merge_row r t q else q) = Some t' \<and> u \<le> t'"
    proof (cases "ob_EvidenceID q = i")
      case True
      then show ?thesis using r by (auto simp: merge_row_def Let_def go_time)
    next
      case False
      then show ?thesis using heldD [of S u rows q] I q by simp
    qed
  qed
  then show "outbox_rows_ok (update_outbox i (merge_row r t) rows) \<and> held S u (update_outbox i (merge_row r t) rows)"
    using pending.merge_rows I by blast
next
  fix rows q t
  assume I: "outbox_rows_ok rows \<and> held S u rows" and q: "q \<in> set rows" "is_pending q"
  let ?f = "\<lambda>x. x\<lparr>ob_Status := ReportFailed, ob_UpdatedAt := t\<rparr>"
  have "held S u (update_outbox (ob_EvidenceID q) ?f rows)" unfolding update_outbox_def
  proof (rule held_map)
    fix p
    assume p: "p \<in> set rows" "ob_EvidenceID (if ob_EvidenceID p = ob_EvidenceID q then ?f p else p) \<in> S"
      "ob_Status (if ob_EvidenceID p = ob_EvidenceID q then ?f p else p) \<in> {ReportPending, ReportFailed}"
    show "\<exists>t'. ob_NextAttempt (if ob_EvidenceID p = ob_EvidenceID q then ?f p else p) = Some t' \<and> u \<le> t'"
    proof (cases "ob_EvidenceID p = ob_EvidenceID q")
      case True
      then have "p = q" using row_by_id I p(1) q(1) by blast
      then show ?thesis using heldD [of S u rows q] I q p by (simp add: is_pending_def)
    next
      case False
      then show ?thesis using heldD [of S u rows p] I p by simp
    qed
  qed
  then show "outbox_rows_ok (update_outbox (ob_EvidenceID q) ?f rows) \<and> held S u (update_outbox (ob_EvidenceID q) ?f rows)"
    using pending.fail_row I q by blast
next
  fix rows v t and hit :: "outbox_row \<Rightarrow> bool"
  assume I: "outbox_rows_ok rows \<and> held S u rows" and v: "u \<le> v"
  have "held S u (map (\<lambda>r. if hit r then claim_row v t r else r) rows)"
  proof (rule held_map)
    fix q
    assume q: "q \<in> set rows" "ob_EvidenceID (if hit q then claim_row v t q else q) \<in> S"
      "ob_Status (if hit q then claim_row v t q else q) \<in> {ReportPending, ReportFailed}"
    then show "\<exists>t'. ob_NextAttempt (if hit q then claim_row v t q else q) = Some t' \<and> u \<le> t'"
      using v heldD [of S u rows q] I by (cases "hit q") (simp_all add: claim_row_def)
  qed
  then show "outbox_rows_ok (map (\<lambda>r. if hit r then claim_row v t r else r) rows) \<and> held S u (map (\<lambda>r. if hit r then claim_row v t r else r) rows)"
    using pending.claim_some I by blast
qed (simp_all add: go_time)

text \<open>The steps that the service and any number of workers take on the table while a claim until \<open>u\<close> is held: reservations that expire
  later, claims that end later, the results of attempts, and everything that leaves the table alone.\<close>

inductive outbox_step :: "go_time \<Rightarrow> 'z report_env_scheme \<Rightarrow> 'z report_env_scheme \<Rightarrow> bool" for u where
  reserve: "rv_ExpiresAt r \<noteq> 0 \<Longrightarrow> u \<le> rv_ExpiresAt r \<Longrightarrow> outbox_step u w (snd (outbox_Reserve r w))"
| claim: "u \<le> v \<Longrightarrow> outbox_step u w (snd (ClaimRetryable now limit v w))"
| reported: "outbox_step u w (snd (outbox_MarkStatus i ReportReported w))"
| retry: "t \<noteq> 0 \<Longrightarrow> u \<le> t \<Longrightarrow> outbox_step u w (snd (RecordAttempt i ReportFailed e t w))"
| unmarked: "outbox_step u w (snd (RecordAttempt i ReportReportedDedupFailed e t w))"
| elsewhere: "ro_Rows w' = ro_Rows w \<Longrightarrow> outbox_step u w w'"

lemma held_update:
  assumes "held S u rows" and "\<And>q. ob_EvidenceID (f q) = ob_EvidenceID q"
    and "\<And>q. q \<in> set rows \<Longrightarrow> ob_Status (f q) \<in> {ReportPending, ReportFailed} \<Longrightarrow> \<exists>t. ob_NextAttempt (f q) = Some t \<and> u \<le> t"
  shows "held S u (update_outbox i f rows)"
  unfolding update_outbox_def
proof (rule held_map)
  fix q
  assume q: "q \<in> set rows" "ob_EvidenceID (if ob_EvidenceID q = i then f q else q) \<in> S"
    "ob_Status (if ob_EvidenceID q = i then f q else q) \<in> {ReportPending, ReportFailed}"
  show "\<exists>t. ob_NextAttempt (if ob_EvidenceID q = i then f q else q) = Some t \<and> u \<le> t"
    using q assms(3) [OF q(1)] heldD [OF assms(1) q(1)] by (cases "ob_EvidenceID q = i") simp_all
qed

lemma outbox_step_held:
  assumes "outbox_step u w w'" and "outbox_rows_ok (ro_Rows w) \<and> held S u (ro_Rows w)"
  shows "outbox_rows_ok (ro_Rows w') \<and> held S u (ro_Rows w')"
  using assms
proof cases
  case (reserve r)
  then show ?thesis using claimed.reserve_op [OF assms(2), of r] by simp
next
  case (claim v now limit)
  then show ?thesis using claimed.claim_op [OF assms(2), of v] by simp
next
  case (reported i)
  have "outbox_rows_ok (update_outbox i (\<lambda>q. q\<lparr>ob_Status := ReportReported, ob_UpdatedAt := t\<rparr>) (ro_Rows w)) \<and>
      held S u (update_outbox i (\<lambda>q. q\<lparr>ob_Status := ReportReported, ob_UpdatedAt := t\<rparr>) (ro_Rows w))" for t
    using assms(2) by (auto intro!: update_pending_ok held_update simp: is_pending_def report_status_defs)
  then show ?thesis using reported claimed.update_op [OF assms(2)] by (simp add: outbox_MarkStatus_def)
next
  case (retry t i e)
  let ?f = "\<lambda>n q. q\<lparr>ob_Status := ReportFailed, ob_Attempts := ob_Attempts q + 1, ob_LastError := e,
      ob_NextAttempt := (if time_is_zero t then None else Some t), ob_UpdatedAt := n\<rparr>"
  have "outbox_rows_ok (update_outbox i (?f n) (ro_Rows w)) \<and> held S u (update_outbox i (?f n) (ro_Rows w))" for n
    using assms(2) retry by (auto intro!: update_pending_ok held_update simp: is_pending_def report_status_defs go_time)
  then show ?thesis using retry claimed.update_op [OF assms(2)] by (simp add: RecordAttempt_def)
next
  case (unmarked i e t)
  let ?f = "\<lambda>n q. q\<lparr>ob_Status := ReportReportedDedupFailed, ob_Attempts := ob_Attempts q + 1, ob_LastError := e,
      ob_NextAttempt := (if time_is_zero t then None else Some t), ob_UpdatedAt := n\<rparr>"
  have "outbox_rows_ok (update_outbox i (?f n) (ro_Rows w)) \<and> held S u (update_outbox i (?f n) (ro_Rows w))" for n
    using assms(2) by (auto intro!: update_pending_ok held_update simp: is_pending_def report_status_defs)
  then show ?thesis using unmarked claimed.update_op [OF assms(2)] by (simp add: RecordAttempt_def)
next
  case elsewhere
  then show ?thesis using assms(2) by simp
qed

definition item_ids :: "outbox_item list \<Rightarrow> string set" where
  "item_ids items = (\<lambda>i. rv_EvidenceID (oi_Reservation i)) ` set items"

lemma item_ids_simps [simp]: "item_ids [] = {}" "item_ids (xs @ [row_item q]) = insert (ob_EvidenceID q) (item_ids xs)"
  by (simp_all add: item_ids_def row_item_def row_reservation_def)

text \<open>What the loop of a claim returns, and that it holds what it returns.\<close>

lemma claim_rows_held:
  assumes "claim_rows now u qs out w = (Inr items, w')" and "outbox_rows_ok (ro_Rows w) \<and> held (item_ids out) u (ro_Rows w)"
  shows "held (item_ids items) u (ro_Rows w') \<and> item_ids items \<subseteq> item_ids out \<union> ob_EvidenceID ` set qs"
  using assms
proof (induction qs arbitrary: out w)
  case (Cons q qs)
  let ?t = "io_clock w (Suc (io_step w)) - io_clock w (Suc (io_step w)) mod Second"
  let ?hit = "\<lambda>r. ob_EvidenceID r = ob_EvidenceID q \<and> ob_Status r = ob_Status q \<and> (case ob_NextAttempt r of None \<Rightarrow> True | Some n \<Rightarrow> n \<le> now)"
  let ?rows = "map (\<lambda>r. if ?hit r then claim_row u ?t r else r) (ro_Rows w)"
  have call: "io_call w = (Inr (), w\<lparr>io_step := Suc (io_step w)\<rparr>)" using Cons.prems(1) by (cases w rule: io_call_cases) simp_all
  show ?case
  proof (cases "\<exists>r \<in> set (ro_Rows w). ?hit r")
    case True
    then obtain r0 where r0: "r0 \<in> set (ro_Rows w)" "?hit r0" by blast
    have "held (insert (ob_EvidenceID q) (item_ids out)) u ?rows"
    proof (rule held_map)
      fix p
      assume p: "p \<in> set (ro_Rows w)" "ob_EvidenceID (if ?hit p then claim_row u ?t p else p) \<in> insert (ob_EvidenceID q) (item_ids out)"
        "ob_Status (if ?hit p then claim_row u ?t p else p) \<in> {ReportPending, ReportFailed}"
      show "\<exists>t. ob_NextAttempt (if ?hit p then claim_row u ?t p else p) = Some t \<and> u \<le> t"
      proof (cases "?hit p")
        case False
        then have "ob_EvidenceID p \<noteq> ob_EvidenceID q" using row_by_id [of "ro_Rows w" p r0] Cons.prems(2) p(1) r0 by metis
        then show ?thesis using heldD [of "item_ids out" u "ro_Rows w" p] Cons.prems(2) p False by simp
      qed (simp add: claim_row_def)
    qed
    moreover have "outbox_rows_ok ?rows" by (rule pending.claim_some) (use Cons.prems(2) in simp_all)
    moreover have "claim_rows now u qs (out @ [row_item q]) (w\<lparr>io_step := Suc (Suc (io_step w)), ro_Rows := ?rows\<rparr>) = (Inr items, w')"
      using Cons.prems(1) call True by (simp add: sql_now_def time_Now_def cong: if_cong)
    ultimately show ?thesis
      using Cons.IH [of "out @ [row_item q]" "w\<lparr>io_step := Suc (Suc (io_step w)), ro_Rows := ?rows\<rparr>"] by auto
  next
    case False
    then have "claim_rows now u qs out (w\<lparr>io_step := Suc (Suc (io_step w))\<rparr>) = (Inr items, w')"
      using Cons.prems(1) call if_not_P [OF False] by (simp add: sql_now_def time_Now_def del: bex_simps ball_simps)
    then show ?thesis using Cons.IH [of out "w\<lparr>io_step := Suc (Suc (io_step w))\<rparr>"] Cons.prems(2) by auto
  qed
qed simp

lemma ClaimRetryable_items:
  assumes "ClaimRetryable now limit u w = (Inr items, w')" and "outbox_rows_ok (ro_Rows w) \<and> held S v (ro_Rows w)"
  shows "outbox_rows_ok (ro_Rows w') \<and> held (item_ids items) u (ro_Rows w') \<and> (now < v \<longrightarrow> item_ids items \<inter> S = {})"
proof -
  obtain r1 w1 where clean: "outbox_cleanup w = (r1, w1)" by (cases "outbox_cleanup w")
  have w1: "outbox_rows_ok (ro_Rows w1) \<and> held S v (ro_Rows w1)" using claimed.cleanup_rows [OF assms(2)] clean by simp
  let ?w2 = "w1\<lparr>io_step := Suc (io_step w1)\<rparr>" and ?w3 = "w1\<lparr>io_step := Suc (Suc (io_step w1))\<rparr>"
  let ?qs = "outbox_oldest (if limit \<le> 0 then 50 else nat limit) (filter (retryable now) (ro_Rows w1))"
  have "r1 = Inr ()" using assms(1) clean by (cases r1) (simp_all add: ClaimRetryable_def Let_def)
  moreover have "io_call w1 = (Inr (), ?w2)" using assms(1) clean calculation by (cases w1 rule: io_call_cases) (simp_all add: ClaimRetryable_def Let_def)
  moreover have "io_call ?w2 = (Inr (), ?w3)" using assms(1) clean calculation by (cases ?w2 rule: io_call_cases) (simp_all add: ClaimRetryable_def Let_def)
  moreover obtain r4 w4 where loop: "claim_rows now u ?qs [] ?w3 = (r4, w4)" by (cases "claim_rows now u ?qs [] ?w3")
  ultimately have "r4 = Inr items \<and> ro_Rows w' = ro_Rows w4"
    using assms(1) clean by (cases r4; cases w4 rule: io_call_cases) (auto simp: ClaimRetryable_def Let_def)
  then have items: "held (item_ids items) u (ro_Rows w')" "item_ids items \<subseteq> ob_EvidenceID ` set ?qs"
    using claim_rows_held [of now u ?qs "[]" ?w3 items w4] loop w1 by (auto simp: held_def)
  moreover have "outbox_rows_ok (ro_Rows w')" using pending.claim_op [OF _ TrueI, of w now limit u] assms by simp
  moreover have "i \<notin> S" if i: "i \<in> item_ids items" and now: "now < v" for i
  proof
    assume "i \<in> S"
    have "i \<in> ob_EvidenceID ` set ?qs" using i items(2) by (rule rev_subsetD)
    then obtain q where q: "q \<in> set ?qs" "ob_EvidenceID q = i" by (elim imageE) simp
    from q(1) have "q \<in> set (filter (retryable now) (ro_Rows w1))" unfolding outbox_oldest_def by (metis in_set_takeD set_sort)
    then have "q \<in> set (ro_Rows w1)" "retryable now q" by simp_all
    moreover from this(2) have "ob_Status q \<in> {ReportPending, ReportFailed}" by (simp add: retryable_def)
    ultimately obtain t where "ob_NextAttempt q = Some t" "v \<le> t" using heldD [of S v "ro_Rows w1" q] w1 \<open>i \<in> S\<close> q(2) by blast
    then show False using \<open>retryable now q\<close> now by (simp add: retryable_def)
  qed
  ultimately show ?thesis by blast
qed


definition reserved_outbox :: report_env where
  "reserved_outbox = busy_outbox\<lparr>io_clock := (\<lambda>_. 200 * Second), ro_Rows := [reservation_row sample_reservation (100 * Second)]\<rparr>"

lemma claim_eval:
  assumes "ro_Rows w = [q]" and "no_faults w" and "\<And>n. io_clock w n = c" and "\<not> cleanup_due (ro_WriteCount w) (ro_LastCleanup w) c" and "retryable now q"
  shows "\<exists>n. ClaimRetryable now 0 u w = (Inr [row_item q], w\<lparr>ro_Rows := [claim_row u (c - c mod Second) q], io_step := n\<rparr>)"
  using assms by (auto simp: ClaimRetryable_def outbox_cleanup_def outbox_oldest_def no_faults_def io_call_def sql_now_def time_Now_def Let_def retryable_def)

lemma claim_none_eval:
  assumes "ro_Rows w = [q]" and "no_faults w" and "\<And>n. io_clock w n = c" and "\<not> cleanup_due (ro_WriteCount w) (ro_LastCleanup w) c"
  shows "\<exists>items w'. ClaimRetryable now 0 u w = (Inr items, w')"
  using assms by (cases "retryable now q") (auto simp: ClaimRetryable_def outbox_cleanup_def outbox_oldest_def no_faults_def io_call_def sql_now_def time_Now_def Let_def retryable_def)


end
