(* ===== verification/Outbox_Delivery.thy ===== *)
theory Outbox_Delivery
  imports Outbox_Proofs
begin

text \<open>
  What a pass of the outbox worker delivers while the database and the reporter work, and two situations in which
  the same address is reported more often than the reporting window allows.
\<close>

section \<open>Working stores\<close>

definition core :: "'z report_env_scheme \<Rightarrow> (nat \<Rightarrow> go_time) \<times> (nat \<Rightarrow> error option) \<times> bool \<times> outbox_row list \<times> dedup_row list \<times> executable_report list" where
  "core w = (io_clock w, io_fault w, db_ReadOnly w, ro_Rows w, rd_Rows w, rp_Sent w)"

lemma core_eq_iff:
  "core v = core w \<longleftrightarrow> io_clock v = io_clock w \<and> io_fault v = io_fault w \<and> db_ReadOnly v = db_ReadOnly w \<and> ro_Rows v = ro_Rows w \<and>
     rd_Rows v = rd_Rows w \<and> rp_Sent v = rp_Sent w"
  by (auto simp: core_def)

lemma core_fields [simp]:
  "core (w\<lparr>io_step := n\<rparr>) = core w" "core (w\<lparr>ro_WriteCount := c\<rparr>) = core w" "core (w\<lparr>ro_LastCleanup := t\<rparr>) = core w"
  "core (w\<lparr>ve_Rows := vs\<rparr>) = core w" "core (w\<lparr>ve_WriteCount := c\<rparr>) = core w" "core (w\<lparr>ve_LastCleanup := t\<rparr>) = core w"
  by (simp_all add: core_def)

lemma evidence_Append_core: "core (snd (evidence_Append e w)) = core w"
proof -
  have trim: "core (snd (evidence_trimToMaxEntries n v)) = core v" for n and v :: "'a report_env_scheme"
    by (cases v rule: io_call_cases; cases "v\<lparr>io_step := Suc (io_step v)\<rparr>" rule: io_call_cases) (simp_all add: evidence_trimToMaxEntries_def Let_def)
  have "core (snd (evidence_purgeBefore c v)) = core v" for c and v :: "'a report_env_scheme"
    by (cases v rule: io_call_cases) (simp_all add: evidence_purgeBefore_def)
  then have "core (snd (and_try (evidence_purgeBefore c v) (\<lambda>_ w2. evidence_trimToMaxEntries n w2))) = core v" for c n and v :: "'a report_env_scheme"
    by (rule and_try_frame) (rule trim)
  then have "core (snd (evidence_cleanup v)) = core v" for v :: "'a report_env_scheme" by (simp add: evidence_cleanup_def time_Now_def Let_def)
  then show ?thesis
    by (cases "db_ReadOnly w"; cases "time_is_zero (vr_Timestamp e)"; cases w rule: io_call_cases; cases "w\<lparr>io_step := Suc (io_step w)\<rparr>" rule: io_call_cases)
      (simp_all add: evidence_Append_def writable_simps time_Now_def Let_def)
qed

lemma recordOutboxEvidence_core: "core (recordOutboxEvidence ow item a b reason w) = core w"
  by (simp add: recordOutboxEvidence_def time_Now_def Let_def evidence_Append_core)

text \<open>A database that works, and a table that nothing is purged from or trimmed: every reading of the clock is less than the
  retention time after \<open>t0\<close>, and every row is younger than that.\<close>

definition steady :: "go_time \<Rightarrow> 'z report_env_scheme \<Rightarrow> bool" where
  "steady t0 w \<longleftrightarrow> no_faults w \<and> \<not> db_ReadOnly w \<and> (\<forall>n. io_clock w n - retention \<le> t0 \<and> t0 \<le> io_clock w n - io_clock w n mod Second) \<and>
     length (ro_Rows w) \<le> outbox_maxEntries \<and> (\<forall>q \<in> set (ro_Rows w). t0 \<le> ob_UpdatedAt q \<and> t0 \<le> ob_ExpiresAt q)"

lemma steady_core: "core v = core w \<Longrightarrow> steady t0 v = steady t0 w"
  by (simp add: core_eq_iff steady_def no_faults_def)

lemma cleanup_steady:
  assumes "steady t0 w"
  shows "\<exists>v. outbox_cleanup w = (Inr (), v) \<and> core v = core w"
proof -
  let ?c = "io_clock w (io_step w)"
  have keep: "filter (\<lambda>r. \<not> (ob_Status r \<in> {ReportReported, ReportFailed, ReportReportedDedupFailed} \<and> ob_UpdatedAt r < ?c - retention \<or>
      ob_Status r = ReportPending \<and> ob_ExpiresAt r < ?c - retention)) (ro_Rows w) = ro_Rows w"
  proof (rule filter_True, rule ballI)
    fix r
    assume "r \<in> set (ro_Rows w)"
    then have "t0 \<le> ob_UpdatedAt r \<and> t0 \<le> ob_ExpiresAt r" using assms unfolding steady_def by blast
    moreover have "?c - retention \<le> t0" using assms unfolding steady_def by blast
    ultimately show "\<not> (ob_Status r \<in> {ReportReported, ReportFailed, ReportReportedDedupFailed} \<and> ob_UpdatedAt r < ?c - retention \<or>
      ob_Status r = ReportPending \<and> ob_ExpiresAt r < ?c - retention)" by simp
  qed
  have nf: "no_faults (w\<lparr>io_step := n, ro_LastCleanup := t\<rparr>)" for n t using assms by (simp add: steady_def no_faults_def)
  have size: "length (ro_Rows w) \<le> outbox_maxEntries" "outbox_maxEntries \<noteq> 0" using assms by (simp_all add: steady_def outbox_maxEntries_def)
  have purge: "outbox_purgeExpired (?c - retention) (w\<lparr>io_step := n, ro_LastCleanup := t\<rparr>) =
      (Inr (), w\<lparr>io_step := (if ?c - retention = 0 then n else Suc n), ro_LastCleanup := t\<rparr>)" for n t
    using keep by (simp add: outbox_purgeExpired_def go_time io_call_ok [OF nf])
  have trim: "outbox_trimToMaxEntries outbox_maxEntries (w\<lparr>io_step := n, ro_LastCleanup := t\<rparr>) = (Inr (), w\<lparr>io_step := Suc n, ro_LastCleanup := t\<rparr>)" for n t
    using size by (simp add: outbox_trimToMaxEntries_def io_call_ok [OF nf] Let_def)
  show ?thesis using assms purge trim
    by (auto simp: outbox_cleanup_def steady_def time_Now_def Let_def time_add_def core_def)
qed

section \<open>One item\<close>

lemma MarkStatus_steady:
  assumes "steady t0 w" and "outbox_ok w" and "\<exists>q \<in> set (ro_Rows w). ob_EvidenceID q = i"
  shows "\<exists>v t. outbox_MarkStatus i ReportReported w = (Inr (), v) \<and> t0 \<le> t \<and>
    core v = core (w\<lparr>ro_Rows := update_outbox i (\<lambda>q. q\<lparr>ob_Status := ReportReported, ob_UpdatedAt := t\<rparr>) (ro_Rows w)\<rparr>)"
proof -
  let ?t = "io_clock w (Suc (io_step w)) - io_clock w (Suc (io_step w)) mod Second"
  let ?rows = "update_outbox i (\<lambda>q. q\<lparr>ob_Status := ReportReported, ob_UpdatedAt := ?t\<rparr>) (ro_Rows w)"
  let ?v = "w\<lparr>io_step := Suc (Suc (io_step w)), ro_Rows := ?rows, ro_WriteCount := ro_WriteCount w + 1\<rparr>"
  have t: "t0 \<le> ?t" using assms(1) unfolding steady_def by blast
  have "\<forall>q \<in> set ?rows. t0 \<le> ob_UpdatedAt q \<and> t0 \<le> ob_ExpiresAt q" using assms(1) t unfolding steady_def update_outbox_def by auto
  moreover have "length ?rows = length (ro_Rows w)" by (simp add: update_outbox_def)
  ultimately have "steady t0 ?v" using assms(1) by (simp add: steady_def no_faults_def)
  then obtain v where v: "outbox_cleanup ?v = (Inr (), v)" "core v = core ?v" using cleanup_steady by blast
  have np: "\<not> is_pending (q\<lparr>ob_Status := ReportReported, ob_UpdatedAt := u\<rparr>)" for q u by (simp add: is_pending_def report_status_defs)
  have found: "(\<forall>q \<in> set (ro_Rows w). ob_EvidenceID q \<noteq> i) \<longleftrightarrow> False" using assms(3) by blast
  have "outbox_MarkStatus i ReportReported w = outbox_cleanup ?v"
    using assms(1) by (simp add: np found outbox_MarkStatus_def outbox_update_def writable_simps steady_def io_call_ok sql_now_def time_Now_def outbox_noteWrite_def Let_def)
  then show ?thesis using v t by (intro exI [of _ v] exI [of _ ?t]) (simp add: core_def)
qed

lemma worker_markDedup_ok:
  assumes "no_faults w" and "\<not> db_ReadOnly w" and "ow_dedup ow" and "ParseAddr (rv_IP (oi_Reservation item)) = Some a"
  shows "\<exists>v t i. worker_markDedup ow item w = (Inr (), v) \<and> core v = core (w\<lparr>rd_Rows := mark_dedup_row (Addr_String (Some a)) t i (rd_Rows w)\<rparr>)"
  using assms
  by (cases "io_clock w (io_step w) = 0") (auto simp: worker_markDedup_def MarkReported_def writable_simps time_Now_def go_time io_call_ok core_def Let_def)

lemma processItem_delivers:
  fixes w :: "'z report_env_scheme"
  assumes "steady t0 w" and "outbox_ok w" and "ow_dedup ow" and "\<And>n r. ow_reporter ow n r = Inr ()"
    and "ParseAddr (rv_IP (oi_Reservation item)) = Some a" and "\<exists>q \<in> set (ro_Rows w). ob_EvidenceID q = rv_EvidenceID (oi_Reservation item)"
  shows "\<exists>v t s i. processItem ow item w = (Inr (), v) \<and> t0 \<le> t \<and>
    core v = core (w\<lparr>ro_Rows := update_outbox (rv_EvidenceID (oi_Reservation item)) (\<lambda>q. q\<lparr>ob_Status := ReportReported, ob_UpdatedAt := t\<rparr>) (ro_Rows w),
      rd_Rows := mark_dedup_row (Addr_String (Some a)) s i (rd_Rows w), rp_Sent := rp_Sent w @ [item_report item]\<rparr>)"
proof -
  let ?w1 = "w\<lparr>io_step := Suc (io_step w), rp_Sent := rp_Sent w @ [item_report item]\<rparr>" and ?id = "rv_EvidenceID (oi_Reservation item)"
  have "no_faults ?w1" "\<not> db_ReadOnly ?w1" using assms(1) by (simp_all add: steady_def no_faults_def)
  then obtain w2 s i where w2: "worker_markDedup ow item ?w1 = (Inr (), w2)" "core w2 = core (?w1\<lparr>rd_Rows := mark_dedup_row (Addr_String (Some a)) s i (rd_Rows ?w1)\<rparr>)"
    using worker_markDedup_ok [of ?w1 ow item a] assms(3,5) by blast
  have "steady t0 w2" using assms(1) w2(2) by (simp add: core_eq_iff steady_def no_faults_def)
  moreover have "outbox_ok w2" "\<exists>q \<in> set (ro_Rows w2). ob_EvidenceID q = ?id" using assms(2,6) w2(2) by (simp_all add: core_eq_iff outbox_ok_def)
  ultimately obtain w3 t where w3: "outbox_MarkStatus ?id ReportReported w2 = (Inr (), w3)" "t0 \<le> t"
      "core w3 = core (w2\<lparr>ro_Rows := update_outbox ?id (\<lambda>q. q\<lparr>ob_Status := ReportReported, ob_UpdatedAt := t\<rparr>) (ro_Rows w2)\<rparr>)"
    using MarkStatus_steady by blast
  have "processItem ow item w = (Inr (), recordOutboxEvidence ow item True False [] w3)"
    using w2(1) w3(1) assms(4) by (simp add: processItem_def send_report_def)
  moreover have "core (recordOutboxEvidence ow item True False [] w3) = core (w\<lparr>ro_Rows := update_outbox ?id (\<lambda>q. q\<lparr>ob_Status := ReportReported, ob_UpdatedAt := t\<rparr>) (ro_Rows w),
      rd_Rows := mark_dedup_row (Addr_String (Some a)) s i (rd_Rows w), rp_Sent := rp_Sent w @ [item_report item]\<rparr>)"
    using w2(2) w3(3) by (simp add: recordOutboxEvidence_core) (simp add: core_def)
  ultimately show ?thesis using w3(2) by blast
qed

section \<open>A whole pass\<close>

text \<open>The rows named by a set of identifiers were changed by \<open>f\<close>, with some time of the change, and no others.\<close>

definition changed :: "(go_time \<Rightarrow> outbox_row \<Rightarrow> outbox_row) \<Rightarrow> string set \<Rightarrow> outbox_row list \<Rightarrow> outbox_row list \<Rightarrow> bool" where
  "changed f S rows rows' \<longleftrightarrow> list_all2 (\<lambda>a b. if ob_EvidenceID a \<in> S then b = f (ob_UpdatedAt b) a else b = a) rows rows'"

definition reported_row :: "go_time \<Rightarrow> outbox_row \<Rightarrow> outbox_row" where
  "reported_row t q = q\<lparr>ob_Status := ReportReported, ob_UpdatedAt := t\<rparr>"

lemma changed_refl [simp]: "changed f {} rows rows"
  by (simp add: changed_def list_all2_same)

lemma changed_insert:
  assumes keep: "\<And>t q. ob_EvidenceID (f t q) = ob_EvidenceID q" and again: "\<And>t u q. f t (f u q) = f t q"
    and one: "changed f {i} rows rows1" and rest: "changed f S rows1 rows2"
  shows "changed f (insert i S) rows rows2"
proof -
  let ?P = "\<lambda>S a b. if ob_EvidenceID a \<in> S then b = f (ob_UpdatedAt b) a else b = a"
  have step: "?P (insert i S) a c" if ab: "?P {i} a b" and bc: "?P S b c" for a b c
  proof (cases "ob_EvidenceID a = i")
    case True
    then have b: "b = f (ob_UpdatedAt b) a" using ab by simp
    then have "ob_EvidenceID b = ob_EvidenceID a" by (metis keep)
    show ?thesis
    proof (cases "ob_EvidenceID b \<in> S")
      case inS: True
      then have "c = f (ob_UpdatedAt c) (f (ob_UpdatedAt b) a)" using bc b by simp
      then have "c = f (ob_UpdatedAt c) a" by (simp only: again)
      then show ?thesis using True by simp
    next
      case False
      then have "c = b" using bc by simp
      then show ?thesis using True b by simp
    qed
  next
    case False
    then have "b = a" using ab by simp
    then show ?thesis using bc False by (cases "ob_EvidenceID a \<in> S") simp_all
  qed
  show ?thesis using one rest unfolding changed_def by (rule list_all2_trans [rotated]) (use step in blast)
qed

lemma changed_map:
  assumes "\<And>q. q \<in> set rows \<Longrightarrow> g q = (if ob_EvidenceID q \<in> S then f t q else q)" and "\<And>q. ob_UpdatedAt (f t q) = t"
  shows "changed f S rows (map g rows)"
  unfolding changed_def list_all2_map2 by (rule list.rel_refl_strong) (simp add: assms)

lemma changed_ids:
  assumes "changed f S rows rows'" and "\<And>t q. ob_EvidenceID (f t q) = ob_EvidenceID q"
  shows "map ob_EvidenceID rows' = map ob_EvidenceID rows"
  using assms(1) unfolding changed_def by (induction rule: list_all2_induct) (auto, metis assms(2))

lemma changed_update:
  assumes "\<And>t q. ob_UpdatedAt (f t q) = t"
  shows "changed f {i} rows (update_outbox i (f t) rows)"
  unfolding update_outbox_def by (rule changed_map [where t = t]) (simp_all add: assms)

lemma mark_dedup_ips: "dr_IP ` set (mark_dedup_row ip t i rows) = insert ip (dr_IP ` set rows)"
proof (cases "\<exists>r \<in> set rows. dr_IP r = ip")
  case True
  then have "map dr_IP (mark_dedup_row ip t i rows) = map dr_IP rows" by (simp add: mark_dedup_row_def)
  then have "dr_IP ` set (mark_dedup_row ip t i rows) = dr_IP ` set rows" by (metis set_map)
  then show ?thesis using True by blast
next
  case False
  then have "map dr_IP (mark_dedup_row ip t i rows) = map dr_IP rows @ [ip]" unfolding mark_dedup_row_def by (subst if_not_P) simp_all
  then show ?thesis by (metis Un_commute insert_is_Un list.simps(15) set_append set_map empty_set)
qed

definition item_ip :: "outbox_item \<Rightarrow> string" where
  "item_ip item = Addr_String (ParseAddr (rv_IP (oi_Reservation item)))"

lemma process_items_deliver:
  fixes w :: "'z report_env_scheme"
  assumes "ow_dedup ow" and "\<And>n r. ow_reporter ow n r = Inr ()" and "ow_leaseGuard ow = None"
    and "\<And>item. item \<in> set items \<Longrightarrow> ParseAddr (rv_IP (oi_Reservation item)) \<noteq> None"
    and "item_ids items \<subseteq> ob_EvidenceID ` set (ro_Rows w)" and "steady t0 w" and "outbox_ok w"
  shows "\<exists>v. process_items ow items n err w = ((n + length items, err), v) \<and> rp_Sent v = rp_Sent w @ map item_report items \<and>
    changed reported_row (item_ids items) (ro_Rows w) (ro_Rows v) \<and> dr_IP ` set (rd_Rows v) = dr_IP ` set (rd_Rows w) \<union> item_ip ` set items"
  using assms(4-7)
proof (induction items arbitrary: n w)
  case (Cons item items)
  let ?id = "rv_EvidenceID (oi_Reservation item)" and ?w1 = "w\<lparr>io_step := Suc (io_step w)\<rparr>"
  obtain a where a: "ParseAddr (rv_IP (oi_Reservation item)) = Some a" using Cons.prems(1) by fastforce
  have call: "io_call w = (Inr (), ?w1)" using Cons.prems(3) by (simp add: steady_def io_call_ok)
  have st: "steady t0 ?w1" "outbox_ok ?w1" using Cons.prems(3,4) steady_core [of ?w1 w t0] by simp_all
  have mem: "\<exists>q \<in> set (ro_Rows ?w1). ob_EvidenceID q = ?id" using Cons.prems(2) by (auto simp: item_ids_def)
  from processItem_delivers [OF st assms(1,2) a mem] obtain v t s i where v: "processItem ow item ?w1 = (Inr (), v)" "t0 \<le> t"
    "core v = core (?w1\<lparr>ro_Rows := update_outbox ?id (reported_row t) (ro_Rows w),
      rd_Rows := mark_dedup_row (Addr_String (Some a)) s i (rd_Rows w), rp_Sent := rp_Sent w @ [item_report item]\<rparr>)"
    unfolding reported_row_def by auto
  let ?rows = "update_outbox ?id (reported_row t) (ro_Rows w)"
  have ch: "changed reported_row {?id} (ro_Rows w) ?rows" by (rule changed_update) (simp add: reported_row_def)
  have ids: "map ob_EvidenceID ?rows = map ob_EvidenceID (ro_Rows w)" by (rule changed_ids [OF ch]) (simp add: reported_row_def)
  have "\<forall>q \<in> set ?rows. t0 \<le> ob_UpdatedAt q \<and> t0 \<le> ob_ExpiresAt q"
    using Cons.prems(3) v(2) unfolding steady_def update_outbox_def by (auto simp: reported_row_def)
  then have "steady t0 v" using v(3) Cons.prems(3) by (simp add: core_eq_iff steady_def no_faults_def update_outbox_def)
  moreover have "outbox_ok v" using processItem_pending [OF st(2), of ow item] v(1) by simp
  moreover have "item_ids items \<subseteq> ob_EvidenceID ` set (ro_Rows v)"
  proof -
    have "ro_Rows v = ?rows" using v(3) by (simp add: core_eq_iff)
    then have "ob_EvidenceID ` set (ro_Rows v) = ob_EvidenceID ` set (ro_Rows w)" using ids by (metis set_map)
    then show ?thesis using Cons.prems(2) by (auto simp: item_ids_def)
  qed
  ultimately obtain u where u: "process_items ow items (n + 1) err v = ((n + 1 + length items, err), u)" "rp_Sent u = rp_Sent v @ map item_report items"
    "changed reported_row (item_ids items) (ro_Rows v) (ro_Rows u)" "dr_IP ` set (rd_Rows u) = dr_IP ` set (rd_Rows v) \<union> item_ip ` set items"
    using Cons.IH [of v "n + 1"] Cons.prems(1) by auto
  have "process_items ow (item # items) n err w = process_items ow items (n + 1) err v"
    using call v(1) assms(3) by (simp add: first_error_def split: option.split)
  moreover have "changed reported_row (item_ids (item # items)) (ro_Rows w) (ro_Rows u)"
    using changed_insert [of reported_row ?id "ro_Rows w" ?rows "item_ids items" "ro_Rows u"] ch u(3) v(3)
    by (simp add: core_eq_iff reported_row_def item_ids_def)
  moreover have "item_ip item = Addr_String (Some a)" by (simp add: item_ip_def a)
  ultimately show ?case using u v(3) by (intro exI [of _ u]) (simp add: core_eq_iff mark_dedup_ips)
qed simp

section \<open>Claiming and delivering\<close>

lemma steady_rows:
  assumes "steady t0 w" and "core v = core (w\<lparr>ro_Rows := rows\<rparr>)" and "length rows = length (ro_Rows w)"
    and "\<And>q. q \<in> set rows \<Longrightarrow> t0 \<le> ob_UpdatedAt q \<and> t0 \<le> ob_ExpiresAt q"
  shows "steady t0 v"
  using assms by (simp add: core_eq_iff steady_def no_faults_def)

lemma claim_rows_steady:
  fixes w :: "'z report_env_scheme"
  assumes "steady t0 w" and "outbox_ok w" and "set qs \<subseteq> set (ro_Rows w)" and "distinct (map ob_EvidenceID qs)" and "\<And>q. q \<in> set qs \<Longrightarrow> retryable now q"
  shows "\<exists>v rows. claim_rows now u qs out w = (Inr (out @ map row_item qs), v) \<and> core v = core (w\<lparr>ro_Rows := rows\<rparr>) \<and>
    changed (claim_row u) (ob_EvidenceID ` set qs) (ro_Rows w) rows \<and> steady t0 v \<and> outbox_ok v"
  using assms
proof (induction qs arbitrary: out w)
  case Nil
  then show ?case by (intro exI [of _ w] exI [of _ "ro_Rows w"]) simp
next
  case (Cons q qs)
  let ?t = "io_clock w (Suc (io_step w)) - io_clock w (Suc (io_step w)) mod Second"
  let ?hit = "\<lambda>r. ob_EvidenceID r = ob_EvidenceID q \<and> ob_Status r = ob_Status q \<and> (case ob_NextAttempt r of None \<Rightarrow> True | Some n \<Rightarrow> n \<le> now)"
  let ?rows = "map (\<lambda>r. if ?hit r then claim_row u ?t r else r) (ro_Rows w)"
  let ?v = "w\<lparr>io_step := Suc (Suc (io_step w)), ro_Rows := ?rows\<rparr>"
  have q: "q \<in> set (ro_Rows w)" "?hit q" using Cons.prems(3) Cons.prems(5) [of q] by (simp_all add: retryable_def)
  then have some: "\<exists>r \<in> set (ro_Rows w). ?hit r" by blast
  have own: "?hit p \<longleftrightarrow> ob_EvidenceID p \<in> {ob_EvidenceID q}" if p: "p \<in> set (ro_Rows w)" for p
  proof
    assume "ob_EvidenceID p \<in> {ob_EvidenceID q}"
    then have "p = q" using row_by_id [of "ro_Rows w" p q] Cons.prems(2) p q(1) by (simp add: outbox_ok_def)
    then show "?hit p" using q(2) by simp
  qed simp
  have ch: "changed (claim_row u) {ob_EvidenceID q} (ro_Rows w) ?rows"
    by (rule changed_map [where t = ?t]) (simp_all only: own claim_row_def, simp_all)
  have call: "io_call w = (Inr (), w\<lparr>io_step := Suc (io_step w)\<rparr>)" using Cons.prems(1) by (simp add: steady_def io_call_ok)
  have t: "t0 \<le> ?t" using Cons.prems(1) unfolding steady_def by blast
  have st: "steady t0 ?v"
  proof (rule steady_rows [OF Cons.prems(1)])
    fix r
    assume "r \<in> set ?rows"
    then obtain p where p: "p \<in> set (ro_Rows w)" "r = (if ?hit p then claim_row u ?t p else p)" by auto
    have "t0 \<le> ob_UpdatedAt p \<and> t0 \<le> ob_ExpiresAt p" using Cons.prems(1) p(1) unfolding steady_def by blast
    then show "t0 \<le> ob_UpdatedAt r \<and> t0 \<le> ob_ExpiresAt r" using t p(2) by (cases "?hit p") (simp_all add: claim_row_def)
  qed (simp_all add: core_def)
  have ok: "outbox_ok ?v" using pending.claim_some [of "ro_Rows w" ?hit u ?t] Cons.prems(2) by (simp add: outbox_ok_def)
  have "set qs \<subseteq> set ?rows"
  proof
    fix p
    assume p: "p \<in> set qs"
    then have "p \<in> set (ro_Rows w)" "\<not> ?hit p" using Cons.prems(3,4) by (auto simp: image_iff)
    then have "p = (if ?hit p then claim_row u ?t p else p)" by (subst if_not_P) simp_all
    then show "p \<in> set ?rows" using \<open>p \<in> set (ro_Rows w)\<close> unfolding set_map by (rule image_eqI)
  qed
  with Cons.IH [of ?v "out @ [row_item q]"] st ok Cons.prems(4,5) obtain v rows where
    v: "claim_rows now u qs (out @ [row_item q]) ?v = (Inr ((out @ [row_item q]) @ map row_item qs), v)" "core v = core (?v\<lparr>ro_Rows := rows\<rparr>)"
      "changed (claim_row u) (ob_EvidenceID ` set qs) ?rows rows" "steady t0 v" "outbox_ok v" by auto
  have "claim_rows now u (q # qs) out w = (Inr (out @ map row_item (q # qs)), v)"
    using call some v(1) by (simp add: sql_now_def time_Now_def cong: if_cong)
  moreover have "changed (claim_row u) (ob_EvidenceID ` set (q # qs)) (ro_Rows w) rows"
    using changed_insert [of "claim_row u" "ob_EvidenceID q" "ro_Rows w" ?rows "ob_EvidenceID ` set qs" rows] ch v(3) by (simp add: claim_row_def)
  moreover have "core v = core (w\<lparr>ro_Rows := rows\<rparr>)" using v(2) by (simp add: core_def)
  ultimately show ?case using v(4,5) by blast
qed

lemma oldest_subset: "set (outbox_oldest n rows) \<subseteq> set rows"
  unfolding outbox_oldest_def by (metis set_sort set_take_subset)

lemma oldest_distinct:
  assumes "distinct (map ob_EvidenceID rows)"
  shows "distinct (map ob_EvidenceID (outbox_oldest n rows))"
proof -
  have "mset (map ob_EvidenceID (sort_key k rows)) = mset (map ob_EvidenceID rows)" for k :: "outbox_row \<Rightarrow> go_time \<times> string" by simp
  then have "distinct (map ob_EvidenceID (sort_key k rows))" for k :: "outbox_row \<Rightarrow> go_time \<times> string" using assms by (metis mset_eq_imp_distinct_iff)
  then show ?thesis unfolding outbox_oldest_def by (metis distinct_take take_map)
qed

text \<open>The rows that are due, the oldest first, as many as a pass takes.\<close>

definition due_rows :: "go_time \<Rightarrow> int \<Rightarrow> outbox_row list \<Rightarrow> outbox_row list" where
  "due_rows now limit rows = outbox_oldest (if limit \<le> 0 then 50 else nat limit) (filter (retryable now) rows)"

lemma ClaimRetryable_steady:
  fixes w :: "'z report_env_scheme"
  assumes "steady t0 w" and "outbox_ok w" and qs_def: "qs = due_rows now limit (ro_Rows w)"
  shows "\<exists>v rows. ClaimRetryable now limit u w = (Inr (map row_item qs), v) \<and> core v = core (w\<lparr>ro_Rows := rows\<rparr>) \<and>
    changed (claim_row u) (ob_EvidenceID ` set qs) (ro_Rows w) rows \<and> steady t0 v \<and> outbox_ok v"
proof -
  obtain w1 where w1: "outbox_cleanup w = (Inr (), w1)" "core w1 = core w" using cleanup_steady [OF assms(1)] by blast
  let ?w3 = "w1\<lparr>io_step := Suc (Suc (io_step w1))\<rparr>"
  have nf: "no_faults (w1\<lparr>io_step := n\<rparr>)" for n using assms(1) w1(2) by (simp add: core_eq_iff steady_def no_faults_def)
  have calls: "io_call w1 = (Inr (), w1\<lparr>io_step := Suc (io_step w1)\<rparr>)" "io_call (w1\<lparr>io_step := Suc (io_step w1)\<rparr>) = (Inr (), ?w3)"
    using nf [of "io_step w1"] nf [of "Suc (io_step w1)"] by (simp_all add: io_call_ok)
  have rows: "ro_Rows w1 = ro_Rows w" using w1(2) by (simp add: core_eq_iff)
  have "steady t0 ?w3" "outbox_ok ?w3" using assms(1,2) w1(2) steady_core [of ?w3 w t0] rows by (simp_all add: outbox_ok_def)
  moreover have sub: "set qs \<subseteq> set (filter (retryable now) (ro_Rows ?w3))" unfolding qs_def due_rows_def using oldest_subset rows by fastforce
  moreover have "distinct (map ob_EvidenceID qs)" unfolding qs_def due_rows_def
    by (rule oldest_distinct) (use assms(2) in \<open>simp add: outbox_ok_def outbox_rows_ok_def distinct_map_filter\<close>)
  ultimately obtain v rows where v: "claim_rows now u qs [] ?w3 = (Inr (map row_item qs), v)" "core v = core (?w3\<lparr>ro_Rows := rows\<rparr>)"
      "changed (claim_row u) (ob_EvidenceID ` set qs) (ro_Rows ?w3) rows" "steady t0 v" "outbox_ok v"
    using claim_rows_steady [of t0 ?w3 qs now u "[]"] by fastforce
  have commit: "io_call v = (Inr (), v\<lparr>io_step := Suc (io_step v)\<rparr>)" using v(4) by (simp add: steady_def io_call_ok)
  have "ClaimRetryable now limit u w = (Inr (map row_item qs), v\<lparr>io_step := Suc (io_step v)\<rparr>)"
    using w1(1) calls v(1) commit rows by (simp add: ClaimRetryable_def Let_def qs_def due_rows_def)
  moreover have "core v = core (w\<lparr>ro_Rows := rows\<rparr>)" using v(2) w1(2) by (simp add: core_eq_iff)
  moreover have "steady t0 (v\<lparr>io_step := Suc (io_step v)\<rparr>)" using v(4) by (simp add: steady_def no_faults_def)
  ultimately show ?thesis using v(3,5) rows by (intro exI [of _ "v\<lparr>io_step := Suc (io_step v)\<rparr>"] exI [of _ rows]) simp
qed

definition delivered_row :: "go_time \<Rightarrow> go_time \<Rightarrow> outbox_row \<Rightarrow> outbox_row" where
  "delivered_row u t q = q\<lparr>ob_Status := ReportReported, ob_NextAttempt := Some u, ob_UpdatedAt := t\<rparr>"

lemma changed_delivered:
  assumes "changed (claim_row u) S rows rows1" and "changed reported_row S rows1 rows2"
  shows "changed (delivered_row u) S rows rows2"
proof -
  let ?P = "\<lambda>f a b. if ob_EvidenceID a \<in> S then b = f (ob_UpdatedAt b) a else b = a"
  have step: "?P (delivered_row u) a c" if ab: "?P (claim_row u) a b" and bc: "?P reported_row b c" for a b c
  proof (cases "ob_EvidenceID a \<in> S")
    case True
    then have b: "b = claim_row u (ob_UpdatedAt b) a" using ab by simp
    then have "ob_EvidenceID b = ob_EvidenceID a" by (metis claim_row_def outbox_row.ext_inject outbox_row.surjective outbox_row.update_convs(7,11))
    then have "c = reported_row (ob_UpdatedAt c) (claim_row u (ob_UpdatedAt b) a)" using bc b True by simp
    moreover have "reported_row t (claim_row u s a) = delivered_row u t a" for s t by (cases a) (simp add: reported_row_def claim_row_def delivered_row_def)
    ultimately show ?thesis using True by simp
  next
    case False
    then have "b = a" using ab by simp
    then show ?thesis using bc False by simp
  qed
  show ?thesis using assms unfolding changed_def by (rule list_all2_trans [rotated]) (use step in blast)
qed

lemma pass_delivers:
  fixes w :: "'z report_env_scheme"
  assumes "steady t0 w" and "outbox_ok w" and "ow_dedup ow" and "ow_leaseGuard ow = None" and "\<forall>n r. ow_reporter ow n r = Inr ()"
    and "due = due_rows (io_clock w (io_step w)) (ow_limit ow) (ro_Rows w)" and "\<forall>q \<in> set due. ParseAddr (ob_IP q) \<noteq> None"
  shows "\<exists>v u. ProcessOnce ow w = ((length due, None), v) \<and> rp_Sent v = rp_Sent w @ map (\<lambda>q. item_report (row_item q)) due \<and>
    changed (delivered_row u) (ob_EvidenceID ` set due) (ro_Rows w) (ro_Rows v) \<and>
    dr_IP ` set (rd_Rows v) = dr_IP ` set (rd_Rows w) \<union> (\<lambda>q. Addr_String (ParseAddr (ob_IP q))) ` set due"
proof -
  let ?w2 = "w\<lparr>io_step := Suc (Suc (io_step w))\<rparr>" and ?u = "time_add (io_clock w (Suc (io_step w))) (ow_claimLease ow)"
  have st: "steady t0 ?w2" "outbox_ok ?w2" using assms(1,2) steady_core [of ?w2 w t0] by simp_all
  have due: "due = due_rows (io_clock w (io_step w)) (ow_limit ow) (ro_Rows ?w2)" using assms(6) by simp
  obtain v rows where v: "ClaimRetryable (io_clock w (io_step w)) (ow_limit ow) ?u ?w2 = (Inr (map row_item due), v)"
      "core v = core (?w2\<lparr>ro_Rows := rows\<rparr>)" "changed (claim_row ?u) (ob_EvidenceID ` set due) (ro_Rows ?w2) rows" "steady t0 v" "outbox_ok v"
    using ClaimRetryable_steady [OF st due] by blast
  have ids: "item_ids (map row_item due) = ob_EvidenceID ` set due"
    unfolding item_ids_def set_map image_image by (simp add: row_item_def row_reservation_def)
  have "map ob_EvidenceID rows = map ob_EvidenceID (ro_Rows w)" using changed_ids [OF v(3)] by (simp add: claim_row_def)
  then have "ob_EvidenceID ` set (ro_Rows v) = ob_EvidenceID ` set (ro_Rows w)" using v(2) by (simp add: core_eq_iff) (metis set_map)
  moreover have "set due \<subseteq> set (ro_Rows w)" using assms(6) oldest_subset [of _ "filter (retryable (io_clock w (io_step w))) (ro_Rows w)"]
    by (auto simp: due_rows_def)
  ultimately have sub: "item_ids (map row_item due) \<subseteq> ob_EvidenceID ` set (ro_Rows v)" using ids by (simp add: image_mono)
  have parse: "ParseAddr (rv_IP (oi_Reservation item)) \<noteq> None" if "item \<in> set (map row_item due)" for item
  proof -
    from that obtain q where "q \<in> set due" "item = row_item q" by (auto simp only: set_map image_iff)
    then show ?thesis using assms(7) by (simp add: row_item_def row_reservation_def)
  qed
  obtain z where z: "process_items ow (map row_item due) 0 None v = ((0 + length (map row_item due), None), z)"
      "rp_Sent z = rp_Sent v @ map item_report (map row_item due)" "changed reported_row (item_ids (map row_item due)) (ro_Rows v) (ro_Rows z)"
      "dr_IP ` set (rd_Rows z) = dr_IP ` set (rd_Rows v) \<union> item_ip ` set (map row_item due)"
    using process_items_deliver [of ow "map row_item due" v t0 0 None] assms(3-5) parse sub v(4,5) by blast
  have "ProcessOnce ow w = ((length due, None), z)" using v(1) z(1) by (simp add: ProcessOnce_def time_Now_def Let_def)
  moreover have "changed (delivered_row ?u) (ob_EvidenceID ` set due) (ro_Rows w) (ro_Rows z)"
    by (rule changed_delivered [of _ _ _ rows]) (use v(2,3) z(3) ids in \<open>simp_all add: core_eq_iff\<close>)
  moreover have "item_ip (row_item q) = Addr_String (ParseAddr (ob_IP q))" for q by (simp add: item_ip_def row_item_def row_reservation_def)
  ultimately show ?thesis using z(2,4) v(2) by (intro exI [of _ z] exI [of _ ?u]) (simp add: core_eq_iff image_image)
qed


definition plain_worker :: outbox_worker where
  "plain_worker = NewOutboxWorker (\<lambda>_ _. Inr ()) True True 0 0 0 None"

lemma reserved_outbox_due:
  "due_rows (io_clock reserved_outbox (io_step reserved_outbox)) (ow_limit plain_worker) (ro_Rows reserved_outbox) = [reservation_row sample_reservation (100 * Second)]"
  by (simp add: reserved_outbox_def busy_outbox_def plain_worker_def NewOutboxWorker_def due_rows_def outbox_oldest_def retryable_def reservation_row_def
      sample_reservation_def report_status_defs Second_def)

lemma reserved_outbox_steady: "steady 0 reserved_outbox" "outbox_ok reserved_outbox"
  by (simp_all add: steady_def no_faults_def reserved_outbox_def busy_outbox_def retention_def outbox_maxEntries_def outbox_ok_def outbox_rows_ok_def
      reservation_row_def sample_reservation_def Hour_def Minute_def Second_def inj_on_def)


section \<open>A reservation that expired\<close>

definition second_reservation :: reservation where
  "second_reservation = sample_reservation\<lparr>rv_IdempotencyKey := ''exec-2'', rv_EvidenceID := ''ev-2'', rv_ExpiresAt := 230 * Second,
     rv_Report := sample_report\<lparr>xr_ExecutionID := ''exec-2''\<rparr>\<rparr>"

lemma reserve_over_expired:
  "\<exists>n. outbox_Reserve second_reservation reserved_outbox = (Inr (), reserved_outbox\<lparr>ro_WriteCount := 1, ro_LastCleanup := 200 * Second,
     ro_Rows := [(reservation_row sample_reservation (200 * Second))\<lparr>ob_Status := ReportFailed\<rparr>, reservation_row second_reservation (200 * Second)], io_step := n\<rparr>)"
  by (simp add: outbox_Reserve_def writable_simps reserve_at_def reserve_over_def outbox_insert_def outbox_cleanup_def outbox_purgeExpired_def outbox_trimToMaxEntries_def
    update_outbox_def violates_outbox_def cleanup_due_def
     reserved_outbox_def busy_outbox_def second_reservation_def sample_reservation_def reservation_row_def is_pending_def io_call_def go_time time_Now_def sql_now_def Let_def report_status_defs
     outbox_noteWrite_def retention_def outbox_maxEntries_def cleanupEvery_def Hour_def Minute_def Second_def time_add_def time_sub_def)

text \<open>
  A reservation over an expired one is reported beside it. The outbox holds a reservation of an address that the worker has not
  delivered when it expires; a new report of the address is reserved. The expired row becomes failed, which the worker still takes,
  instead of being merged into the new one, and the worker consults no time of a last report: one pass sends two reports of the address.
\<close>

theorem expired_reservation_sent_twice:
  "\<exists>w v. outbox_Reserve second_reservation reserved_outbox = (Inr (), w) \<and>
    ProcessOnce plain_worker (w\<lparr>io_clock := (\<lambda>_. 300 * Second)\<rparr>) = ((2, None), v) \<and> map xr_IP (rp_Sent v) = [''198.51.100.7'', ''198.51.100.7'']"
proof -
  let ?a = "(reservation_row sample_reservation (200 * Second))\<lparr>ob_Status := ReportFailed\<rparr>" and ?b = "reservation_row second_reservation (200 * Second)"
  obtain w n where w: "outbox_Reserve second_reservation reserved_outbox = (Inr (), w)" "w = reserved_outbox\<lparr>ro_WriteCount := 1, ro_LastCleanup := 200 * Second,
      ro_Rows := [?a, ?b], io_step := n\<rparr>" using reserve_over_expired by blast
  let ?v = "w\<lparr>io_clock := (\<lambda>_. 300 * Second)\<rparr>"
  have due: "due_rows (io_clock ?v (io_step ?v)) (ow_limit plain_worker) (ro_Rows ?v) = [?a, ?b]"
    by (simp add: w(2) plain_worker_def NewOutboxWorker_def due_rows_def outbox_oldest_def retryable_def reservation_row_def
      sample_reservation_def second_reservation_def report_status_defs Second_def)
  have st: "steady 0 ?v"
    by (simp add: w(2) steady_def no_faults_def reserved_outbox_def busy_outbox_def retention_def outbox_maxEntries_def
      reservation_row_def sample_reservation_def second_reservation_def Hour_def Minute_def Second_def)
  have ok: "outbox_ok ?v" using pending.reserve_op [OF _ TrueI, of reserved_outbox second_reservation] reserved_outbox_steady(2) w(1) by (simp add: outbox_ok_def)
  have ip: "ob_IP ?a = ''198.51.100.7''" "ob_IP ?b = ''198.51.100.7''" by (simp_all add: reservation_row_def sample_reservation_def second_reservation_def)
  have sent: "xr_IP (item_report (row_item ?a)) = ''198.51.100.7''" "xr_IP (item_report (row_item ?b)) = ''198.51.100.7''"
    by (simp_all add: item_report_def row_item_def row_reservation_def reservation_row_def sample_reservation_def second_reservation_def sample_report_def)
  have "ParseAddr ''198.51.100.7'' \<noteq> None" by (simp add: parse_eval)
  moreover have "ow_dedup plain_worker" "ow_leaseGuard plain_worker = None" "\<forall>n r. ow_reporter plain_worker n r = Inr ()"
    by (simp_all add: plain_worker_def NewOutboxWorker_def)
  moreover have "rp_Sent ?v = []" by (simp add: w(2) reserved_outbox_def busy_outbox_def)
  ultimately obtain z where "ProcessOnce plain_worker ?v = ((2, None), z)" "rp_Sent z = [item_report (row_item ?a), item_report (row_item ?b)]"
    using pass_delivers [OF st ok, of plain_worker] due ip by auto
  then show ?thesis using w(1) sent by (intro exI [of _ w] exI [of _ z]) simp
qed

end
