(* ===== verification/Reporting.thy ===== *)
theory Reporting
  imports Decision_Gate Outbox_Delivery
begin

text \<open>
  The reporting service: \<open>Process\<close> of \<open>internal/services/reporting/service.go\<close> with the files it is made of,
  \<open>prepare.go\<close>, \<open>policy.go\<close>, \<open>dedup.go\<close>, \<open>report_attempt.go\<close>, \<open>evidence_recorder.go\<close> and \<open>telemetry.go\<close>. A call
  is taken as a whole; what goroutines do to each other at the gate is in \<open>Decision_Gate\<close>. The reporter and the client of
  Spamhaus are parameters, functions of the number of the call, and what they are given is recorded. The comments and the metadata of
  telemetry events other than the identifier of the evidence are left out, as are the metrics.
\<close>

section \<open>Data\<close>

record report_request =
  rq_Source :: string
  rq_Event :: waf_event
  rq_EvidenceOnly :: bool

record telemetry_event =
  te_Timestamp :: go_time
  te_Source :: string
  te_IP :: string
  te_URI :: string
  te_Hostname :: string
  te_RuleID :: string
  te_AbuseType :: string
  te_RiskScore :: int
  te_Confidence :: nat
  te_EnforcementStage :: string
  te_Severity :: string
  te_SuppressionReason :: string
  te_AbuseIPDBReported :: bool
  te_EvidenceID :: string

record report_result =
  rs_Classification :: classification
  rs_Reported :: bool
  rs_Suppressed :: bool
  rs_SuppressionReason :: string
  rs_TelemetryEvent :: telemetry_event
  rs_Report :: "executable_report option"

record reporting_service =
  sv_reporter :: "(nat \<Rightarrow> executable_report \<Rightarrow> unit result) option"
  sv_sink :: bool
  sv_trust :: "trust_registry option"
  sv_evidenceStore :: bool
  sv_reservationStore :: bool
  sv_reportWindow :: duration
  sv_lowConfidence :: nat
  sv_dedupStore :: bool
  sv_failClosedOnStore :: bool
  sv_spamhausClient :: "(nat \<Rightarrow> addr \<Rightarrow> string \<Rightarrow> unit result) option"
  sv_reputationGate :: "gate option"

record service_env = report_env +
  se_gate :: decision_gate
  se_spamhausDedup :: spamhaus_dedup
  se_Submitted :: "addr list"
  se_Published :: "telemetry_event list"

definition service_New :: "(nat \<Rightarrow> executable_report \<Rightarrow> unit result) option \<Rightarrow> bool \<Rightarrow> trust_registry option \<Rightarrow> reporting_service" where
  "service_New reporter sink registry =
     \<lparr>sv_reporter = reporter, sv_sink = sink, sv_trust = registry, sv_evidenceStore = False, sv_reservationStore = False,
      sv_reportWindow = 24 * Hour, sv_lowConfidence = 70, sv_dedupStore = False, sv_failClosedOnStore = True, sv_spamhausClient = None,
      sv_reputationGate = None\<rparr>"

definition SetReportWindow :: "duration \<Rightarrow> reporting_service \<Rightarrow> reporting_service" where
  "SetReportWindow window sv = (if 0 < window then sv\<lparr>sv_reportWindow := window\<rparr> else sv)"

section \<open>Evidence and telemetry\<close>

definition publish :: "reporting_service \<Rightarrow> telemetry_event \<Rightarrow> 'z service_env_scheme \<Rightarrow> 'z service_env_scheme" where
  "publish sv ev w =
     (if \<not> sv_sink sv then w
      else case io_call w of (Inl _, w1) \<Rightarrow> w1 | (Inr _, w1) \<Rightarrow> w1\<lparr>se_Published := se_Published w1 @ [ev]\<rparr>)"

definition recordEvidenceWithID ::
  "reporting_service \<Rightarrow> string \<Rightarrow> report_request \<Rightarrow> classification \<Rightarrow> bool \<Rightarrow> bool \<Rightarrow> string \<Rightarrow> 'z service_env_scheme \<Rightarrow> string \<times> 'z service_env_scheme" where
  "recordEvidenceWithID sv evidenceID req cls reported suppressed reason w =
     (if \<not> sv_evidenceStore sv then ([], w)
      else let decision = (if reason = ''report_pending'' then ''report_pending'' else decisionKind reported suppressed);
               (now, w1) = time_Now w
        in case evidence_Append \<lparr>vr_EvidenceID = evidenceID, vr_Timestamp = now, vr_Source = telemetrySource (rq_Source req),
               vr_IP = we_IP (rq_Event req), vr_AbuseType = cs_AbuseType cls, vr_Decision = decision,
               vr_Reported = reported, vr_Suppressed = suppressed, vr_Reason = reason\<rparr> w1 of
             (Inl _, w2) \<Rightarrow> ([], w2)
           | (Inr _, w2) \<Rightarrow> (evidenceID, w2))"

definition recordEvidence ::
  "reporting_service \<Rightarrow> report_request \<Rightarrow> classification \<Rightarrow> bool \<Rightarrow> bool \<Rightarrow> string \<Rightarrow> 'z service_env_scheme \<Rightarrow> string \<times> 'z service_env_scheme" where
  "recordEvidence sv req cls reported suppressed reason w =
     (let (now, w1) = time_Now w
      in recordEvidenceWithID sv (decisionEvidenceID (rq_Source req) (rq_Event req) cls reason now) req cls reported suppressed reason w1)"

definition baseTelemetryEvent :: "report_request \<Rightarrow> classification \<Rightarrow> telemetry_event" where
  "baseTelemetryEvent req cls =
     (let e = rq_Event req in
      \<lparr>te_Timestamp = we_Timestamp e, te_Source = telemetrySource (rq_Source req), te_IP = we_IP e, te_URI = we_URI e, te_Hostname = we_Hostname e,
       te_RuleID = we_RuleID e, te_AbuseType = cs_AbuseType cls, te_RiskScore = cs_RiskScore cls, te_Confidence = cs_Confidence cls,
       te_EnforcementStage = cs_EnforcementStage cls, te_Severity = severityFor (cs_AbuseType cls), te_SuppressionReason = [],
       te_AbuseIPDBReported = False, te_EvidenceID = []\<rparr>)"

definition with_evidence :: "string \<Rightarrow> telemetry_event \<Rightarrow> telemetry_event" where
  "with_evidence evidenceID ev = (if evidenceID = [] then ev else ev\<lparr>te_EvidenceID := evidenceID\<rparr>)"

definition suppressed_result :: "classification \<Rightarrow> string \<Rightarrow> telemetry_event \<Rightarrow> executable_report option \<Rightarrow> report_result" where
  "suppressed_result cls reason ev report =
     \<lparr>rs_Classification = cls, rs_Reported = False, rs_Suppressed = True, rs_SuppressionReason = reason, rs_TelemetryEvent = ev, rs_Report = report\<rparr>"

definition handleSuppressedDecision ::
  "reporting_service \<Rightarrow> report_request \<Rightarrow> classification \<Rightarrow> telemetry_event \<Rightarrow> string \<Rightarrow> 'z service_env_scheme \<Rightarrow> report_result \<times> 'z service_env_scheme" where
  "handleSuppressedDecision sv req cls ev reason w =
     (let ev1 = ev\<lparr>te_SuppressionReason := reason\<rparr>; (evidenceID, w1) = recordEvidence sv req cls False True reason w; ev2 = with_evidence evidenceID ev1
      in (suppressed_result cls reason ev2 None, publish sv ev2 w1))"

section \<open>Reasons not to report\<close>

definition service_isProtected :: "reporting_service \<Rightarrow> string \<Rightarrow> bool" where
  "service_isProtected sv ip = (case sv_trust sv of None \<Rightarrow> False | Some r \<Rightarrow> ParseAddr ip \<noteq> None \<and> MatchIP r ip \<noteq> [])"

text \<open>The reading of the clock for the gate comes first; only the last test asks it.\<close>

definition suppressionReason :: "reporting_service \<Rightarrow> report_request \<Rightarrow> classification \<Rightarrow> 'z service_env_scheme \<Rightarrow> string \<times> 'z service_env_scheme" where
  "suppressionReason sv req cls w =
     (if service_isProtected sv (we_IP (rq_Event req)) then (''protected_target'', w)
      else if cs_AbuseType cls = ''benign_bootstrap'' \<or> cs_AbuseType cls = ''benign_probe'' then (''benign_signal'', w)
      else if cs_Confidence cls < sv_lowConfidence sv \<or> cs_SuspectedLowConf cls then (''low_confidence'', w)
      else if cs_Categories cls = [] then (''no_abuse_categories'', w)
      else let (now, w1) = time_Now w; (dup, g) = isDuplicate (fingerprint (rq_Source req) (rq_Event req) cls) now (se_gate w1); w2 = w1\<lparr>se_gate := g\<rparr>
        in if dup then (''duplicate_report'', w2) else ([], w2))"

definition submitToSpamhaus :: "reporting_service \<Rightarrow> string \<Rightarrow> string \<Rightarrow> 'z service_env_scheme \<Rightarrow> 'z service_env_scheme" where
  "submitToSpamhaus sv rawIP reason w =
     (case sv_spamhausClient sv of
        None \<Rightarrow> w
      | Some client \<Rightarrow>
          case ParseAddr (TrimSpace rawIP) of
            None \<Rightarrow> w
          | Some ip \<Rightarrow>
              let (now, w1) = time_Now w; (seen, d) = markSeen (Addr_String (Some ip)) now (se_spamhausDedup w1); w2 = w1\<lparr>se_spamhausDedup := d\<rparr>
              in if seen then w2 else w2\<lparr>io_step := Suc (io_step w2), se_Submitted := se_Submitted w2 @ [ip]\<rparr>)"

definition enforceRecentReportWindow ::
  "reporting_service \<Rightarrow> report_request \<Rightarrow> classification \<Rightarrow> telemetry_event \<Rightarrow> 'z service_env_scheme \<Rightarrow> report_result option \<times> 'z service_env_scheme" where
  "enforceRecentReportWindow sv req cls ev w =
     (if \<not> sv_dedupStore sv then (None, w)
      else case ParseAddr (TrimSpace (we_IP (rq_Event req))) of
        None \<Rightarrow> (None, w)
      | Some ip \<Rightarrow>
          case LastReportedAt ip w of
            (Inl e, w1) \<Rightarrow>
              if sv_failClosedOnStore sv
              then let (r, w2) = handleSuppressedDecision sv req cls ev ''abuseipdb_dedup_store_error'' w1 in (Some r, w2)
              else (None, w1)
          | (Inr None, w1) \<Rightarrow> (None, w1)
          | (Inr (Some lastReportedAt), w1) \<Rightarrow>
              let (now, w2) = time_Now w1; age = max 0 (time_sub now lastReportedAt) in
              if age \<ge> sv_reportWindow sv then (None, w2)
              else let (r, w3) = handleSuppressedDecision sv req cls ev ''abuseipdb_recently_reported'' w2 in (Some r, w3))"

section \<open>Attempts\<close>

definition abuseAggregationWindow :: duration where "abuseAggregationWindow = 30 * Second"

definition buildAggregatedReport :: "report_request \<Rightarrow> classification \<Rightarrow> go_time \<Rightarrow> executable_report" where
  "buildAggregatedReport req cls now =
     (let e = rq_Event req in
      \<lparr>xr_ExecutionID = executionID (rq_Source req) e cls, xr_StableIdentityKey = fingerprint (rq_Source req) e cls, xr_IP = we_IP e,
       xr_Source = rq_Source req, xr_AbuseType = cs_AbuseType cls, xr_Categories = categoryIDs (cs_Categories cls), xr_Action = TrimSpace (we_Action e),
       xr_OriginatingOpID = we_RuleID e, xr_CreatedAt = now, xr_Hits = max 1 (we_Hits e), xr_WindowSec = 30, xr_URIs = eventURIs e,
       xr_RuleIDs = [ruleID (we_RuleID e)], xr_Sources = [telemetrySource (rq_Source req)]\<rparr>)"

record report_attempt =
  ra_report :: executable_report
  ra_pendingEvidenceID :: string

definition prepareReportAttempt :: "report_request \<Rightarrow> classification \<Rightarrow> 'z service_env_scheme \<Rightarrow> report_attempt \<times> 'z service_env_scheme" where
  "prepareReportAttempt req cls w =
     (let (t1, w1) = time_Now w; (t2, w2) = time_Now w1
      in (\<lparr>ra_report = buildAggregatedReport req cls t1,
           ra_pendingEvidenceID = decisionEvidenceID (rq_Source req) (rq_Event req) cls ''report_pending'' t2\<rparr>, w2))"

definition attempt_reservation :: "report_request \<Rightarrow> report_attempt \<Rightarrow> go_time \<Rightarrow> reservation" where
  "attempt_reservation req at now =
     \<lparr>rv_IP = we_IP (rq_Event req), rv_Source = telemetrySource (rq_Source req), rv_IdempotencyKey = xr_ExecutionID (ra_report at),
      rv_EvidenceID = ra_pendingEvidenceID at, rv_Status = ReportPending, rv_ExpiresAt = time_add now abuseAggregationWindow, rv_Report = ra_report at\<rparr>"

text \<open>What follows a reservation that was made, with the evidence of it, and the whole with a store of reservations.\<close>

definition pending_result ::
  "reporting_service \<Rightarrow> report_request \<Rightarrow> classification \<Rightarrow> telemetry_event \<Rightarrow> report_attempt \<Rightarrow> 'z service_env_scheme \<Rightarrow> report_result \<times> 'z service_env_scheme" where
  "pending_result sv req cls ev at w =
     (let (evidenceID, w1) = recordEvidenceWithID sv (ra_pendingEvidenceID at) req cls False True ''report_pending'' w; ev1 = with_evidence evidenceID ev in
      if evidenceID = [] \<and> sv_evidenceStore sv then
        let (_, w2) = outbox_MarkStatus (ra_pendingEvidenceID at) ReportFailed w1; ev2 = ev1\<lparr>te_SuppressionReason := ''abuseipdb_report_evidence_failed''\<rparr>
        in (suppressed_result cls ''abuseipdb_report_evidence_failed'' ev2 (Some (ra_report at)), publish sv ev2 w2)
      else (suppressed_result cls ''report_pending'' ev1 (Some (ra_report at)), publish sv ev1 w1))"

definition reserve_pending ::
  "reporting_service \<Rightarrow> report_request \<Rightarrow> classification \<Rightarrow> telemetry_event \<Rightarrow> report_attempt \<Rightarrow> 'z service_env_scheme \<Rightarrow> report_result \<times> 'z service_env_scheme" where
  "reserve_pending sv req cls ev at w =
     (case FindPending (we_IP (rq_Event req)) (xr_ExecutionID (ra_report at)) w of
        (Inr (Some existing), w1) \<Rightarrow>
          let ev1 = ev\<lparr>te_SuppressionReason := ''report_pending'', te_EvidenceID := rv_EvidenceID existing\<rparr>
          in (suppressed_result cls ''report_pending'' ev1 (Some (ra_report at)), publish sv ev1 w1)
      | (_, w1) \<Rightarrow>
          let (now, w2) = time_Now w1 in
          case outbox_Reserve (attempt_reservation req at now) w2 of
            (Inl e, w3) \<Rightarrow>
              let reason = ''abuseipdb_report_reservation_failed''; (evidenceID, w4) = recordEvidenceWithID sv (ra_pendingEvidenceID at) req cls False True reason w3;
                  ev1 = with_evidence evidenceID (ev\<lparr>te_SuppressionReason := reason\<rparr>)
              in (suppressed_result cls reason ev1 None, publish sv ev1 w4)
          | (Inr _, w3) \<Rightarrow> pending_result sv req cls ev at w3)"

definition reserveAndRecordPending ::
  "reporting_service \<Rightarrow> report_request \<Rightarrow> classification \<Rightarrow> telemetry_event \<Rightarrow> report_attempt \<Rightarrow> 'z service_env_scheme \<Rightarrow> report_result option \<times> 'z service_env_scheme" where
  "reserveAndRecordPending sv req cls ev at w =
     (if sv_reservationStore sv then let (r, w1) = reserve_pending sv req cls ev at w in (Some r, w1)
      else
        let (evidenceID, w1) = recordEvidenceWithID sv (ra_pendingEvidenceID at) req cls False False ''report_pending'' w in
        if evidenceID = [] \<and> sv_evidenceStore sv then
          let ev1 = ev\<lparr>te_SuppressionReason := ''abuseipdb_report_evidence_failed''\<rparr>
          in (Some (suppressed_result cls ''abuseipdb_report_evidence_failed'' ev1 None), publish sv ev1 w1)
        else (None, w1))"

definition executeUpstreamReport ::
  "reporting_service \<Rightarrow> report_request \<Rightarrow> classification \<Rightarrow> telemetry_event \<Rightarrow> report_attempt \<Rightarrow> 'z service_env_scheme \<Rightarrow> (report_result \<times> error) option \<times> 'z service_env_scheme" where
  "executeUpstreamReport sv req cls ev at w =
     (case sv_reporter sv of
        None \<Rightarrow> (None, w)
      | Some reporter \<Rightarrow>
          case send_report reporter (ra_report at) w of
            (Inr _, w1) \<Rightarrow> (None, w1)
          | (Inl e, w1) \<Rightarrow>
              let ev1 = ev\<lparr>te_SuppressionReason := ''abuseipdb_report_failed''\<rparr>;
                  w2 = (if sv_reservationStore sv
                        then let (now, v) = time_Now w1 in snd (RecordAttempt (ra_pendingEvidenceID at) ReportFailed (Error e) (time_add now (5 * Minute)) v) else w1);
                  (evidenceID, w3) = recordEvidence sv req cls False True ''abuseipdb_report_failed'' w2; ev2 = with_evidence evidenceID ev1
              in (Some (suppressed_result cls ''abuseipdb_report_failed'' ev2 (Some (ra_report at)), e), publish sv ev2 w3))"

definition service_markReported :: "reporting_service \<Rightarrow> string \<Rightarrow> string \<Rightarrow> 'z service_env_scheme \<Rightarrow> unit result \<times> 'z service_env_scheme" where
  "service_markReported sv ip evidenceID w =
     (if \<not> sv_dedupStore sv then (Inr (), w)
      else case ParseAddr (TrimSpace ip) of
        None \<Rightarrow> (Inr (), w)
      | Some a \<Rightarrow> let (now, w1) = time_Now w in MarkReported a now evidenceID w1)"

definition finalizeReportedDecision ::
  "reporting_service \<Rightarrow> report_request \<Rightarrow> classification \<Rightarrow> telemetry_event \<Rightarrow> report_attempt \<Rightarrow> 'z service_env_scheme \<Rightarrow> report_result \<times> 'z service_env_scheme" where
  "finalizeReportedDecision sv req cls ev at w =
     (let ev1 = ev\<lparr>te_AbuseIPDBReported := True\<rparr>; (recorded, w1) = recordEvidence sv req cls True False [] w;
          evidenceID = (if recorded = [] then ra_pendingEvidenceID at else recorded); ev2 = ev1\<lparr>te_EvidenceID := evidenceID\<rparr>;
          w3 = (case service_markReported sv (we_IP (rq_Event req)) evidenceID w1 of
                  (Inl e, w2) \<Rightarrow> if sv_reservationStore sv then snd (RecordAttempt (ra_pendingEvidenceID at) ReportReportedDedupFailed (Error e) 0 w2) else w2
                | (Inr _, w2) \<Rightarrow> if sv_reservationStore sv then snd (outbox_MarkStatus (ra_pendingEvidenceID at) ReportReported w2) else w2)
      in (\<lparr>rs_Classification = cls, rs_Reported = True, rs_Suppressed = False, rs_SuppressionReason = [], rs_TelemetryEvent = ev2, rs_Report = Some (ra_report at)\<rparr>,
          publish sv ev2 w3))"

section \<open>The service\<close>

text \<open>\<open>lockIP\<close> and the function it returns, of a call that finds the mutex of the lock free; with an empty address they do nothing.\<close>

definition service_lockIP :: "string \<Rightarrow> 'z service_env_scheme \<Rightarrow> nat option \<times> 'z service_env_scheme" where
  "service_lockIP ip w =
     (if ip = [] then (None, w)
      else let (now, w1) = time_Now w; (a, g) = lock_entry ip now (se_gate w1)
        in (Some a, w1\<lparr>se_gate := (case lock_acquire a g of Some g1 \<Rightarrow> g1 | None \<Rightarrow> g)\<rparr>))"

definition service_unlock :: "nat option \<Rightarrow> 'z service_env_scheme \<Rightarrow> 'z service_env_scheme" where
  "service_unlock l w =
     (case l of None \<Rightarrow> w | Some a \<Rightarrow> let (now, w1) = time_Now w in w1\<lparr>se_gate := unlock_settle a now (unlock_mutex a (se_gate w1))\<rparr>)"

text \<open>The part of \<open>Process\<close> under the lock of the address.\<close>

definition process_locked ::
  "reporting_service \<Rightarrow> report_request \<Rightarrow> classification \<Rightarrow> telemetry_event \<Rightarrow> 'z service_env_scheme \<Rightarrow> (report_result \<times> error option) \<times> 'z service_env_scheme" where
  "process_locked sv req cls ev w =
     (case enforceRecentReportWindow sv req cls ev w of
        (Some r, w1) \<Rightarrow> ((r, None), w1)
      | (None, w1) \<Rightarrow>
          let (at, w2) = prepareReportAttempt req cls w1 in
          case reserveAndRecordPending sv req cls ev at w2 of
            (Some r, w3) \<Rightarrow> ((r, None), w3)
          | (None, w3) \<Rightarrow>
              case executeUpstreamReport sv req cls ev at w3 of
                (Some (r, e), w4) \<Rightarrow> ((r, Some e), w4)
              | (None, w4) \<Rightarrow> let (r, w5) = finalizeReportedDecision sv req cls ev at w4 in ((r, None), w5))"

definition process_report ::
  "reporting_service \<Rightarrow> report_request \<Rightarrow> classification \<Rightarrow> telemetry_event \<Rightarrow> 'z service_env_scheme \<Rightarrow> (report_result \<times> error option) \<times> 'z service_env_scheme" where
  "process_report sv req cls ev w =
     (let w1 = submitToSpamhaus sv (we_IP (rq_Event req)) (cs_AbuseType cls) w;
          (l, w2) = service_lockIP (TrimSpace (we_IP (rq_Event req))) w1;
          (r, w3) = process_locked sv req cls ev w2
      in (r, service_unlock l w3))"

definition consult_reputation :: "reporting_service \<Rightarrow> report_request \<Rightarrow> classification \<Rightarrow> 'z service_env_scheme \<Rightarrow> string option \<times> 'z service_env_scheme" where
  "consult_reputation sv req cls w =
     (case sv_reputationGate sv of
        None \<Rightarrow> (None, w)
      | Some g \<Rightarrow> let (d, w1) = EvaluateReport g (we_IP (rq_Event req)) (reputationLocalSignal cls) w
          in (if \<not> de_Shadow d \<and> \<not> de_AllowReport d then Some (de_Reason d) else None, w1))"

definition service_Process :: "reporting_service \<Rightarrow> report_request \<Rightarrow> 'z service_env_scheme \<Rightarrow> (report_result \<times> error option) \<times> 'z service_env_scheme" where
  "service_Process sv req w =
     (let cls = Classify (rq_Event req); ev = baseTelemetryEvent req cls;
          refuse = (\<lambda>reason v. let (r, v1) = handleSuppressedDecision sv req cls ev reason v in ((r, None), v1)) in
      if rq_EvidenceOnly req then refuse ''waf_evidence_only'' w
      else let (reason, w1) = suppressionReason sv req cls w in
        if reason \<noteq> [] then refuse reason w1
        else case consult_reputation sv req cls w1 of
          (Some reason, w2) \<Rightarrow> refuse reason w2
        | (None, w2) \<Rightarrow> process_report sv req cls ev w2)"

section \<open>What the stores leave alone\<close>

definition sans_outbox :: "'z report_env_scheme \<Rightarrow> 'z report_env_scheme" where
  "sans_outbox w = w\<lparr>io_step := 0, ro_Rows := [], ro_WriteCount := 0, ro_LastCleanup := 0\<rparr>"

definition sans_evidence :: "'z report_env_scheme \<Rightarrow> 'z report_env_scheme" where
  "sans_evidence w = w\<lparr>io_step := 0, ve_Rows := [], ve_WriteCount := 0, ve_LastCleanup := 0\<rparr>"

lemma sans_outbox_fields [simp]:
  "sans_outbox (w\<lparr>io_step := n\<rparr>) = sans_outbox w" "sans_outbox (w\<lparr>ro_Rows := rows\<rparr>) = sans_outbox w"
  "sans_outbox (w\<lparr>ro_WriteCount := c\<rparr>) = sans_outbox w" "sans_outbox (w\<lparr>ro_LastCleanup := t\<rparr>) = sans_outbox w"
  by (simp_all add: sans_outbox_def)

lemma sans_evidence_fields [simp]:
  "sans_evidence (w\<lparr>io_step := n\<rparr>) = sans_evidence w" "sans_evidence (w\<lparr>ve_Rows := rows\<rparr>) = sans_evidence w"
  "sans_evidence (w\<lparr>ve_WriteCount := c\<rparr>) = sans_evidence w" "sans_evidence (w\<lparr>ve_LastCleanup := t\<rparr>) = sans_evidence w"
  by (simp_all add: sans_evidence_def)

lemma call_sans [simp]: "sans_outbox (snd (io_call w)) = sans_outbox w" "sans_evidence (snd (io_call w)) = sans_evidence w"
  by (cases w rule: io_call_cases; simp)+

lemma cleanup_sans: "sans_outbox (snd (outbox_cleanup w)) = sans_outbox w"
proof -
  have purge: "sans_outbox (snd (outbox_purgeExpired c v)) = sans_outbox v" for c and v :: "'a report_env_scheme"
    by (cases v rule: io_call_cases) (simp_all add: outbox_purgeExpired_def)
  have trim: "sans_outbox (snd (outbox_trimToMaxEntries n v)) = sans_outbox v" for n and v :: "'a report_env_scheme"
    by (cases v rule: io_call_cases; cases "v\<lparr>io_step := Suc (io_step v)\<rparr>" rule: io_call_cases) (simp_all add: outbox_trimToMaxEntries_def Let_def)
  have "sans_outbox (snd (and_try (outbox_purgeExpired c v) (\<lambda>_ w2. outbox_trimToMaxEntries n w2))) = sans_outbox v" for c n and v :: "'a report_env_scheme"
    using purge by (rule and_try_frame) (rule trim)
  then show ?thesis by (simp add: outbox_cleanup_def time_Now_def Let_def)
qed

lemma insert_sans: "sans_outbox (snd (outbox_insert r w)) = sans_outbox w"
  by (cases w rule: io_call_cases) (simp_all add: outbox_insert_def sql_now_def time_Now_def outbox_noteWrite_def cleanup_sans Let_def)

lemma Reserve_sans: "sans_outbox (snd (outbox_Reserve r w)) = sans_outbox w"
proof -
  have over: "sans_outbox (snd (reserve_over now r q v)) = sans_outbox v" for now r q and v :: "'a report_env_scheme"
    by (cases v rule: io_call_cases) (simp_all add: reserve_over_def sql_now_def time_Now_def insert_sans Let_def)
  have "sans_outbox (snd (reserve_at now r v)) = sans_outbox v" for now r and v :: "'a report_env_scheme"
    by (cases v rule: io_call_cases) (simp_all add: reserve_at_def insert_sans over split: option.split)
  then show ?thesis by (cases "db_ReadOnly w") (simp_all add: outbox_Reserve_def writable_simps time_Now_def Let_def)
qed

lemma update_sans: "sans_outbox (snd (outbox_update op i f w)) = sans_outbox w"
  by (cases "db_ReadOnly w"; cases w rule: io_call_cases) (simp_all add: outbox_update_def writable_simps sql_now_def time_Now_def outbox_noteWrite_def cleanup_sans Let_def)

lemma FindPending_world: "\<exists>n. snd (FindPending ip key w) = w\<lparr>io_step := n\<rparr>"
proof (cases "db_ReadOnly w")
  case True
  then show ?thesis by (intro exI [of _ "io_step w"]) (simp add: FindPending_def writable_simps Let_def)
next
  case False
  then show ?thesis
    by (cases w rule: io_call_cases) (auto simp: FindPending_def writable_simps Let_def split: list.split intro!: exI [of _ "Suc (io_step w)"])
qed

lemma evidence_sans: "sans_evidence (snd (evidence_Append e w)) = sans_evidence w"
proof -
  have trim: "sans_evidence (snd (evidence_trimToMaxEntries n v)) = sans_evidence v" for n and v :: "'a report_env_scheme"
    by (cases v rule: io_call_cases; cases "v\<lparr>io_step := Suc (io_step v)\<rparr>" rule: io_call_cases) (simp_all add: evidence_trimToMaxEntries_def Let_def)
  have "sans_evidence (snd (evidence_purgeBefore c v)) = sans_evidence v" for c and v :: "'a report_env_scheme"
    by (cases v rule: io_call_cases) (simp_all add: evidence_purgeBefore_def)
  then have "sans_evidence (snd (and_try (evidence_purgeBefore c v) (\<lambda>_ w2. evidence_trimToMaxEntries n w2))) = sans_evidence v" for c n and v :: "'a report_env_scheme"
    by (rule and_try_frame) (rule trim)
  then have "sans_evidence (snd (evidence_cleanup v)) = sans_evidence v" for v :: "'a report_env_scheme" by (simp add: evidence_cleanup_def time_Now_def Let_def)
  then show ?thesis
    by (cases "db_ReadOnly w"; cases "time_is_zero (vr_Timestamp e)"; cases w rule: io_call_cases; cases "w\<lparr>io_step := Suc (io_step w)\<rparr>" rule: io_call_cases)
      (simp_all add: evidence_Append_def writable_simps time_Now_def Let_def)
qed

text \<open>What a report leaves behind: the outbox, the times of the last reports, the calls of the reporter and of Spamhaus.\<close>

definition effects :: "'z service_env_scheme \<Rightarrow> outbox_row list \<times> dedup_row list \<times> executable_report list \<times> addr list" where
  "effects w = (ro_Rows w, rd_Rows w, rp_Sent w, se_Submitted w)"

lemma effects_fields [simp]:
  "effects (w\<lparr>io_step := n\<rparr>) = effects w" "effects (w\<lparr>se_gate := g\<rparr>) = effects w" "effects (w\<lparr>se_spamhausDedup := d\<rparr>) = effects w"
  "effects (w\<lparr>se_Published := ps\<rparr>) = effects w"
  by (simp_all add: effects_def)

lemma evidence_effects:
  assumes "sans_evidence v = sans_evidence w"
  shows "effects v = effects w"
proof -
  have "effects (sans_evidence v) = effects v" for v :: "'z service_env_scheme" by (simp add: effects_def sans_evidence_def)
  then show ?thesis using assms by metis
qed

lemma publish_effects [simp]: "effects (publish sv ev w) = effects w"
  by (cases w rule: io_call_cases) (simp_all add: publish_def)

lemma recordEvidenceWithID_effects [simp]:
  fixes w :: "'z service_env_scheme"
  shows "effects (snd (recordEvidenceWithID sv i req cls a b reason w)) = effects w"
proof -
  have "effects (snd (evidence_Append e v)) = effects v" for e and v :: "'z service_env_scheme" by (rule evidence_effects) (rule evidence_sans)
  then have "effects (snd (case evidence_Append e v of (Inl _, w2) \<Rightarrow> ([], w2) | (Inr _, w2) \<Rightarrow> (i, w2))) = effects v" for e and v :: "'z service_env_scheme"
    by (cases "evidence_Append e v"; cases "fst (evidence_Append e v)") (simp_all, metis snd_conv, metis snd_conv)
  then show ?thesis by (simp add: recordEvidenceWithID_def time_Now_def Let_def)
qed

lemma recordEvidenceWithID_core:
  fixes w :: "'z service_env_scheme"
  shows "core (snd (recordEvidenceWithID sv i req cls a b reason w)) = core w"
proof -
  have "core (snd (case evidence_Append e v of (Inl _, w2) \<Rightarrow> ([], w2) | (Inr _, w2) \<Rightarrow> (i, w2))) = core v" for e and v :: "'z service_env_scheme"
    using evidence_Append_core [of e v] by (cases "evidence_Append e v"; cases "fst (evidence_Append e v)") simp_all
  then show ?thesis by (simp add: recordEvidenceWithID_def time_Now_def Let_def)
qed

lemma recordEvidence_effects [simp]: "effects (snd (recordEvidence sv req cls a b reason w)) = effects w"
  by (simp add: recordEvidence_def time_Now_def)

lemma handleSuppressed_effects [simp]: "effects (snd (handleSuppressedDecision sv req cls ev reason w)) = effects w"
  by (simp add: handleSuppressedDecision_def split_beta Let_def)

section \<open>What is reported\<close>

text \<open>
  What has to hold of an event before anything leaves the service: it is not evidence only, the trust registry does not match its address, it is reliable
  (ten points of risk, or five from a known scanner), it has categories and no benign type, its fingerprint is not remembered, and the
  reputation gate does not object.
\<close>

definition reportable :: "reporting_service \<Rightarrow> report_request \<Rightarrow> 'z service_env_scheme \<Rightarrow> bool" where
  "reportable sv req w \<longleftrightarrow>
     (let e = rq_Event req; cls = Classify e in
      \<not> rq_EvidenceOnly req \<and> (\<forall>r. sv_trust sv = Some r \<longrightarrow> MatchIP r (we_IP e) = []) \<and>
      cs_AbuseType cls \<noteq> ''benign_bootstrap'' \<and> cs_AbuseType cls \<noteq> ''benign_probe'' \<and> cs_Categories cls \<noteq> [] \<and> sv_lowConfidence sv \<le> cs_Confidence cls \<and>
      \<not> page_load (classified_event e) \<and>
      (event_points (classified_event e) \<ge> 10 \<or> event_points (classified_event e) \<ge> 5 \<and> isKnownScannerUA (lower_text (we_UserAgent e))) \<and>
      (\<forall>t. dg_recentFingerprints (se_gate w) (fingerprint (rq_Source req) e cls) = Some t \<longrightarrow> t \<le> io_clock w (io_step w)) \<and>
      (\<forall>g d. sv_reputationGate sv = Some g \<longrightarrow> d = fst (EvaluateReport g (we_IP e) (reputationLocalSignal cls) (w\<lparr>io_step := Suc (io_step w)\<rparr>)) \<longrightarrow>
         de_Shadow d \<or> de_AllowReport d))"

text \<open>The address was not reported within the window, as far as some reading of the clock tells.\<close>

definition window_open :: "reporting_service \<Rightarrow> report_request \<Rightarrow> 'z service_env_scheme \<Rightarrow> bool" where
  "window_open sv req w \<longleftrightarrow>
     (\<forall>a r. sv_dedupStore sv \<longrightarrow> ParseAddr (TrimSpace (we_IP (rq_Event req))) = Some a \<longrightarrow>
        find (\<lambda>r. dr_IP r = Addr_String (Some a)) (rd_Rows w) = Some r \<longrightarrow> (\<exists>n. sv_reportWindow sv \<le> io_clock w n - dr_LastReportedAt r))"

lemma protected_iff: "service_isProtected sv ip \<longleftrightarrow> (\<exists>r. sv_trust sv = Some r \<and> MatchIP r ip \<noteq> [])"
  by (auto simp: service_isProtected_def MatchIP_def split: option.splits)

lemma suppressionReason_effects [simp]: "effects (snd (suppressionReason sv req cls w)) = effects w"
  by (simp add: suppressionReason_def time_Now_def split_beta Let_def)

lemma suppressionReason_none:
  assumes "fst (suppressionReason sv req cls w) = []"
  shows "\<not> service_isProtected sv (we_IP (rq_Event req)) \<and> cs_AbuseType cls \<noteq> ''benign_bootstrap'' \<and> cs_AbuseType cls \<noteq> ''benign_probe'' \<and>
    sv_lowConfidence sv \<le> cs_Confidence cls \<and> \<not> cs_SuspectedLowConf cls \<and> cs_Categories cls \<noteq> [] \<and>
    \<not> fst (isDuplicate (fingerprint (rq_Source req) (rq_Event req) cls) (io_clock w (io_step w)) (se_gate w)) \<and>
    snd (suppressionReason sv req cls w) = w\<lparr>io_step := Suc (io_step w),
      se_gate := snd (isDuplicate (fingerprint (rq_Source req) (rq_Event req) cls) (io_clock w (io_step w)) (se_gate w))\<rparr>"
  using assms by (cases "isDuplicate (fingerprint (rq_Source req) (rq_Event req) cls) (io_clock w (io_step w)) (se_gate w)")
    (auto simp: suppressionReason_def time_Now_def Let_def split: if_splits)

lemma FetchSignals_step:
  assumes "io_step v = io_step w"
  shows "fst (FetchSignals g ip s v) = fst (FetchSignals g ip s w)"
  using assms by (auto simp: FetchSignals_def Let_def split: option.splits sum.splits)

lemma consult_reputation_world: "\<exists>n. snd (consult_reputation sv req cls w) = w\<lparr>io_step := n\<rparr>"
proof -
  have self: "\<exists>n. w = w\<lparr>io_step := n\<rparr>" by (rule exI [of _ "io_step w"]) simp
  then have "\<exists>n. snd (EvaluateReport g ip s w) = w\<lparr>io_step := n\<rparr>" for g ip s
    by (cases "ParseAddr ip") (auto simp: EvaluateReport_def FetchSignals_def split_beta Let_def)
  then show ?thesis using self by (cases "sv_reputationGate sv") (simp_all add: consult_reputation_def split_beta Let_def)
qed

lemma window_steps:
  assumes "enforceRecentReportWindow sv req cls ev w = (r, w')"
  shows "effects w' = effects w"
    and "r = None \<Longrightarrow> sv_failClosedOnStore sv \<Longrightarrow> 0 < sv_reportWindow sv \<Longrightarrow> window_open sv req w"
proof -
  let ?a = "ParseAddr (TrimSpace (we_IP (rq_Event req)))" and ?w1 = "w\<lparr>io_step := Suc (io_step w)\<rparr>"
  have hs: "effects (snd (handleSuppressedDecision sv req cls ev reason v)) = effects v" for reason and v :: "'a service_env_scheme" by simp
  have past: "0 < d \<Longrightarrow> d \<le> max 0 (time_sub t u) \<Longrightarrow> d \<le> t - u" for d t u :: int
    by (auto simp: time_sub_def min_int64_def split: if_splits)
  have "effects w' = effects w \<and> (r = None \<longrightarrow> sv_failClosedOnStore sv \<longrightarrow> 0 < sv_reportWindow sv \<longrightarrow> window_open sv req w)"
  proof (cases "sv_dedupStore sv \<and> ?a \<noteq> None")
    case False
    then consider "\<not> sv_dedupStore sv" | "?a = None" by blast
    then show ?thesis using assms by cases (simp_all add: enforceRecentReportWindow_def window_open_def split: if_splits)
  next
    case True
    then obtain a where a: "?a = Some a" "sv_dedupStore sv" by auto
    show ?thesis
    proof (cases w rule: io_call_cases)
      case 1
      show ?thesis
      proof (cases "find (\<lambda>r. dr_IP r = Addr_String (Some a)) (rd_Rows w)")
        case None
        then show ?thesis using assms a 1 by (simp add: enforceRecentReportWindow_def LastReportedAt_def window_open_def) auto
      next
        case (Some row)
        let ?now = "io_clock w (Suc (io_step w))"
        have open_at: "\<exists>n. sv_reportWindow sv \<le> io_clock w n - dr_LastReportedAt row"
          if "0 < sv_reportWindow sv" "sv_reportWindow sv \<le> max 0 (time_sub ?now (dr_LastReportedAt row))"
          using past [OF that] by blast
        show ?thesis using Some assms a 1 hs [of "''abuseipdb_recently_reported''" "w\<lparr>io_step := Suc (Suc (io_step w))\<rparr>"] open_at
          by (cases "max 0 (time_sub (io_clock w (Suc (io_step w))) (dr_LastReportedAt row)) \<ge> sv_reportWindow sv")
            (auto simp: enforceRecentReportWindow_def LastReportedAt_def window_open_def time_Now_def split_beta Let_def)
      qed
    next
      case (2 e)
      then show ?thesis using assms a hs [of "''abuseipdb_dedup_store_error''" ?w1]
        by (auto simp: enforceRecentReportWindow_def LastReportedAt_def split_beta Let_def split: if_splits)
    qed
  qed
  then show "effects w' = effects w" "r = None \<Longrightarrow> sv_failClosedOnStore sv \<Longrightarrow> 0 < sv_reportWindow sv \<Longrightarrow> window_open sv req w" by blast+
qed

lemma suppressionReason_none_iff:
  "fst (suppressionReason sv req cls w) = [] \<longleftrightarrow> \<not> service_isProtected sv (we_IP (rq_Event req)) \<and> cs_AbuseType cls \<noteq> ''benign_bootstrap'' \<and>
    cs_AbuseType cls \<noteq> ''benign_probe'' \<and> sv_lowConfidence sv \<le> cs_Confidence cls \<and> \<not> cs_SuspectedLowConf cls \<and> cs_Categories cls \<noteq> [] \<and>
    \<not> fst (isDuplicate (fingerprint (rq_Source req) (rq_Event req) cls) (io_clock w (io_step w)) (se_gate w))"
  by (cases "isDuplicate (fingerprint (rq_Source req) (rq_Event req) cls) (io_clock w (io_step w)) (se_gate w)")
    (auto simp: suppressionReason_def time_Now_def Let_def)

lemma consult_none_iff:
  "fst (consult_reputation sv req cls v) = None \<longleftrightarrow> (\<forall>g d. sv_reputationGate sv = Some g \<longrightarrow>
     d = fst (EvaluateReport g (we_IP (rq_Event req)) (reputationLocalSignal cls) v) \<longrightarrow> de_Shadow d \<or> de_AllowReport d)"
  by (cases "sv_reputationGate sv") (simp_all add: consult_reputation_def split_beta Let_def)

lemma reportable_iff:
  "reportable sv req w \<longleftrightarrow> \<not> rq_EvidenceOnly req \<and> fst (suppressionReason sv req (Classify (rq_Event req)) w) = [] \<and>
     fst (consult_reputation sv req (Classify (rq_Event req)) (snd (suppressionReason sv req (Classify (rq_Event req)) w))) = None"
proof -
  let ?cls = "Classify (rq_Event req)" and ?fp = "fingerprint (rq_Source req) (rq_Event req) (Classify (rq_Event req))"
  have rep: "fst (EvaluateReport g ip s (snd (suppressionReason sv req ?cls w))) = fst (EvaluateReport g ip s (w\<lparr>io_step := Suc (io_step w)\<rparr>))"
    if "fst (suppressionReason sv req ?cls w) = []" for g ip s
    using FetchSignals_step [of "snd (suppressionReason sv req ?cls w)" "w\<lparr>io_step := Suc (io_step w)\<rparr>" g ip s] suppressionReason_none [OF that]
    by (simp add: EvaluateReport_def split_beta)
  have dup: "\<not> fst (isDuplicate ?fp now g) \<longleftrightarrow> (\<forall>t. dg_recentFingerprints g ?fp = Some t \<longrightarrow> t \<le> now)" for now g
    unfolding fingerprints.ask_answer by (metis not_le option.inject)
  show ?thesis
  proof (cases "fst (suppressionReason sv req ?cls w) = []")
    case True
    then show ?thesis using rep [OF True] True [unfolded suppressionReason_none_iff protected_iff dup reliable_iff]
      unfolding consult_none_iff reportable_def Let_def by (simp only:) blast
  next
    case False
    then show ?thesis unfolding suppressionReason_none_iff protected_iff dup reliable_iff reportable_def Let_def by blast
  qed
qed

text \<open>What precedes the critical section changes the memories of the gate and of Spamhaus, and nothing of the stores.\<close>

definition sans_gate :: "'z service_env_scheme \<Rightarrow> 'z service_env_scheme" where
  "sans_gate w = w\<lparr>io_step := 0, se_gate := newDecisionGate 0, se_spamhausDedup := newSpamhausIPDedup 0, se_Submitted := []\<rparr>"

lemma sans_gate_fields [simp]:
  "sans_gate (w\<lparr>io_step := n\<rparr>) = sans_gate w" "sans_gate (w\<lparr>se_gate := g\<rparr>) = sans_gate w" "sans_gate (w\<lparr>se_spamhausDedup := d\<rparr>) = sans_gate w"
  "sans_gate (w\<lparr>se_Submitted := xs\<rparr>) = sans_gate w"
  by (simp_all add: sans_gate_def)

lemma sans_gateD:
  assumes "sans_gate v = sans_gate w"
  shows "ro_Rows v = ro_Rows w" "rd_Rows v = rd_Rows w" "rp_Sent v = rp_Sent w" "io_clock v = io_clock w" "ve_Rows v = ve_Rows w"
    "core v = core w"
proof -
  have "ro_Rows (sans_gate v) = ro_Rows v" "rd_Rows (sans_gate v) = rd_Rows v" "rp_Sent (sans_gate v) = rp_Sent v" "io_clock (sans_gate v) = io_clock v"
    "ve_Rows (sans_gate v) = ve_Rows v" "core (sans_gate v) = core v" for v :: "'z service_env_scheme"
    by (simp_all add: sans_gate_def core_def)
  then show "ro_Rows v = ro_Rows w" "rd_Rows v = rd_Rows w" "rp_Sent v = rp_Sent w" "io_clock v = io_clock w" "ve_Rows v = ve_Rows w" "core v = core w"
    using assms by metis+
qed

lemma gate_frames [simp]:
  "sans_gate (snd (suppressionReason sv req cls w)) = sans_gate w" "sans_gate (snd (consult_reputation sv req cls w)) = sans_gate w"
  "sans_gate (submitToSpamhaus sv ip reason w) = sans_gate w" "sans_gate (snd (service_lockIP ip w)) = sans_gate w"
  "sans_gate (service_unlock l w) = sans_gate w"
proof -
  show "sans_gate (snd (consult_reputation sv req cls w)) = sans_gate w" using consult_reputation_world [of sv req cls w] by auto
qed (auto simp: suppressionReason_def submitToSpamhaus_def service_lockIP_def service_unlock_def time_Now_def split_beta Let_def split: option.split)

lemma unlock_effects [simp]: "effects (service_unlock l w) = effects w"
  by (cases l) (simp_all add: service_unlock_def time_Now_def Let_def)

lemma consult_effects [simp]: "effects (snd (consult_reputation sv req cls w)) = effects w"
  using consult_reputation_world [of sv req cls w] by auto

text \<open>With a store of reservations the critical section touches neither the times of the reports nor the reporter.\<close>

lemma reserve_pending_keeps:
  fixes w :: "'z service_env_scheme"
  shows "rd_Rows (snd (reserve_pending sv req cls ev at w)) = rd_Rows w \<and> rp_Sent (snd (reserve_pending sv req cls ev at w)) = rp_Sent w"
proof -
  define sends :: "'z service_env_scheme \<Rightarrow> dedup_row list \<times> executable_report list" where "sends v = (rd_Rows v, rp_Sent v)" for v
  have eff: "sends v = sends u" if "effects v = effects u" for u v using that by (simp add: effects_def sends_def)
  have step [simp]: "sends (v\<lparr>io_step := n\<rparr>) = sends v" for v n by (simp add: sends_def)
  have out: "sends v = sends u" if "sans_outbox v = sans_outbox u" for u v
  proof -
    have "sends (sans_outbox v) = sends v" for v by (simp add: sends_def sans_outbox_def)
    then show ?thesis using that by metis
  qed
  have res: "sends (snd (outbox_Reserve r v)) = sends v" for r v by (rule out) (rule Reserve_sans)
  have mark: "sends (snd (outbox_MarkStatus i st v)) = sends v" for i st v by (rule out) (simp add: outbox_MarkStatus_def update_sans)
  have pub: "sends (publish sv x v) = sends v" for x v by (rule eff) simp
  have evd: "sends (snd (recordEvidenceWithID sv i req cls a b reason v)) = sends v" for i a b reason v by (rule eff) simp
  have pend: "sends (snd (pending_result sv req cls ev at v)) = sends v" for v
    by (simp add: pending_result_def split_beta Let_def pub mark evd)
  have find: "sends (snd (FindPending ip key v)) = sends v" for ip key v using FindPending_world [of ip key v] by auto
  have "sends (snd (case outbox_Reserve r v of
        (Inl e, w3) \<Rightarrow> let reason = ''abuseipdb_report_reservation_failed''; (evidenceID, w4) = recordEvidenceWithID sv (ra_pendingEvidenceID at) req cls False True reason w3;
                  ev1 = with_evidence evidenceID (ev\<lparr>te_SuppressionReason := reason\<rparr>)
              in (suppressed_result cls reason ev1 None, publish sv ev1 w4)
      | (Inr _, w3) \<Rightarrow> pending_result sv req cls ev at w3)) = sends v" for r v
    using res [of r v] by (cases "outbox_Reserve r v"; cases "fst (outbox_Reserve r v)") (auto simp: split_beta Let_def pub evd pend)
  then have "sends (snd (reserve_pending sv req cls ev at w)) = sends w"
    using find [of "we_IP (rq_Event req)" "xr_ExecutionID (ra_report at)" w]
    by (cases "FindPending (we_IP (rq_Event req)) (xr_ExecutionID (ra_report at)) w"; cases "fst (FindPending (we_IP (rq_Event req)) (xr_ExecutionID (ra_report at)) w)")
      (auto simp: reserve_pending_def time_Now_def Let_def pub split: option.split)
  then show ?thesis by (simp add: sends_def)
qed

lemma prepare_world: "\<exists>n. snd (prepareReportAttempt req cls w) = w\<lparr>io_step := n\<rparr>"
  by (auto simp: prepareReportAttempt_def time_Now_def)

lemma locked_reserves:
  assumes "sv_reservationStore sv" and "process_locked sv req cls ev w = (r, w')"
  shows "rd_Rows w' = rd_Rows w \<and> rp_Sent w' = rp_Sent w"
proof -
  obtain o1 w1 where e: "enforceRecentReportWindow sv req cls ev w = (o1, w1)" by (cases "enforceRecentReportWindow sv req cls ev w")
  have w1: "rd_Rows w1 = rd_Rows w" "rp_Sent w1 = rp_Sent w" using window_steps(1) [OF e] by (simp_all add: effects_def)
  obtain at n where at: "prepareReportAttempt req cls w1 = (at, w1\<lparr>io_step := n\<rparr>)" using prepare_world [of req cls w1] by (metis prod.collapse)
  show ?thesis
  proof (cases o1)
    case None
    then show ?thesis using assms e at w1 reserve_pending_keeps [of sv req cls ev at "w1\<lparr>io_step := n\<rparr>"]
      by (auto simp: process_locked_def reserveAndRecordPending_def split_beta Let_def)
  next
    case (Some r)
    then show ?thesis using assms e w1 by (simp add: process_locked_def)
  qed
qed

lemma locked_window:
  assumes "process_locked sv req cls ev w = (r, w')" and "effects w' \<noteq> effects w" and "sv_failClosedOnStore sv" and "0 < sv_reportWindow sv"
  shows "window_open sv req w"
proof (cases "enforceRecentReportWindow sv req cls ev w")
  case (Pair o1 w1)
  then show ?thesis
  proof (cases o1)
    case None
    then show ?thesis using window_steps(2) [OF Pair] assms(3,4) by simp
  next
    case (Some r)
    then show ?thesis using window_steps(1) [OF Pair] Pair assms(1,2) by (simp add: process_locked_def)
  qed
qed

lemma window_open_cong: "rd_Rows v = rd_Rows w \<Longrightarrow> io_clock v = io_clock w \<Longrightarrow> window_open sv req v = window_open sv req w"
  by (simp add: window_open_def)

text \<open>
  C4: nothing leaves the reporting service unless everything consents. When a call of \<open>Process\<close> adds to or changes the outbox, the times of the last
  reports, the calls of the reporter or those of Spamhaus, the event satisfies \<open>reportable\<close>; when it touches the outbox, the times or the
  reporter, then in addition the address was not reported within the report window (the service failing closed when the store fails). With a store of
  reservations it never calls the reporter itself. All of this holds whatever fails.
\<close>

theorem process_gated:
  assumes "service_Process sv req w = (res, w')"
  shows "(effects w' \<noteq> effects w \<longrightarrow> reportable sv req w) \<and>
    ((ro_Rows w', rd_Rows w', rp_Sent w') \<noteq> (ro_Rows w, rd_Rows w, rp_Sent w) \<longrightarrow> sv_failClosedOnStore sv \<longrightarrow> 0 < sv_reportWindow sv \<longrightarrow> window_open sv req w) \<and>
    (sv_reservationStore sv \<longrightarrow> rd_Rows w' = rd_Rows w \<and> rp_Sent w' = rp_Sent w)"
proof (cases "effects w' = effects w")
  case True
  then show ?thesis by (simp add: effects_def)
next
  case False
  let ?cls = "Classify (rq_Event req)" and ?ev = "baseTelemetryEvent req (Classify (rq_Event req))"
  have refuse: "effects (snd (handleSuppressedDecision sv req ?cls ?ev reason v)) = effects v" for reason and v :: "'a service_env_scheme" by simp
  have live: "\<not> rq_EvidenceOnly req" using False assms by (auto simp: service_Process_def split_beta Let_def)
  obtain reason w1 where s: "suppressionReason sv req ?cls w = (reason, w1)" by (cases "suppressionReason sv req ?cls w")
  have w1: "sans_gate w1 = sans_gate w" "effects w1 = effects w" using s gate_frames(1) suppressionReason_effects by (metis snd_conv)+
  have empty: "reason = []" using False assms live s w1(2) refuse [of reason w1] by (auto simp: service_Process_def split_beta Let_def split: if_splits)
  obtain o2 w2 where c: "consult_reputation sv req ?cls w1 = (o2, w2)" by (cases "consult_reputation sv req ?cls w1")
  have w2: "sans_gate w2 = sans_gate w" "effects w2 = effects w" using c w1 gate_frames(2) consult_effects by (metis snd_conv)+
  have none: "o2 = None" using False assms live s c empty w2(2) refuse [of "the o2" w2]
    by (cases o2) (auto simp: service_Process_def split_beta Let_def)
  have run: "process_report sv req ?cls ?ev w2 = (res, w')" using assms live s empty c none by (simp add: service_Process_def Let_def)
  let ?w3 = "submitToSpamhaus sv (we_IP (rq_Event req)) (cs_AbuseType ?cls) w2"
  obtain l w4 where l: "service_lockIP (TrimSpace (we_IP (rq_Event req))) ?w3 = (l, w4)" by (cases "service_lockIP (TrimSpace (we_IP (rq_Event req))) ?w3")
  obtain r5 w5 where p: "process_locked sv req ?cls ?ev w4 = (r5, w5)" by (cases "process_locked sv req ?cls ?ev w4")
  have w4: "sans_gate w4 = sans_gate w" using l w2 gate_frames(3,4) by (metis snd_conv)
  have w': "w' = service_unlock l w5" using run l p by (simp add: process_report_def)
  have same: "(ro_Rows w4, rd_Rows w4, rp_Sent w4) = (ro_Rows w, rd_Rows w, rp_Sent w)" "io_clock w4 = io_clock w" using sans_gateD [OF w4] by simp_all
  have out: "(ro_Rows w', rd_Rows w', rp_Sent w') = (ro_Rows w5, rd_Rows w5, rp_Sent w5)" using unlock_effects [of l w5] w' by (simp add: effects_def)
  have "reportable sv req w" using live s empty c none by (simp add: reportable_iff)
  moreover have "window_open sv req w" if "(ro_Rows w', rd_Rows w', rp_Sent w') \<noteq> (ro_Rows w, rd_Rows w, rp_Sent w)" "sv_failClosedOnStore sv" "0 < sv_reportWindow sv"
  proof -
    have "effects w5 \<noteq> effects w4" using that(1) out same(1) by (auto simp: effects_def)
    then have "window_open sv req w4" using locked_window [OF p] that(2,3) by blast
    then show ?thesis using window_open_cong [of w4 w sv req] same by simp
  qed
  moreover have "rd_Rows w' = rd_Rows w \<and> rp_Sent w' = rp_Sent w" if "sv_reservationStore sv"
    using locked_reserves [OF that p] out same(1) by simp
  ultimately show ?thesis by blast
qed

section \<open>A report on its way\<close>

lemma steady_append:
  assumes "steady t0 w" and "core v = core (w\<lparr>ro_Rows := ro_Rows w @ [row]\<rparr>)" and "length (ro_Rows w) < outbox_maxEntries"
    and "t0 \<le> ob_UpdatedAt row" and "t0 \<le> ob_ExpiresAt row"
  shows "steady t0 v"
  using assms by (simp add: core_eq_iff steady_def no_faults_def)

lemma Reserve_steady:
  assumes "steady t0 w" and "\<And>q. q \<in> set (ro_Rows w) \<Longrightarrow> is_pending q \<Longrightarrow> ob_IP q \<noteq> rv_IP r" and "rv_EvidenceID r \<notin> ob_EvidenceID ` set (ro_Rows w)"
    and "rv_Status r = ReportPending" and "rv_ExpiresAt r \<noteq> 0" and "t0 \<le> rv_ExpiresAt r" and "length (ro_Rows w) < outbox_maxEntries"
  shows "\<exists>v t. outbox_Reserve r w = (Inr (), v) \<and> t0 \<le> t \<and> core v = core (w\<lparr>ro_Rows := ro_Rows w @ [reservation_row r t]\<rparr>)"
proof -
  let ?n = "io_step w" and ?t = "io_clock w (Suc (Suc (Suc (io_step w)))) - io_clock w (Suc (Suc (Suc (io_step w)))) mod Second"
  let ?v = "w\<lparr>io_step := ?n + 4, ro_Rows := ro_Rows w @ [reservation_row r ?t], ro_WriteCount := ro_WriteCount w + 1\<rparr>"
  have ro: "\<not> db_ReadOnly w" and nf: "no_faults w" and t: "t0 \<le> ?t" using assms(1) unfolding steady_def by blast+
  have none: "find (\<lambda>q. ob_IP q = rv_IP r \<and> is_pending q) (ro_Rows w) = None" using assms(2) by (auto simp: find_None_iff)
  have ok: "violates_outbox (reservation_row r u) (ro_Rows w) \<longleftrightarrow> False" for u
    using assms(2,3) unfolding violates_outbox_def by (simp add: reservation_row_def) (metis image_eqI)
  have st: "steady t0 ?v" by (rule steady_append [OF assms(1), where row = "reservation_row r ?t"]) (use assms(6,7) t in \<open>simp_all add: core_def reservation_row_def\<close>)
  then obtain v where v: "outbox_cleanup ?v = (Inr (), v)" "core v = core ?v" using cleanup_steady by blast
  have calls: "io_call (w\<lparr>io_step := n\<rparr>) = (Inr (), w\<lparr>io_step := Suc n\<rparr>)" for n using nf io_call_ok [of "w\<lparr>io_step := n\<rparr>"] by simp
  have "outbox_Reserve r w = outbox_cleanup ?v"
    using assms(4,5) ro by (simp add: outbox_Reserve_def writable_simps go_time time_Now_def reserve_at_def calls none outbox_insert_def sql_now_def ok outbox_noteWrite_def
      report_status_defs Let_def numeral_eq_Suc)
  then show ?thesis using v t by (intro exI [of _ v] exI [of _ ?t]) (simp add: core_def)
qed

lemma evidence_Append_ok:
  assumes "no_faults w" and "\<not> db_ReadOnly w" and "vr_EvidenceID e \<notin> vr_EvidenceID ` set (ve_Rows w)"
  shows "fst (evidence_Append e w) = Inr ()"
proof -
  have fresh: "(\<exists>r \<in> set (ve_Rows w). vr_EvidenceID r = vr_EvidenceID e) \<longleftrightarrow> False" using assms(3) by (metis image_eqI)
  have nf: "no_faults v \<Longrightarrow> fst (evidence_cleanup v) = Inr ()" for v :: "'a report_env_scheme"
    by (auto simp: evidence_cleanup_def evidence_purgeBefore_def evidence_trimToMaxEntries_def time_Now_def io_call_def no_faults_def Let_def)
  show ?thesis using assms(1,2)
    by (cases "time_is_zero (vr_Timestamp e)") (simp_all add: evidence_Append_def writable_simps time_Now_def io_call_ok fresh nf no_faults_def Let_def)
qed

text \<open>The reservation that \<open>Process\<close> makes, by the readings of the clock it is made with.\<close>

definition made_reservation :: "report_request \<Rightarrow> go_time \<Rightarrow> go_time \<Rightarrow> go_time \<Rightarrow> reservation" where
  "made_reservation req t1 t2 t3 =
     (let cls = Classify (rq_Event req) in
      attempt_reservation req \<lparr>ra_report = buildAggregatedReport req cls t1,
        ra_pendingEvidenceID = decisionEvidenceID (rq_Source req) (rq_Event req) cls ''report_pending'' t2\<rparr> t3)"

lemma reserve_pending_steady:
  fixes w :: "'z service_env_scheme"
  assumes "steady t0 w" and "\<And>q. q \<in> set (ro_Rows w) \<Longrightarrow> is_pending q \<Longrightarrow> ob_IP q \<noteq> we_IP (rq_Event req)"
    and "ra_pendingEvidenceID at \<notin> ob_EvidenceID ` set (ro_Rows w) \<union> vr_EvidenceID ` set (ve_Rows w)" and "ra_pendingEvidenceID at \<noteq> []"
    and "\<And>n. 0 < io_clock w n" and "length (ro_Rows w) < outbox_maxEntries"
  shows "\<exists>v ev' n t. reserve_pending sv req cls ev at w = (suppressed_result cls ''report_pending'' ev' (Some (ra_report at)), v) \<and> t0 \<le> t \<and>
    core v = core (w\<lparr>ro_Rows := ro_Rows w @ [reservation_row (attempt_reservation req at (io_clock w n)) t]\<rparr>)"
proof -
  have ro: "\<not> db_ReadOnly w" and nf: "no_faults w" using assms(1) unfolding steady_def by blast+
  have "filter (\<lambda>q. ob_IP q = we_IP (rq_Event req) \<and> ob_Key q = k \<and> is_pending q) (ro_Rows w) = []" for k
    using assms(2) by (auto simp: filter_empty_conv)
  then have find: "FindPending (we_IP (rq_Event req)) k w = (Inr None, w\<lparr>io_step := Suc (io_step w)\<rparr>)" for k
    using ro nf by (simp add: FindPending_def writable_simps io_call_ok Let_def)
  let ?n = "Suc (io_step w)" and ?w2 = "w\<lparr>io_step := Suc (Suc (io_step w))\<rparr>"
  let ?r = "attempt_reservation req at (io_clock w ?n)"
  have fields: "rv_IP ?r = we_IP (rq_Event req)" "rv_EvidenceID ?r = ra_pendingEvidenceID at" "rv_Status ?r = ReportPending" "rv_ExpiresAt ?r = io_clock w ?n + 30 * Second"
    by (simp_all add: attempt_reservation_def time_add_def abuseAggregationWindow_def)
  have t0: "t0 \<le> io_clock w ?n" using assms(1) unfolding steady_def by (metis diff_ge_0_iff_ge dual_order.trans le_add_same_cancel1 diff_add_cancel pos_mod_sign Second_def zero_less_numeral)
  have "steady t0 ?w2" using assms(1) steady_core [of ?w2 w t0] by simp
  then obtain v t where v: "outbox_Reserve ?r ?w2 = (Inr (), v)" "t0 \<le> t" "core v = core (?w2\<lparr>ro_Rows := ro_Rows w @ [reservation_row ?r t]\<rparr>)"
    using Reserve_steady [of t0 ?w2 ?r] assms(2,3,6) fields t0 less_imp_neq [OF assms(5) [of ?n]] assms(5) [of ?n] by (auto simp: Second_def)
  have ve: "ve_Rows v = ve_Rows w"
  proof -
    have "ve_Rows (sans_outbox u) = ve_Rows u" for u :: "'z service_env_scheme" by (simp add: sans_outbox_def)
    then show ?thesis using Reserve_sans [of ?r ?w2] v(1) by (metis sans_outbox_fields(1) snd_conv)
  qed
  obtain i u where e: "recordEvidenceWithID sv (ra_pendingEvidenceID at) req cls False True ''report_pending'' v = (i, u)"
    by (cases "recordEvidenceWithID sv (ra_pendingEvidenceID at) req cls False True ''report_pending'' v")
  have "no_faults v" "\<not> db_ReadOnly v" using v(3) nf ro by (simp_all add: core_eq_iff no_faults_def)
  then have "fst (evidence_Append \<lparr>vr_EvidenceID = ra_pendingEvidenceID at, vr_Timestamp = x, vr_Source = y, vr_IP = ip, vr_AbuseType = z, vr_Decision = d, vr_Reported = a, vr_Suppressed = b, vr_Reason = c\<rparr>
      (v\<lparr>io_step := m\<rparr>)) = Inr ()" for x y ip z d a b c m
    using assms(3) ve by (intro evidence_Append_ok) (simp_all add: no_faults_def)
  then have i: "sv_evidenceStore sv \<Longrightarrow> i \<noteq> []" using e assms(4)
    by (auto simp: recordEvidenceWithID_def time_Now_def Let_def split: prod.splits sum.splits) (metis Inl_Inr_False fst_conv)
  have "core u = core v" using recordEvidenceWithID_core [of sv "ra_pendingEvidenceID at" req cls False True "''report_pending''" v] e by simp
  moreover have "core (publish sv x u) = core u" for x by (cases u rule: io_call_cases) (simp_all add: publish_def core_def)
  moreover have "reserve_pending sv req cls ev at w = (suppressed_result cls ''report_pending'' (with_evidence i ev) (Some (ra_report at)), publish sv (with_evidence i ev) u)"
    using find v(1) e i by (auto simp: reserve_pending_def time_Now_def pending_result_def Let_def)
  ultimately show ?thesis using v(2,3) by (intro exI [of _ "publish sv (with_evidence i ev) u"] exI [of _ "with_evidence i ev"] exI [of _ ?n] exI [of _ t]) (simp add: core_eq_iff)
qed

definition never_recent :: "reporting_service \<Rightarrow> report_request \<Rightarrow> 'z service_env_scheme \<Rightarrow> bool" where
  "never_recent sv req w \<longleftrightarrow>
     (\<forall>a r n. ParseAddr (TrimSpace (we_IP (rq_Event req))) = Some a \<longrightarrow> find (\<lambda>r. dr_IP r = Addr_String (Some a)) (rd_Rows w) = Some r \<longrightarrow>
        sv_reportWindow sv \<le> time_sub (io_clock w n) (dr_LastReportedAt r))"

lemma window_passes:
  assumes "no_faults w" and "never_recent sv req w"
  shows "\<exists>n. enforceRecentReportWindow sv req cls ev w = (None, w\<lparr>io_step := n\<rparr>)"
proof (cases "sv_dedupStore sv \<and> ParseAddr (TrimSpace (we_IP (rq_Event req))) \<noteq> None")
  case False
  then consider "\<not> sv_dedupStore sv" | "ParseAddr (TrimSpace (we_IP (rq_Event req))) = None" by blast
  moreover have "\<exists>n. w = w\<lparr>io_step := n\<rparr>" by (rule exI [of _ "io_step w"]) simp
  ultimately show ?thesis by cases (simp_all add: enforceRecentReportWindow_def)
next
  case True
  then obtain a where a: "ParseAddr (TrimSpace (we_IP (rq_Event req))) = Some a" "sv_dedupStore sv" by auto
  show ?thesis
  proof (cases "find (\<lambda>r. dr_IP r = Addr_String (Some a)) (rd_Rows w)")
    case None
    then show ?thesis using assms(1) a by (intro exI [of _ "Suc (io_step w)"]) (simp add: enforceRecentReportWindow_def LastReportedAt_def io_call_ok)
  next
    case (Some r)
    then have "sv_reportWindow sv \<le> max 0 (time_sub (io_clock w (Suc (io_step w))) (dr_LastReportedAt r))"
      using assms(2) a(1) unfolding never_recent_def by (meson max.coboundedI2)
    then show ?thesis using assms(1) a Some
      by (intro exI [of _ "Suc (Suc (io_step w))"]) (simp add: enforceRecentReportWindow_def LastReportedAt_def io_call_ok time_Now_def Let_def)
  qed
qed

text \<open>What \<open>Process\<close> needs of the outbox: it works, has room and holds no pending reservation of the address and no identifier that is about to be used.\<close>

definition room_for :: "go_time \<Rightarrow> report_request \<Rightarrow> 'z service_env_scheme \<Rightarrow> bool" where
  "room_for t0 req w \<longleftrightarrow> steady t0 w \<and> length (ro_Rows w) < outbox_maxEntries \<and> (\<forall>n. 0 < io_clock w n) \<and>
     (\<forall>q \<in> set (ro_Rows w). is_pending q \<longrightarrow> ob_IP q \<noteq> we_IP (rq_Event req)) \<and>
     (\<forall>n. decisionEvidenceID (rq_Source req) (rq_Event req) (Classify (rq_Event req)) ''report_pending'' (io_clock w n) \<notin>
        ob_EvidenceID ` set (ro_Rows w) \<union> vr_EvidenceID ` set (ve_Rows w))"

lemma room_for_cong:
  assumes "core v = core w" and "ve_Rows v = ve_Rows w"
  shows "room_for t0 req v = room_for t0 req w"
proof -
  have "ro_Rows v = ro_Rows w" "io_clock v = io_clock w" using assms(1) by (simp_all add: core_eq_iff)
  then show ?thesis using steady_core [OF assms(1), of t0] assms(2) unfolding room_for_def by (simp only:)
qed

lemma locked_reservation:
  fixes w :: "'z service_env_scheme"
  assumes "room_for t0 req w" and "sv_reservationStore sv" and "never_recent sv req w"
  shows "\<exists>v ev' n1 n2 n3 t. process_locked sv req (Classify (rq_Event req)) ev w =
      ((suppressed_result (Classify (rq_Event req)) ''report_pending'' ev' (Some (buildAggregatedReport req (Classify (rq_Event req)) (io_clock w n1))), None), v) \<and> t0 \<le> t \<and>
    core v = core (w\<lparr>ro_Rows := ro_Rows w @ [reservation_row (made_reservation req (io_clock w n1) (io_clock w n2) (io_clock w n3)) t]\<rparr>)"
proof -
  let ?cls = "Classify (rq_Event req)"
  have "no_faults w" using assms(1) unfolding room_for_def steady_def by blast
  then obtain n where e: "enforceRecentReportWindow sv req ?cls ev w = (None, w\<lparr>io_step := n\<rparr>)" using window_passes assms(3) by blast
  let ?w2 = "w\<lparr>io_step := Suc (Suc n)\<rparr>" and ?id = "decisionEvidenceID (rq_Source req) (rq_Event req) ?cls ''report_pending'' (io_clock w (Suc n))"
  let ?at = "\<lparr>ra_report = buildAggregatedReport req ?cls (io_clock w n), ra_pendingEvidenceID = ?id\<rparr>"
  have at: "prepareReportAttempt req ?cls (w\<lparr>io_step := n\<rparr>) = (?at, ?w2)" by (simp add: prepareReportAttempt_def time_Now_def Let_def)
  have "room_for t0 req ?w2" using assms(1) room_for_cong [of ?w2 w t0 req] by simp
  then have "\<exists>v ev' k t. reserve_pending sv req ?cls ev ?at ?w2 = (suppressed_result ?cls ''report_pending'' ev' (Some (ra_report ?at)), v) \<and> t0 \<le> t \<and>
    core v = core (?w2\<lparr>ro_Rows := ro_Rows ?w2 @ [reservation_row (attempt_reservation req ?at (io_clock ?w2 k)) t]\<rparr>)"
    unfolding room_for_def by (intro reserve_pending_steady) (blast | simp add: decisionEvidenceID_def)+
  then obtain v ev' k t where v: "reserve_pending sv req ?cls ev ?at ?w2 = (suppressed_result ?cls ''report_pending'' ev' (Some (ra_report ?at)), v)" "t0 \<le> t"
    "core v = core (?w2\<lparr>ro_Rows := ro_Rows w @ [reservation_row (attempt_reservation req ?at (io_clock w k)) t]\<rparr>)" by auto
  have "process_locked sv req ?cls ev w = ((suppressed_result ?cls ''report_pending'' ev' (Some (buildAggregatedReport req ?cls (io_clock w n))), None), v)"
    using e at v(1) assms(2) by (simp add: process_locked_def reserveAndRecordPending_def)
  then show ?thesis using v(2,3)
    by (intro exI [of _ v] exI [of _ ev'] exI [of _ n] exI [of _ "Suc n"] exI [of _ k] exI [of _ t]) (simp add: made_reservation_def Let_def core_def)
qed

lemma process_reservation:
  fixes w :: "'z service_env_scheme"
  assumes "room_for t0 req w" and "sv_reservationStore sv" and "never_recent sv req w" and "reportable sv req w"
  shows "\<exists>v ev' n1 n2 n3 t. service_Process sv req w =
      ((suppressed_result (Classify (rq_Event req)) ''report_pending'' ev' (Some (buildAggregatedReport req (Classify (rq_Event req)) (io_clock w n1))), None), v) \<and> t0 \<le> t \<and>
    core v = core (w\<lparr>ro_Rows := ro_Rows w @ [reservation_row (made_reservation req (io_clock w n1) (io_clock w n2) (io_clock w n3)) t]\<rparr>)"
proof -
  let ?cls = "Classify (rq_Event req)" and ?ev = "baseTelemetryEvent req (Classify (rq_Event req))"
  obtain w1 where s: "suppressionReason sv req ?cls w = ([], w1)" using assms(4) unfolding reportable_iff by (metis prod.collapse)
  obtain w2 where c: "consult_reputation sv req ?cls w1 = (None, w2)" using assms(4) s unfolding reportable_iff by (metis prod.collapse snd_conv)
  let ?w3 = "submitToSpamhaus sv (we_IP (rq_Event req)) (cs_AbuseType ?cls) w2"
  obtain l w4 where l: "service_lockIP (TrimSpace (we_IP (rq_Event req))) ?w3 = (l, w4)" by (cases "service_lockIP (TrimSpace (we_IP (rq_Event req))) ?w3")
  have "sans_gate w4 = sans_gate w" using s c l gate_frames(1-4) by (metis snd_conv)
  note same = sans_gateD [OF this]
  have "room_for t0 req w4" using room_for_cong [OF same(6,5)] assms(1) by simp
  moreover have "never_recent sv req w4" using assms(3) same by (simp add: never_recent_def)
  ultimately obtain v ev' n1 n2 n3 t where v: "process_locked sv req ?cls ?ev w4 =
      ((suppressed_result ?cls ''report_pending'' ev' (Some (buildAggregatedReport req ?cls (io_clock w4 n1))), None), v)" "t0 \<le> t"
    "core v = core (w4\<lparr>ro_Rows := ro_Rows w4 @ [reservation_row (made_reservation req (io_clock w4 n1) (io_clock w4 n2) (io_clock w4 n3)) t]\<rparr>)"
    using locked_reservation assms(2) by blast
  have "\<not> rq_EvidenceOnly req" using assms(4) by (simp add: reportable_iff)
  then have "service_Process sv req w = ((suppressed_result ?cls ''report_pending'' ev' (Some (buildAggregatedReport req ?cls (io_clock w n1))), None), service_unlock l v)"
    using s c l v(1) same(4) by (simp add: service_Process_def process_report_def Let_def)
  moreover have "core (service_unlock l v) = core v" using sans_gateD(6) [OF gate_frames(5)] .
  ultimately show ?thesis using v(2,3) same
    by (intro exI [of _ "service_unlock l v"] exI [of _ ev'] exI [of _ n1] exI [of _ n2] exI [of _ n3] exI [of _ t]) (simp add: core_eq_iff)
qed

lemma due_member:
  assumes "q \<in> set rows" and "retryable now q" and "length rows \<le> (if limit \<le> 0 then 50 else nat limit)"
  shows "q \<in> set (due_rows now limit rows)"
proof -
  have "length (filter (retryable now) rows) \<le> (if limit \<le> 0 then 50 else nat limit)" using assms(3) length_filter_le order_trans by blast
  then show ?thesis using assms(1,2) by (simp add: due_rows_def outbox_oldest_def)
qed


section \<open>An example\<close>


definition sample_service :: reporting_service where
  "sample_service = (service_New None True (Some DefaultRegistry))\<lparr>sv_evidenceStore := True, sv_reservationStore := True, sv_dedupStore := True\<rparr>"

definition visit_request :: report_request where
  "visit_request = \<lparr>rq_Source = ''cloudflare_waf'', rq_Event = page_visit, rq_EvidenceOnly = False\<rparr>"

definition fresh_service :: service_env where
  "fresh_service = \<lparr>io_clock = (\<lambda>_. 100 * Second), io_fault = (\<lambda>_. None), io_choice = (\<lambda>_. False), io_step = 0, fs_files = [],
     db_ReadOnly = False, db_Events = [], db_NextEventID = 1, db_Sequences = [], db_Checkpoints = [], db_Leases = [],
     ro_Rows = [], ro_WriteCount = 0, ro_LastCleanup = 0, rd_Rows = [], ve_Rows = [], ve_WriteCount = 0, ve_LastCleanup = 0, rp_Sent = [],
     se_gate = newDecisionGate 0, se_spamhausDedup = newSpamhausIPDedup 0, se_Submitted = [], se_Published = []\<rparr>"

lemma sample_conditions:
  "room_for 0 visit_request fresh_service" "outbox_ok fresh_service" "sv_reservationStore sample_service" "never_recent sample_service visit_request fresh_service"
  "reportable sample_service visit_request fresh_service"
proof -
  show "room_for 0 visit_request fresh_service"
    by (simp add: room_for_def steady_def no_faults_def fresh_service_def retention_def outbox_maxEntries_def Hour_def Minute_def Second_def)
  show "outbox_ok fresh_service" by (simp add: outbox_ok_def outbox_rows_ok_def fresh_service_def)
  show "sv_reservationStore sample_service" by (simp add: sample_service_def)
  show "never_recent sample_service visit_request fresh_service" by (simp add: never_recent_def fresh_service_def)
  have "\<not> cs_SuspectedLowConf (Classify page_visit)" by (rule page_visit_class)
  moreover have "we_IP page_visit = ''198.51.100.7''" by (simp add: page_visit_def)
  ultimately show "reportable sample_service visit_request fresh_service"
    using page_visit_class sample_unprotected(2) unfolding reportable_def Let_def reliable_iff
    by (simp add: visit_request_def sample_service_def service_New_def fresh_service_def newDecisionGate_def category_defs)
qed


theorem process_gated_witness:
  "(ro_Rows (snd (service_Process sample_service visit_request fresh_service)) \<noteq> ro_Rows fresh_service) \<and> reportable sample_service visit_request fresh_service \<and>
    window_open sample_service visit_request fresh_service \<and> rp_Sent (snd (service_Process sample_service visit_request fresh_service)) = []"
proof -
  obtain res w' where p: "service_Process sample_service visit_request fresh_service = (res, w')" by (cases "service_Process sample_service visit_request fresh_service")
  have "ro_Rows w' \<noteq> ro_Rows fresh_service" using process_reservation [OF sample_conditions(1,3,4,5)] p by (auto simp: core_eq_iff)
  moreover have "effects w' \<noteq> effects fresh_service" using calculation by (auto simp: effects_def)
  moreover have "sv_failClosedOnStore sample_service" "0 < sv_reportWindow sample_service" "rp_Sent fresh_service = []"
    by (simp_all add: sample_service_def service_New_def fresh_service_def Hour_def Minute_def Second_def)
  ultimately show ?thesis using process_gated [OF p] sample_conditions(3) p by simp
qed

end
