(* ===== verification/Snapshot_Graph.thy ===== *)
theory Snapshot_Graph
  imports Execution "HOL-Library.AList"
begin

text \<open>
  The dependency graph of the resource types, \<open>internal/snapshot/graph/graph.go\<close>, and its use in
  \<open>internal/snapshot/builder/multi/assembler.go\<close>. The runtime gives no order for ranging over a map: the order in which
  \<open>ResolveOrder\<close> meets the types is a parameter, any list of all of them.
\<close>

section \<open>The graph\<close>

type_synonym dependency_graph = "(string \<times> string list) list"

definition graph_deps :: "dependency_graph \<Rightarrow> string \<Rightarrow> string list" where
  "graph_deps g n = (case map_of g n of None \<Rightarrow> [] | Some ds \<Rightarrow> ds)"

definition AddLink :: "string \<Rightarrow> string \<Rightarrow> dependency_graph \<Rightarrow> dependency_graph" where
  "AddLink from to g = AList.update from (graph_deps g from @ [to]) g"

definition all_types :: "dependency_graph \<Rightarrow> string list" where
  "all_types g = remdups (concat (map (\<lambda>(from, toList). from # toList) g))"

definition cycle_error :: "string \<Rightarrow> error" where
  "cycle_error n = New ''snapshot.graph.ResolveOrder'' (''cycle detected involving '' @ n)"

text \<open>\<open>visit\<close> for each node of a list: the nodes that are being visited, those that were visited, and the result so far.\<close>

function visits :: "dependency_graph \<Rightarrow> string list \<Rightarrow> string list \<Rightarrow> string list \<times> string list \<Rightarrow> (string list \<times> string list) result" where
  "visits g [] temp st = Inr st"
| "visits g (n # ns) temp (visited, res) =
     (if n \<in> set temp then Inl (cycle_error n)
      else if n \<in> set visited then visits g ns temp (visited, res)
      else case visits g (graph_deps g n) (n # temp) (visited, res) of
          Inl e \<Rightarrow> Inl e
        | Inr (visited', res') \<Rightarrow> visits g ns temp (n # visited', res' @ [n]))"
  by pat_completeness auto

lemma deps_in_types: "d \<in> set (graph_deps g n) \<Longrightarrow> n \<in> set (all_types g) \<and> d \<in> set (all_types g)"
proof -
  assume d: "d \<in> set (graph_deps g n)"
  then obtain ds where ds: "map_of g n = Some ds" "d \<in> set ds" by (cases "map_of g n") (simp_all add: graph_deps_def)
  then have "(n, ds) \<in> set g" by (simp add: map_of_SomeD)
  then show ?thesis using ds(2) unfolding all_types_def by force
qed

text \<open>Every nested call has one more type of the graph in progress, and each other call a shorter list.\<close>

termination visits
proof (relation "(\<lambda>(g, ns, temp, st). card (set (all_types g) - set temp)) <*mlex*> measure (\<lambda>(g, ns, temp, st). length ns)", goal_cases)
  case 1
  show ?case by (intro wf_mlex wf_measure)
next
  case (2 g n ns temp visited res)
  then show ?case by (intro mlex_leq) simp_all
next
  case (3 g n ns temp visited res)
  show ?case
  proof (cases "graph_deps g n")
    case Nil
    then show ?thesis by (intro mlex_leq) (auto intro!: card_mono)
  next
    case (Cons d ds)
    then have "n \<in> set (all_types g)" using deps_in_types [of d g n] by simp
    then have "card (set (all_types g) - set (n # temp)) < card (set (all_types g) - set temp)"
      using 3(1) by (intro psubset_card_mono) auto
    then show ?thesis by (intro mlex_less) simp
  qed
next
  case (4 g n ns temp visited res r visited' res')
  then show ?case by (intro mlex_leq) simp_all
qed

definition ResolveOrder :: "dependency_graph \<Rightarrow> string list \<Rightarrow> string list result" where
  "ResolveOrder g order = (case visits g order [] ([], []) of Inl e \<Rightarrow> Inl e | Inr (_, res) \<Rightarrow> Inr res)"

section \<open>The assembler\<close>

definition registry_graph :: "descriptor list \<Rightarrow> dependency_graph" where
  "registry_graph ds = foldl (\<lambda>g d. foldl (\<lambda>g dep. AddLink (ds_Type d) dep g) g (ds_Dependencies d)) [] ds"

definition NewGraphAssembler :: "descriptor list \<Rightarrow> string list \<Rightarrow> string list result" where
  "NewGraphAssembler ds order =
     (case ResolveOrder (registry_graph ds) order of Inl e \<Rightarrow> Inl (wrap_err ''snapshot.builder.multi.NewGraphAssembler'' e) | Inr res \<Rightarrow> Inr res)"

section \<open>A topological order\<close>

definition edges :: "dependency_graph \<Rightarrow> (string \<times> string) set" where
  "edges g = {(n, d). d \<in> set (graph_deps g n)}"

definition deps_first :: "dependency_graph \<Rightarrow> string list \<Rightarrow> bool" where
  "deps_first g res \<longleftrightarrow> (\<forall>i < length res. set (graph_deps g (res ! i)) \<subseteq> set (take i res))"

lemma deps_first_snoc: "deps_first g (res @ [n]) \<longleftrightarrow> deps_first g res \<and> set (graph_deps g n) \<subseteq> set res"
  by (auto simp: deps_first_def less_Suc_eq nth_append)

lemma visits_result:
  assumes "visits g ns temp (visited, res) = Inr (visited', res')" and "set visited = set res" and "distinct res" and "deps_first g res" and "set temp \<inter> set res = {}"
  shows "set visited' = set res' \<and> distinct res' \<and> deps_first g res' \<and> set temp \<inter> set res' = {} \<and> set res \<union> set ns \<subseteq> set res' \<and> set res' \<subseteq> set res \<union> set ns \<union> set (all_types g)"
  using assms
proof (induction g ns temp "(visited, res)" arbitrary: visited res visited' res' rule: visits.induct)
  case (1 g temp)
  then show ?case by simp
next
  case (2 g n ns temp visited res)
  show ?case
  proof (cases "n \<in> set visited")
    case True
    then have "visits g ns temp (visited, res) = Inr (visited', res')" using 2(4) by (simp split: if_splits)
    then show ?thesis using 2(1) [of visited' res'] 2(4-8) True by (auto split: if_splits)
  next
    case False
    then have n: "n \<notin> set temp" using 2(4) by (auto split: if_splits)
    obtain v1 r1 where inner: "visits g (graph_deps g n) (n # temp) (visited, res) = Inr (v1, r1)" "visits g ns temp (n # v1, r1 @ [n]) = Inr (visited', res')"
      using 2(4) False n by (auto split: sum.splits prod.splits)
    have one: "set v1 = set r1 \<and> distinct r1 \<and> deps_first g r1 \<and> set (n # temp) \<inter> set r1 = {} \<and> set res \<union> set (graph_deps g n) \<subseteq> set r1 \<and>
        set r1 \<subseteq> set res \<union> set (graph_deps g n) \<union> set (all_types g)"
      using 2(2) [OF n False inner(1)] 2(5-8) False by auto
    have sub: "set (graph_deps g n) \<subseteq> set (all_types g)" using deps_in_types by blast
    have "set (n # v1) = set (r1 @ [n])" "distinct (r1 @ [n])" "deps_first g (r1 @ [n])" "set temp \<inter> set (r1 @ [n]) = {}"
      using one n by (auto simp: deps_first_snoc)
    then have "set visited' = set res' \<and> distinct res' \<and> deps_first g res' \<and> set temp \<inter> set res' = {} \<and> set (r1 @ [n]) \<union> set ns \<subseteq> set res' \<and>
        set res' \<subseteq> set (r1 @ [n]) \<union> set ns \<union> set (all_types g)"
      using 2(3) [OF n False inner(1) refl inner(2)] by blast
    then show ?thesis using one sub by auto
  qed
qed

lemma visits_error:
  assumes "visits g ns temp (visited, res) = Inl e" and "\<And>t n. t \<in> set temp \<Longrightarrow> n \<in> set ns \<Longrightarrow> (t, n) \<in> (edges g)\<^sup>+"
  shows "\<exists>n. (n, n) \<in> (edges g)\<^sup>+ \<and> e = cycle_error n"
  using assms
proof (induction g ns temp "(visited, res)" arbitrary: visited res rule: visits.induct)
  case (1 g temp)
  then show ?case by simp
next
  case (2 g n ns temp visited res)
  consider "n \<in> set temp" | "n \<notin> set temp" "n \<in> set visited" | "n \<notin> set temp" "n \<notin> set visited" by blast
  then show ?case
  proof cases
    case 1
    then show ?thesis using 2(4) 2(5) [of n n] by auto
  next
    case c: 2
    then show ?thesis using 2(1) [OF c] 2(4) 2(5) by auto
  next
    case c: 3
    have down: "(t, d) \<in> (edges g)\<^sup>+" if "t \<in> set (n # temp)" "d \<in> set (graph_deps g n)" for t d
      using that 2(5) [of t n] by (auto simp: edges_def intro: trancl_into_trancl)
    show ?thesis
    proof (cases "visits g (graph_deps g n) (n # temp) (visited, res)")
      case (Inl e')
      moreover have "e' = e" using 2(4) c Inl by simp
      ultimately show ?thesis using 2(2) [OF c] down by blast
    next
      case (Inr p)
      obtain v1 r1 where p: "p = (v1, r1)" by (cases p)
      then show ?thesis using 2(3) [OF c Inr p [symmetric]] 2(4) 2(5) c Inr by simp
    qed
  qed
qed

lemma deps_first_acyclic:
  assumes "deps_first g res" and "distinct res" and "set (all_types g) \<subseteq> set res"
  shows "acyclic (edges g)"
proof -
  define pos where "pos n = (THE i. i < length res \<and> res ! i = n)" for n
  have pos: "pos (res ! i) = i" if "i < length res" for i
    unfolding pos_def using that assms(2) by (intro the_equality) (auto simp: nth_eq_iff_index_eq)
  have "(d, n) \<in> measure pos" if "(n, d) \<in> edges g" for n d
  proof -
    have d: "d \<in> set (graph_deps g n)" using that by (simp add: edges_def)
    then obtain i where i: "i < length res" "n = res ! i" using deps_in_types assms(3) by (metis in_set_conv_nth subsetD)
    then have "d \<in> set (take i res)" using assms(1) d unfolding deps_first_def by blast
    then obtain j where "j < i" "d = res ! j" using i(1) by (auto simp: in_set_conv_nth)
    then show ?thesis using pos [of i] pos [of j] i by simp
  qed
  then have "(edges g)\<inverse> \<subseteq> measure pos" by auto
  then have "acyclic ((edges g)\<inverse>)" using wf_acyclic wf_subset wf_measure by blast
  then show ?thesis by (simp add: acyclic_converse)
qed

text \<open>
  C34: \<open>ResolveOrder\<close> always returns, whatever the graph, and what it returns is right. Given any order of all types of the graph, it returns an error
  exactly when the dependencies have a cycle, and then names a type of the cycle; otherwise it lists every type of the graph exactly once, each after all
  the types it depends on.
\<close>

theorem resolve_order_topological:
  assumes "set order = set (all_types g)"
  shows "(\<exists>res. ResolveOrder g order = Inr res \<and> acyclic (edges g) \<and> distinct res \<and> set res = set (all_types g) \<and> deps_first g res) \<or>
    (\<exists>n. ResolveOrder g order = Inl (cycle_error n) \<and> (n, n) \<in> (edges g)\<^sup>+)"
proof (cases "visits g order [] ([], [])")
  case (Inl e)
  then show ?thesis using visits_error [OF Inl] by (auto simp: ResolveOrder_def)
next
  case (Inr p)
  obtain v res where p: "p = (v, res)" by (cases p)
  have "distinct res" "deps_first g res" "set res = set (all_types g)"
    using visits_result [OF Inr [unfolded p]] assms by (auto simp: deps_first_def)
  then show ?thesis using deps_first_acyclic [of g res] Inr p by (simp add: ResolveOrder_def)
qed

definition default_graph :: dependency_graph where
  "default_graph = registry_graph registry_descriptors"

lemma default_graph_eq: "default_graph = [(''list_items'', [''lists'']), (''ruleset_rules'', [''rulesets''])]"
  by (simp add: default_graph_def registry_graph_def registry_descriptors_def AddLink_def graph_deps_def)

theorem resolve_order_topological_witness:
  "ResolveOrder default_graph [''ruleset_rules'', ''lists'', ''list_items'', ''rulesets''] = Inr [''rulesets'', ''ruleset_rules'', ''lists'', ''list_items''] \<and>
   acyclic (edges default_graph)"
proof -
  have order: "set [''ruleset_rules'', ''lists'', ''list_items'', ''rulesets''] = set (all_types default_graph)"
    by (auto simp: default_graph_eq all_types_def)
  have run: "ResolveOrder default_graph [''ruleset_rules'', ''lists'', ''list_items'', ''rulesets''] = Inr [''rulesets'', ''ruleset_rules'', ''lists'', ''list_items'']"
    by (simp add: ResolveOrder_def default_graph_eq graph_deps_def)
  then show ?thesis using resolve_order_topological [OF order] by auto
qed

text \<open>The types without a link are not in the graph: no order that the assembler of the registry works with has the access rules, so
  that \<open>Add\<close> refuses their objects.\<close>

lemma access_rules_left_out:
  assumes "set order = set (all_types default_graph)" and "NewGraphAssembler registry_descriptors order = Inr res"
  shows "''ip_access_rules'' \<notin> set res"
proof -
  have "ResolveOrder default_graph order = Inr res" using assms(2) by (simp add: NewGraphAssembler_def default_graph_def split: sum.splits)
  then have "set res = set (all_types default_graph)"
    using visits_result [of default_graph order "[]" "[]" "[]"] assms(1) by (auto simp: ResolveOrder_def deps_first_def split: sum.splits prod.splits)
  then show ?thesis by (simp add: default_graph_eq all_types_def)
qed

end
