(* ===== verification/Assembly.thy ===== *)
theory Assembly
  imports Snapshot_Graph Planner "HOL-Library.Multiset"
begin

text \<open>
  From what a provider lists to checked actions: the normaliser of \<open>internal/cloudflare/normalize\<close>, the assembler of snapshots of
  \<open>internal/snapshot/builder\<close> and its composition over the dependency graph in \<open>internal/snapshot/builder/multi\<close>, the checks of
  \<open>internal/runtime/invariants\<close> and \<open>internal/runtime/convergence\<close>, and the translation of a plan for CrowdSec with its
  validation, \<open>internal/crowdsec/translator\<close> and \<open>internal/crowdsec/validation\<close>.
\<close>

section \<open>Normalised objects\<close>

record access_rule =
  ar_ID :: string
  ar_Mode :: string
  ar_Notes :: string
  ar_Target :: string
  ar_Value :: string

definition IPAccessRules :: "access_rule list \<Rightarrow> normalized_object list" where
  "IPAccessRules rules = map (\<lambda>r.
     \<lparr>no_ObjectID = ar_ID r, no_ObjectType = ''ip_access_rules'', no_StableIdentityKey = ''ip:'' @ ar_Target r @ '':'' @ ar_Value r @ '':'' @ ar_Mode r,
      no_Attributes = [(''mode'', AString (ar_Mode r)), (''notes'', AString (ar_Notes r)),
        (''configuration'', AMap [(''target'', AString (ar_Target r)), (''value'', AString (ar_Value r))])]\<rparr>) rules"

record firewall_list =
  fl_ID :: string
  fl_Name :: string
  fl_Description :: string
  fl_Kind :: string

definition FirewallLists :: "firewall_list list \<Rightarrow> normalized_object list" where
  "FirewallLists ls = map (\<lambda>l.
     \<lparr>no_ObjectID = fl_ID l, no_ObjectType = ''lists'', no_StableIdentityKey = ''list:'' @ fl_Name l,
      no_Attributes = [(''name'', AString (fl_Name l)), (''description'', AString (fl_Description l)), (''kind'', AString (fl_Kind l))]\<rparr>) ls"

record firewall_list_item =
  fi_ID :: string
  fi_IP :: string
  fi_Comment :: string

definition FirewallListItems :: "firewall_list_item list \<Rightarrow> normalized_object list" where
  "FirewallListItems items = map (\<lambda>i.
     \<lparr>no_ObjectID = fi_ID i, no_ObjectType = ''list_items'', no_StableIdentityKey = ''list_item:'' @ fi_IP i,
      no_Attributes = [(''ip'', AString (fi_IP i)), (''comment'', AString (fi_Comment i))]\<rparr>) items"

record cf_ruleset =
  rs_ID :: string
  rs_Name :: string
  rs_Description :: string
  rs_Kind :: string
  rs_Phase :: string

definition Rulesets :: "cf_ruleset list \<Rightarrow> normalized_object list" where
  "Rulesets rulesets = map (\<lambda>rs.
     \<lparr>no_ObjectID = rs_ID rs, no_ObjectType = ''rulesets'', no_StableIdentityKey = ''ruleset:'' @ rs_Phase rs @ '':'' @ rs_Name rs,
      no_Attributes = [(''name'', AString (rs_Name rs)), (''description'', AString (rs_Description rs)), (''kind'', AString (rs_Kind rs)), (''phase'', AString (rs_Phase rs))]\<rparr>) rulesets"

record ruleset_rule =
  rr_ID :: string
  rr_Action :: string
  rr_ActionParameters :: go_any
  rr_Expression :: string
  rr_Description :: string
  rr_Enabled :: bool
  rr_Ref :: string

definition rule_key :: "string \<Rightarrow> nat \<Rightarrow> ruleset_rule \<Rightarrow> string" where
  "rule_key rulesetID i r = (if rr_Ref r \<noteq> [] then ''rule:'' @ rulesetID @ '':'' @ rr_Ref r else ''rule:'' @ rulesetID @ '':'' @ show_nat i @ '':'' @ rr_Action r)"

definition RulesetRules :: "string \<Rightarrow> ruleset_rule list \<Rightarrow> normalized_object list" where
  "RulesetRules rulesetID rules = map (\<lambda>(i, r).
     \<lparr>no_ObjectID = rr_ID r, no_ObjectType = ''ruleset_rules'', no_StableIdentityKey = rule_key rulesetID i r,
      no_Attributes = [(''action'', AString (rr_Action r)), (''expression'', AString (rr_Expression r)), (''description'', AString (rr_Description r)),
        (''enabled'', ABool (rr_Enabled r)), (''action_parameters'', rr_ActionParameters r), (''ref'', AString (rr_Ref r))]\<rparr>) (List.enumerate 0 rules)"

section \<open>The assembler\<close>

text \<open>An object with what was noted when it was captured.\<close>

record captured_object = normalized_object +
  co_SourcePage :: int
  co_CapturedAt :: go_time
  co_SchemaVersion :: int

definition captured :: "normalized_object \<Rightarrow> captured_object" where
  "captured obj = normalized_object.extend obj (captured_object.fields 0 0 0)"

record snapshot_source =
  ss_Provider :: string
  ss_Endpoint :: string
  ss_APIVersion :: string
  ss_CaptureMode :: string

record scope_metadata =
  sc_AccountIDHash :: string
  sc_ZoneIDHash :: string
  sc_ScopeType :: string

record pagination_metadata =
  pg_Paginated :: bool
  pg_PageCount :: int
  pg_TotalExpected :: int
  pg_TotalObserved :: int
  pg_SequenceComplete :: bool
  pg_CursorChain :: "string list"

record provenance_metadata =
  pv_FixtureID :: string
  pv_ReplayID :: string
  pv_GeneratedBy :: string
  pv_GeneratedAt :: go_time

record assembler =
  al_snapshotID :: string
  al_resourceType :: string
  al_source :: snapshot_source
  al_scope :: scope_metadata
  al_pagination :: pagination_metadata
  al_provenance :: provenance_metadata
  al_objects :: "string \<rightharpoonup> captured_object"
  al_keys :: "string list"
  al_createdAt :: go_time

text \<open>The keys of the map are kept beside it, in the order of their insertion; the code only ranges over them to sort them.\<close>

definition no_source :: snapshot_source where "no_source = \<lparr>ss_Provider = [], ss_Endpoint = [], ss_APIVersion = [], ss_CaptureMode = []\<rparr>"
definition no_scope :: scope_metadata where "no_scope = \<lparr>sc_AccountIDHash = [], sc_ZoneIDHash = [], sc_ScopeType = []\<rparr>"
definition no_pagination :: pagination_metadata where
  "no_pagination = \<lparr>pg_Paginated = False, pg_PageCount = 0, pg_TotalExpected = 0, pg_TotalObserved = 0, pg_SequenceComplete = False, pg_CursorChain = []\<rparr>"
definition no_provenance :: provenance_metadata where "no_provenance = \<lparr>pv_FixtureID = [], pv_ReplayID = [], pv_GeneratedBy = [], pv_GeneratedAt = 0\<rparr>"

definition NewAssembler :: "string \<Rightarrow> go_time \<Rightarrow> assembler" where
  "NewAssembler rt now =
     \<lparr>al_snapshotID = [], al_resourceType = rt, al_source = no_source, al_scope = no_scope, al_pagination = no_pagination, al_provenance = no_provenance,
      al_objects = Map.empty, al_keys = [], al_createdAt = now\<rparr>"

definition assembler_SetMetadata ::
  "string \<Rightarrow> snapshot_source \<Rightarrow> scope_metadata \<Rightarrow> pagination_metadata \<Rightarrow> provenance_metadata \<Rightarrow> assembler \<Rightarrow> assembler" where
  "assembler_SetMetadata i source scope pagination provenance a =
     a\<lparr>al_snapshotID := i, al_source := source, al_scope := scope, al_pagination := pagination, al_provenance := provenance\<rparr>"

definition assembler_SetCreatedAt :: "go_time \<Rightarrow> assembler \<Rightarrow> assembler" where
  "assembler_SetCreatedAt t a = a\<lparr>al_createdAt := t\<rparr>"

text \<open>The objects before one that is refused stay in the assembler.\<close>

fun assembler_Add :: "captured_object list \<Rightarrow> assembler \<Rightarrow> unit result \<times> assembler" where
  "assembler_Add [] a = (Inr (), a)"
| "assembler_Add (obj # objs) a =
     (let op = ''snapshot.builder.Assembler.Add''; k = no_StableIdentityKey obj in
      if k = [] then (Inl (New op ''object missing StableIdentityKey''), a)
      else if al_objects a k \<noteq> None then (Inl (New op (''duplicate StableIdentityKey detected: '' @ k)), a)
      else assembler_Add objs (a\<lparr>al_objects := (al_objects a)(k \<mapsto> obj), al_keys := al_keys a @ [k]\<rparr>))"

section \<open>Snapshots\<close>

record full_snapshot =
  fs_SnapshotID :: string
  fs_CreatedAt :: go_time
  fs_Source :: snapshot_source
  fs_ResourceType :: string
  fs_Scope :: scope_metadata
  fs_Pagination :: pagination_metadata
  fs_Objects :: "captured_object list"
  fs_SnapshotChecksum :: string
  fs_CanonicalHash :: string
  fs_ObjectHashes :: "string list"
  fs_Provenance :: provenance_metadata

text \<open>The JSON of a structure, which \<open>CanonicalJSON\<close> leaves to the encoder.\<close>

definition json_of_object :: "captured_object \<Rightarrow> json" where
  "json_of_object obj =
     JObj [(''object_id'', JStr (no_ObjectID obj)), (''object_type'', JStr (no_ObjectType obj)), (''stable_identity_key'', JStr (no_StableIdentityKey obj)),
       (''attributes'', json_of_metadata (no_Attributes obj)),
       (''metadata'', JObj [(''source_page'', JNum (co_SourcePage obj)), (''captured_at'', JTime (co_CapturedAt obj)), (''schema_version'', JNum (co_SchemaVersion obj))])]"

definition json_of_snapshot :: "full_snapshot \<Rightarrow> json" where
  "json_of_snapshot s =
     (let src = fs_Source s; sc = fs_Scope s; pg = fs_Pagination s; pv = fs_Provenance s in
      JObj [(''snapshot_id'', JStr (fs_SnapshotID s)), (''snapshot_version'', JNum 1), (''created_at'', JTime (fs_CreatedAt s)),
        (''source'', JObj [(''provider'', JStr (ss_Provider src)), (''endpoint'', JStr (ss_Endpoint src)), (''api_version'', JStr (ss_APIVersion src)),
           (''capture_mode'', JStr (ss_CaptureMode src))]),
        (''resource_type'', JStr (fs_ResourceType s)),
        (''scope'', JObj [(''account_id_hash'', JStr (sc_AccountIDHash sc)), (''zone_id_hash'', JStr (sc_ZoneIDHash sc)), (''scope_type'', JStr (sc_ScopeType sc))]),
        (''pagination'', JObj ([(''paginated'', JBool (pg_Paginated pg)), (''page_count'', JNum (pg_PageCount pg)), (''total_expected'', JNum (pg_TotalExpected pg)),
           (''total_observed'', JNum (pg_TotalObserved pg)), (''sequence_complete'', JBool (pg_SequenceComplete pg))] @
           omitempty (pg_CursorChain pg = []) ''cursor_chain'' (JArr (map JStr (pg_CursorChain pg))))),
        (''collection'', JObj [(''object_count'', JNum (int (length (fs_Objects s)))), (''objects'', JArr (map json_of_object (fs_Objects s)))]),
        (''integrity'', JObj [(''snapshot_checksum'', JStr (fs_SnapshotChecksum s)), (''canonical_hash'', JStr (fs_CanonicalHash s)),
           (''object_hashes'', if fs_ObjectHashes s = [] then JNull else JArr (map JStr (fs_ObjectHashes s)))]),
        (''provenance'', JObj (omitempty (pv_FixtureID pv = []) ''fixture_id'' (JStr (pv_FixtureID pv)) @ omitempty (pv_ReplayID pv = []) ''replay_id'' (JStr (pv_ReplayID pv)) @
           [(''generated_by'', JStr (pv_GeneratedBy pv)), (''generated_at'', JTime (pv_GeneratedAt pv))]))])"

definition calculateIntegrity :: "full_snapshot \<Rightarrow> full_snapshot" where
  "calculateIntegrity s =
     s\<lparr>fs_SnapshotChecksum := sha256_hex (json_text (json_of_snapshot s)),
       fs_CanonicalHash := sha256_hex (json_text (JObj [(''resource_type'', JStr (fs_ResourceType s)), (''objects'', JArr (map json_of_object (fs_Objects s)))])),
       fs_ObjectHashes := map (\<lambda>obj. sha256_hex (CanonicalJSON (AMap (no_Attributes obj)) @ no_StableIdentityKey obj)) (fs_Objects s)\<rparr>"

definition assembler_Build :: "assembler \<Rightarrow> full_snapshot" where
  "assembler_Build a =
     (let snap = calculateIntegrity
        \<lparr>fs_SnapshotID = al_snapshotID a, fs_CreatedAt = al_createdAt a, fs_Source = al_source a, fs_ResourceType = al_resourceType a, fs_Scope = al_scope a,
         fs_Pagination = al_pagination a, fs_Objects = map (\<lambda>k. the (al_objects a k)) (sort (al_keys a)), fs_SnapshotChecksum = [], fs_CanonicalHash = [], fs_ObjectHashes = [],
         fs_Provenance = al_provenance a\<rparr>
      in if fs_SnapshotID snap = [] then snap\<lparr>fs_SnapshotID := ''snap-'' @ take 16 (fs_SnapshotChecksum snap)\<rparr> else snap)"

text \<open>The snapshot as the planner and the checks read it.\<close>

definition plain_snapshot :: "full_snapshot \<Rightarrow> snapshot" where
  "plain_snapshot s = \<lparr>sn_SnapshotID = fs_SnapshotID s, sn_Objects = map normalized_object.truncate (fs_Objects s), sn_SnapshotChecksum = fs_SnapshotChecksum s\<rparr>"

section \<open>Several resource types\<close>

record graph_assembler =
  ga_builders :: "string \<rightharpoonup> assembler"
  ga_order :: "string list"
  ga_provenance :: provenance_metadata
  ga_createdAt :: go_time

text \<open>Every assembler reads the clock when it is made; the times are a parameter.\<close>

definition new_graph_assembler :: "string list \<Rightarrow> (string \<Rightarrow> go_time) \<Rightarrow> go_time \<Rightarrow> graph_assembler" where
  "new_graph_assembler order started now =
     \<lparr>ga_builders = map_of (map (\<lambda>rt. (rt, NewAssembler rt (started rt))) order), ga_order = order, ga_provenance = no_provenance, ga_createdAt = now\<rparr>"

definition graph_SetMetadata :: "provenance_metadata \<Rightarrow> graph_assembler \<Rightarrow> graph_assembler" where
  "graph_SetMetadata prov ga = ga\<lparr>ga_provenance := prov\<rparr>"

definition graph_SetCreatedAt :: "go_time \<Rightarrow> graph_assembler \<Rightarrow> graph_assembler" where
  "graph_SetCreatedAt t ga = ga\<lparr>ga_createdAt := t, ga_builders := (\<lambda>rt. map_option (assembler_SetCreatedAt t) (ga_builders ga rt))\<rparr>"

definition graph_Add :: "string \<Rightarrow> captured_object list \<Rightarrow> graph_assembler \<Rightarrow> unit result \<times> graph_assembler" where
  "graph_Add rt objs ga =
     (case ga_builders ga rt of
        None \<Rightarrow> (Inl (New ''snapshot.builder.multi.GraphAssembler.Add'' (''unsupported resource type: '' @ rt)), ga)
      | Some b \<Rightarrow> let (r, b1) = assembler_Add objs b in (r, ga\<lparr>ga_builders := (ga_builders ga)(rt \<mapsto> b1)\<rparr>))"

definition graph_BuildAll :: "graph_assembler \<Rightarrow> full_snapshot list" where
  "graph_BuildAll ga = map (\<lambda>rt. assembler_Build (the (ga_builders ga rt))) (ga_order ga)"

section \<open>Checks\<close>

record violation =
  vl_Type :: string
  vl_Description :: string
  vl_Resource :: string

fun duplicate_keys :: "string list \<Rightarrow> normalized_object list \<Rightarrow> violation list" where
  "duplicate_keys seen [] = []"
| "duplicate_keys seen (obj # objs) =
     (let k = no_StableIdentityKey obj in
      (if k \<in> set seen then [\<lparr>vl_Type = ''stable_id_conflict'', vl_Description = ''duplicate stable identity key detected'', vl_Resource = k\<rparr>] else []) @
      duplicate_keys (k # seen) objs)"

fun duplicate_ids :: "(string \<rightharpoonup> string) \<Rightarrow> normalized_object list \<Rightarrow> violation list" where
  "duplicate_ids seen [] = []"
| "duplicate_ids seen (obj # objs) =
     (if no_ObjectID obj = [] then duplicate_ids seen objs
      else (case seen (no_ObjectID obj) of
              None \<Rightarrow> []
            | Some other \<Rightarrow> [\<lparr>vl_Type = ''resource_uniqueness'', vl_Description = ''duplicate provider object ID detected for different SIKs: '' @ other,
                vl_Resource = no_StableIdentityKey obj\<rparr>]) @
        duplicate_ids (seen(no_ObjectID obj \<mapsto> no_StableIdentityKey obj)) objs)"

definition invariants_Validate :: "snapshot option \<Rightarrow> violation list" where
  "invariants_Validate snap =
     (case snap of
        None \<Rightarrow> [\<lparr>vl_Type = ''graph_integrity'', vl_Description = ''snapshot is required'', vl_Resource = []\<rparr>]
      | Some s \<Rightarrow> duplicate_keys [] (sn_Objects s) @ duplicate_ids Map.empty (sn_Objects s))"

record validation_result =
  vd_Converged :: bool
  vd_Violations :: "violation list"
  vd_Snapshot :: "snapshot option"

definition convergence_Validate :: "snapshot option \<Rightarrow> snapshot option \<Rightarrow> validation_result" where
  "convergence_Validate target current =
     (let violations = invariants_Validate current;
          res = \<lparr>vd_Converged = (violations = []), vd_Violations = violations, vd_Snapshot = current\<rparr> in
      case current of
        None \<Rightarrow> res
      | Some c \<Rightarrow> (case target of
           Some t \<Rightarrow> if sn_SnapshotChecksum c \<noteq> sn_SnapshotChecksum t then res\<lparr>vd_Converged := False\<rparr> else res
         | None \<Rightarrow> res))"

section \<open>Actions for CrowdSec\<close>

record crowdsec_action =
  ca_ExecutionID :: string
  ca_Type :: string
  ca_StableIdentityKey :: string
  ca_Scope :: string
  ca_Value :: string
  ca_Duration :: string
  ca_Reason :: string
  ca_Scenario :: string
  ca_OriginatingOpID :: string
  ca_Provenance :: provenance_metadata
  ca_CreatedAt :: go_time

definition deriveExecutionID :: "crowdsec_action \<Rightarrow> string" where
  "deriveExecutionID a = ''exec-'' @ take 16 (sha256_hex (ca_Type a @ '':'' @ ca_StableIdentityKey a @ '':'' @ ca_OriginatingOpID a))"

text \<open>The member of a map that should be a string or a map; anything else is the zero value.\<close>

definition string_member :: "string \<Rightarrow> metadata \<Rightarrow> string" where
  "string_member k m = (case map_of m k of Some (AString s) \<Rightarrow> s | _ \<Rightarrow> [])"

definition map_member :: "string \<Rightarrow> metadata \<Rightarrow> metadata" where
  "map_member k m = (case map_of m k of Some (AMap ms) \<Rightarrow> ms | _ \<Rightarrow> [])"

definition mapPayload :: "operation \<Rightarrow> crowdsec_action \<Rightarrow> crowdsec_action result" where
  "mapPayload op a =
     (let mop = ''crowdsec.translator.mapPayload'' in
      case op_Payload op of
        None \<Rightarrow> Inl (New mop ''payload is not a map'')
      | Some payload \<Rightarrow>
          if op_ResourceType op = ''ip_access_rules'' then
            let config = map_member ''configuration'' payload in
            Inr (a\<lparr>ca_Scope := string_member ''target'' config, ca_Value := string_member ''value'' config,
              ca_Reason := ''synchronized from Cloudflare access rule'', ca_Scenario := ''manual-sync'', ca_Duration := ''24h''\<rparr>)
          else Inl (New mop (''unsupported resource type: '' @ op_ResourceType op)))"

definition mapIdentity :: "operation \<Rightarrow> crowdsec_action \<Rightarrow> crowdsec_action" where
  "mapIdentity op a = a\<lparr>ca_Value := op_TargetID op\<rparr>"

definition translateOperation :: "operation \<Rightarrow> provenance_metadata \<Rightarrow> go_time \<Rightarrow> crowdsec_action result" where
  "translateOperation op provenance now =
     (let top = ''crowdsec.translator.translateOperation'';
          a = \<lparr>ca_ExecutionID = [], ca_Type = [], ca_StableIdentityKey = op_TargetID op, ca_Scope = [], ca_Value = [], ca_Duration = [], ca_Reason = [], ca_Scenario = [],
               ca_OriginatingOpID = op_OperationID op, ca_Provenance = provenance, ca_CreatedAt = now\<rparr>;
          finish = (\<lambda>x. x\<lparr>ca_ExecutionID := deriveExecutionID x\<rparr>) in
      if op_Type op = OpCreate then
        (case mapPayload op (a\<lparr>ca_Type := ''add_decision''\<rparr>) of Inl e \<Rightarrow> Inl (wrap_err top e) | Inr x \<Rightarrow> Inr (finish x))
      else if op_Type op = OpDelete then Inr (finish (mapIdentity op (a\<lparr>ca_Type := ''delete_decision''\<rparr>)))
      else if op_Type op = OpUpdate then Inl (New top ''update operations not yet supported for CrowdSec'')
      else Inl (New top (''unsupported operation type: '' @ op_Type op)))"

fun translate_operations :: "operation list \<Rightarrow> provenance_metadata \<Rightarrow> 'z io_env_scheme \<Rightarrow> crowdsec_action list result \<times> 'z io_env_scheme" where
  "translate_operations [] prov w = (Inr [], w)"
| "translate_operations (op # ops) prov w =
     (let (now, w1) = time_Now w in
      case translateOperation op prov now of
        Inl e \<Rightarrow> (Inl (AppErr ''crowdsec.translator.Translate'' (''failed to translate operation '' @ op_OperationID op) (Some e)), w1)
      | Inr a \<Rightarrow> (case translate_operations ops prov w1 of (Inl e, w2) \<Rightarrow> (Inl e, w2) | (Inr as, w2) \<Rightarrow> (Inr (a # as), w2)))"

definition crowdsec_Translate :: "plan option \<Rightarrow> provenance_metadata \<Rightarrow> 'z io_env_scheme \<Rightarrow> crowdsec_action list result \<times> 'z io_env_scheme" where
  "crowdsec_Translate p prov w =
     (case p of
        None \<Rightarrow> (Inl (New ''crowdsec.translator.Translate'' ''plan is required''), w)
      | Some pl \<Rightarrow> (case translate_operations (pl_Operations pl) prov w of
          (Inl e, w1) \<Rightarrow> (Inl e, w1)
        | (Inr as, w1) \<Rightarrow> (Inr (sort_key (\<lambda>a. (ca_Type a, ca_StableIdentityKey a)) as), w1)))"

definition ValidateSingle :: "crowdsec_action \<Rightarrow> unit result" where
  "ValidateSingle a =
     (let op = ''crowdsec.validation.ValidateSingle'' in
      if ca_ExecutionID a = [] then Inl (New op ''missing ExecutionID'')
      else if ca_Type a = [] then Inl (New op ''missing ActionType'')
      else if ca_StableIdentityKey a = [] then Inl (New op ''missing StableIdentityKey'')
      else if ca_Value a = [] then Inl (New op ''missing target Value (IP/CIDR)'')
      else if ca_Type a = ''add_decision'' \<and> ca_Scope a = [] then Inl (New op ''missing Scope for addition'')
      else Inr ())"

fun validate_actions :: "string list \<Rightarrow> crowdsec_action list \<Rightarrow> unit result" where
  "validate_actions seen [] = Inr ()"
| "validate_actions seen (a # as) =
     (let op = ''crowdsec.validation.Validate''; key = ca_Type a @ '':'' @ ca_StableIdentityKey a in
      case ValidateSingle a of
        Inl e \<Rightarrow> Inl (AppErr op (''validation failed for execution '' @ ca_ExecutionID a) (Some e))
      | Inr _ \<Rightarrow> if key \<in> set seen then Inl (New op (''duplicate action detected in batch: '' @ key)) else validate_actions (key # seen) as)"

definition crowdsec_Validate :: "crowdsec_action list \<Rightarrow> unit result" where
  "crowdsec_Validate as = validate_actions [] as"

section \<open>What the assembler builds\<close>

abbreviation identity_keys :: "captured_object list \<Rightarrow> string list" where
  "identity_keys objs \<equiv> map no_StableIdentityKey objs"

definition addable :: "captured_object list \<Rightarrow> bool" where
  "addable objs \<longleftrightarrow> [] \<notin> set (identity_keys objs) \<and> distinct (identity_keys objs)"

lemma Add_all:
  assumes "addable objs" and "set (identity_keys objs) \<inter> dom (al_objects a) = {}"
  shows "assembler_Add objs a = (Inr (), a\<lparr>al_objects := al_objects a ++ map_of (map (\<lambda>obj. (no_StableIdentityKey obj, obj)) objs), al_keys := al_keys a @ identity_keys objs\<rparr>)"
  using assms
proof (induction objs arbitrary: a)
  case (Cons obj objs)
  let ?k = "no_StableIdentityKey obj" and ?f = "map_of (map (\<lambda>obj. (no_StableIdentityKey obj, obj)) objs)"
  have head: "?k \<noteq> []" "al_objects a ?k = None" "addable objs" "?k \<notin> set (identity_keys objs)" using Cons.prems by (auto simp: addable_def domIff)
  have "?f ?k = None" using head(4) by (simp add: map_of_eq_None_iff image_image)
  then have "(al_objects a)(?k \<mapsto> obj) ++ ?f = al_objects a ++ ?f(?k \<mapsto> obj)"
    by (auto simp: fun_eq_iff map_add_def split: option.split)
  moreover have "set (identity_keys objs) \<inter> dom ((al_objects a)(?k \<mapsto> obj)) = {}" using Cons.prems head(4) by auto
  moreover have "al_objects (a\<lparr>al_objects := (al_objects a)(?k \<mapsto> obj), al_keys := al_keys a @ [?k]\<rparr>) = (al_objects a)(?k \<mapsto> obj)" by simp
  ultimately have "assembler_Add objs (a\<lparr>al_objects := (al_objects a)(?k \<mapsto> obj), al_keys := al_keys a @ [?k]\<rparr>) =
      (Inr (), a\<lparr>al_objects := al_objects a ++ ?f(?k \<mapsto> obj), al_keys := (al_keys a @ [?k]) @ identity_keys objs\<rparr>)"
    using Cons.IH [OF head(3), of "a\<lparr>al_objects := (al_objects a)(?k \<mapsto> obj), al_keys := al_keys a @ [?k]\<rparr>"] by (simp del: fun_upd_apply)
  then show ?case using head(1,2) by (simp add: Let_def del: fun_upd_apply)
qed simp

lemma Add_refuses:
  assumes "\<not> (addable objs \<and> set (identity_keys objs) \<inter> dom (al_objects a) = {})"
  shows "\<exists>e. fst (assembler_Add objs a) = Inl e"
  using assms
proof (induction objs arbitrary: a)
  case (Cons obj objs)
  let ?k = "no_StableIdentityKey obj"
  show ?case
  proof (cases "?k = [] \<or> al_objects a ?k \<noteq> None")
    case True
    then show ?thesis by (auto simp: Let_def)
  next
    case False
    then have "\<not> (addable objs \<and> set (identity_keys objs) \<inter> dom ((al_objects a)(?k \<mapsto> obj)) = {})"
      using Cons.prems by (auto simp: addable_def domIff)
    then have "\<exists>e. fst (assembler_Add objs (a\<lparr>al_objects := (al_objects a)(?k \<mapsto> obj), al_keys := al_keys a @ [?k]\<rparr>)) = Inl e"
      by (intro Cons.IH) (simp del: fun_upd_apply)
    then show ?thesis using False by (simp add: Let_def)
  qed
qed (simp add: addable_def)

lemma sort_key_distinct:
  fixes f :: "'a \<Rightarrow> 'b :: linorder"
  assumes "distinct (map f xs)"
  shows "map (\<lambda>k. the (map_of (map (\<lambda>x. (f x, x)) xs) k)) (sort (map f xs)) = sort_key f xs"
proof -
  have "map f (sort_key f xs) = sort (map f xs)" by (rule properties_for_sort [symmetric]) simp_all
  moreover have "the (map_of (map (\<lambda>x. (f x, x)) xs) (f x)) = x" if "x \<in> set (sort_key f xs)" for x
    using that assms by (subst map_of_is_SomeI [where y = x]) (auto simp: o_def)
  ultimately show ?thesis by (metis (no_types, lifting) map_idI map_map comp_apply)
qed

lemma sort_key_permuted:
  fixes f :: "'a \<Rightarrow> 'b :: linorder"
  assumes "distinct (map f xs)" and "mset ys = mset xs"
  shows "sort_key f ys = sort_key f xs"
proof (rule sym, rule properties_for_sort_key)
  show "mset (sort_key f ys) = mset xs" using assms(2) by simp
  show "sorted (map f (sort_key f ys))" by simp
next
  fix k assume k: "k \<in> set (sort_key f ys)"
  have "filter (\<lambda>x. f k = f x) zs = [k]" if "distinct (map f zs)" "k \<in> set zs" for zs
    using that
  proof (induction zs)
    case (Cons z zs)
    then show ?case by (cases "k = z") (auto simp: filter_empty_conv image_iff)
  qed simp
  moreover have "k \<in> set xs" "distinct (map f (sort_key f ys))"
    using k assms mset_eq_setD [OF assms(2)] mset_eq_imp_distinct_iff [of "map f (sort_key f ys)" "map f xs"] by auto
  ultimately show "filter (\<lambda>x. f k = f x) (sort_key f ys) = filter (\<lambda>x. f k = f x) xs" using assms(1) k by simp
qed

lemma Build_objects [simp]: "fs_Objects (assembler_Build a) = map (\<lambda>k. the (al_objects a k)) (sort (al_keys a))"
  by (simp add: assembler_Build_def calculateIntegrity_def Let_def)

lemma duplicate_keys_none: "duplicate_keys seen objs = [] \<longleftrightarrow> distinct (map no_StableIdentityKey objs) \<and> set seen \<inter> set (map no_StableIdentityKey objs) = {}"
  by (induction objs arbitrary: seen) (auto simp: Let_def)

lemma truncated_key [simp]: "no_StableIdentityKey (normalized_object.truncate obj) = no_StableIdentityKey obj"
  by (simp add: normalized_object.truncate_def)

lemma duplicate_ids_type: "v \<in> set (duplicate_ids seen objs) \<Longrightarrow> vl_Type v = ''resource_uniqueness''"
  by (induction seen objs rule: duplicate_ids.induct) (auto split: if_splits option.splits)

lemma built_objects:
  assumes "addable objs"
  shows "fs_Objects (assembler_Build (snd (assembler_Add objs (NewAssembler rt now)))) = sort_key no_StableIdentityKey objs"
proof -
  have "assembler_Add objs (NewAssembler rt now) = (Inr (), (NewAssembler rt now)\<lparr>al_objects := al_objects (NewAssembler rt now) ++
      map_of (map (\<lambda>obj. (no_StableIdentityKey obj, obj)) objs), al_keys := al_keys (NewAssembler rt now) @ identity_keys objs\<rparr>)"
    by (rule Add_all [OF assms]) (simp add: NewAssembler_def)
  then show ?thesis using assms sort_key_distinct [of no_StableIdentityKey objs] by (simp add: NewAssembler_def addable_def)
qed

lemma Build_permuted:
  assumes "addable objs" and "mset objs' = mset objs"
  shows "assembler_Build (snd (assembler_Add objs' (NewAssembler rt now))) = assembler_Build (snd (assembler_Add objs (NewAssembler rt now)))"
proof -
  have ok: "addable objs'"
    using assms mset_eq_imp_distinct_iff [of "identity_keys objs'" "identity_keys objs"] mset_eq_setD [OF assms(2)] by (simp add: addable_def)
  have "sort_key no_StableIdentityKey objs' = sort_key no_StableIdentityKey objs" using assms by (intro sort_key_permuted) (simp_all add: addable_def)
  then have "fs_Objects (assembler_Build (snd (assembler_Add objs' (NewAssembler rt now)))) = fs_Objects (assembler_Build (snd (assembler_Add objs (NewAssembler rt now))))"
    by (simp only: built_objects [OF ok] built_objects [OF assms(1)])
  then have "map (\<lambda>k. the (al_objects (snd (assembler_Add objs' (NewAssembler rt now))) k)) (sort (al_keys (snd (assembler_Add objs' (NewAssembler rt now))))) =
      map (\<lambda>k. the (al_objects (snd (assembler_Add objs (NewAssembler rt now))) k)) (sort (al_keys (snd (assembler_Add objs (NewAssembler rt now)))))"
    by (simp only: Build_objects)
  moreover have "al_snapshotID (snd (assembler_Add os a)) = al_snapshotID a \<and> al_createdAt (snd (assembler_Add os a)) = al_createdAt a \<and>
      al_source (snd (assembler_Add os a)) = al_source a \<and> al_resourceType (snd (assembler_Add os a)) = al_resourceType a \<and>
      al_scope (snd (assembler_Add os a)) = al_scope a \<and> al_pagination (snd (assembler_Add os a)) = al_pagination a \<and>
      al_provenance (snd (assembler_Add os a)) = al_provenance a" for os a
    by (induction os a rule: assembler_Add.induct) (simp_all add: Let_def)
  ultimately show ?thesis unfolding assembler_Build_def by (simp only:)
qed

text \<open>
  What an assembler builds depends only on what was captured. Adding captured objects to a new assembler succeeds exactly when every object has an
  identity key and no two share one, and is refused with an error otherwise. When it succeeds, whatever the order in which pages listed the objects,
  the snapshot is the same one, checksums and hashes included; it holds exactly the captured objects, by strictly ascending identity key, and the
  invariants engine finds no conflict of identity keys in it.
\<close>

theorem assembled_snapshot:
  "case assembler_Add objs (NewAssembler rt now) of
     (Inl _, _) \<Rightarrow> [] \<in> set (identity_keys objs) \<or> \<not> distinct (identity_keys objs)
   | (Inr _, a) \<Rightarrow>
       [] \<notin> set (identity_keys objs) \<and> distinct (identity_keys objs) \<and>
       (\<forall>objs'. mset objs' = mset objs \<longrightarrow> assembler_Build (snd (assembler_Add objs' (NewAssembler rt now))) = assembler_Build a) \<and>
       sorted_wrt (<) (identity_keys (fs_Objects (assembler_Build a))) \<and> set (fs_Objects (assembler_Build a)) = set objs \<and>
       (\<forall>v \<in> set (invariants_Validate (Some (plain_snapshot (assembler_Build a)))). vl_Type v \<noteq> ''stable_id_conflict'')"
proof (cases "addable objs")
  case False
  then obtain e a where "assembler_Add objs (NewAssembler rt now) = (Inl e, a)"
    using Add_refuses [of objs "NewAssembler rt now"] by (metis prod.collapse)
  then show ?thesis using False by (simp add: addable_def)
next
  case True
  define a where "a = snd (assembler_Add objs (NewAssembler rt now))"
  have add: "assembler_Add objs (NewAssembler rt now) = (Inr (), a)"
    using Add_all [OF True, of "NewAssembler rt now"] by (simp add: a_def NewAssembler_def)
  have objs: "fs_Objects (assembler_Build a) = sort_key no_StableIdentityKey objs" unfolding a_def by (rule built_objects [OF True])
  have dist: "distinct (identity_keys (sort_key no_StableIdentityKey objs))"
    using True mset_eq_imp_distinct_iff [of "identity_keys (sort_key no_StableIdentityKey objs)" "identity_keys objs"] by (simp add: addable_def)
  have "duplicate_keys [] (sn_Objects (plain_snapshot (assembler_Build a))) = []"
    using dist unfolding duplicate_keys_none plain_snapshot_def by (simp add: objs o_def del: Build_objects)
  then have "vl_Type v \<noteq> ''stable_id_conflict''" if "v \<in> set (invariants_Validate (Some (plain_snapshot (assembler_Build a))))" for v
    using that duplicate_ids_type [of v] by (auto simp: invariants_Validate_def)
  moreover have "sorted_wrt (<) (identity_keys (fs_Objects (assembler_Build a)))"
    unfolding objs strict_sorted_iff using dist by simp
  moreover have "assembler_Build (snd (assembler_Add objs' (NewAssembler rt now))) = assembler_Build a" if "mset objs' = mset objs" for objs'
    unfolding a_def by (rule Build_permuted [OF True that])
  ultimately show ?thesis using True by (simp add: add objs addable_def del: Build_objects)
qed

definition sample_rules :: "access_rule list" where
  "sample_rules =
     [\<lparr>ar_ID = ''r1'', ar_Mode = ''block'', ar_Notes = [], ar_Target = ''ip'', ar_Value = ''203.0.113.7''\<rparr>,
      \<lparr>ar_ID = ''r2'', ar_Mode = ''block'', ar_Notes = [], ar_Target = ''ip'', ar_Value = ''198.51.100.4''\<rparr>]"

definition sample_capture :: "captured_object list" where
  "sample_capture = map captured (IPAccessRules sample_rules)"

lemma sample_keys: "identity_keys sample_capture = [''ip:ip:203.0.113.7:block'', ''ip:ip:198.51.100.4:block'']"
  by (simp add: sample_capture_def captured_def IPAccessRules_def sample_rules_def normalized_object.extend_def captured_object.fields_def)

theorem assembled_snapshot_witness:
  "assembler_Build (snd (assembler_Add (rev sample_capture) (NewAssembler ''ip_access_rules'' 7))) =
     assembler_Build (snd (assembler_Add sample_capture (NewAssembler ''ip_access_rules'' 7))) \<and>
   set (fs_Objects (assembler_Build (snd (assembler_Add sample_capture (NewAssembler ''ip_access_rules'' 7))))) = set sample_capture"
proof -
  have "addable sample_capture" unfolding addable_def sample_keys by simp
  then obtain a where a: "assembler_Add sample_capture (NewAssembler ''ip_access_rules'' 7) = (Inr (), a)"
    using Add_all [of sample_capture "NewAssembler ''ip_access_rules'' 7"] by (simp add: NewAssembler_def)
  have "mset (rev sample_capture) = mset sample_capture" by (rule mset_rev)
  then show ?thesis using assembled_snapshot [of sample_capture "''ip_access_rules''" 7] unfolding a prod.case sum.case snd_conv by blast
qed

section \<open>From a plan to actions\<close>

lemma plan_deletions_ops:
  "map op_TargetID (fst (plan_deletions tm objs w)) = filter (\<lambda>k. tm k = None) (map no_StableIdentityKey objs) \<and>
   (\<forall>op \<in> set (fst (plan_deletions tm objs w)). op_Type op = OpDelete)"
proof (induction objs arbitrary: w)
  case (Cons obj objs)
  let ?p = "planned OpDelete obj ''not present in target state'' None [] w"
  have p: "op_Type (fst ?p) = OpDelete" "op_TargetID (fst ?p) = no_StableIdentityKey obj" by (simp_all add: planned_def deriveOpID_def split_beta)
  show ?case
  proof (cases "tm (no_StableIdentityKey obj)")
    case None
    then have "fst (plan_deletions tm (obj # objs) w) = fst ?p # fst (plan_deletions tm objs (snd ?p))" by (simp add: split_beta)
    then show ?thesis using None p Cons.IH [of "snd ?p"] by simp
  next
    case (Some y)
    then show ?thesis using Cons.IH [of w] by simp
  qed
qed simp

definition creates :: "normalized_object \<Rightarrow> operation \<Rightarrow> bool" where
  "creates obj op \<longleftrightarrow> op_TargetID op = no_StableIdentityKey obj \<and> op_ResourceType op = no_ObjectType obj \<and> op_Payload op = Some (no_Attributes obj) \<and>
     (op_Type op = OpCreate \<or> op_Type op = OpUpdate)"

lemma planned_creates: "t = OpCreate \<or> t = OpUpdate \<Longrightarrow> creates obj (fst (planned t obj reason (Some (no_Attributes obj)) pre w))"
  by (simp add: creates_def planned_def deriveOpID_def split_beta)

lemma plan_changes_ops:
  "subseq (map op_TargetID (fst (plan_changes cm objs (w :: 'z io_env_scheme)))) (map no_StableIdentityKey objs) \<and>
   (\<forall>op \<in> set (fst (plan_changes cm objs w)). \<exists>obj \<in> set objs. creates obj op)"
proof (induction objs arbitrary: w)
  case (Cons obj objs)
  have step: "subseq (map op_TargetID (op # ops)) (map no_StableIdentityKey (obj # objs)) \<and> (\<forall>op' \<in> set (op # ops). \<exists>obj' \<in> set (obj # objs). creates obj' op')"
    if "creates obj op" "ops = fst (plan_changes cm objs (w1 :: 'z io_env_scheme))" for op ops w1
    using that(1) Cons.IH [of w1] unfolding that(2) by (auto simp: creates_def)
  show ?case
  proof (cases "cm (no_StableIdentityKey obj)")
    case None
    let ?p = "planned OpCreate obj ''present in target but not in current state'' (Some (no_Attributes obj)) [] w"
    have "fst (plan_changes cm (obj # objs) w) = fst ?p # fst (plan_changes cm objs (snd ?p))" using None by (simp add: split_beta)
    then show ?thesis using step [OF planned_creates refl] by (simp only:) blast
  next
    case (Some old)
    let ?p = "planned OpUpdate obj ''attributes differ between current and target state'' (Some (no_Attributes obj)) (no_Attributes old) w"
    show ?thesis
    proof (cases "attributesEqual (no_Attributes old) (no_Attributes obj)")
      case True
      then have "fst (plan_changes cm (obj # objs) w) = fst (plan_changes cm objs w)" using Some by simp
      then show ?thesis using Cons.IH [of w] by auto
    next
      case False
      have "fst (plan_changes cm (obj # objs) w) = fst ?p # fst (plan_changes cm objs (snd ?p))" using Some False by (simp add: split_beta)
      then show ?thesis using step [OF planned_creates refl] by (simp only:) blast
    qed
  qed
qed simp

text \<open>What a translation reads of an operation, and what it makes of it.\<close>

definition action_type :: "operation \<Rightarrow> string" where
  "action_type op = (if op_Type op = OpDelete then ''delete_decision'' else ''add_decision'')"

definition translatable :: "operation \<Rightarrow> bool" where
  "translatable op \<longleftrightarrow> op_TargetID op \<noteq> [] \<and> (op_Type op = OpDelete \<or> op_Type op = OpCreate \<and> op_ResourceType op = ''ip_access_rules'' \<and>
     (\<exists>m. op_Payload op = Some m \<and> string_member ''target'' (map_member ''configuration'' m) \<noteq> [] \<and> string_member ''value'' (map_member ''configuration'' m) \<noteq> []))"

lemma deriveExecutionID_some [simp]: "deriveExecutionID a \<noteq> []"
  by (simp add: deriveExecutionID_def)

lemma translate_one:
  assumes "translatable op"
  shows "\<exists>a. translateOperation op prov now = Inr a \<and> ca_Type a = action_type op \<and> ca_StableIdentityKey a = op_TargetID op \<and> ValidateSingle a = Inr ()"
proof (cases "op_Type op = OpDelete")
  case True
  then show ?thesis using assms by (simp add: translatable_def translateOperation_def action_type_def op_type_defs ValidateSingle_def mapIdentity_def Let_def)
next
  case False
  then obtain m where "op_Type op = OpCreate" "op_ResourceType op = ''ip_access_rules''" "op_Payload op = Some m"
      "string_member ''target'' (map_member ''configuration'' m) \<noteq> []" "string_member ''value'' (map_member ''configuration'' m) \<noteq> []" "op_TargetID op \<noteq> []"
    using assms by (auto simp: translatable_def)
  then show ?thesis by (simp add: translateOperation_def mapPayload_def action_type_def op_type_defs ValidateSingle_def Let_def)
qed

lemma translate_all:
  assumes "\<And>op. op \<in> set ops \<Longrightarrow> translatable op"
  shows "\<exists>as w'. translate_operations ops prov w = (Inr as, w') \<and> map (\<lambda>a. (ca_Type a, ca_StableIdentityKey a)) as = map (\<lambda>op. (action_type op, op_TargetID op)) ops \<and>
    (\<forall>a \<in> set as. ValidateSingle a = Inr ())"
  using assms
proof (induction ops arbitrary: w)
  case (Cons op ops)
  obtain now w1 where now: "time_Now w = (now, w1)" by (cases "time_Now w")
  obtain a where "translateOperation op prov now = Inr a" "ca_Type a = action_type op" "ca_StableIdentityKey a = op_TargetID op" "ValidateSingle a = Inr ()"
    using translate_one [of op prov now] Cons.prems by auto
  moreover obtain as w' where "translate_operations ops prov w1 = (Inr as, w')"
      "map (\<lambda>a. (ca_Type a, ca_StableIdentityKey a)) as = map (\<lambda>op. (action_type op, op_TargetID op)) ops" "\<forall>a \<in> set as. ValidateSingle a = Inr ()"
    using Cons.IH [of w1] Cons.prems by (meson list.set_intros(2))
  ultimately show ?case by (intro exI [of _ "a # as"] exI [of _ w']) (simp add: now)
qed simp

lemma distinct_joined:
  assumes "\<And>a. a \<in> set as \<Longrightarrow> f a = ''delete_decision'' \<or> f a = ''add_decision''" and "distinct (map (\<lambda>a. (f a, g a)) as)"
  shows "distinct (map (\<lambda>a. f a @ '':'' @ g a) as)"
  using assms
proof (induction as)
  case (Cons a as)
  have "f a @ '':'' @ g a \<noteq> f b @ '':'' @ g b" if b: "b \<in> set as" for b
  proof -
    have "(f a, g a) \<noteq> (f b, g b)" using Cons.prems(2) b by force
    moreover have "f a = ''delete_decision'' \<or> f a = ''add_decision''" "f b = ''delete_decision'' \<or> f b = ''add_decision''"
      using Cons.prems(1) [of a] Cons.prems(1) [of b] b by simp_all
    ultimately show ?thesis by (elim disjE) simp_all
  qed
  moreover have "distinct (map (\<lambda>a. f a @ '':'' @ g a) as)" using Cons by simp
  ultimately show ?case by auto
qed simp

lemma translate_update:
  assumes "\<exists>op \<in> set ops. op_Type op = OpUpdate"
  shows "\<exists>e w'. translate_operations ops prov w = (Inl e, w')"
  using assms
proof (induction ops arbitrary: w)
  case (Cons op ops)
  obtain now w1 where now: "time_Now w = (now, w1)" by (cases "time_Now w")
  show ?case
  proof (cases "translateOperation op prov now")
    case (Inl e)
    then show ?thesis by (simp add: now)
  next
    case (Inr a)
    then have "op_Type op \<noteq> OpUpdate" by (auto simp: translateOperation_def op_type_defs Let_def)
    then obtain e w' where "translate_operations ops prov w1 = (Inl e, w')" using Cons by fastforce
    then show ?thesis using Inr by (simp add: now)
  qed
qed simp

lemma validate_distinct:
  assumes "\<And>a. a \<in> set as \<Longrightarrow> ValidateSingle a = Inr ()" and "distinct (map (\<lambda>a. ca_Type a @ '':'' @ ca_StableIdentityKey a) as)"
    and "set seen \<inter> set (map (\<lambda>a. ca_Type a @ '':'' @ ca_StableIdentityKey a) as) = {}"
  shows "validate_actions seen as = Inr ()"
  using assms
proof (induction as arbitrary: seen)
  case (Cons a as)
  have "ValidateSingle a = Inr ()" using Cons.prems(1) by simp
  moreover have "validate_actions ((ca_Type a @ '':'' @ ca_StableIdentityKey a) # seen) as = Inr ()"
    using Cons.prems by (intro Cons.IH) auto
  ultimately show ?case using Cons.prems(3) by (simp add: Let_def)
qed simp

lemma subseq_keeps_distinct: "subseq xs ys \<Longrightarrow> distinct ys \<Longrightarrow> distinct xs"
  by (induction rule: list_emb.induct) (auto dest: list_emb_set)

text \<open>The targets of a plan are named once per type of action.\<close>

lemma plan_targets_distinct:
  assumes "distinct (map no_StableIdentityKey (sn_Objects s))" and "distinct (map no_StableIdentityKey target)"
  shows "distinct (map (\<lambda>op. (action_type op, op_TargetID op)) (pl_Operations (fst (planner_Plan (Some s) target w))))"
proof -
  let ?w = "w\<lparr>io_step := Suc (Suc (io_step w))\<rparr>"
  let ?dels = "plan_deletions (by_key target) (sn_Objects s) ?w"
  let ?changes = "fst (plan_changes (by_key (sn_Objects s)) target (snd ?dels))"
  have dels: "map op_TargetID (fst ?dels) = filter (\<lambda>k. by_key target k = None) (map no_StableIdentityKey (sn_Objects s))" "\<forall>op \<in> set (fst ?dels). op_Type op = OpDelete"
    using plan_deletions_ops [of "by_key target" "sn_Objects s" ?w] by blast+
  have changes: "subseq (map op_TargetID ?changes) (map no_StableIdentityKey target)" "\<forall>op \<in> set ?changes. \<exists>obj \<in> set target. creates obj op"
    using plan_changes_ops [of "by_key (sn_Objects s)" target "snd ?dels"] by blast+
  have "distinct (map op_TargetID (fst ?dels))" unfolding dels(1) using assms(1) by (rule distinct_filter)
  moreover have "distinct (map op_TargetID ?changes)" using changes(1) assms(2) by (rule subseq_keeps_distinct)
  moreover have "op_TargetID op \<noteq> op_TargetID op'" if del: "op \<in> set (fst ?dels)" and chg: "op' \<in> set ?changes" for op op'
  proof -
    have "op_TargetID op \<in> set (map op_TargetID (fst ?dels))" using del by simp
    then have "by_key target (op_TargetID op) = None" unfolding dels(1) by simp
    moreover obtain obj where "obj \<in> set target" "op_TargetID op' = no_StableIdentityKey obj" using changes(2) chg unfolding creates_def by blast
    ultimately show ?thesis using by_key_None [of target "op_TargetID op"] by metis
  qed
  ultimately have "distinct (map op_TargetID (fst ?dels @ ?changes))" by (force simp: distinct_append)
  then have "distinct (map op_TargetID (pl_Operations (fst (planner_Plan (Some s) target w))))"
    unfolding plan_operations option.case using mset_eq_imp_distinct_iff [of "map op_TargetID (sort_key operation_key (fst ?dels @ ?changes))" "map op_TargetID (fst ?dels @ ?changes)"]
    by simp
  then show ?thesis by (simp add: distinct_map inj_on_def)
qed

lemma plan_translatable:
  assumes "[] \<notin> set (map no_StableIdentityKey (sn_Objects s))" and "\<And>r. r \<in> set rules \<Longrightarrow> ar_Target r \<noteq> [] \<and> ar_Value r \<noteq> []"
    and "op \<in> set (pl_Operations (fst (planner_Plan (Some s) (IPAccessRules rules) w)))" and "op_Type op \<noteq> OpUpdate"
  shows "translatable op"
proof -
  let ?w = "w\<lparr>io_step := Suc (Suc (io_step w))\<rparr>"
  let ?dels = "plan_deletions (by_key (IPAccessRules rules)) (sn_Objects s) ?w"
  let ?changes = "fst (plan_changes (by_key (sn_Objects s)) (IPAccessRules rules) (snd ?dels))"
  from assms(3) consider "op \<in> set (fst ?dels)" | "op \<in> set ?changes"
    unfolding plan_operations set_sort option.case by auto
  then show ?thesis
  proof cases
    case 1
    then have "op_TargetID op \<in> set (map op_TargetID (fst ?dels))" by simp
    then have "op_TargetID op \<noteq> []" using assms(1) plan_deletions_ops [of "by_key (IPAccessRules rules)" "sn_Objects s" ?w] by auto
    then show ?thesis using 1 plan_deletions_ops [of "by_key (IPAccessRules rules)" "sn_Objects s" ?w] by (simp add: translatable_def)
  next
    case 2
    then obtain obj where obj: "obj \<in> set (IPAccessRules rules)" "creates obj op"
      using plan_changes_ops [of "by_key (sn_Objects s)" "IPAccessRules rules" "snd ?dels"] by blast
    then obtain r where "r \<in> set rules" "no_ObjectType obj = ''ip_access_rules''" "no_StableIdentityKey obj = ''ip:'' @ ar_Target r @ '':'' @ ar_Value r @ '':'' @ ar_Mode r"
        "no_Attributes obj = [(''mode'', AString (ar_Mode r)), (''notes'', AString (ar_Notes r)),
          (''configuration'', AMap [(''target'', AString (ar_Target r)), (''value'', AString (ar_Value r))])]"
      unfolding IPAccessRules_def by auto
    then show ?thesis using obj(2) assms(2) [of r] assms(4) by (simp add: creates_def translatable_def map_member_def string_member_def)
  qed
qed

text \<open>
  The chain from a snapshot to CrowdSec. When a snapshot names every object once and by a key, and the target is the normal form of access rules
  with a target and a value and different keys, a plan without updates is translated and the result passes the validation: one action per operation,
  in the order of type and key, a deletion per object the target does not name and an addition per rule that is new. An update cannot be translated:
  the translation of a plan that has one is an error.
\<close>

theorem plan_translates:
  assumes "[] \<notin> set (map no_StableIdentityKey (sn_Objects s))" and "distinct (map no_StableIdentityKey (sn_Objects s))"
    and "distinct (map no_StableIdentityKey (IPAccessRules rules))" and "\<forall>r \<in> set rules. ar_Target r \<noteq> [] \<and> ar_Value r \<noteq> []"
    and "planner_Plan (Some s) (IPAccessRules rules) w = (p, w1)"
  shows "if \<exists>op \<in> set (pl_Operations p). op_Type op = OpUpdate then (\<exists>e w2. crowdsec_Translate (Some p) prov w1 = (Inl e, w2))
    else (\<exists>as w2. crowdsec_Translate (Some p) prov w1 = (Inr as, w2) \<and> crowdsec_Validate as = Inr () \<and>
      map (\<lambda>a. (ca_Type a, ca_StableIdentityKey a)) as = sort (map (\<lambda>op. (action_type op, op_TargetID op)) (pl_Operations p)))"
proof (cases "\<exists>op \<in> set (pl_Operations p). op_Type op = OpUpdate")
  case True
  then show ?thesis using translate_update [of "pl_Operations p" prov w1] by (auto simp: crowdsec_Translate_def)
next
  case False
  let ?key = "\<lambda>a. (ca_Type a, ca_StableIdentityKey a)"
  have p: "p = fst (planner_Plan (Some s) (IPAccessRules rules) w)" using assms(5) by simp
  have "translatable op" if "op \<in> set (pl_Operations p)" for op
    using that False assms(4) plan_translatable [OF assms(1), of rules op w] unfolding p by blast
  then obtain as w2 where as: "translate_operations (pl_Operations p) prov w1 = (Inr as, w2)"
      "map ?key as = map (\<lambda>op. (action_type op, op_TargetID op)) (pl_Operations p)" "\<forall>a \<in> set as. ValidateSingle a = Inr ()"
    using translate_all [of "pl_Operations p" prov w1] by blast
  have types: "ca_Type a = ''delete_decision'' \<or> ca_Type a = ''add_decision''" if "a \<in> set as" for a
  proof -
    have "?key a \<in> set (map ?key as)" using that by simp
    then show ?thesis unfolding as(2) by (auto simp: action_type_def split: if_splits)
  qed
  have "distinct (map ?key as)" unfolding as(2) p by (rule plan_targets_distinct [OF assms(2,3)])
  then have "distinct (map (\<lambda>a. ca_Type a @ '':'' @ ca_StableIdentityKey a) as)"
    using distinct_joined [of as ca_Type ca_StableIdentityKey] types by blast
  then have "validate_actions [] (sort_key ?key as) = Inr ()"
    using as(3) mset_eq_imp_distinct_iff [of "map (\<lambda>a. ca_Type a @ '':'' @ ca_StableIdentityKey a) (sort_key ?key as)" "map (\<lambda>a. ca_Type a @ '':'' @ ca_StableIdentityKey a) as"]
    by (intro validate_distinct) simp_all
  moreover have "map ?key (sort_key ?key as) = sort (map ?key as)" by (rule properties_for_sort [symmetric]) simp_all
  ultimately show ?thesis using False as(1,2) by (simp add: crowdsec_Translate_def crowdsec_Validate_def)
qed

theorem plan_translates_witness:
  "\<exists>as w2. crowdsec_Translate (Some (fst (planner_Plan (Some two_rules) (IPAccessRules sample_rules) plain_world))) no_provenance (snd (planner_Plan (Some two_rules) (IPAccessRules sample_rules) plain_world)) =
     (Inr as, w2) \<and> crowdsec_Validate as = Inr ()"
proof -
  let ?p = "fst (planner_Plan (Some two_rules) (IPAccessRules sample_rules) plain_world)"
  have "\<not> (\<exists>op \<in> set (pl_Operations ?p). op_Type op = OpUpdate)"
    using plan_iff [of "sn_Objects two_rules" "Some two_rules" "IPAccessRules sample_rules" plain_world "\<lambda>t _ _. t = OpUpdate"]
    by (simp add: by_key_def two_rules_def rule_object_def IPAccessRules_def sample_rules_def op_type_defs)
  moreover have "if \<exists>op \<in> set (pl_Operations ?p). op_Type op = OpUpdate then
      (\<exists>e w2. crowdsec_Translate (Some ?p) no_provenance (snd (planner_Plan (Some two_rules) (IPAccessRules sample_rules) plain_world)) = (Inl e, w2))
    else (\<exists>as w2. crowdsec_Translate (Some ?p) no_provenance (snd (planner_Plan (Some two_rules) (IPAccessRules sample_rules) plain_world)) = (Inr as, w2) \<and> crowdsec_Validate as = Inr () \<and>
      map (\<lambda>a. (ca_Type a, ca_StableIdentityKey a)) as = sort (map (\<lambda>op. (action_type op, op_TargetID op)) (pl_Operations ?p)))"
    by (rule plan_translates [where s = two_rules and rules = sample_rules and w = plain_world])
      (simp_all add: two_rules_def rule_object_def IPAccessRules_def sample_rules_def)
  ultimately show ?thesis by auto
qed

end
