(* ===== verification/Ownership.thy ===== *)
theory Ownership
  imports Planner Sqlite_Db
begin

text \<open>
  Ownership of resources: the resolver of \<open>internal/runtime/ownership/resolver.go\<close>, the lineage of its decisions
  (\<open>lineage.go\<close>, \<open>query.go\<close>) and the repository of \<open>internal/storage/sqlite/ownership.go\<close>. The claims and the
  lineage are tables of the database; the resolver keeps a map of claims beside them. The JSON of a lineage event that is stored in its row is the event.
\<close>

section \<open>Domains, claims and lineage\<close>

type_synonym right = string

definition RightCreate :: right where "RightCreate = ''create''"
definition RightUpdate :: right where "RightUpdate = ''update''"
definition RightDelete :: right where "RightDelete = ''delete''"
definition RightRollback :: right where "RightRollback = ''rollback''"
definition RightOverride :: right where "RightOverride = ''override''"

definition TrustImmutable :: int where "TrustImmutable = 255"
definition TrustAuthoritative :: int where "TrustAuthoritative = 100"
definition TrustManaged :: int where "TrustManaged = 80"

record ownership_domain =
  dm_ID :: string
  dm_Type :: string
  dm_Priority :: int
  dm_Trust :: int
  dm_Capabilities :: "right list"

record ownership_claim =
  cl_ScopeID :: string
  cl_ResourceID :: string
  cl_DomainID :: string
  cl_Epoch :: int
  cl_Rights :: "right list"
  cl_Timestamp :: go_time

record resolution_outcome =
  ro_Allowed :: bool
  ro_Action :: string
  ro_Reason :: string
  ro_Owner :: string

definition LineageEventResolve :: string where "LineageEventResolve = ''resolve''"
definition LineageEventClaim :: string where "LineageEventClaim = ''claim''"

record lineage_event =
  le_ID :: string
  le_ParentID :: string
  le_ScopeID :: string
  le_ResourceID :: string
  le_DomainID :: string
  le_EventType :: string
  le_Decision :: string
  le_RequiredRight :: right
  le_OwnerDomain :: string
  le_Epoch :: int
  le_FencingToken :: int
  le_Reason :: string
  le_DecisionHash :: string
  le_CreatedAt :: go_time

definition BuildDecisionHash :: "string \<Rightarrow> string \<Rightarrow> string \<Rightarrow> string \<Rightarrow> string \<Rightarrow> string \<Rightarrow> right \<Rightarrow> string \<Rightarrow> int \<Rightarrow> string" where
  "BuildDecisionHash eventType scopeID resourceID domainID decision reason requiredRight owner epoch =
     sha256_hex (join_char (CHR ''|'') [eventType, scopeID, resourceID, domainID, decision, reason, requiredRight, owner, show_int epoch])"

definition NewLineageEventID :: "string \<Rightarrow> string \<Rightarrow> go_time \<Rightarrow> string" where
  "NewLineageEventID scopeID resourceID createdAt = take 32 (sha256_hex (scopeID @ ''|'' @ resourceID @ ''|'' @ show_int (unix_nano createdAt)))"

definition claimKey :: "string \<Rightarrow> string \<Rightarrow> string" where
  "claimKey scopeID resourceID = scopeID @ ''|'' @ resourceID"

definition claim_of_event :: "lineage_event \<Rightarrow> ownership_claim" where
  "claim_of_event ev = \<lparr>cl_ScopeID = le_ScopeID ev, cl_ResourceID = le_ResourceID ev, cl_DomainID = le_DomainID ev, cl_Epoch = le_Epoch ev, cl_Rights = [], cl_Timestamp = le_CreatedAt ev\<rparr>"

definition replay_lineage :: "(string \<rightharpoonup> ownership_claim) \<Rightarrow> lineage_event \<Rightarrow> string \<rightharpoonup> ownership_claim" where
  "replay_lineage out ev = (if le_EventType ev = LineageEventClaim then out(claimKey (le_ScopeID ev) (le_ResourceID ev) \<mapsto> claim_of_event ev) else out)"

definition RebuildClaimsFromLineage :: "lineage_event list \<Rightarrow> string \<rightharpoonup> ownership_claim" where
  "RebuildClaimsFromLineage events = foldl replay_lineage Map.empty (sort_key (\<lambda>ev. (le_CreatedAt ev, le_ID ev)) events)"

section \<open>The repository\<close>

record ownership_row =
  cw_ResourceID :: string
  cw_DomainID :: string
  cw_Rights :: string
  cw_Epoch :: int
  cw_Timestamp :: go_time

record own_env = db_env +
  ow_Claims :: "ownership_row list"
  ow_Lineage :: "lineage_event list"

definition row_claim :: "ownership_row \<Rightarrow> ownership_claim" where
  "row_claim q = \<lparr>cl_ScopeID = [], cl_ResourceID = cw_ResourceID q, cl_DomainID = cw_DomainID q, cl_Epoch = cw_Epoch q,
     cl_Rights = split_char (CHR '','') (cw_Rights q), cl_Timestamp = cw_Timestamp q\<rparr>"

definition no_claim :: ownership_claim where
  "no_claim = \<lparr>cl_ScopeID = [], cl_ResourceID = [], cl_DomainID = [], cl_Epoch = 0, cl_Rights = [], cl_Timestamp = 0\<rparr>"

definition own_GetClaim :: "string \<Rightarrow> 'z own_env_scheme \<Rightarrow> ownership_claim result \<times> 'z own_env_scheme" where
  "own_GetClaim resourceID w =
     and_then ''storage.sqlite.OwnershipRepository.GetClaim'' (io_call w) (\<lambda>_ w1.
       (Inr (case find (\<lambda>q. cw_ResourceID q = resourceID) (ow_Claims w1) of None \<Rightarrow> no_claim | Some q \<Rightarrow> row_claim q), w1))"

text \<open>\<open>CURRENT_TIMESTAMP\<close> has whole seconds.\<close>

definition current_timestamp :: "go_time \<Rightarrow> go_time" where
  "current_timestamp t = t - t mod Second"

definition upsert_claim :: "ownership_row \<Rightarrow> ownership_row list \<Rightarrow> ownership_row list" where
  "upsert_claim q rows =
     (if \<exists>q' \<in> set rows. cw_ResourceID q' = cw_ResourceID q then map (\<lambda>q'. if cw_ResourceID q' = cw_ResourceID q then q else q') rows else rows @ [q])"

definition own_SetClaim :: "ownership_claim \<Rightarrow> 'z own_env_scheme \<Rightarrow> unit result \<times> 'z own_env_scheme" where
  "own_SetClaim c w =
     (let op = ''storage.sqlite.OwnershipRepository.SetClaim'' in
      writable op w (\<lambda>w0.
        let (now, w1) = time_Now w0 in
        and_then op (io_call w1) (\<lambda>_ w2.
          (Inr (), w2\<lparr>ow_Claims := upsert_claim \<lparr>cw_ResourceID = cl_ResourceID c, cw_DomainID = cl_DomainID c, cw_Rights = join_char (CHR '','') (cl_Rights c),
             cw_Epoch = cl_Epoch c, cw_Timestamp = current_timestamp now\<rparr> (ow_Claims w2)\<rparr>))))"

definition own_ListClaims :: "'z own_env_scheme \<Rightarrow> ownership_claim list result \<times> 'z own_env_scheme" where
  "own_ListClaims w = and_then ''storage.sqlite.OwnershipRepository.ListClaims'' (io_call w) (\<lambda>_ w1. (Inr (map row_claim (ow_Claims w1)), w1))"

definition GetLineage :: "string \<Rightarrow> 'z own_env_scheme \<Rightarrow> lineage_event option result \<times> 'z own_env_scheme" where
  "GetLineage eventID w =
     and_then ''storage.sqlite.OwnershipRepository.GetLineage'' (io_call w) (\<lambda>_ w1. (Inr (find (\<lambda>ev. le_ID ev = eventID) (ow_Lineage w1)), w1))"

text \<open>The identifier is the primary key.\<close>

definition AppendLineage :: "lineage_event \<Rightarrow> 'z own_env_scheme \<Rightarrow> unit result \<times> 'z own_env_scheme" where
  "AppendLineage event w =
     (let op = ''storage.sqlite.OwnershipRepository.AppendLineage'' in
      writable op w (\<lambda>w0.
        let (ev, w1) = (if time_is_zero (le_CreatedAt event) then let (now, w') = time_Now w0 in (event\<lparr>le_CreatedAt := now\<rparr>, w') else (event, w0)) in
        and_then op (io_call w1) (\<lambda>_ w2.
          if \<exists>ev' \<in> set (ow_Lineage w2). le_ID ev' = le_ID ev then (Inl (wrap_err op unique_violation), w2)
          else (Inr (), w2\<lparr>ow_Lineage := ow_Lineage w2 @ [ev]\<rparr>))))"

definition lineage_key :: "lineage_event \<Rightarrow> go_time \<times> string" where
  "lineage_key ev = (le_CreatedAt ev, le_ID ev)"

definition lineage_matches :: "string \<Rightarrow> string \<Rightarrow> lineage_event \<Rightarrow> bool" where
  "lineage_matches scopeID resourceID ev \<longleftrightarrow> (scopeID = [] \<or> le_ScopeID ev = scopeID) \<and> (resourceID = [] \<or> le_ResourceID ev = resourceID)"

definition before_cursor :: "go_time \<Rightarrow> string \<Rightarrow> lineage_event \<Rightarrow> bool" where
  "before_cursor beforeCreatedAt beforeID ev \<longleftrightarrow>
     time_is_zero beforeCreatedAt \<or> le_CreatedAt ev < beforeCreatedAt \<or> le_CreatedAt ev = beforeCreatedAt \<and> le_ID ev < beforeID"

definition ListLineageCursor :: "string \<Rightarrow> string \<Rightarrow> go_time \<Rightarrow> string \<Rightarrow> int \<Rightarrow> 'z own_env_scheme \<Rightarrow> lineage_event list result \<times> 'z own_env_scheme" where
  "ListLineageCursor scopeID resourceID beforeCreatedAt beforeID limit w =
     (let n = (if limit \<le> 0 then 100 else limit) in
      and_then ''storage.sqlite.OwnershipRepository.ListLineage'' (io_call w) (\<lambda>_ w1.
        (Inr (take (nat n) (rev (sort_key lineage_key (filter (\<lambda>ev. lineage_matches scopeID resourceID ev \<and> before_cursor beforeCreatedAt beforeID ev) (ow_Lineage w1))))), w1)))"

definition ListLineage :: "string \<Rightarrow> string \<Rightarrow> int \<Rightarrow> 'z own_env_scheme \<Rightarrow> lineage_event list result \<times> 'z own_env_scheme" where
  "ListLineage scopeID resourceID limit w = ListLineageCursor scopeID resourceID 0 [] limit w"

definition lineage_Search :: "string \<Rightarrow> string \<Rightarrow> go_time \<Rightarrow> string \<Rightarrow> int \<Rightarrow> 'z own_env_scheme \<Rightarrow> lineage_event list result \<times> 'z own_env_scheme" where
  "lineage_Search scopeID resourceID beforeCreatedAt beforeID limit w =
     ListLineageCursor scopeID resourceID beforeCreatedAt beforeID (if limit \<le> 0 then 20 else limit) w"

section \<open>The resolver\<close>

text \<open>A store and a recorder are set or nil; those that are set are the repository.\<close>

record resolver =
  rv_domains :: "string \<rightharpoonup> ownership_domain"
  rv_claims :: "string \<rightharpoonup> ownership_claim"
  rv_lineage :: bool
  rv_store :: bool

definition NewResolver :: resolver where
  "NewResolver = \<lparr>rv_domains = Map.empty, rv_claims = Map.empty, rv_lineage = False, rv_store = False\<rparr>"

definition RegisterDomain :: "ownership_domain \<Rightarrow> resolver \<Rightarrow> resolver" where
  "RegisterDomain d r = r\<lparr>rv_domains := (rv_domains r)(dm_ID d \<mapsto> d)\<rparr>"

definition SetLineageRecorder :: "resolver \<Rightarrow> resolver" where
  "SetLineageRecorder r = r\<lparr>rv_lineage := True\<rparr>"

definition SetClaimStore :: "resolver \<Rightarrow> resolver" where
  "SetClaimStore r = r\<lparr>rv_store := True\<rparr>"

definition hasCapability :: "ownership_domain \<Rightarrow> right \<Rightarrow> bool" where
  "hasCapability d right \<longleftrightarrow> right \<in> set (dm_Capabilities d)"

text \<open>The claim of a resource, from the store when there is one.\<close>

definition getClaim :: "string \<Rightarrow> resolver \<Rightarrow> 'z own_env_scheme \<Rightarrow> ownership_claim option result \<times> resolver \<times> 'z own_env_scheme" where
  "getClaim resourceID r w =
     (if rv_store r then
        (case own_GetClaim resourceID w of
           (Inl e, w1) \<Rightarrow> (Inl e, r, w1)
         | (Inr claim, w1) \<Rightarrow>
             if cl_ResourceID claim \<noteq> [] then (Inr (Some claim), r\<lparr>rv_claims := (rv_claims r)(resourceID \<mapsto> claim)\<rparr>, w1)
             else (Inr None, r, w1))
      else (Inr (rv_claims r resourceID), r, w))"

text \<open>A domain that is not registered reads as the zero value.\<close>

definition domain_of :: "string \<Rightarrow> resolver \<Rightarrow> ownership_domain" where
  "domain_of i r = (case rv_domains r i of Some d \<Rightarrow> d | None \<Rightarrow> \<lparr>dm_ID = [], dm_Type = [], dm_Priority = 0, dm_Trust = 0, dm_Capabilities = []\<rparr>)"

definition adjudicate :: "ownership_domain \<Rightarrow> string \<Rightarrow> right \<Rightarrow> ownership_claim option \<Rightarrow> resolver \<Rightarrow> resolution_outcome" where
  "adjudicate reqDomain resourceID right claim r =
     (let allow = (\<lambda>action owner. \<lparr>ro_Allowed = True, ro_Action = action, ro_Reason = [], ro_Owner = owner\<rparr>);
          refuse = (\<lambda>action reason owner. \<lparr>ro_Allowed = False, ro_Action = action, ro_Reason = reason, ro_Owner = owner\<rparr>) in
      case claim of
        None \<Rightarrow> if hasCapability reqDomain right then allow ''allow'' [] else refuse ''deny'' ''domain lacks capability'' []
      | Some c \<Rightarrow>
          let owner = domain_of (cl_DomainID c) r in
          if dm_Trust owner = TrustImmutable then refuse ''readonly'' (''resource '' @ resourceID @ '' is immutable (owned by '' @ dm_ID owner @ '')'') (dm_ID owner)
          else if dm_Priority reqDomain > dm_Priority owner \<and> hasCapability reqDomain RightOverride then allow ''override'' (dm_ID owner)
          else if dm_Priority reqDomain < dm_Priority owner then
            refuse ''deny'' (''resource '' @ resourceID @ '' is owned by higher priority domain: '' @ dm_ID owner) (dm_ID owner)
          else if hasCapability reqDomain right then allow ''allow'' (dm_ID owner)
          else refuse ''deny'' ''insufficient rights'' (dm_ID owner))"

definition resolve_event :: "string \<Rightarrow> string \<Rightarrow> right \<Rightarrow> resolution_outcome \<Rightarrow> string \<Rightarrow> int \<Rightarrow> go_time \<Rightarrow> lineage_event" where
  "resolve_event domainID resourceID right out owner epoch now =
     \<lparr>le_ID = NewLineageEventID ''global'' resourceID now, le_ParentID = [], le_ScopeID = ''global'', le_ResourceID = resourceID, le_DomainID = domainID,
      le_EventType = LineageEventResolve, le_Decision = ro_Action out, le_RequiredRight = right, le_OwnerDomain = owner, le_Epoch = epoch, le_FencingToken = 0,
      le_Reason = ro_Reason out,
      le_DecisionHash = BuildDecisionHash LineageEventResolve ''global'' resourceID domainID (ro_Action out) (ro_Reason out) right owner epoch, le_CreatedAt = now\<rparr>"

text \<open>The error of the recorder is dropped.\<close>

definition record_lineage :: "(go_time \<Rightarrow> lineage_event) \<Rightarrow> resolver \<Rightarrow> 'z own_env_scheme \<Rightarrow> 'z own_env_scheme" where
  "record_lineage ev r w = (if rv_lineage r then let (now, w1) = time_Now w in snd (AppendLineage (ev now) w1) else w)"

definition ownership_Resolve ::
  "string \<Rightarrow> string \<Rightarrow> right \<Rightarrow> resolver \<Rightarrow> 'z own_env_scheme \<Rightarrow> resolution_outcome result \<times> resolver \<times> 'z own_env_scheme" where
  "ownership_Resolve requestingDomainID resourceID requiredRight r w =
     (let op = ''runtime.ownership.Resolve'' in
      case rv_domains r requestingDomainID of
        None \<Rightarrow> (Inl (New op (''unrecognized domain: '' @ requestingDomainID)), r, w)
      | Some reqDomain \<Rightarrow>
          (case getClaim resourceID r w of
             (Inl e, r1, w1) \<Rightarrow> (Inl (wrap_err op e), r1, w1)
           | (Inr claim, r1, w1) \<Rightarrow>
               let out = adjudicate reqDomain resourceID requiredRight claim r1;
                   epoch = (case claim of None \<Rightarrow> 0 | Some c \<Rightarrow> cl_Epoch c)
               in (Inr out, r1, record_lineage (resolve_event requestingDomainID resourceID requiredRight out (ro_Owner out) epoch) r1 w1)))"

definition claim_event :: "ownership_claim \<Rightarrow> go_time \<Rightarrow> lineage_event" where
  "claim_event c now =
     \<lparr>le_ID = NewLineageEventID (cl_ScopeID c) (cl_ResourceID c) now, le_ParentID = [], le_ScopeID = cl_ScopeID c, le_ResourceID = cl_ResourceID c, le_DomainID = cl_DomainID c,
      le_EventType = LineageEventClaim, le_Decision = ''claim_set'', le_RequiredRight = [], le_OwnerDomain = [], le_Epoch = cl_Epoch c, le_FencingToken = 0, le_Reason = [],
      le_DecisionHash = BuildDecisionHash LineageEventClaim (cl_ScopeID c) (cl_ResourceID c) (cl_DomainID c) ''claim_set'' [] [] [] (cl_Epoch c), le_CreatedAt = now\<rparr>"

definition ownership_Claim :: "ownership_claim \<Rightarrow> resolver \<Rightarrow> 'z own_env_scheme \<Rightarrow> unit result \<times> resolver \<times> 'z own_env_scheme" where
  "ownership_Claim c r w =
     (case (if rv_store r then own_SetClaim c w else (Inr (), w)) of
        (Inl e, w1) \<Rightarrow> (Inl e, r, w1)
      | (Inr _, w1) \<Rightarrow>
          let r1 = r\<lparr>rv_claims := (rv_claims r)(cl_ResourceID c \<mapsto> c)\<rparr> in (Inr (), r1, record_lineage (claim_event c) r1 w1))"

text \<open>Without a store the claims of the map, in any order; the keys of the map are the resources.\<close>

definition ownership_ListClaims :: "resolver \<Rightarrow> 'z own_env_scheme \<Rightarrow> ownership_claim set \<times> resolver \<times> 'z own_env_scheme" where
  "ownership_ListClaims r w =
     (if rv_store r then
        (case own_ListClaims w of
           (Inr cs, w1) \<Rightarrow> (set cs, r\<lparr>rv_claims := map_of (rev (map (\<lambda>c. (cl_ResourceID c, c)) cs))\<rparr>, w1)
         | (Inl _, w1) \<Rightarrow> (ran (rv_claims r), r, w1))
      else (ran (rv_claims r), r, w))"

section \<open>The contract of a store of claims\<close>

text \<open>What a client of the resolver relies on: a claim that was accepted is the owner of its resource, one that was refused changes nothing, and
  looking an owner up changes no owner.\<close>

type_synonym owners = "string \<rightharpoonup> string \<times> int"

definition owner_of :: "ownership_claim \<Rightarrow> string \<times> int" where
  "owner_of c = (cl_DomainID c, cl_Epoch c)"

locale claim_store =
  fixes owners :: "'s \<Rightarrow> owners"
    and assert :: "ownership_claim \<Rightarrow> 's \<Rightarrow> unit result \<times> 's"
    and look :: "string \<Rightarrow> 's \<Rightarrow> ownership_claim option result \<times> 's"
  assumes asserted: "assert c s = (Inr (), s') \<Longrightarrow> owners s' = (if cl_ResourceID c = [] then owners s else (owners s)(cl_ResourceID c \<mapsto> owner_of c))"
    and assert_refused: "assert c s = (Inl e, s') \<Longrightarrow> owners s' = owners s"
    and looked_up: "look i s = (Inr found, s') \<Longrightarrow> i \<noteq> [] \<Longrightarrow> map_option owner_of found = owners s i"
    and look_keeps: "look i s = (res, s') \<Longrightarrow> owners s' = owners s"
begin

lemma assert_other:
  assumes "assert c s = (res, s')" and "cl_ResourceID c \<noteq> i"
  shows "owners s' i = owners s i"
proof (cases res)
  case (Inl e)
  then show ?thesis using assms(1) assert_refused by simp
next
  case (Inr u)
  then show ?thesis using assms asserted [of c s s'] by (simp split: if_splits)
qed

lemma look_after_assert:
  assumes "assert c s = (Inr (), s1)" and "owners s2 (cl_ResourceID c) = owners s1 (cl_ResourceID c)" and "cl_ResourceID c \<noteq> []"
    and "look (cl_ResourceID c) s2 = (Inr found, s3)"
  shows "map_option owner_of found = Some (owner_of c)"
  using looked_up [OF assms(4,3)] asserted [OF assms(1)] assms(2,3) by simp

end

text \<open>The resolver with or without a store in the database. A claim without a resource is never found.\<close>

definition owners_in :: "resolver \<times> 'z own_env_scheme \<Rightarrow> owners" where
  "owners_in s i =
     (if i = [] then None
      else if rv_store (fst s) then map_option (\<lambda>q. (cw_DomainID q, cw_Epoch q)) (find (\<lambda>q. cw_ResourceID q = i) (ow_Claims (snd s)))
      else map_option owner_of (rv_claims (fst s) i))"

lemma find_upsert: "find (\<lambda>q. cw_ResourceID q = i) (upsert_claim q rows) = (if i = cw_ResourceID q then Some q else find (\<lambda>q. cw_ResourceID q = i) rows)"
proof (cases "\<exists>q' \<in> set rows. cw_ResourceID q' = cw_ResourceID q")
  case True
  have "find (\<lambda>q. cw_ResourceID q = i) (map (\<lambda>q'. if cw_ResourceID q' = cw_ResourceID q then q else q') rows) =
      (if i = cw_ResourceID q \<and> (\<exists>q' \<in> set rows. cw_ResourceID q' = cw_ResourceID q) then Some q else find (\<lambda>q. cw_ResourceID q = i) rows)"
    by (induction rows) auto
  then show ?thesis using True by (simp add: upsert_claim_def)
next
  case False
  have "find (\<lambda>q. cw_ResourceID q = i) (rows @ [q]) = (case find (\<lambda>q. cw_ResourceID q = i) rows of None \<Rightarrow> if i = cw_ResourceID q then Some q else None | Some x \<Rightarrow> Some x)"
    by (induction rows) auto
  moreover have "find (\<lambda>q'. cw_ResourceID q' = cw_ResourceID q) rows = None" using False by (simp add: find_None_iff)
  ultimately show ?thesis using False by (auto simp: upsert_claim_def split: option.splits)
qed

lemma AppendLineage_frame: "AppendLineage ev w = (res, w') \<Longrightarrow> ow_Claims w' = ow_Claims w \<and> io_clock w' = io_clock w"
  by (auto simp: AppendLineage_def writable_def ensureWritable_def and_then_def io_call_def time_Now_def Let_def split: option.splits if_splits)

lemma record_lineage_frame [simp]: "ow_Claims (record_lineage ev r w) = ow_Claims w" "io_clock (record_lineage ev r w) = io_clock w"
proof -
  obtain res w' where app: "AppendLineage (ev (fst (time_Now w))) (snd (time_Now w)) = (res, w')" by (cases "AppendLineage (ev (fst (time_Now w))) (snd (time_Now w))")
  have "record_lineage ev r w = (if rv_lineage r then w' else w)" by (simp add: record_lineage_def split_beta app)
  moreover have "ow_Claims w' = ow_Claims w \<and> io_clock w' = io_clock w" using AppendLineage_frame [OF app] by (simp add: time_Now_def)
  ultimately show "ow_Claims (record_lineage ev r w) = ow_Claims w" "io_clock (record_lineage ev r w) = io_clock w" by simp_all
qed

lemma own_GetClaim_cases:
  obtains e where "own_GetClaim i w = (Inl e, w\<lparr>io_step := Suc (io_step w)\<rparr>)"
  | "own_GetClaim i w = (Inr (case find (\<lambda>q. cw_ResourceID q = i) (ow_Claims w) of None \<Rightarrow> no_claim | Some q \<Rightarrow> row_claim q), w\<lparr>io_step := Suc (io_step w)\<rparr>)"
  by (cases w rule: io_call_cases) (simp_all add: own_GetClaim_def)

lemma getClaim_keeps:
  assumes "getClaim i r w = (res, r', w')"
  shows "ow_Claims w' = ow_Claims w \<and> rv_store r' = rv_store r \<and> rv_lineage r' = rv_lineage r \<and> rv_domains r' = rv_domains r \<and> (\<not> rv_store r \<longrightarrow> rv_claims r' = rv_claims r) \<and>
    ow_Lineage w' = ow_Lineage w \<and> io_clock w' = io_clock w \<and> io_step w \<le> io_step w'"
  using assms by (cases i w rule: own_GetClaim_cases) (auto simp: getClaim_def split: if_splits)

lemma getClaim_finds:
  assumes "getClaim i r w = (Inr found, r', w')" and "i \<noteq> []"
  shows "map_option owner_of found = owners_in (r, w) i"
proof (cases "rv_store r")
  case False
  then show ?thesis using assms by (auto simp: getClaim_def owners_in_def)
next
  case True
  show ?thesis
  proof (cases i w rule: own_GetClaim_cases)
    case (1 e)
    then show ?thesis using assms True by (simp add: getClaim_def)
  next
    case 2
    show ?thesis
    proof (cases "find (\<lambda>q. cw_ResourceID q = i) (ow_Claims w)")
      case None
      then show ?thesis using assms True 2 by (auto simp: getClaim_def owners_in_def no_claim_def)
    next
      case (Some q)
      then have "cw_ResourceID q = i" by (auto simp: find_Some_iff)
      then show ?thesis using assms True 2 Some by (auto simp: getClaim_def owners_in_def row_claim_def owner_of_def)
    qed
  qed
qed

lemma own_SetClaim_cases:
  obtains e w' where "own_SetClaim c w = (Inl e, w')" "ow_Claims w' = ow_Claims w" "ow_Lineage w' = ow_Lineage w" "io_clock w' = io_clock w" "io_step w \<le> io_step w'"
  | q w' where "own_SetClaim c w = (Inr (), w')" "ow_Claims w' = upsert_claim q (ow_Claims w)" "cw_ResourceID q = cl_ResourceID c" "cw_DomainID q = cl_DomainID c" "cw_Epoch q = cl_Epoch c"
      "ow_Lineage w' = ow_Lineage w" "io_clock w' = io_clock w" "io_step w \<le> io_step w'"
proof (cases "db_ReadOnly w")
  case True
  then show ?thesis using that(1) by (simp add: own_SetClaim_def writable_simps)
next
  case False
  show ?thesis
  proof (cases "w\<lparr>io_step := Suc (io_step w)\<rparr>" rule: io_call_cases)
    case 1
    let ?q = "\<lparr>cw_ResourceID = cl_ResourceID c, cw_DomainID = cl_DomainID c, cw_Rights = join_char (CHR '','') (cl_Rights c), cw_Epoch = cl_Epoch c,
      cw_Timestamp = current_timestamp (io_clock w (io_step w))\<rparr>"
    have "own_SetClaim c w = (Inr (), w\<lparr>io_step := Suc (Suc (io_step w)), ow_Claims := upsert_claim ?q (ow_Claims w)\<rparr>)"
      using False 1 by (simp add: own_SetClaim_def writable_simps time_Now_def Let_def)
    then show ?thesis by (rule that(2) [where q = ?q]) simp_all
  next
    case (2 e)
    have "own_SetClaim c w = (Inl (wrap_err ''storage.sqlite.OwnershipRepository.SetClaim'' e), w\<lparr>io_step := Suc (Suc (io_step w))\<rparr>)"
      using False 2 by (simp add: own_SetClaim_def writable_simps time_Now_def Let_def)
    then show ?thesis by (rule that(1)) simp_all
  qed
qed

definition claim_in :: "ownership_claim \<Rightarrow> resolver \<times> 'z own_env_scheme \<Rightarrow> unit result \<times> resolver \<times> 'z own_env_scheme" where
  "claim_in c s = ownership_Claim c (fst s) (snd s)"

definition look_in :: "string \<Rightarrow> resolver \<times> 'z own_env_scheme \<Rightarrow> ownership_claim option result \<times> resolver \<times> 'z own_env_scheme" where
  "look_in i s = getClaim i (fst s) (snd s)"

lemma claim_cases:
  obtains e w' where "ownership_Claim c r w = (Inl e, r, w')" "ow_Claims w' = ow_Claims w" "ow_Lineage w' = ow_Lineage w" "io_clock w' = io_clock w" "io_step w \<le> io_step w'"
  | w' where "ownership_Claim c r w = (Inr (), r\<lparr>rv_claims := (rv_claims r)(cl_ResourceID c \<mapsto> c)\<rparr>, record_lineage (claim_event c) r w')"
      "io_clock w' = io_clock w" "ow_Lineage w' = ow_Lineage w" "io_step w \<le> io_step w'"
      "rv_store r \<Longrightarrow> \<exists>q. ow_Claims w' = upsert_claim q (ow_Claims w) \<and> cw_ResourceID q = cl_ResourceID c \<and> cw_DomainID q = cl_DomainID c \<and> cw_Epoch q = cl_Epoch c"
      "\<not> rv_store r \<Longrightarrow> ow_Claims w' = ow_Claims w"
proof (cases "rv_store r")
  case False
  then show ?thesis by (intro that(2) [of w]) (simp_all add: ownership_Claim_def record_lineage_def Let_def)
next
  case True
  show ?thesis
  proof (cases c w rule: own_SetClaim_cases)
    case (1 e w')
    then show ?thesis using True that(1) by (simp add: ownership_Claim_def)
  next
    case (2 q w')
    then show ?thesis using True by (intro that(2) [of w']) (auto simp: ownership_Claim_def record_lineage_def Let_def)
  qed
qed

interpretation resolver_claims: claim_store owners_in claim_in look_in
proof
  fix c and s s' :: "resolver \<times> 'a own_env_scheme"
  assume "claim_in c s = (Inr (), s')"
  then show "owners_in s' = (if cl_ResourceID c = [] then owners_in s else (owners_in s)(cl_ResourceID c \<mapsto> owner_of c))"
    by (cases c "fst s" "snd s" rule: claim_cases) (auto simp: claim_in_def owners_in_def fun_eq_iff owner_of_def find_upsert)
next
  fix c e and s s' :: "resolver \<times> 'a own_env_scheme"
  assume "claim_in c s = (Inl e, s')"
  then show "owners_in s' = owners_in s"
    by (cases c "fst s" "snd s" rule: claim_cases) (auto simp: claim_in_def owners_in_def fun_eq_iff)
next
  fix i found and s s' :: "resolver \<times> 'a own_env_scheme"
  assume "look_in i s = (Inr found, s')" "i \<noteq> []"
  then show "map_option owner_of found = owners_in s i" using getClaim_finds [of i "fst s" "snd s" found "fst s'" "snd s'"] by (simp add: look_in_def)
next
  fix i res and s s' :: "resolver \<times> 'a own_env_scheme"
  assume "look_in i s = (res, s')"
  then show "owners_in s' = owners_in s" using getClaim_keeps [of i "fst s" "snd s" res "fst s'" "snd s'"] by (auto simp: look_in_def owners_in_def fun_eq_iff)
qed

section \<open>What the resolver decides\<close>

text \<open>The rule, over the registered domains and the owner of the resource.\<close>

definition entitled :: "resolver \<Rightarrow> ownership_domain \<Rightarrow> right \<Rightarrow> (string \<times> int) option \<Rightarrow> bool" where
  "entitled r d right owner \<longleftrightarrow>
     (case owner of
        None \<Rightarrow> right \<in> set (dm_Capabilities d)
      | Some (o', _) \<Rightarrow>
          dm_Trust (domain_of o' r) \<noteq> TrustImmutable \<and> dm_Priority (domain_of o' r) \<le> dm_Priority d \<and>
          (right \<in> set (dm_Capabilities d) \<or> dm_Priority (domain_of o' r) < dm_Priority d \<and> RightOverride \<in> set (dm_Capabilities d)))"

lemma adjudicate_entitled: "ro_Allowed (adjudicate d i right claim r) \<longleftrightarrow> entitled r d right (map_option owner_of claim)"
  by (cases claim) (auto simp: adjudicate_def entitled_def owner_of_def hasCapability_def Let_def)

text \<open>What happens to the resolver between two calls about a resource: everything but a claim to it.\<close>

inductive other_step :: "string \<Rightarrow> resolver \<times> 'z own_env_scheme \<Rightarrow> resolver \<times> 'z own_env_scheme \<Rightarrow> bool" for i where
  other_claim: "ownership_Claim c r w = (res, s') \<Longrightarrow> cl_ResourceID c \<noteq> i \<Longrightarrow> other_step i (r, w) s'"
| any_resolve: "ownership_Resolve d j right r w = (res, s') \<Longrightarrow> other_step i (r, w) s'"
| any_list: "ownership_ListClaims r w = (cs, s') \<Longrightarrow> other_step i (r, w) s'"
| any_domain: "other_step i (r, w) (RegisterDomain d r, w)"

lemma Resolve_cases:
  assumes "rv_domains r d = Some req"
  obtains e r1 w1 where "getClaim i r w = (Inl e, r1, w1)" "ownership_Resolve d i right r w = (Inl (wrap_err ''runtime.ownership.Resolve'' e), r1, w1)"
  | claim r1 w1 w2 where "getClaim i r w = (Inr claim, r1, w1)" "ownership_Resolve d i right r w = (Inr (adjudicate req i right claim r1), r1, w2)" "ow_Claims w2 = ow_Claims w1"
      "\<exists>owner epoch. w2 = record_lineage (resolve_event d i right (adjudicate req i right claim r1) owner epoch) r1 w1"
proof (cases "getClaim i r w")
  case (fields g r1 w1)
  show ?thesis
  proof (cases g)
    case (Inl e)
    then show ?thesis using assms fields that(1) by (simp add: ownership_Resolve_def Let_def)
  next
    case (Inr claim)
    then have run: "ownership_Resolve d i right r w = (Inr (adjudicate req i right claim r1), r1, record_lineage (resolve_event d i right (adjudicate req i right claim r1)
        (ro_Owner (adjudicate req i right claim r1)) (case claim of None \<Rightarrow> 0 | Some c \<Rightarrow> cl_Epoch c)) r1 w1)"
      using assms fields by (simp add: ownership_Resolve_def Let_def)
    have found: "getClaim i r w = (Inr claim, r1, w1)" using fields Inr by simp
    show ?thesis by (rule that(2) [OF found run]) (simp only: record_lineage_frame, blast)
  qed
qed

lemma owners_in_cong: "rv_store r' = rv_store r \<Longrightarrow> (\<not> rv_store r \<Longrightarrow> rv_claims r' = rv_claims r) \<Longrightarrow> ow_Claims w' = ow_Claims w \<Longrightarrow> owners_in (r', w') = owners_in (r, w)"
  by (auto simp: owners_in_def fun_eq_iff)

lemma Resolve_keeps: "ownership_Resolve d j right r w = (res, s') \<Longrightarrow> owners_in s' = owners_in (r, w)"
proof (cases "rv_domains r d")
  case (Some req)
  assume run: "ownership_Resolve d j right r w = (res, s')"
  have keeps: "getClaim j r w = (g, r1, w1) \<Longrightarrow> ow_Claims w2 = ow_Claims w1 \<Longrightarrow> owners_in (r1, w2) = owners_in (r, w)" for g r1 w1 w2
    using getClaim_keeps [of j r w g r1 w1] by (intro owners_in_cong) simp_all
  show ?thesis
  proof (cases rule: Resolve_cases [OF Some, where i = j and w = w and right = right])
    case (1 e r1 w1)
    then show ?thesis using run keeps [OF 1(1) refl] by simp
  next
    case (2 claim r1 w1 w2)
    then show ?thesis using run keeps [OF 2(1,3)] by simp
  qed
qed (simp add: ownership_Resolve_def)

lemma ListClaims_keeps: "ownership_ListClaims r w = (cs, s') \<Longrightarrow> owners_in s' = owners_in (r, w)"
  by (cases w rule: io_call_cases) (auto simp: ownership_ListClaims_def own_ListClaims_def owners_in_def fun_eq_iff split: if_splits)

lemma other_step_keeps: "other_step i s s' \<Longrightarrow> owners_in s' i = owners_in s i"
proof (induction rule: other_step.induct)
  case (other_claim c r w res s')
  then show ?case using resolver_claims.assert_other [of c "(r, w)" res s' i] by (simp add: claim_in_def)
next
  case (any_domain r w d)
  show ?case by (simp add: owners_in_def RegisterDomain_def)
qed (simp_all add: Resolve_keeps ListClaims_keeps)

lemma other_steps_keep: "(other_step i)\<^sup>*\<^sup>* s s' \<Longrightarrow> owners_in s' i = owners_in s i"
  by (induction rule: rtranclp_induct) (simp_all add: other_step_keeps)

text \<open>
  C12: the last claim to a resource decides about it. After a claim was accepted, and through any sequence of claims to other resources,
  resolutions, listings and registrations of domains, with any failures of the database, a registered domain that asks for a right on the resource gets
  an answer unless the database fails. It is allowed exactly when the claiming domain is not of immutable trust and has no higher priority than the asking domain, which either has
  the right among its capabilities or has a strictly higher priority and the right to override.
\<close>

theorem last_claim_decides:
  assumes "ownership_Claim c r w = (Inr (), s1)" and "cl_ResourceID c = i" and "i \<noteq> []" and "(other_step i)\<^sup>*\<^sup>* s1 (r2, w2)" and "rv_domains r2 d = Some req"
  shows "case ownership_Resolve d i right r2 w2 of
      (Inl _, _) \<Rightarrow> \<not> no_faults w2
    | (Inr out, _) \<Rightarrow> ro_Allowed out \<longleftrightarrow> entitled r2 req right (Some (cl_DomainID c, cl_Epoch c))"
proof (cases rule: Resolve_cases [OF assms(5), where i = i and w = w2 and right = right])
  case (1 e r1 w1)
  then show ?thesis by (cases w2 rule: io_call_cases) (auto simp: getClaim_def own_GetClaim_def split: if_splits)
next
  case (2 claim r1 w1 w3)
  have "map_option owner_of claim = Some (owner_of c)"
    using resolver_claims.look_after_assert [of c "(r, w)" s1 "(r2, w2)" claim "(r1, w1)"] other_steps_keep [OF assms(4)] assms(1-3) 2(1)
    by (simp add: claim_in_def look_in_def)
  moreover have "rv_domains r1 = rv_domains r2" using getClaim_keeps [OF 2(1)] by simp
  then have "entitled r1 = entitled r2" by (simp add: entitled_def domain_of_def fun_eq_iff split: option.splits)
  ultimately show ?thesis using 2(2) adjudicate_entitled [of req i right claim r1] by (simp only: prod.case sum.case) (simp add: owner_of_def)
qed

text \<open>The domains that \<open>cmd/cf-sync/runtime.go\<close> registers.\<close>

definition terraform_domain :: ownership_domain where
  "terraform_domain = \<lparr>dm_ID = ''terraform'', dm_Type = ''terraform'', dm_Priority = 100, dm_Trust = TrustAuthoritative,
     dm_Capabilities = [RightCreate, RightUpdate, RightDelete, RightRollback, RightOverride]\<rparr>"

definition cf_sync_domain :: ownership_domain where
  "cf_sync_domain = \<lparr>dm_ID = ''cf-sync'', dm_Type = ''cf-sync'', dm_Priority = 80, dm_Trust = TrustManaged, dm_Capabilities = [RightCreate, RightUpdate, RightDelete, RightRollback]\<rparr>"

definition wired_resolver :: resolver where
  "wired_resolver = SetClaimStore (SetLineageRecorder (RegisterDomain cf_sync_domain (RegisterDomain terraform_domain NewResolver)))"

definition empty_own :: own_env where
  "empty_own = \<lparr>io_clock = (\<lambda>n. int n + 1), io_fault = (\<lambda>_. None), io_choice = (\<lambda>_. False), io_step = 0, fs_files = [], db_ReadOnly = False, db_Events = [], db_NextEventID = 1,
     db_Sequences = [], db_Checkpoints = [], db_Leases = [], ow_Claims = [], ow_Lineage = []\<rparr>"

definition terraform_claim :: ownership_claim where
  "terraform_claim = \<lparr>cl_ScopeID = ''global'', cl_ResourceID = ''rule-1'', cl_DomainID = ''terraform'', cl_Epoch = 1, cl_Rights = [], cl_Timestamp = 0\<rparr>"

lemmas wired_defs = wired_resolver_def SetClaimStore_def SetLineageRecorder_def RegisterDomain_def NewResolver_def terraform_domain_def cf_sync_domain_def

lemma terraform_claimed:
  "\<exists>r w. ownership_Claim terraform_claim wired_resolver empty_own = (Inr (), r, w) \<and> rv_domains r = rv_domains wired_resolver \<and> no_faults w \<and> length (ow_Lineage w) = 1"
  by (simp add: ownership_Claim_def own_SetClaim_def record_lineage_def AppendLineage_def writable_def ensureWritable_def io_call_def time_Now_def empty_own_def terraform_claim_def claim_event_def
      wired_defs time_is_zero_def no_faults_def Let_def)

theorem last_claim_decides_witness:
  "\<exists>r w out s. ownership_Claim terraform_claim wired_resolver empty_own = (Inr (), r, w) \<and> ownership_Resolve ''cf-sync'' ''rule-1'' RightUpdate r w = (Inr out, s) \<and> \<not> ro_Allowed out"
proof -
  obtain r w where claimed: "ownership_Claim terraform_claim wired_resolver empty_own = (Inr (), r, w)" "rv_domains r = rv_domains wired_resolver" "no_faults w"
    using terraform_claimed by blast
  have req: "rv_domains r ''cf-sync'' = Some cf_sync_domain" by (simp add: claimed(2) wired_defs)
  have "\<not> entitled r cf_sync_domain RightUpdate (Some (''terraform'', 1))" by (simp add: entitled_def domain_of_def claimed(2) wired_defs)
  moreover have "case ownership_Resolve ''cf-sync'' ''rule-1'' RightUpdate r w of
      (Inl _, _) \<Rightarrow> \<not> no_faults w
    | (Inr out, _) \<Rightarrow> ro_Allowed out \<longleftrightarrow> entitled r cf_sync_domain RightUpdate (Some (cl_DomainID terraform_claim, cl_Epoch terraform_claim))"
    by (rule last_claim_decides [OF claimed(1) _ _ rtranclp.rtrancl_refl req]) (simp_all add: terraform_claim_def)
  ultimately show ?thesis using claimed(1,3)
    by (cases "ownership_Resolve ''cf-sync'' ''rule-1'' RightUpdate r w"; cases "fst (ownership_Resolve ''cf-sync'' ''rule-1'' RightUpdate r w)") (auto simp: terraform_claim_def)
qed

section \<open>Claims from the lineage\<close>

text \<open>An event is stored with an instant between the reading of the clock and the end of the call.\<close>

lemma record_lineage_cases:
  assumes created: "\<And>t. le_CreatedAt (ev t) = t"
  obtains "ow_Lineage (record_lineage ev r w) = ow_Lineage w" "io_step w \<le> io_step (record_lineage ev r w)"
  | t n where "ow_Lineage (record_lineage ev r w) = ow_Lineage w @ [(ev t)\<lparr>le_CreatedAt := io_clock w n\<rparr>]" "io_step w \<le> n" "n < io_step (record_lineage ev r w)"
proof (cases "rv_lineage r \<and> \<not> db_ReadOnly w")
  case False
  then show ?thesis using that(1) by (auto simp: record_lineage_def time_Now_def AppendLineage_def writable_def ensureWritable_def Let_def)
next
  case True
  let ?t = "io_clock w (io_step w)"
  define n where "n = (if ?t = 0 then Suc (io_step w) else io_step w)"
  let ?w = "w\<lparr>io_step := Suc n\<rparr>" and ?ev = "(ev ?t)\<lparr>le_CreatedAt := io_clock w n\<rparr>"
  have run: "record_lineage ev r w = snd (and_then ''storage.sqlite.OwnershipRepository.AppendLineage'' (io_call ?w) (\<lambda>_ w2.
      if \<exists>ev' \<in> set (ow_Lineage w2). le_ID ev' = le_ID ?ev then (Inl (wrap_err ''storage.sqlite.OwnershipRepository.AppendLineage'' unique_violation), w2)
      else (Inr (), w2\<lparr>ow_Lineage := ow_Lineage w2 @ [?ev]\<rparr>)))"
  proof (cases "?t = 0")
    case zero: True
    have n: "n = Suc (io_step w)" by (simp add: n_def zero)
    show ?thesis unfolding n zero using True zero created [of 0]
      by (simp add: record_lineage_def time_Now_def AppendLineage_def writable_def ensureWritable_def time_is_zero_def Let_def)
  next
    case False
    then have "?ev = (ev ?t)\<lparr>le_CreatedAt := le_CreatedAt (ev ?t)\<rparr>" using created [of ?t] by (simp add: n_def)
    then have "?ev = ev ?t" by simp
    then show ?thesis unfolding \<open>?ev = ev ?t\<close> using True False created [of ?t]
      by (simp add: record_lineage_def time_Now_def AppendLineage_def writable_def ensureWritable_def time_is_zero_def n_def Let_def)
  qed
  show ?thesis
  proof (cases ?w rule: io_call_cases)
    case 1
    show ?thesis
    proof (cases "\<exists>ev' \<in> set (ow_Lineage w). le_ID ev' = le_ID ?ev")
      case True
      then show ?thesis using that(1) run 1 by (simp add: n_def)
    next
      case False
      then have grown: "record_lineage ev r w = w\<lparr>io_step := Suc (Suc n), ow_Lineage := ow_Lineage w @ [?ev]\<rparr>" using run 1 by simp
      show ?thesis by (rule that(2) [where t = ?t and n = n]) (simp_all add: grown n_def)
    qed
  next
    case (2 e)
    then show ?thesis using that(1) run by (simp add: n_def)
  qed
qed

text \<open>The steps of a resolver on one scope, where the event of every accepted claim was stored.\<close>

inductive recorded_step :: "string \<Rightarrow> resolver \<times> 'z own_env_scheme \<Rightarrow> resolver \<times> 'z own_env_scheme \<Rightarrow> bool" for g where
  claimed: "ownership_Claim c r w = (Inr (), r', w') \<Longrightarrow> cl_ScopeID c = g \<Longrightarrow> length (ow_Lineage w') = Suc (length (ow_Lineage w)) \<Longrightarrow> recorded_step g (r, w) (r', w')"
| claim_failed: "ownership_Claim c r w = (Inl e, s') \<Longrightarrow> recorded_step g (r, w) s'"
| resolved: "ownership_Resolve d i right r w = (res, s') \<Longrightarrow> recorded_step g (r, w) s'"

definition in_order :: "'z own_env_scheme \<Rightarrow> bool" where
  "in_order w \<longleftrightarrow> strict_mono (io_clock w) \<and> sorted_wrt (<) (map le_CreatedAt (ow_Lineage w)) \<and> (\<forall>ev \<in> set (ow_Lineage w). \<exists>n < io_step w. le_CreatedAt ev = io_clock w n)"

definition replayed :: "lineage_event list \<Rightarrow> string \<rightharpoonup> ownership_claim" where
  "replayed evs = foldl replay_lineage Map.empty evs"

lemma in_order_later: "in_order w \<Longrightarrow> ow_Lineage w' = ow_Lineage w \<Longrightarrow> io_clock w' = io_clock w \<Longrightarrow> io_step w \<le> io_step w' \<Longrightarrow> in_order w'"
  unfolding in_order_def by (metis less_le_trans)

lemma in_order_grown:
  assumes "in_order w" and "ow_Lineage w' = ow_Lineage w @ [ev]" and "io_clock w' = io_clock w" and "le_CreatedAt ev = io_clock w n" and "io_step w \<le> n" and "n < io_step w'"
  shows "in_order w'"
proof -
  have older: "le_CreatedAt ev' < io_clock w n \<and> (\<exists>m < io_step w'. le_CreatedAt ev' = io_clock w m)" if old: "ev' \<in> set (ow_Lineage w)" for ev'
  proof -
    obtain m where "m < io_step w" "le_CreatedAt ev' = io_clock w m" using assms(1) [unfolded in_order_def, THEN conjunct2, THEN conjunct2] old by blast
    moreover have "m < n" "m < io_step w'" using calculation(1) assms(5,6) by simp_all
    moreover have "io_clock w m < io_clock w n" using assms(1) \<open>m < n\<close> unfolding in_order_def by (blast dest: strict_monoD)
    ultimately show ?thesis by (simp only:) blast
  qed
  then have "\<forall>x \<in> set (map le_CreatedAt (ow_Lineage w)). x < io_clock w n" by auto
  then have "sorted_wrt (<) (map le_CreatedAt (ow_Lineage w'))" using assms(1) unfolding in_order_def assms(2) by (simp add: sorted_wrt_append assms(4))
  moreover have "\<exists>m < io_step w'. le_CreatedAt ev' = io_clock w m" if "ev' \<in> set (ow_Lineage w')" for ev'
  proof (cases "ev' = ev")
    case True
    then show ?thesis using assms(4,6) by blast
  next
    case False
    then show ?thesis using that older [of ev'] unfolding assms(2) by simp
  qed
  ultimately show ?thesis using assms(1) unfolding in_order_def assms(3) by blast
qed

lemma rebuild_in_order: "in_order w \<Longrightarrow> RebuildClaimsFromLineage (ow_Lineage w) = replayed (ow_Lineage w)"
proof -
  assume "in_order w"
  then have "sorted_wrt (<) (map le_CreatedAt (ow_Lineage w))" by (simp add: in_order_def)
  then have "sorted (map (\<lambda>ev. (le_CreatedAt ev, le_ID ev)) (ow_Lineage w))"
    by (simp add: sorted_map sorted_wrt_map) (rule sorted_wrt_mono_rel, auto)
  then show ?thesis by (simp add: RebuildClaimsFromLineage_def replayed_def sort_key_id_if_sorted)
qed

definition rebuildable :: "string \<Rightarrow> resolver \<times> 'z own_env_scheme \<Rightarrow> bool" where
  "rebuildable g s \<longleftrightarrow> rv_store (fst s) \<and> rv_lineage (fst s) \<and> in_order (snd s) \<and>
     (\<forall>i. i \<noteq> [] \<longrightarrow> map_option owner_of (replayed (ow_Lineage (snd s)) (claimKey g i)) = owners_in s i)"

lemma replayed_snoc: "replayed (evs @ [ev]) = replay_lineage (replayed evs) ev"
  by (simp add: replayed_def)

lemma claimKey_inj [simp]: "claimKey g i = claimKey g j \<longleftrightarrow> i = j"
  by (simp add: claimKey_def)

lemma event_stamps [simp]: "le_CreatedAt (claim_event c t) = t" "le_CreatedAt (resolve_event d i right out owner epoch t) = t"
  by (simp_all add: claim_event_def resolve_event_def)

lemma replay_claim: "replay_lineage m ((claim_event c t)\<lparr>le_CreatedAt := u\<rparr>) =
    m(claimKey (cl_ScopeID c) (cl_ResourceID c) \<mapsto> claim_of_event ((claim_event c t)\<lparr>le_CreatedAt := u\<rparr>))"
  by (simp add: replay_lineage_def claim_event_def LineageEventClaim_def)

lemma replay_resolve: "replay_lineage m ((resolve_event d i right out owner epoch t)\<lparr>le_CreatedAt := u\<rparr>) = m"
  by (simp add: replay_lineage_def resolve_event_def LineageEventClaim_def LineageEventResolve_def)

lemma owner_of_event [simp]: "owner_of (claim_of_event ((claim_event c t)\<lparr>le_CreatedAt := u\<rparr>)) = owner_of c"
  by (simp add: owner_of_def claim_of_event_def claim_event_def)

lemma claimed_rebuildable:
  assumes inv: "rebuildable g (r, w)" and run: "ownership_Claim c r w = (Inr (), r', w')" and "cl_ScopeID c = g" and grown: "length (ow_Lineage w') = Suc (length (ow_Lineage w))"
  shows "rebuildable g (r', w')"
proof -
  have r: "rv_store r" "rv_lineage r" "in_order w" using inv by (simp_all add: rebuildable_def)
  obtain w1 where w1: "r' = r\<lparr>rv_claims := (rv_claims r)(cl_ResourceID c \<mapsto> c)\<rparr>" "w' = record_lineage (claim_event c) r w1" "io_clock w1 = io_clock w"
      "ow_Lineage w1 = ow_Lineage w" "io_step w \<le> io_step w1"
    using run by (cases c r w rule: claim_cases) auto
  obtain t n where ev: "ow_Lineage w' = ow_Lineage w1 @ [(claim_event c t)\<lparr>le_CreatedAt := io_clock w1 n\<rparr>]" "io_step w1 \<le> n" "n < io_step w'"
    using grown w1(2,4) by (cases rule: record_lineage_cases [where ev = "claim_event c" and r = r and w = w1, OF event_stamps(1)]) auto
  have "in_order w'"
    by (rule in_order_grown [OF r(3), where ev = "(claim_event c t)\<lparr>le_CreatedAt := io_clock w1 n\<rparr>" and n = n]) (use w1 ev in simp_all)
  moreover have "owners_in (r', w') = (if cl_ResourceID c = [] then owners_in (r, w) else (owners_in (r, w))(cl_ResourceID c \<mapsto> owner_of c))"
    by (rule resolver_claims.asserted) (simp add: claim_in_def run)
  moreover have "replayed (ow_Lineage w') = (replayed (ow_Lineage w))(claimKey g (cl_ResourceID c) \<mapsto> claim_of_event ((claim_event c t)\<lparr>le_CreatedAt := io_clock w1 n\<rparr>))"
    by (simp only: ev(1) w1(4) replayed_snoc replay_claim assms(3))
  ultimately show ?thesis using inv w1(1) by (auto simp: rebuildable_def)
qed

lemma recorded_step_rebuildable: "recorded_step g s s' \<Longrightarrow> rebuildable g s \<Longrightarrow> rebuildable g s'"
proof (induction rule: recorded_step.induct)
  case (claimed c r w r' w')
  then show ?case using claimed_rebuildable by blast
next
  case (claim_failed c r w e s')
  then have "owners_in s' = owners_in (r, w)" using resolver_claims.assert_refused [of c "(r, w)" e s'] by (simp add: claim_in_def)
  moreover obtain w' where s': "s' = (r, w')" "ow_Lineage w' = ow_Lineage w" "io_clock w' = io_clock w" "io_step w \<le> io_step w'"
    using claim_failed(1) by (cases c r w rule: claim_cases) auto
  moreover have "in_order w'" using in_order_later s'(2-4) claim_failed(2) unfolding rebuildable_def snd_conv by blast
  ultimately show ?case using claim_failed(2) by (simp add: rebuildable_def)
next
  case (resolved d i right r w res s')
  have inv: "rv_store r" "rv_lineage r" "in_order w" using resolved(2) by (simp_all add: rebuildable_def)
  have owners: "owners_in s' = owners_in (r, w)" by (rule Resolve_keeps [OF resolved(1)])
  obtain r1 w1 where s': "s' = (r1, w1)" by (cases s')
  have "rv_store r1 \<and> rv_lineage r1 \<and> in_order w1 \<and> replayed (ow_Lineage w1) = replayed (ow_Lineage w)"
  proof (cases "rv_domains r d")
    case None
    then show ?thesis using resolved(1) inv s' by (simp add: ownership_Resolve_def)
  next
    case (Some req)
    show ?thesis
    proof (cases rule: Resolve_cases [OF Some, where i = i and w = w and right = right])
      case (1 e r2 w2)
      then show ?thesis using resolved(1) s' inv getClaim_keeps [OF 1(1)] in_order_later [OF inv(3), of w2] by simp
    next
      case (2 claim r2 w2 w3)
      note k = getClaim_keeps [OF 2(1)]
      have o2: "in_order w2" using in_order_later [OF inv(3), of w2] k by simp
      obtain owner epoch where rec: "w1 = record_lineage (resolve_event d i right (adjudicate req i right claim r2) owner epoch) r2 w2" "r1 = r2"
        using 2(2,4) resolved(1) s' by auto
      show ?thesis
      proof (cases rule: record_lineage_cases [where ev = "resolve_event d i right (adjudicate req i right claim r2) owner epoch" and r = r2 and w = w2, OF event_stamps(2)])
        case 1
        then show ?thesis using rec k inv in_order_later [OF o2, of w1] by simp
      next
        case (2 t n)
        have "in_order w1" unfolding rec(1) by (rule in_order_grown [OF o2 2(1), where n = n]) (use 2 in simp_all)
        then show ?thesis using 2(1) rec k inv by (simp add: replayed_snoc replay_resolve)
      qed
    qed
  qed
  then show ?case using resolved(2) owners s' by (simp add: rebuildable_def)
qed

text \<open>
  The lineage is enough to rebuild the claims. Starting from empty tables, after any sequence of claims in one scope whose events were stored, of
  claims that failed and of resolutions, with a clock that advances, replaying the lineage gives for every resource the owner and the epoch
  that the resolver itself works with.
\<close>

theorem lineage_rebuilds_claims:
  assumes "(recorded_step g)\<^sup>*\<^sup>* (r0, w0) (r, w)" and "rv_store r0" and "rv_lineage r0" and "ow_Claims w0 = []" and "ow_Lineage w0 = []" and "strict_mono (io_clock w0)"
  shows "\<forall>i. i \<noteq> [] \<longrightarrow> map_option owner_of (RebuildClaimsFromLineage (ow_Lineage w) (claimKey g i)) = owners_in (r, w) i"
proof -
  have "rebuildable g (r0, w0)" using assms(2-6) by (simp add: rebuildable_def in_order_def replayed_def owners_in_def)
  with assms(1) have "rebuildable g (r, w)" by (induction rule: rtranclp_induct) (blast intro: recorded_step_rebuildable)+
  then show ?thesis using rebuild_in_order [of w] by (simp add: rebuildable_def)
qed

theorem lineage_rebuilds_claims_witness:
  "\<exists>r w. ownership_Claim terraform_claim wired_resolver empty_own = (Inr (), r, w) \<and>
     map_option owner_of (RebuildClaimsFromLineage (ow_Lineage w) (claimKey ''global'' ''rule-1'')) = Some (''terraform'', 1)"
proof -
  obtain r w where run: "ownership_Claim terraform_claim wired_resolver empty_own = (Inr (), r, w)" "length (ow_Lineage w) = 1"
    using terraform_claimed by blast
  have "recorded_step ''global'' (wired_resolver, empty_own) (r, w)" by (rule claimed [OF run(1)]) (use run(2) in \<open>simp_all add: terraform_claim_def empty_own_def\<close>)
  then have "map_option owner_of (RebuildClaimsFromLineage (ow_Lineage w) (claimKey ''global'' ''rule-1'')) = owners_in (r, w) ''rule-1''"
    using lineage_rebuilds_claims [of "''global''" wired_resolver empty_own r w]
    by (simp add: r_into_rtranclp wired_resolver_def SetClaimStore_def SetLineageRecorder_def empty_own_def strict_mono_def)
  also have "owners_in (r, w) ''rule-1'' = Some (''terraform'', 1)"
    using resolver_claims.asserted [of terraform_claim "(wired_resolver, empty_own)" "(r, w)"] run(1) by (simp add: claim_in_def terraform_claim_def owner_of_def)
  finally show ?thesis using run(1) by blast
qed

section \<open>Pages of the lineage\<close>

definition lineage_view :: "string \<Rightarrow> string \<Rightarrow> 'z own_env_scheme \<Rightarrow> lineage_event list" where
  "lineage_view scopeID resourceID w = rev (sort_key lineage_key (filter (lineage_matches scopeID resourceID) (ow_Lineage w)))"

lemma filter_below_sorted:
  fixes f :: "'a \<Rightarrow> 'b :: linorder"
  assumes "sorted_wrt (\<lambda>x y. f x < f y) xs" and "i < length xs"
  shows "filter (\<lambda>x. f x < f (xs ! i)) xs = take i xs"
proof -
  have less: "f (xs ! j) < f (xs ! i) \<longleftrightarrow> j < i" if "j < length xs" for j
    using assms that sorted_wrt_nth_less [OF assms(1)] by (metis linorder_neqE_nat not_less_iff_gr_or_eq)
  have "xs = take i xs @ drop i xs" by simp
  moreover have "filter (\<lambda>x. f x < f (xs ! i)) (take i xs) = take i xs" using less assms(2) by (auto simp: filter_id_conv in_set_conv_nth)
  moreover have "filter (\<lambda>x. f x < f (xs ! i)) (drop i xs) = []" using less assms(2) by (auto simp: filter_empty_conv in_set_conv_nth)
  ultimately show ?thesis by (metis append_Nil2 filter_append)
qed

lemma before_cursor_key: "before_cursor t k ev \<longleftrightarrow> t = 0 \<or> lineage_key ev < (t, k)"
  by (auto simp: before_cursor_def lineage_key_def time_is_zero_def)

lemma append_keeps_distinct:
  assumes "AppendLineage ev w = (res, w')" and "distinct (map le_ID (ow_Lineage w))"
  shows "distinct (map le_ID (ow_Lineage w'))"
  using assms
  by (auto simp: AppendLineage_def writable_def ensureWritable_def and_then_def io_call_def time_Now_def Let_def split: option.splits if_splits) blast+

lemma view_strict:
  assumes "distinct (map le_ID (ow_Lineage w))"
  shows "sorted_wrt (\<lambda>x y. lineage_key x < lineage_key y) (rev (lineage_view scopeID resourceID w))"
proof -
  have "distinct (map le_ID (filter (lineage_matches scopeID resourceID) (ow_Lineage w)))" using assms by (rule distinct_map_filter)
  then have "distinct (map lineage_key (filter (lineage_matches scopeID resourceID) (ow_Lineage w)))"
    by (auto simp: distinct_map inj_on_def lineage_key_def)
  then have "distinct (map lineage_key (rev (lineage_view scopeID resourceID w)))" by (simp add: lineage_view_def distinct_map)
  then have "sorted_wrt (<) (map lineage_key (rev (lineage_view scopeID resourceID w)))"
    unfolding strict_sorted_iff by (simp add: lineage_view_def)
  then show ?thesis by (simp only: sorted_wrt_map)
qed

lemma page_after:
  assumes "distinct (map le_ID (ow_Lineage w))" and "i < length (lineage_view scopeID resourceID w)" and "ev = lineage_view scopeID resourceID w ! i" and "le_CreatedAt ev \<noteq> 0"
  shows "rev (sort_key lineage_key (filter (\<lambda>e. lineage_matches scopeID resourceID e \<and> before_cursor (le_CreatedAt ev) (le_ID ev) e) (ow_Lineage w))) = drop (Suc i) (lineage_view scopeID resourceID w)"
proof -
  let ?L = "sort_key lineage_key (filter (lineage_matches scopeID resourceID) (ow_Lineage w))"
  have L: "rev (lineage_view scopeID resourceID w) = ?L" "length (lineage_view scopeID resourceID w) = length ?L" by (simp_all add: lineage_view_def)
  have ev: "ev = ?L ! (length ?L - Suc i)" using assms(2,3) by (simp add: lineage_view_def rev_nth)
  have "sort_key lineage_key (filter (\<lambda>e. lineage_matches scopeID resourceID e \<and> before_cursor (le_CreatedAt ev) (le_ID ev) e) (ow_Lineage w)) = filter (\<lambda>e. lineage_key e < lineage_key ev) ?L"
    using assms(4) by (simp add: filter_sort before_cursor_key lineage_key_def conj_commute)
  also have "\<dots> = take (length ?L - Suc i) ?L"
    unfolding ev using view_strict [OF assms(1), of scopeID resourceID] assms(2) unfolding L by (intro filter_below_sorted) simp_all
  finally show ?thesis by (simp add: lineage_view_def rev_take) (use assms(2) L(2) in \<open>simp add: lineage_view_def\<close>)
qed

text \<open>
  Paging through the lineage loses nothing and repeats nothing. While the database works, a search without a cursor gives the first events of the lineage of a scope and a resource,
  the latest first; with the instant and the identifier of any event as the cursor it gives exactly the events that follow it there, also among events
  of the same instant.
\<close>

theorem lineage_pages:
  assumes "distinct (map le_ID (ow_Lineage w))" and "no_faults w" and "i < length (lineage_view scopeID resourceID w)" and "ev = lineage_view scopeID resourceID w ! i"
    and "le_CreatedAt ev \<noteq> 0" and "0 < limit"
  shows "fst (lineage_Search scopeID resourceID 0 [] limit w) = Inr (take (nat limit) (lineage_view scopeID resourceID w)) \<and>
    fst (lineage_Search scopeID resourceID (le_CreatedAt ev) (le_ID ev) limit w) = Inr (take (nat limit) (drop (Suc i) (lineage_view scopeID resourceID w)))"
proof -
  have "before_cursor 0 [] e" for e by (simp add: before_cursor_key)
  then show ?thesis using page_after [OF assms(1,3-5)] assms(2,6)
    by (simp add: lineage_Search_def ListLineageCursor_def io_call_ok Let_def) (simp add: lineage_view_def)
qed

definition two_events :: own_env where
  "two_events = empty_own\<lparr>ow_Lineage := [(claim_event terraform_claim 5)\<lparr>le_ID := ''a''\<rparr>, (claim_event terraform_claim 5)\<lparr>le_ID := ''b''\<rparr>]\<rparr>"

theorem lineage_pages_witness:
  "map_sum id (map le_ID) (fst (lineage_Search [] [] 5 ''b'' 1 two_events)) = Inr [''a'']"
proof -
  have view: "lineage_view [] [] two_events = [(claim_event terraform_claim 5)\<lparr>le_ID := ''b''\<rparr>, (claim_event terraform_claim 5)\<lparr>le_ID := ''a''\<rparr>]"
    by (simp add: lineage_view_def two_events_def lineage_matches_def lineage_key_def claim_event_def)
  have "fst (lineage_Search [] [] (le_CreatedAt ((claim_event terraform_claim 5)\<lparr>le_ID := ''b''\<rparr>)) (le_ID ((claim_event terraform_claim 5)\<lparr>le_ID := ''b''\<rparr>)) 1 two_events) =
      Inr (take (nat 1) (drop (Suc 0) (lineage_view [] [] two_events)))"
    by (rule lineage_pages [THEN conjunct2]) (simp_all add: view, simp_all add: two_events_def empty_own_def no_faults_def claim_event_def)
  then show ?thesis by (simp add: view claim_event_def)
qed

end
