(* ===== verification/Policy.thy ===== *)
theory Policy
  imports Complex_Main Ownership Breaker
begin

text \<open>
  Admission of mutations: the rules of \<open>internal/policy/engine\<close>, the merging of decisions of
  \<open>internal/policy/federation\<close> and \<open>Authorize\<close> of \<open>internal/policy/admission\<close>, which asks the ownership resolver
  about every resource before the rules. A drift is a rational number, as every finite \<open>float64\<close> is.
\<close>

section \<open>The rules\<close>

type_synonym decision = string

definition DecisionAllow :: decision where "DecisionAllow = ''allow''"
definition DecisionDeny :: decision where "DecisionDeny = ''deny''"
definition DecisionWarn :: decision where "DecisionWarn = ''warn''"
definition DecisionAuditOnly :: decision where "DecisionAuditOnly = ''audit_only''"
definition DecisionQuarantine :: decision where "DecisionQuarantine = ''quarantine''"
definition DecisionRequireApproval :: decision where "DecisionRequireApproval = ''require_approval''"
definition DecisionCooldown :: decision where "DecisionCooldown = ''cooldown''"

lemmas decision_defs = DecisionAllow_def DecisionDeny_def DecisionWarn_def DecisionAuditOnly_def DecisionQuarantine_def DecisionRequireApproval_def DecisionCooldown_def

record policy_rule =
  pr_ID :: string
  pr_Description :: string
  pr_Target :: string
  pr_Condition :: string
  pr_Decision :: decision

record governance_policy =
  po_ID :: string
  po_Name :: string
  po_Rules :: "policy_rule list"
  po_Enabled :: bool

record evaluation_context =
  ec_TargetType :: string
  ec_MutationCount :: int
  ec_Drift :: rat
  ec_ResourceIDs :: "string list"
  ec_BreakerState :: breaker_state
  ec_InMaintenance :: bool
  ec_TraceID :: string

record policy_violation =
  vo_PolicyID :: string
  vo_RuleID :: string
  vo_Description :: string

record admission_decision =
  ad_Allowed :: bool
  ad_Decision :: decision
  ad_Reason :: string
  ad_Violations :: "policy_violation list"
  ad_TraceID :: string

text \<open>\<open>fmt.Sscanf\<close> with the format \<open>mutation_count > %d\<close>: a blank of the format stands for one or more blanks that are not line feeds, a number is preceded
  by any such blanks. The limit keeps its zero when the text does not match.\<close>

definition scan_blank :: "char \<Rightarrow> bool" where
  "scan_blank c \<longleftrightarrow> c = CHR '' '' \<or> c = CHR 0x09 \<or> c = CHR 0x0B \<or> c = CHR 0x0C \<or> c = CHR 0x0D"

definition scan_word :: "string \<Rightarrow> string \<Rightarrow> string option" where
  "scan_word word s = (if HasPrefix s word then Some (drop (length word) s) else None)"

definition scan_blanks :: "string \<Rightarrow> string option" where
  "scan_blanks s = (if s = [] \<or> scan_blank (hd s) then Some (dropWhile scan_blank s) else None)"

definition scan_int :: "string \<Rightarrow> int option" where
  "scan_int s =
     (let t = dropWhile scan_blank s;
          (sign, u) = (case t of c # cs \<Rightarrow> if c = CHR ''+'' \<or> c = CHR ''-'' then ([c], cs) else ([], t) | [] \<Rightarrow> ([], []));
          ds = takeWhile (\<lambda>c. CHR ''0'' \<le> c \<and> c \<le> CHR ''9'') u
      in if ds = [] then None else ParseInt (sign @ ds))"

definition scan_limit :: "string \<Rightarrow> int" where
  "scan_limit s =
     (case Option.bind (Option.bind (Option.bind (Option.bind (scan_word ''mutation_count'' s) scan_blanks) (scan_word ''>'')) scan_blanks) scan_int of
        None \<Rightarrow> 0 | Some n \<Rightarrow> n)"

definition rule_matches :: "policy_rule \<Rightarrow> 'z evaluation_context_scheme \<Rightarrow> bool" where
  "rule_matches r ctx =
     (if pr_ID r = ''deny-on-breaker-open'' then ec_BreakerState ctx = StateOpen
      else if pr_ID r = ''quarantine-on-high-drift'' then ec_Drift ctx > 1 / 2
      else if pr_ID r = ''require-approval-on-large-mutation'' then ec_MutationCount ctx > 100
      else if pr_ID r = ''deny-outside-maintenance-window'' then \<not> ec_InMaintenance ctx
      else Contains (pr_Condition r) ''mutation_count >'' \<and> ec_MutationCount ctx > scan_limit (pr_Condition r))"

text \<open>A decision that the map does not name has priority zero.\<close>

definition engine_priority :: "decision \<Rightarrow> int" where
  "engine_priority d =
     (if d = DecisionDeny then 4 else if d = DecisionRequireApproval then 3 else if d = DecisionQuarantine then 2 else if d = DecisionWarn then 1 else 0)"

definition isMoreRestrictive :: "decision \<Rightarrow> decision \<Rightarrow> bool" where
  "isMoreRestrictive new current \<longleftrightarrow> engine_priority new > engine_priority current"

definition apply_rule :: "governance_policy \<Rightarrow> 'z evaluation_context_scheme \<Rightarrow> admission_decision \<Rightarrow> policy_rule \<Rightarrow> admission_decision" where
  "apply_rule p ctx d r =
     (if pr_Target r \<noteq> ec_TargetType ctx \<and> pr_Target r \<noteq> ''*'' then d
      else if rule_matches r ctx then
        let d1 = d\<lparr>ad_Violations := ad_Violations d @ [\<lparr>vo_PolicyID = po_ID p, vo_RuleID = pr_ID r, vo_Description = pr_Description r\<rparr>]\<rparr> in
        if isMoreRestrictive (pr_Decision r) (ad_Decision d1) then d1\<lparr>ad_Decision := pr_Decision r, ad_Reason := pr_Description r\<rparr> else d1
      else d)"

definition policy_Evaluate :: "governance_policy list \<Rightarrow> 'z evaluation_context_scheme \<Rightarrow> admission_decision" where
  "policy_Evaluate policies ctx =
     (let d0 = \<lparr>ad_Allowed = True, ad_Decision = DecisionAllow, ad_Reason = [], ad_Violations = [], ad_TraceID = ec_TraceID ctx\<rparr>;
          d = foldl (\<lambda>d p. if po_Enabled p then foldl (apply_rule p ctx) d (po_Rules p) else d) d0 policies
      in if ad_Decision d = DecisionDeny then d\<lparr>ad_Allowed := False\<rparr> else d)"

section \<open>Merging the decisions of several scopes\<close>

record scoped_decision =
  sd_Scope :: string
  sd_ScopeID :: string
  sd_BundleID :: string
  sd_Decision :: decision
  sd_Reason :: string
  sd_RuleID :: string

record federated_decision =
  fd_FinalDecision :: decision
  fd_Contributors :: "scoped_decision list"
  fd_Reason :: string

definition federation_priority :: "decision \<Rightarrow> int" where
  "federation_priority d =
     (if d = DecisionDeny then 100 else if d = DecisionQuarantine then 80 else if d = DecisionRequireApproval then 60 else if d = DecisionCooldown then 40
      else if d = DecisionWarn then 20 else if d = DecisionAuditOnly then 10 else 0)"

text \<open>\<open>sort.Slice\<close>: which of several decisions of the same priority comes first is not determined; here it is the first of the list.\<close>

definition MergeDecisions :: "scoped_decision list \<Rightarrow> federated_decision" where
  "MergeDecisions decisions =
     (if decisions = [] then \<lparr>fd_FinalDecision = DecisionAllow, fd_Contributors = [], fd_Reason = ''no decisions to merge, default allow''\<rparr>
      else let sorted = sort_key (\<lambda>d. - federation_priority (sd_Decision d)) decisions in
        \<lparr>fd_FinalDecision = sd_Decision (hd sorted), fd_Contributors = sorted, fd_Reason = sd_Reason (hd sorted)\<rparr>)"

record federated_bundle =
  fb_BundleID :: string
  fb_Scope :: string
  fb_ScopeID :: string
  fb_Priority :: int

definition RegisterBundle :: "federated_bundle \<Rightarrow> (string \<rightharpoonup> federated_bundle) \<Rightarrow> string \<rightharpoonup> federated_bundle" where
  "RegisterBundle b bundles = bundles(fb_BundleID b \<mapsto> b)"

text \<open>The bundles in the order in which the map is ranged over.\<close>

definition ResolveScopeHierarchy :: "string \<Rightarrow> string \<Rightarrow> federated_bundle list \<Rightarrow> federated_bundle list" where
  "ResolveScopeHierarchy tenantID zoneID bundles =
     sort_key (\<lambda>b. - fb_Priority b) (filter (\<lambda>b. fb_Scope b = ''global'' \<or> fb_Scope b = ''tenant'' \<and> fb_ScopeID b = tenantID \<or> fb_Scope b = ''zone'' \<and> fb_ScopeID b = zoneID) bundles)"

section \<open>Admission\<close>

text \<open>The first resource that is refused decides; the context's other fields are not read before the rules.\<close>

fun check_ownership :: "string list \<Rightarrow> resolver \<Rightarrow> 'z own_env_scheme \<Rightarrow> admission_decision option result \<times> resolver \<times> 'z own_env_scheme" where
  "check_ownership [] r w = (Inr None, r, w)"
| "check_ownership (sik # siks) r w =
     (case ownership_Resolve ''cf-sync'' sik RightUpdate r w of
        (Inl e, r1, w1) \<Rightarrow> (Inl e, r1, w1)
      | (Inr out, r1, w1) \<Rightarrow>
          if \<not> ro_Allowed out then
            (Inr (Some \<lparr>ad_Allowed = False, ad_Decision = DecisionDeny, ad_Reason = ''ownership violation on '' @ sik @ '': '' @ ro_Reason out, ad_Violations = [], ad_TraceID = []\<rparr>), r1, w1)
          else check_ownership siks r1 w1)"

definition admission_Authorize ::
  "governance_policy list \<Rightarrow> evaluation_context \<Rightarrow> resolver \<Rightarrow> 'z own_env_scheme \<Rightarrow> admission_decision result \<times> resolver \<times> 'z own_env_scheme" where
  "admission_Authorize policies ctx r w =
     (case check_ownership (ec_ResourceIDs ctx) r w of
        (Inl e, r1, w1) \<Rightarrow> (Inl e, r1, w1)
      | (Inr (Some d), r1, w1) \<Rightarrow> (Inr d, r1, w1)
      | (Inr None, r1, w1) \<Rightarrow> (Inr (policy_Evaluate policies ctx), r1, w1))"

section \<open>What the rules decide\<close>

definition applies :: "'z evaluation_context_scheme \<Rightarrow> policy_rule \<Rightarrow> bool" where
  "applies ctx r \<longleftrightarrow> (pr_Target r = ec_TargetType ctx \<or> pr_Target r = ''*'') \<and> rule_matches r ctx"

definition matched :: "governance_policy list \<Rightarrow> 'z evaluation_context_scheme \<Rightarrow> (governance_policy \<times> policy_rule) list" where
  "matched policies ctx = concat (map (\<lambda>p. if po_Enabled p then
     map (Pair p) (filter (applies ctx) (po_Rules p)) else []) policies)"

definition violation_of :: "governance_policy \<times> policy_rule \<Rightarrow> policy_violation" where
  "violation_of pr = \<lparr>vo_PolicyID = po_ID (fst pr), vo_RuleID = pr_ID (snd pr), vo_Description = pr_Description (snd pr)\<rparr>"

text \<open>A decision that accounts for a list of matched rules.\<close>

definition accounts :: "(governance_policy \<times> policy_rule) list \<Rightarrow> admission_decision \<Rightarrow> bool" where
  "accounts ms d \<longleftrightarrow> ad_Allowed d \<and> ad_Violations d = map violation_of ms \<and>
     (\<forall>m \<in> set ms. engine_priority (pr_Decision (snd m)) \<le> engine_priority (ad_Decision d)) \<and>
     (ad_Decision d = DecisionAllow \<or> (\<exists>m \<in> set ms. pr_Decision (snd m) = ad_Decision d \<and> pr_Description (snd m) = ad_Reason d))"

lemma apply_rule_accounts:
  assumes "accounts ms d"
  shows "accounts (ms @ (if applies ctx r then [(p, r)] else [])) (apply_rule p ctx d r)"
  using assms by (auto simp: accounts_def applies_def apply_rule_def violation_of_def isMoreRestrictive_def Let_def)

lemma apply_rules_account:
  assumes "accounts ms d"
  shows "accounts (ms @ map (Pair p) (filter (applies ctx) rs)) (foldl (apply_rule p ctx) d rs)"
  using assms
proof (induction rs arbitrary: ms d)
  case (Cons r rs)
  show ?case using Cons.IH [OF apply_rule_accounts [OF Cons.prems, where r = r and ctx = ctx and p = p]] by (cases "applies ctx r") simp_all
qed simp

lemma policies_account:
  assumes "accounts ms d"
  shows "accounts (ms @ matched ps ctx) (foldl (\<lambda>d p. if po_Enabled p then foldl (apply_rule p ctx) d (po_Rules p) else d) d ps)"
  using assms
proof (induction ps arbitrary: ms d)
  case (Cons p ps)
  show ?case
  proof (cases "po_Enabled p")
    case True
    then show ?thesis using Cons.IH [OF apply_rules_account [OF Cons.prems, where p = p and ctx = ctx and rs = "po_Rules p"]] by (simp add: matched_def)
  next
    case False
    then show ?thesis using Cons.IH [OF Cons.prems] by (simp add: matched_def)
  qed
qed (simp add: matched_def)

lemma priority_deny: "engine_priority d = 4 \<longleftrightarrow> d = DecisionDeny" "engine_priority d \<le> 4"
  by (simp_all add: engine_priority_def)

lemma evaluate_spec:
  "ad_Violations (policy_Evaluate ps ctx) = map violation_of (matched ps ctx)"
  "ad_Allowed (policy_Evaluate ps ctx) \<longleftrightarrow> (\<forall>m \<in> set (matched ps ctx). pr_Decision (snd m) \<noteq> DecisionDeny)"
  "m \<in> set (matched ps ctx) \<Longrightarrow> engine_priority (pr_Decision (snd m)) \<le> engine_priority (ad_Decision (policy_Evaluate ps ctx))"
  "ad_Decision (policy_Evaluate ps ctx) = DecisionAllow \<or> (\<exists>m \<in> set (matched ps ctx). pr_Decision (snd m) = ad_Decision (policy_Evaluate ps ctx))"
proof -
  define d0 where "d0 = \<lparr>ad_Allowed = True, ad_Decision = DecisionAllow, ad_Reason = [], ad_Violations = [], ad_TraceID = ec_TraceID ctx\<rparr>"
  define d where "d = foldl (\<lambda>d p. if po_Enabled p then foldl (apply_rule p ctx) d (po_Rules p) else d) d0 ps"
  have "accounts [] d0" by (simp add: accounts_def d0_def)
  then have acc: "accounts (matched ps ctx) d" using policies_account [of "[]" d0 ps ctx] by (simp add: d_def)
  have ev: "policy_Evaluate ps ctx = (if ad_Decision d = DecisionDeny then d\<lparr>ad_Allowed := False\<rparr> else d)" by (simp add: policy_Evaluate_def d_def d0_def Let_def)
  have deny: "ad_Decision d = DecisionDeny \<longleftrightarrow> (\<exists>m \<in> set (matched ps ctx). pr_Decision (snd m) = DecisionDeny)"
  proof
    assume "ad_Decision d = DecisionDeny"
    then show "\<exists>m \<in> set (matched ps ctx). pr_Decision (snd m) = DecisionDeny" using acc unfolding accounts_def by (auto simp: decision_defs)
  next
    assume "\<exists>m \<in> set (matched ps ctx). pr_Decision (snd m) = DecisionDeny"
    then obtain m where "m \<in> set (matched ps ctx)" "engine_priority (pr_Decision (snd m)) = 4" using priority_deny(1) by blast
    then have "4 \<le> engine_priority (ad_Decision d)" using acc unfolding accounts_def by force
    then show "ad_Decision d = DecisionDeny" using priority_deny [of "ad_Decision d"] by simp
  qed
  show "ad_Violations (policy_Evaluate ps ctx) = map violation_of (matched ps ctx)" using acc unfolding ev accounts_def by simp
  show "ad_Allowed (policy_Evaluate ps ctx) \<longleftrightarrow> (\<forall>m \<in> set (matched ps ctx). pr_Decision (snd m) \<noteq> DecisionDeny)" using acc deny unfolding ev accounts_def by simp
  have dec: "ad_Decision (policy_Evaluate ps ctx) = ad_Decision d" by (simp add: ev)
  show "m \<in> set (matched ps ctx) \<Longrightarrow> engine_priority (pr_Decision (snd m)) \<le> engine_priority (ad_Decision (policy_Evaluate ps ctx))"
    using acc unfolding dec accounts_def by blast
  show "ad_Decision (policy_Evaluate ps ctx) = DecisionAllow \<or> (\<exists>m \<in> set (matched ps ctx). pr_Decision (snd m) = ad_Decision (policy_Evaluate ps ctx))"
    using acc unfolding dec accounts_def by blast
qed

section \<open>What is admitted\<close>

lemma AppendLineage_faults: "AppendLineage ev w = (res, w') \<Longrightarrow> io_fault w' = io_fault w"
  by (auto simp: AppendLineage_def writable_def ensureWritable_def and_then_def io_call_def time_Now_def Let_def split: option.splits if_splits)

lemma record_lineage_faults: "no_faults (record_lineage ev r w) = no_faults w"
proof -
  obtain res w' where app: "AppendLineage (ev (fst (time_Now w))) (snd (time_Now w)) = (res, w')" by (cases "AppendLineage (ev (fst (time_Now w))) (snd (time_Now w))")
  have "record_lineage ev r w = (if rv_lineage r then w' else w)" by (simp add: record_lineage_def split_beta app)
  then show ?thesis using AppendLineage_faults [OF app] by (simp add: no_faults_def time_Now_def)
qed

text \<open>With a store that works every claim is found, also that of a resource without a name.\<close>

lemma getClaim_stored:
  assumes "rv_store r" and "no_faults w"
  obtains found r' w' where "getClaim i r w = (Inr found, r', w')" "map_option owner_of found = owners_in (r, w) i" "no_faults w'"
proof (cases "find (\<lambda>q. cw_ResourceID q = i) (ow_Claims w)")
  case None
  then have "getClaim i r w = (Inr None, r, w\<lparr>io_step := Suc (io_step w)\<rparr>)" using assms by (simp add: getClaim_def own_GetClaim_def io_call_ok no_claim_def)
  then show ?thesis by (rule that) (use assms None in \<open>simp_all add: owners_in_def\<close>)
next
  case (Some q)
  have "cw_ResourceID q = i" using Some by (auto simp: find_Some_iff)
  then have "getClaim i r w = (Inr (if i = [] then None else Some (row_claim q)), if i = [] then r else r\<lparr>rv_claims := (rv_claims r)(i \<mapsto> row_claim q)\<rparr>, w\<lparr>io_step := Suc (io_step w)\<rparr>)"
    using assms Some by (simp add: getClaim_def own_GetClaim_def io_call_ok row_claim_def)
  then show ?thesis by (rule that) (use assms Some in \<open>simp_all add: owners_in_def row_claim_def owner_of_def\<close>)
qed

lemma Resolve_stored:
  assumes "rv_store r" and "no_faults w" and "rv_domains r d = Some req"
  obtains out r' w' where "ownership_Resolve d i right r w = (Inr out, r', w')" "ro_Allowed out \<longleftrightarrow> entitled r req right (owners_in (r, w) i)"
    "rv_store r'" "no_faults w'" "rv_domains r' = rv_domains r" "owners_in (r', w') = owners_in (r, w)"
proof -
  obtain found r1 w1 where found: "getClaim i r w = (Inr found, r1, w1)" "map_option owner_of found = owners_in (r, w) i" "no_faults w1"
    by (rule getClaim_stored [OF assms(1,2)])
  have keeps: "rv_store r1" "rv_domains r1 = rv_domains r" using getClaim_keeps [OF found(1)] assms(1) by simp_all
  have rule: "entitled r1 = entitled r" by (simp add: entitled_def domain_of_def keeps(2) fun_eq_iff split: option.splits)
  show ?thesis
  proof (cases rule: Resolve_cases [OF assms(3), where i = i and w = w and right = right])
    case (1 e r2 w2)
    then show ?thesis using found(1) by simp
  next
    case (2 claim r2 w2 w3)
    then have same: "claim = found" "r2 = r1" "w2 = w1" using found(1) by simp_all
    obtain owner epoch where w3: "w3 = record_lineage (resolve_event d i right (adjudicate req i right claim r2) owner epoch) r2 w2" using 2(4) by blast
    have run: "ownership_Resolve d i right r w = (Inr (adjudicate req i right found r1), r1, w3)" using 2(2) same by simp
    show ?thesis
    proof (rule that [OF run])
      show "ro_Allowed (adjudicate req i right found r1) \<longleftrightarrow> entitled r req right (owners_in (r, w) i)" by (simp only: adjudicate_entitled found(2) rule)
      show "no_faults w3" unfolding w3 record_lineage_faults using found(3) same by simp
      show "owners_in (r1, w3) = owners_in (r, w)" by (rule Resolve_keeps [OF run])
    qed (use keeps in simp_all)
  qed
qed

lemma check_ownership_stored:
  assumes "rv_store r" and "no_faults w" and "rv_domains r ''cf-sync'' = Some req"
  obtains refused r' w' where "check_ownership siks r w = (Inr refused, r', w')" "no_faults w'"
    "refused = None \<longleftrightarrow> (\<forall>i \<in> set siks. entitled r req RightUpdate (owners_in (r, w) i))" "\<And>d. refused = Some d \<Longrightarrow> \<not> ad_Allowed d"
  using assms
proof (induction siks arbitrary: r w thesis)
  case (Cons sik siks)
  obtain out r1 w1 where out: "ownership_Resolve ''cf-sync'' sik RightUpdate r w = (Inr out, r1, w1)" "ro_Allowed out \<longleftrightarrow> entitled r req RightUpdate (owners_in (r, w) sik)"
      "rv_store r1" "no_faults w1" "rv_domains r1 = rv_domains r" "owners_in (r1, w1) = owners_in (r, w)"
    by (rule Resolve_stored [OF Cons.prems(2-4), where i = sik and right = RightUpdate])
  show ?case
  proof (cases "ro_Allowed out")
    case False
    then show ?thesis using out by (intro Cons.prems(1)) (simp, simp, simp, fastforce)
  next
    case True
    have req: "rv_domains r1 ''cf-sync'' = Some req" using out(5) Cons.prems(4) by simp
    obtain refused r' w' where rest: "check_ownership siks r1 w1 = (Inr refused, r', w')" "no_faults w'"
        "refused = None \<longleftrightarrow> (\<forall>i \<in> set siks. entitled r1 req RightUpdate (owners_in (r1, w1) i))" "\<And>d. refused = Some d \<Longrightarrow> \<not> ad_Allowed d"
      using Cons.IH [OF _ out(3,4) req] by blast
    have rule: "entitled r1 = entitled r" by (simp add: entitled_def domain_of_def out(5) fun_eq_iff split: option.splits)
    show ?thesis
    proof (rule Cons.prems(1))
      show "check_ownership (sik # siks) r w = (Inr refused, r', w')" using True out(1) rest(1) by simp
      show "refused = None \<longleftrightarrow> (\<forall>i \<in> set (sik # siks). entitled r req RightUpdate (owners_in (r, w) i))" using rest(3) True out(2) unfolding rule out(6) by simp
    qed (use rest in simp_all)
  qed
qed simp

lemma Authorize_stored:
  assumes "rv_store r" and "no_faults w" and "rv_domains r ''cf-sync'' = Some req"
  shows "\<exists>d r' w'. admission_Authorize policies ctx r w = (Inr d, r', w') \<and> no_faults w' \<and>
    (ad_Allowed d \<longleftrightarrow> (\<forall>i \<in> set (ec_ResourceIDs ctx). entitled r req RightUpdate (owners_in (r, w) i)) \<and> (\<forall>m \<in> set (matched policies ctx). pr_Decision (snd m) \<noteq> DecisionDeny))"
proof -
  obtain refused r' w' where run: "check_ownership (ec_ResourceIDs ctx) r w = (Inr refused, r', w')" "no_faults w'"
      "refused = None \<longleftrightarrow> (\<forall>i \<in> set (ec_ResourceIDs ctx). entitled r req RightUpdate (owners_in (r, w) i))" "\<And>d. refused = Some d \<Longrightarrow> \<not> ad_Allowed d"
    by (rule check_ownership_stored [OF assms, of "ec_ResourceIDs ctx"]) (rule that)
  show ?thesis
  proof (cases refused)
    case None
    then show ?thesis using run evaluate_spec(2) [of policies ctx] by (simp add: admission_Authorize_def)
  next
    case (Some d)
    then show ?thesis using run(1,2,3) run(4) [OF Some] by (simp add: admission_Authorize_def)
  qed
qed

text \<open>
  What is admitted. With a store of claims that works and the domain \<open>cf-sync\<close> registered, \<open>Authorize\<close> always answers, and allows a set of changes exactly when
  the domain may update every resource under the claims as they are stored and no rule denies that is enabled, aimed at the kind of target and fulfilled by the context.
\<close>

theorem admission_iff:
  assumes "rv_store r" and "no_faults w" and "rv_domains r ''cf-sync'' = Some req"
  shows "\<exists>d r' w'. admission_Authorize policies ctx r w = (Inr d, r', w') \<and>
    (ad_Allowed d \<longleftrightarrow> (\<forall>i \<in> set (ec_ResourceIDs ctx). entitled r req RightUpdate (owners_in (r, w) i)) \<and>
      (\<forall>p \<in> set policies. \<forall>rl \<in> set (po_Rules p). po_Enabled p \<and> (pr_Target rl = ec_TargetType ctx \<or> pr_Target rl = ''*'') \<and> rule_matches rl ctx \<longrightarrow> pr_Decision rl \<noteq> DecisionDeny))"
proof -
  have "(\<forall>m \<in> set (matched policies ctx). pr_Decision (snd m) \<noteq> DecisionDeny) \<longleftrightarrow>
      (\<forall>p \<in> set policies. \<forall>rl \<in> set (po_Rules p). po_Enabled p \<and> (pr_Target rl = ec_TargetType ctx \<or> pr_Target rl = ''*'') \<and> rule_matches rl ctx \<longrightarrow> pr_Decision rl \<noteq> DecisionDeny)"
    unfolding matched_def applies_def by (force split: if_splits)
  then show ?thesis using Authorize_stored [OF assms, of policies ctx] by blast
qed

definition breaker_policy :: governance_policy where
  "breaker_policy = \<lparr>po_ID = ''base'', po_Name = ''base'', po_Rules =
     [\<lparr>pr_ID = ''deny-on-breaker-open'', pr_Description = ''breaker open'', pr_Target = ''mutation'', pr_Condition = [], pr_Decision = DecisionDeny\<rparr>], po_Enabled = True\<rparr>"

definition small_change :: evaluation_context where
  "small_change = \<lparr>ec_TargetType = ''mutation'', ec_MutationCount = 1, ec_Drift = 0, ec_ResourceIDs = [''rule-2''], ec_BreakerState = StateClosed, ec_InMaintenance = False, ec_TraceID = []\<rparr>"

theorem admission_iff_witness:
  "\<exists>d r' w'. admission_Authorize [breaker_policy] small_change wired_resolver empty_own = (Inr d, r', w') \<and> ad_Allowed d"
proof -
  have "\<exists>d r' w'. admission_Authorize [breaker_policy] small_change wired_resolver empty_own = (Inr d, r', w') \<and>
    (ad_Allowed d \<longleftrightarrow> (\<forall>i \<in> set (ec_ResourceIDs small_change). entitled wired_resolver cf_sync_domain RightUpdate (owners_in (wired_resolver, empty_own) i)) \<and>
      (\<forall>p \<in> set [breaker_policy]. \<forall>rl \<in> set (po_Rules p). po_Enabled p \<and> (pr_Target rl = ec_TargetType small_change \<or> pr_Target rl = ''*'') \<and> rule_matches rl small_change \<longrightarrow>
         pr_Decision rl \<noteq> DecisionDeny))"
    by (rule admission_iff) (simp_all add: wired_defs empty_own_def no_faults_def)
  then show ?thesis by (simp add: small_change_def breaker_policy_def rule_matches_def entitled_def owners_in_def cf_sync_domain_def empty_own_def wired_defs)
qed

text \<open>The merged decision is one of the highest priority.\<close>

lemma merged_most_restrictive:
  assumes "d \<in> set decisions"
  shows "federation_priority (sd_Decision d) \<le> federation_priority (fd_FinalDecision (MergeDecisions decisions)) \<and>
    fd_FinalDecision (MergeDecisions decisions) \<in> sd_Decision ` set decisions"
proof -
  let ?f = "\<lambda>d. - federation_priority (sd_Decision d)"
  have ne: "decisions \<noteq> []" using assms by auto
  then obtain x xs where sorted: "sort_key ?f decisions = x # xs" by (cases "sort_key ?f decisions") (auto dest: arg_cong [where f = set])
  have "x \<in> set decisions" "d \<in> set (x # xs)" using sorted assms by (metis set_sort list.set_intros(1)) (metis set_sort sorted assms)
  moreover have "\<forall>y \<in> set xs. ?f x \<le> ?f y" using sorted_sort_key [of ?f decisions] unfolding sorted by simp
  ultimately show ?thesis using ne sorted by (auto simp: MergeDecisions_def Let_def)
qed

text \<open>The two scales disagree: a quarantine outranks a required approval in a federation and is outranked by it in the engine.\<close>

lemma scales_disagree:
  "isMoreRestrictive DecisionRequireApproval DecisionQuarantine \<and> federation_priority DecisionRequireApproval < federation_priority DecisionQuarantine"
  by (simp add: isMoreRestrictive_def engine_priority_def federation_priority_def decision_defs)

text \<open>A condition that the scanner cannot read, such as one with \<open>>=\<close>, has the limit zero.\<close>

lemma unreadable_limit: "scan_limit ''mutation_count >= 500'' = 0"
  by (simp add: scan_limit_def scan_word_def scan_blanks_def scan_blank_def HasPrefix_def)

end
