(* ===== verification/Pipeline.thy ===== *)
theory Pipeline
  imports Policy Assembly Scheduler Rollback Risk
begin

text \<open>
  The pipeline of \<open>internal/orchestrator/pipeline\<close>: \<open>DryRun\<close> with its stages, over the state machine, the breaker, the assembler, the planner, the admission controller
  and the translators. The listing of the provider's rules and the answer of the resource governor, which counts in floating point, are parameters. Metrics, the times in the
  result and the audit journal, which none of this code reads back, are left out, and of the tracing only the identifiers of the trace and of the span are arguments; the system events of \<open>internal/runtime/bus\<close> are published.
\<close>

section \<open>System events\<close>

definition bus_Emit :: "'z subscribers option \<Rightarrow> string \<Rightarrow> string \<Rightarrow> metadata \<Rightarrow> 'z db_env_scheme \<Rightarrow> 'z db_env_scheme" where
  "bus_Emit newBus eventType runID meta w =
     (let (_, w1) = time_Now w in
      case newBus of None \<Rightarrow> w1 | Some subs \<Rightarrow> snd (bus_Publish subs CategoryLifecycle eventType ''default'' runID (json_of_metadata meta) w1))"

section \<open>Reports of a plan\<close>

text \<open>\<open>internal/abuseipdb/translator\<close>.\<close>

record translated_report =
  tr_ExecutionID :: string
  tr_OriginatingOpID :: string
  tr_StableIdentityKey :: string
  tr_IP :: string
  tr_Categories :: string
  tr_Comment :: string
  tr_CreatedAt :: go_time

definition report_categories :: "string \<Rightarrow> string" where
  "report_categories notes =
     (let n = ToLower notes;
          cats = (if Contains n ''ssh'' then [''22''] else []) @
            (if Contains n ''http'' \<or> Contains n ''wordpress'' then [''21'', ''19''] else []) @
            (if Contains n ''bruteforce'' then [''18''] else [])
      in if cats = [] then ''21'' else join_char (CHR '','') cats)"

definition buildCanonicalComment :: "string \<Rightarrow> string \<Rightarrow> string" where
  "buildCanonicalComment notes opID =
     (let lower = ToLower notes;
          source = (if Contains lower ''openresty'' then SourceOpenRestyWAF else SourceCrowdSecWAF);
          wordpress = (Contains lower ''wordpress'' \<or> Contains lower ''xmlrpc'' \<or> Contains lower ''wp-login'')
      in Build \<lparr>ci_Source = source, ci_Hits = 1, ci_WindowSec = 300, ci_Action = ''block'',
           ci_AbuseType = (if wordpress then ''wordpress_probe'' else ''suspicious_probe''),
           ci_Categories = (if wordpress then [''Web App Attack'', ''Bad Web Bot''] else [''Bad Web Bot'']), ci_RuleID = opID,
           ci_URIs = (if wordpress then if Contains lower ''xmlrpc'' then [''/xmlrpc.php''] else [''/wp-login.php''] else [''/'']), ci_Confidence = ''0.70''\<rparr>)"

definition report_execution_id :: "string \<Rightarrow> string \<Rightarrow> string" where
  "report_execution_id ip opID = ''report-'' @ take 16 (sha256_hex (''abuseipdb:'' @ ip @ '':'' @ opID))"

definition report_operation :: "operation \<Rightarrow> go_time \<Rightarrow> translated_report result" where
  "report_operation op now =
     (let top = ''abuseipdb.translator.translateOperation'' in
      case op_Payload op of
        None \<Rightarrow> Inl (New top ''payload is not a map'')
      | Some payload \<Rightarrow>
          if op_ResourceType op \<noteq> ''ip_access_rules'' then Inl (New top (''unsupported resource type: '' @ op_ResourceType op))
          else let config = map_member ''configuration'' payload; target = string_member ''target'' config in
            if target \<noteq> ''ip'' then Inl (New top (''unsupported target type: '' @ target))
            else let ip = string_member ''value'' config; notes = string_member ''notes'' payload in
              Inr \<lparr>tr_ExecutionID = report_execution_id ip (op_OperationID op), tr_OriginatingOpID = op_OperationID op, tr_StableIdentityKey = op_TargetID op, tr_IP = ip,
                tr_Categories = report_categories notes, tr_Comment = buildCanonicalComment notes (op_OperationID op), tr_CreatedAt = now\<rparr>)"

text \<open>An operation that is not translated is skipped; the clock is read for those that are.\<close>

fun report_operations :: "operation list \<Rightarrow> 'z io_env_scheme \<Rightarrow> translated_report list \<times> 'z io_env_scheme" where
  "report_operations [] w = ([], w)"
| "report_operations (op # ops) w =
     (if op_Type op \<noteq> OpCreate then report_operations ops w
      else let (now, w1) = time_Now w in
        case report_operation op now of
          Inl _ \<Rightarrow> report_operations ops w
        | Inr a \<Rightarrow> let (as, w2) = report_operations ops w1 in (a # as, w2))"

definition abuse_Translate :: "plan option \<Rightarrow> 'z io_env_scheme \<Rightarrow> translated_report list result \<times> 'z io_env_scheme" where
  "abuse_Translate p w =
     (case p of None \<Rightarrow> (Inl (New ''abuseipdb.translator.Translate'' ''plan is required''), w)
      | Some pl \<Rightarrow> let (as, w1) = report_operations (pl_Operations pl) w in (Inr as, w1))"

section \<open>The orchestrator\<close>

text \<open>What is wired, and the parts whose state a run changes beside the database: the health manager with its breaker, and the ownership resolver.\<close>

record 'z pipeline =
  pn_machine :: "'z own_env_ext state_machine"
  pn_bus :: "'z own_env_ext subscribers option"
  pn_policies :: "governance_policy list"
  pn_abuse :: bool

record pipeline_parts =
  pp_health :: health_manager
  pp_resolver :: resolver

record pipeline_result =
  re_ResourceCount :: nat
  re_ObjectCount :: nat
  re_Checksum :: string
  re_Plan :: plan
  re_Actions :: "crowdsec_action list"
  re_Success :: bool

text \<open>\<open>_ = o.sm.Transition(...)\<close>.\<close>

definition try_Transition :: "'z pipeline \<Rightarrow> runtime_context \<Rightarrow> runtime_status \<Rightarrow> string \<Rightarrow> 'z own_env_scheme \<Rightarrow> 'z own_env_scheme" where
  "try_Transition pn ctx to_st reason w = snd (Transition (pn_machine pn) ctx to_st reason w)"

definition runDiscoveryStage ::
  "bool \<Rightarrow> access_rule list result \<Rightarrow> 'z pipeline \<Rightarrow> runtime_context \<Rightarrow> pipeline_parts \<Rightarrow> 'z own_env_scheme \<Rightarrow> access_rule list result \<times> pipeline_parts \<times> 'z own_env_scheme" where
  "runDiscoveryStage governed listed pn ctx ps w =
     (let op = ''orchestrator.pipeline.runDiscoveryStage'' in
      if \<not> governed then (Inl (New op ''global resource budget exceeded''), ps, w)
      else case Transition (pn_machine pn) ctx StatusDiscovering ''starting dry-run'' w of
          (Inl e, w1) \<Rightarrow> (Inl e, ps, w1)
        | (Inr _, w1) \<Rightarrow>
            let (now, w2) = time_Now w1; (cb, ok) = breaker_Allow now (hm_breaker (pp_health ps)); h = (pp_health ps)\<lparr>hm_breaker := cb\<rparr> in
            if \<not> ok then
              (Inl (New op ''circuit breaker is open''), ps\<lparr>pp_health := h\<rparr>,
               try_Transition pn ctx StatusFailed ''breaker open'' (bus_Emit (pn_bus pn) ''breaker_state_changed'' [] [(''state'', AString ''open'')] w2))
            else case listed of
                Inl e \<Rightarrow> let (t1, w3) = time_Now w2; (t2, w4) = time_Now w3 in
                  (Inl e, ps\<lparr>pp_health := health_RecordFailure t1 t2 h\<rparr>, try_Transition pn ctx StatusFailed ''discovery failed'' w4)
              | Inr rules \<Rightarrow> (Inr rules, ps\<lparr>pp_health := h\<rparr>, w2))"

definition runSnapshotStage :: "string \<Rightarrow> access_rule list \<Rightarrow> provenance_metadata \<Rightarrow> 'z io_env_scheme \<Rightarrow> full_snapshot result \<times> 'z io_env_scheme" where
  "runSnapshotStage rt rules provenance w =
     (let objects = map captured (IPAccessRules rules); (t1, w1) = time_Now w; (t2, w2) = time_Now w1;
          a = assembler_SetMetadata (''run-'' @ show_int (unix_seconds t2)) (no_source\<lparr>ss_Provider := ''cloudflare''\<rparr>) no_scope no_pagination provenance (NewAssembler rt t1) in
      case assembler_Add objects a of
        (Inl e, _) \<Rightarrow> (Inl e, w2)
      | (Inr _, a1) \<Rightarrow> (Inr (assembler_Build a1), w2))"

definition runNormalizationStage ::
  "string \<Rightarrow> access_rule list \<Rightarrow> provenance_metadata \<Rightarrow> 'z pipeline \<Rightarrow> runtime_context \<Rightarrow> 'z own_env_scheme \<Rightarrow> full_snapshot result \<times> 'z own_env_scheme" where
  "runNormalizationStage rt rules provenance pn ctx w =
     (case runSnapshotStage rt rules provenance w of
        (Inl e, w1) \<Rightarrow> (Inl e, try_Transition pn ctx StatusFailed ''assembly failed'' w1)
      | (Inr snap, w1) \<Rightarrow> (Inr snap, w1))"

definition runPlanningStage :: "full_snapshot \<Rightarrow> 'z io_env_scheme \<Rightarrow> plan \<times> 'z io_env_scheme" where
  "runPlanningStage snap w = planner_Plan (Some (plain_snapshot snap)) [] w"

definition admission_context :: "string \<Rightarrow> string list \<Rightarrow> circuit_breaker \<Rightarrow> string \<Rightarrow> evaluation_context" where
  "admission_context target ids cb trace =
     \<lparr>ec_TargetType = target, ec_MutationCount = int (length ids), ec_Drift = 0, ec_ResourceIDs = ids, ec_BreakerState = breaker_GetState cb, ec_InMaintenance = False, ec_TraceID = trace\<rparr>"

definition runAdmissionStage ::
  "plan \<Rightarrow> string \<Rightarrow> 'z pipeline \<Rightarrow> pipeline_parts \<Rightarrow> 'z own_env_scheme \<Rightarrow> admission_decision result \<times> pipeline_parts \<times> 'z own_env_scheme" where
  "runAdmissionStage plan trace pn ps w =
     (let ctx = admission_context ''mutation'' (map op_TargetID (pl_Operations plan)) (hm_breaker (pp_health ps)) trace in
      case admission_Authorize (pn_policies pn) ctx (pp_resolver ps) w of (res, r, w1) \<Rightarrow> (res, ps\<lparr>pp_resolver := r\<rparr>, w1))"

definition runReportingStage :: "plan \<Rightarrow> string \<Rightarrow> 'z pipeline \<Rightarrow> 'z own_env_scheme \<Rightarrow> 'z own_env_scheme" where
  "runReportingStage plan snapshotID pn w =
     (if \<not> pn_abuse pn then w
      else case abuse_Translate (Some plan) w of
          (Inl e, w1) \<Rightarrow> bus_Emit (pn_bus pn) ''item_quarantined'' snapshotID [(''error'', AString (Error e)), (''reason'', AString ''abuseipdb_translation_failed'')] w1
        | (Inr _, w1) \<Rightarrow> w1)"

definition runValidationStage ::
  "crowdsec_action list \<Rightarrow> 'z pipeline \<Rightarrow> runtime_context \<Rightarrow> pipeline_parts \<Rightarrow> 'z own_env_scheme \<Rightarrow> unit result \<times> pipeline_parts \<times> 'z own_env_scheme" where
  "runValidationStage actions pn ctx ps w =
     (case crowdsec_Validate actions of
        Inl e \<Rightarrow> let (t1, w1) = time_Now w; (t2, w2) = time_Now w1 in
          (Inl e, ps\<lparr>pp_health := health_RecordFailure t1 t2 (pp_health ps)\<rparr>, try_Transition pn ctx StatusFailed ''validation failed'' w2)
      | Inr _ \<Rightarrow> (Inr (), ps, w))"

definition runCompletionStage :: "full_snapshot \<Rightarrow> plan \<Rightarrow> string \<Rightarrow> string \<Rightarrow> 'z pipeline \<Rightarrow> runtime_context \<Rightarrow> pipeline_parts \<Rightarrow> 'z own_env_scheme \<Rightarrow> pipeline_parts \<times> 'z own_env_scheme" where
  "runCompletionStage snap plan trace span_id pn ctx ps w =
     (let (now, w1) = time_Now w;
          w2 = bus_Emit (pn_bus pn) ''run_completed'' (fs_SnapshotID snap) [(''op_count'', AInt (int (length (pl_Operations plan)))), (''span_id'', AString span_id), (''trace_id'', AString trace)] w1;
          w3 = try_Transition pn ctx StatusValidating ''verifying convergence'' w2;
          w4 = try_Transition pn ctx StatusConverged ''convergence confirmed'' w3;
          w5 = try_Transition pn ctx StatusIdle ''run completed'' w4
      in (ps\<lparr>pp_health := health_RecordSuccess now (pp_health ps)\<rparr>, w5))"

section \<open>A run\<close>

definition dry_run_op :: string where "dry_run_op = ''orchestrator.pipeline.DryRun''"

text \<open>From the admission on.\<close>

definition admitted_run ::
  "full_snapshot \<Rightarrow> plan \<Rightarrow> nat \<Rightarrow> provenance_metadata \<Rightarrow> string \<Rightarrow> string \<Rightarrow> 'z pipeline \<Rightarrow> runtime_context \<Rightarrow> pipeline_parts \<Rightarrow> 'z own_env_scheme \<Rightarrow>
   pipeline_result result \<times> pipeline_parts \<times> 'z own_env_scheme" where
  "admitted_run snap plan n provenance trace span_id pn ctx ps w =
     (case Transition (pn_machine pn) ctx StatusExecuting ''admission granted'' w of
        (Inl e, w1) \<Rightarrow> (Inl e, ps, w1)
      | (Inr _, w1) \<Rightarrow>
          case crowdsec_Translate (Some plan) provenance w1 of
            (Inl e, w2) \<Rightarrow> (Inl (wrap_err dry_run_op e), ps, try_Transition pn ctx StatusFailed ''translation failed'' w2)
          | (Inr actions, w2) \<Rightarrow>
              let w3 = runReportingStage plan (fs_SnapshotID snap) pn w2 in
              case runValidationStage actions pn ctx ps w3 of
                (Inl e, ps1, w4) \<Rightarrow> (Inl (wrap_err dry_run_op e), ps1, w4)
              | (Inr _, ps1, w4) \<Rightarrow>
                  let (ps2, w5) = runCompletionStage snap plan trace span_id pn ctx ps1 w4 in
                  (Inr \<lparr>re_ResourceCount = n, re_ObjectCount = length (fs_Objects snap), re_Checksum = fs_SnapshotChecksum snap, re_Plan = plan, re_Actions = actions, re_Success = True\<rparr>, ps2, w5))"

text \<open>From the planning on.\<close>

definition planned_run ::
  "string \<Rightarrow> access_rule list \<Rightarrow> provenance_metadata \<Rightarrow> string \<Rightarrow> string \<Rightarrow> 'z pipeline \<Rightarrow> runtime_context \<Rightarrow> pipeline_parts \<Rightarrow> 'z own_env_scheme \<Rightarrow>
   pipeline_result result \<times> pipeline_parts \<times> 'z own_env_scheme" where
  "planned_run rt rules provenance trace span_id pn ctx ps w =
     (case runNormalizationStage rt rules provenance pn ctx w of
        (Inl e, w1) \<Rightarrow> (Inl (wrap_err dry_run_op e), ps, w1)
      | (Inr snap, w1) \<Rightarrow>
          let (plan, w2) = runPlanningStage snap w1 in
          case runAdmissionStage plan trace pn ps w2 of
            (Inl e, ps1, w3) \<Rightarrow> (Inl (wrap_err dry_run_op e), ps1, try_Transition pn ctx StatusFailed ''admission check failed'' w3)
          | (Inr d, ps1, w3) \<Rightarrow>
              if \<not> ad_Allowed d then (Inl (New dry_run_op (''admission denied: '' @ ad_Reason d)), ps1, try_Transition pn ctx StatusIdle ''admission denied'' w3)
              else admitted_run snap plan (length rules) provenance trace span_id pn ctx ps1 w3)"

definition DryRun ::
  "bool \<Rightarrow> access_rule list result \<Rightarrow> string \<Rightarrow> string \<Rightarrow> provenance_metadata \<Rightarrow> string \<Rightarrow> string \<Rightarrow> 'z pipeline \<Rightarrow> runtime_context \<Rightarrow> pipeline_parts \<Rightarrow> 'z own_env_scheme \<Rightarrow>
   pipeline_result result \<times> pipeline_parts \<times> 'z own_env_scheme" where
  "DryRun governed listed zoneID rt provenance trace span_id pn ctx ps w =
     (let w0 = bus_Emit (pn_bus pn) ''run_started'' [] [(''mode'', AString ''dry-run''), (''resource'', AString rt), (''zone'', AString zoneID)] w in
      case runDiscoveryStage governed listed pn ctx ps w0 of
        (Inl e, ps1, w1) \<Rightarrow> (Inl (wrap_err dry_run_op e), ps1, w1)
      | (Inr rules, ps1, w1) \<Rightarrow>
          case Transition (pn_machine pn) ctx StatusPlanning ''discovery completed'' w1 of
            (Inl e, w2) \<Rightarrow> (Inl e, ps1, w2)
          | (Inr _, w2) \<Rightarrow> planned_run rt rules provenance trace span_id pn ctx ps1 w2)"

section \<open>What the stages keep\<close>

text \<open>A pipeline whose buses, if it has them, have no subscribers, as the program wires it.\<close>

definition pipeline_ok :: "'z pipeline \<Rightarrow> bool" where
  "pipeline_ok pn \<longleftrightarrow> sm_ok (pn_machine pn) \<and> (pn_bus pn = None \<or> pn_bus pn = Some (\<lambda>_. []))"

lemma more_of_dir: "dir_env.more w' = dir_env.more w \<Longrightarrow> db_env.more w' = db_env.more w" for w w' :: "'z db_env_scheme"
  by (cases w; cases w') simp

lemma claims_of_more: "db_env.more w' = db_env.more w \<Longrightarrow> ow_Claims w' = ow_Claims w" for w w' :: "'z own_env_scheme"
  by (cases w; cases w') simp

lemma Transition_more:
  fixes w :: "'z db_env_scheme"
  assumes "sm_ok sm"
  shows "db_env.more (snd (Transition sm ctx to_st reason w)) = db_env.more w"
proof -
  let ?g = "\<lambda>w :: 'z db_env_scheme. db_env.more w"
  have load: "?g (snd (store_Load w)) = ?g w" by (cases w rule: store_Load_cases) auto
  have save: "?g (snd (store_Save st v)) = ?g v" for st v
    by (rule more_of_dir) (use store_Save_frame(4) [OF prod.collapse [symmetric], of st v] in simp)
  have publish: "?g (snd (case sm_eventBus sm of None \<Rightarrow> (Inr (), v)
     | Some subs \<Rightarrow> and_then transition_op (bus_PublishEvent subs req v) (\<lambda>ev w4.
         case sm_checkpoints sm of None \<Rightarrow> (Inr (), w4)
         | Some cm \<Rightarrow> transition_checkpoints cm scopeID from_st to_st ev st w4))) = ?g v" for v req scopeID from_st st
    using publish_part_db_frame [OF assms, of v req scopeID from_st to_st st] by (simp add: db_frame_def)
  show ?thesis
    unfolding Transition_def
    by (rule and_then_frame [where g = ?g, OF load])
      (auto simp: Let_def time_Now_def intro!: and_then_frame [where g = ?g] simp: save publish)
qed

lemma Transition_claims:
  assumes "pipeline_ok pn" and "Transition (pn_machine pn) ctx to_st reason w = (r, w')"
  shows "ow_Claims w' = ow_Claims w"
  using claims_of_more [OF Transition_more [of "pn_machine pn" ctx to_st reason w]] assms by (simp add: pipeline_ok_def)

lemma bus_Emit_frame:
  assumes "pn_bus pn = None \<or> pn_bus pn = Some (\<lambda>_. [])"
  shows "db_frame w (bus_Emit (pn_bus pn) ty run meta w)"
proof -
  have pub: "db_frame v (snd (bus_Publish (\<lambda>_. []) c t s i j v))" for c t s i j and v :: "'a own_env_scheme"
  proof -
    have "snd (bus_Publish (\<lambda>_. []) c t s i j v) = snd (bus_PublishEvent (\<lambda>_. []) \<lparr>pr_UID = [], pr_Timestamp = 0, pr_Category = c, pr_Type = t,
         pr_CorrelationID = i, pr_CausalID = [], pr_Actor = [], pr_ScopeID = s, pr_Payload = j, pr_Metadata = []\<rparr> v)"
      by (simp add: bus_Publish_def split: prod.split sum.split)
    then show ?thesis by (simp add: bus_PublishEvent_db_frame)
  qed
  show ?thesis using assms pub [where v = "w\<lparr>io_step := Suc (io_step w)\<rparr>"] by (auto simp: bus_Emit_def time_Now_def db_frame_def)
qed

lemma bus_Emit_claims: "pipeline_ok pn \<Longrightarrow> ow_Claims (bus_Emit (pn_bus pn) ty run meta w) = ow_Claims w"
  using bus_Emit_frame [of pn w ty run meta] claims_of_more [of "bus_Emit (pn_bus pn) ty run meta w" w] by (simp add: pipeline_ok_def db_frame_def)

lemma bus_Emit_stored: "pipeline_ok pn \<Longrightarrow> stored_state (bus_Emit (pn_bus pn) ty run meta w) = stored_state w"
  using bus_Emit_frame [of pn w ty run meta] stored_state_files by (auto simp: pipeline_ok_def db_frame_def)

section \<open>What the stages do\<close>

lemma discovery_done:
  assumes "pipeline_ok pn" and "runDiscoveryStage governed listed pn ctx ps w = (Inr rules, ps1, w1)"
  shows "governed \<and> listed = Inr rules \<and> pp_resolver ps1 = pp_resolver ps \<and> ow_Claims w1 = ow_Claims w \<and>
    (\<exists>now. breaker_Allow now (hm_breaker (pp_health ps)) = (hm_breaker (pp_health ps1), True)) \<and>
    (\<exists>v. Transition (pn_machine pn) ctx StatusDiscovering ''starting dry-run'' w = (Inr (), v) \<and> fs_files w1 = fs_files v)"
proof -
  obtain r v where tr: "Transition (pn_machine pn) ctx StatusDiscovering ''starting dry-run'' w = (r, v)" by fastforce
  obtain cb ok where al: "breaker_Allow (io_clock v (io_step v)) (hm_breaker (pp_health ps)) = (cb, ok)" by fastforce
  have "governed" "r = Inr ()" "ok" "listed = Inr rules" "ps1 = ps\<lparr>pp_health := (pp_health ps)\<lparr>hm_breaker := cb\<rparr>\<rparr>" "w1 = v\<lparr>io_step := Suc (io_step v)\<rparr>"
    using assms(2) tr al by (auto simp: runDiscoveryStage_def Let_def time_Now_def split: if_splits sum.splits)
  then show ?thesis using tr al Transition_claims [OF assms(1) tr] by auto
qed

definition rule_keys :: "access_rule list \<Rightarrow> string list" where
  "rule_keys rules = map no_StableIdentityKey (IPAccessRules rules)"

lemma captured_key [simp]: "no_StableIdentityKey (captured obj) = no_StableIdentityKey obj"
  by (simp add: captured_def normalized_object.extend_def)

lemma rule_keys_nonempty: "k \<in> set (rule_keys rules) \<Longrightarrow> k \<noteq> []"
  by (auto simp: rule_keys_def IPAccessRules_def)

lemma captured_addable: "addable (map captured (IPAccessRules rules)) \<longleftrightarrow> distinct (rule_keys rules)"
  using rule_keys_nonempty [of "[]" rules] by (auto simp: addable_def rule_keys_def o_def)

lemma snapshot_done:
  assumes "runSnapshotStage rt rules provenance w = (r, w1)"
  shows "(\<exists>n. w1 = w\<lparr>io_step := n\<rparr>) \<and> (\<forall>snap. r = Inr snap \<longrightarrow> distinct (rule_keys rules) \<and> map no_StableIdentityKey (fs_Objects snap) = sort (rule_keys rules)) \<and>
    (distinct (rule_keys rules) \<longrightarrow> (\<exists>snap. r = Inr snap))"
proof -
  define a where "a = assembler_SetMetadata (''run-'' @ show_int (unix_seconds (io_clock w (Suc (io_step w))))) (no_source\<lparr>ss_Provider := ''cloudflare''\<rparr>) no_scope no_pagination provenance
    (NewAssembler rt (io_clock w (io_step w)))"
  have a: "al_objects a = Map.empty" "al_keys a = []" by (simp_all add: a_def assembler_SetMetadata_def NewAssembler_def)
  let ?objs = "map captured (IPAccessRules rules)"
  have run: "runSnapshotStage rt rules provenance w =
      (case assembler_Add ?objs a of (Inl e, _) \<Rightarrow> (Inl e, w\<lparr>io_step := Suc (Suc (io_step w))\<rparr>) | (Inr _, a1) \<Rightarrow> (Inr (assembler_Build a1), w\<lparr>io_step := Suc (Suc (io_step w))\<rparr>))"
    by (simp add: runSnapshotStage_def time_Now_def Let_def a_def split: prod.split sum.split)
  show ?thesis
  proof (cases "addable ?objs")
    case False
    then obtain e a1 where "assembler_Add ?objs a = (Inl e, a1)" using Add_refuses [of ?objs a] by (metis prod.collapse)
    then show ?thesis using assms run False captured_addable by auto
  next
    case True
    have add: "assembler_Add ?objs a = (Inr (), a\<lparr>al_objects := map_of (map (\<lambda>obj. (no_StableIdentityKey obj, obj)) ?objs), al_keys := identity_keys ?objs\<rparr>)"
      using Add_all [OF True, of a] by (simp add: a)
    have "map (\<lambda>k. the (map_of (map (\<lambda>obj. (no_StableIdentityKey obj, obj)) ?objs) k)) (sort (identity_keys ?objs)) = sort_key no_StableIdentityKey ?objs"
      using True by (intro sort_key_distinct) (simp add: addable_def)
    then have "r = Inr snap \<longrightarrow> map no_StableIdentityKey (fs_Objects snap) = map no_StableIdentityKey (sort_key no_StableIdentityKey ?objs)" for snap
      using assms run add by auto
    moreover have "map no_StableIdentityKey (sort_key no_StableIdentityKey ?objs) = sort (map no_StableIdentityKey ?objs)" by (rule properties_for_sort [symmetric]) (simp_all add: multiset.map_comp)
    moreover have "map no_StableIdentityKey ?objs = rule_keys rules" by (simp add: rule_keys_def o_def)
    ultimately show ?thesis using assms run add True captured_addable by auto
  qed
qed

text \<open>The plan against an empty target deletes every object, in the order of the keys.\<close>

lemma plan_all_deleted:
  assumes "map no_StableIdentityKey (sn_Objects s) = sort ks" and "planner_Plan (Some s) [] w = (p, w1)"
  shows "map op_TargetID (pl_Operations p) = sort ks \<and> (\<forall>op \<in> set (pl_Operations p). op_Type op = OpDelete)"
proof -
  let ?w = "w\<lparr>io_step := Suc (Suc (io_step w))\<rparr>"
  let ?dels = "fst (plan_deletions (by_key []) (sn_Objects s) ?w)"
  have dels: "map op_TargetID ?dels = sort ks" "\<forall>op \<in> set ?dels. op_Type op = OpDelete"
    using plan_deletions_ops [of "by_key []" "sn_Objects s" ?w] assms(1) by (simp_all add: by_key_def)
  have "p = fst (planner_Plan (Some s) [] w)" using assms(2) by simp
  then have ops: "pl_Operations p = sort_key operation_key ?dels" by (simp add: plan_operations)
  have "map operation_key ?dels = map (\<lambda>k. (typePriority OpDelete, k)) (map op_TargetID ?dels)" using dels(2) by (simp add: operation_key_def)
  also have "sorted \<dots>" unfolding dels(1) by (simp add: sorted_map)
  finally have "sort_key operation_key ?dels = ?dels" by (rule sort_key_id_if_sorted)
  then show ?thesis using ops dels by simp
qed

lemma deletions_translated:
  assumes "\<forall>op \<in> set (pl_Operations p). op_Type op = OpDelete \<and> op_TargetID op \<noteq> []" and "map op_TargetID (pl_Operations p) = sort ks" and "distinct ks"
  obtains as w' where "crowdsec_Translate (Some p) prov w = (Inr as, w')" "crowdsec_Validate as = Inr ()"
    "map (\<lambda>a. (ca_Type a, ca_StableIdentityKey a)) as = map (Pair ''delete_decision'') (sort ks)"
proof -
  have "translatable op" if "op \<in> set (pl_Operations p)" for op using assms(1) that by (simp add: translatable_def)
  then obtain as w' where as: "translate_operations (pl_Operations p) prov w = (Inr as, w')"
      "map (\<lambda>a. (ca_Type a, ca_StableIdentityKey a)) as = map (\<lambda>op. (action_type op, op_TargetID op)) (pl_Operations p)" "\<forall>a \<in> set as. ValidateSingle a = Inr ()"
    using translate_all [of "pl_Operations p" prov w] by blast
  have keys: "map (\<lambda>op. (action_type op, op_TargetID op)) (pl_Operations p) = map (Pair ''delete_decision'') (map op_TargetID (pl_Operations p))"
    using assms(1) by (simp add: action_type_def)
  have "sorted (map (Pair ''delete_decision'') (sort ks))" by (simp add: sorted_map)
  then have "sort_key (\<lambda>a. (ca_Type a, ca_StableIdentityKey a)) as = as" by (intro sort_key_id_if_sorted) (simp only: as(2) keys assms(2))
  then have run: "crowdsec_Translate (Some p) prov w = (Inr as, w')" by (simp add: crowdsec_Translate_def as(1))
  show ?thesis
  proof (rule that [OF run])
    show "map (\<lambda>a. (ca_Type a, ca_StableIdentityKey a)) as = map (Pair ''delete_decision'') (sort ks)" by (simp only: as(2) keys assms(2))
    have "map (\<lambda>a. ca_Type a @ '':'' @ ca_StableIdentityKey a) as = map (\<lambda>(t, k). t @ '':'' @ k) (map (\<lambda>a. (ca_Type a, ca_StableIdentityKey a)) as)" by simp
    also have "\<dots> = map (\<lambda>k. ''delete_decision:'' @ k) (sort ks)" unfolding as(2) keys assms(2) by simp
    finally have "distinct (map (\<lambda>a. ca_Type a @ '':'' @ ca_StableIdentityKey a) as)" using assms(3) by (simp add: distinct_map inj_on_def)
    then show "crowdsec_Validate as = Inr ()" unfolding crowdsec_Validate_def using as(3) by (intro validate_distinct) simp_all
  qed
qed

text \<open>What an admission that succeeded says of the claims.\<close>

lemma ownership_checked:
  assumes "check_ownership siks r w = (Inr None, r', w')" and "i \<in> set siks" and "i \<noteq> []"
  shows "\<exists>req. rv_domains r ''cf-sync'' = Some req \<and> entitled r req RightUpdate (owners_in (r, w) i)"
  using assms(1,2)
proof (induction siks arbitrary: r w)
  case (Cons sik siks)
  obtain req where req: "rv_domains r ''cf-sync'' = Some req"
    using Cons.prems(1) by (cases "rv_domains r ''cf-sync''") (simp_all add: ownership_Resolve_def Let_def)
  show ?case
  proof (cases rule: Resolve_cases [OF req, where i = sik and w = w and right = RightUpdate])
    case (1 e r1 w1)
    then show ?thesis using Cons.prems(1) by simp
  next
    case (2 claim r1 w1 w2)
    have dom: "rv_domains r1 = rv_domains r" using getClaim_keeps [OF 2(1)] by simp
    then have rule: "entitled r1 = entitled r" by (simp add: entitled_def domain_of_def fun_eq_iff split: option.splits)
    have allowed: "ro_Allowed (adjudicate req sik RightUpdate claim r1)" and rest: "check_ownership siks r1 w2 = (Inr None, r', w')"
      using Cons.prems(1) 2(2) by (simp_all split: if_splits)
    show ?thesis
    proof (cases "i = sik")
      case True
      then have "map_option owner_of claim = owners_in (r, w) i" using getClaim_finds [OF 2(1)] assms(3) by simp
      then show ?thesis using req allowed unfolding adjudicate_entitled rule by auto
    next
      case False
      have "owners_in (r1, w2) = owners_in (r, w)" by (rule Resolve_keeps [OF 2(2)])
      then show ?thesis using Cons.IH [OF rest] False Cons.prems(2) unfolding dom rule by simp
    qed
  qed
qed simp

lemma Authorize_allowed:
  assumes "admission_Authorize policies ctx r w = (Inr d, r', w')" and "ad_Allowed d"
  shows "(\<forall>i \<in> set (ec_ResourceIDs ctx). i \<noteq> [] \<longrightarrow> (\<exists>req. rv_domains r ''cf-sync'' = Some req \<and> entitled r req RightUpdate (owners_in (r, w) i))) \<and>
    (\<forall>m \<in> set (matched policies ctx). pr_Decision (snd m) \<noteq> DecisionDeny)"
proof -
  have refused: "check_ownership siks r0 w0 = (Inr (Some d'), r1, w1) \<Longrightarrow> \<not> ad_Allowed d'" for siks r0 d' r1 w1 and w0 :: "'a own_env_scheme"
    by (induction siks arbitrary: r0 w0) (auto split: sum.splits if_splits prod.splits)
  obtain c r1 w1 where c: "check_ownership (ec_ResourceIDs ctx) r w = (c, r1, w1)" by (cases "check_ownership (ec_ResourceIDs ctx) r w") auto
  have none: "c = Inr None" and d: "d = policy_Evaluate policies ctx"
    using assms c refused by (auto simp: admission_Authorize_def split: sum.splits option.splits)
  show ?thesis using ownership_checked [OF c [unfolded none]] assms(2) evaluate_spec(2) [of policies ctx] unfolding d by blast
qed

lemma plain_keys: "map no_StableIdentityKey (sn_Objects (plain_snapshot snap)) = map no_StableIdentityKey (fs_Objects snap)"
  by (simp add: plain_snapshot_def)

lemma plan_steps: "planner_Plan cur target w = (p, w') \<Longrightarrow> \<exists>n. w' = w\<lparr>io_step := n\<rparr>"
proof -
  assume run: "planner_Plan cur target w = (p, w')"
  have del: "\<exists>n. snd (plan_deletions tm objs v) = v\<lparr>io_step := n\<rparr>" for tm objs and v :: "'a io_env_scheme"
  proof (induction objs arbitrary: v)
    case Nil
    then show ?case by (auto intro: exI [of _ "io_step v"])
  next
    case (Cons obj objs)
    show ?case using Cons [of v] Cons [of "v\<lparr>io_step := Suc (io_step v)\<rparr>"]
      by (cases "tm (no_StableIdentityKey obj)") (auto simp: planned_def deriveOpID_def time_Now_def split_beta)
  qed
  have chg: "\<exists>n. snd (plan_changes cm objs v) = v\<lparr>io_step := n\<rparr>" for cm objs and v :: "'a io_env_scheme"
  proof (induction objs arbitrary: v)
    case Nil
    then show ?case by (auto intro: exI [of _ "io_step v"])
  next
    case (Cons obj objs)
    show ?case using Cons [of v] Cons [of "v\<lparr>io_step := Suc (io_step v)\<rparr>"]
      by (cases "cm (no_StableIdentityKey obj)") (auto simp: planned_def deriveOpID_def time_Now_def split_beta)
  qed
  let ?objs = "case cur of None \<Rightarrow> [] | Some s \<Rightarrow> sn_Objects s" and ?w = "w\<lparr>io_step := Suc (Suc (io_step w))\<rparr>"
  have "w' = snd (plan_changes (by_key ?objs) target (snd (plan_deletions (by_key target) ?objs ?w)))"
    using run by (simp add: planner_Plan_def time_Now_def Let_def split_beta)
  moreover obtain n where "snd (plan_deletions (by_key target) ?objs ?w) = ?w\<lparr>io_step := n\<rparr>" using del by blast
  moreover obtain m where "snd (plan_changes (by_key ?objs) target (?w\<lparr>io_step := n\<rparr>)) = ?w\<lparr>io_step := n\<rparr>\<lparr>io_step := m\<rparr>" using chg by blast
  ultimately show ?thesis by auto
qed

text \<open>A run from the planning on: it stops at two rules with the same key, and otherwise asks for the admission of one deletion per rule.\<close>

abbreviation deletions :: "plan \<Rightarrow> string list \<Rightarrow> bool" where
  "deletions plan ks \<equiv> map op_TargetID (pl_Operations plan) = ks \<and> (\<forall>op \<in> set (pl_Operations plan). op_Type op = OpDelete \<and> op_TargetID op \<noteq> [])"

abbreviation run_context :: "access_rule list \<Rightarrow> pipeline_parts \<Rightarrow> string \<Rightarrow> evaluation_context" where
  "run_context rules ps trace \<equiv> admission_context ''mutation'' (sort (rule_keys rules)) (hm_breaker (pp_health ps)) trace"

lemma planned_run_cases:
  fixes w :: "'z own_env_scheme"
  obtains e w1 where "\<not> distinct (rule_keys rules)" "planned_run rt rules provenance trace span_id pn ctx ps w = (Inl (wrap_err dry_run_op e), ps, w1)"
  | snap plan n ad r and w2 :: "'z own_env_scheme" where "distinct (rule_keys rules)" "deletions plan (sort (rule_keys rules))"
      "admission_Authorize (pn_policies pn) (run_context rules ps trace) (pp_resolver ps) (w\<lparr>io_step := n\<rparr>) = (ad, r, w2)"
      "planned_run rt rules provenance trace span_id pn ctx ps w = (case ad of
        Inl e \<Rightarrow> (Inl (wrap_err dry_run_op e), ps\<lparr>pp_resolver := r\<rparr>, try_Transition pn ctx StatusFailed ''admission check failed'' w2)
      | Inr d \<Rightarrow> if \<not> ad_Allowed d then (Inl (New dry_run_op (''admission denied: '' @ ad_Reason d)), ps\<lparr>pp_resolver := r\<rparr>, try_Transition pn ctx StatusIdle ''admission denied'' w2)
        else admitted_run snap plan (length rules) provenance trace span_id pn ctx (ps\<lparr>pp_resolver := r\<rparr>) w2)"
proof -
  obtain rs w1 where snap: "runSnapshotStage rt rules provenance w = (rs, w1)" by fastforce
  note built = snapshot_done [OF snap]
  show thesis
  proof (cases rs)
    case (Inl e)
    then have "\<not> distinct (rule_keys rules)" using built by auto
    then show thesis by (rule that(1)) (simp add: planned_run_def runNormalizationStage_def snap Inl)
  next
    case (Inr s)
    then have keys: "distinct (rule_keys rules)" "map no_StableIdentityKey (fs_Objects s) = sort (rule_keys rules)" using built by simp_all
    obtain n where n: "w1 = w\<lparr>io_step := n\<rparr>" using built by blast
    obtain plan v where plan: "runPlanningStage s w1 = (plan, v)" by fastforce
    obtain k where v: "v = w\<lparr>io_step := k\<rparr>" using plan_steps [OF plan [unfolded runPlanningStage_def]] n by auto
    have ops: "map op_TargetID (pl_Operations plan) = sort (rule_keys rules)" "\<forall>op \<in> set (pl_Operations plan). op_Type op = OpDelete"
      using plan_all_deleted [OF _ plan [unfolded runPlanningStage_def], of "rule_keys rules"] keys(2) by (simp_all add: plain_keys)
    have "op_TargetID op \<noteq> []" if "op \<in> set (pl_Operations plan)" for op
    proof -
      have "op_TargetID op \<in> set (map op_TargetID (pl_Operations plan))" using that by simp
      then show ?thesis unfolding ops(1) using rule_keys_nonempty by simp
    qed
    then have dels: "deletions plan (sort (rule_keys rules))" using ops by blast
    obtain ad r w2 where adm: "admission_Authorize (pn_policies pn) (run_context rules ps trace) (pp_resolver ps) v = (ad, r, w2)"
      by (cases "admission_Authorize (pn_policies pn) (run_context rules ps trace) (pp_resolver ps) v") auto
    have stage: "runAdmissionStage plan trace pn ps v = (ad, ps\<lparr>pp_resolver := r\<rparr>, w2)" using adm by (simp add: runAdmissionStage_def ops(1))
    show thesis
      by (rule that(2) [OF keys(1) dels adm [unfolded v]])
        (use snap Inr plan stage in \<open>cases ad; simp add: planned_run_def runNormalizationStage_def\<close>)
  qed
qed

text \<open>What a run that was admitted has done when it succeeds.\<close>

lemma admitted_done:
  assumes "admitted_run snap plan n provenance trace span_id pn ctx ps w = (Inr res, ps', w')"
  obtains v as v' where "Transition (pn_machine pn) ctx StatusExecuting ''admission granted'' w = (Inr (), v)" "crowdsec_Translate (Some plan) provenance v = (Inr as, v')"
    "crowdsec_Validate as = Inr ()" "re_Actions res = as"
proof -
  obtain t v where tr: "Transition (pn_machine pn) ctx StatusExecuting ''admission granted'' w = (t, v)" by fastforce
  have t: "t = Inr ()" using assms tr by (cases t) (simp_all add: admitted_run_def)
  obtain c v' where tl: "crowdsec_Translate (Some plan) provenance v = (c, v')" by fastforce
  obtain as where c: "c = Inr as" using assms tr t tl by (cases c) (simp_all add: admitted_run_def)
  obtain x where x: "crowdsec_Validate as = Inr x"
    using assms tr t tl c by (cases "crowdsec_Validate as") (simp_all add: admitted_run_def runValidationStage_def Let_def time_Now_def)
  have "re_Actions res = as" using assms tr t tl c x by (auto simp: admitted_run_def runValidationStage_def Let_def split_beta)
  then show thesis using that [of v as v'] tr t tl c x by simp
qed

text \<open>What a run that got past the planning has planned, and on what the admission was decided.\<close>

lemma planned_done:
  assumes "planned_run rt rules provenance trace span_id pn ctx ps w = (Inr res, ps', w')"
  shows "distinct (rule_keys rules) \<and> (\<exists>d r2 w3 n. admission_Authorize (pn_policies pn) (run_context rules ps trace) (pp_resolver ps) (w\<lparr>io_step := n\<rparr>) = (Inr d, r2, w3) \<and> ad_Allowed d) \<and>
    map (\<lambda>a. (ca_Type a, ca_StableIdentityKey a)) (re_Actions res) = map (Pair ''delete_decision'') (sort (rule_keys rules)) \<and> crowdsec_Validate (re_Actions res) = Inr ()"
proof (cases w rule: planned_run_cases [where rules = rules and rt = rt and provenance = provenance and trace = trace and span_id = span_id and pn = pn and ctx = ctx and ps = ps])
  case (2 snap plan n ad r w2)
  obtain d where d: "ad = Inr d" using assms 2(4) by (cases ad) simp_all
  have allowed: "ad_Allowed d" and run: "admitted_run snap plan (length rules) provenance trace span_id pn ctx (ps\<lparr>pp_resolver := r\<rparr>) w2 = (Inr res, ps', w')"
    using assms 2(4) d by (simp_all split: if_splits)
  obtain v as v' where "Transition (pn_machine pn) ctx StatusExecuting ''admission granted'' w2 = (Inr (), v)" and as: "crowdsec_Translate (Some plan) provenance v = (Inr as, v')"
      "crowdsec_Validate as = Inr ()" "re_Actions res = as"
    by (rule admitted_done [OF run]) (rule that)
  have "map (\<lambda>a. (ca_Type a, ca_StableIdentityKey a)) as = map (Pair ''delete_decision'') (sort (rule_keys rules))"
    by (rule deletions_translated [OF conjunct2 [OF 2(2)] conjunct1 [OF 2(2)] 2(1), of provenance v]) (simp add: as(1))
  moreover have "\<exists>d r2 w3 n. admission_Authorize (pn_policies pn) (run_context rules ps trace) (pp_resolver ps) (w\<lparr>io_step := n\<rparr>) = (Inr d, r2, w3) \<and> ad_Allowed d"
    by (intro exI conjI) (rule 2(3) [unfolded d], rule allowed)
  ultimately show ?thesis using 2(1) as(2,3) by simp
qed (use assms in simp)

section \<open>What a run was allowed to do\<close>

text \<open>
  C10: a run that succeeds was allowed to at every gate. Whatever fails on the way, when \<open>DryRun\<close> returns a result then the governor let it start, the breaker was passed, the provider's
  rules were listed and no two of them share an identity key, the domain \<open>cf-sync\<close> may update every one of them under the claims stored when the run began, no enabled rule of the policies
  that applies denies; and the actions are exactly one deletion per rule, by ascending key, and pass the validation.
\<close>

theorem dry_run_gated:
  assumes "pipeline_ok pn" and "DryRun governed listed zoneID rt provenance trace span_id pn ctx ps w = (Inr res, ps', w')"
  shows "governed \<and> (\<exists>rules now cb. listed = Inr rules \<and> breaker_Allow now (hm_breaker (pp_health ps)) = (cb, True) \<and> distinct (rule_keys rules) \<and>
    (\<forall>k \<in> set (rule_keys rules). \<exists>req. rv_domains (pp_resolver ps) ''cf-sync'' = Some req \<and> entitled (pp_resolver ps) req RightUpdate (owners_in (pp_resolver ps, w) k)) \<and>
    (\<forall>m \<in> set (matched (pn_policies pn) (admission_context ''mutation'' (sort (rule_keys rules)) cb trace)). pr_Decision (snd m) \<noteq> DecisionDeny) \<and>
    map (\<lambda>a. (ca_Type a, ca_StableIdentityKey a)) (re_Actions res) = map (Pair ''delete_decision'') (sort (rule_keys rules)) \<and> crowdsec_Validate (re_Actions res) = Inr ())"
proof -
  let ?w0 = "bus_Emit (pn_bus pn) ''run_started'' [] [(''mode'', AString ''dry-run''), (''resource'', AString rt), (''zone'', AString zoneID)] w"
  obtain g ps1 w1 where stage: "runDiscoveryStage governed listed pn ctx ps ?w0 = (g, ps1, w1)" by (cases "runDiscoveryStage governed listed pn ctx ps ?w0") auto
  obtain rules where g: "g = Inr rules" using assms(2) stage by (cases g) (simp_all add: DryRun_def)
  note disc = discovery_done [OF assms(1) stage [unfolded g]]
  obtain t v where tr: "Transition (pn_machine pn) ctx StatusPlanning ''discovery completed'' w1 = (t, v)" by fastforce
  have t: "t = Inr ()" using assms(2) stage g tr by (cases t) (simp_all add: DryRun_def)
  have run: "planned_run rt rules provenance trace span_id pn ctx ps1 v = (Inr res, ps', w')" using assms(2) stage g tr t by (simp add: DryRun_def)
  note planned = planned_done [OF run]
  obtain d r2 w3 n where adm: "admission_Authorize (pn_policies pn) (run_context rules ps1 trace) (pp_resolver ps1)
      (v\<lparr>io_step := n\<rparr>) = (Inr d, r2, w3)" "ad_Allowed d"
    using planned by (elim conjE exE) rule
  have "ow_Claims (v\<lparr>io_step := n\<rparr>) = ow_Claims w" using Transition_claims [OF assms(1) tr] disc bus_Emit_claims [OF assms(1)] by simp
  then have owners: "owners_in (pp_resolver ps1, v\<lparr>io_step := n\<rparr>) = owners_in (pp_resolver ps, w)" using disc by (intro owners_in_cong) simp_all
  note allowed = Authorize_allowed [OF adm(1,2), unfolded owners]
  have ids: "set (ec_ResourceIDs (run_context rules ps1 trace)) = set (rule_keys rules)" by (simp add: admission_context_def)
  have "\<exists>req. rv_domains (pp_resolver ps) ''cf-sync'' = Some req \<and> entitled (pp_resolver ps) req RightUpdate (owners_in (pp_resolver ps, w) k)" if "k \<in> set (rule_keys rules)" for k
    using allowed that rule_keys_nonempty [OF that] disc unfolding ids by auto
  then show ?thesis using disc planned allowed by blast
qed

section \<open>A denied run\<close>

lemma and_then_error: "and_then op r k = (Inl e, w') \<Longrightarrow> (\<And>x w1. r = (Inr x, w1) \<Longrightarrow> k x w1 = (Inl e, w') \<Longrightarrow> \<exists>m c. e = AppErr op m c) \<Longrightarrow> \<exists>m c. e = AppErr op m c"
  by (cases r; cases "fst r") auto

lemma checkpoints_error: "transition_checkpoints cm scopeID from_st to_st ev st w = (Inl e, w') \<Longrightarrow> \<exists>m c. e = AppErr transition_op m c"
  unfolding transition_checkpoints_def Let_def by (erule and_then_error)+ simp

lemma Transition_error: "Transition sm ctx to_st reason w = (Inl e, w') \<Longrightarrow> \<exists>m c. e = AppErr transition_op m c"
  unfolding Transition_def
proof (erule and_then_error)
  fix cur w1
  assume "(let from_st = current_status cur in
     if \<not> isTransitionAllowed from_st to_st
     then (Inl (New transition_op (''invalid transition from '' @ from_st @ '' to '' @ to_st)), w1)
     else let (now, w2) = time_Now w1;
              st = ApplyLifecycleTransition cur (input_of_context ctx from_st to_st now)
          in and_then transition_op (store_Save st w2) (\<lambda>_ w3.
             case sm_eventBus sm of None \<Rightarrow> (Inr (), w3)
             | Some subs \<Rightarrow>
                 and_then transition_op (bus_PublishEvent subs (transition_request ctx st from_st to_st reason) w3) (\<lambda>ev w4.
                 case sm_checkpoints sm of None \<Rightarrow> (Inr (), w4)
                 | Some cm \<Rightarrow> transition_checkpoints cm (transition_scope ctx) from_st to_st ev st w4))) = (Inl e, w')"
  then show "\<exists>m c. e = AppErr transition_op m c"
    by (auto simp: New_def Let_def time_Now_def split: if_splits option.splits elim!: and_then_error checkpoints_error)
qed

lemma moved_status:
  assumes "pipeline_ok pn" and "Transition (pn_machine pn) ctx to_st reason w = (Inr (), w')" and "stored_state w = Inr cur" and "state_ok cur" and "is_int64 (rc_FencingToken ctx)"
    and "to_st \<noteq> []"
  shows "\<exists>st. stored_state w' = Inr st \<and> state_ok st \<and> current_status st = to_st"
proof -
  have sm: "sm_ok (pn_machine pn)" using assms(1) by (simp add: pipeline_ok_def)
  from assms(2) sm assms(3-5) show ?thesis
  proof (cases rule: Transition_cases)
    case (saved now st w3)
    have "stored_state w' = Inr st" using saved(3) stored_state_files [OF saved(4)] by simp
    moreover have "state_ok st" "current_status st = to_st" unfolding saved(2) using assms(4-6) by (simp_all add: transition_ok current_status_transition input_of_context_def)
    ultimately show ?thesis by blast
  qed simp
qed

lemma refused_status:
  assumes "stored_state w = Inr cur" and "\<not> isTransitionAllowed (current_status cur) to_st"
  shows "\<exists>e w'. Transition sm ctx to_st reason w = (Inl e, w') \<and> stored_state w' = Inr cur"
proof -
  obtain r w' where tr: "Transition sm ctx to_st reason w = (r, w')" by fastforce
  have "fs_files w' = fs_files w" by (rule Transition_refused [OF tr assms])
  then have "stored_state w' = Inr cur" using assms(1) stored_state_files by metis
  moreover have "\<exists>e. r = Inl e" using tr assms by (cases w rule: store_Load_cases) (auto simp: Transition_def Let_def)
  ultimately show ?thesis using tr by blast
qed

text \<open>Where the answer that the admission was denied comes from.\<close>

lemma admitted_error: "admitted_run snap plan n provenance trace span_id pn ctx ps w \<noteq> (Inl (New dry_run_op m), ps', w')"
proof
  assume run: "admitted_run snap plan n provenance trace span_id pn ctx ps w = (Inl (New dry_run_op m), ps', w')"
  obtain t v where tr: "Transition (pn_machine pn) ctx StatusExecuting ''admission granted'' w = (t, v)" by fastforce
  obtain c v' where tl: "crowdsec_Translate (Some plan) provenance v = (c, v')" by fastforce
  show False
  proof (cases t)
    case (Inl e)
    then show ?thesis using run tr Transition_error [OF tr [unfolded Inl]] by (auto simp: admitted_run_def New_def transition_op_def dry_run_op_def)
  next
    case (Inr u)
    have "\<exists>as. c = Inr as" using run tr Inr tl by (cases c) (auto simp: admitted_run_def New_def)
    then obtain as where c: "c = Inr as" by blast
    show ?thesis using run tr Inr tl c by (cases "crowdsec_Validate as") (auto simp: admitted_run_def runValidationStage_def Let_def New_def split_beta time_Now_def)
  qed
qed

lemma denied_run:
  assumes "planned_run rt rules provenance trace span_id pn ctx ps w = (Inl (New dry_run_op m), ps', w')"
  obtains n r w2 d where "admission_Authorize (pn_policies pn) (run_context rules ps trace) (pp_resolver ps) (w\<lparr>io_step := n\<rparr>) = (Inr d, r, w2)"
    "w' = try_Transition pn ctx StatusIdle ''admission denied'' w2"
proof (cases w rule: planned_run_cases [where rules = rules and rt = rt and provenance = provenance and trace = trace and span_id = span_id and pn = pn and ctx = ctx and ps = ps])
  case (1 e w1)
  then show thesis using assms by (simp add: New_def)
next
  case (2 snap plan n ad r w2)
  obtain d where d: "ad = Inr d" using assms 2(4) by (cases ad) (auto simp: New_def)
  have "\<not> ad_Allowed d" using assms 2(4) d admitted_error [of snap plan "length rules" provenance trace span_id pn ctx "ps\<lparr>pp_resolver := r\<rparr>" w2 m ps' w'] by auto
  then show thesis using that [OF 2(3) [unfolded d]] assms 2(4) d by simp
qed

definition kept_db :: "'z db_env_scheme \<Rightarrow> 'z db_env_scheme \<Rightarrow> bool" where
  "kept_db w w' \<longleftrightarrow> fs_files w' = fs_files w \<and> db_ReadOnly w' = db_ReadOnly w \<and> db_Events w' = db_Events w \<and> db_Sequences w' = db_Sequences w"

lemma kept_db_refl: "kept_db w w" and kept_db_trans: "kept_db u v \<Longrightarrow> kept_db v w \<Longrightarrow> kept_db u w"
  by (simp_all add: kept_db_def)

lemma record_lineage_keeps: "kept_db w (record_lineage ev r w)"
  by (cases "w\<lparr>io_step := Suc (io_step w)\<rparr>" rule: io_call_cases; cases "w\<lparr>io_step := Suc (Suc (io_step w))\<rparr>" rule: io_call_cases)
    (auto simp: kept_db_def record_lineage_def AppendLineage_def writable_def ensureWritable_def time_Now_def Let_def)

lemma Resolve_db: "ownership_Resolve d i right r w = (res, r', w') \<Longrightarrow> kept_db w w'"
proof (cases "getClaim i r w")
  case (fields g r1 w1)
  assume run: "ownership_Resolve d i right r w = (res, r', w')"
  have "kept_db w w1" using fields by (cases i w rule: own_GetClaim_cases) (auto simp: getClaim_def kept_db_def split: if_splits)
  then show ?thesis using run fields kept_db_trans [OF _ record_lineage_keeps]
    by (cases "rv_domains r d"; cases g) (auto simp: ownership_Resolve_def Let_def kept_db_refl)
qed

lemma Authorize_db:
  assumes "admission_Authorize policies ctx r w = (res, r', w')"
  shows "kept_db w w'"
proof -
  have "kept_db w0 (snd (snd (check_ownership siks r0 w0)))" for siks r0 and w0 :: "'a own_env_scheme"
  proof (induction siks arbitrary: r0 w0)
    case (Cons sik siks)
    obtain res r1 w1 where step: "ownership_Resolve ''cf-sync'' sik RightUpdate r0 w0 = (res, r1, w1)" by (cases "ownership_Resolve ''cf-sync'' sik RightUpdate r0 w0") auto
    show ?case using Resolve_db [OF step] step kept_db_trans [OF _ Cons [of w1 r1], of w0] by (cases res) simp_all
  qed (simp add: kept_db_refl)
  moreover obtain c r1 w1 where "check_ownership (ec_ResourceIDs ctx) r w = (c, r1, w1)" by (cases "check_ownership (ec_ResourceIDs ctx) r w") auto
  ultimately show ?thesis using assms by (cases c) (auto simp: admission_Authorize_def split: option.splits dest: arg_cong [where f = "\<lambda>x. kept_db w (snd (snd x))"])
qed

lemma blocked_run:
  assumes "pipeline_ok pn" and "stored_state w = Inr st" and "current_status st = StatusPlanning"
  shows "\<exists>e. fst (DryRun governed listed zoneID rt provenance trace span_id pn ctx ps w) = Inl e"
proof -
  let ?w0 = "bus_Emit (pn_bus pn) ''run_started'' [] [(''mode'', AString ''dry-run''), (''resource'', AString rt), (''zone'', AString zoneID)] w"
  have st: "stored_state ?w0 = Inr st" using bus_Emit_stored [OF assms(1)] assms(2) by simp
  have "\<not> isTransitionAllowed (current_status st) StatusDiscovering" unfolding assms(3) by (simp add: isTransitionAllowed_def allowed_targets_def status_defs)
  then obtain e v where "Transition (pn_machine pn) ctx StatusDiscovering ''starting dry-run'' ?w0 = (Inl e, v)" using refused_status [OF st] by blast
  then show ?thesis by (auto simp: DryRun_def runDiscoveryStage_def Let_def)
qed


section \<open>When a run succeeds\<close>

text \<open>A world in which no call fails, with the given status stored.\<close>

definition calm :: "runtime_status \<Rightarrow> 'z db_env_scheme \<Rightarrow> bool" where
  "calm status w \<longleftrightarrow> no_faults w \<and> \<not> db_ReadOnly w \<and> log_inv w \<and> (\<exists>st. stored_state w = Inr st \<and> state_ok st \<and> current_status st = status)"

lemma calm_transition:
  assumes "pipeline_ok pn" and "sm_checkpoints (pn_machine pn) = None" and "is_int64 (rc_FencingToken ctx)" and "calm status w" and "isTransitionAllowed status to_st" and "to_st \<noteq> []"
  shows "\<exists>w'. Transition (pn_machine pn) ctx to_st reason w = (Inr (), w') \<and> calm to_st w' \<and> ow_Claims w' = ow_Claims w"
proof -
  obtain st where st: "stored_state w = Inr st" "state_ok st" "current_status st = status" using assms(4) by (auto simp: calm_def)
  have sm: "sm_ok (pn_machine pn)" using assms(1) by (simp add: pipeline_ok_def)
  obtain w' where tr: "Transition (pn_machine pn) ctx to_st reason w = (Inr (), w')" "no_faults w'" "\<not> db_ReadOnly w'" "log_inv w'"
    using Transition_quiet [of w st to_st "pn_machine pn" ctx reason] assms(2,4,5) st sm by (auto simp: calm_def)
  then show ?thesis using moved_status [OF assms(1) tr(1) st(1,2) assms(3,6)] Transition_claims [OF assms(1) tr(1)] by (auto simp: calm_def)
qed

lemma calm_kept: "calm status w \<Longrightarrow> kept_db w w' \<Longrightarrow> no_faults w' \<Longrightarrow> calm status w'"
  using stored_state_files [of w' w] by (auto simp: calm_def kept_db_def log_inv_def)

lemma calm_step [simp]: "calm status (w\<lparr>io_step := n\<rparr>) \<longleftrightarrow> calm status w"
  using stored_state_files [of "w\<lparr>io_step := n\<rparr>" w] by (auto simp: calm_def log_inv_def no_faults_def)

lemma admitted_succeeds:
  assumes "pipeline_ok pn" "sm_checkpoints (pn_machine pn) = None" "is_int64 (rc_FencingToken ctx)" "calm StatusPlanning w" and "deletions plan (sort ks)" "distinct ks"
  shows "\<exists>res ps' w'. admitted_run snap plan n provenance trace span_id pn ctx ps w = (Inr res, ps', w')"
proof -
  have "isTransitionAllowed StatusPlanning StatusExecuting" "StatusExecuting \<noteq> []" by (simp_all add: isTransitionAllowed_def allowed_targets_def status_defs)
  then obtain v where tr: "Transition (pn_machine pn) ctx StatusExecuting ''admission granted'' w = (Inr (), v)" using calm_transition [OF assms(1-4)] by blast
  obtain as v' where as: "crowdsec_Translate (Some plan) provenance v = (Inr as, v')" "crowdsec_Validate as = Inr ()"
    by (rule deletions_translated [OF conjunct2 [OF assms(5)] conjunct1 [OF assms(5)] assms(6), of provenance v]) (rule that)
  show ?thesis by (simp add: admitted_run_def tr as runValidationStage_def Let_def split_beta)
qed

lemma run_decided:
  fixes w :: "'z own_env_scheme"
  assumes "pipeline_ok pn" "sm_checkpoints (pn_machine pn) = None" "pn_bus pn = None" "is_int64 (rc_FencingToken ctx)" "calm StatusIdle w"
    and "distinct (rule_keys rules)" "cb_state (hm_breaker (pp_health ps)) \<noteq> StateOpen" "rv_store (pp_resolver ps)" "rv_domains (pp_resolver ps) ''cf-sync'' = Some req"
  shows "if (\<forall>k \<in> set (rule_keys rules). entitled (pp_resolver ps) req RightUpdate (owners_in (pp_resolver ps, w) k)) \<and>
      (\<forall>m \<in> set (matched (pn_policies pn) (run_context rules ps trace)). pr_Decision (snd m) \<noteq> DecisionDeny)
    then \<exists>res ps' w'. DryRun True (Inr rules) zoneID rt provenance trace span_id pn ctx ps w = (Inr res, ps', w')
    else \<exists>reason ps' w'. DryRun True (Inr rules) zoneID rt provenance trace span_id pn ctx ps w = (Inl (New dry_run_op (''admission denied: '' @ reason)), ps', w')"
proof -
  have moves: "isTransitionAllowed StatusIdle StatusDiscovering" "isTransitionAllowed StatusDiscovering StatusPlanning" "StatusDiscovering \<noteq> []" "StatusPlanning \<noteq> []"
    by (simp_all add: isTransitionAllowed_def allowed_targets_def status_defs)
  have w0: "calm StatusIdle (w\<lparr>io_step := Suc (io_step w)\<rparr>)" using assms(5) by simp
  obtain v where v: "Transition (pn_machine pn) ctx StatusDiscovering ''starting dry-run'' (w\<lparr>io_step := Suc (io_step w)\<rparr>) = (Inr (), v)" "calm StatusDiscovering v" "ow_Claims v = ow_Claims w"
    using calm_transition [OF assms(1,2,4) w0 moves(1,3)] by auto
  have v1: "calm StatusDiscovering (v\<lparr>io_step := Suc (io_step v)\<rparr>)" using v(2) by simp
  obtain u where u: "Transition (pn_machine pn) ctx StatusPlanning ''discovery completed'' (v\<lparr>io_step := Suc (io_step v)\<rparr>) = (Inr (), u)" "calm StatusPlanning u" "ow_Claims u = ow_Claims v"
    using calm_transition [OF assms(1,2,4) v1 moves(2,4)] by auto
  have run: "DryRun True (Inr rules) zoneID rt provenance trace span_id pn ctx ps w = planned_run rt rules provenance trace span_id pn ctx ps u"
    using assms(3,7) v(1) u(1) by (simp add: DryRun_def runDiscoveryStage_def bus_Emit_def time_Now_def Let_def breaker_Allow_def)
  show ?thesis
  proof (cases u rule: planned_run_cases [where rules = rules and rt = rt and provenance = provenance and trace = trace and span_id = span_id and pn = pn and ctx = ctx and ps = ps])
    case (1 e w1)
    then show ?thesis using assms(6) by blast
  next
    case (2 snap plan n ad r w2)
    have own: "owners_in (pp_resolver ps, u\<lparr>io_step := n\<rparr>) = owners_in (pp_resolver ps, w)" by (rule owners_in_cong) (simp_all add: u(3) v(3))
    have quiet: "no_faults (u\<lparr>io_step := n\<rparr>)" using u(2) by (simp add: calm_def no_faults_def)
    obtain d where d: "ad = Inr d" "no_faults w2" "ad_Allowed d \<longleftrightarrow> (\<forall>k \<in> set (rule_keys rules). entitled (pp_resolver ps) req RightUpdate (owners_in (pp_resolver ps, w) k)) \<and>
        (\<forall>m \<in> set (matched (pn_policies pn) (run_context rules ps trace)). pr_Decision (snd m) \<noteq> DecisionDeny)"
      using Authorize_stored [OF assms(8) quiet assms(9), of "pn_policies pn" "run_context rules ps trace"] 2(3) unfolding own by (auto simp: admission_context_def)
    have "calm StatusPlanning w2" by (rule calm_kept [OF _ Authorize_db [OF 2(3)] d(2)]) (simp add: u(2))
    then have "\<exists>res ps' w'. admitted_run snap plan (length rules) provenance trace span_id pn ctx (ps\<lparr>pp_resolver := r\<rparr>) w2 = (Inr res, ps', w')"
      by (rule admitted_succeeds [OF assms(1,2,4) _ 2(2) assms(6)])
    then show ?thesis unfolding run 2(4) d(3) [symmetric] using d(1) by (cases "ad_Allowed d") (simp_all add: New_def)
  qed
qed


definition sample_pipeline :: "governance_policy list \<Rightarrow> unit pipeline" where
  "sample_pipeline policies = \<lparr>pn_machine = \<lparr>sm_eventBus = None, sm_checkpoints = None\<rparr>, pn_bus = None, pn_policies = policies, pn_abuse = True\<rparr>"

definition sample_parts :: pipeline_parts where
  "sample_parts = \<lparr>pp_health = health_New 1 (breaker_New 5 Minute Minute), pp_resolver = wired_resolver\<rparr>"

definition closed_policy :: governance_policy where
  "closed_policy = breaker_policy\<lparr>po_Rules := map (\<lambda>r. r\<lparr>pr_ID := ''deny-outside-maintenance-window''\<rparr>) (po_Rules breaker_policy)\<rparr>"

lemma sample_ok:
  "pipeline_ok (sample_pipeline policies)" "sm_checkpoints (pn_machine (sample_pipeline policies)) = None" "pn_bus (sample_pipeline policies) = None"
  "calm StatusIdle empty_own" "distinct (rule_keys sample_rules)" "cb_state (hm_breaker (pp_health sample_parts)) \<noteq> StateOpen" "rv_store (pp_resolver sample_parts)"
  "rv_domains (pp_resolver sample_parts) ''cf-sync'' = Some cf_sync_domain"
proof -
  have "stored_state empty_own = Inr zero_state" by (simp add: stored_state_def empty_own_def file_get_def)
  moreover have "log_inv empty_own" "no_faults empty_own" "\<not> db_ReadOnly empty_own" by (auto simp: empty_own_def no_faults_def log_inv_def scope_seqs_def next_sequence_def)
  ultimately show "calm StatusIdle empty_own" using zero_state_ok zero_state_idle by (simp add: calm_def)
qed (simp_all add: sample_pipeline_def pipeline_ok_def sm_ok_def sample_parts_def health_New_def breaker_New_def rule_keys_def IPAccessRules_def sample_rules_def wired_defs)

lemma sample_entitled: "entitled (pp_resolver sample_parts) cf_sync_domain RightUpdate (owners_in (pp_resolver sample_parts, empty_own) k)"
  by (simp add: sample_parts_def entitled_def owners_in_def cf_sync_domain_def empty_own_def wired_defs)

lemma sample_matched:
  "matched (pn_policies (sample_pipeline [breaker_policy])) (run_context sample_rules sample_parts []) = []"
  "\<exists>m \<in> set (matched (pn_policies (sample_pipeline [closed_policy])) (run_context sample_rules sample_parts [])). pr_Decision (snd m) = DecisionDeny"
  by (simp_all add: matched_def applies_def sample_pipeline_def breaker_policy_def closed_policy_def rule_matches_def admission_context_def sample_parts_def health_New_def breaker_New_def breaker_GetState_def)

lemma sample_runs:
  "\<exists>res ps' w'. DryRun True (Inr sample_rules) ''z'' ''ip_access_rules'' no_provenance [] [] (sample_pipeline [breaker_policy]) zero_context sample_parts empty_own = (Inr res, ps', w')"
  by (rule run_decided [OF sample_ok(1-3) zero_context_token sample_ok(4-8), of "[breaker_policy]" "[]", THEN if_P [THEN iffD1, rotated]]) (simp add: sample_entitled sample_matched(1))

lemma sample_denied:
  "\<exists>reason ps' w'. DryRun True (Inr sample_rules) ''z'' ''ip_access_rules'' no_provenance [] [] (sample_pipeline [closed_policy]) zero_context sample_parts empty_own =
     (Inl (New dry_run_op (''admission denied: '' @ reason)), ps', w')"
  by (rule run_decided [OF sample_ok(1-3) zero_context_token sample_ok(4-8), of "[closed_policy]" "[]", THEN if_not_P [THEN iffD1, rotated]]) (use sample_matched(2) in blast)


theorem dry_run_gated_witness:
  "\<exists>res. fst (DryRun True (Inr sample_rules) ''z'' ''ip_access_rules'' no_provenance [] [] (sample_pipeline [breaker_policy]) zero_context sample_parts empty_own) = Inr res \<and>
    length (re_Actions res) = 2"
proof -
  obtain res ps' w' where run: "DryRun True (Inr sample_rules) ''z'' ''ip_access_rules'' no_provenance [] [] (sample_pipeline [breaker_policy]) zero_context sample_parts empty_own = (Inr res, ps', w')"
    using sample_runs by blast
  obtain rules where "(Inr sample_rules :: access_rule list result) = Inr rules"
      "map (\<lambda>a. (ca_Type a, ca_StableIdentityKey a)) (re_Actions res) = map (Pair ''delete_decision'') (sort (rule_keys rules))"
    using dry_run_gated [OF sample_ok(1) run] by (elim conjE exE) (rule that)
  then have "map (\<lambda>a. (ca_Type a, ca_StableIdentityKey a)) (re_Actions res) = map (Pair ''delete_decision'') (sort (rule_keys sample_rules))" by simp
  from arg_cong [where f = length, OF this] have "length (re_Actions res) = length (rule_keys sample_rules)" by simp
  moreover have "length (rule_keys sample_rules) = 2" by (simp add: rule_keys_def IPAccessRules_def sample_rules_def)
  ultimately show ?thesis using run by simp
qed


end
