(* ===== verification/Autodeban.thy ===== *)
theory Autodeban
  imports Ban_Cycle Report_Outbox
begin

text \<open>
  \<open>internal/security/autodeban\<close>: the scan that lifts bans early when the reputation of an address no longer supports them, with the adapters of \<open>cmd/cf-sync/autodeban_wiring.go\<close>.
  The table of bans and the Cloudflare client are those of the ban lifecycle, the evidence is that of the reporting service; its database handle is a world of its own inside this one, with its own
  scripts. The list of the active decisions of CrowdSec is a parameter, a function of the number of the call. The logs are left out.
\<close>

section \<open>The service\<close>

record deban_config =
  dg_Enabled :: bool
  dg_Mode :: string
  dg_NoNewEventsWindow :: duration
  dg_RecentWAFEventWindow :: duration

text \<open>The collaborators; the checker for CrowdSec may be missing, or be the nil function.\<close>

record deban_service =
  dn_store :: bool
  dn_gate :: "gate option"
  dn_cf :: "cf_client option"
  dn_crowdsec :: "(nat \<Rightarrow> string list result) option option"
  dn_evidence :: bool
  dn_audit :: bool
  dn_debanEvi :: bool
  dn_trustReg :: "trust_registry option"
  dn_cfg :: deban_config

record audit_record =
  au_Action :: string
  au_IP :: string
  au_RuleID :: string
  au_Reason :: string
  au_Shadow :: bool

record deban_env = ban_env +
  dv_Reports :: report_env
  dv_Audits :: "audit_record list"

definition deban_defaults :: "deban_config \<Rightarrow> deban_config" where
  "deban_defaults cfg =
     \<lparr>dg_Enabled = dg_Enabled cfg, dg_Mode = (if dg_Mode cfg = [] then ModeShadow else dg_Mode cfg),
      dg_NoNewEventsWindow = (if dg_NoNewEventsWindow cfg \<le> 0 then 24 * Hour else dg_NoNewEventsWindow cfg),
      dg_RecentWAFEventWindow = (if dg_RecentWAFEventWindow cfg \<le> 0 then 24 * Hour else dg_RecentWAFEventWindow cfg)\<rparr>"

definition NewDebanService :: "deban_service \<Rightarrow> deban_service" where
  "NewDebanService parts = parts\<lparr>dn_cfg := deban_defaults (dn_cfg parts)\<rparr>"

section \<open>What is asked\<close>

definition deban_Search :: "string \<Rightarrow> go_time \<Rightarrow> 'z deban_env_scheme \<Rightarrow> evidence_row list result \<times> 'z deban_env_scheme" where
  "deban_Search ip from_time w =
     (let (r, v) = evidence_Search (no_options\<lparr>eo_IP := ip, eo_From := from_time\<rparr>) (dv_Reports w) in (r, w\<lparr>dv_Reports := v\<rparr>))"

definition isBenignAbuseType :: "string \<Rightarrow> bool" where
  "isBenignAbuseType t \<longleftrightarrow> t = [] \<or> t = ''benign_bootstrap'' \<or> t = ''benign_probe''"

definition no_evidence_store :: error where "no_evidence_store = Plain ''autodeban: no evidence store configured''"

definition hasRecentHostileEvent :: "deban_service \<Rightarrow> string \<Rightarrow> go_time \<Rightarrow> 'z deban_env_scheme \<Rightarrow> bool result \<times> 'z deban_env_scheme" where
  "hasRecentHostileEvent sv ip now w =
     (if \<not> dn_evidence sv then (Inl no_evidence_store, w)
      else case deban_Search ip (time_add now (- dg_RecentWAFEventWindow (dn_cfg sv))) w of
          (Inl e, w1) \<Rightarrow> (Inl e, w1)
        | (Inr records, w1) \<Rightarrow> (Inr (\<exists>r \<in> set records. \<not> isBenignAbuseType (vr_AbuseType r)), w1))"

definition lastEventAt :: "deban_service \<Rightarrow> string \<Rightarrow> 'z deban_env_scheme \<Rightarrow> go_time option result \<times> 'z deban_env_scheme" where
  "lastEventAt sv ip w =
     (if \<not> dn_evidence sv then (Inl no_evidence_store, w)
      else case deban_Search ip 0 w of
          (Inl e, w1) \<Rightarrow> (Inl e, w1)
        | (Inr [], w1) \<Rightarrow> (Inr None, w1)
        | (Inr (r # rs), w1) \<Rightarrow> (Inr (Some (foldl (\<lambda>latest t. if time_after t latest then t else latest) (vr_Timestamp r) (map vr_Timestamp rs))), w1))"

definition ActiveDecision :: "(nat \<Rightarrow> string list result) option \<Rightarrow> string \<Rightarrow> 'z io_env_scheme \<Rightarrow> bool result \<times> 'z io_env_scheme" where
  "ActiveDecision f ip w =
     (case f of
        None \<Rightarrow> (Inl (Plain ''autodeban: no crowdsec active-ban source configured''), w)
      | Some g \<Rightarrow> let w1 = w\<lparr>io_step := Suc (io_step w)\<rparr> in
          case g (io_step w) of
            Inl e \<Rightarrow> (Inl (Errorf (''autodeban: crowdsec active-ban lookup failed: '' @ Error e) e), w1)
          | Inr ips \<Rightarrow> (Inr (ip \<in> set ips), w1))"

definition crowdsecActive :: "deban_service \<Rightarrow> string \<Rightarrow> 'z io_env_scheme \<Rightarrow> bool result \<times> 'z io_env_scheme" where
  "crowdsecActive sv ip w =
     (case dn_crowdsec sv of
        None \<Rightarrow> (Inl (Plain ''autodeban: no crowdsec checker configured''), w)
      | Some f \<Rightarrow> ActiveDecision f ip w)"

text \<open>Half of the duration of a ban, computed in floating point: the product with one half is exact, and the conversion back cuts.\<close>

definition recidive_threshold :: "duration \<Rightarrow> duration" where
  "recidive_threshold d = float64_of_int d div 2"

definition active_recidive :: "ban_entry \<Rightarrow> go_time \<Rightarrow> bool" where
  "active_recidive e now \<longleftrightarrow> be_RecidiveLevel e \<ge> 2 \<and> be_Duration e > 0 \<and> time_sub now (be_CreatedAt e) < recidive_threshold (be_Duration e)"

section \<open>One entry\<close>

text \<open>The store is asked again whether the rule is tracked.\<close>

definition is_tracked :: "string \<Rightarrow> 'z ban_env_scheme \<Rightarrow> bool \<times> 'z ban_env_scheme" where
  "is_tracked ip w = (case ban_Get ip w of (Inr (Some e), w1) \<Rightarrow> (be_RuleID e \<noteq> [], w1) | (_, w1) \<Rightarrow> (False, w1))"

text \<open>The triggers, once nothing excludes the entry.\<close>

definition deban_trigger :: "deban_service \<Rightarrow> ban_entry \<Rightarrow> go_time \<Rightarrow> 'z deban_env_scheme \<Rightarrow> (string \<times> bool) \<times> 'z deban_env_scheme" where
  "deban_trigger sv entry now w =
     (let (last, w1) = lastEventAt sv (be_IP entry) w;
          warranted = (if be_Confidence entry \<le> 0 then ((''weak_signal_ban'', True), w1)
            else case dn_gate sv of
                None \<Rightarrow> ((''still_warranted'', False), w1)
              | Some g \<Rightarrow> let (d, w2) = EvaluateBan g (be_IP entry) SignalWeak w1 in
                  if \<not> de_AllowBan d then ((''reputation_dropped:'' @ de_Reason d, True), w2) else ((''still_warranted'', False), w2))
      in case last of
           Inr (Some t) \<Rightarrow> if time_sub now t \<ge> dg_NoNewEventsWindow (dn_cfg sv) then ((''no_new_events'', True), w1) else warranted
         | Inr None \<Rightarrow> ((''no_local_evidence_ever'', True), w1)
         | Inl _ \<Rightarrow> warranted)"

definition evaluateEntry :: "deban_service \<Rightarrow> ban_entry \<Rightarrow> 'z deban_env_scheme \<Rightarrow> (string \<times> bool) \<times> 'z deban_env_scheme" where
  "evaluateEntry sv entry w =
     (let (now, w1) = time_Now w; ip = be_IP entry in
      if (case dn_trustReg sv of None \<Rightarrow> False | Some reg \<Rightarrow> MatchIP reg ip \<noteq> []) then ((''protected_target'', False), w1)
      else let (tracked, w2) = (if dn_store sv then is_tracked ip w1 else (True, w1)) in
        if \<not> tracked then ((''unmanaged_rule'', False), w2)
        else if active_recidive entry now then ((''active_recidive'', False), w2)
        else case hasRecentHostileEvent sv ip now w2 of
            (Inl _, w3) \<Rightarrow> ((''evidence_check_unavailable'', False), w3)
          | (Inr True, w3) \<Rightarrow> ((''recent_waf_event'', False), w3)
          | (Inr False, w3) \<Rightarrow>
              (case crowdsecActive sv ip w3 of
                 (Inr False, w4) \<Rightarrow> deban_trigger sv entry now w4
               | (_, w4) \<Rightarrow> ((''crowdsec_active_or_unknown'', False), w4)))"

section \<open>Lifting a ban\<close>

definition deban_actionFor :: "bool \<Rightarrow> string" where
  "deban_actionFor shadow = (if shadow then ''autodeban.shadow_decision'' else ''autodeban.executed'')"

text \<open>The identifier has the nanoseconds since 1970; the note is stored as a comment that nothing reads.\<close>

definition deban_evidence :: "string \<Rightarrow> go_time \<Rightarrow> evidence_row" where
  "deban_evidence ip at =
     \<lparr>vr_EvidenceID = ''autodeban:'' @ ip @ '':'' @ show_int (int64_of (at - 62135596800000000000)), vr_Timestamp = at, vr_Source = ''autodeban'', vr_IP = ip, vr_AbuseType = [],
      vr_Decision = ''auto_debanned'', vr_Reported = False, vr_Suppressed = False, vr_Reason = []\<rparr>"

definition WriteDebanEvidence :: "deban_service \<Rightarrow> string \<Rightarrow> go_time \<Rightarrow> 'z deban_env_scheme \<Rightarrow> 'z deban_env_scheme" where
  "WriteDebanEvidence sv ip at w =
     (if dn_debanEvi sv then w\<lparr>dv_Reports := snd (evidence_Append (deban_evidence ip at) (dv_Reports w))\<rparr> else w)"

definition audit_Record :: "deban_service \<Rightarrow> audit_record \<Rightarrow> 'z deban_env_scheme \<Rightarrow> 'z deban_env_scheme" where
  "audit_Record sv a w =
     (if dn_audit sv then case io_call w of (Inl _, w1) \<Rightarrow> w1 | (Inr _, w1) \<Rightarrow> w1\<lparr>dv_Audits := dv_Audits w1 @ [a]\<rparr> else w)"

text \<open>The rule is deleted and the entry marked.\<close>

definition lift_ban :: "deban_service \<Rightarrow> ban_entry \<Rightarrow> 'z deban_env_scheme \<Rightarrow> unit result \<times> 'z deban_env_scheme" where
  "lift_ban sv entry w =
     (let ip = be_IP entry in
      case dn_cf sv of
        None \<Rightarrow> (Inl (Plain (''autodeban: no cloudflare deleter configured, cannot enforce deban for '' @ ip)), w)
      | Some cf \<Rightarrow>
          if be_RuleID entry = [] then (Inl (Plain (''autodeban: entry for '' @ ip @ '' has no rule_id, refusing to delete'')), w)
          else case cf_delete cf (be_RuleID entry) w of
              (Inl e, w1) \<Rightarrow> (Inl (Errorf (''autodeban: cloudflare delete failed for '' @ ip @ '': '' @ Error e) e), w1)
            | (Inr _, w1) \<Rightarrow>
                if \<not> dn_store sv then (Inr (), w1)
                else case ban_MarkStatus ip BanAutoDebanned w1 of
                    (Inl e, w2) \<Rightarrow> (Inl (Errorf (''autodeban: store.MarkStatus failed for '' @ ip @ '': '' @ Error e) e), w2)
                  | (Inr _, w2) \<Rightarrow> (Inr (), w2))"

definition deban :: "deban_service \<Rightarrow> ban_entry \<Rightarrow> string \<Rightarrow> 'z deban_env_scheme \<Rightarrow> unit result \<times> 'z deban_env_scheme" where
  "deban sv entry reason w =
     (let (at, w1) = time_Now w; ip = be_IP entry; rule = be_RuleID entry;
          shadow = (dg_Mode (dn_cfg sv) \<noteq> ModeEnforce);
          w2 = audit_Record sv \<lparr>au_Action = deban_actionFor shadow, au_IP = ip, au_RuleID = rule, au_Reason = reason, au_Shadow = shadow\<rparr> w1;
          w3 = WriteDebanEvidence sv ip at w2
      in if shadow then (Inr (), w3) else lift_ban sv entry w3)"

section \<open>The scan\<close>

record scan_result =
  sr_Considered :: nat
  sr_Debanned :: "string list"
  sr_Excluded :: "string \<rightharpoonup> string"
  sr_Errors :: "string \<rightharpoonup> string"

definition no_scan :: scan_result where
  "no_scan = \<lparr>sr_Considered = 0, sr_Debanned = [], sr_Excluded = Map.empty, sr_Errors = Map.empty\<rparr>"

fun scan_entries :: "deban_service \<Rightarrow> ban_entry list \<Rightarrow> scan_result \<Rightarrow> 'z deban_env_scheme \<Rightarrow> scan_result \<times> 'z deban_env_scheme" where
  "scan_entries sv [] res w = (res, w)"
| "scan_entries sv (e # es) res w =
     (let res1 = res\<lparr>sr_Considered := sr_Considered res + 1\<rparr>; ((reason, ok), w1) = evaluateEntry sv e w in
      if \<not> ok then scan_entries sv es (res1\<lparr>sr_Excluded := (sr_Excluded res1)(be_IP e \<mapsto> reason)\<rparr>) w1
      else case deban sv e reason w1 of
          (Inl err, w2) \<Rightarrow> scan_entries sv es (res1\<lparr>sr_Errors := (sr_Errors res1)(be_IP e \<mapsto> Error err)\<rparr>) w2
        | (Inr _, w2) \<Rightarrow> scan_entries sv es (res1\<lparr>sr_Debanned := sr_Debanned res1 @ [be_IP e]\<rparr>) w2)"

definition Scan :: "deban_service \<Rightarrow> 'z deban_env_scheme \<Rightarrow> scan_result \<times> 'z deban_env_scheme" where
  "Scan sv w =
     (if \<not> dg_Enabled (dn_cfg sv) \<or> \<not> dn_store sv then (no_scan, w)
      else case ban_Active w of
          (Inl e, w1) \<Rightarrow> (no_scan\<lparr>sr_Errors := [''*'' \<mapsto> ''store_active_error: '' @ Error e]\<rparr>, w1)
        | (Inr entries, w1) \<Rightarrow> scan_entries sv entries no_scan w1)"

section \<open>What a scan leaves alone\<close>

lemma deban_fields [simp]:
  fixes w :: "'z deban_env_scheme"
  shows "dv_Reports (w\<lparr>io_step := n\<rparr>) = dv_Reports w" "dv_Reports (w\<lparr>bl_Rows := rows\<rparr>) = dv_Reports w" "dv_Reports (w\<lparr>bl_Deletes := ds\<rparr>) = dv_Reports w"
    "io_clock (w\<lparr>dv_Reports := v\<rparr>) = io_clock w" "io_step (w\<lparr>dv_Reports := v\<rparr>) = io_step w" "bl_Rows (w\<lparr>dv_Reports := v\<rparr>) = bl_Rows w" "bl_Deletes (w\<lparr>dv_Reports := v\<rparr>) = bl_Deletes w"
    "io_clock (w\<lparr>dv_Audits := as\<rparr>) = io_clock w" "io_step (w\<lparr>dv_Audits := as\<rparr>) = io_step w" "bl_Rows (w\<lparr>dv_Audits := as\<rparr>) = bl_Rows w" "bl_Deletes (w\<lparr>dv_Audits := as\<rparr>) = bl_Deletes w"
  by (cases w; simp)+

definition hostile :: "'z deban_env_scheme \<Rightarrow> evidence_row set" where
  "hostile w = {r \<in> set (ve_Rows (dv_Reports w)). \<not> isBenignAbuseType (vr_AbuseType r)}"

text \<open>Looking at things: nothing is deleted, no ban changes, no hostile event is added.\<close>

definition looks :: "'z deban_env_scheme \<Rightarrow> 'z deban_env_scheme \<Rightarrow> bool" where
  "looks w w' \<longleftrightarrow> bl_Rows w' = bl_Rows w \<and> bl_Deletes w' = bl_Deletes w \<and> io_clock w' = io_clock w \<and> io_step w \<le> io_step w' \<and> hostile w' \<subseteq> hostile w"

lemma looks_refl [simp]: "looks w w" and looks_trans [trans]: "looks u v \<Longrightarrow> looks v w \<Longrightarrow> looks u w"
  by (auto simp: looks_def)

lemma looks_step [simp]: "looks w (w\<lparr>io_step := Suc (io_step w)\<rparr>)"
  by (simp add: looks_def hostile_def)

lemma cleanup_removes: "set (ve_Rows (snd (evidence_cleanup v))) \<subseteq> set (ve_Rows v)"
proof -
  have trim: "set (ve_Rows (snd (evidence_trimToMaxEntries n u))) \<subseteq> set (ve_Rows u)" for n and u :: "'a report_env_scheme"
    by (cases u rule: io_call_cases; cases "u\<lparr>io_step := Suc (io_step u)\<rparr>" rule: io_call_cases) (auto simp: evidence_trimToMaxEntries_def Let_def)
  have purge: "set (ve_Rows (snd (evidence_purgeBefore c u))) \<subseteq> set (ve_Rows u)" for c and u :: "'a report_env_scheme"
    by (cases u rule: io_call_cases) (auto simp: evidence_purgeBefore_def)
  have both: "set (ve_Rows (snd (and_try (evidence_purgeBefore c u) (\<lambda>_ w2. evidence_trimToMaxEntries n w2)))) \<subseteq> set (ve_Rows u)" for c n and u :: "'a report_env_scheme"
  proof -
    obtain r u' where p: "evidence_purgeBefore c u = (r, u')" by fastforce
    have "set (ve_Rows u') \<subseteq> set (ve_Rows u)" using purge [of c u] p by simp
    then show ?thesis using p trim [of n u'] by (cases r) auto
  qed
  show ?thesis
    using both [of _ "v\<lparr>io_step := Suc (io_step v), ve_LastCleanup := io_clock v (io_step v)\<rparr>"] by (auto simp: evidence_cleanup_def time_Now_def Let_def)
qed

lemma Append_adds: "r \<in> set (ve_Rows (snd (evidence_Append e v))) \<Longrightarrow> r \<in> set (ve_Rows v) \<or> vr_AbuseType r = vr_AbuseType e"
  by (cases "db_ReadOnly v"; cases "time_is_zero (vr_Timestamp e)"; cases v rule: io_call_cases; cases "v\<lparr>io_step := Suc (io_step v)\<rparr>" rule: io_call_cases)
    (auto simp: evidence_Append_def writable_simps time_Now_def Let_def split: if_splits dest!: subsetD [OF cleanup_removes])

lemma evidence_found:
  assumes "evidence_Search opts v = (Inr rows, v')" and "eo_Limit opts = 0" and "eo_Offset opts = 0"
  shows "set rows = {r \<in> set (ve_Rows v'). evidence_matches opts r}"
proof -
  obtain c u where c: "evidence_cleanup v = (c, u)" by fastforce
  have "c = Inr ()" using assms(1) c by (cases c) (simp_all add: evidence_Search_def)
  then show ?thesis using assms c by (cases u rule: io_call_cases) (auto simp: evidence_Search_def Let_def)
qed

lemma Search_removes: "set (ve_Rows (snd (evidence_Search opts v))) \<subseteq> set (ve_Rows v)"
proof -
  obtain c u where c: "evidence_cleanup v = (c, u)" by fastforce
  have "set (ve_Rows u) \<subseteq> set (ve_Rows v)" using cleanup_removes [of v] c by simp
  then show ?thesis using c by (cases c; cases u rule: io_call_cases) (auto simp: evidence_Search_def Let_def)
qed

lemma deban_Search_looks: "deban_Search ip t w = (r, w') \<Longrightarrow> looks w w'"
  using Search_removes [of "no_options\<lparr>eo_IP := ip, eo_From := t\<rparr>" "dv_Reports w"] by (auto simp: deban_Search_def looks_def hostile_def split_beta)

lemma hostile_search:
  assumes "hasRecentHostileEvent sv ip now w = (r, w')"
  shows "looks w w' \<and> (r = Inr False \<longrightarrow> (\<forall>q \<in> hostile w'. \<not> evidence_matches (no_options\<lparr>eo_IP := ip, eo_From := time_add now (- dg_RecentWAFEventWindow (dn_cfg sv))\<rparr>) q))"
proof (cases "dn_evidence sv")
  case True
  let ?opts = "no_options\<lparr>eo_IP := ip, eo_From := time_add now (- dg_RecentWAFEventWindow (dn_cfg sv))\<rparr>"
  obtain found v where s: "evidence_Search ?opts (dv_Reports w) = (found, v)" by fastforce
  then have d: "deban_Search ip (time_add now (- dg_RecentWAFEventWindow (dn_cfg sv))) w = (found, w\<lparr>dv_Reports := v\<rparr>)" by (simp add: deban_Search_def)
  show ?thesis
  proof (cases found)
    case (Inl e)
    then show ?thesis using assms True d deban_Search_looks [OF d] by (auto simp: hasRecentHostileEvent_def)
  next
    case (Inr rows)
    have "set rows = {q \<in> set (ve_Rows v). evidence_matches ?opts q}" using evidence_found [of ?opts "dv_Reports w" rows v] s Inr by (simp add: no_options_def)
    then show ?thesis using assms True d Inr deban_Search_looks [OF d] by (auto simp: hasRecentHostileEvent_def hostile_def)
  qed
qed (use assms in \<open>auto simp: hasRecentHostileEvent_def\<close>)

lemma lastEvent_looks: "lastEventAt sv ip w = (r, w') \<Longrightarrow> looks w w'"
proof -
  assume run: "lastEventAt sv ip w = (r, w')"
  obtain f v where d: "deban_Search ip 0 w = (f, v)" by fastforce
  show ?thesis using run d deban_Search_looks [OF d]
    by (cases "dn_evidence sv"; cases f; cases "projr f") (auto simp: lastEventAt_def)
qed

lemma gate_looks: "EvaluateBan g ip st w = (d, w') \<Longrightarrow> looks w w'"
proof -
  assume "EvaluateBan g ip st w = (d, w')"
  then have "w' = snd (FetchSignals g ip st w)" by (simp add: EvaluateBan_def split_beta)
  moreover have "snd (FetchSignals g ip st w) \<in> {w, w\<lparr>io_step := Suc (io_step w)\<rparr>}" by (cases "ParseAddr ip") (simp_all add: FetchSignals_def Let_def)
  ultimately show ?thesis by auto
qed

lemma trigger_looks:
  assumes "deban_trigger sv e now w = (r, w')"
  shows "looks w w'"
proof -
  obtain l w1 where l: "lastEventAt sv (be_IP e) w = (l, w1)" by fastforce
  have w1: "looks w w1" by (rule lastEvent_looks [OF l])
  have "w' = w1 \<or> (\<exists>g d. dn_gate sv = Some g \<and> EvaluateBan g (be_IP e) SignalWeak w1 = (d, w'))"
    using assms l by (cases l; cases "projr l"; cases "dn_gate sv") (auto simp: deban_trigger_def Let_def split: if_splits prod.splits)
  then show ?thesis using w1 gate_looks looks_trans by blast
qed

text \<open>What an entry was found to be when the evaluation says that its ban may be lifted.\<close>

definition clear_of :: "deban_service \<Rightarrow> ban_entry \<Rightarrow> go_time \<Rightarrow> evidence_row set \<Rightarrow> bool" where
  "clear_of sv e now rows \<longleftrightarrow>
     (case dn_trustReg sv of None \<Rightarrow> True | Some reg \<Rightarrow> MatchIP reg (be_IP e) = []) \<and> \<not> active_recidive e now \<and>
     (\<forall>q \<in> rows. \<not> evidence_matches (no_options\<lparr>eo_IP := be_IP e, eo_From := time_add now (- dg_RecentWAFEventWindow (dn_cfg sv))\<rparr>) q)"

definition crowdsec_clear :: "deban_service \<Rightarrow> ban_entry \<Rightarrow> bool" where
  "crowdsec_clear sv e \<longleftrightarrow> (\<exists>f n ips. dn_crowdsec sv = Some (Some f) \<and> f n = Inr ips \<and> be_IP e \<notin> set ips)"

lemma tracked_looks: "is_tracked ip w = (r, w') \<Longrightarrow> looks w w'" for w :: "'z deban_env_scheme"
  by (cases w rule: io_call_cases) (auto simp: is_tracked_def ban_Get_def split: option.splits)

lemma crowdsec_looks: "crowdsecActive sv ip w = (r, w') \<Longrightarrow> looks w w' \<and> (r = Inr False \<longrightarrow> (\<exists>f n ips. dn_crowdsec sv = Some (Some f) \<and> f n = Inr ips \<and> ip \<notin> set ips))"
  by (auto simp: crowdsecActive_def ActiveDecision_def Let_def split: option.splits sum.splits)

lemma evaluated:
  assumes "evaluateEntry sv e w = ((reason, ok), w')"
  shows "looks (w\<lparr>io_step := Suc (io_step w)\<rparr>) w' \<and> (ok \<longrightarrow> clear_of sv e (io_clock w (io_step w)) (hostile w') \<and> crowdsec_clear sv e)"
proof -
  let ?now = "io_clock w (io_step w)" and ?w1 = "w\<lparr>io_step := Suc (io_step w)\<rparr>" and ?prot = "case dn_trustReg sv of None \<Rightarrow> False | Some reg \<Rightarrow> MatchIP reg (be_IP e) \<noteq> []"
  obtain t w2 where t: "(if dn_store sv then is_tracked (be_IP e) ?w1 else (True, ?w1)) = (t, w2)" by fastforce
  have w2: "looks ?w1 w2" using t tracked_looks by (auto split: if_splits)
  obtain h w3 where h: "hasRecentHostileEvent sv (be_IP e) ?now w2 = (h, w3)" by fastforce
  note hostile = hostile_search [OF h]
  have w3: "looks ?w1 w3" using looks_trans [OF w2] hostile by blast
  obtain c w4 where c: "crowdsecActive sv (be_IP e) w3 = (c, w4)" by fastforce
  note crowd = crowdsec_looks [OF c]
  have w4: "looks ?w1 w4" using looks_trans [OF w3] crowd by blast
  obtain tr w5 where tr: "deban_trigger sv e ?now w4 = (tr, w5)" by fastforce
  have w5: "looks ?w1 w5" by (rule looks_trans [OF w4 trigger_looks [OF tr]])
  have run: "evaluateEntry sv e w =
     (if ?prot then ((''protected_target'', False), ?w1) else if \<not> t then ((''unmanaged_rule'', False), w2)
      else if active_recidive e ?now then ((''active_recidive'', False), w2)
      else case h of Inl _ \<Rightarrow> ((''evidence_check_unavailable'', False), w3) | Inr True \<Rightarrow> ((''recent_waf_event'', False), w3)
        | Inr False \<Rightarrow> (case c of Inr False \<Rightarrow> (tr, w5) | _ \<Rightarrow> ((''crowdsec_active_or_unknown'', False), w4)))"
    using t h c tr by (simp add: evaluateEntry_def time_Now_def Let_def split: sum.split bool.split)
  show ?thesis
  proof (cases "\<not> ?prot \<and> t \<and> \<not> active_recidive e ?now \<and> h = Inr False \<and> c = Inr False")
    case True
    then have "w' = w5" using assms run by (simp split: if_splits)
    moreover have "hostile w5 \<subseteq> hostile w3" using crowd trigger_looks [OF tr] looks_trans [of w3 w4 w5] by (simp add: looks_def)
    then have "clear_of sv e ?now (hostile w5)" using True hostile by (auto simp: clear_of_def split: option.splits)
    moreover have "crowdsec_clear sv e" using True crowd by (auto simp: crowdsec_clear_def)
    ultimately show ?thesis using w5 by simp
  next
    case False
    then have "\<not> ok \<and> w' \<in> {?w1, w2, w3, w4}" using assms run by (auto split: if_splits sum.splits bool.splits)
    then show ?thesis using w2 w3 w4 by auto
  qed
qed

lemma audit_looks: "looks w (audit_Record sv a w)"
  by (cases w rule: io_call_cases) (auto simp: audit_Record_def looks_def hostile_def)

lemma evidence_looks: "looks w (WriteDebanEvidence sv ip at w)"
proof -
  have "r \<in> set (ve_Rows (dv_Reports w))" if "r \<in> set (ve_Rows (snd (evidence_Append (deban_evidence ip at) (dv_Reports w))))" "\<not> isBenignAbuseType (vr_AbuseType r)" for r
    using Append_adds [OF that(1)] that(2) by (auto simp: deban_evidence_def isBenignAbuseType_def)
  then show ?thesis by (auto simp: WriteDebanEvidence_def looks_def hostile_def)
qed

lemma MarkStatus_frame:
  fixes w :: "'z deban_env_scheme"
  shows "bl_Deletes (snd (ban_MarkStatus ip st w)) = bl_Deletes w \<and> io_clock (snd (ban_MarkStatus ip st w)) = io_clock w \<and> io_step w \<le> io_step (snd (ban_MarkStatus ip st w)) \<and>
    dv_Reports (snd (ban_MarkStatus ip st w)) = dv_Reports w"
  by (auto simp: ban_MarkStatus_def writable_def and_then_def Let_def split: option.split sum.split prod.split dest!: io_call_env)

text \<open>The one thing that lifting a ban deletes.\<close>

lemma lifted:
  assumes "lift_ban sv e w = (r, w')"
  shows "io_clock w' = io_clock w \<and> io_step w \<le> io_step w' \<and> hostile w' = hostile w \<and>
    bl_Deletes w' = bl_Deletes w @ (if dn_cf sv = None \<or> be_RuleID e = [] then [] else [be_RuleID e])"
proof (cases "dn_cf sv")
  case (Some cf)
  let ?w1 = "w\<lparr>io_step := Suc (io_step w), bl_Deletes := bl_Deletes w @ [be_RuleID e]\<rparr>"
  obtain m v where m: "ban_MarkStatus (be_IP e) BanAutoDebanned ?w1 = (m, v)" by fastforce
  have v: "bl_Deletes v = bl_Deletes w @ [be_RuleID e]" "io_clock v = io_clock w" "io_step w \<le> io_step v" "hostile v = hostile w"
    using MarkStatus_frame [of "be_IP e" BanAutoDebanned ?w1] m by (simp_all add: hostile_def)
  show ?thesis
  proof (cases "be_RuleID e = []")
    case True
    then show ?thesis using assms Some by (auto simp: lift_ban_def)
  next
    case False
    have "w' = ?w1 \<or> w' = v"
    proof (cases "cc_DeleteIPAccessRule cf (io_step w) (be_RuleID e)")
      case (Inl err)
      then show ?thesis using assms Some False by (simp add: lift_ban_def cf_delete_def)
    next
      case (Inr x)
      then show ?thesis using assms Some False m by (cases "dn_store sv"; cases m) (simp_all add: lift_ban_def cf_delete_def)
    qed
    then show ?thesis
    proof
      assume "w' = ?w1"
      then show ?thesis using False Some by (simp add: hostile_def)
    next
      assume "w' = v"
      then show ?thesis using v False Some by simp
    qed
  qed
qed (use assms in \<open>auto simp: lift_ban_def Let_def\<close>)

lemma debanned:
  assumes "deban sv e reason w = (r, w')"
  shows "io_clock w' = io_clock w \<and> io_step w \<le> io_step w' \<and> hostile w' \<subseteq> hostile w \<and>
    (if dg_Mode (dn_cfg sv) = ModeEnforce then bl_Deletes w' = bl_Deletes w @ (if dn_cf sv = None \<or> be_RuleID e = [] then [] else [be_RuleID e])
     else bl_Deletes w' = bl_Deletes w \<and> bl_Rows w' = bl_Rows w)"
proof -
  let ?sh = "dg_Mode (dn_cfg sv) \<noteq> ModeEnforce" and ?w1 = "w\<lparr>io_step := Suc (io_step w)\<rparr>"
  define w2 where "w2 = audit_Record sv \<lparr>au_Action = deban_actionFor ?sh, au_IP = be_IP e, au_RuleID = be_RuleID e, au_Reason = reason, au_Shadow = ?sh\<rparr> ?w1"
  define w3 where "w3 = WriteDebanEvidence sv (be_IP e) (io_clock w (io_step w)) w2"
  have look: "looks w w3" unfolding w3_def w2_def by (rule looks_trans [OF looks_trans [OF looks_step audit_looks] evidence_looks])
  have run: "deban sv e reason w = (if ?sh then (Inr (), w3) else lift_ban sv e w3)" by (simp add: deban_def time_Now_def Let_def w2_def w3_def)
  show ?thesis
  proof (cases ?sh)
    case True
    then show ?thesis using assms run look by (simp add: looks_def)
  next
    case False
    then have "lift_ban sv e w3 = (r, w')" using assms run by simp
    from lifted [OF this] show ?thesis using look False by (auto simp: looks_def)
  qed
qed

definition justified :: "deban_service \<Rightarrow> ban_entry \<Rightarrow> 'z deban_env_scheme \<Rightarrow> 'z deban_env_scheme \<Rightarrow> bool" where
  "justified sv e w w' \<longleftrightarrow> be_RuleID e \<noteq> [] \<and> (\<exists>n. io_step w \<le> n \<and> n < io_step w' \<and> clear_of sv e (io_clock w n) (hostile w')) \<and> crowdsec_clear sv e"

lemma justified_later:
  assumes "justified sv e u v" and "io_clock u = io_clock w" "io_step w \<le> io_step u" "io_step v \<le> io_step w'" "hostile w' \<subseteq> hostile v"
  shows "justified sv e w w'"
proof -
  obtain n where n: "io_step u \<le> n" "n < io_step v" "clear_of sv e (io_clock u n) (hostile v)" using assms(1) by (auto simp: justified_def)
  have "clear_of sv e (io_clock w n) (hostile w')" using n(3) assms(2,5) by (auto simp: clear_of_def)
  then show ?thesis using assms(1,3,4) n(1,2) unfolding justified_def by (auto intro!: exI [of _ n])
qed

lemma scanned:
  assumes "scan_entries sv es res w = (res', w')"
  shows "io_clock w' = io_clock w \<and> io_step w \<le> io_step w' \<and> hostile w' \<subseteq> hostile w \<and>
    (if dg_Mode (dn_cfg sv) = ModeEnforce then \<exists>ds. subseq ds es \<and> bl_Deletes w' = bl_Deletes w @ map be_RuleID ds \<and> (\<forall>e \<in> set ds. justified sv e w w')
     else bl_Deletes w' = bl_Deletes w \<and> bl_Rows w' = bl_Rows w)"
  using assms
proof (induction es arbitrary: res w)
  case (Cons e es)
  obtain reason ok w1 where ev: "evaluateEntry sv e w = ((reason, ok), w1)" by (cases "evaluateEntry sv e w") auto
  note eval = evaluated [OF ev]
  obtain r w2 where db: "deban sv e reason w1 = (r, w2)" by fastforce
  note deb = debanned [OF db]
  define u where "u = (if ok then w2 else w1)"
  obtain res1 where rest: "scan_entries sv es res1 u = (res', w')"
    using Cons.prems ev db by (cases ok; cases r) (auto simp: u_def)
  note IH = Cons.IH [OF rest]
  have w1: "io_clock w1 = io_clock w" "io_step w < io_step w1" "hostile w1 \<subseteq> hostile w" "bl_Deletes w1 = bl_Deletes w" "bl_Rows w1 = bl_Rows w"
    using eval by (auto simp: looks_def hostile_def)
  have u: "io_clock u = io_clock w" "io_step w1 \<le> io_step u" "hostile u \<subseteq> hostile w1" using deb w1(1) by (auto simp: u_def)
  show ?case
  proof (cases "dg_Mode (dn_cfg sv) = ModeEnforce")
    case True
    obtain ds where ds: "subseq ds es" "bl_Deletes w' = bl_Deletes u @ map be_RuleID ds" "\<forall>e \<in> set ds. justified sv e u w'" using IH True by auto
    have late: "justified sv x w w'" if "x \<in> set ds" for x
      by (rule justified_later [of sv x u w']) (use ds(3) that u w1 IH in auto)
    have "\<exists>ks. bl_Deletes u = bl_Deletes w @ map be_RuleID ks \<and> (ks = [] \<or> ks = [e] \<and> justified sv e w w')"
    proof (cases "bl_Deletes u = bl_Deletes w")
      case False
      then have ok and "bl_Deletes u = bl_Deletes w @ [be_RuleID e]" "be_RuleID e \<noteq> []" using deb True w1(4) by (auto simp: u_def split: if_splits)
      moreover have "justified sv e w w1" using \<open>ok\<close> \<open>be_RuleID e \<noteq> []\<close> eval w1(2) by (auto simp: justified_def)
      then have "justified sv e w w'" by (rule justified_later) (use u IH in auto)
      ultimately show ?thesis by (intro exI [of _ "[e]"]) simp
    qed (auto intro: exI [of _ "[]"])
    then obtain ks where ks: "bl_Deletes u = bl_Deletes w @ map be_RuleID ks" "ks = [] \<or> ks = [e] \<and> justified sv e w w'" by blast
    have "subseq (ks @ ds) (e # es)" using ks(2) ds(1) by auto
    moreover have "\<forall>x \<in> set (ks @ ds). justified sv x w w'" using ks(2) late by auto
    ultimately show ?thesis using True ks(1) ds(2) u w1 IH by (auto intro!: exI [of _ "ks @ ds"])
  next
    case False
    then have "bl_Deletes u = bl_Deletes w" "bl_Rows u = bl_Rows w" using deb w1 by (simp_all add: u_def)
    then show ?thesis using False IH u w1 by auto
  qed
qed simp

lemma justified_spec:
  assumes "justified sv e w w'"
  shows "be_RuleID e \<noteq> [] \<and> (\<exists>f n ips. dn_crowdsec sv = Some (Some f) \<and> f n = Inr ips \<and> be_IP e \<notin> set ips) \<and>
    (\<exists>n. io_step w \<le> n \<and> n < io_step w' \<and> (\<forall>reg. dn_trustReg sv = Some reg \<longrightarrow> MatchIP reg (be_IP e) = []) \<and> \<not> active_recidive e (io_clock w n) \<and>
      (\<forall>q \<in> set (ve_Rows (dv_Reports w')). evidence_matches (no_options\<lparr>eo_IP := be_IP e, eo_From := time_add (io_clock w n) (- dg_RecentWAFEventWindow (dn_cfg sv))\<rparr>) q \<longrightarrow>
         isBenignAbuseType (vr_AbuseType q)))"
proof -
  obtain n where n: "io_step w \<le> n" "n < io_step w'" "clear_of sv e (io_clock w n) (hostile w')" using assms by (auto simp: justified_def)
  have "\<forall>reg. dn_trustReg sv = Some reg \<longrightarrow> MatchIP reg (be_IP e) = []" using n(3) by (simp add: clear_of_def split: option.splits)
  moreover have "\<not> active_recidive e (io_clock w n)" using n(3) by (simp add: clear_of_def)
  moreover have "isBenignAbuseType (vr_AbuseType q)"
    if "q \<in> set (ve_Rows (dv_Reports w'))" "evidence_matches (no_options\<lparr>eo_IP := be_IP e, eo_From := time_add (io_clock w n) (- dg_RecentWAFEventWindow (dn_cfg sv))\<rparr>) q" for q
    using n(3) that unfolding clear_of_def hostile_def by blast
  ultimately show ?thesis using assms n(1,2) unfolding justified_def crowdsec_clear_def by blast
qed

section \<open>The evidence of its own decisions\<close>

text \<open>A stored event of the address that is more recent than the window keeps the quietness triggers from firing, whatever kind it is.\<close>

lemma TrimSpace_nil: "TrimSpace [] = []"
  by (simp add: TrimSpace_def)

lemma latest_bound: "t \<in> set (s # ts) \<Longrightarrow> t \<le> foldl (\<lambda>latest u. if time_after u latest then u else latest) s ts"
proof (induction ts arbitrary: s t)
  case (Cons u ts)
  have "t \<le> (if time_after u s then u else s) \<or> t \<in> set ts" using Cons.prems by (auto simp: time_after_def)
  then show ?case
  proof
    assume "t \<le> (if time_after u s then u else s)"
    also have "\<dots> \<le> foldl (\<lambda>latest u. if time_after u latest then u else latest) (if time_after u s then u else s) ts" by (rule Cons.IH) simp
    finally show ?thesis by simp
  qed (use Cons.IH [of t "if time_after u s then u else s"] in simp)
qed simp

lemma own_evidence_blocks:
  assumes "deban_trigger sv e now w = ((reason, ok), w')" and "lastEventAt sv (be_IP e) w = (l, v)" and "q \<in> set (ve_Rows (dv_Reports v))"
    and "vr_IP q = be_IP e" "TrimSpace (be_IP e) = be_IP e" and "\<And>t. vr_Timestamp q \<le> t \<Longrightarrow> time_sub now t < dg_NoNewEventsWindow (dn_cfg sv)"
  shows "reason \<noteq> ''no_new_events'' \<and> reason \<noteq> ''no_local_evidence_ever''"
proof -
  have last: "l \<noteq> Inr None \<and> (\<forall>t. l = Inr (Some t) \<longrightarrow> vr_Timestamp q \<le> t)"
  proof (cases "dn_evidence sv")
    case True
    obtain f u where f: "evidence_Search (no_options\<lparr>eo_IP := be_IP e, eo_From := 0\<rparr>) (dv_Reports w) = (f, u)" by fastforce
    show ?thesis
    proof (cases f)
      case (Inr rows)
      have u: "dv_Reports v = u" using assms(2) True f Inr by (cases rows) (auto simp: lastEventAt_def deban_Search_def)
      have "set rows = {r \<in> set (ve_Rows u). evidence_matches (no_options\<lparr>eo_IP := be_IP e, eo_From := 0\<rparr>) r}" using evidence_found [OF f [unfolded Inr]] by (simp add: no_options_def)
      then have "q \<in> set rows" using assms(3-5) u by (simp add: evidence_matches_def no_options_def time_is_zero_def TrimSpace_nil)
      then show ?thesis using assms(2) True f Inr latest_bound [of "vr_Timestamp q"] by (cases rows) (auto simp: lastEventAt_def deban_Search_def)
    qed (use assms(2) True f in \<open>auto simp: lastEventAt_def deban_Search_def\<close>)
  qed (use assms(2) in \<open>auto simp: lastEventAt_def\<close>)
  show ?thesis
    using assms(1,2,6) last by (cases l; cases "projr l"; cases "dn_gate sv") (auto simp: deban_trigger_def Let_def not_le [symmetric] split: if_splits prod.splits)
qed

section \<open>When a ban is lifted early\<close>

text \<open>
  C14: bans are lifted early only with a reason. Whatever fails, a scan asks Cloudflare for at most one deletion per active ban, in the order of the list, and only when the scan is enabled and
  enforcing. Each deleted rule is named by its entry; at the instant the entry was looked at, its address was in no protected network, it was not in the first half of a repeated ban, and CrowdSec had
  answered that it holds no decision for it; and no hostile event of the address in the window before that instant is stored when the scan ends. In every other mode the table of bans stays as it is.
\<close>

theorem early_deban_justified:
  assumes "Scan sv w = (res, w')"
  shows "(\<exists>es. subseq es (map snd (rev (sort_key row_key (filter is_active (bl_Rows w))))) \<and> bl_Deletes w' = bl_Deletes w @ map be_RuleID es \<and>
      (\<forall>e \<in> set es. dg_Enabled (dn_cfg sv) \<and> dg_Mode (dn_cfg sv) = ModeEnforce \<and> be_RuleID e \<noteq> [] \<and>
        (\<exists>f n ips. dn_crowdsec sv = Some (Some f) \<and> f n = Inr ips \<and> be_IP e \<notin> set ips) \<and>
        (\<exists>n. io_step w \<le> n \<and> n < io_step w' \<and> (\<forall>reg. dn_trustReg sv = Some reg \<longrightarrow> MatchIP reg (be_IP e) = []) \<and> \<not> active_recidive e (io_clock w n) \<and>
          (\<forall>q \<in> set (ve_Rows (dv_Reports w')). evidence_matches (no_options\<lparr>eo_IP := be_IP e, eo_From := time_add (io_clock w n) (- dg_RecentWAFEventWindow (dn_cfg sv))\<rparr>) q \<longrightarrow>
             isBenignAbuseType (vr_AbuseType q))))) \<and>
    (dg_Mode (dn_cfg sv) \<noteq> ModeEnforce \<longrightarrow> bl_Rows w' = bl_Rows w)"
proof (cases "dg_Enabled (dn_cfg sv) \<and> dn_store sv")
  case False
  then show ?thesis using assms by (auto simp: Scan_def)
next
  case on: True
  let ?w1 = "w\<lparr>io_step := Suc (io_step w)\<rparr>" and ?active = "map snd (rev (sort_key row_key (filter is_active (bl_Rows w))))"
  show ?thesis
  proof (cases w rule: io_call_cases)
    case 1
    then have run: "scan_entries sv ?active no_scan ?w1 = (res, w')" using assms on by (simp add: Scan_def ban_Active_def)
    note all = scanned [OF run]
    show ?thesis
    proof (cases "dg_Mode (dn_cfg sv) = ModeEnforce")
      case True
      then obtain es where es: "subseq es ?active" "bl_Deletes w' = bl_Deletes w @ map be_RuleID es" "\<forall>e \<in> set es. justified sv e ?w1 w'" using all by auto
      have "justified sv e w w'" if "e \<in> set es" for e by (rule justified_later [of sv e ?w1 w']) (use es(3) that in auto)
      then show ?thesis using es(1,2) True on
        using justified_spec by (intro conjI exI [of _ es] ballI) (simp_all, blast+)
    next
      case False
      then show ?thesis using all by (auto intro: exI [of _ "[]"])
    qed
  qed (use assms on in \<open>auto simp: Scan_def ban_Active_def\<close>)
qed

definition old_ban :: ban_entry where
  "old_ban = \<lparr>be_IP = ''203.0.113.7'', be_Source = ''autoban_burst'', be_Reason = ''burst'', be_Confidence = 80, be_CreatedAt = 1, be_ExpiresAt = Hour, be_Duration = Hour, be_RuleID = ''rule-1'',
     be_EvidenceID = [], be_RecidiveLevel = 1, be_Status = BanActive, be_CleanupAttempts = 0, be_LastCleanupError = [], be_LastCleanupAttemptAt = 0\<rparr>"

definition quiet_reports :: report_env where
  "quiet_reports = \<lparr>io_clock = (\<lambda>n. int n + 1), io_fault = (\<lambda>_. None), io_choice = (\<lambda>_. False), io_step = 0, fs_files = [], db_ReadOnly = False, db_Events = [], db_NextEventID = 1,
     db_Sequences = [], db_Checkpoints = [], db_Leases = [], ro_Rows = [], ro_WriteCount = 0, ro_LastCleanup = 0, rd_Rows = [], ve_Rows = [], ve_WriteCount = 0, ve_LastCleanup = 0, rp_Sent = []\<rparr>"

definition banned_world :: deban_env where
  "banned_world = \<lparr>io_clock = (\<lambda>n. int n + 1), io_fault = (\<lambda>_. None), io_choice = (\<lambda>_. False), io_step = 0, fs_files = [], db_ReadOnly = False, db_Events = [], db_NextEventID = 1,
     db_Sequences = [], db_Checkpoints = [], db_Leases = [], bl_Rows = [(1, old_ban)], bl_NextID = 2, bl_Deletes = [], bl_Audits = [], bl_Evidence = [], bl_Adds = [],
     dv_Reports = quiet_reports, dv_Audits = []\<rparr>"

definition sample_deban :: deban_service where
  "sample_deban = NewDebanService \<lparr>dn_store = True, dn_gate = None, dn_cf = Some \<lparr>cc_ListAutobanRules = (\<lambda>_. Inr []), cc_DeleteIPAccessRule = (\<lambda>_ _. Inr ())\<rparr>,
     dn_crowdsec = Some (Some (\<lambda>_. Inr [''198.51.100.4''])), dn_evidence = True, dn_audit = True, dn_debanEvi = True, dn_trustReg = None,
     dn_cfg = \<lparr>dg_Enabled = True, dg_Mode = ModeEnforce, dg_NoNewEventsWindow = 0, dg_RecentWAFEventWindow = 0\<rparr>\<rparr>"

lemma cleanup_empty:
  assumes "no_faults v" "ve_Rows v = []"
  shows "\<exists>v'. evidence_cleanup v = (Inr (), v') \<and> no_faults v' \<and> ve_Rows v' = []"
  using assms
  by (auto simp: evidence_cleanup_def evidence_purgeBefore_def evidence_trimToMaxEntries_def time_Now_def io_call_ok no_faults_def Let_def)

lemma Search_empty:
  assumes "no_faults v" "ve_Rows v = []"
  shows "\<exists>v'. evidence_Search opts v = (Inr [], v') \<and> no_faults v' \<and> ve_Rows v' = []"
proof -
  obtain u where u: "evidence_cleanup v = (Inr (), u)" "no_faults u" "ve_Rows u = []" using cleanup_empty [OF assms] by blast
  then show ?thesis by (auto simp: evidence_Search_def io_call_ok no_faults_def Let_def)
qed

lemma sample_evaluated:
  assumes "no_faults w" "bl_Rows w = [(1, old_ban)]" "no_faults (dv_Reports w)" "ve_Rows (dv_Reports w) = []"
  shows "\<exists>w'. evaluateEntry sample_deban old_ban w = ((''no_local_evidence_ever'', True), w')"
proof -
  let ?w1 = "w\<lparr>io_step := Suc (io_step w)\<rparr>"
  let ?w2 = "?w1\<lparr>io_step := Suc (io_step ?w1)\<rparr>"
  have "io_call ?w1 = (Inr (), ?w2)" using assms(1) io_call_ok [of ?w1] by (simp add: no_faults_def)
  then have tracked: "is_tracked (be_IP old_ban) ?w1 = (True, ?w2)" using assms(2) by (simp add: is_tracked_def ban_Get_def newest_row_def rows_of_def old_ban_def)
  have cool: "\<not> active_recidive old_ban now" for now by (simp add: active_recidive_def old_ban_def)
  obtain v where v: "evidence_Search (no_options\<lparr>eo_IP := be_IP old_ban, eo_From := time_add (io_clock w (io_step w)) (- dg_RecentWAFEventWindow (dn_cfg sample_deban))\<rparr>) (dv_Reports w) = (Inr [], v)"
      "no_faults v" "ve_Rows v = []" using Search_empty [OF assms(3,4)] by blast
  let ?w3 = "?w2\<lparr>dv_Reports := v\<rparr>"
  have ev: "dn_evidence sample_deban" "dn_store sample_deban" "dn_trustReg sample_deban = None" "dn_crowdsec sample_deban = Some (Some (\<lambda>_. Inr [''198.51.100.4'']))"
    by (simp_all add: sample_deban_def NewDebanService_def)
  have hostile: "hasRecentHostileEvent sample_deban (be_IP old_ban) (io_clock w (io_step w)) ?w2 = (Inr False, ?w3)" using v(1) ev by (simp add: hasRecentHostileEvent_def deban_Search_def)
  let ?w4 = "?w3\<lparr>io_step := Suc (io_step ?w3)\<rparr>"
  have crowd: "crowdsecActive sample_deban (be_IP old_ban) ?w3 = (Inr False, ?w4)" using ev by (simp add: crowdsecActive_def ActiveDecision_def old_ban_def)
  obtain v' where "evidence_Search (no_options\<lparr>eo_IP := be_IP old_ban, eo_From := 0\<rparr>) v = (Inr [], v')" using Search_empty [OF v(2,3)] by blast
  then have "lastEventAt sample_deban (be_IP old_ban) ?w4 = (Inr None, ?w4\<lparr>dv_Reports := v'\<rparr>)" using ev by (simp add: lastEventAt_def deban_Search_def)
  then have "deban_trigger sample_deban old_ban (io_clock w (io_step w)) ?w4 = ((''no_local_evidence_ever'', True), ?w4\<lparr>dv_Reports := v'\<rparr>)" by (simp add: deban_trigger_def)
  then show ?thesis using tracked cool hostile crowd ev by (simp add: evaluateEntry_def time_Now_def Let_def)
qed

lemma sample_scan: "bl_Deletes (snd (Scan sample_deban banned_world)) = [''rule-1'']"
proof -
  let ?w1 = "banned_world\<lparr>io_step := 1\<rparr>"
  have "dg_Enabled (dn_cfg sample_deban)" "dg_Mode (dn_cfg sample_deban) = ModeEnforce" "dn_store sample_deban"
    and cf: "dn_cf sample_deban = Some \<lparr>cc_ListAutobanRules = (\<lambda>_. Inr []), cc_DeleteIPAccessRule = (\<lambda>_ _. Inr ())\<rparr>"
    by (simp_all add: sample_deban_def NewDebanService_def deban_defaults_def ModeEnforce_def)
  note cfg = this
  have "io_call banned_world = (Inr (), ?w1)" by (simp add: io_call_def banned_world_def)
  then have active: "ban_Active banned_world = (Inr [old_ban], ?w1)" by (simp add: ban_Active_def banned_world_def is_active_def old_ban_def)
  obtain w2 where ev: "evaluateEntry sample_deban old_ban ?w1 = ((''no_local_evidence_ever'', True), w2)"
    using sample_evaluated [of ?w1] by (auto simp: banned_world_def no_faults_def quiet_reports_def)
  obtain r w3 where db: "deban sample_deban old_ban ''no_local_evidence_ever'' w2 = (r, w3)" by fastforce
  have "looks (banned_world\<lparr>io_step := 2\<rparr>) w2" using evaluated [OF ev] by (simp add: banned_world_def numeral_2_eq_2)
  then have "bl_Deletes w2 = []" by (simp add: looks_def banned_world_def)
  moreover have "bl_Deletes w3 = bl_Deletes w2 @ [''rule-1'']" using debanned [OF db] cfg by (simp add: old_ban_def)
  ultimately show ?thesis using active ev db cfg by (cases r) (simp_all add: Scan_def)
qed

theorem early_deban_justified_witness:
  "bl_Deletes (snd (Scan sample_deban banned_world)) = [''rule-1''] \<and> (\<exists>e n. be_RuleID e = ''rule-1'' \<and> be_Status e = BanActive \<and> \<not> active_recidive e (io_clock banned_world n))"
proof -
  obtain es where es: "subseq es (map snd (rev (sort_key row_key (filter is_active (bl_Rows banned_world)))))"
      "bl_Deletes (snd (Scan sample_deban banned_world)) = bl_Deletes banned_world @ map be_RuleID es" and all: "\<forall>e \<in> set es. \<exists>n. \<not> active_recidive e (io_clock banned_world n)"
    using early_deban_justified [of sample_deban banned_world, OF prod.collapse [symmetric]] by blast
  have "map be_RuleID es = [''rule-1'']" using es(2) sample_scan by (simp add: banned_world_def)
  then obtain e where e: "es = [e]" "be_RuleID e = ''rule-1''" by auto
  have old: "e = old_ban" using es(1) e(1) by (simp add: banned_world_def is_active_def old_ban_def split: if_splits)
  obtain n where "\<not> active_recidive e (io_clock banned_world n)" using all e(1) by auto
  moreover have "be_Status e = BanActive" unfolding old by (simp add: old_ban_def)
  ultimately show ?thesis using e(2) sample_scan by blast
qed

end
