(* ===== verification/Recidive.thy ===== *)
theory Recidive
  imports Protection Go_World "HOL-Library.AList"
begin

text \<open>
  The two services that follow up local bans: \<open>internal/recidive\<close>, which counts the bans of an address and asks CrowdSec for a longer ban of a repeat offender, and \<open>internal/cidrban\<close>, which
  bans a network of 256 addresses when two of them were banned, with the adapters of \<open>internal/app/runtime_helpers.go\<close> in front of them. The list of recent bans, the allowlist and the answers of
  Cloudflare are parameters, functions of the number of the call; what is asked of CrowdSec and Cloudflare is recorded.
\<close>

section \<open>State files\<close>

text \<open>A JSON file that holds a map: its entries, the text \<open>null\<close>, which is read as the nil map, or anything that cannot be read. The file beside it that is written first is never read.\<close>

datatype 'v state_file = State_map "(string \<times> 'v) list" | State_null | State_garbage

definition read_state :: "'v state_file option \<Rightarrow> (string \<times> 'v) list option" where
  "read_state f = (case f of None \<Rightarrow> Some [] | Some (State_map m) \<Rightarrow> Some m | Some State_null \<Rightarrow> None | Some State_garbage \<Rightarrow> Some [])"

definition nil_map_panic :: error where "nil_map_panic = Plain ''assignment to entry in nil map''"

text \<open>Making the directory, writing beside the file, renaming; the errors of saving are ignored.\<close>

definition saved :: "'z io_env_scheme \<Rightarrow> bool \<times> 'z io_env_scheme" where
  "saved w =
     (case io_call w of (Inl _, w1) \<Rightarrow> (False, w1) | (Inr _, w1) \<Rightarrow>
       case io_call w1 of (Inl _, w2) \<Rightarrow> (False, w2) | (Inr _, w2) \<Rightarrow>
         case io_call w2 of (Inl _, w3) \<Rightarrow> (False, w3) | (Inr _, w3) \<Rightarrow> (True, w3))"

section \<open>The bans that are counted\<close>

record observed_ban =
  xb_IP :: string
  xb_Scenario :: string
  xb_When :: go_time

text \<open>The allowlist of a cycle; one that is not configured or cannot be fetched filters nothing.\<close>

record allowlist_set =
  als_ips :: "string list"
  als_nets :: "ip_net list"

fun newAllowlistSet :: "string list \<Rightarrow> allowlist_set" where
  "newAllowlistSet [] = \<lparr>als_ips = [], als_nets = []\<rparr>"
| "newAllowlistSet (v # vs) =
     (let al = newAllowlistSet vs in
      case ParseIP v of
        Some ip \<Rightarrow> al\<lparr>als_ips := IP_String ip # als_ips al\<rparr>
      | None \<Rightarrow> (case ParseCIDR v of Some n \<Rightarrow> al\<lparr>als_nets := n # als_nets al\<rparr> | None \<Rightarrow> al))"

definition allowlist_contains :: "allowlist_set option \<Rightarrow> string \<Rightarrow> bool" where
  "allowlist_contains al ipStr =
     (case al of
        None \<Rightarrow> False
      | Some s \<Rightarrow> (case ParseIP ipStr of None \<Rightarrow> False
          | Some ip \<Rightarrow> IP_String ip \<in> set (als_ips s) \<or> (\<exists>n \<in> set (als_nets s). net_Contains n ip)))"

text \<open>The adapter: the list of the source, without the addresses that the shield protects or the allowlist has.\<close>

record ban_source =
  bs_src :: "nat \<Rightarrow> observed_ban list result"
  bs_shield :: "ip_net list option"
  bs_allowlist :: "(nat \<Rightarrow> string list result) option"

definition adapter_allowlist :: "ban_source \<Rightarrow> 'z io_env_scheme \<Rightarrow> allowlist_set option \<times> 'z io_env_scheme" where
  "adapter_allowlist bs w =
     (case bs_allowlist bs of
        None \<Rightarrow> (None, w)
      | Some f \<Rightarrow> ((case f (io_step w) of Inl _ \<Rightarrow> None | Inr entries \<Rightarrow> Some (newAllowlistSet entries)), w\<lparr>io_step := Suc (io_step w)\<rparr>))"

definition counted_ban :: "ban_source \<Rightarrow> allowlist_set option \<Rightarrow> observed_ban \<Rightarrow> bool" where
  "counted_ban bs al b \<longleftrightarrow> \<not> (case bs_shield bs of None \<Rightarrow> False | Some nets \<Rightarrow> IsProtected nets (xb_IP b)) \<and> \<not> allowlist_contains al (xb_IP b)"

definition ListRecentBans :: "ban_source \<Rightarrow> 'z io_env_scheme \<Rightarrow> observed_ban list result \<times> 'z io_env_scheme" where
  "ListRecentBans bs w =
     (let w1 = w\<lparr>io_step := Suc (io_step w)\<rparr> in
      case bs_src bs (io_step w) of
        Inl e \<Rightarrow> (Inl e, w1)
      | Inr bans \<Rightarrow> let (al, w2) = adapter_allowlist bs w1 in (Inr (filter (counted_ban bs al) bans), w2))"

section \<open>Repeat offenders\<close>

definition recidivWindow :: duration where "recidivWindow = 7 * 24 * Hour"

record recidive_record =
  rr_Count :: int
  rr_LastSeen :: go_time

definition no_record :: recidive_record where "no_record = \<lparr>rr_Count = 0, rr_LastSeen = 0\<rparr>"

text \<open>A text in the state file: that of an instant, of a record, or one whose decoding as a record fails after what it filled in.\<close>

datatype state_text = Cursor_text go_time | Record_text recidive_record | Broken_text recidive_record

record recidive_env = io_env +
  rc_File :: "state_text state_file option"
  rc_Escalations :: "(string \<times> string \<times> string) list"

definition recidive_loadState :: "'z recidive_env_scheme \<Rightarrow> (string \<times> state_text) list option result \<times> 'z recidive_env_scheme" where
  "recidive_loadState w = and_try (io_call w) (\<lambda>_ w1. (Inr (read_state (rc_File w1)), w1))"

definition recidive_saveState :: "(string \<times> state_text) list \<Rightarrow> 'z recidive_env_scheme \<Rightarrow> 'z recidive_env_scheme" where
  "recidive_saveState m w = (case saved w of (True, w1) \<Rightarrow> w1\<lparr>rc_File := Some (State_map m)\<rparr> | (False, w1) \<Rightarrow> w1)"

definition escalationTable :: "int \<Rightarrow> string option" where
  "escalationTable n = (if n = 1 then Some ''24h'' else None)"

definition escalation :: "int \<Rightarrow> string" where
  "escalation count = (case escalationTable (int64_of (count - 1)) of Some d \<Rightarrow> d | None \<Rightarrow> if count > 1 then ''168h'' else [])"

definition stored_cursor :: "(string \<times> state_text) list \<Rightarrow> go_time" where
  "stored_cursor m = (case map_of m ''_cursor'' of Some (Cursor_text t) \<Rightarrow> t | _ \<Rightarrow> 0)"

definition countable :: "go_time \<Rightarrow> observed_ban \<Rightarrow> bool" where
  "countable cursor b \<longleftrightarrow> time_after (xb_When b) cursor \<and> xb_IP b \<noteq> ''1.2.3.4'' \<and> ParseIP (xb_IP b) \<noteq> None \<and> \<not> HasPrefix (xb_Scenario b) ''recidivist-escalation''"

text \<open>The record to count on; the clock is read for one that was decoded.\<close>

definition previous_record :: "state_text option \<Rightarrow> 'z io_env_scheme \<Rightarrow> recidive_record \<times> 'z io_env_scheme" where
  "previous_record existing w =
     (case existing of
        Some (Record_text r) \<Rightarrow> let (now, w1) = time_Now w in (if time_sub now (rr_LastSeen r) > recidivWindow then no_record else r, w1)
      | Some (Broken_text r) \<Rightarrow> (r, w)
      | _ \<Rightarrow> (no_record, w))"

text \<open>One ban: the new state, and what was asked. Errors of the escalation are ignored.\<close>

definition count_ban :: "bool \<Rightarrow> observed_ban \<Rightarrow> (string \<times> state_text) list \<Rightarrow> 'z recidive_env_scheme \<Rightarrow> (string \<times> state_text) list \<times> 'z recidive_env_scheme" where
  "count_ban escalator b m w =
     (let ip = xb_IP b; (prev, w1) = previous_record (map_of m ip) w;
          n = int64_of (rr_Count prev + 1); dur = escalation n;
          w2 = (if dur \<noteq> [] \<and> escalator then w1\<lparr>rc_Escalations := rc_Escalations w1 @ [(ip, dur, ''Recidivist escalation | scenario: '' @ xb_Scenario b)]\<rparr> else w1)
      in (AList.update ip (Record_text \<lparr>rr_Count = n, rr_LastSeen = xb_When b\<rparr>) m, w2))"

fun count_bans :: "bool \<Rightarrow> go_time \<Rightarrow> observed_ban list \<Rightarrow> (string \<times> state_text) list \<times> go_time \<times> bool \<Rightarrow> 'z recidive_env_scheme \<Rightarrow>
    ((string \<times> state_text) list \<times> go_time \<times> bool) \<times> 'z recidive_env_scheme" where
  "count_bans escalator cursor [] st w = (st, w)"
| "count_bans escalator cursor (b # bs) (m, newCursor, changed) w =
     (if \<not> countable cursor b then count_bans escalator cursor bs (m, newCursor, changed) w
      else let (m1, w1) = count_ban escalator b m w
        in count_bans escalator cursor bs (m1, if time_after (xb_When b) newCursor then xb_When b else newCursor, True) w1)"

definition recidive_save :: "go_time \<Rightarrow> (string \<times> state_text) list \<times> go_time \<times> bool \<Rightarrow> 'z recidive_env_scheme \<Rightarrow> 'z recidive_env_scheme" where
  "recidive_save cursor st w =
     (let (m, newCursor, changed) = st; moved = time_after newCursor cursor;
          m1 = (if moved then AList.update ''_cursor'' (Cursor_text newCursor) m else m)
      in if changed \<or> moved then recidive_saveState m1 w else w)"

record recidive_service =
  rv_source :: "ban_source option"
  rv_escalator :: bool

definition recidive_Run :: "recidive_service \<Rightarrow> 'z recidive_env_scheme \<Rightarrow> unit result \<times> 'z recidive_env_scheme" where
  "recidive_Run sv w =
     (case rv_source sv of
        None \<Rightarrow> (Inr (), w)
      | Some bs \<Rightarrow>
          (case recidive_loadState w of
             (Inl e, w1) \<Rightarrow> (Inl (Errorf (''recidive: load state: '' @ Error e) e), w1)
           | (Inr state, w1) \<Rightarrow>
               (case ListRecentBans bs w1 of
                  (Inl e, w2) \<Rightarrow> (Inl (Errorf (''recidive: ListRecentBans: '' @ Error e) e), w2)
                | (Inr bans, w2) \<Rightarrow>
                    if bans = [] then (Inr (), w2)
                    else let t = stored_cursor (case state of None \<Rightarrow> [] | Some m \<Rightarrow> m);
                             (cursor, w3) = (if time_is_zero t then time_Now w2 else (t, w2)) in
                      case state of
                        None \<Rightarrow> (if \<exists>b \<in> set bans. countable cursor b then Inl nil_map_panic else Inr (), w3)
                      | Some m \<Rightarrow> let (st, w4) = count_bans (rv_escalator sv) cursor bans (m, cursor, False) w3 in (Inr (), recidive_save cursor st w4))))"

section \<open>Networks\<close>

definition cidrThreshold :: nat where "cidrThreshold = 2"
definition cidrBanExpiry :: duration where "cidrBanExpiry = 24 * Hour"
definition noteTagCIDR :: string where "noteTagCIDR = ''crowdsec-cidr-ban''"

record cidr_entry =
  ce_BannedAt :: go_time
  ce_IPCount :: nat

definition toCIDR24 :: "string \<Rightarrow> string" where
  "toCIDR24 ipStr =
     (case ParseIP ipStr of
        None \<Rightarrow> []
      | Some ip \<Rightarrow> (case To4 ip of None \<Rightarrow> [] | Some _ \<Rightarrow> (case ParseCIDR (ipStr @ ''/24'') of None \<Rightarrow> [] | Some n \<Rightarrow> net_String n)))"

text \<open>The addresses of each network, each once; networks and addresses in the order of their first appearance.\<close>

definition add_to_group :: "string \<Rightarrow> string \<Rightarrow> (string \<times> string list) list \<Rightarrow> (string \<times> string list) list" where
  "add_to_group cidr ip gs = (let ips = (case map_of gs cidr of None \<Rightarrow> [] | Some xs \<Rightarrow> xs) in AList.update cidr (if ip \<in> set ips then ips else ips @ [ip]) gs)"

fun group_bans :: "string list \<Rightarrow> (string \<times> string list) list \<Rightarrow> (string \<times> string list) list" where
  "group_bans [] gs = gs"
| "group_bans (ip # ips) gs =
     (if ip = ''1.2.3.4'' \<or> toCIDR24 ip = [] then group_bans ips gs else group_bans ips (add_to_group (toCIDR24 ip) ip gs))"

record cidr_env = io_env +
  cd_File :: "cidr_entry state_file option"
  cd_Adds :: "string list"
  cd_Ranges :: "(string \<times> string \<times> string) list"
  cd_Deletes :: "string list"

text \<open>The collaborators, and the order in which a map is walked through.\<close>

record cidr_service =
  cv_source :: "ban_source option"
  cv_banner :: bool
  cv_rules :: "(nat \<Rightarrow> (string \<times> string) list option) option"
  cv_deleter :: bool
  cv_ranger :: bool
  cv_order :: "nat \<Rightarrow> string list \<Rightarrow> string list"

text \<open>A file that cannot be read leaves the nil map as well.\<close>

definition cidr_loadState :: "'z cidr_env_scheme \<Rightarrow> (string \<times> cidr_entry) list option \<times> 'z cidr_env_scheme" where
  "cidr_loadState w = (case io_call w of (Inl _, w1) \<Rightarrow> (None, w1) | (Inr _, w1) \<Rightarrow> (read_state (cd_File w1), w1))"

definition cidr_saveState :: "(string \<times> cidr_entry) list \<Rightarrow> 'z cidr_env_scheme \<Rightarrow> 'z cidr_env_scheme" where
  "cidr_saveState m w = (case saved w of (True, w1) \<Rightarrow> w1\<lparr>cd_File := Some (State_map m)\<rparr> | (False, w1) \<Rightarrow> w1)"

text \<open>Cloudflare and CrowdSec are asked; their answers are ignored.\<close>

definition ban_range :: "cidr_service \<Rightarrow> string \<Rightarrow> nat \<Rightarrow> 'z cidr_env_scheme \<Rightarrow> 'z cidr_env_scheme" where
  "ban_range sv cidr n w =
     (let w1 = (if cv_banner sv then w\<lparr>cd_Adds := cd_Adds w @ [cidr]\<rparr> else w)
      in if cv_ranger sv then w1\<lparr>cd_Ranges := cd_Ranges w1 @ [(cidr, ''24h'', ''auto-cidr-ban: '' @ show_nat n @ '' IPs from '' @ cidr)]\<rparr> else w1)"

text \<open>One network: the state, whether it changed, and the world; \<open>None\<close> when the nil map is written to.\<close>

definition cidr_step :: "cidr_service \<Rightarrow> (string \<times> string) list option \<Rightarrow> go_time \<Rightarrow> string \<times> string list \<Rightarrow> (string \<times> cidr_entry) list option \<Rightarrow> bool \<Rightarrow> 'z cidr_env_scheme \<Rightarrow>
    ((string \<times> cidr_entry) list option \<times> bool) option \<times> 'z cidr_env_scheme" where
  "cidr_step sv rules now g state changed w =
     (let (cidr, ips) = g; n = length ips; m = (case state of None \<Rightarrow> [] | Some m \<Rightarrow> m);
          listed = (case rules of None \<Rightarrow> False | Some rs \<Rightarrow> map_of rs cidr \<noteq> None);
          put = (\<lambda>e. map_option (AList.update cidr e) state) in
      if n < cidrThreshold then (Some (state, changed), w)
      else case map_of m cidr of
          Some e \<Rightarrow> (Some (if listed then put (e\<lparr>ce_IPCount := n\<rparr>) else state, changed), w)
        | None \<Rightarrow> let w1 = (if listed then w else ban_range sv cidr n w) in
            if state = None then (None, w1) else (Some (put \<lparr>ce_BannedAt = now, ce_IPCount = n\<rparr>, True), w1))"

fun cidr_bans :: "cidr_service \<Rightarrow> (string \<times> string) list option \<Rightarrow> go_time \<Rightarrow> (string \<times> string list) list \<Rightarrow> (string \<times> cidr_entry) list option \<Rightarrow> bool \<Rightarrow> 'z cidr_env_scheme \<Rightarrow>
    ((string \<times> cidr_entry) list option \<times> bool) option \<times> 'z cidr_env_scheme" where
  "cidr_bans sv rules now [] state changed w = (Some (state, changed), w)"
| "cidr_bans sv rules now (g # gs) state changed w =
     (case cidr_step sv rules now g state changed w of
        (None, w1) \<Rightarrow> (None, w1)
      | (Some (state1, changed1), w1) \<Rightarrow> cidr_bans sv rules now gs state1 changed1 w1)"

text \<open>The walk over the state that drops what has expired.\<close>

fun cidr_expire :: "cidr_service \<Rightarrow> (string \<times> string) list option \<Rightarrow> go_time \<Rightarrow> string list \<Rightarrow> (string \<times> cidr_entry) list \<Rightarrow> bool \<Rightarrow> 'z cidr_env_scheme \<Rightarrow>
    (string \<times> cidr_entry) list \<times> bool \<times> 'z cidr_env_scheme" where
  "cidr_expire sv rules now [] m changed w = (m, changed, w)"
| "cidr_expire sv rules now (cidr # cs) m changed w =
     (case map_of m cidr of
        None \<Rightarrow> cidr_expire sv rules now cs m changed w
      | Some e \<Rightarrow>
          if time_sub now (ce_BannedAt e) < cidrBanExpiry then cidr_expire sv rules now cs m changed w
          else let w1 = (case rules of None \<Rightarrow> w | Some rs \<Rightarrow> (case map_of rs cidr of Some rule \<Rightarrow> if cv_deleter sv then w\<lparr>cd_Deletes := cd_Deletes w @ [rule]\<rparr> else w | None \<Rightarrow> w))
            in cidr_expire sv rules now cs (AList.delete cidr m) True w1)"

definition in_order :: "(string list \<Rightarrow> string list) \<Rightarrow> (string \<times> 'v) list \<Rightarrow> (string \<times> 'v) list" where
  "in_order f m = map (\<lambda>k. (k, the (map_of m k))) (f (map fst m))"

definition cidr_Run :: "cidr_service \<Rightarrow> 'z cidr_env_scheme \<Rightarrow> unit result \<times> 'z cidr_env_scheme" where
  "cidr_Run sv w =
     (case cv_source sv of
        None \<Rightarrow> (Inr (), w)
      | Some bs \<Rightarrow>
          (case ListRecentBans bs w of
             (Inl e, w1) \<Rightarrow> (Inl (Errorf (''cidrban: ListRecentBans: '' @ Error e) e), w1)
           | (Inr bans, w1) \<Rightarrow>
               if bans = [] then (Inr (), w1)
               else let groups = group_bans (map xb_IP bans) [];
                        (state, w2) = cidr_loadState w1;
                        (rules, w3) = (case cv_rules sv of None \<Rightarrow> (None, w2) | Some f \<Rightarrow> (f (io_step w2), w2\<lparr>io_step := Suc (io_step w2)\<rparr>));
                        (now, w4) = time_Now w3 in
                 case cidr_bans sv rules now (in_order (cv_order sv 0) groups) state False w4 of
                   (None, w5) \<Rightarrow> (Inl nil_map_panic, w5)
                 | (Some (state1, changed1), w5) \<Rightarrow>
                     let m = (case state1 of None \<Rightarrow> [] | Some m \<Rightarrow> m);
                         (m1, changed, w6) = cidr_expire sv rules now (cv_order sv 1 (map fst m)) m changed1 w5
                     in (Inr (), if changed then cidr_saveState m1 w6 else w6)))"

section \<open>A service that never starts\<close>

lemma count_bans_none: "(\<And>b. b \<in> set bs \<Longrightarrow> \<not> countable cursor b) \<Longrightarrow> count_bans esc cursor bs st w = (st, w)"
  by (cases st) (induction bs, auto)

lemma allowlist_steps: "adapter_allowlist bs w = (al, w') \<Longrightarrow> \<exists>n \<ge> io_step w. w' = w\<lparr>io_step := n\<rparr>"
  by (cases "bs_allowlist bs") (auto simp: adapter_allowlist_def intro: exI [of _ "io_step w"] exI [of _ "Suc (io_step w)"])

lemma listed_bans:
  assumes "ListRecentBans bs w = (r, w')"
  shows "(\<exists>n > io_step w. w' = w\<lparr>io_step := n\<rparr>) \<and> (\<forall>bans. r = Inr bans \<longrightarrow> (\<exists>all. bs_src bs (io_step w) = Inr all \<and> set bans \<subseteq> set all))"
proof (cases "bs_src bs (io_step w)")
  case (Inr all)
  obtain al w2 where al: "adapter_allowlist bs (w\<lparr>io_step := Suc (io_step w)\<rparr>) = (al, w2)" by fastforce
  obtain n where "n \<ge> Suc (io_step w)" "w2 = w\<lparr>io_step := n\<rparr>" using allowlist_steps [OF al] by auto
  then show ?thesis using assms Inr al by (auto simp: ListRecentBans_def Let_def intro!: exI [of _ n])
qed (use assms in \<open>auto simp: ListRecentBans_def Let_def\<close>)

lemma idle_run:
  assumes "\<And>m. read_state (rc_File w) = Some m \<Longrightarrow> stored_cursor m = 0"
    and "\<And>bs n k bans b. rv_source sv = Some bs \<Longrightarrow> bs_src bs n = Inr bans \<Longrightarrow> n < k \<Longrightarrow> b \<in> set bans \<Longrightarrow> xb_When b \<le> io_clock w k"
  shows "\<exists>n. snd (recidive_Run sv w) = w\<lparr>io_step := n\<rparr>"
proof (cases "rv_source sv")
  case None
  then show ?thesis by (auto simp: recidive_Run_def intro: exI [of _ "io_step w"])
next
  case (Some bs)
  let ?w1 = "w\<lparr>io_step := Suc (io_step w)\<rparr>"
  obtain r w2 where ls: "ListRecentBans bs ?w1 = (r, w2)" by fastforce
  obtain n where n: "n > Suc (io_step w)" "w2 = w\<lparr>io_step := n\<rparr>" using listed_bans [OF ls] by auto
  show ?thesis
  proof (cases w rule: io_call_cases)
    case 1
    then have load: "recidive_loadState w = (Inr (read_state (rc_File w)), ?w1)" by (simp add: recidive_loadState_def)
    show ?thesis
    proof (cases r)
      case (Inl e)
      then show ?thesis using Some load ls n(2) by (auto simp: recidive_Run_def)
    next
      case (Inr bans)
      let ?cursor = "io_clock w n"
      have old: "\<not> countable ?cursor b" if "b \<in> set bans" for b
      proof -
        obtain all where "bs_src bs (io_step ?w1) = Inr all" "b \<in> set all" using listed_bans [OF ls] Inr \<open>b \<in> set bans\<close> by blast
        then have "xb_When b \<le> ?cursor" using assms(2) [OF Some, of "Suc (io_step w)" all n b] n(1) by simp
        then show ?thesis by (simp add: countable_def time_after_def)
      qed
      have zero: "stored_cursor (case read_state (rc_File w) of None \<Rightarrow> [] | Some m \<Rightarrow> m) = 0" using assms(1) by (auto simp: stored_cursor_def split: option.split)
      have none: "count_bans (rv_escalator sv) ?cursor bans (m, ?cursor, False) (w\<lparr>io_step := Suc n\<rparr>) = ((m, ?cursor, False), w\<lparr>io_step := Suc n\<rparr>)" for m
        by (rule count_bans_none [OF old])
      have "snd (recidive_Run sv w) \<in> {w2, w2\<lparr>io_step := Suc (io_step w2)\<rparr>}"
        using Some load ls Inr zero n(2) old none
        by (cases "read_state (rc_File w)") (auto simp: recidive_Run_def time_is_zero_def time_Now_def recidive_save_def time_after_def)
      then show ?thesis using n(2) by auto
    qed
  next
    case 2
    then show ?thesis using Some by (auto simp: recidive_Run_def recidive_loadState_def)
  qed
qed

text \<open>
  C38: without a stored cursor the counting of repeat offenders never begins. A run that finds no cursor takes the present instant for it, skips every ban that is not later, and stores nothing: as
  long as the bans that are listed are not in the future, any number of runs leaves the state file as it was and asks for no escalation.
\<close>

theorem recidive_never_starts:
  assumes "\<And>m. read_state (rc_File w) = Some m \<Longrightarrow> stored_cursor m = 0"
    and "\<And>bs n k bans b. rv_source sv = Some bs \<Longrightarrow> bs_src bs n = Inr bans \<Longrightarrow> n < k \<Longrightarrow> b \<in> set bans \<Longrightarrow> xb_When b \<le> io_clock w k"
  shows "rc_File (((\<lambda>v. snd (recidive_Run sv v)) ^^ runs) w) = rc_File w \<and> rc_Escalations (((\<lambda>v. snd (recidive_Run sv v)) ^^ runs) w) = rc_Escalations w"
proof -
  have "\<exists>n. ((\<lambda>v. snd (recidive_Run sv v)) ^^ runs) w = w\<lparr>io_step := n\<rparr>"
  proof (induction runs)
    case (Suc runs)
    then obtain n where n: "((\<lambda>v. snd (recidive_Run sv v)) ^^ runs) w = w\<lparr>io_step := n\<rparr>" by blast
    have "\<exists>k. snd (recidive_Run sv (w\<lparr>io_step := n\<rparr>)) = w\<lparr>io_step := n\<rparr>\<lparr>io_step := k\<rparr>" using assms by (intro idle_run) simp_all
    then show ?case using n by auto
  qed (auto intro: exI [of _ "io_step w"])
  then show ?thesis by auto
qed

definition two_bans :: "observed_ban list" where
  "two_bans = [\<lparr>xb_IP = ''203.0.113.7'', xb_Scenario = ''ssh-bf'', xb_When = 3\<rparr>, \<lparr>xb_IP = ''203.0.113.7'', xb_Scenario = ''ssh-bf'', xb_When = 4\<rparr>]"

definition sample_recidive :: recidive_service where
  "sample_recidive = \<lparr>rv_source = Some \<lparr>bs_src = (\<lambda>_. Inr two_bans), bs_shield = None, bs_allowlist = None\<rparr>, rv_escalator = True\<rparr>"

definition fresh_recidive :: recidive_env where
  "fresh_recidive = \<lparr>io_clock = (\<lambda>n. 10 + int n), io_fault = (\<lambda>_. None), io_choice = (\<lambda>_. False), io_step = 0, rc_File = None, rc_Escalations = []\<rparr>"

theorem recidive_never_starts_witness: "rc_Escalations (((\<lambda>v. snd (recidive_Run sample_recidive v)) ^^ 100) fresh_recidive) = []"
proof -
  have "rc_File (((\<lambda>v. snd (recidive_Run sample_recidive v)) ^^ 100) fresh_recidive) = rc_File fresh_recidive \<and>
      rc_Escalations (((\<lambda>v. snd (recidive_Run sample_recidive v)) ^^ 100) fresh_recidive) = rc_Escalations fresh_recidive"
    by (rule recidive_never_starts) (auto simp: fresh_recidive_def sample_recidive_def read_state_def stored_cursor_def two_bans_def)
  then show ?thesis by (simp add: fresh_recidive_def)
qed

section \<open>What a run counts\<close>

text \<open>The durations asked for an address.\<close>

definition durations_of :: "string \<Rightarrow> 'z recidive_env_scheme \<Rightarrow> string list" where
  "durations_of ip w = map (\<lambda>e. fst (snd e)) (filter (\<lambda>e. fst e = ip) (rc_Escalations w))"

definition fresh :: "(nat \<Rightarrow> go_time) \<Rightarrow> go_time \<Rightarrow> bool" where
  "fresh clock t \<longleftrightarrow> (\<forall>n. time_sub (clock n) t \<le> recidivWindow)"

text \<open>An address has been counted \<open>k\<close> times, the last time not long ago.\<close>

definition counted :: "(string \<times> state_text) list \<Rightarrow> string \<Rightarrow> nat \<Rightarrow> (nat \<Rightarrow> go_time) \<Rightarrow> bool" where
  "counted m ip k clock \<longleftrightarrow> k = 0 \<and> map_of m ip = None \<or> (\<exists>t. map_of m ip = Some (Record_text \<lparr>rr_Count = int k, rr_LastSeen = t\<rparr>) \<and> fresh clock t)"

lemma count_ban_own:
  assumes "counted m (xb_IP b) k (io_clock w)" and "int k < max_int64" and "count_ban True b m w = (m', w')" and "fresh (io_clock w) (xb_When b)"
  shows "counted m' (xb_IP b) (Suc k) (io_clock w) \<and> durations_of (xb_IP b) w' = durations_of (xb_IP b) w @ (if escalation (int k + 1) = [] then [] else [escalation (int k + 1)])"
proof -
  obtain prev w1 where p: "previous_record (map_of m (xb_IP b)) w = (prev, w1)" by fastforce
  have prev: "rr_Count prev = int k" "rc_Escalations w1 = rc_Escalations w"
    using assms(1) p by (auto simp: counted_def previous_record_def time_Now_def fresh_def no_record_def not_le [symmetric] Let_def)
  have n: "int64_of (int k + 1) = int k + 1" using assms(2) by (intro int64_of_id) (simp add: is_int64_def min_int64_def max_int64_def)
  have run: "m' = AList.update (xb_IP b) (Record_text \<lparr>rr_Count = int (Suc k), rr_LastSeen = xb_When b\<rparr>) m"
    "rc_Escalations w' = rc_Escalations w @ (if escalation (int k + 1) = [] then [] else [(xb_IP b, escalation (int k + 1), ''Recidivist escalation | scenario: '' @ xb_Scenario b)])"
    using assms(3) p prev n by (auto simp: count_ban_def Let_def add.commute)
  show ?thesis using run assms(4) by (simp add: counted_def durations_of_def update_conv')
qed

lemma count_ban_other:
  assumes "ip \<noteq> xb_IP b" and "count_ban esc b m w = (m', w')"
  shows "map_of m' ip = map_of m ip \<and> durations_of ip w' = durations_of ip w"
proof -
  obtain prev w1 where p: "previous_record (map_of m (xb_IP b)) w = (prev, w1)" by fastforce
  have "rc_Escalations w1 = rc_Escalations w" using p by (auto simp: previous_record_def time_Now_def Let_def split: option.splits state_text.splits)
  then show ?thesis using assms p by (auto simp: count_ban_def Let_def durations_of_def update_conv')
qed

lemma count_ban_frame:
  assumes "count_ban esc b m w = (m', w')"
  shows "io_clock w' = io_clock w \<and> rc_File w' = rc_File w \<and> no_faults w' = no_faults w"
proof -
  obtain prev w1 where p: "previous_record (map_of m (xb_IP b)) w = (prev, w1)" by fastforce
  have "io_clock w1 = io_clock w" "rc_File w1 = rc_File w" "io_fault w1 = io_fault w"
    using p by (auto simp: previous_record_def time_Now_def Let_def split: option.splits state_text.splits)
  moreover have "io_clock w' = io_clock w1 \<and> rc_File w' = rc_File w1 \<and> io_fault w' = io_fault w1" using assms p by (cases "escalation (int64_of (rr_Count prev + 1)) \<noteq> [] \<and> esc") (auto simp: count_ban_def Let_def)
  ultimately show ?thesis by (simp add: no_faults_def)
qed

lemma count_bans_counts:
  assumes "count_bans True c bs (m, nc, ch) w = ((m', nc', ch'), w')" and "counted m ip k (io_clock w)" and "int k + int (length bs) < max_int64" and "\<And>b. b \<in> set bs \<Longrightarrow> countable c b \<Longrightarrow> fresh (io_clock w) (xb_When b)"
  shows "durations_of ip w' = durations_of ip w @ filter (\<lambda>d. d \<noteq> []) (map (\<lambda>i. escalation (int k + 1 + int i)) [0..<length (filter (\<lambda>b. xb_IP b = ip \<and> countable c b) bs)])"
  using assms
proof (induction bs arbitrary: m nc ch w k)
  case (Cons b bs)
  show ?case
  proof (cases "countable c b")
    case False
    then show ?thesis using Cons by simp
  next
    case True
    obtain m1 w1 where one: "count_ban True b m w = (m1, w1)" by fastforce
    have clock: "io_clock w1 = io_clock w" using count_ban_frame [OF one] by simp
    have rest: "count_bans True c bs (m1, if time_after (xb_When b) nc then xb_When b else nc, True) w1 = ((m', nc', ch'), w')" using Cons.prems(1) True one by simp
    have len: "int k + int (length bs) < max_int64" "int k < max_int64" and fr: "fresh (io_clock w) (xb_When b)" using Cons.prems(3,4) True by auto
    show ?thesis
    proof (cases "xb_IP b = ip")
      case own: True
      have step: "counted m1 ip (Suc k) (io_clock w)" "durations_of ip w1 = durations_of ip w @ (if escalation (int k + 1) = [] then [] else [escalation (int k + 1)])"
        using count_ban_own [of m b k w m1 w1] Cons.prems(2) one fr len(2) own by simp_all
      have "durations_of ip w' = durations_of ip w1 @ filter (\<lambda>d. d \<noteq> []) (map (\<lambda>i. escalation (int (Suc k) + 1 + int i)) [0..<length (filter (\<lambda>b. xb_IP b = ip \<and> countable c b) bs)])"
        by (rule Cons.IH [OF rest]) (use step(1) clock Cons.prems(3,4) in auto)
      then show ?thesis using step(2) True own by (simp add: upt_conv_Cons map_Suc_upt [symmetric] o_def add.assoc add.left_commute [of 2] del: upt_Suc)
    next
      case other: False
      have step: "counted m1 ip k (io_clock w)" "durations_of ip w1 = durations_of ip w" using count_ban_other [of ip b True m w m1 w1] one Cons.prems(2) other by (auto simp: counted_def)
      have "durations_of ip w' = durations_of ip w1 @ filter (\<lambda>d. d \<noteq> []) (map (\<lambda>i. escalation (int k + 1 + int i)) [0..<length (filter (\<lambda>b. xb_IP b = ip \<and> countable c b) bs)])"
        by (rule Cons.IH [OF rest]) (use step(1) clock len Cons.prems(4) in auto)
      then show ?thesis using step(2) other by simp
    qed
  qed
qed simp

lemma count_bans_cursor:
  assumes "count_bans esc c bs (m, nc, ch) w = ((m', nc', ch'), w')"
  shows "nc \<le> nc' \<and> (\<forall>b \<in> set bs. countable c b \<longrightarrow> xb_When b \<le> nc') \<and> io_clock w' = io_clock w \<and> rc_File w' = rc_File w \<and> no_faults w' = no_faults w \<and>
    (\<not> (\<exists>b \<in> set bs. countable c b) \<longrightarrow> m' = m \<and> nc' = nc \<and> ch' = ch \<and> w' = w)"
  using assms
proof (induction bs arbitrary: m nc ch w)
  case (Cons b bs)
  show ?case
  proof (cases "countable c b")
    case False
    then show ?thesis using Cons by simp
  next
    case True
    obtain m1 w1 where one: "count_ban esc b m w = (m1, w1)" by fastforce
    have rest: "count_bans esc c bs (m1, if time_after (xb_When b) nc then xb_When b else nc, True) w1 = ((m', nc', ch'), w')" using Cons.prems True one by simp
    then show ?thesis using Cons.IH [OF rest] count_ban_frame [OF one] True by (auto simp: time_after_def split: if_splits)
  qed
qed simp

lemma escalations: "filter (\<lambda>d. d \<noteq> []) (map (\<lambda>i. escalation (1 + int i)) [0..<n]) = (if n < 2 then [] else ''24h'' # replicate (n - 2) ''168h'')" if "int n < max_int64"
  using that
proof (induction n)
  case (Suc n)
  have id: "int64_of (int n) = int n" using Suc.prems by (intro int64_of_small) simp_all
  have "escalation (1 + int n) = (if n = 0 then [] else if n = 1 then ''24h'' else ''168h'')" using id by (auto simp: escalation_def escalationTable_def)
  moreover have "''24h'' # replicate (n - 2) ''168h'' @ [''168h''] = ''24h'' # replicate (Suc n - 2) ''168h''" if "2 \<le> n"
    using that by (metis Suc_diff_le replicate_Suc replicate_append_same)
  ultimately show ?case using Suc by (cases "n < 2") (auto simp: less_Suc_eq)
qed simp

lemma saved_ok: "no_faults w \<Longrightarrow> \<exists>n. saved w = (True, w\<lparr>io_step := n\<rparr>)"
  by (auto simp: saved_def io_call_ok no_faults_def)

text \<open>A run with a cursor: what it loads, lists and stores.\<close>

lemma cursor_run:
  assumes "no_faults w" and "rv_source sv = Some bs" "bs_allowlist bs = None" "\<And>n. bs_src bs n = Inr all" and "read_state (rc_File w) = Some m" and "stored_cursor m > 0"
    and "bans = filter (counted_ban bs None) all"
    and "count_bans (rv_escalator sv) (stored_cursor m) bans (m, stored_cursor m, False) (w\<lparr>io_step := Suc (Suc (io_step w))\<rparr>) = ((m', nc, ch), w4)"
  shows "\<exists>n. snd (recidive_Run sv w) = w4\<lparr>io_step := n, rc_File := if nc > stored_cursor m \<or> ch then Some (State_map (if nc > stored_cursor m then AList.update ''_cursor'' (Cursor_text nc) m' else m')) else rc_File w4\<rparr>"
proof -
  let ?w1 = "w\<lparr>io_step := Suc (io_step w)\<rparr>" and ?w2 = "w\<lparr>io_step := Suc (Suc (io_step w))\<rparr>"
  have load: "recidive_loadState w = (Inr (Some m), ?w1)" using io_call_ok [OF assms(1)] assms(5) by (simp add: recidive_loadState_def)
  have ls: "ListRecentBans bs ?w1 = (Inr bans, ?w2)" using assms(3,4,7) by (simp add: ListRecentBans_def adapter_allowlist_def)
  have w4: "no_faults w4" using count_bans_cursor [OF assms(8)] assms(1) by (simp add: no_faults_def)
  show ?thesis
  proof (cases "bans = []")
    case True
    then have "w4 = ?w2" "nc = stored_cursor m" "ch = False" using assms(8) by auto
    then show ?thesis using assms(2) load ls True by (auto simp: recidive_Run_def intro!: exI [of _ "Suc (Suc (io_step w))"])
  next
    case False
    then have run: "snd (recidive_Run sv w) = recidive_save (stored_cursor m) (m', nc, ch) w4"
      using assms(2,6,8) load ls by (simp add: recidive_Run_def time_is_zero_def)
    obtain k where "saved w4 = (True, w4\<lparr>io_step := k\<rparr>)" using saved_ok [OF w4] by blast
    then have "snd (recidive_Run sv w) = (if nc > stored_cursor m \<or> ch then w4\<lparr>io_step := k, rc_File := Some (State_map (if nc > stored_cursor m then AList.update ''_cursor'' (Cursor_text nc) m' else m'))\<rparr> else w4)"
      unfolding run by (simp add: recidive_save_def recidive_saveState_def time_after_def Let_def disj_commute)
    then show ?thesis
      by (cases "nc > stored_cursor m \<or> ch") (simp_all add: exI [of _ k] exI [of _ "io_step w4"])
  qed
qed


definition started_recidive :: recidive_env where
  "started_recidive = fresh_recidive\<lparr>rc_File := Some (State_map [(''_cursor'', Cursor_text 1)]), io_clock := (\<lambda>_. 10)\<rparr>"

lemma sample_addresses: "ParseIP ''203.0.113.7'' \<noteq> None" "toCIDR24 ''203.0.113.7'' = ''203.0.113.0/24''" "toCIDR24 ''203.0.113.9'' = ''203.0.113.0/24''"
  by code_simp+


section \<open>Which networks are banned\<close>

definition group_of :: "string list \<Rightarrow> string \<Rightarrow> string set" where
  "group_of ips c = {ip \<in> set ips. ip \<noteq> ''1.2.3.4'' \<and> toCIDR24 ip = c}"

text \<open>The groups: one list without repetitions for every network that has an address.\<close>

definition grouped :: "string list \<Rightarrow> (string \<times> string list) list \<Rightarrow> bool" where
  "grouped ips gs \<longleftrightarrow> distinct (map fst gs) \<and> (\<forall>c xs. map_of gs c = Some xs \<longrightarrow> c \<noteq> [] \<and> xs \<noteq> [] \<and> distinct xs \<and> set xs = group_of ips c) \<and>
     (\<forall>c. c \<noteq> [] \<longrightarrow> map_of gs c = None \<longrightarrow> group_of ips c = {})"

lemma group_of_snoc: "group_of (ips @ [ip]) c = group_of ips c \<union> (if ip \<noteq> ''1.2.3.4'' \<and> toCIDR24 ip = c then {ip} else {})"
  by (auto simp: group_of_def)

lemma group_bans_grouped: "grouped done_ips gs \<Longrightarrow> grouped (done_ips @ ips) (group_bans ips gs)"
proof (induction ips arbitrary: done_ips gs)
  case (Cons ip ips)
  let ?c = "toCIDR24 ip"
  have "grouped (done_ips @ [ip]) (if ip = ''1.2.3.4'' \<or> ?c = [] then gs else add_to_group ?c ip gs)"
  proof (cases "ip = ''1.2.3.4'' \<or> ?c = []")
    case True
    then have "group_of (done_ips @ [ip]) c = group_of done_ips c" if "c \<noteq> []" for c using that by (auto simp: group_of_snoc)
    then show ?thesis using Cons.prems True by (simp add: grouped_def)
  next
    case False
    have other: "group_of (done_ips @ [ip]) c = group_of done_ips c" if "c \<noteq> ?c" for c using that by (simp add: group_of_snoc)
    have own: "group_of (done_ips @ [ip]) ?c = insert ip (group_of done_ips ?c)" using False by (simp add: group_of_snoc)
    show ?thesis
    proof (cases "map_of gs ?c")
      case None
      then have "group_of done_ips ?c = {}" using Cons.prems False by (simp add: grouped_def)
      then show ?thesis using Cons.prems False None own other by (auto simp: grouped_def add_to_group_def update_conv' distinct_update)
    next
      case (Some xs)
      then have "xs \<noteq> []" "distinct xs" "set xs = group_of done_ips ?c" using Cons.prems by (simp_all add: grouped_def)
      then show ?thesis using Cons.prems False Some own other by (auto simp: grouped_def add_to_group_def update_conv' distinct_update)
    qed
  qed
  from Cons.IH [OF this] show ?case by (auto split: if_splits)
qed simp

lemma groups_of_bans:
  assumes "gs = group_bans ips []"
  shows "distinct (map fst gs)" and "(\<exists>xs. (c, xs) \<in> set gs \<and> 2 \<le> length xs) \<longleftrightarrow> c \<noteq> [] \<and> 2 \<le> card (group_of ips c)"
proof -
  have g: "grouped ips gs" using group_bans_grouped [of "[]" "[]" ips] assms by (simp add: grouped_def group_of_def)
  then show d: "distinct (map fst gs)" by (simp add: grouped_def)
  have len: "length xs = card (group_of ips c)" if "map_of gs c = Some xs" for xs using g that by (metis grouped_def distinct_card)
  show "(\<exists>xs. (c, xs) \<in> set gs \<and> 2 \<le> length xs) \<longleftrightarrow> c \<noteq> [] \<and> 2 \<le> card (group_of ips c)"
  proof
    assume "\<exists>xs. (c, xs) \<in> set gs \<and> 2 \<le> length xs"
    then obtain xs where "map_of gs c = Some xs" "2 \<le> length xs" using d by auto
    then show "c \<noteq> [] \<and> 2 \<le> card (group_of ips c)" using g len by (auto simp: grouped_def)
  next
    assume c: "c \<noteq> [] \<and> 2 \<le> card (group_of ips c)"
    then have "group_of ips c \<noteq> {}" by auto
    then obtain xs where "map_of gs c = Some xs" using g c by (cases "map_of gs c") (auto simp: grouped_def)
    then show "\<exists>xs. (c, xs) \<in> set gs \<and> 2 \<le> length xs" using len c by (metis map_of_SomeD)
  qed
qed

definition in_rules :: "(string \<times> string) list option \<Rightarrow> string \<Rightarrow> bool" where
  "in_rules rules c \<longleftrightarrow> (case rules of None \<Rightarrow> False | Some rs \<Rightarrow> map_of rs c \<noteq> None)"

text \<open>What the first walk asks for, and that it ends with a state.\<close>

lemma cidr_bans_adds:
  assumes "distinct (map fst gs)" and "cv_banner sv"
  shows "\<exists>m' ch' w'. cidr_bans sv rules now gs (Some m) ch w = (Some (Some m', ch'), w') \<and>
    cd_Adds w' = cd_Adds w @ map fst (filter (\<lambda>g. 2 \<le> length (snd g) \<and> map_of m (fst g) = None \<and> \<not> in_rules rules (fst g)) gs) \<and> cd_File w' = cd_File w \<and> cd_Deletes w' = cd_Deletes w"
  using assms(1)
proof (induction gs arbitrary: m ch w)
  case (Cons g gs)
  obtain c ips where g: "g = (c, ips)" by fastforce
  let ?new = "2 \<le> length ips \<and> map_of m c = None \<and> \<not> in_rules rules c"
  define m1 where "m1 = (if length ips < 2 then m else case map_of m c of Some e \<Rightarrow> if in_rules rules c then AList.update c (e\<lparr>ce_IPCount := length ips\<rparr>) m else m
    | None \<Rightarrow> AList.update c \<lparr>ce_BannedAt = now, ce_IPCount = length ips\<rparr> m)"
  define ch1 where "ch1 = (ch \<or> 2 \<le> length ips \<and> map_of m c = None)"
  define w1 where "w1 = (if ?new then ban_range sv c (length ips) w else w)"
  have step: "cidr_step sv rules now g (Some m) ch w = (Some (Some m1, ch1), w1)"
  proof (cases "length ips < 2")
    case False
    then show ?thesis unfolding g m1_def ch1_def w1_def
      by (cases "map_of m c"; cases "in_rules rules c") (simp_all add: cidr_step_def cidrThreshold_def in_rules_def Let_def split: option.splits)
  qed (simp add: g m1_def ch1_def w1_def cidr_step_def cidrThreshold_def)
  have m1: "map_of m1 d = map_of m d" if "d \<noteq> c" for d using that by (simp add: m1_def update_conv' split: option.split)
  have w1: "cd_Adds w1 = cd_Adds w @ (if ?new then [c] else [])" "cd_File w1 = cd_File w" "cd_Deletes w1 = cd_Deletes w"
    using assms(2) by (simp_all add: w1_def ban_range_def Let_def)
  have fresh: "c \<notin> fst ` set gs" and d: "distinct (map fst gs)" using Cons.prems g by auto
  obtain m' ch' w' where rest: "cidr_bans sv rules now gs (Some m1) ch1 w1 = (Some (Some m', ch'), w')"
      "cd_Adds w' = cd_Adds w1 @ map fst (filter (\<lambda>g. 2 \<le> length (snd g) \<and> map_of m1 (fst g) = None \<and> \<not> in_rules rules (fst g)) gs)" "cd_File w' = cd_File w1" "cd_Deletes w' = cd_Deletes w1"
    using Cons.IH [OF d, of m1 ch1 w1] by (elim exE conjE) (rule that)
  have "filter (\<lambda>g. 2 \<le> length (snd g) \<and> map_of m1 (fst g) = None \<and> \<not> in_rules rules (fst g)) gs = filter (\<lambda>g. 2 \<le> length (snd g) \<and> map_of m (fst g) = None \<and> \<not> in_rules rules (fst g)) gs"
  proof (rule filter_cong [OF refl])
    fix g assume "g \<in> set gs"
    then have "fst g \<noteq> c" using fresh by auto
    then show "(2 \<le> length (snd g) \<and> map_of m1 (fst g) = None \<and> \<not> in_rules rules (fst g)) = (2 \<le> length (snd g) \<and> map_of m (fst g) = None \<and> \<not> in_rules rules (fst g))" by (simp add: m1)
  qed
  then show ?case using step rest w1 g by simp
qed simp

lemma expire_keeps_adds: "cidr_expire sv rules now cs m ch w = (m', ch', w') \<Longrightarrow> cd_Adds w' = cd_Adds w"
proof (induction cs arbitrary: m ch w)
  case (Cons c cs)
  show ?case
  proof (cases "map_of m c")
    case None
    then show ?thesis using Cons by simp
  next
    case (Some e)
    define w1 where "w1 = (case rules of None \<Rightarrow> w | Some rs \<Rightarrow> (case map_of rs c of Some rule \<Rightarrow> if cv_deleter sv then w\<lparr>cd_Deletes := cd_Deletes w @ [rule]\<rparr> else w | None \<Rightarrow> w))"
    have "cd_Adds w1 = cd_Adds w" by (simp add: w1_def split: option.split)
    then show ?thesis using Cons Some by (cases "time_sub now (ce_BannedAt e) < cidrBanExpiry") (auto simp: w1_def [symmetric])
  qed
qed simp

lemma in_order_keys:
  assumes "distinct (map fst gs)" and "distinct (f (map fst gs))" "set (f (map fst gs)) = fst ` set gs"
  shows "distinct (map fst (in_order f gs))" and "set (in_order f gs) = set gs"
proof -
  show "distinct (map fst (in_order f gs))" using assms(2) by (simp add: in_order_def o_def)
  have "the (map_of gs (fst g)) = snd g" if "g \<in> set gs" for g using map_of_is_SomeI [OF assms(1), of "fst g" "snd g"] that by simp
  then have "(\<lambda>g. (fst g, the (map_of gs (fst g)))) ` set gs = (\<lambda>g. g) ` set gs" by (intro image_cong) simp_all
  then show "set (in_order f gs) = set gs" using assms(3) by (simp add: in_order_def image_image)
qed

text \<open>
  C32: which networks are banned. In whatever order its maps are walked through, a run whose state file can be read asks Cloudflare to ban each network exactly once that has two or more different
  addresses among the listed bans and is neither in the state nor among the rules that Cloudflare lists, and no other.
\<close>

theorem cidr_bans_exact:
  assumes "cv_source sv = Some bs" and "ListRecentBans bs w = (Inr bans, w1)" and "cidr_loadState w1 = (Some m, w2)" and "cv_banner sv"
    and "\<And>i xs. distinct xs \<Longrightarrow> distinct (cv_order sv i xs) \<and> set (cv_order sv i xs) = set xs"
    and "rules = (case cv_rules sv of None \<Rightarrow> None | Some f \<Rightarrow> f (io_step w2))" and "cidr_Run sv w = (r, w')"
  shows "r = Inr () \<and> (\<exists>adds. cd_Adds w' = cd_Adds w @ adds \<and> distinct adds \<and>
    (\<forall>c. c \<in> set adds \<longleftrightarrow> c \<noteq> [] \<and> 2 \<le> card (group_of (map xb_IP bans) c) \<and> map_of m c = None \<and> \<not> in_rules rules c))"
proof -
  obtain n where w1: "w1 = w\<lparr>io_step := n\<rparr>" using listed_bans [OF assms(2)] by auto
  have w2: "cd_Adds w2 = cd_Adds w" using assms(3) w1 by (cases w1 rule: io_call_cases) (auto simp: cidr_loadState_def)
  show ?thesis
  proof (cases "bans = []")
    case True
    then have "r = Inr ()" "w' = w1" using assms(1,2,7) by (auto simp: cidr_Run_def)
    then show ?thesis using True w1 by (auto simp: group_of_def intro!: exI [of _ "[]"])
  next
    case False
    let ?gs = "group_bans (map xb_IP bans) []" and ?w3 = "case cv_rules sv of None \<Rightarrow> w2 | Some f \<Rightarrow> w2\<lparr>io_step := Suc (io_step w2)\<rparr>"
    let ?now = "io_clock ?w3 (io_step ?w3)" and ?w4 = "?w3\<lparr>io_step := Suc (io_step ?w3)\<rparr>" and ?os = "in_order (cv_order sv 0) ?gs"
    have gs: "distinct (map fst ?gs)" and big: "\<And>c. (\<exists>xs. (c, xs) \<in> set ?gs \<and> 2 \<le> length xs) \<longleftrightarrow> c \<noteq> [] \<and> 2 \<le> card (group_of (map xb_IP bans) c)"
      by (rule groups_of_bans [OF refl])+
    have os: "distinct (map fst ?os)" "set ?os = set ?gs" using in_order_keys [OF gs, of "cv_order sv 0"] assms(5) [OF gs, of 0] by simp_all
    define adds where "adds = map fst (filter (\<lambda>g. 2 \<le> length (snd g) \<and> map_of m (fst g) = None \<and> \<not> in_rules rules (fst g)) ?os)"
    obtain m' ch' w5 where bans: "cidr_bans sv rules ?now ?os (Some m) False ?w4 = (Some (Some m', ch'), w5)" "cd_Adds w5 = cd_Adds ?w4 @ adds"
      using cidr_bans_adds [OF os(1) assms(4), of rules ?now m False ?w4] by (elim exE conjE) (rule that, assumption, simp add: adds_def)
    have w4: "cd_Adds ?w4 = cd_Adds w" using w2 by (simp split: option.split)
    obtain m1 ch w6 where ex: "cidr_expire sv rules ?now (cv_order sv 1 (map fst m')) m' ch' w5 = (m1, ch, w6)" by (metis prod_cases3)
    have "cidr_Run sv w = (Inr (), if ch then cidr_saveState m1 w6 else w6)"
      using assms(1-3,6) False bans(1) ex by (cases "cv_rules sv") (simp_all add: cidr_Run_def time_Now_def Let_def)
    moreover have "cd_Adds (cidr_saveState m1 w6) = cd_Adds w6"
    proof -
      have "\<exists>n. snd (saved w6) = w6\<lparr>io_step := n\<rparr>" by (auto simp: saved_def io_call_def split: option.split)
      then obtain b n where "saved w6 = (b, w6\<lparr>io_step := n\<rparr>)" by (metis prod.collapse)
      then show ?thesis by (cases b) (simp_all add: cidr_saveState_def)
    qed
    ultimately have "r = Inr ()" "cd_Adds w' = cd_Adds w @ adds" using assms(7) expire_keeps_adds [OF ex] bans(2) w4 by auto
    moreover have "distinct adds" using os(1) by (simp add: adds_def distinct_map_filter)
    moreover have "c \<in> set adds \<longleftrightarrow> c \<noteq> [] \<and> 2 \<le> card (group_of (map xb_IP bans) c) \<and> map_of m c = None \<and> \<not> in_rules rules c" for c
      using big [of c] os(2) by (force simp: adds_def)
    ultimately show ?thesis by blast
  qed
qed

definition sample_cidr :: cidr_service where
  "sample_cidr = \<lparr>cv_source = Some \<lparr>bs_src = (\<lambda>_. Inr [\<lparr>xb_IP = ''203.0.113.7'', xb_Scenario = [], xb_When = 5\<rparr>, \<lparr>xb_IP = ''203.0.113.9'', xb_Scenario = [], xb_When = 6\<rparr>]), bs_shield = None, bs_allowlist = None\<rparr>,
     cv_banner = True, cv_rules = None, cv_deleter = False, cv_ranger = False, cv_order = (\<lambda>_ xs. xs)\<rparr>"

definition fresh_cidr :: cidr_env where
  "fresh_cidr = \<lparr>io_clock = (\<lambda>_. 10), io_fault = (\<lambda>_. None), io_choice = (\<lambda>_. False), io_step = 0, cd_File = None, cd_Adds = [], cd_Ranges = [], cd_Deletes = []\<rparr>"

theorem cidr_bans_exact_witness: "\<exists>adds. cd_Adds (snd (cidr_Run sample_cidr fresh_cidr)) = adds \<and> distinct adds \<and> set adds = {''203.0.113.0/24''}"
proof -
  let ?b1 = "\<lparr>xb_IP = ''203.0.113.7'', xb_Scenario = [], xb_When = 5\<rparr>" and ?b2 = "\<lparr>xb_IP = ''203.0.113.9'', xb_Scenario = [], xb_When = 6\<rparr>"
  let ?bs = "\<lparr>bs_src = (\<lambda>_. Inr [?b1, ?b2]), bs_shield = None, bs_allowlist = None\<rparr>"
  let ?w1 = "fresh_cidr\<lparr>io_step := 1\<rparr>" and ?w2 = "fresh_cidr\<lparr>io_step := 2\<rparr>"
  obtain r w' where run: "cidr_Run sample_cidr fresh_cidr = (r, w')" by fastforce
  have src: "cv_source sample_cidr = Some ?bs" by (simp add: sample_cidr_def)
  have ls: "ListRecentBans ?bs fresh_cidr = (Inr [?b1, ?b2], ?w1)"
    by (simp add: ListRecentBans_def adapter_allowlist_def counted_ban_def allowlist_contains_def fresh_cidr_def)
  have ld: "cidr_loadState ?w1 = (Some [], ?w2)" by (simp add: cidr_loadState_def io_call_def read_state_def fresh_cidr_def)
  have bn: "cv_banner sample_cidr" and ord: "\<And>i xs. distinct xs \<Longrightarrow> distinct (cv_order sample_cidr i xs) \<and> set (cv_order sample_cidr i xs) = set xs"
    and ru: "None = (case cv_rules sample_cidr of None \<Rightarrow> None | Some f \<Rightarrow> f (io_step ?w2))" by (simp_all add: sample_cidr_def)
  obtain adds where a: "cd_Adds w' = cd_Adds fresh_cidr @ adds" "distinct adds"
      "\<forall>c. c \<in> set adds \<longleftrightarrow> c \<noteq> [] \<and> 2 \<le> card (group_of (map xb_IP [?b1, ?b2]) c) \<and> map_of ([] :: (string \<times> cidr_entry) list) c = None \<and> \<not> in_rules None c"
    using cidr_bans_exact [OF src ls ld bn ord ru run] by - (drule meta_mp, assumption, elim exE conjE, rule that)
  have "group_of (map xb_IP [?b1, ?b2]) c = (if c = ''203.0.113.0/24'' then {''203.0.113.7'', ''203.0.113.9''} else {})" for c
    using sample_addresses(2,3) by (auto simp: group_of_def)
  then have "set adds = {''203.0.113.0/24''}" using a(3) by (auto simp: in_rules_def split: if_splits)
  then show ?thesis using a(1,2) run by (simp add: fresh_cidr_def)
qed

end
