(* ===== verification/Ban_Sync.thy ===== *)
theory Ban_Sync
  imports Recidive "HOL-Library.Sublist"
begin

text \<open>
  The synchronisation of the bans of CrowdSec with the access rules of Cloudflare, \<open>CrowdSecSyncApp\<close> in \<open>internal/app/crowdsec_sync_runtime.go\<close>, and the removal of stale rules by
  \<open>CleanupApp\<close>. The list of bans, the list of rules that carry the tag of the program and the allowlist are parameters, functions of the number of the call; what was asked of Cloudflare is
  recorded with its outcome. The comparison with the earlier program that shadow mode writes to files, and the logs, are left out.
\<close>

section \<open>The plan\<close>

datatype edge_call = Edge_add string | Edge_delete string

record sync_env = io_env +
  sy_Calls :: "(edge_call \<times> bool) list"

record sync_app =
  sa_cs :: "nat \<Rightarrow> string list result"
  sa_cf :: "nat \<Rightarrow> (string \<times> string) list result"
  sa_csAllowlist :: "(nat \<Rightarrow> string list result) option"
  sa_shield :: "ip_net list option"
  sa_shadowMode :: bool
  sa_order :: "nat \<Rightarrow> string list \<Rightarrow> string list"

record sync_plan =
  sp_ActiveBans :: "string list"
  sp_CFRules :: "string list"
  sp_ToAdd :: "string list"
  sp_ToDelete :: "string list"

definition fetchAllowlist :: "(nat \<Rightarrow> string list result) option \<Rightarrow> 'z io_env_scheme \<Rightarrow> allowlist_set option \<times> 'z io_env_scheme" where
  "fetchAllowlist csAllowlist w =
     (case csAllowlist of
        None \<Rightarrow> (None, w)
      | Some f \<Rightarrow> ((case f (io_step w) of Inl _ \<Rightarrow> None | Inr entries \<Rightarrow> Some (newAllowlistSet entries)), w\<lparr>io_step := Suc (io_step w)\<rparr>))"

text \<open>A listed ban in the spelling of \<open>net.IP.String\<close>, unless it is skipped.\<close>

definition enforced_ban :: "sync_app \<Rightarrow> allowlist_set option \<Rightarrow> string \<Rightarrow> string option" where
  "enforced_ban a al ip =
     (case ParseIP ip of
        None \<Rightarrow> None
      | Some parsed \<Rightarrow> let norm = IP_String parsed in
          if (case sa_shield a of None \<Rightarrow> False | Some nets \<Rightarrow> IsProtected nets norm) then None
          else if allowlist_contains al norm then None else Some norm)"

definition ban_set :: "sync_app \<Rightarrow> allowlist_set option \<Rightarrow> string list \<Rightarrow> string list" where
  "ban_set a al activeBans = remdups (List.map_filter (enforced_ban a al) activeBans)"

definition buildSyncPlan :: "sync_app \<Rightarrow> string list \<Rightarrow> (string \<times> string) list \<Rightarrow> 'z io_env_scheme \<Rightarrow> sync_plan \<times> 'z io_env_scheme" where
  "buildSyncPlan a activeBans cfRules w =
     (let (allowlist, w1) = fetchAllowlist (sa_csAllowlist a) w;
          banSet = ban_set a allowlist activeBans; cfSet = map fst cfRules
      in (\<lparr>sp_ActiveBans = banSet, sp_CFRules = cfSet, sp_ToAdd = filter (\<lambda>ip. ip \<notin> set cfSet) (sa_order a 0 banSet),
           sp_ToDelete = filter (\<lambda>ip. ip \<notin> set banSet) (sa_order a 1 cfSet)\<rparr>, w1))"

section \<open>Carrying it out\<close>

text \<open>Each loop goes on after a call that failed, and pauses after one that succeeded; the pause ends the loop when the context is cancelled.\<close>

fun ask_all :: "edge_call list \<Rightarrow> 'z sync_env_scheme \<Rightarrow> unit result \<times> 'z sync_env_scheme" where
  "ask_all [] w = (Inr (), w)"
| "ask_all (c # cs) w =
     (case io_call w of
        (Inl _, w1) \<Rightarrow> ask_all cs (w1\<lparr>sy_Calls := sy_Calls w1 @ [(c, False)]\<rparr>)
      | (Inr _, w1) \<Rightarrow> and_try (io_call (w1\<lparr>sy_Calls := sy_Calls w1 @ [(c, True)]\<rparr>)) (\<lambda>_ w2. ask_all cs w2))"

definition rule_of :: "(string \<times> string) list \<Rightarrow> string \<Rightarrow> string" where
  "rule_of cfRules ip = (case map_of cfRules ip of Some ruleID \<Rightarrow> ruleID | None \<Rightarrow> [])"

definition syncCloudflare :: "sync_app \<Rightarrow> 'z sync_env_scheme \<Rightarrow> unit result \<times> 'z sync_env_scheme" where
  "syncCloudflare a w =
     (let w1 = w\<lparr>io_step := Suc (io_step w)\<rparr> in
      case sa_cs a (io_step w) of
        Inl e \<Rightarrow> (Inl (Errorf (''syncCloudflare: ListActiveBans: '' @ Error e) e), w1)
      | Inr activeBans \<Rightarrow>
          (let w2 = w1\<lparr>io_step := Suc (io_step w1)\<rparr> in
           case sa_cf a (io_step w1) of
             Inl e \<Rightarrow> (Inl (Errorf (''syncCloudflare: ListIPAccessRulesByTag: '' @ Error e) e), w2)
           | Inr cfRules \<Rightarrow>
               let (plan, w3) = buildSyncPlan a activeBans cfRules w2 in
               if sa_shadowMode a then (Inr (), w3)
               else and_try (ask_all (map Edge_add (sp_ToAdd plan)) w3) (\<lambda>_ w4. ask_all (map (\<lambda>ip. Edge_delete (rule_of cfRules ip)) (sp_ToDelete plan)) w4)))"

section \<open>Stale rules\<close>

record cleanup_app =
  ka_cs :: "nat \<Rightarrow> string list result"
  ka_cf :: "nat \<Rightarrow> (string \<times> string) list result"
  ka_dryRun :: bool
  ka_order :: "string list \<Rightarrow> string list"

record cleanup_candidate =
  cn_IP :: string
  cn_RuleID :: string
  cn_Reason :: string

record cleanup_plan =
  cp_kept :: "cleanup_candidate list"
  cp_stale :: "cleanup_candidate list"

definition cleanup_bans :: "string list \<Rightarrow> string list" where
  "cleanup_bans activeBans = map (\<lambda>ip. case ParseIP ip of Some parsed \<Rightarrow> IP_String parsed | None \<Rightarrow> ip) activeBans"

definition buildCleanupPlan :: "(string list \<Rightarrow> string list) \<Rightarrow> string list \<Rightarrow> (string \<times> string) list \<Rightarrow> cleanup_plan" where
  "buildCleanupPlan order activeBans cfRules =
     (let items = map (\<lambda>ip. \<lparr>cn_IP = ip, cn_RuleID = rule_of cfRules ip, cn_Reason = ''not in active CrowdSec bans''\<rparr>) (order (map fst cfRules))
      in \<lparr>cp_kept = filter (\<lambda>i. cn_IP i \<in> set activeBans) items, cp_stale = filter (\<lambda>i. cn_IP i \<notin> set activeBans) items\<rparr>)"

text \<open>The texts of the failed deletions are collected.\<close>

fun delete_stale :: "cleanup_candidate list \<Rightarrow> string list \<Rightarrow> 'z sync_env_scheme \<Rightarrow> string list result \<times> 'z sync_env_scheme" where
  "delete_stale [] errs w = (Inr errs, w)"
| "delete_stale (i # is) errs w =
     (case io_call w of
        (Inl e, w1) \<Rightarrow> delete_stale is (errs @ [''delete '' @ cn_IP i @ '': '' @ Error e]) (w1\<lparr>sy_Calls := sy_Calls w1 @ [(Edge_delete (cn_RuleID i), False)]\<rparr>)
      | (Inr _, w1) \<Rightarrow> and_try (io_call (w1\<lparr>sy_Calls := sy_Calls w1 @ [(Edge_delete (cn_RuleID i), True)]\<rparr>)) (\<lambda>_ w2. delete_stale is errs w2))"

text \<open>\<open>errors.Join\<close> puts the texts on lines of their own; nothing looks into the joined error.\<close>

fun join_lines :: "string list \<Rightarrow> string" where
  "join_lines [] = []"
| "join_lines [l] = l"
| "join_lines (l # ls) = l @ [char_of (10 :: nat)] @ join_lines ls"

definition CleanupApp_Run :: "cleanup_app \<Rightarrow> 'z sync_env_scheme \<Rightarrow> unit result \<times> 'z sync_env_scheme" where
  "CleanupApp_Run a w =
     (let op = ''app.CleanupApp.Run''; w1 = w\<lparr>io_step := Suc (io_step w)\<rparr> in
      case ka_cs a (io_step w) of
        Inl e \<Rightarrow> (Inl (AppErr op ''ListActiveBans'' (Some e)), w1)
      | Inr activeBans \<Rightarrow>
          (let w2 = w1\<lparr>io_step := Suc (io_step w1)\<rparr> in
           case ka_cf a (io_step w1) of
             Inl e \<Rightarrow> (Inl (AppErr op ''ListIPAccessRulesByTag'' (Some e)), w2)
           | Inr cfRules \<Rightarrow>
               let plan = buildCleanupPlan (ka_order a) (cleanup_bans activeBans) cfRules in
               if ka_dryRun a then (Inr (), w2)
               else and_then op (delete_stale (cp_stale plan) [] w2) (\<lambda>errs w3. (if errs = [] then Inr () else Inl (wrap_err op (Plain (join_lines errs))), w3))))"

section \<open>What is asked\<close>

text \<open>A walk through a map visits every key once.\<close>

definition walks :: "(string list \<Rightarrow> string list) \<Rightarrow> bool" where
  "walks f \<longleftrightarrow> (\<forall>xs. distinct xs \<longrightarrow> distinct (f xs) \<and> set (f xs) = set xs)"

lemma walksD: "walks f \<Longrightarrow> distinct xs \<Longrightarrow> distinct (f xs) \<and> set (f xs) = set xs"
  by (simp add: walks_def)

lemma ask_all_calls:
  assumes "ask_all cs w = (r, w')"
  shows "\<exists>new n. w' = w\<lparr>io_step := n, sy_Calls := sy_Calls w @ new\<rparr> \<and> prefix (map fst new) cs \<and> (r = Inr () \<longrightarrow> map fst new = cs) \<and> (no_faults w \<longrightarrow> r = Inr () \<and> new = map (\<lambda>c. (c, True)) cs)"
  using assms
proof (induction cs arbitrary: w)
  case Nil
  then show ?case by (intro exI [of _ "[]"] exI [of _ "io_step w"]) simp
next
  case (Cons c cs)
  let ?w1 = "w\<lparr>io_step := Suc (io_step w)\<rparr>"
  show ?case
  proof (cases w rule: io_call_cases)
    case 1
    let ?v = "?w1\<lparr>sy_Calls := sy_Calls w @ [(c, True)]\<rparr>"
    show ?thesis
    proof (cases ?v rule: io_call_cases)
      case a: 1
      have rest: "ask_all cs (?v\<lparr>io_step := Suc (io_step ?v)\<rparr>) = (r, w')" using Cons.prems 1 a by simp
      obtain new n where n: "w' = (?v\<lparr>io_step := Suc (io_step ?v)\<rparr>)\<lparr>io_step := n, sy_Calls := sy_Calls (?v\<lparr>io_step := Suc (io_step ?v)\<rparr>) @ new\<rparr>" "prefix (map fst new) cs"
          "r = Inr () \<longrightarrow> map fst new = cs" "no_faults (?v\<lparr>io_step := Suc (io_step ?v)\<rparr>) \<longrightarrow> r = Inr () \<and> new = map (\<lambda>c. (c, True)) cs"
        using Cons.IH [OF rest] by (elim exE conjE) (rule that)
      have "no_faults w \<longrightarrow> r = Inr () \<and> new = map (\<lambda>c. (c, True)) cs" using n(4) by (simp add: no_faults_def)
      then show ?thesis using n(1-3) by (intro exI [of _ "(c, True) # new"] exI [of _ n]) simp
    next
      case b: (2 e)
      then have "r = Inl e" "w' = ?v\<lparr>io_step := Suc (io_step ?v)\<rparr>" "\<not> no_faults w" using Cons.prems 1 by (simp_all add: no_faults_def)
      then show ?thesis by (intro exI [of _ "[(c, True)]"] exI [of _ "Suc (Suc (io_step w))"]) simp
    qed
  next
    case (2 e)
    let ?v = "?w1\<lparr>sy_Calls := sy_Calls w @ [(c, False)]\<rparr>"
    have rest: "ask_all cs ?v = (r, w')" using Cons.prems 2(1) by simp
    obtain new n where n: "w' = ?v\<lparr>io_step := n, sy_Calls := sy_Calls ?v @ new\<rparr>" "prefix (map fst new) cs" "r = Inr () \<longrightarrow> map fst new = cs"
      using Cons.IH [OF rest] by (elim exE conjE) (rule that)
    then show ?thesis using 2(2) by (intro exI [of _ "(c, False) # new"] exI [of _ n]) simp
  qed
qed

text \<open>The addresses that the rules of the program should have, written without the loops.\<close>

definition wanted :: "sync_app \<Rightarrow> allowlist_set option \<Rightarrow> string list \<Rightarrow> string set" where
  "wanted a al bans = {IP_String p | p ip. ip \<in> set bans \<and> ParseIP ip = Some p \<and> (\<forall>nets. sa_shield a = Some nets \<longrightarrow> \<not> IsProtected nets (IP_String p)) \<and> \<not> allowlist_contains al (IP_String p)}"

lemma enforced_ban_iff:
  "enforced_ban a al ip = Some s \<longleftrightarrow> (\<exists>p. ParseIP ip = Some p \<and> s = IP_String p \<and> (\<forall>nets. sa_shield a = Some nets \<longrightarrow> \<not> IsProtected nets s) \<and> \<not> allowlist_contains al s)"
  by (cases "ParseIP ip"; cases "sa_shield a") (auto simp: enforced_ban_def Let_def)

lemma ban_set_wanted: "set (ban_set a al bans) = wanted a al bans" "distinct (ban_set a al bans)"
proof -
  have "set (List.map_filter f xs) = {y. \<exists>x \<in> set xs. f x = Some y}" for f :: "string \<Rightarrow> string option" and xs by (induction xs) (auto split: option.splits)
  then have "set (ban_set a al bans) = {s. \<exists>ip \<in> set bans. enforced_ban a al ip = Some s}" by (simp add: ban_set_def)
  then show "set (ban_set a al bans) = wanted a al bans" by (auto simp: enforced_ban_iff wanted_def)
qed (simp add: ban_set_def)

lemma fetch_steps: "fetchAllowlist f w = (al, w') \<Longrightarrow> \<exists>n. w' = w\<lparr>io_step := n\<rparr>"
  by (cases f) (auto simp: fetchAllowlist_def intro: exI [of _ "io_step w"])

text \<open>The addresses that have a rule after the calls that succeeded, when \<open>rules\<close> was listed before.\<close>

fun after_call :: "(string \<times> string) list \<Rightarrow> edge_call \<times> bool \<Rightarrow> string set \<Rightarrow> string set" where
  "after_call rules (Edge_add ip, ok) S = (if ok then insert ip S else S)"
| "after_call rules (Edge_delete ruleID, ok) S = (if ok then S - {ip. map_of rules ip = Some ruleID} else S)"

lemma after_adds: "fold (after_call rules) (map (\<lambda>c. (c, True)) (map Edge_add ips)) S = S \<union> set ips"
  by (induction ips arbitrary: S) auto

lemma after_deletes:
  assumes "distinct (map snd rules)" and "set ips \<subseteq> fst ` set rules" "distinct (map fst rules)"
  shows "fold (after_call rules) (map (\<lambda>c. (c, True)) (map (\<lambda>ip. Edge_delete (rule_of rules ip)) ips)) S = S - set ips"
  using assms(2)
proof (induction ips arbitrary: S)
  case (Cons ip ips)
  obtain ruleID where r: "(ip, ruleID) \<in> set rules" using Cons.prems by auto
  then have m: "map_of rules ip = Some ruleID" using assms(3) by simp
  have only: "ip' = ip" if "map_of rules ip' = Some ruleID" for ip'
  proof -
    have "(ip', ruleID) \<in> set rules" using that by (rule map_of_SomeD)
    then show ?thesis using r assms(1) inj_onD [of snd "set rules" "(ip', ruleID)" "(ip, ruleID)"] by (simp add: distinct_map)
  qed
  have id: "rule_of rules ip = ruleID" using m by (simp add: rule_of_def)
  have "{ip'. map_of rules ip' = Some (rule_of rules ip)} = {ip}" unfolding id using m by (auto dest: only)
  then show ?case using Cons by auto
qed simp

text \<open>
  C8: the rules at Cloudflare follow the bans of CrowdSec. When the two lists were answered and the synchronisation is not in shadow mode, the calls are, in whatever order the maps are walked through,
  one addition for every wanted address without a rule and then one deletion for every listed rule whose address is not wanted, or a beginning of these when the run is cancelled: a protected or
  allowlisted address is never added. An address is wanted when CrowdSec has a ban for it, in the spelling of the parser, and neither the shield nor the allowlist of this cycle has it. If no
  call fails, afterwards exactly the wanted addresses have a rule. In shadow mode nothing is asked.
\<close>

theorem ban_sync_exact:
  assumes "sa_cs a (io_step w) = Inr bans" and "sa_cf a (Suc (io_step w)) = Inr rules" and "distinct (map fst rules)" and "walks (sa_order a 0)" "walks (sa_order a 1)"
    and "al = fst (fetchAllowlist (sa_csAllowlist a) (w\<lparr>io_step := Suc (Suc (io_step w))\<rparr>))" and "syncCloudflare a w = (r, w')"
  shows "\<exists>new adds dels. sy_Calls w' = sy_Calls w @ new \<and> (sa_shadowMode a \<longrightarrow> new = []) \<and>
    distinct adds \<and> set adds = wanted a al bans - fst ` set rules \<and> distinct dels \<and> set dels = fst ` set rules - wanted a al bans \<and>
    prefix (map fst new) (map Edge_add adds @ map (\<lambda>ip. Edge_delete (rule_of rules ip)) dels) \<and>
    (no_faults w \<and> \<not> sa_shadowMode a \<and> distinct (map snd rules) \<longrightarrow> r = Inr () \<and> fold (after_call rules) new (fst ` set rules) = wanted a al bans)"
proof -
  let ?w2 = "w\<lparr>io_step := Suc (Suc (io_step w))\<rparr>" and ?set = "ban_set a al bans"
  define adds where "adds = filter (\<lambda>ip. ip \<notin> fst ` set rules) (sa_order a 0 ?set)"
  define dels where "dels = filter (\<lambda>ip. ip \<notin> set ?set) (sa_order a 1 (map fst rules))"
  have adds: "distinct adds" "set adds = wanted a al bans - fst ` set rules"
    using walksD [OF assms(4) ban_set_wanted(2) [of a al bans]] by (auto simp: adds_def ban_set_wanted(1))
  have dels: "distinct dels" "set dels = fst ` set rules - wanted a al bans"
    using walksD [OF assms(5,3)] by (auto simp: dels_def ban_set_wanted(1))
  obtain k where "fetchAllowlist (sa_csAllowlist a) ?w2 = (al, ?w2\<lparr>io_step := k\<rparr>)"
    using fetch_steps [OF surjective_pairing, of "sa_csAllowlist a" ?w2] assms(6) by (metis prod.collapse)
  then have plan: "buildSyncPlan a bans rules ?w2 = (\<lparr>sp_ActiveBans = ?set, sp_CFRules = map fst rules, sp_ToAdd = adds, sp_ToDelete = dels\<rparr>, w\<lparr>io_step := k\<rparr>)"
    by (simp add: buildSyncPlan_def adds_def dels_def Let_def)
  let ?adds = "map Edge_add adds" and ?dels = "map (\<lambda>ip. Edge_delete (rule_of rules ip)) dels"
  show ?thesis
  proof (cases "sa_shadowMode a")
    case True
    then have "sy_Calls w' = sy_Calls w" using assms(1,2,7) plan by (auto simp: syncCloudflare_def)
    then show ?thesis using True adds dels by (intro exI [of _ "[]"] exI [of _ adds] exI [of _ dels]) simp
  next
    case False
    obtain r1 v where first: "ask_all ?adds (w\<lparr>io_step := k\<rparr>) = (r1, v)" by fastforce
    obtain new1 n where n1: "v = (w\<lparr>io_step := k\<rparr>)\<lparr>io_step := n, sy_Calls := sy_Calls (w\<lparr>io_step := k\<rparr>) @ new1\<rparr>" "prefix (map fst new1) ?adds" "r1 = Inr () \<longrightarrow> map fst new1 = ?adds"
        "no_faults (w\<lparr>io_step := k\<rparr>) \<longrightarrow> r1 = Inr () \<and> new1 = map (\<lambda>c. (c, True)) ?adds"
      using ask_all_calls [OF first] by (elim exE conjE) (rule that)
    have run: "syncCloudflare a w = and_try (r1, v) (\<lambda>_. ask_all ?dels)" using assms(1,2) False plan first by (simp add: syncCloudflare_def)
    show ?thesis
    proof (cases r1)
      case (Inl e)
      then have "w' = v" "\<not> no_faults w" using run assms(7) n1(4) by (simp_all add: no_faults_def)
      then show ?thesis using False adds dels n1(1,2) by (intro exI [of _ new1] exI [of _ adds] exI [of _ dels]) simp
    next
      case (Inr u)
      then have second: "ask_all ?dels v = (r, w')" using run assms(7) by simp
      obtain new2 m where n2: "w' = v\<lparr>io_step := m, sy_Calls := sy_Calls v @ new2\<rparr>" "prefix (map fst new2) ?dels" "no_faults v \<longrightarrow> r = Inr () \<and> new2 = map (\<lambda>c. (c, True)) ?dels"
        using ask_all_calls [OF second] by (elim exE conjE) (rule that)
      have full: "map fst new1 = ?adds" using Inr n1(3) by simp
      have "r = Inr () \<and> fold (after_call rules) (new1 @ new2) (fst ` set rules) = wanted a al bans" if "no_faults w" "distinct (map snd rules)"
      proof -
        have ok: "new1 = map (\<lambda>c. (c, True)) ?adds" "r = Inr ()" "new2 = map (\<lambda>c. (c, True)) ?dels" using that n1(1,4) n2(3) by (simp_all add: no_faults_def)
        have "fold (after_call rules) new1 (fst ` set rules) = fst ` set rules \<union> set adds" unfolding ok(1) by (rule after_adds)
        moreover have "fold (after_call rules) new2 (fst ` set rules \<union> set adds) = fst ` set rules \<union> set adds - set dels"
          unfolding ok(3) by (rule after_deletes [OF that(2) _ assms(3)]) (use dels in auto)
        ultimately show ?thesis using ok(2) adds(2) dels(2) by auto
      qed
      moreover have "sy_Calls w' = sy_Calls w @ new1 @ new2" "prefix (map fst (new1 @ new2)) (?adds @ ?dels)" using n1(1) n2(1,2) full by simp_all
      ultimately show ?thesis using False adds dels by (intro exI [of _ "new1 @ new2"] exI [of _ adds] exI [of _ dels]) simp
    qed
  qed
qed

definition sample_sync :: sync_app where
  "sample_sync = \<lparr>sa_cs = (\<lambda>_. Inr [''203.0.113.7'', ''10.0.0.1'']), sa_cf = (\<lambda>_. Inr [(''203.0.113.9'', ''rule-9'')]), sa_csAllowlist = None, sa_shield = Some [Net4 0x0A000000 8], sa_shadowMode = False, sa_order = (\<lambda>_ xs. xs)\<rparr>"

definition fresh_sync :: sync_env where
  "fresh_sync = \<lparr>io_clock = (\<lambda>_. 10), io_fault = (\<lambda>_. None), io_choice = (\<lambda>_. False), io_step = 0, sy_Calls = []\<rparr>"

lemma sample_protected: "IsProtected [Net4 0x0A000000 8] ''10.0.0.1''" "\<not> IsProtected [Net4 0x0A000000 8] ''203.0.113.7''"
  "map_option IP_String (ParseIP ''10.0.0.1'') = Some ''10.0.0.1''" "map_option IP_String (ParseIP ''203.0.113.7'') = Some ''203.0.113.7''"
  by code_simp+

theorem ban_sync_exact_witness:
  "\<exists>new. sy_Calls (snd (syncCloudflare sample_sync fresh_sync)) = new \<and> fold (after_call [(''203.0.113.9'', ''rule-9'')]) new {''203.0.113.9''} = {''203.0.113.7''}"
proof -
  let ?rules = "[(''203.0.113.9'', ''rule-9'')]" and ?bans = "[''203.0.113.7'', ''10.0.0.1'']"
  obtain r w' where run: "syncCloudflare sample_sync fresh_sync = (r, w')" by fastforce
  have lists: "sa_cs sample_sync (io_step fresh_sync) = Inr ?bans" "sa_cf sample_sync (Suc (io_step fresh_sync)) = Inr ?rules" "distinct (map fst ?rules)" by (simp_all add: sample_sync_def)
  have order: "walks (sa_order sample_sync 0)" "walks (sa_order sample_sync 1)" by (simp_all add: sample_sync_def walks_def)
  have al: "None = fst (fetchAllowlist (sa_csAllowlist sample_sync) (fresh_sync\<lparr>io_step := Suc (Suc (io_step fresh_sync))\<rparr>))" by (simp add: sample_sync_def fetchAllowlist_def)
  have cond: "no_faults fresh_sync \<and> \<not> sa_shadowMode sample_sync \<and> distinct (map snd ?rules)" by (simp add: fresh_sync_def sample_sync_def no_faults_def)
  obtain new where new: "sy_Calls w' = sy_Calls fresh_sync @ new" and imp: "no_faults fresh_sync \<and> \<not> sa_shadowMode sample_sync \<and> distinct (map snd ?rules) \<longrightarrow>
      r = Inr () \<and> fold (after_call ?rules) new (fst ` set ?rules) = wanted sample_sync None ?bans"
    using ban_sync_exact [OF lists order al run] by (elim exE conjE) (rule that)
  have "set (ban_set sample_sync None ?bans) = {''203.0.113.7''}" using sample_protected
    by (auto simp: ban_set_def map_filter_simps enforced_ban_def Let_def sample_sync_def allowlist_contains_def)
  then show ?thesis using new mp [OF imp cond] run by (simp add: fresh_sync_def ban_set_wanted(1))
qed

text \<open>The removal of stale rules.\<close>

lemma delete_stale_calls:
  assumes "delete_stale items errs w = (r, w')"
  shows "\<exists>new n. w' = w\<lparr>io_step := n, sy_Calls := sy_Calls w @ new\<rparr> \<and> prefix (map fst new) (map (\<lambda>i. Edge_delete (cn_RuleID i)) items) \<and>
    (\<forall>es. r = Inr es \<longrightarrow> map fst new = map (\<lambda>i. Edge_delete (cn_RuleID i)) items \<and> (es = [] \<longrightarrow> errs = [] \<and> (\<forall>c \<in> set new. snd c)))"
  using assms
proof (induction items arbitrary: errs w)
  case Nil
  then show ?case by (intro exI [of _ "[]"] exI [of _ "io_step w"]) auto
next
  case (Cons i items)
  let ?w1 = "w\<lparr>io_step := Suc (io_step w)\<rparr>" and ?c = "Edge_delete (cn_RuleID i)"
  show ?case
  proof (cases w rule: io_call_cases)
    case 1
    let ?v = "?w1\<lparr>sy_Calls := sy_Calls w @ [(?c, True)]\<rparr>"
    show ?thesis
    proof (cases ?v rule: io_call_cases)
      case a: 1
      have rest: "delete_stale items errs (?v\<lparr>io_step := Suc (io_step ?v)\<rparr>) = (r, w')" using Cons.prems 1 a by simp
      obtain new n where n: "w' = (?v\<lparr>io_step := Suc (io_step ?v)\<rparr>)\<lparr>io_step := n, sy_Calls := sy_Calls (?v\<lparr>io_step := Suc (io_step ?v)\<rparr>) @ new\<rparr>" "prefix (map fst new) (map (\<lambda>i. Edge_delete (cn_RuleID i)) items)"
          "\<forall>es. r = Inr es \<longrightarrow> map fst new = map (\<lambda>i. Edge_delete (cn_RuleID i)) items \<and> (es = [] \<longrightarrow> errs = [] \<and> (\<forall>c \<in> set new. snd c))"
        using Cons.IH [OF rest] by (elim exE conjE) (rule that)
      then show ?thesis by (intro exI [of _ "(?c, True) # new"] exI [of _ n]) simp
    next
      case b: (2 e)
      then have "r = Inl e" "w' = ?v\<lparr>io_step := Suc (io_step ?v)\<rparr>" using Cons.prems 1 by simp_all
      then show ?thesis by (intro exI [of _ "[(?c, True)]"] exI [of _ "Suc (Suc (io_step w))"]) simp
    qed
  next
    case (2 e)
    let ?v = "?w1\<lparr>sy_Calls := sy_Calls w @ [(?c, False)]\<rparr>" and ?errs = "errs @ [''delete '' @ cn_IP i @ '': '' @ Error e]"
    have rest: "delete_stale items ?errs ?v = (r, w')" using Cons.prems 2(1) by simp
    obtain new n where n: "w' = ?v\<lparr>io_step := n, sy_Calls := sy_Calls ?v @ new\<rparr>" "prefix (map fst new) (map (\<lambda>i. Edge_delete (cn_RuleID i)) items)"
        "\<forall>es. r = Inr es \<longrightarrow> map fst new = map (\<lambda>i. Edge_delete (cn_RuleID i)) items \<and> (es = [] \<longrightarrow> ?errs = [] \<and> (\<forall>c \<in> set new. snd c))"
      using Cons.IH [OF rest] by (elim exE conjE) (rule that)
    then show ?thesis by (intro exI [of _ "(?c, False) # new"] exI [of _ n]) simp
  qed
qed

lemma stale_items:
  assumes "walks order" and "distinct (map fst rules)"
  shows "\<exists>dels. cp_stale (buildCleanupPlan order bans rules) = map (\<lambda>ip. \<lparr>cn_IP = ip, cn_RuleID = rule_of rules ip, cn_Reason = ''not in active CrowdSec bans''\<rparr>) dels \<and>
    distinct dels \<and> set dels = fst ` set rules - set bans"
proof (intro exI conjI)
  let ?dels = "filter (\<lambda>ip. ip \<notin> set bans) (order (map fst rules))"
  show "cp_stale (buildCleanupPlan order bans rules) = map (\<lambda>ip. \<lparr>cn_IP = ip, cn_RuleID = rule_of rules ip, cn_Reason = ''not in active CrowdSec bans''\<rparr>) ?dels"
    by (simp add: buildCleanupPlan_def Let_def filter_map o_def)
  show "distinct ?dels" "set ?dels = fst ` set rules - set bans" using walksD [OF assms] by auto
qed

text \<open>
  The removal of stale rules and the synchronisation agree. A run over the answered lists asks for the deletion of exactly the listed rules whose address has no ban at CrowdSec, each once, or for a
  beginning of them when it is cancelled; it succeeds only if every deletion did; a dry run asks for nothing. No address that a synchronisation with the same list of bans wants is among them,
  whatever its shield and its allowlist.
\<close>

theorem cleanup_deletes_stale:
  assumes "ka_cs k (io_step w) = Inr bans" and "ka_cf k (Suc (io_step w)) = Inr rules" and "distinct (map fst rules)" and "walks (ka_order k)" and "CleanupApp_Run k w = (r, w')"
  shows "\<exists>new dels. sy_Calls w' = sy_Calls w @ new \<and> distinct dels \<and> set dels = fst ` set rules - set (cleanup_bans bans) \<and> (ka_dryRun k \<longrightarrow> new = []) \<and>
    prefix (map fst new) (map (\<lambda>ip. Edge_delete (rule_of rules ip)) dels) \<and> wanted a al bans \<inter> set dels = {} \<and>
    (r = Inr () \<and> \<not> ka_dryRun k \<longrightarrow> new = map (\<lambda>ip. (Edge_delete (rule_of rules ip), True)) dels)"
proof -
  let ?w2 = "w\<lparr>io_step := Suc (Suc (io_step w))\<rparr>"
  obtain dels where d: "cp_stale (buildCleanupPlan (ka_order k) (cleanup_bans bans) rules) = map (\<lambda>ip. \<lparr>cn_IP = ip, cn_RuleID = rule_of rules ip, cn_Reason = ''not in active CrowdSec bans''\<rparr>) dels"
      "distinct dels" "set dels = fst ` set rules - set (cleanup_bans bans)"
    using stale_items [OF assms(4,3), of "cleanup_bans bans"] by (elim exE conjE) (rule that)
  have keep: "wanted a al bans \<inter> set dels = {}"
  proof -
    have "s \<in> set (cleanup_bans bans)" if s: "s \<in> wanted a al bans" for s
    proof -
      obtain p ip where "s = IP_String p" "ip \<in> set bans" "ParseIP ip = Some p" using s unfolding wanted_def by blast
      then show ?thesis by (force simp: cleanup_bans_def)
    qed
    then show ?thesis using d(3) by auto
  qed
  show ?thesis
  proof (cases "ka_dryRun k")
    case True
    then have "sy_Calls w' = sy_Calls w" using assms(1,2,5) by (auto simp: CleanupApp_Run_def)
    then show ?thesis using True d keep by (intro exI [of _ "[]"] exI [of _ dels]) simp
  next
    case False
    obtain q v where q: "delete_stale (cp_stale (buildCleanupPlan (ka_order k) (cleanup_bans bans) rules)) [] ?w2 = (q, v)" by fastforce
    obtain new n where n: "v = ?w2\<lparr>io_step := n, sy_Calls := sy_Calls ?w2 @ new\<rparr>" "prefix (map fst new) (map (\<lambda>ip. Edge_delete (rule_of rules ip)) dels)"
        "\<forall>es. q = Inr es \<longrightarrow> map fst new = map (\<lambda>ip. Edge_delete (rule_of rules ip)) dels \<and> (es = [] \<longrightarrow> (\<forall>c \<in> set new. snd c))"
      using delete_stale_calls [OF q] unfolding d(1) by (elim exE conjE) (rule that; simp add: o_def)
    have run: "CleanupApp_Run k w = and_then ''app.CleanupApp.Run'' (q, v) (\<lambda>errs w3. (if errs = [] then Inr () else Inl (wrap_err ''app.CleanupApp.Run'' (Plain (join_lines errs))), w3))"
      using assms(1,2) False q by (simp add: CleanupApp_Run_def Let_def)
    have w': "w' = v" using run assms(5) by (cases q) (simp_all split: if_splits)
    have "new = map (\<lambda>ip. (Edge_delete (rule_of rules ip), True)) dels" if "r = Inr ()"
    proof -
      have "q = Inr []" using run assms(5) that by (cases q) (simp_all split: if_splits)
      then have m: "map fst new = map (\<lambda>ip. Edge_delete (rule_of rules ip)) dels" "\<forall>c \<in> set new. snd c" using n(3) by simp_all
      have "new = map (\<lambda>c. (fst c, True)) new" using m(2) by (intro nth_equalityI) (auto simp: prod_eq_iff)
      also have "\<dots> = map (\<lambda>x. (x, True)) (map fst new)" by simp
      finally show ?thesis unfolding m(1) by (simp add: o_def)
    qed
    then show ?thesis using False d(2,3) keep n(1,2) w' by (intro exI [of _ new] exI [of _ dels]) simp
  qed
qed

definition sample_cleanup :: cleanup_app where
  "sample_cleanup = \<lparr>ka_cs = (\<lambda>_. Inr [''203.0.113.7'']), ka_cf = (\<lambda>_. Inr [(''203.0.113.9'', ''rule-9''), (''203.0.113.7'', ''rule-7'')]), ka_dryRun = False, ka_order = (\<lambda>xs. xs)\<rparr>"

theorem cleanup_deletes_stale_witness:
  "\<exists>dels. set dels = {''203.0.113.9''} \<and> prefix (map fst (sy_Calls (snd (CleanupApp_Run sample_cleanup fresh_sync)))) (map (\<lambda>ip. Edge_delete (rule_of [(''203.0.113.9'', ''rule-9''), (''203.0.113.7'', ''rule-7'')] ip)) dels)"
proof -
  let ?rules = "[(''203.0.113.9'', ''rule-9''), (''203.0.113.7'', ''rule-7'')]"
  obtain r w' where run: "CleanupApp_Run sample_cleanup fresh_sync = (r, w')" by fastforce
  have hyps: "ka_cs sample_cleanup (io_step fresh_sync) = Inr [''203.0.113.7'']" "ka_cf sample_cleanup (Suc (io_step fresh_sync)) = Inr ?rules" "distinct (map fst ?rules)" "walks (ka_order sample_cleanup)"
    by (simp_all add: sample_cleanup_def walks_def)
  obtain new dels where n: "sy_Calls w' = sy_Calls fresh_sync @ new" "set dels = fst ` set ?rules - set (cleanup_bans [''203.0.113.7''])"
      "prefix (map fst new) (map (\<lambda>ip. Edge_delete (rule_of ?rules ip)) dels)"
    using cleanup_deletes_stale [OF hyps run, of sample_sync None] by (elim exE conjE) (rule that)
  have "cleanup_bans [''203.0.113.7''] = [''203.0.113.7'']" using sample_protected(4) by (auto simp: cleanup_bans_def)
  then have "set dels = {''203.0.113.9''}" using n(2) by auto
  then show ?thesis using n(1,3) run by (intro exI [of _ dels]) (simp add: fresh_sync_def)
qed

end
