(* ===== verification/Trusted_Networks.thy ===== *)
theory Trusted_Networks
  imports Sqlite_Db "HOL-Library.AList" "HOL-Library.Product_Lexorder"
begin

text \<open>
  \<open>internal/trustednetworks\<close>: the registry of networks that must never be banned, its store in \<open>internal/storage/sqlite/trusted_networks.go\<close>, the pass that pushes it to the allowlist of
  CrowdSec and to the whitelist rules of Cloudflare, and the helper of \<open>internal/app\<close> that runs the pass for CrowdSec and stores its outcome (\<open>crowdsec_allowlist_status.go\<close>). What the two
  services list is a parameter, a function of the number of the call; what was asked of them is recorded with its outcome. The logs are left out.
\<close>

section \<open>The store\<close>

record trusted_entry =
  te_Value :: string
  te_Label :: string
  te_Source :: string
  te_Comment :: string
  te_CreatedAt :: go_time
  te_UpdatedAt :: go_time

record crowdsec_status =
  cz_AllowlistName :: string
  cz_Configured :: bool
  cz_AuthOK :: bool
  cz_LastSyncAt :: go_time
  cz_LastError :: string
  cz_DesiredCount :: nat
  cz_CurrentCount :: nat
  cz_DriftCount :: nat
  cz_Mode :: string

record spoke_result =
  ss_Enabled :: bool
  ss_Pushed :: "string list"
  ss_AlreadySynced :: "string list"
  ss_Drift :: "string list"
  ss_Errors :: "string list"

record sync_report =
  tr_Mode :: string
  tr_RegistryCount :: nat
  tr_CrowdSec :: spoke_result
  tr_Cloudflare :: spoke_result

datatype spoke_call = Allow_push string string | Rule_push string string string

record trusted_env = db_env +
  tn_Rows :: "(int \<times> trusted_entry) list"
  tn_NextID :: int
  tn_Status :: "(string \<times> crowdsec_status) list"
  tn_Calls :: "(spoke_call \<times> bool) list"
  tn_Audits :: "(string \<times> string \<times> string \<times> string) list"
  tn_Cache :: "sync_report option"

definition trusted_List :: "'z trusted_env_scheme \<Rightarrow> trusted_entry list result \<times> 'z trusted_env_scheme" where
  "trusted_List w = and_then ''storage.sqlite.TrustedNetworksStore.List'' (io_call w) (\<lambda>_ w1. (Inr (map snd (sort_key (\<lambda>r. (te_CreatedAt (snd r), fst r)) (tn_Rows w1))), w1))"

definition trusted_Get :: "string \<Rightarrow> 'z trusted_env_scheme \<Rightarrow> trusted_entry option result \<times> 'z trusted_env_scheme" where
  "trusted_Get value w = and_then ''storage.sqlite.TrustedNetworksStore.Get'' (io_call w) (\<lambda>_ w1. (Inr (map_option snd (find (\<lambda>r. te_Value (snd r) = value) (tn_Rows w1))), w1))"

text \<open>\<open>CURRENT_TIMESTAMP\<close> has whole seconds. A row that is there keeps its identifier and its time of creation.\<close>

definition upsert_row :: "trusted_entry \<Rightarrow> go_time \<Rightarrow> 'z trusted_env_scheme \<Rightarrow> 'z trusted_env_scheme" where
  "upsert_row e now w =
     (if \<exists>r \<in> set (tn_Rows w). te_Value (snd r) = te_Value e
      then w\<lparr>tn_Rows := map (\<lambda>(i, old). (i, if te_Value old = te_Value e then old\<lparr>te_Label := te_Label e, te_Source := te_Source e, te_Comment := te_Comment e, te_UpdatedAt := now\<rparr> else old)) (tn_Rows w)\<rparr>
      else w\<lparr>tn_Rows := tn_Rows w @ [(tn_NextID w, e\<lparr>te_CreatedAt := now, te_UpdatedAt := now\<rparr>)], tn_NextID := tn_NextID w + 1\<rparr>)"

definition trusted_Upsert :: "trusted_entry \<Rightarrow> 'z trusted_env_scheme \<Rightarrow> unit result \<times> 'z trusted_env_scheme" where
  "trusted_Upsert e w =
     (let op = ''storage.sqlite.TrustedNetworksStore.Upsert'' in
      writable op w (\<lambda>w0. and_then op (io_call w0) (\<lambda>_ w1. let (now, w2) = time_Now w1 in (Inr (), upsert_row e (now - now mod Second) w2))))"

definition trusted_Remove :: "string \<Rightarrow> 'z trusted_env_scheme \<Rightarrow> unit result \<times> 'z trusted_env_scheme" where
  "trusted_Remove value w =
     (let op = ''storage.sqlite.TrustedNetworksStore.Remove'' in
      writable op w (\<lambda>w0. and_then op (io_call w0) (\<lambda>_ w1. (Inr (), w1\<lparr>tn_Rows := filter (\<lambda>r. te_Value (snd r) \<noteq> value) (tn_Rows w1)\<rparr>))))"

definition GetCrowdSecAllowlistStatus :: "string \<Rightarrow> 'z trusted_env_scheme \<Rightarrow> crowdsec_status option result \<times> 'z trusted_env_scheme" where
  "GetCrowdSecAllowlistStatus name w = and_then ''storage.sqlite.CrowdSecAllowlistStatusStore.GetCrowdSecAllowlistStatus'' (io_call w) (\<lambda>_ w1. (Inr (map_of (tn_Status w1) name), w1))"

definition PutCrowdSecAllowlistStatus :: "crowdsec_status \<Rightarrow> 'z trusted_env_scheme \<Rightarrow> unit result \<times> 'z trusted_env_scheme" where
  "PutCrowdSecAllowlistStatus st w =
     (let op = ''storage.sqlite.CrowdSecAllowlistStatusStore.PutCrowdSecAllowlistStatus'' in
      writable op w (\<lambda>w0. and_then op (io_call w0) (\<lambda>_ w1. (Inr (), w1\<lparr>tn_Status := AList.update (cz_AllowlistName st) st (tn_Status w1)\<rparr>))))"

section \<open>The registry\<close>

definition NotePrefix :: string where "NotePrefix = ''cf-sync:trusted:''"

text \<open>The entries that CrowdSec lists have a value and a comment, the rules of Cloudflare a value and notes. The last field is the order in which a map is walked through.\<close>

record trusted_registry =
  rg_Store :: bool
  rg_CrowdSec :: "(nat \<Rightarrow> (string \<times> string) list result) option"
  rg_CrowdSecAllowlistName :: string
  rg_Cloudflare :: "(nat \<Rightarrow> (string \<times> string) list result) option"
  rg_CloudflareZoneID :: string
  rg_Mode :: string
  rg_Audit :: bool
  rg_Cache :: bool
  rg_order :: "string list \<Rightarrow> string list"

definition trusted_EffectiveMode :: "trusted_registry \<Rightarrow> string" where
  "trusted_EffectiveMode r = (if rg_Mode r = ''enforce'' then ''enforce'' else ''shadow'')"

definition tagComment :: "trusted_entry \<Rightarrow> string" where
  "tagComment e = NotePrefix @ (if te_Label e = [] then te_Value e else te_Label e)"

definition ownedComments :: "(string \<times> string) list \<Rightarrow> (string \<times> string) list" where
  "ownedComments remote = fold (\<lambda>(v, comment) owned. AList.update v comment owned) (filter (\<lambda>e. HasPrefix (snd e) NotePrefix) remote) []"

definition trusted_audit :: "trusted_registry \<Rightarrow> string \<Rightarrow> string \<Rightarrow> string \<Rightarrow> string \<Rightarrow> 'z trusted_env_scheme \<Rightarrow> 'z trusted_env_scheme" where
  "trusted_audit reg action tgt v detail w =
     (if \<not> rg_Audit reg then w
      else case io_call w of (Inl _, w1) \<Rightarrow> w1 | (Inr _, w1) \<Rightarrow> w1\<lparr>tn_Audits := tn_Audits w1 @ [(action, tgt, v, detail)]\<rparr>)"

text \<open>A call of a service, and the loop over the entries that both services share.\<close>

definition spoke_push :: "spoke_call \<Rightarrow> 'z trusted_env_scheme \<Rightarrow> unit result \<times> 'z trusted_env_scheme" where
  "spoke_push c w = (let (r, w1) = io_call w in (r, w1\<lparr>tn_Calls := tn_Calls w1 @ [(c, r = Inr ())]\<rparr>))"

fun push_missing :: "trusted_registry \<Rightarrow> (trusted_entry \<Rightarrow> spoke_call) \<Rightarrow> string \<Rightarrow> string \<Rightarrow> string list \<Rightarrow> trusted_entry list \<Rightarrow> spoke_result \<Rightarrow> 'z trusted_env_scheme \<Rightarrow> spoke_result \<times> 'z trusted_env_scheme" where
  "push_missing reg call action tgt remote [] res w = (res, w)"
| "push_missing reg call action tgt remote (e # es) res w =
     (if te_Value e \<in> set remote then push_missing reg call action tgt remote es (res\<lparr>ss_AlreadySynced := ss_AlreadySynced res @ [te_Value e]\<rparr>) w
      else if trusted_EffectiveMode reg \<noteq> ''enforce'' then push_missing reg call action tgt remote es res w
      else case spoke_push (call e) w of
          (Inl err, w1) \<Rightarrow> push_missing reg call action tgt remote es (res\<lparr>ss_Errors := ss_Errors res @ [te_Value e @ '': '' @ Error err]\<rparr>) w1
        | (Inr _, w1) \<Rightarrow> push_missing reg call action tgt remote es (res\<lparr>ss_Pushed := ss_Pushed res @ [te_Value e]\<rparr>) (trusted_audit reg action tgt (te_Value e) (tagComment e) w1))"

fun report_drift :: "trusted_registry \<Rightarrow> string \<Rightarrow> string \<Rightarrow> string list \<Rightarrow> (string \<times> string) list \<Rightarrow> spoke_result \<Rightarrow> 'z trusted_env_scheme \<Rightarrow> spoke_result \<times> 'z trusted_env_scheme" where
  "report_drift reg action tgt registry [] res w = (res, w)"
| "report_drift reg action tgt registry ((v, detail) # rs) res w =
     (if v \<in> set registry then report_drift reg action tgt registry rs res w
      else report_drift reg action tgt registry rs (res\<lparr>ss_Drift := ss_Drift res @ [v]\<rparr>) (trusted_audit reg action tgt v detail w))"

definition no_spoke :: spoke_result where
  "no_spoke = \<lparr>ss_Enabled = False, ss_Pushed = [], ss_AlreadySynced = [], ss_Drift = [], ss_Errors = []\<rparr>"

definition allow_call :: "trusted_entry \<Rightarrow> spoke_call" where
  "allow_call e = Allow_push (te_Value e) (tagComment e)"

definition rule_call :: "trusted_entry \<Rightarrow> spoke_call" where
  "rule_call e = Rule_push (te_Value e) (tagComment e) (if Contains (te_Value e) ''/'' then ''ip_range'' else ''ip'')"

definition syncCrowdSec :: "trusted_registry \<Rightarrow> (nat \<Rightarrow> (string \<times> string) list result) \<Rightarrow> trusted_entry list \<Rightarrow> 'z trusted_env_scheme \<Rightarrow> spoke_result \<times> 'z trusted_env_scheme" where
  "syncCrowdSec reg listing entries w =
     (let res = no_spoke\<lparr>ss_Enabled := True\<rparr>; w1 = w\<lparr>io_step := Suc (io_step w)\<rparr>; tgt = rg_CrowdSecAllowlistName reg in
      case listing (io_step w) of
        Inl e \<Rightarrow> (res\<lparr>ss_Errors := [Error e]\<rparr>, w1)
      | Inr remote \<Rightarrow>
          let (res1, w2) = push_missing reg allow_call ''crowdsec_push'' tgt (map fst remote) entries res w1; owned = ownedComments remote
          in report_drift reg ''crowdsec_drift_detected'' tgt (map te_Value entries) (map (\<lambda>v. (v, the (map_of owned v))) (rg_order reg (map fst owned))) res1 w2)"

definition trusted_syncCloudflare :: "trusted_registry \<Rightarrow> (nat \<Rightarrow> (string \<times> string) list result) \<Rightarrow> trusted_entry list \<Rightarrow> 'z trusted_env_scheme \<Rightarrow> spoke_result \<times> 'z trusted_env_scheme" where
  "trusted_syncCloudflare reg listing entries w =
     (let res = no_spoke\<lparr>ss_Enabled := True\<rparr>; w1 = w\<lparr>io_step := Suc (io_step w)\<rparr>; tgt = rg_CloudflareZoneID reg in
      case listing (io_step w) of
        Inl e \<Rightarrow> (res\<lparr>ss_Errors := [Error e]\<rparr>, w1)
      | Inr remote \<Rightarrow>
          let (res1, w2) = push_missing reg rule_call ''cloudflare_push'' tgt (map fst remote) entries res w1
          in report_drift reg ''cloudflare_drift_detected'' tgt (map te_Value entries) remote res1 w2)"

text \<open>A pass returns its report also when it fails.\<close>

definition trusted_Sync :: "trusted_registry \<Rightarrow> 'z trusted_env_scheme \<Rightarrow> (sync_report \<times> error option) \<times> 'z trusted_env_scheme" where
  "trusted_Sync reg w =
     (let report = \<lparr>tr_Mode = trusted_EffectiveMode reg, tr_RegistryCount = 0, tr_CrowdSec = no_spoke, tr_Cloudflare = no_spoke\<rparr> in
      if \<not> rg_Store reg then ((report, Some (Plain ''trustednetworks.Registry.Sync: no Store configured'')), w)
      else case trusted_List w of
          (Inl e, w1) \<Rightarrow> ((report, Some (Errorf (''trustednetworks.Registry.Sync: list registry: '' @ Error e) e)), w1)
        | (Inr entries, w1) \<Rightarrow>
            let (cs, w2) = (case rg_CrowdSec reg of Some f \<Rightarrow> if rg_CrowdSecAllowlistName reg \<noteq> [] then syncCrowdSec reg f entries w1 else (no_spoke, w1) | None \<Rightarrow> (no_spoke, w1));
                (cf, w3) = (case rg_Cloudflare reg of Some f \<Rightarrow> if rg_CloudflareZoneID reg \<noteq> [] then trusted_syncCloudflare reg f entries w2 else (no_spoke, w2) | None \<Rightarrow> (no_spoke, w2));
                report1 = report\<lparr>tr_RegistryCount := length entries, tr_CrowdSec := cs, tr_Cloudflare := cf\<rparr>
            in ((report1, None), if rg_Cache reg then w3\<lparr>tn_Cache := Some report1\<rparr> else w3))"

section \<open>The helper for CrowdSec\<close>

definition crowdSecStatusFromReport :: "string \<Rightarrow> sync_report \<Rightarrow> 'z io_env_scheme \<Rightarrow> crowdsec_status \<times> 'z io_env_scheme" where
  "crowdSecStatusFromReport name report w =
     (let res = tr_CrowdSec report; (now, w1) = time_Now w in
      (\<lparr>cz_AllowlistName = name, cz_Configured = True, cz_AuthOK = (ss_Enabled res \<and> ss_Errors res = []), cz_LastSyncAt = now, cz_LastError = [], cz_DesiredCount = tr_RegistryCount report,
        cz_CurrentCount = length (ss_AlreadySynced res) + length (ss_Pushed res), cz_DriftCount = length (ss_Drift res), cz_Mode = tr_Mode report\<rparr>, w1))"

definition AllowlistSyncApp_Run :: "trusted_registry option \<Rightarrow> bool \<Rightarrow> 'z trusted_env_scheme \<Rightarrow> unit result \<times> 'z trusted_env_scheme" where
  "AllowlistSyncApp_Run app statusStore w =
     (case app of
        None \<Rightarrow> (Inr (), w)
      | Some reg \<Rightarrow>
          let name = rg_CrowdSecAllowlistName reg in
          if name = [] then (Inr (), w)
          else let ((report, failed), w1) = trusted_Sync reg w; (st, w2) = crowdSecStatusFromReport name report w1;
                   syncErr = (case failed of Some e \<Rightarrow> Some e
                     | None \<Rightarrow> (case ss_Errors (tr_CrowdSec report) of [] \<Rightarrow> None | msg # _ \<Rightarrow> Some (Plain (''crowdsec spoke: '' @ msg))));
                   st1 = st\<lparr>cz_LastError := (case failed of Some e \<Rightarrow> Error e | None \<Rightarrow> (case ss_Errors (tr_CrowdSec report) of [] \<Rightarrow> [] | msg # _ \<Rightarrow> msg))\<rparr>;
                   (stored, w3) = (if statusStore then PutCrowdSecAllowlistStatus st1 w2 else (Inr (), w2));
                   err = (case syncErr of Some e \<Rightarrow> Some e | None \<Rightarrow> (case stored of Inl e \<Rightarrow> Some e | Inr _ \<Rightarrow> None))
               in (case err of Some e \<Rightarrow> Inl (AppErr ''app.AllowlistSyncApp.Run'' (''sync '' @ name) (Some e)) | None \<Rightarrow> Inr (), w3))"

section \<open>What the store keeps\<close>

text \<open>The column with the network is unique, and so are the identifiers.\<close>

definition trusted_ok :: "'z trusted_env_scheme \<Rightarrow> bool" where
  "trusted_ok w \<longleftrightarrow> distinct (map (te_Value \<circ> snd) (tn_Rows w)) \<and> distinct (map fst (tn_Rows w)) \<and> (\<forall>r \<in> set (tn_Rows w). fst r < tn_NextID w)"

lemma upsert_row_ok: "trusted_ok w \<Longrightarrow> trusted_ok (upsert_row e now w)"
proof (cases "\<exists>r \<in> set (tn_Rows w). te_Value (snd r) = te_Value e")
  case True
  let ?f = "\<lambda>(i, old). (i, if te_Value old = te_Value e then old\<lparr>te_Label := te_Label e, te_Source := te_Source e, te_Comment := te_Comment e, te_UpdatedAt := now\<rparr> else old)"
  have f: "te_Value (snd (?f r)) = te_Value (snd r)" "fst (?f r) = fst r" for r by (cases r; simp)+
  assume "trusted_ok w"
  then show ?thesis using True unfolding trusted_ok_def upsert_row_def by (simp add: o_def f)
qed (auto simp: trusted_ok_def upsert_row_def)

lemma trusted_fields [simp]:
  fixes w :: "'z trusted_env_scheme"
  shows "trusted_ok (w\<lparr>io_step := n\<rparr>) = trusted_ok w"
  by (simp add: trusted_ok_def)

lemma find_upserted:
  assumes "te_Value e = v"
  shows "\<exists>i old. find (\<lambda>r. te_Value (snd r) = v) (tn_Rows (upsert_row e now w)) = Some (i, old) \<and> te_Value old = v \<and> te_Label old = te_Label e \<and> te_Source old = te_Source e \<and> te_Comment old = te_Comment e \<and> te_UpdatedAt old = now"
proof (cases "\<exists>r \<in> set (tn_Rows w). te_Value (snd r) = te_Value e")
  case True
  let ?f = "\<lambda>(i, old). (i, if te_Value old = te_Value e then old\<lparr>te_Label := te_Label e, te_Source := te_Source e, te_Comment := te_Comment e, te_UpdatedAt := now\<rparr> else old)"
  have rows: "tn_Rows (upsert_row e now w) = map ?f (tn_Rows w)" using True by (simp add: upsert_row_def)
  obtain i old where first: "find (\<lambda>r. te_Value (snd r) = v) (tn_Rows w) = Some (i, old)" using True assms
    by (cases "find (\<lambda>r. te_Value (snd r) = v) (tn_Rows w)") (auto simp: find_None_iff)
  have found: "find (\<lambda>r. te_Value (snd r) = v) (map ?f rs) = map_option ?f (find (\<lambda>r. te_Value (snd r) = v) rs)" for rs by (induction rs) (auto split: prod.split)
  have "find (\<lambda>r. te_Value (snd r) = v) (tn_Rows (upsert_row e now w)) = Some (?f (i, old))" unfolding rows by (simp only: found first option.map)
  moreover have "te_Value old = v" using first unfolding find_Some_iff by (metis snd_conv)
  ultimately show ?thesis using assms by simp
next
  case False
  have "find P (xs @ [y]) = Some y" if "\<forall>x \<in> set xs. \<not> P x" "P y" for P y and xs :: "(int \<times> trusted_entry) list" using that by (induction xs) auto
  then show ?thesis using False assms by (auto simp: upsert_row_def)
qed

section \<open>What is pushed\<close>

lemma audit_keeps: "\<exists>n as. trusted_audit reg action tgt v d w = w\<lparr>io_step := n, tn_Audits := as\<rparr>"
proof (cases "rg_Audit reg")
  case True
  then show ?thesis
  proof (cases w rule: io_call_cases)
    case 1
    then show ?thesis using True by (auto simp: trusted_audit_def)
  next
    case (2 e)
    then show ?thesis using True by (intro exI [of _ "Suc (io_step w)"] exI [of _ "tn_Audits w"]) (simp add: trusted_audit_def)
  qed
next
  case False
  then have "trusted_audit reg action tgt v d w = w\<lparr>io_step := io_step w, tn_Audits := tn_Audits w\<rparr>" by (simp add: trusted_audit_def)
  then show ?thesis by blast
qed

definition pushes :: "trusted_registry \<Rightarrow> (trusted_entry \<Rightarrow> spoke_call) \<Rightarrow> string list \<Rightarrow> trusted_entry list \<Rightarrow> spoke_call list" where
  "pushes reg call remote es = (if rg_Mode reg = ''enforce'' then map call (filter (\<lambda>e. te_Value e \<notin> set remote) es) else [])"

lemma pushes_Cons: "pushes reg call remote (e # es) = (if te_Value e \<in> set remote \<or> rg_Mode reg \<noteq> ''enforce'' then [] else [call e]) @ pushes reg call remote es"
  by (simp add: pushes_def)

lemma mode_enforce: "trusted_EffectiveMode reg = ''enforce'' \<longleftrightarrow> rg_Mode reg = ''enforce''"
  by (simp add: trusted_EffectiveMode_def)

lemma push_missing_calls:
  assumes "push_missing reg call action tgt remote es res w = (res', w')"
  shows "\<exists>new n as. w' = w\<lparr>io_step := n, tn_Calls := tn_Calls w @ new, tn_Audits := as\<rparr> \<and> map fst new = pushes reg call remote es \<and> (no_faults w \<longrightarrow> (\<forall>c \<in> set new. snd c))"
  using assms
proof (induction es arbitrary: res w)
  case Nil
  then show ?case by (intro exI [of _ "[]"] exI [of _ "io_step w"] exI [of _ "tn_Audits w"]) (simp add: pushes_def)
next
  case (Cons e es)
  show ?case
  proof (cases "te_Value e \<in> set remote \<or> rg_Mode reg \<noteq> ''enforce''")
    case True
    then obtain res1 where "push_missing reg call action tgt remote es res1 w = (res', w')" using Cons.prems by (auto simp: mode_enforce split: if_splits)
    from Cons.IH [OF this] show ?thesis using True by (simp add: pushes_Cons)
  next
    case False
    let ?w1 = "w\<lparr>io_step := Suc (io_step w)\<rparr>"
    have push: "pushes reg call remote (e # es) = call e # pushes reg call remote es" using False by (simp add: pushes_Cons)
    show ?thesis
    proof (cases w rule: io_call_cases)
      case 1
      let ?v = "?w1\<lparr>tn_Calls := tn_Calls w @ [(call e, True)]\<rparr>"
      have sp: "spoke_push (call e) w = (Inr (), ?v)" using 1 by (simp add: spoke_push_def)
      obtain n as where a: "trusted_audit reg action tgt (te_Value e) (tagComment e) ?v = ?v\<lparr>io_step := n, tn_Audits := as\<rparr>" using audit_keeps by blast
      obtain res1 where rest: "push_missing reg call action tgt remote es res1 (?v\<lparr>io_step := n, tn_Audits := as\<rparr>) = (res', w')" using Cons.prems False sp a by (simp add: mode_enforce)
      obtain new m bs where n: "w' = (?v\<lparr>io_step := n, tn_Audits := as\<rparr>)\<lparr>io_step := m, tn_Calls := tn_Calls (?v\<lparr>io_step := n, tn_Audits := as\<rparr>) @ new, tn_Audits := bs\<rparr>"
          "map fst new = pushes reg call remote es" "no_faults (?v\<lparr>io_step := n, tn_Audits := as\<rparr>) \<longrightarrow> (\<forall>c \<in> set new. snd c)"
        using Cons.IH [OF rest] by (elim exE conjE) (rule that)
      have "w' = w\<lparr>io_step := m, tn_Calls := tn_Calls w @ (call e, True) # new, tn_Audits := bs\<rparr>" using n(1) by simp
      then show ?thesis using n(2,3) push by (intro exI [of _ "(call e, True) # new"] exI [of _ m] exI [of _ bs]) (simp add: no_faults_def)
    next
      case (2 err)
      let ?v = "?w1\<lparr>tn_Calls := tn_Calls w @ [(call e, False)]\<rparr>"
      have sp: "spoke_push (call e) w = (Inl err, ?v)" using 2 by (simp add: spoke_push_def)
      obtain res1 where rest: "push_missing reg call action tgt remote es res1 ?v = (res', w')" using Cons.prems False sp by (simp add: mode_enforce)
      obtain new m bs where n: "w' = ?v\<lparr>io_step := m, tn_Calls := tn_Calls ?v @ new, tn_Audits := bs\<rparr>" "map fst new = pushes reg call remote es"
        using Cons.IH [OF rest] by (elim exE conjE) (rule that)
      have "w' = w\<lparr>io_step := m, tn_Calls := tn_Calls w @ (call e, False) # new, tn_Audits := bs\<rparr>" using n(1) by simp
      then show ?thesis using n(2) push 2(2) by (intro exI [of _ "(call e, False) # new"] exI [of _ m] exI [of _ bs]) simp
    qed
  qed
qed

lemma report_drift_keeps: "\<exists>n as. snd (report_drift reg action tgt registry rs res w) = w\<lparr>io_step := n, tn_Audits := as\<rparr>"
proof (induction rs arbitrary: res w)
  case Nil
  have "w = w\<lparr>io_step := io_step w, tn_Audits := tn_Audits w\<rparr>" by simp
  then show ?case by (metis report_drift.simps(1) snd_conv)
next
  case (Cons r rs)
  obtain v d where r: "r = (v, d)" by fastforce
  show ?case
  proof (cases "v \<in> set registry")
    case True
    then show ?thesis using Cons.IH r by simp
  next
    case False
    obtain n as where a: "trusted_audit reg action tgt v d w = w\<lparr>io_step := n, tn_Audits := as\<rparr>" using audit_keeps by blast
    obtain m bs where "snd (report_drift reg action tgt registry rs (res\<lparr>ss_Drift := ss_Drift res @ [v]\<rparr>) (w\<lparr>io_step := n, tn_Audits := as\<rparr>)) = (w\<lparr>io_step := n, tn_Audits := as\<rparr>)\<lparr>io_step := m, tn_Audits := bs\<rparr>"
      using Cons.IH by blast
    then show ?thesis using False r a by auto
  qed
qed

section \<open>The two services\<close>

text \<open>What one service is asked: nothing if it is not configured or its list cannot be fetched, and otherwise the entries that its own list lacks.\<close>

definition spoke_calls :: "trusted_registry \<Rightarrow> (trusted_entry \<Rightarrow> spoke_call) \<Rightarrow> (string \<times> string) list result \<Rightarrow> trusted_entry list \<Rightarrow> spoke_call list" where
  "spoke_calls reg call listed es = (case listed of Inl _ \<Rightarrow> [] | Inr remote \<Rightarrow> pushes reg call (map fst remote) es)"

text \<open>The contract of a service: its pass only adds, and depends on nothing but the registry and its own list.\<close>

locale spoke =
  fixes pass :: "trusted_registry \<Rightarrow> (nat \<Rightarrow> (string \<times> string) list result) \<Rightarrow> trusted_entry list \<Rightarrow> 'z trusted_env_scheme \<Rightarrow> spoke_result \<times> 'z trusted_env_scheme"
    and call :: "trusted_entry \<Rightarrow> spoke_call"
  assumes pass_calls: "pass reg f es w = (res, w') \<Longrightarrow>
    \<exists>new n as. w' = w\<lparr>io_step := n, tn_Calls := tn_Calls w @ new, tn_Audits := as\<rparr> \<and> map fst new = spoke_calls reg call (f (io_step w)) es \<and> (no_faults w \<longrightarrow> (\<forall>c \<in> set new. snd c))"
begin

lemma configured_calls:
  assumes "(case f of Some g \<Rightarrow> if name \<noteq> [] then pass reg g es w else (no_spoke, w) | None \<Rightarrow> (no_spoke, w)) = (res, w')"
  shows "\<exists>new n as. w' = w\<lparr>io_step := n, tn_Calls := tn_Calls w @ new, tn_Audits := as\<rparr> \<and> (no_faults w \<longrightarrow> (\<forall>c \<in> set new. snd c)) \<and>
    map fst new = (case f of Some g \<Rightarrow> if name \<noteq> [] then spoke_calls reg call (g (io_step w)) es else [] | None \<Rightarrow> [])"
proof (cases "\<exists>g. f = Some g \<and> name \<noteq> []")
  case True
  then obtain g where g: "f = Some g" "name \<noteq> []" by blast
  then have "pass reg g es w = (res, w')" using assms by simp
  from pass_calls [OF this] show ?thesis using g by (elim exE conjE) (intro exI conjI, assumption, assumption, simp)
next
  case False
  then have "w' = w\<lparr>io_step := io_step w, tn_Calls := tn_Calls w @ [], tn_Audits := tn_Audits w\<rparr>" using assms by (auto split: option.splits if_splits)
  then show ?thesis using False by (intro exI [of _ "[]"] exI [of _ "io_step w"] exI [of _ "tn_Audits w"]) (auto split: option.split)
qed

end

lemma spoke_pass:
  assumes "listing (io_step w) = Inr remote" and "push_missing reg call action tgt (map fst remote) es res (w\<lparr>io_step := Suc (io_step w)\<rparr>) = (res1, w2)"
    and "report_drift reg action' tgt' registry rs res1 w2 = (res2, w')"
  shows "\<exists>new n as. w' = w\<lparr>io_step := n, tn_Calls := tn_Calls w @ new, tn_Audits := as\<rparr> \<and> map fst new = spoke_calls reg call (listing (io_step w)) es \<and> (no_faults w \<longrightarrow> (\<forall>c \<in> set new. snd c))"
proof -
  let ?w1 = "w\<lparr>io_step := Suc (io_step w)\<rparr>"
  obtain new n as where a: "w2 = ?w1\<lparr>io_step := n, tn_Calls := tn_Calls ?w1 @ new, tn_Audits := as\<rparr>" "map fst new = pushes reg call (map fst remote) es" "no_faults ?w1 \<longrightarrow> (\<forall>c \<in> set new. snd c)"
    using push_missing_calls [OF assms(2)] by (elim exE conjE) (rule that)
  obtain m bs where b: "w' = w2\<lparr>io_step := m, tn_Audits := bs\<rparr>" using report_drift_keeps [of reg action' tgt' registry rs res1 w2] assms(3) by auto
  have "w' = w\<lparr>io_step := m, tn_Calls := tn_Calls w @ new, tn_Audits := bs\<rparr>" using a(1) b by simp
  then show ?thesis using a(2,3) assms(1) by (intro exI [of _ new] exI [of _ m] exI [of _ bs]) (simp add: spoke_calls_def)
qed

lemma failed_listing:
  assumes "listing (io_step w) = Inl e" and "w' = w\<lparr>io_step := Suc (io_step w)\<rparr>"
  shows "\<exists>new n as. w' = w\<lparr>io_step := n, tn_Calls := tn_Calls w @ new, tn_Audits := as\<rparr> \<and> map fst new = spoke_calls reg call (listing (io_step w)) es \<and> (no_faults w \<longrightarrow> (\<forall>c \<in> set new. snd c))"
  using assms by (intro exI [of _ "[]"] exI [of _ "Suc (io_step w)"] exI [of _ "tn_Audits w"]) (simp add: spoke_calls_def)

interpretation crowdsec: spoke syncCrowdSec allow_call
proof unfold_locales
  fix reg f es res and w w' :: "'z trusted_env_scheme"
  assume run: "syncCrowdSec reg f es w = (res, w')"
  show "\<exists>new n as. w' = w\<lparr>io_step := n, tn_Calls := tn_Calls w @ new, tn_Audits := as\<rparr> \<and> map fst new = spoke_calls reg allow_call (f (io_step w)) es \<and> (no_faults w \<longrightarrow> (\<forall>c \<in> set new. snd c))"
  proof (cases "f (io_step w)")
    case (Inl e)
    then show ?thesis using run by (intro failed_listing) (auto simp: syncCrowdSec_def)
  next
    case (Inr remote)
    obtain res1 w2 where p: "push_missing reg allow_call ''crowdsec_push'' (rg_CrowdSecAllowlistName reg) (map fst remote) es (no_spoke\<lparr>ss_Enabled := True\<rparr>) (w\<lparr>io_step := Suc (io_step w)\<rparr>) = (res1, w2)" by fastforce
    have "report_drift reg ''crowdsec_drift_detected'' (rg_CrowdSecAllowlistName reg) (map te_Value es) (map (\<lambda>v. (v, the (map_of (ownedComments remote) v))) (rg_order reg (map fst (ownedComments remote)))) res1 w2 = (res, w')"
      using run Inr p by (simp add: syncCrowdSec_def Let_def)
    then show ?thesis by (rule spoke_pass [where listing = f and w = w, OF Inr p])
  qed
qed

interpretation cloudflare: spoke trusted_syncCloudflare rule_call
proof unfold_locales
  fix reg f es res and w w' :: "'z trusted_env_scheme"
  assume run: "trusted_syncCloudflare reg f es w = (res, w')"
  show "\<exists>new n as. w' = w\<lparr>io_step := n, tn_Calls := tn_Calls w @ new, tn_Audits := as\<rparr> \<and> map fst new = spoke_calls reg rule_call (f (io_step w)) es \<and> (no_faults w \<longrightarrow> (\<forall>c \<in> set new. snd c))"
  proof (cases "f (io_step w)")
    case (Inl e)
    then show ?thesis using run by (intro failed_listing) (auto simp: trusted_syncCloudflare_def)
  next
    case (Inr remote)
    obtain res1 w2 where p: "push_missing reg rule_call ''cloudflare_push'' (rg_CloudflareZoneID reg) (map fst remote) es (no_spoke\<lparr>ss_Enabled := True\<rparr>) (w\<lparr>io_step := Suc (io_step w)\<rparr>) = (res1, w2)" by fastforce
    have "report_drift reg ''cloudflare_drift_detected'' (rg_CloudflareZoneID reg) (map te_Value es) remote res1 w2 = (res, w')" using run Inr p by (simp add: trusted_syncCloudflare_def Let_def)
    then show ?thesis by (rule spoke_pass [where listing = f and w = w, OF Inr p])
  qed
qed

section \<open>The pass\<close>

text \<open>
  C15: trust is only ever added, and each service is driven by the registry alone. Whatever fails, a pass asks each configured service whose list could be fetched for exactly the entries of the registry
  that this very list lacks, once each and in the order of the registry, and only in the mode \<open>enforce\<close>; the answers of one service have no influence on what the other is asked. When the
  registry cannot be loaded, nothing is asked and the cached report stays. The registry itself is not changed. If no call fails, every network of the registry is afterwards on each such list.
\<close>

theorem trusted_sync_additive:
  assumes "trusted_Sync reg w = ((report, err), w')" and "entries = map snd (sort_key (\<lambda>r. (te_CreatedAt (snd r), fst r)) (tn_Rows w))"
  shows "\<exists>new n m. tn_Calls w' = tn_Calls w @ new \<and> tn_Rows w' = tn_Rows w \<and> (err \<noteq> None \<longrightarrow> new = [] \<and> tn_Cache w' = tn_Cache w) \<and> (no_faults w \<longrightarrow> (\<forall>c \<in> set new. snd c)) \<and>
    (err = None \<longrightarrow> map fst new =
       (case rg_CrowdSec reg of Some f \<Rightarrow> if rg_CrowdSecAllowlistName reg \<noteq> [] then spoke_calls reg allow_call (f n) entries else [] | None \<Rightarrow> []) @
       (case rg_Cloudflare reg of Some f \<Rightarrow> if rg_CloudflareZoneID reg \<noteq> [] then spoke_calls reg rule_call (f m) entries else [] | None \<Rightarrow> []))"
proof (cases "rg_Store reg")
  case False
  then show ?thesis using assms(1) by (intro exI [of _ "[]"]) (auto simp: trusted_Sync_def Let_def)
next
  case store: True
  let ?w1 = "w\<lparr>io_step := Suc (io_step w)\<rparr>"
  show ?thesis
  proof (cases w rule: io_call_cases)
    case (2 e)
    then have "trusted_List w = (Inl (wrap_err ''storage.sqlite.TrustedNetworksStore.List'' e), ?w1)" by (simp add: trusted_List_def)
    then show ?thesis using store assms(1) by (intro exI [of _ "[]"]) (auto simp: trusted_Sync_def Let_def)
  next
    case 1
    then have entries: "trusted_List w = (Inr entries, ?w1)" by (simp add: trusted_List_def assms(2))
    obtain cs w2 where a: "(case rg_CrowdSec reg of Some f \<Rightarrow> if rg_CrowdSecAllowlistName reg \<noteq> [] then syncCrowdSec reg f entries ?w1 else (no_spoke, ?w1) | None \<Rightarrow> (no_spoke, ?w1)) = (cs, w2)" by fastforce
    obtain cf w3 where b: "(case rg_Cloudflare reg of Some f \<Rightarrow> if rg_CloudflareZoneID reg \<noteq> [] then trusted_syncCloudflare reg f entries w2 else (no_spoke, w2) | None \<Rightarrow> (no_spoke, w2)) = (cf, w3)" by fastforce
    obtain new1 n1 as1 where n1: "w2 = ?w1\<lparr>io_step := n1, tn_Calls := tn_Calls ?w1 @ new1, tn_Audits := as1\<rparr>" "no_faults ?w1 \<longrightarrow> (\<forall>c \<in> set new1. snd c)"
        "map fst new1 = (case rg_CrowdSec reg of Some g \<Rightarrow> if rg_CrowdSecAllowlistName reg \<noteq> [] then spoke_calls reg allow_call (g (io_step ?w1)) entries else [] | None \<Rightarrow> [])"
      using crowdsec.configured_calls [OF a] by (elim exE conjE) (rule that)
    obtain new2 n2 as2 where n2: "w3 = w2\<lparr>io_step := n2, tn_Calls := tn_Calls w2 @ new2, tn_Audits := as2\<rparr>" "no_faults w2 \<longrightarrow> (\<forall>c \<in> set new2. snd c)"
        "map fst new2 = (case rg_Cloudflare reg of Some g \<Rightarrow> if rg_CloudflareZoneID reg \<noteq> [] then spoke_calls reg rule_call (g (io_step w2)) entries else [] | None \<Rightarrow> [])"
      using cloudflare.configured_calls [OF b] by (elim exE conjE) (rule that)
    have end_: "err = None" "tn_Calls w' = tn_Calls w3" "tn_Rows w' = tn_Rows w3" using assms(1) store entries a b by (auto simp: trusted_Sync_def Let_def)
    have "tn_Calls w' = tn_Calls w @ new1 @ new2" "tn_Rows w' = tn_Rows w" using end_(2,3) n1(1) n2(1) by simp_all
    moreover have "no_faults w \<longrightarrow> (\<forall>c \<in> set (new1 @ new2). snd c)" using n1(1,2) n2(2) by (auto simp: no_faults_def)
    moreover have "map fst (new1 @ new2) = (case rg_CrowdSec reg of Some f \<Rightarrow> if rg_CrowdSecAllowlistName reg \<noteq> [] then spoke_calls reg allow_call (f (io_step ?w1)) entries else [] | None \<Rightarrow> []) @
       (case rg_Cloudflare reg of Some f \<Rightarrow> if rg_CloudflareZoneID reg \<noteq> [] then spoke_calls reg rule_call (f (io_step w2)) entries else [] | None \<Rightarrow> [])" unfolding map_append n1(3) n2(3) ..
    ultimately show ?thesis using end_(1) by (intro exI [of _ "new1 @ new2"] exI [of _ "io_step ?w1"] exI [of _ "io_step w2"]) simp
  qed
qed

text \<open>
  The store of the registry. No operation, whatever fails, breaks that a network has at most one row, and that the identifiers are fresh; and when no call fails, what was put in is read back, and what
  was removed is not.
\<close>

theorem trusted_store_roundtrip:
  "(trusted_ok w \<longrightarrow> trusted_ok (snd (trusted_Upsert e w)) \<and> trusted_ok (snd (trusted_Remove v w))) \<and>
   (no_faults w \<and> \<not> db_ReadOnly w \<longrightarrow>
      (\<exists>old w2. trusted_Get (te_Value e) (snd (trusted_Upsert e w)) = (Inr (Some old), w2) \<and> te_Value old = te_Value e \<and> te_Label old = te_Label e \<and> te_Source old = te_Source e \<and> te_Comment old = te_Comment e) \<and>
      (\<exists>w2. trusted_Get v (snd (trusted_Remove v w)) = (Inr None, w2)))"
proof -
  have ups: "trusted_ok (snd (trusted_Upsert e w))" if "trusted_ok w"
    using that by (cases w rule: io_call_cases; cases "db_ReadOnly w") (simp_all add: trusted_Upsert_def writable_simps time_Now_def upsert_row_ok Let_def)
  have rem: "trusted_ok (snd (trusted_Remove v w))" if "trusted_ok w"
    using that by (cases w rule: io_call_cases; cases "db_ReadOnly w") (simp_all add: trusted_Remove_def writable_simps Let_def trusted_ok_def distinct_map_filter)
  let ?w1 = "w\<lparr>io_step := Suc (io_step w)\<rparr>"
  let ?w2 = "?w1\<lparr>io_step := Suc (io_step ?w1)\<rparr>" and ?now = "io_clock ?w1 (io_step ?w1) - io_clock ?w1 (io_step ?w1) mod Second"
  have "\<exists>old w2. trusted_Get (te_Value e) (snd (trusted_Upsert e w)) = (Inr (Some old), w2) \<and> te_Value old = te_Value e \<and> te_Label old = te_Label e \<and> te_Source old = te_Source e \<and> te_Comment old = te_Comment e"
    if "no_faults w" "\<not> db_ReadOnly w"
  proof -
    define u where "u = upsert_row e ?now ?w2"
    have run: "snd (trusted_Upsert e w) = u" using that by (simp add: u_def trusted_Upsert_def writable_simps io_call_ok time_Now_def)
    have nf: "no_faults u" using that(1) by (simp add: u_def upsert_row_def no_faults_def)
    obtain i old where f: "find (\<lambda>r. te_Value (snd r) = te_Value e) (tn_Rows u) = Some (i, old)" "te_Value old = te_Value e" "te_Label old = te_Label e" "te_Source old = te_Source e"
        "te_Comment old = te_Comment e"
      using find_upserted [OF refl, of e ?now ?w2, folded u_def] by (elim exE conjE) (rule that)
    then show ?thesis unfolding run by (simp add: trusted_Get_def io_call_ok [OF nf])
  qed
  moreover have "\<exists>w2. trusted_Get v (snd (trusted_Remove v w)) = (Inr None, w2)" if "no_faults w" "\<not> db_ReadOnly w"
  proof -
    have run: "snd (trusted_Remove v w) = ?w1\<lparr>tn_Rows := filter (\<lambda>r. te_Value (snd r) \<noteq> v) (tn_Rows w)\<rparr>" using that by (simp add: trusted_Remove_def writable_simps io_call_ok)
    have nf: "no_faults (?w1\<lparr>tn_Rows := filter (\<lambda>r. te_Value (snd r) \<noteq> v) (tn_Rows w)\<rparr>)" using that(1) by (simp add: no_faults_def)
    have "find (\<lambda>r. te_Value (snd r) = v) (filter (\<lambda>r. te_Value (snd r) \<noteq> v) (tn_Rows w)) = None" by (simp add: find_None_iff)
    then show ?thesis unfolding run by (simp add: trusted_Get_def io_call_ok [OF nf])
  qed
  ultimately show ?thesis using ups rem by blast
qed

definition office :: trusted_entry where
  "office = \<lparr>te_Value = ''198.51.100.0/24'', te_Label = ''office'', te_Source = ''manual_ui'', te_Comment = [], te_CreatedAt = 0, te_UpdatedAt = 0\<rparr>"

definition sample_trusted :: trusted_env where
  "sample_trusted = \<lparr>io_clock = (\<lambda>_. 10), io_fault = (\<lambda>_. None), io_choice = (\<lambda>_. False), io_step = 0, fs_files = [], db_ReadOnly = False, db_Events = [], db_NextEventID = 1, db_Sequences = [],
     db_Checkpoints = [], db_Leases = [], tn_Rows = [(1, office)], tn_NextID = 2, tn_Status = [], tn_Calls = [], tn_Audits = [], tn_Cache = None\<rparr>"

definition sample_registry :: trusted_registry where
  "sample_registry = \<lparr>rg_Store = True, rg_CrowdSec = Some (\<lambda>_. Inr [(''192.0.2.1'', [])]), rg_CrowdSecAllowlistName = ''trusted'', rg_Cloudflare = Some (\<lambda>_. Inl (Plain ''timeout'')), rg_CloudflareZoneID = ''zone'',
     rg_Mode = ''enforce'', rg_Audit = True, rg_Cache = True, rg_order = (\<lambda>xs. xs)\<rparr>"

theorem trusted_sync_additive_witness:
  "snd (fst (trusted_Sync sample_registry sample_trusted)) = None \<and> tn_Calls (snd (trusted_Sync sample_registry sample_trusted)) = [(allow_call office, True)]"
proof -
  obtain report err w' where run: "trusted_Sync sample_registry sample_trusted = ((report, err), w')" by (metis prod.exhaust)
  have "trusted_List sample_trusted = (Inr [office], sample_trusted\<lparr>io_step := 1\<rparr>)" by (simp add: trusted_List_def io_call_def sample_trusted_def)
  moreover have "rg_Store sample_registry" by (simp add: sample_registry_def)
  ultimately have "snd (fst (trusted_Sync sample_registry sample_trusted)) = None" by (simp add: trusted_Sync_def Let_def split_beta)
  then have ok: "err = None" using run by simp
  obtain new n m where new: "tn_Calls w' = tn_Calls sample_trusted @ new" "no_faults sample_trusted \<longrightarrow> (\<forall>c \<in> set new. snd c)"
      "err = None \<longrightarrow> map fst new = (case rg_CrowdSec sample_registry of Some f \<Rightarrow> if rg_CrowdSecAllowlistName sample_registry \<noteq> [] then spoke_calls sample_registry allow_call (f n) [office] else [] | None \<Rightarrow> []) @
       (case rg_Cloudflare sample_registry of Some f \<Rightarrow> if rg_CloudflareZoneID sample_registry \<noteq> [] then spoke_calls sample_registry rule_call (f m) [office] else [] | None \<Rightarrow> [])"
    using trusted_sync_additive [OF run, of "[office]"] by (elim exE conjE meta_impE) (simp add: sample_trusted_def, rule that)
  have "map fst new = [allow_call office]" using new(3) ok by (simp add: sample_registry_def spoke_calls_def pushes_def office_def)
  moreover have "\<forall>c \<in> set new. snd c" using new(2) by (simp add: sample_trusted_def no_faults_def)
  ultimately have "new = [(allow_call office, True)]" by (cases new) auto
  then show ?thesis using new(1) run ok by (simp add: sample_trusted_def)
qed

theorem trusted_store_roundtrip_witness:
  "trusted_ok (snd (trusted_Upsert office sample_trusted)) \<and> (\<exists>old w2. trusted_Get (te_Value office) (snd (trusted_Upsert office sample_trusted)) = (Inr (Some old), w2) \<and> te_Label old = ''office'') \<and>
   (\<exists>w2. trusted_Get (te_Value office) (snd (trusted_Remove (te_Value office) sample_trusted)) = (Inr None, w2))"
proof -
  have ok: "trusted_ok sample_trusted" by (simp add: trusted_ok_def sample_trusted_def)
  have nf: "no_faults sample_trusted \<and> \<not> db_ReadOnly sample_trusted" by (simp add: no_faults_def sample_trusted_def)
  note both = trusted_store_roundtrip [of sample_trusted office "te_Value office"]
  have inv: "trusted_ok (snd (trusted_Upsert office sample_trusted))" using mp [OF conjunct1 [OF both] ok] by (rule conjunct1)
  note reread = mp [OF conjunct2 [OF both] nf]
  obtain old w2 where "trusted_Get (te_Value office) (snd (trusted_Upsert office sample_trusted)) = (Inr (Some old), w2)" "te_Label old = te_Label office" using conjunct1 [OF reread] by (elim exE conjE) (rule that)
  moreover have "te_Label office = ''office''" by (simp add: office_def)
  ultimately have "\<exists>old w2. trusted_Get (te_Value office) (snd (trusted_Upsert office sample_trusted)) = (Inr (Some old), w2) \<and> te_Label old = ''office''" by (intro exI conjI) simp_all
  with inv conjunct2 [OF reread] show ?thesis by (intro conjI)
qed

end
