(* ===== verification/Spec2Isabelle.thy ===== *)
theory Spec2Isabelle
  imports Breaker Work_Queue Checkpoint Lifecycle Coordination Scheduler Execution Rollback Ban_Cycle Reporting Assembly Pipeline Autodeban Ban_Sync Trusted_Networks
begin

text \<open>
  A verification library for \<open>security-automation-go\<close>, the daemon \<open>cf-sync\<close> and its packages: a control plane that keeps the access rules of an edge provider in line with what the
  operator wants, bans abusive addresses automatically and reports them to AbuseIPDB. Everything below is a shallow embedding of the Go sources under \<open>src/\<close>; the names of the definitions
  are those of the source, with the package as a prefix where two packages share a name.

  \<^bold>\<open>The program.\<close> Four groups of packages work together.
  \<^item> The runtime control plane. A persistent runtime state (\<open>internal/runtime/state\<close>) is moved by a state machine (\<open>internal/runtime/engine\<close>) through a table of lifecycle
    transitions; the pure reducer (\<open>internal/runtime/reducer\<close>) computes the next state, an event bus appends what happened to an event log in SQLite, and a checkpoint manager saves states
    from which the log can be replayed and up to which it can be compacted. Leases with fencing tokens, renewed by a heartbeat, exclude other daemons; a scheduler with a coalescing queue, tenant
    budgets, cooldowns and a worker pool decides when a run starts.
  \<^item> Reconciliation. A run of the pipeline (\<open>internal/orchestrator/pipeline\<close>) lists the provider's rules, assembles them into a snapshot, plans the operations towards a target, asks for
    their admission (ownership claims and policies), translates them into actions and validates those. The governed executor (\<open>internal/execution\<close>) carries out batches of mutations behind
    the circuit breaker, the approvals and the fence of the lease; \<open>internal/rollback\<close> plans and runs compensations that survive interruptions.
  \<^item> Automatic bans. The evaluator of \<open>internal/services/autoban\<close> decides about an address from the burst counter, the protected networks and the reputation gate; accepted bans are
    recorded with an escalating duration (\<open>internal/cloudflare/banlifecycle\<close>) and lifted by the cleanup worker when they expire, or earlier by the scan of
    \<open>internal/security/autodeban\<close>. Two services follow up the bans of CrowdSec: \<open>internal/recidive\<close> escalates repeat offenders, \<open>internal/cidrban\<close> bans networks. The synchronisation of
    \<open>internal/app\<close> gives every address that CrowdSec bans an access rule at Cloudflare and removes stale rules, and the registry of trusted networks pushes what must never be banned to both services.
  \<^item> Reporting. \<open>internal/services/reporting\<close> classifies security events, suppresses what must not be reported, reserves the rest in an outbox, one pending report per address, and a worker
    delivers them after the aggregation window.

  \<^bold>\<open>The conventions of the model.\<close> An \<open>int\<close> of Go is an integer kept in 64 bits by \<open>int64_of\<close> where the code can overflow, addresses and hashes are machine words. An instant is the
  number of nanoseconds since the zero time, with the saturating arithmetic of package \<open>time\<close>. An error is a value of \<open>Apperr.error\<close>, a fallible operation returns \<open>error + 'a\<close>.
  Strings are lists of bytes. A component with state takes a record of the world and returns it changed; the records extend one another (\<open>io_env\<close>, the directory, the database tables, then one
  extension per service), so that a component only sees the parts that it names. Instead of fuel and of assumptions about the surroundings, each world carries three scripts, infinite sequences that
  say what the clock shows (\<open>io_clock\<close>), which call of the database, file system or provider fails and how (\<open>io_fault\<close>), and how a race is decided (\<open>io_choice\<close>), with a
  counter \<open>io_step\<close> of the entries used. A theorem about all worlds is a theorem about all failures and clocks; a theorem that something succeeds assumes \<open>no_faults\<close>. Every loop of the model
  is a total function: it recurses over a list, or has a termination proof (the visits of the dependency graph, the heap operations, the compensations of a rollback, the groups of an address), or is bounded by the text it consumes; the heartbeat is
  a function of the number of ticks before it is stopped, and its theorem is about every such number. Concurrency is an inductive step relation over the critical sections that the source guards with a mutex, and the theorems hold for every
  interleaving. The order in which a Go map is walked through is an argument where the result could depend on it. Code that is not in the repository is an argument: what the provider lists or answers, the reporter, the lookups of external reputation services.

  \<^bold>\<open>The theories.\<close> First the language and the library:
  \<^item> \<open>Go_Prelude\<close> (integers, time, strings, the collections of lemmas), \<open>Go_Sha256\<close>, \<open>Go_Json\<close> (JSON trees and what survives reading them back, numbers, layouts of times), \<open>Go_World\<close> (the
    scripts and the file system), \<open>Go_Heap\<close> (\<open>container/heap\<close> with the locales \<open>heap_order\<close> and \<open>heap_interface\<close> for what the interface methods must satisfy),
    \<open>Go_Net\<close> (parsing of addresses, prefixes as words), \<open>Apperr\<close> (\<open>internal/apperr\<close>).

  The control plane:
  \<^item> \<open>Breaker\<close>: \<open>internal/runtime/breaker\<close> and \<open>health\<close>; when the breaker opens, refuses and closes again.
  \<^item> \<open>Runtime_Scope\<close>, \<open>Work_Queue\<close>: \<open>scope\<close> and \<open>scheduler/queue\<close>; the queue is a heap with an index of keys, and the locale \<open>coalescing_queue\<close> is its contract: \<open>Push\<close>
    refines it, draining returns the items in the order of priority and age, and the capacity is never exceeded.
  \<^item> \<open>Runtime_Models\<close>, \<open>State_Store\<close>, \<open>Runtime_Events\<close>, \<open>Reducer\<close>, \<open>Replay\<close>: the data, their JSON form, the store that replaces its file atomically, the typed events, the pure
    transition functions and the replay of a log from a checkpoint (locale \<open>event_log\<close>).
  \<^item> \<open>Sqlite_Db\<close>, \<open>Event_Repository\<close>, \<open>Checkpoint\<close>: the tables, the append-only log with a sequence per scope and deduplication by identity, the checkpoint manager with
    compaction. Appending refines an abstract log; replay after compaction gives the same state as replay of everything; saved checkpoints are read back.
  \<^item> \<open>Lifecycle\<close>: \<open>engine/state_machine.go\<close>. A transition is sound against the table whatever fails; the reachable states satisfy the lease invariant; the published event replays to the
    stored state; the order of the statuses of every path.
  \<^item> \<open>Lease_Repository\<close>, \<open>Coordination\<close>: \<open>storage/sqlite/lease.go\<close> (locale \<open>lease_store\<close>: mutual exclusion until expiry) and \<open>internal/runtime/coordination\<close>: consecutive
    fencing tokens, when the heartbeat reports a loss.
  \<^item> \<open>Worker_Pool\<close>, \<open>Scheduler\<close>: budgets, the pool as a step relation, cooldowns, ticks and the recovery at startup.

  Reconciliation:
  \<^item> \<open>Planner\<close>: \<open>internal/snapshot\<close>, \<open>internal/reconciliation\<close>; carrying out a plan gives the target. \<open>Snapshot_Graph\<close>: the dependency order, with a proof that it
    always returns. \<open>Assembly\<close>: normaliser, snapshot assembler, translation into actions and their validation.
  \<^item> \<open>Execution\<close>, \<open>Rollback\<close>: the governed executor and the compensations, with a journal and the provider's calls as a log that the theorems speak about.
  \<^item> \<open>Ownership\<close> (locale \<open>claim_store\<close>), \<open>Policy\<close>, \<open>Pipeline\<close>: claims and their lineage, the policy engine, the admission controller, and \<open>DryRun\<close> composed of its stages: what a
    successful run was allowed to do, when a run succeeds, and that a denied run blocks the following ones.

  Bans and reports:
  \<^item> \<open>Protection\<close>, \<open>Reputation\<close>, \<open>Autoban\<close>: trust registry and shield, reputation gate, burst detection (equivalent to a window count) and the guarded decision.
  \<^item> \<open>Ban_Lifecycle\<close>, \<open>Ban_Cycle\<close>: durations, store, cleanup worker, ban executor; one active ban per address, and the whole cycle of a ban.
  \<^item> \<open>Autodeban\<close>, \<open>Recidive\<close>: when a scan may lift a ban before it expires, with the search in the evidence of the reports; how bans are counted from a cursor, that the counting never starts
    without one, and exactly which networks are banned.
  \<^item> \<open>Ban_Sync\<close>, \<open>Trusted_Networks\<close> (locale \<open>spoke\<close>, the contract of the two services that are pushed to): the rules follow the bans exactly, stale rules are removed and nothing else, trust is only
    added, and the registry reads back what was stored.
  \<^item> \<open>Risk\<close>, \<open>Decision_Gate\<close> (locale \<open>ttl_memory\<close>), \<open>Report_Outbox\<close>, \<open>Outbox_Proofs\<close> (locale \<open>outbox_invariant\<close>), \<open>Outbox_Delivery\<close>, \<open>Reporting\<close>:
    classification, comments, the gate and its lock per address, the outbox with claims and expiry, the delivery, and \<open>Process\<close>: nothing unsuitable leaves the service, and what is reserved is delivered.

  The properties of a component stand in its theory; those of \<open>Pipeline\<close>, \<open>Reporting\<close>, \<open>Ban_Cycle\<close>, \<open>Rollback\<close> and \<open>Coordination\<close> span several.

  \<^bold>\<open>What is left out.\<close> The console (\<open>internal/ui\<close>) and the other HTTP surfaces (\<open>internal/api\<close>, \<open>internal/mcpserver\<close>): rendering and request plumbing. The clients, transports and
  adapters of the external services and the AI providers: pure input and output, whose answers are arguments here. The resource governor, the limiter, the jitter of retries and the drift engine: they
  compute in floating point, which the model has no exact counterpart of; where the modelled code asks them, the answer is an argument. The Rego engine of \<open>internal/policy/opa\<close>, which calls a
  third-party interpreter and which no modelled path reaches. Logging, metrics, tracing and the audit journal's file format, which nothing reads back. The construction of the daemon in \<open>cmd\<close>, apart
  from the ownership domains and the ban executor that it defines. Two calls that overlap inside a transaction of SQLite are not interleaved: the database serialises writers. Data races, where the
  source reads a shared map without its lock, are recorded as findings and not modelled.
\<close>

end
